(* ===== verification/Prelude.thy ===== *)
theory Prelude
  imports Complex_Main "HOL-Library.AList" "HOL-Library.Sublist"
    "HOL-Library.List_Lexorder" "HOL-Library.Char_ord" "HOL-Library.Word" "HOL-Library.Product_Lexorder"
begin

text \<open>
  Shared vocabulary of the development: Python strings as HOL strings (ASCII text), the string
  methods the code calls, JSON documents as the standard library hands them to the code, dictionaries
  as association lists in insertion order, error results as sums, and the generic lemmas and the
  keyed-store interface that several components use.
\<close>

named_theorems collector_simps \<open>characteristic equations of the model's small operations\<close>

type_synonym octets = "8 word list"
type_synonym ('e, 'a) result = "'e + 'a"

section \<open>Strings\<close>

text \<open>
  Text is ASCII: one \<^typ>\<open>char\<close> per code point. The whitespace that \<open>str.strip\<close> removes
  is, below 128, the codes 9 to 13 and 28 to 32.
\<close>

definition char_code :: "char \<Rightarrow> nat" where
  "char_code c = of_char c"

definition is_space :: "char \<Rightarrow> bool" where
  "is_space c \<longleftrightarrow> (9 \<le> char_code c \<and> char_code c \<le> 13) \<or> (28 \<le> char_code c \<and> char_code c \<le> 32)"

definition is_digit :: "char \<Rightarrow> bool" where
  "is_digit c \<longleftrightarrow> 48 \<le> char_code c \<and> char_code c \<le> 57"

definition is_lower :: "char \<Rightarrow> bool" where
  "is_lower c \<longleftrightarrow> 97 \<le> char_code c \<and> char_code c \<le> 122"

definition is_upper :: "char \<Rightarrow> bool" where
  "is_upper c \<longleftrightarrow> 65 \<le> char_code c \<and> char_code c \<le> 90"

definition is_hex_char :: "char \<Rightarrow> bool" where
  "is_hex_char c \<longleftrightarrow> is_digit c \<or> (97 \<le> char_code c \<and> char_code c \<le> 102)"

definition is_word_char :: "char \<Rightarrow> bool" where
  "is_word_char c \<longleftrightarrow> is_digit c \<or> is_lower c \<or> is_upper c \<or> c = CHR ''_''"

definition upper_char :: "char \<Rightarrow> char" where
  "upper_char c = (if is_lower c then char_of (char_code c - 32) else c)"

definition lower_char :: "char \<Rightarrow> char" where
  "lower_char c = (if is_upper c then char_of (char_code c + 32) else c)"

definition py_upper :: "string \<Rightarrow> string" where
  "py_upper s = List.map upper_char s"

definition py_lower :: "string \<Rightarrow> string" where
  "py_lower s = List.map lower_char s"

definition py_strip :: "string \<Rightarrow> string" where
  "py_strip s = rev (dropWhile is_space (rev (dropWhile is_space s)))"

text \<open>\<open>needle in text\<close>, \<open>text.startswith(p)\<close>, \<open>text.split(c)\<close>.\<close>

fun contains :: "string \<Rightarrow> string \<Rightarrow> bool" where
  "contains needle [] \<longleftrightarrow> needle = []"
| "contains needle (c # cs) \<longleftrightarrow> prefix needle (c # cs) \<or> contains needle cs"

definition starts_with :: "string \<Rightarrow> string \<Rightarrow> bool" where
  "starts_with p s \<longleftrightarrow> prefix p s"

fun split_on :: "'a \<Rightarrow> 'a list \<Rightarrow> 'a list list" where
  "split_on c [] = [[]]"
| "split_on c (x # xs) =
     (if x = c then [] # split_on c xs
      else (case split_on c xs of [] \<Rightarrow> [[x]] | y # ys \<Rightarrow> (x # y) # ys))"

fun join_with :: "'a list \<Rightarrow> 'a list list \<Rightarrow> 'a list" where
  "join_with sep [] = []"
| "join_with sep [x] = x"
| "join_with sep (x # y # ys) = x @ sep @ join_with sep (y # ys)"

text \<open>The character classes evaluate on literal characters.\<close>

lemma char_code_Char [simp]:
  "char_code (Char b0 b1 b2 b3 b4 b5 b6 b7) = horner_sum of_bool 2 [b0, b1, b2, b3, b4, b5, b6, b7]"
  by (simp add: char_code_def)

lemma class_Char [simp]:
  "is_space (Char b0 b1 b2 b3 b4 b5 b6 b7) \<longleftrightarrow> (let n = char_code (Char b0 b1 b2 b3 b4 b5 b6 b7) in
     (9 \<le> n \<and> n \<le> 13) \<or> (28 \<le> n \<and> n \<le> 32))"
  "is_digit (Char b0 b1 b2 b3 b4 b5 b6 b7) \<longleftrightarrow> (let n = char_code (Char b0 b1 b2 b3 b4 b5 b6 b7) in 48 \<le> n \<and> n \<le> 57)"
  "is_lower (Char b0 b1 b2 b3 b4 b5 b6 b7) \<longleftrightarrow> (let n = char_code (Char b0 b1 b2 b3 b4 b5 b6 b7) in 97 \<le> n \<and> n \<le> 122)"
  "is_upper (Char b0 b1 b2 b3 b4 b5 b6 b7) \<longleftrightarrow> (let n = char_code (Char b0 b1 b2 b3 b4 b5 b6 b7) in 65 \<le> n \<and> n \<le> 90)"
  by (simp_all only: is_space_def is_digit_def is_lower_def is_upper_def Let_def)

lemma contains_iff_sublist: "contains p s \<longleftrightarrow> sublist p s"
  by (induction s) (auto simp: sublist_Cons_right)

lemma split_on_ne [simp]: "split_on c xs \<noteq> []"
  by (induction xs) (auto split: list.splits)

lemma split_on_no_sep: "c \<notin> set xs \<Longrightarrow> split_on c xs = [xs]"
  by (induction xs) auto

lemma split_on_append_sep:
  "c \<notin> set xs \<Longrightarrow> split_on c (xs @ c # ys) = xs # split_on c ys"
  by (induction xs) auto

lemma join_with_Cons: "ys \<noteq> [] \<Longrightarrow> join_with sep (x # ys) = x @ sep @ join_with sep ys"
  by (cases ys) auto

lemma split_join:
  "\<lbrakk>xss \<noteq> []; \<forall>xs \<in> set xss. c \<notin> set xs\<rbrakk> \<Longrightarrow> split_on c (join_with [c] xss) = xss"
proof (induction xss)
  case Nil
  then show ?case by simp
next
  case (Cons x xss)
  then show ?case
    by (cases "xss = []") (auto simp: split_on_no_sep join_with_Cons split_on_append_sep)
qed

lemma split_on_pieces: "x \<in> set (split_on c xs) \<Longrightarrow> c \<notin> set x"
proof (induction xs arbitrary: x)
  case Nil
  then show ?case by simp
next
  case (Cons a xs)
  show ?case
  proof (cases "a = c")
    case True
    with Cons show ?thesis by auto
  next
    case False
    obtain y ys where y: "split_on c xs = y # ys" by (cases "split_on c xs") auto
    with Cons.prems False have "x = a # y \<or> x \<in> set ys" by simp
    with Cons.IH y False show ?thesis by auto
  qed
qed

lemma dropWhile_idem [simp]: "dropWhile P (dropWhile P xs) = dropWhile P xs"
  by (induction xs) auto

lemma py_strip_Nil [simp]: "py_strip [] = []"
  by (simp add: py_strip_def)

lemma py_upper_Nil [simp]: "py_upper [] = []"
  by (simp add: py_upper_def)

lemma py_upper_eq_Nil [simp]: "py_upper s = [] \<longleftrightarrow> s = []"
  by (simp add: py_upper_def)

lemma py_lower_eq_Nil [simp]: "py_lower s = [] \<longleftrightarrow> s = []"
  by (simp add: py_lower_def)

lemma hd_dropWhile_rev:
  "xs \<noteq> [] \<Longrightarrow> \<not> P (hd xs) \<Longrightarrow> rev (dropWhile P (rev xs)) \<noteq> [] \<and> hd (rev (dropWhile P (rev xs))) = hd xs"
proof (induction xs rule: rev_induct)
  case Nil
  then show ?case by simp
next
  case (snoc x xs)
  show ?case
  proof (cases "P x")
    case True
    with snoc have "xs \<noteq> []" by (cases xs) auto
    with snoc True show ?thesis by auto
  next
    case False
    then show ?thesis by simp
  qed
qed

lemma py_strip_idem [simp]: "py_strip (py_strip s) = py_strip s"
proof (cases "dropWhile is_space s = []")
  case True
  then have "py_strip s = []" by (simp only: py_strip_def dropWhile.simps rev.simps)
  then show ?thesis by simp
next
  case False
  let ?d = "dropWhile is_space s"
  from False have "\<not> is_space (hd ?d)" by (rule hd_dropWhile)
  with False have ne: "py_strip s \<noteq> []" and hd: "\<not> is_space (hd (py_strip s))"
    unfolding py_strip_def using hd_dropWhile_rev [of ?d is_space] by simp_all
  from ne hd have "dropWhile is_space (py_strip s) = py_strip s"
    by (cases "py_strip s") auto
  then show ?thesis by (simp add: py_strip_def)
qed

section \<open>Decimal numerals\<close>

definition digit_char :: "nat \<Rightarrow> char" where
  "digit_char d = char_of (48 + d)"

definition digit_val :: "char \<Rightarrow> nat" where
  "digit_val c = char_code c - 48"

text \<open>\<open>pad k n\<close> is the zero-filled \<open>k\<close>-digit decimal of \<open>n\<close> (as \<open>strftime\<close> prints a field).\<close>

fun pad :: "nat \<Rightarrow> nat \<Rightarrow> string" where
  "pad 0 n = []"
| "pad (Suc k) n = pad k (n div 10) @ [digit_char (n mod 10)]"

fun show_nat :: "nat \<Rightarrow> string" where
  "show_nat n = (if n < 10 then [digit_char n] else show_nat (n div 10) @ [digit_char (n mod 10)])"

declare show_nat.simps [simp del]

definition read_digits :: "string \<Rightarrow> nat" where
  "read_digits s = foldl (\<lambda>n c. 10 * n + digit_val c) 0 s"

lemma char_code_char_of [simp]: "n < 256 \<Longrightarrow> char_code (char_of n) = n"
  by (simp add: char_code_def)

lemma char_code_inj: "char_code a = char_code b \<longleftrightarrow> a = b"
  by (simp add: char_code_def)

lemma digit_char_code: "d < 10 \<Longrightarrow> char_code (digit_char d) = 48 + d"
  by (simp add: digit_char_def)

lemma is_digit_digit_char [simp]: "d < 10 \<Longrightarrow> is_digit (digit_char d)"
  by (simp add: is_digit_def digit_char_code)

lemma digit_val_digit_char [simp]: "d < 10 \<Longrightarrow> digit_val (digit_char d) = d"
  by (simp add: digit_val_def digit_char_code)

lemma length_pad [simp]: "length (pad k n) = k"
  by (induction k arbitrary: n) auto

lemma pad_digits: "list_all is_digit (pad k n)"
  by (induction k arbitrary: n) auto

lemma read_digits_snoc [simp]: "read_digits (s @ [c]) = 10 * read_digits s + digit_val c"
  by (simp add: read_digits_def)

lemma read_digits_Nil [simp]: "read_digits [] = 0"
  by (simp add: read_digits_def)

lemma read_pad: "n < 10 ^ k \<Longrightarrow> read_digits (pad k n) = n"
proof (induction k arbitrary: n)
  case 0
  then show ?case by simp
next
  case (Suc k)
  then have "n div 10 < 10 ^ k" by (simp add: less_mult_imp_div_less)
  with Suc.IH show ?case by simp
qed

lemma read_show_nat: "read_digits (show_nat n) = n"
  by (induction n rule: show_nat.induct) (subst show_nat.simps, auto simp: read_digits_def)

lemma show_nat_digits: "list_all is_digit (show_nat n)"
  by (induction n rule: show_nat.induct) (subst show_nat.simps, auto)

lemma show_nat_inj: "show_nat m = show_nat n \<Longrightarrow> m = n"
  using read_show_nat by metis

section \<open>Lexicographic order of fixed-width text\<close>

lemma append_less_append:
  fixes a b :: "'a::order list"
  assumes "length a = length b"
  shows "a @ x < b @ y \<longleftrightarrow> a < b \<or> (a = b \<and> x < y)"
  using assms by (induction a b rule: list_induct2) auto

lemma char_less_code: "a < b \<longleftrightarrow> char_code a < char_code b"
  by (simp add: less_char_def char_code_def)

lemma digit_char_less: "\<lbrakk>a < 10; b < 10\<rbrakk> \<Longrightarrow> digit_char a < digit_char b \<longleftrightarrow> a < b"
  by (simp add: char_less_code digit_char_code)

lemma pad_inj: "\<lbrakk>n < 10 ^ k; m < 10 ^ k\<rbrakk> \<Longrightarrow> pad k n = pad k m \<longleftrightarrow> n = m"
  using read_pad by metis

lemma pad_less:
  "\<lbrakk>n < 10 ^ k; m < 10 ^ k\<rbrakk> \<Longrightarrow> pad k n < pad k m \<longleftrightarrow> n < m"
proof (induction k arbitrary: n m)
  case 0
  then show ?case by simp
next
  case (Suc k)
  have d: "n div 10 < 10 ^ k" "m div 10 < 10 ^ k"
    using Suc.prems by (simp_all add: less_mult_imp_div_less)
  have "pad (Suc k) n < pad (Suc k) m \<longleftrightarrow>
      n div 10 < m div 10 \<or> (n div 10 = m div 10 \<and> n mod 10 < m mod 10)"
    using Suc.IH [OF d] pad_inj [OF d]
    by (simp add: append_less_append digit_char_less)
  also have "\<dots> \<longleftrightarrow> n < m"
    using div_mult_mod_eq [of n 10] div_mult_mod_eq [of m 10]
      mod_less_divisor [of 10 n] mod_less_divisor [of 10 m] by linarith
  finally show ?case .
qed

section \<open>Fixed layouts\<close>

text \<open>\<open>fullmatch\<close> of a fixed layout; \<open>9\<close> stands for a digit.\<close>

fun fits :: "string \<Rightarrow> string \<Rightarrow> bool" where
  "fits [] [] \<longleftrightarrow> True"
| "fits (t # ts) (c # cs) \<longleftrightarrow> (if t = CHR ''9'' then is_digit c else c = t) \<and> fits ts cs"
| "fits _ _ \<longleftrightarrow> False"

lemma fits_append: "length a = length t \<Longrightarrow> fits (t @ t') (a @ a') \<longleftrightarrow> fits t a \<and> fits t' a'"
  by (induction a t rule: list_induct2) auto

lemma fits_digits: "list_all is_digit s \<Longrightarrow> fits (replicate (length s) (CHR ''9'')) s"
  by (induction s) auto

lemma fits_pad: "fits (replicate k (CHR ''9'')) (pad k n)"
  using fits_digits [of "pad k n"] pad_digits [of k n] by simp

section \<open>Slices\<close>

text \<open>\<open>xs[start:start + n] for start in range(0, len(xs), n)\<close>.\<close>

function chunks :: "nat \<Rightarrow> 'a list \<Rightarrow> 'a list list" where
  "chunks n xs = (if xs = [] \<or> n = 0 then [] else take n xs # chunks n (drop n xs))"
  by pat_completeness auto
termination
  by (relation "measure (\<lambda>(n, xs). length xs)") auto

declare chunks.simps [simp del]

lemma concat_chunks: "n \<noteq> 0 \<Longrightarrow> concat (chunks n xs) = xs"
  by (induction n xs rule: chunks.induct) (subst chunks.simps, simp)

section \<open>JSON documents\<close>

text \<open>
  What \<open>json.loads\<close> hands the code. An object has its members in order, keys distinct (a Python
  dict); \<open>bool\<close> is a subclass of \<open>int\<close> in Python, so \<open>True == 1\<close> and \<open>1.0 == 1\<close>, which
  \<open>json_is_int\<close> writes out for the comparisons of the code with an integer constant.
\<close>

datatype json = JNull | JBool bool | JInt int | JFloat rat | JStr string
  | JArr "json list" | JObj "(string \<times> json) list"

fun json_is_int :: "json \<Rightarrow> int \<Rightarrow> bool" where
  "json_is_int (JInt i) n \<longleftrightarrow> i = n"
| "json_is_int (JBool b) n \<longleftrightarrow> (if b then 1 else 0) = n"
| "json_is_int (JFloat r) n \<longleftrightarrow> r = of_int n"
| "json_is_int _ n \<longleftrightarrow> False"

definition jget :: "(string \<times> json) list \<Rightarrow> string \<Rightarrow> json" where
  "jget members k = (case map_of members k of None \<Rightarrow> JNull | Some v \<Rightarrow> v)"

definition jget_or :: "(string \<times> json) list \<Rightarrow> string \<Rightarrow> json \<Rightarrow> json" where
  "jget_or members k dflt = (case map_of members k of None \<Rightarrow> dflt | Some v \<Rightarrow> v)"

lemma jget_Nil [simp]: "jget [] k = JNull"
  by (simp add: jget_def)

lemma jget_Cons [simp]: "jget ((k', v) # ms) k = (if k' = k then v else jget ms k)"
  by (simp add: jget_def)

section \<open>Results\<close>

fun bind_result :: "'e + 'a \<Rightarrow> ('a \<Rightarrow> 'e + 'b) \<Rightarrow> 'e + 'b" where
  "bind_result (Inl e) f = Inl e"
| "bind_result (Inr a) f = f a"

text \<open>A list comprehension whose body may raise: the first error stops it.\<close>

fun map_result :: "('a \<Rightarrow> 'e + 'b) \<Rightarrow> 'a list \<Rightarrow> 'e + 'b list" where
  "map_result f [] = Inr []"
| "map_result f (x # xs) =
     bind_result (f x) (\<lambda>y. bind_result (map_result f xs) (\<lambda>ys. Inr (y # ys)))"

text \<open>A loop over a state whose body may raise.\<close>

fun fold_result :: "('s \<Rightarrow> 'a \<Rightarrow> 'e + 's) \<Rightarrow> 's \<Rightarrow> 'a list \<Rightarrow> 'e + 's" where
  "fold_result f s [] = Inr s"
| "fold_result f s (x # xs) = bind_result (f s x) (\<lambda>s'. fold_result f s' xs)"

lemma fold_result_append: "fold_result f s (xs @ ys) = bind_result (fold_result f s xs) (\<lambda>s'. fold_result f s' ys)"
proof (induction xs arbitrary: s)
  case Nil
  then show ?case by simp
next
  case (Cons x xs)
  then show ?case by (cases "f s x") auto
qed

text \<open>A body that keeps an invariant and never raises under it makes a loop that does neither.\<close>

lemma fold_result_invariant:
  assumes "P s" "\<And>s x. \<lbrakk>P s; x \<in> set xs\<rbrakk> \<Longrightarrow> \<exists>s'. f s x = Inr s' \<and> P s'"
  shows "\<exists>s'. fold_result f s xs = Inr s' \<and> P s'"
  using assms
proof (induction xs arbitrary: s)
  case Nil
  then show ?case by simp
next
  case (Cons x xs)
  from Cons.prems obtain s' where "f s x = Inr s'" "P s'" by auto
  with Cons show ?case by auto
qed

lemma fold_result_keeps:
  assumes "fold_result f s xs = Inr s'" "P s" "\<And>s x s'. \<lbrakk>P s; x \<in> set xs; f s x = Inr s'\<rbrakk> \<Longrightarrow> P s'"
  shows "P s'"
  using assms
proof (induction xs arbitrary: s)
  case Nil
  then show ?case by simp
next
  case (Cons x xs)
  show ?case
  proof (cases "f s x")
    case (Inl e)
    with Cons.prems(1) show ?thesis by simp
  next
    case (Inr s1)
    show ?thesis
    proof (rule Cons.IH)
      show "fold_result f s1 xs = Inr s'" using Cons.prems(1) Inr by simp
      show "P s1" using Cons.prems(2) Cons.prems(3) [OF _ _ Inr] by simp
    qed (use Cons.prems(3) in auto)
  qed
qed

lemma bind_result_Inr [simp]: "bind_result r f = Inr b \<longleftrightarrow> (\<exists>a. r = Inr a \<and> f a = Inr b)"
  by (cases r) auto

lemma bind_result_Inl: "bind_result r f = Inl e \<longleftrightarrow> r = Inl e \<or> (\<exists>a. r = Inr a \<and> f a = Inl e)"
  by (cases r) auto

lemma map_result_map: "(\<And>x. x \<in> set xs \<Longrightarrow> f (g x) = Inr (h x)) \<Longrightarrow> map_result f (List.map g xs) = Inr (List.map h xs)"
  by (induction xs) auto

lemma map_result_all: "\<lbrakk>map_result f xs = Inr ys; \<And>x y. x \<in> set xs \<Longrightarrow> f x = Inr y \<Longrightarrow> P y\<rbrakk> \<Longrightarrow> \<forall>y \<in> set ys. P y"
proof (induction xs arbitrary: ys)
  case Nil
  then show ?case by simp
next
  case (Cons x xs)
  from Cons.prems(1) obtain y ys' where ys: "f x = Inr y" "map_result f xs = Inr ys'" "ys = y # ys'" by auto
  have "\<forall>y \<in> set ys'. P y" by (rule Cons.IH [OF ys(2)]) (rule Cons.prems(2), simp_all)
  then show ?case using Cons.prems(2) [of x y] ys by simp
qed


lemma map_result_length: "map_result f xs = Inr ys \<Longrightarrow> length ys = length xs"
  by (induction xs arbitrary: ys) auto

section \<open>The keyed-store interface\<close>

text \<open>
  What the code relies on wherever it keeps values under a key and replaces them by key: the source
  cursors of the state document, the staged hold ledger, the staged patron overlay. A provider
  promises that a read after a write sees exactly that write.
\<close>

locale keyed_store =
  fixes get :: "'s \<Rightarrow> 'k \<Rightarrow> 'v option"
    and put :: "'s \<Rightarrow> 'k \<Rightarrow> 'v \<Rightarrow> 's"
    and inv :: "'s \<Rightarrow> bool"
  assumes get_put: "inv s \<Longrightarrow> get (put s k v) = (get s)(k \<mapsto> v)"
    and inv_put: "inv s \<Longrightarrow> inv (put s k v)"
begin

lemma get_put_same: "inv s \<Longrightarrow> get (put s k v) k = Some v"
  by (simp add: get_put)

lemma get_put_other: "\<lbrakk>inv s; k' \<noteq> k\<rbrakk> \<Longrightarrow> get (put s k v) k' = get s k'"
  by (simp add: get_put)

lemma put_put_same: "inv s \<Longrightarrow> get (put (put s k v) k w) = get (put s k w)"
  by (simp add: get_put inv_put)

lemma put_commute:
  "\<lbrakk>inv s; k \<noteq> k'\<rbrakk> \<Longrightarrow> get (put (put s k v) k' w) = get (put (put s k' w) k v)"
  by (auto simp: get_put inv_put fun_upd_twist)

lemma foldl_put:
  "inv s \<Longrightarrow> inv (foldl (\<lambda>s (k, v). put s k v) s kvs)
    \<and> get (foldl (\<lambda>s (k, v). put s k v) s kvs) = get s ++ map_of (rev kvs)"
proof (induction kvs arbitrary: s)
  case Nil
  then show ?case by simp
next
  case (Cons kv kvs)
  obtain k v where "kv = (k, v)" by (cases kv)
  with Cons.IH [OF inv_put [OF Cons.prems]] show ?case
    by (simp add: get_put [OF Cons.prems] map_add_def fun_eq_iff split: option.splits)
qed

end

locale erasable_store = keyed_store get put inv
  for get :: "'s \<Rightarrow> 'k \<Rightarrow> 'v option" and put :: "'s \<Rightarrow> 'k \<Rightarrow> 'v \<Rightarrow> 's" and inv :: "'s \<Rightarrow> bool" +
  fixes del :: "'s \<Rightarrow> 'k \<Rightarrow> 's"
  assumes get_del: "inv s \<Longrightarrow> get (del s k) = (get s)(k := None)"
    and inv_del: "inv s \<Longrightarrow> inv (del s k)"
begin

lemma del_put: "inv s \<Longrightarrow> get (del (put s k v) k) = get (del s k)"
  by (simp add: get_put get_del inv_put)

lemma del_other: "\<lbrakk>inv s; k' \<noteq> k\<rbrakk> \<Longrightarrow> get (del s k) k' = get s k'"
  by (simp add: get_del)

end

lemma find_map_same: "(\<And>x. P (f x) = P x) \<Longrightarrow> find P (List.map f xs) = map_option f (find P xs)"
  by (induction xs) auto

end
