(* ===== verification/Calendar.thy ===== *)
theory Calendar
  imports Prelude
begin

text \<open>
  Instants and their spellings. An aware UTC \<open>datetime\<close> is its number of microseconds since
  1970-01-01T00:00:00Z; \<open>ord2ymd\<close> is the proleptic Gregorian calendar of Python's \<open>datetime\<close>
  (years 1 to 9999), computed the way CPython computes it. \<open>format_time\<close> is the wire spelling of
  collector/v2_events.py, \<open>strptime_utc\<close> what \<open>datetime.strptime\<close> accepts for that format.
  The lemmas show that the calendar conversion is exact, that the wire spelling round-trips, and
  that comparing spelled times as strings (as the hold ledger does) is comparing the instants.
\<close>

type_synonym instant = int

section \<open>The calendar\<close>

definition is_leap :: "nat \<Rightarrow> bool" where
  "is_leap y \<longleftrightarrow> y mod 4 = 0 \<and> (y mod 100 \<noteq> 0 \<or> y mod 400 = 0)"

definition month_lengths :: "bool \<Rightarrow> nat list" where
  "month_lengths leap = [31, if leap then 29 else 28, 31, 30, 31, 30, 31, 31, 30, 31, 30, 31]"

definition days_in_month :: "nat \<Rightarrow> nat \<Rightarrow> nat" where
  "days_in_month y m = month_lengths (is_leap y) ! (m - 1)"

definition days_before_year :: "nat \<Rightarrow> nat" where
  "days_before_year y = (y - 1) * 365 + (y - 1) div 4 - (y - 1) div 100 + (y - 1) div 400"

definition days_before_month :: "nat \<Rightarrow> nat \<Rightarrow> nat" where
  "days_before_month y m = sum_list (take (m - 1) (month_lengths (is_leap y)))"

definition ymd2ord :: "nat \<times> nat \<times> nat \<Rightarrow> nat" where
  "ymd2ord = (\<lambda>(y, m, d). days_before_year y + days_before_month y m + d)"

definition valid_ymd :: "nat \<times> nat \<times> nat \<Rightarrow> bool" where
  "valid_ymd = (\<lambda>(y, m, d). 1 \<le> y \<and> 1 \<le> m \<and> m \<le> 12 \<and> 1 \<le> d \<and> d \<le> days_in_month y m)"

fun find_month :: "nat list \<Rightarrow> nat \<Rightarrow> nat \<Rightarrow> nat \<times> nat" where
  "find_month [] m r = (m, Suc r)"
| "find_month (l # ls) m r = (if r < l then (m, Suc r) else find_month ls (Suc m) (r - l))"

definition ord2ymd :: "nat \<Rightarrow> nat \<times> nat \<times> nat" where
  "ord2ymd n =
     (let n0 = n - 1;
          n400 = n0 div 146097; r = n0 mod 146097;
          n100 = r div 36524; r1 = r mod 36524;
          n4 = r1 div 1461; r2 = r1 mod 1461;
          n1 = r2 div 365; r3 = r2 mod 365;
          y = 400 * n400 + 100 * n100 + 4 * n4 + n1 + 1
      in if n1 = 4 \<or> n100 = 4 then (y - 1, 12, 31)
         else (y, find_month (month_lengths (is_leap y)) 1 r3))"

lemma dby_parts:
  assumes "b \<le> 3" "c \<le> 24" "d \<le> 3"
  shows "days_before_year (400 * a + 100 * b + 4 * c + d + 1) = 146097 * a + 36524 * b + 1461 * c + 365 * d"
proof -
  let ?m = "400 * a + 100 * b + 4 * c + d"
  have 4: "?m div 4 = 100 * a + 25 * b + c" using assms by linarith
  have 100: "?m div 100 = 4 * a + b" using assms by linarith
  have 400: "?m div 400 = a" using assms by linarith
  show ?thesis
    unfolding days_before_year_def by (simp add: 4 100 400)
qed

lemma leap_parts:
  assumes "b \<le> 3" "c \<le> 24" "d \<le> 3"
  shows "is_leap (400 * a + 100 * b + 4 * c + d + 1) \<longleftrightarrow> d = 3 \<and> (c \<noteq> 24 \<or> b = 3)"
proof -
  let ?y = "400 * a + 100 * b + 4 * c + d + 1"
  have "?y = (d + 1) + 4 * (100 * a + 25 * b + c)" "?y = (4 * c + d + 1) + 100 * (4 * a + b)"
    "?y = (100 * b + 4 * c + d + 1) + 400 * a" by simp_all
  then have 4: "?y mod 4 = (d + 1) mod 4" and 100: "?y mod 100 = (4 * c + d + 1) mod 100"
    and 400: "?y mod 400 = (100 * b + 4 * c + d + 1) mod 400"
    by (metis mod_mult_self2)+
  have "(d + 1) mod 4 = (if d = 3 then 0 else d + 1)" using assms by simp
  then have "(d + 1) mod 4 = 0 \<longleftrightarrow> d = 3" by simp
  moreover have "(100 * b + 4 * 24 + 3 + 1) mod 400 = (if b = 3 then 0 else 100 * b + 100)"
    using assms by simp
  then have "(100 * b + 4 * 24 + 3 + 1) mod 400 = 0 \<longleftrightarrow> b = 3" by simp
  moreover have "(4 * c + 3 + 1) mod 100 = 0 \<longleftrightarrow> c = 24"
  proof -
    have "(4 * c + 3 + 1) mod 100 = (if c = 24 then 0 else 4 * c + 4)" using assms by simp
    then show ?thesis by simp
  qed
  moreover have "(100 * b + 4 * c + 3 + 1) mod 400 = 0 \<Longrightarrow> c = 24"
  proof -
    have "(100 * b + 4 * c + 3 + 1) mod 400 = (if 100 * b + 4 * c + 4 = 400 then 0 else 100 * b + 4 * c + 4)"
      using assms by simp
    then show "(100 * b + 4 * c + 3 + 1) mod 400 = 0 \<Longrightarrow> c = 24" using assms by (simp split: if_splits; arith)
  qed
  ultimately show ?thesis
    unfolding is_leap_def 4 100 400 by metis
qed

lemma find_month_correct:
  "\<lbrakk>r < sum_list ls; find_month ls m r = (m', d)\<rbrakk> \<Longrightarrow>
     m \<le> m' \<and> m' < m + length ls \<and> 1 \<le> d \<and> d \<le> ls ! (m' - m) \<and> sum_list (take (m' - m) ls) + d = Suc r"
proof (induction ls m r rule: find_month.induct)
  case (1 m r)
  then show ?case by simp
next
  case (2 l ls m r)
  show ?case
  proof (cases "r < l")
    case True
    with 2 show ?thesis by simp
  next
    case False
    with 2 have "Suc m \<le> m' \<and> m' < Suc m + length ls \<and> 1 \<le> d \<and> d \<le> ls ! (m' - Suc m)
        \<and> sum_list (take (m' - Suc m) ls) + d = Suc (r - l)" by simp
    moreover from this have "m' - m = Suc (m' - Suc m)" by linarith
    ultimately show ?thesis using False by (simp, arith)
  qed
qed

lemma month_lengths_facts [simp]:
  "length (month_lengths b) = 12" "sum_list (month_lengths b) = (if b then 366 else 365)"
  by (simp_all add: month_lengths_def)

lemma ymd_month:
  assumes "1 \<le> y" and "r < (if is_leap y then 366 else 365)"
  shows "valid_ymd (y, find_month (month_lengths (is_leap y)) 1 r)
    \<and> ymd2ord (y, find_month (month_lengths (is_leap y)) 1 r) = days_before_year y + Suc r"
proof -
  obtain m d where md: "find_month (month_lengths (is_leap y)) 1 r = (m, d)"
    by fastforce
  from find_month_correct [OF _ md] assms(2)
  have "1 \<le> m" "m < 13" "1 \<le> d" "d \<le> month_lengths (is_leap y) ! (m - 1)"
    "sum_list (take (m - 1) (month_lengths (is_leap y))) + d = Suc r" by auto
  with md assms(1) show ?thesis
    by (simp add: valid_ymd_def ymd2ord_def days_in_month_def days_before_month_def)
qed

lemma ymd_last:
  assumes "1 \<le> y" and "is_leap y"
  shows "valid_ymd (y, 12, 31) \<and> ymd2ord (y, 12, 31) = days_before_year y + 366"
  using assms by (simp add: valid_ymd_def ymd2ord_def days_in_month_def days_before_month_def month_lengths_def)

lemma ord2ymd_correct:
  assumes "1 \<le> n"
  shows "valid_ymd (ord2ymd n) \<and> ymd2ord (ord2ymd n) = n"
proof -
  define n0 where "n0 = n - 1"
  define a where "a = n0 div 146097"
  define r where "r = n0 mod 146097"
  define b where "b = r div 36524"
  define r1 where "r1 = r mod 36524"
  define c where "c = r1 div 1461"
  define r2 where "r2 = r1 mod 1461"
  define d where "d = r2 div 365"
  define r3 where "r3 = r2 mod 365"
  define y where "y = 400 * a + 100 * b + 4 * c + d + 1"
  have eq: "n = 146097 * a + 36524 * b + 1461 * c + 365 * d + r3 + 1"
    using assms unfolding n0_def a_def r_def b_def r1_def c_def r2_def d_def r3_def by presburger
  have r: "r \<le> 146096" "r = 36524 * b + r1" "r1 < 36524" "r1 = 1461 * c + r2" "r2 < 1461"
    "r2 = 365 * d + r3" "r3 < 365"
    unfolding r_def b_def r1_def c_def r2_def d_def r3_def by simp_all
  from r have c: "c \<le> 24" and b: "b \<le> 4" and d: "d \<le> 4" by linarith+
  have o: "ord2ymd n = (if d = 4 \<or> b = 4 then (y - 1, 12, 31) else (y, find_month (month_lengths (is_leap y)) 1 r3))"
    unfolding ord2ymd_def Let_def n0_def a_def r_def b_def r1_def c_def r2_def d_def r3_def y_def by simp
  consider (b4) "b = 4" | (d4) "b \<le> 3" "d = 4" | (norm) "b \<le> 3" "d \<le> 3"
    using b d by linarith
  then show ?thesis
  proof cases
    case b4
    with r have z: "r1 = 0" "c = 0" "d = 0" "r3 = 0" by linarith+
    have y: "y - 1 = 400 * a + 100 * 3 + 4 * 24 + 3 + 1" using b4 z by (simp add: y_def)
    have "is_leap (y - 1)" unfolding y by (subst leap_parts) auto
    moreover have "days_before_year (y - 1) + 366 = n"
      unfolding y by (subst dby_parts) (use eq b4 z in auto)
    ultimately show ?thesis using ymd_last [of "y - 1"] o b4 y by simp
  next
    case d4
    with r have z: "r3 = 0" "c \<noteq> 24" by linarith+
    have y: "y - 1 = 400 * a + 100 * b + 4 * c + 3 + 1" using d4 by (simp add: y_def)
    have "is_leap (y - 1)" unfolding y by (subst leap_parts) (use d4 c z in auto)
    moreover have "days_before_year (y - 1) + 366 = n"
      unfolding y by (subst dby_parts) (use eq d4 c z in auto)
    ultimately show ?thesis using ymd_last [of "y - 1"] o d4 y by simp
  next
    case norm
    have "1 \<le> y" by (simp add: y_def)
    moreover have "days_before_year y + Suc r3 = n"
      unfolding y_def by (subst dby_parts) (use eq norm c in auto)
    moreover have "r3 < (if is_leap y then 366 else 365)" using r by simp
    ultimately show ?thesis using ymd_month [of y r3] o norm by simp
  qed
qed

lemma days_before_year_Suc:
  assumes "1 \<le> y"
  shows "days_before_year (Suc y) = days_before_year y + (if is_leap y then 366 else 365)"
proof -
  define k where "k = y - 1"
  define a where "a = k div 400"
  define b where "b = (k mod 400) div 100"
  define c where "c = (k mod 100) div 4"
  define d where "d = k mod 4"
  have bounds: "b \<le> 3" "c \<le> 24" "d \<le> 3" unfolding b_def c_def d_def by simp_all
  have y: "y = 400 * a + 100 * b + 4 * c + d + 1"
  proof -
    have "k = 400 * a + k mod 400" "k mod 400 = 100 * b + k mod 400 mod 100"
      "k mod 100 = 4 * c + k mod 100 mod 4"
      unfolding a_def b_def c_def by simp_all
    moreover have "k mod 400 mod 100 = k mod 100" "k mod 100 mod 4 = d"
      unfolding d_def by (simp_all add: mod_mod_cancel)
    ultimately show ?thesis using assms unfolding k_def by linarith
  qed
  have l: "is_leap y \<longleftrightarrow> d = 3 \<and> (c \<noteq> 24 \<or> b = 3)"
    unfolding y by (rule leap_parts) (use bounds in auto)
  have 0: "days_before_year y = 146097 * a + 36524 * b + 1461 * c + 365 * d"
    unfolding y by (rule dby_parts) (use bounds in auto)
  consider "d \<le> 2" | "d = 3" "c \<le> 23" | "d = 3" "c = 24" "b \<le> 2" | "d = 3" "c = 24" "b = 3"
    using bounds by linarith
  then show ?thesis
  proof cases
    case 1
    have "Suc y = 400 * a + 100 * b + 4 * c + (d + 1) + 1" using y by simp
    with 1 l 0 bounds show ?thesis using dby_parts [of b c "d + 1" a] by simp
  next
    case 2
    have "Suc y = 400 * a + 100 * b + 4 * (c + 1) + 0 + 1" using y 2 by simp
    with 2 l 0 bounds show ?thesis using dby_parts [of b "c + 1" 0 a] by simp
  next
    case 3
    have "Suc y = 400 * a + 100 * (b + 1) + 4 * 0 + 0 + 1" using y 3 by simp
    with 3 l 0 bounds show ?thesis using dby_parts [of "b + 1" 0 0 a] by simp
  next
    case 4
    have "Suc y = 400 * (a + 1) + 100 * 0 + 4 * 0 + 0 + 1" using y 4 by simp
    with 4 l 0 bounds show ?thesis using dby_parts [of 0 0 0 "a + 1"] by simp
  qed
qed

section \<open>Order of dates\<close>

lemma days_before_year_add: "1 \<le> y \<Longrightarrow> days_before_year y \<le> days_before_year (y + k)"
proof (induction k)
  case 0
  then show ?case by simp
next
  case (Suc k)
  then show ?case using days_before_year_Suc [of "y + k"] by auto
qed

lemma days_before_year_mono: "\<lbrakk>1 \<le> y; y \<le> y'\<rbrakk> \<Longrightarrow> days_before_year y \<le> days_before_year y'"
  using days_before_year_add [of y "y' - y"] by simp

lemma days_before_month_bound:
  assumes "valid_ymd (y, m, d)"
  shows "days_before_month y m + d \<le> (if is_leap y then 366 else 365)"
proof -
  let ?ls = "month_lengths (is_leap y)"
  have m: "m - 1 < length ?ls" "1 \<le> m" "d \<le> ?ls ! (m - 1)"
    using assms by (auto simp: valid_ymd_def days_in_month_def)
  have "sum_list (take (m - 1) ?ls) + ?ls ! (m - 1) = sum_list (take (Suc (m - 1)) ?ls)"
    using sum_list_append [of "take (m - 1) ?ls" "[?ls ! (m - 1)]"] take_Suc_conv_app_nth [OF m(1)]
    by (metis append.right_neutral append_Nil sum_list.Cons sum_list.Nil add.right_neutral sum_list_append)
  also have "\<dots> \<le> sum_list ?ls"
    by (metis append_take_drop_id le_add1 sum_list_append)
  finally show ?thesis using m by (simp add: days_before_month_def split: if_splits)
qed

lemma days_before_month_less:
  assumes "valid_ymd (y, m, d)" "m < m'"
  shows "days_before_month y m + d \<le> days_before_month y m'"
proof -
  let ?ls = "month_lengths (is_leap y)"
  have m: "m - 1 < length ?ls" "1 \<le> m" "d \<le> ?ls ! (m - 1)"
    using assms by (auto simp: valid_ymd_def days_in_month_def)
  obtain k where k: "m' - 1 = Suc (m - 1) + k"
    using assms(2) m(2) by (metis Suc_diff_1 Suc_leI add.commute le_Suc_ex less_le_trans less_one linorder_not_less nat_less_le diff_add_inverse2 le_diff_iff' plus_1_eq_Suc)
  have "sum_list (take (m - 1) ?ls) + ?ls ! (m - 1) = sum_list (take (Suc (m - 1)) ?ls)"
    using sum_list_append [of "take (m - 1) ?ls" "[?ls ! (m - 1)]"] take_Suc_conv_app_nth [OF m(1)]
    by (metis append.right_neutral append_Nil sum_list.Cons sum_list.Nil add.right_neutral sum_list_append)
  also have "\<dots> \<le> sum_list (take (m' - 1) ?ls)"
    unfolding k by (subst take_add) simp
  finally show ?thesis using m by (simp add: days_before_month_def)
qed

lemma ymd2ord_mono:
  assumes v: "valid_ymd p" "valid_ymd q" and lt: "p < q"
  shows "ymd2ord p < ymd2ord q"
proof -
  obtain y m d where p: "p = (y, m, d)" by (cases p)
  obtain y' m' d' where q: "q = (y', m', d')" by (cases q)
  from lt consider "y < y'" | "y = y'" "m < m'" | "y = y'" "m = m'" "d < d'"
    unfolding p q less_prod_def less_eq_prod_def by (metis (no_types, lifting) case_prod_conv fst_conv leD le_neq_implies_less linorder_le_less_linear snd_conv)
  then show ?thesis
  proof cases
    case 1
    have "ymd2ord p \<le> days_before_year (Suc y)"
      using days_before_month_bound v(1) days_before_year_Suc [of y]
      by (fastforce simp: p ymd2ord_def valid_ymd_def)
    also have "\<dots> \<le> days_before_year y'" using 1 by (intro days_before_year_mono) auto
    also have "\<dots> < ymd2ord q" using v(2) by (simp add: q ymd2ord_def valid_ymd_def)
    finally show ?thesis .
  next
    case 2
    have "days_before_month y m + d \<le> days_before_month y m'"
      using days_before_month_less v(1) 2 by (simp add: p)
    with 2 v(2) show ?thesis by (simp add: p q ymd2ord_def valid_ymd_def)
  next
    case 3
    then show ?thesis by (simp add: p q ymd2ord_def)
  qed
qed

lemma ord2ymd_less:
  assumes "1 \<le> n" "1 \<le> n'"
  shows "ord2ymd n < ord2ymd n' \<longleftrightarrow> n < n'"
proof -
  note c = ord2ymd_correct [OF assms(1)] ord2ymd_correct [OF assms(2)]
  have "n < n'" if "ord2ymd n < ord2ymd n'"
    using ymd2ord_mono [OF _ _ that] c by simp
  moreover have "\<not> n < n'" if "ord2ymd n' < ord2ymd n"
    using ymd2ord_mono [OF _ _ that] c by simp
  moreover have "n = n'" if "ord2ymd n = ord2ymd n'" using that c by metis
  ultimately show ?thesis by (metis less_linear less_irrefl)
qed

lemma ord2ymd_year_max:
  assumes "1 \<le> n" "n \<le> 3652059" "ord2ymd n = (y, m, d)"
  shows "y \<le> 9999"
proof (rule ccontr)
  assume "\<not> y \<le> 9999"
  then have "days_before_year 10000 \<le> days_before_year y" by (intro days_before_year_mono) auto
  moreover have "days_before_year 10000 = 3652059" by (simp add: days_before_year_def)
  moreover have "days_before_year y < n"
    using ord2ymd_correct [OF assms(1)] assms(3) by (auto simp: ymd2ord_def valid_ymd_def)
  ultimately show False using assms(2) by simp
qed

lemma ymd2ord_inj: "\<lbrakk>valid_ymd p; valid_ymd q; ymd2ord p = ymd2ord q\<rbrakk> \<Longrightarrow> p = q"
  using ymd2ord_mono by (metis less_irrefl less_linear)

lemma ymd2ord_pos: "valid_ymd p \<Longrightarrow> 1 \<le> ymd2ord p"
  by (auto simp: valid_ymd_def ymd2ord_def split: prod.splits)

lemma ord2ymd_ymd2ord: "valid_ymd p \<Longrightarrow> ord2ymd (ymd2ord p) = p"
  using ymd2ord_inj ord2ymd_correct ymd2ord_pos by blast

section \<open>Instants and the wire spelling\<close>

abbreviation day_us :: int where
  "day_us \<equiv> 86400000000"

definition day_of :: "instant \<Rightarrow> int" where
  "day_of t = t div day_us"

definition ord_of :: "instant \<Rightarrow> nat" where
  "ord_of t = nat (day_of t + 719163)"

definition sec_of_day :: "instant \<Rightarrow> nat" where
  "sec_of_day t = nat (t div 1000000 mod 86400)"

text \<open>The instants a Python \<open>datetime\<close> can hold: years 1 to 9999.\<close>

definition in_calendar :: "instant \<Rightarrow> bool" where
  "in_calendar t \<longleftrightarrow> 1 \<le> day_of t + 719163 \<and> day_of t + 719163 \<le> 3652059"

definition iso_date :: "nat \<Rightarrow> string" where
  "iso_date n = (case ord2ymd n of (y, m, d) \<Rightarrow> pad 4 y @ ''-'' @ pad 2 m @ ''-'' @ pad 2 d)"

definition hms :: "nat \<Rightarrow> string" where
  "hms s = pad 2 (s div 3600) @ '':'' @ pad 2 (s div 60 mod 60) @ '':'' @ pad 2 (s mod 60)"

definition format_time :: "instant \<Rightarrow> string" where
  "format_time t = iso_date (ord_of t) @ ''T'' @ hms (sec_of_day t) @ ''Z''"

definition instant_of :: "nat \<times> nat \<times> nat \<Rightarrow> nat \<Rightarrow> nat \<Rightarrow> nat \<Rightarrow> instant" where
  "instant_of ymd h mi s = (int (ymd2ord ymd) - 719163) * day_us + int (h * 3600 + mi * 60 + s) * 1000000"

text \<open>A one- or two-digit \<open>strptime\<close> field within its range; a day may also be a blank and one digit.\<close>

definition time_field :: "nat \<Rightarrow> nat \<Rightarrow> string \<Rightarrow> nat option" where
  "time_field lo hi s =
     (if (length s = 1 \<or> length s = 2) \<and> list_all is_digit s \<and> lo \<le> read_digits s \<and> read_digits s \<le> hi
      then Some (read_digits s) else None)"

definition day_field :: "string \<Rightarrow> nat option" where
  "day_field s =
     (case s of [b, c] \<Rightarrow> if b = CHR '' '' then time_field 1 9 [c] else time_field 1 31 s
      | _ \<Rightarrow> time_field 1 31 s)"

definition strptime_utc :: "string \<Rightarrow> instant option" where
  "strptime_utc s =
     (case split_on (CHR ''-'') s of
        [ys, ms, rest] \<Rightarrow>
          (case split_on (CHR ''t'') (py_lower rest) of
             [ds, tm] \<Rightarrow>
               (case split_on (CHR '':'') tm of
                  [hs, mis, ss] \<Rightarrow>
                    (if length ys = 4 \<and> list_all is_digit ys \<and> ss \<noteq> [] \<and> last ss = CHR ''z''
                     then (case (time_field 1 12 ms, day_field ds, time_field 0 23 hs, time_field 0 59 mis,
                                 time_field 0 59 (butlast ss)) of
                             (Some m, Some d, Some h, Some mi, Some sec) \<Rightarrow>
                               if valid_ymd (read_digits ys, m, d)
                               then Some (instant_of (read_digits ys, m, d) h mi sec) else None
                           | _ \<Rightarrow> None)
                     else None)
                | _ \<Rightarrow> None)
           | _ \<Rightarrow> None)
      | _ \<Rightarrow> None)"

lemma ord_of_pos: "in_calendar t \<Longrightarrow> 1 \<le> ord_of t \<and> ord_of t \<le> 3652059"
  by (auto simp: in_calendar_def ord_of_def)

lemma ymd_bounds:
  assumes "1 \<le> n" "n \<le> 3652059" "ord2ymd n = (y, m, d)"
  shows "y < 10 ^ 4" "m < 10 ^ 2" "d < 10 ^ 2" "valid_ymd (y, m, d)"
proof -
  show v: "valid_ymd (y, m, d)" using ord2ymd_correct [OF assms(1)] assms(3) by simp
  show "y < 10 ^ 4" using ord2ymd_year_max [OF assms] by simp
  from v have m: "m - 1 \<in> {0..<12}" "m \<le> 12" "d \<le> days_in_month y m" by (auto simp: valid_ymd_def)
  then show "m < 10 ^ 2" by simp
  from m have "days_in_month y m \<in> set (month_lengths (is_leap y))" by (simp add: days_in_month_def)
  then have "days_in_month y m \<le> 31" by (auto simp: month_lengths_def split: if_splits)
  with m show "d < 10 ^ 2" by simp
qed

lemma length_iso_date [simp]: "length (iso_date n) = 10"
  by (simp add: iso_date_def split: prod.splits)

lemma length_hms [simp]: "length (hms s) = 8"
  by (simp add: hms_def)

lemma sec_of_day_less: "sec_of_day t < 86400"
  by (simp add: sec_of_day_def nat_less_iff)

lemma fits_iso_date: "fits ''9999-99-99'' (iso_date n)"
proof -
  have l: "''9999-99-99'' = replicate 4 (CHR ''9'') @ ''-'' @ replicate 2 (CHR ''9'') @ ''-'' @ replicate 2 (CHR ''9'')"
    by (simp add: numeral_nat)
  show ?thesis unfolding l iso_date_def
    by (simp only: fits_append length_pad length_replicate fits_pad list.size fits.simps split: prod.splits) simp
qed

lemma fits_format_time: "fits ''9999-99-99T99:99:99Z'' (format_time t)"
proof -
  have l: "''9999-99-99T99:99:99Z'' = ''9999-99-99'' @ ''T'' @ (replicate 2 (CHR ''9'') @ '':'' @ replicate 2 (CHR ''9'') @ '':''
      @ replicate 2 (CHR ''9'')) @ ''Z''"
    by (simp add: numeral_nat)
  have h: "fits (replicate 2 (CHR ''9'') @ '':'' @ replicate 2 (CHR ''9'') @ '':'' @ replicate 2 (CHR ''9'')) (hms s)" for s
    unfolding hms_def by (simp only: fits_append length_pad length_replicate fits_pad list.size fits.simps) simp
  have "length (hms s) = length (replicate 2 (CHR ''9'') @ '':'' @ replicate 2 (CHR ''9'') @ '':'' @ replicate 2 (CHR ''9''))" for s
    by simp
  then show ?thesis unfolding l format_time_def
    by (simp only: fits_append h fits_iso_date length_iso_date list.size fits.simps) simp
qed

lemma iso_date_less:
  assumes "1 \<le> n" "n \<le> 3652059" "1 \<le> n'" "n' \<le> 3652059"
  shows "iso_date n < iso_date n' \<longleftrightarrow> n < n'"
proof -
  obtain y m d where p: "ord2ymd n = (y, m, d)" by (metis prod_cases3)
  obtain y' m' d' where q: "ord2ymd n' = (y', m', d')" by (metis prod_cases3)
  note b = ymd_bounds [OF assms(1,2) p] ymd_bounds [OF assms(3,4) q]
  have "iso_date n < iso_date n' \<longleftrightarrow> y < y' \<or> (y = y' \<and> (m < m' \<or> (m = m' \<and> d < d')))"
    using b by (simp add: iso_date_def p q append_less_append pad_less pad_inj)
  also have "\<dots> \<longleftrightarrow> ord2ymd n < ord2ymd n'" by (auto simp: p q)
  also have "\<dots> \<longleftrightarrow> n < n'" using ord2ymd_less assms by simp
  finally show ?thesis .
qed

lemma iso_date_inj:
  assumes "1 \<le> n" "n \<le> 3652059" "1 \<le> n'" "n' \<le> 3652059" "iso_date n = iso_date n'"
  shows "n = n'"
  using iso_date_less [OF assms(1-4)] iso_date_less [OF assms(3,4,1,2)] assms(5)
  by (metis less_irrefl less_linear)

lemma hms_less:
  assumes "s < 86400" "s' < 86400"
  shows "hms s < hms s' \<longleftrightarrow> s < s'"
proof -
  have b: "s div 3600 < 10 ^ 2" "s' div 3600 < 10 ^ 2" "s div 60 mod 60 < 10 ^ 2" "s' div 60 mod 60 < 10 ^ 2"
    "s mod 60 < 10 ^ 2" "s' mod 60 < 10 ^ 2"
    using assms by (simp_all add: less_mult_imp_div_less)
  have "hms s < hms s' \<longleftrightarrow> s div 3600 < s' div 3600 \<or> (s div 3600 = s' div 3600 \<and>
      (s div 60 mod 60 < s' div 60 mod 60 \<or> (s div 60 mod 60 = s' div 60 mod 60 \<and> s mod 60 < s' mod 60)))"
    using b by (simp add: hms_def append_less_append pad_less pad_inj)
  also have "\<dots> \<longleftrightarrow> s < s'"
  proof -
    define h h' where "h = s div 3600" and "h' = s' div 3600"
    define m m' where "m = s div 60 mod 60" and "m' = s' div 60 mod 60"
    define r r' where "r = s mod 60" and "r' = s' mod 60"
    have "s div 60 = 60 * h + m" "s' div 60 = 60 * h' + m'"
      unfolding h_def h'_def m_def m'_def
      using div_mult_mod_eq [of "s div 60" 60] div_mult_mod_eq [of "s' div 60" 60]
      by (simp_all add: div_mult2_eq [of s 60 60, simplified, symmetric] div_mult2_eq [of s' 60 60, simplified, symmetric])
    then have "s = 3600 * h + 60 * m + r" "s' = 3600 * h' + 60 * m' + r'"
      unfolding r_def r'_def using div_mult_mod_eq [of s 60] div_mult_mod_eq [of s' 60] by linarith+
    moreover have "m < 60" "m' < 60" "r < 60" "r' < 60" by (simp_all add: m_def m'_def r_def r'_def)
    ultimately show ?thesis
      unfolding h_def [symmetric] h'_def [symmetric] m_def [symmetric] m'_def [symmetric] r_def [symmetric] r'_def [symmetric]
      by linarith
  qed
  finally show ?thesis .
qed

text \<open>The order of spelled times is the order of the instants, to the second.\<close>

lemma second_parts: "t div 1000000 = 86400 * day_of t + int (sec_of_day t)"
proof -
  have "day_of t = t div 1000000 div 86400"
    using zdiv_zmult2_eq [of 86400 t 1000000] by (simp add: day_of_def)
  then show ?thesis by (simp add: sec_of_day_def)
qed

lemma format_time_less:
  assumes "in_calendar t" "in_calendar t'"
  shows "format_time t < format_time t' \<longleftrightarrow> t div 1000000 < t' div 1000000"
proof -
  have "format_time t < format_time t' \<longleftrightarrow>
      iso_date (ord_of t) < iso_date (ord_of t') \<or> (iso_date (ord_of t) = iso_date (ord_of t')
        \<and> hms (sec_of_day t) < hms (sec_of_day t'))"
    by (simp add: format_time_def append_less_append)
  also have "\<dots> \<longleftrightarrow> ord_of t < ord_of t' \<or> (ord_of t = ord_of t' \<and> sec_of_day t < sec_of_day t')"
    using iso_date_less iso_date_inj ord_of_pos assms hms_less sec_of_day_less by (metis (no_types, lifting))
  also have "\<dots> \<longleftrightarrow> t div 1000000 < t' div 1000000"
    using assms sec_of_day_less [of t] sec_of_day_less [of t']
    by (auto simp: second_parts ord_of_def in_calendar_def)
  finally show ?thesis .
qed

lemma format_time_eq:
  assumes "in_calendar t" "in_calendar t'"
  shows "format_time t = format_time t' \<longleftrightarrow> t div 1000000 = t' div 1000000"
proof
  assume "format_time t = format_time t'"
  then show "t div 1000000 = t' div 1000000"
    using format_time_less [OF assms] format_time_less [OF assms(2,1)] by (metis less_irrefl less_linear)
next
  assume eq: "t div 1000000 = t' div 1000000"
  have "day_of t = day_of t'"
    using zdiv_zmult2_eq [of 86400 t 1000000] zdiv_zmult2_eq [of 86400 t' 1000000] eq by (simp add: day_of_def)
  with eq show "format_time t = format_time t'" by (simp add: format_time_def ord_of_def sec_of_day_def)
qed

lemma format_time_le:
  assumes "in_calendar t" "in_calendar t'"
  shows "format_time t \<le> format_time t' \<longleftrightarrow> t div 1000000 \<le> t' div 1000000"
  using format_time_less [OF assms] format_time_eq [OF assms] by (auto simp: le_less)

lemma take_10_format_time: "take 10 (format_time t) = iso_date (ord_of t)"
  by (simp add: format_time_def)

section \<open>The wire spelling reads back\<close>

lemma not_in_digits: "\<lbrakk>list_all is_digit s; \<not> is_digit c\<rbrakk> \<Longrightarrow> c \<notin> set s"
  by (auto simp: list_all_iff)

lemma sep_not_digit [simp]:
  "\<not> is_digit (CHR ''-'')" "\<not> is_digit (CHR '':'')" "\<not> is_digit (CHR ''t'')" "\<not> is_digit (CHR ''z'')"
  "\<not> is_digit (CHR '' '')" "\<not> is_digit (CHR ''T'')" "\<not> is_digit (CHR ''Z'')"
  by (simp_all add: is_digit_def char_code_def)

lemma lower_char_digit [simp]: "is_digit c \<Longrightarrow> lower_char c = c"
  by (auto simp: lower_char_def is_upper_def is_digit_def)

lemma py_lower_digits: "list_all is_digit s \<Longrightarrow> py_lower s = s"
  by (induction s) (auto simp: py_lower_def)

lemma py_lower_pad [simp]: "py_lower (pad k n) = pad k n"
  by (rule py_lower_digits) (rule pad_digits)

lemma py_lower_append [simp]: "py_lower (a @ b) = py_lower a @ py_lower b"
  by (simp add: py_lower_def)

lemma py_lower_Cons [simp]: "py_lower (c # b) = lower_char c # py_lower b"
  by (simp add: py_lower_def)

lemma lower_char_seps [simp]:
  "lower_char (CHR ''T'') = CHR ''t''" "lower_char (CHR ''Z'') = CHR ''z''" "lower_char (CHR '':'') = CHR '':''"
  by code_simp+

lemma time_field_pad: "\<lbrakk>lo \<le> n; n \<le> hi; n < 10 ^ 2\<rbrakk> \<Longrightarrow> time_field lo hi (pad 2 n) = Some n"
  by (simp add: time_field_def pad_digits read_pad)

lemma pad_sep [simp]: "\<not> is_digit c \<Longrightarrow> c \<notin> set (pad k n)"
  using not_in_digits pad_digits by blast

lemma day_field_pad: "\<lbrakk>1 \<le> n; n \<le> 31\<rbrakk> \<Longrightarrow> day_field (pad 2 n) = Some n"
proof -
  assume n: "1 \<le> n" "n \<le> 31"
  have "pad 2 n = [digit_char (n div 10 mod 10), digit_char (n mod 10)]" by (simp add: numeral_2_eq_2)
  moreover have "digit_char (n div 10 mod 10) \<noteq> CHR '' ''"
    by (metis is_digit_digit_char mod_less_divisor sep_not_digit(5) zero_less_numeral)
  ultimately show ?thesis using n time_field_pad [of 1 n 31] by (simp add: day_field_def)
qed

lemma split_on_three:
  "\<lbrakk>c \<notin> set a; c \<notin> set b; c \<notin> set d\<rbrakk> \<Longrightarrow> split_on c (a @ [c] @ b @ [c] @ d) = [a, b, d]"
  by (simp add: split_on_append_sep split_on_no_sep)

lemma strptime_fields:
  assumes v: "valid_ymd (y, m, d)" "y < 10 ^ 4" "m < 10 ^ 2" "d \<le> 31" and s: "s < 86400"
  shows "strptime_utc ((pad 4 y @ ''-'' @ pad 2 m @ ''-'' @ pad 2 d) @ ''T'' @ hms s @ ''Z'')
    = Some (instant_of (y, m, d) (s div 3600) (s div 60 mod 60) (s mod 60))"
proof -
  have b: "s div 3600 \<le> 23" "s div 3600 < 10 ^ 2" "s div 60 mod 60 < 10 ^ 2" "s mod 60 < 10 ^ 2"
      "s div 60 mod 60 \<le> 59" "s mod 60 \<le> 59"
    using s by (simp_all add: less_mult_imp_div_less less_Suc_eq_le [symmetric])
  have md: "1 \<le> m" "m \<le> 12" "1 \<le> d" using v by (auto simp: valid_ymd_def)
  have 1: "split_on (CHR ''-'') ((pad 4 y @ ''-'' @ pad 2 m @ ''-'' @ pad 2 d) @ ''T'' @ hms s @ ''Z'')
      = [pad 4 y, pad 2 m, pad 2 d @ ''T'' @ hms s @ ''Z'']"
    using split_on_three [of "CHR ''-''" "pad 4 y" "pad 2 m" "pad 2 d @ ''T'' @ hms s @ ''Z''"]
    by (simp add: hms_def)
  have 2: "split_on (CHR ''t'') (py_lower (pad 2 d @ ''T'' @ hms s @ ''Z''))
      = [pad 2 d, pad 2 (s div 3600) @ '':'' @ pad 2 (s div 60 mod 60) @ '':'' @ pad 2 (s mod 60) @ ''z'']"
    using split_on_append_sep [of "CHR ''t''" "pad 2 d"] by (simp add: hms_def split_on_no_sep py_lower_def [of "[]"])
  have 3: "split_on (CHR '':'') (pad 2 (s div 3600) @ '':'' @ pad 2 (s div 60 mod 60) @ '':'' @ pad 2 (s mod 60) @ ''z'')
      = [pad 2 (s div 3600), pad 2 (s div 60 mod 60), pad 2 (s mod 60) @ ''z'']"
    using split_on_three [of "CHR '':''" "pad 2 (s div 3600)" "pad 2 (s div 60 mod 60)" "pad 2 (s mod 60) @ ''z''"]
    by (simp)
  have f: "time_field 1 12 (pad 2 m) = Some m" "day_field (pad 2 d) = Some d"
    "time_field 0 23 (pad 2 (s div 3600)) = Some (s div 3600)"
    "time_field 0 59 (pad 2 (s div 60 mod 60)) = Some (s div 60 mod 60)"
    "time_field 0 59 (pad 2 (s mod 60)) = Some (s mod 60)"
    using v md b by (simp_all only: time_field_pad day_field_pad le0)
  have g: "butlast (pad 2 (s mod 60) @ ''z'') = pad 2 (s mod 60)"
    "length (pad 4 y) = 4 \<and> list_all is_digit (pad 4 y) \<and> pad 2 (s mod 60) @ ''z'' \<noteq> []
      \<and> last (pad 2 (s mod 60) @ ''z'') = CHR ''z''" "read_digits (pad 4 y) = y"
    using v(2) by (simp_all add: pad_digits read_pad)
  show ?thesis
    unfolding strptime_utc_def 1 list.case 2 3
    by (simp only: f g option.case prod.case v(1) if_True simp_thms)
qed

lemma instant_of_time:
  assumes "in_calendar t" "ord2ymd (ord_of t) = (y, m, d)"
  shows "instant_of (y, m, d) (sec_of_day t div 3600) (sec_of_day t div 60 mod 60) (sec_of_day t mod 60) = t div 1000000 * 1000000"
proof -
  let ?s = "sec_of_day t"
  have "1 \<le> ord_of t" using ord_of_pos [OF assms(1)] by simp
  then have "ymd2ord (y, m, d) = ord_of t" using ord2ymd_correct assms(2) by fastforce
  moreover have "?s div 3600 * 3600 + ?s div 60 mod 60 * 60 + ?s mod 60 = ?s"
    using div_mult_mod_eq [of "?s div 60" 60] div_mult_mod_eq [of ?s 60] div_mult2_eq [of ?s 60 60]
    by (simp only: numeral_times_numeral, simp, linarith)
  ultimately show ?thesis
    using assms(1) by (simp add: instant_of_def second_parts ord_of_def in_calendar_def algebra_simps)
qed

lemma strptime_format_time:
  assumes "in_calendar t"
  shows "strptime_utc (format_time t) = Some (t div 1000000 * 1000000)"
proof -
  obtain y m d where p: "ord2ymd (ord_of t) = (y, m, d)" by (metis prod_cases3)
  have o: "1 \<le> ord_of t" "ord_of t \<le> 3652059" using ord_of_pos [OF assms] by auto
  note b = ymd_bounds [OF o p]
  from b(4) have "d \<le> days_in_month y m" "m - 1 < 12" by (auto simp: valid_ymd_def)
  moreover from this have "days_in_month y m \<in> set (month_lengths (is_leap y))" by (simp add: days_in_month_def)
  then have "days_in_month y m \<le> 31" by (auto simp: month_lengths_def split: if_splits)
  ultimately have d31: "d \<le> 31" by simp
  let ?s = "sec_of_day t"
  have "strptime_utc (format_time t) = Some (instant_of (y, m, d) (?s div 3600) (?s div 60 mod 60) (?s mod 60))"
    using strptime_fields [OF b(4,1,2) d31 sec_of_day_less] by (simp add: format_time_def iso_date_def p)
  then show ?thesis by (simp add: instant_of_time [OF assms p])
qed

end
