(* ===== verification/V2Events.thy ===== *)
theory V2Events
  imports Calendar
begin

text \<open>
  collector/v2_events.py: the event types that may leave the transformation layer. Each is a record
  built only through its self-checking constructor (\<open>mk_checkin\<close>, \<open>mk_reject\<close>, \<open>mk_acs_item\<close>, the
  dataclass with its \<open>__post_init__\<close>), which refuses a field outside its privacy-safe format by
  naming the field. A \<open>datetime\<close> argument is \<open>Naive\<close> or \<open>Aware\<close> (UTC microseconds and offset
  seconds); a record only ever stores the instant of an aware UTC one. Python's type tests of string
  and boolean arguments are the HOL types.
\<close>

section \<open>Formats and closed sets\<close>

definition is_hmac_hex :: "string \<Rightarrow> bool" where
  "is_hmac_hex s \<longleftrightarrow> length s = 64 \<and> list_all is_hex_char s"

definition hex_run :: "nat \<Rightarrow> string \<Rightarrow> bool" where
  "hex_run n s \<longleftrightarrow> length s = n \<and> list_all is_hex_char s"

definition is_uuid4 :: "string \<Rightarrow> bool" where
  "is_uuid4 s \<longleftrightarrow>
     (case split_on (CHR ''-'') s of
        [a, b, c, d, e] \<Rightarrow> hex_run 8 a \<and> hex_run 4 b \<and> hex_run 4 c \<and> hd c = CHR ''4''
          \<and> hex_run 4 d \<and> hd d \<in> set ''89ab'' \<and> hex_run 12 e
      | _ \<Rightarrow> False)"

definition is_slug_char :: "char \<Rightarrow> bool" where
  "is_slug_char c \<longleftrightarrow> is_lower c \<or> is_digit c \<or> c = CHR ''_''"

lemma is_slug_char_Char [simp]:
  "is_slug_char (Char b0 b1 b2 b3 b4 b5 b6 b7) \<longleftrightarrow> is_lower (Char b0 b1 b2 b3 b4 b5 b6 b7)
     \<or> is_digit (Char b0 b1 b2 b3 b4 b5 b6 b7) \<or> Char b0 b1 b2 b3 b4 b5 b6 b7 = CHR ''_''"
  by (simp only: is_slug_char_def)

fun is_destination :: "string \<Rightarrow> bool" where
  "is_destination [] \<longleftrightarrow> False"
| "is_destination (c # cs) \<longleftrightarrow> is_lower c \<and> list_all is_slug_char cs \<and> length cs \<le> 31"

fun is_bin :: "string \<Rightarrow> bool" where
  "is_bin [] \<longleftrightarrow> False"
| "is_bin (c # cs) \<longleftrightarrow> (is_lower c \<or> is_digit c) \<and> list_all is_slug_char cs \<and> length cs \<le> 15"

definition error_classes :: "string list" where
  "error_classes = [''item_not_found'', ''ils_acs_failure'', ''rfid_collision'', ''configuration_error'',
     ''routing_error'', ''communication_error'', ''other'', ''unknown'']"

definition acs_item_states :: "string list" where
  "acs_item_states = [''hold'', ''non_hold_101'', ''other_code10'']"

definition health_statuses :: "string list" where
  "health_statuses = [''healthy'', ''degraded'', ''error'']"

definition last_error_classes :: "string list" where
  "last_error_classes = [''retryable_infra'', ''auth_failure'', ''permanent_rejection'',
     ''source_unavailable'', ''configuration_error'', ''other'']"

definition schedule_statuses :: "string list" where
  "schedule_statuses = [''healthy'', ''task_missing'', ''task_disabled'', ''no_next_run'', ''query_failed'']"

definition max_run_duration_ms :: int where
  "max_run_duration_ms = 86400000"

definition kinds :: "string list" where
  "kinds = [''checkins'', ''rejects'', ''acs_items'']"

section \<open>Checked construction\<close>

datatype pydatetime = Naive int | Aware int int

text \<open>\<open>UnsafeEventError\<close> carries the field's name and nothing else.\<close>

definition check_field :: "string \<Rightarrow> bool \<Rightarrow> string + unit" where
  "check_field name ok = (if ok then Inr () else Inl name)"

definition hex_key :: "string \<Rightarrow> string \<Rightarrow> string + unit" where
  "hex_key name value = check_field name (is_hmac_hex value)"

fun utc_time :: "pydatetime \<Rightarrow> string + instant" where
  "utc_time (Aware t off) = (if off = 0 then Inr t else Inl ''event_time'')"
| "utc_time (Naive _) = Inl ''event_time''"

record checkin_v2 =
  ck_event_key :: string
  ck_event_time :: instant
  ck_item_key :: "string option"
  ck_destination :: string
  ck_bin :: string

definition opt_hex_key :: "string \<Rightarrow> string option \<Rightarrow> string + unit" where
  "opt_hex_key name v = (case v of None \<Rightarrow> Inr () | Some s \<Rightarrow> hex_key name s)"

definition mk_checkin :: "string \<Rightarrow> pydatetime \<Rightarrow> string option \<Rightarrow> string \<Rightarrow> string \<Rightarrow> string + checkin_v2" where
  "mk_checkin key when item dest bin =
     bind_result (hex_key ''event_key'' key) (\<lambda>_.
     bind_result (utc_time when) (\<lambda>t.
     bind_result (opt_hex_key ''item_key'' item) (\<lambda>_.
     bind_result (check_field ''destination'' (is_destination dest)) (\<lambda>_.
     bind_result (check_field ''bin'' (is_bin bin)) (\<lambda>_.
       Inr \<lparr>ck_event_key = key, ck_event_time = t, ck_item_key = item, ck_destination = dest, ck_bin = bin\<rparr>)))))"

definition checkin_payload :: "checkin_v2 \<Rightarrow> (string \<times> json) list" where
  "checkin_payload e =
     [(''event_key'', JStr (ck_event_key e)), (''event_time'', JStr (format_time (ck_event_time e))),
      (''destination'', JStr (ck_destination e)), (''bin'', JStr (ck_bin e))]
     @ (case ck_item_key e of None \<Rightarrow> [] | Some k \<Rightarrow> [(''item_key'', JStr k)])"

record reject_v2 =
  rj_event_key :: string
  rj_event_time :: instant
  rj_error_class :: string
  rj_item_key :: "string option"

definition mk_reject :: "string \<Rightarrow> pydatetime \<Rightarrow> string \<Rightarrow> string option \<Rightarrow> string + reject_v2" where
  "mk_reject key when cls item =
     bind_result (hex_key ''event_key'' key) (\<lambda>_.
     bind_result (utc_time when) (\<lambda>t.
     bind_result (check_field ''error_class'' (cls \<in> set error_classes)) (\<lambda>_.
     bind_result (opt_hex_key ''item_key'' item) (\<lambda>_.
       Inr \<lparr>rj_event_key = key, rj_event_time = t, rj_error_class = cls, rj_item_key = item\<rparr>))))"

definition reject_payload :: "reject_v2 \<Rightarrow> (string \<times> json) list" where
  "reject_payload e =
     [(''event_key'', JStr (rj_event_key e)), (''event_time'', JStr (format_time (rj_event_time e))),
      (''error_class'', JStr (rj_error_class e))]
     @ (case rj_item_key e of None \<Rightarrow> [] | Some k \<Rightarrow> [(''item_key'', JStr k)])"

record acs_item_v2 =
  ai_event_key :: string
  ai_event_time :: instant
  ai_item_key :: string
  ai_state :: string
  ai_destination :: "string option"
  ai_is_ill :: "bool option"
  ai_is_branch_services :: "bool option"
  ai_is_collection_services :: "bool option"
  ai_ruleset_id :: "string option"

definition mk_acs_item :: "string \<Rightarrow> pydatetime \<Rightarrow> string \<Rightarrow> string \<Rightarrow> string option \<Rightarrow> bool option \<Rightarrow>
    bool option \<Rightarrow> bool option \<Rightarrow> string option \<Rightarrow> string + acs_item_v2" where
  "mk_acs_item key when item state dest ill branch coll ruleset =
     bind_result (hex_key ''event_key'' key) (\<lambda>_.
     bind_result (utc_time when) (\<lambda>t.
     bind_result (hex_key ''item_key'' item) (\<lambda>_.
     bind_result (check_field ''state'' (state \<in> set acs_item_states)) (\<lambda>_.
     bind_result
       (if state = ''hold''
        then bind_result (check_field ''destination'' (case dest of None \<Rightarrow> False | Some d \<Rightarrow> is_destination d)) (\<lambda>_.
             bind_result (check_field ''flags'' (ill \<noteq> None \<and> branch \<noteq> None \<and> coll \<noteq> None)) (\<lambda>_.
             case ruleset of None \<Rightarrow> Inr () | Some r \<Rightarrow> check_field ''ruleset_id'' (is_uuid4 r)))
        else check_field ''non_hold_shape''
               (dest = None \<and> ill = None \<and> branch = None \<and> coll = None \<and> ruleset = None)) (\<lambda>_.
       Inr \<lparr>ai_event_key = key, ai_event_time = t, ai_item_key = item, ai_state = state, ai_destination = dest,
            ai_is_ill = ill, ai_is_branch_services = branch, ai_is_collection_services = coll,
            ai_ruleset_id = ruleset\<rparr>)))))"

definition json_opt_str :: "string option \<Rightarrow> json" where
  "json_opt_str v = (case v of None \<Rightarrow> JNull | Some s \<Rightarrow> JStr s)"

definition json_opt_bool :: "bool option \<Rightarrow> json" where
  "json_opt_bool v = (case v of None \<Rightarrow> JNull | Some b \<Rightarrow> JBool b)"

definition acs_item_payload :: "acs_item_v2 \<Rightarrow> (string \<times> json) list" where
  "acs_item_payload e =
     [(''state'', JStr (ai_state e)), (''event_key'', JStr (ai_event_key e)),
      (''event_time'', JStr (format_time (ai_event_time e))), (''item_key'', JStr (ai_item_key e))]
     @ (if ai_state e = ''hold''
        then [(''destination'', json_opt_str (ai_destination e)), (''is_ill'', json_opt_bool (ai_is_ill e)),
              (''is_branch_services'', json_opt_bool (ai_is_branch_services e)),
              (''is_collection_services'', json_opt_bool (ai_is_collection_services e))]
             @ (case ai_ruleset_id e of None \<Rightarrow> [] | Some r \<Rightarrow> [(''ruleset_id'', JStr r)])
        else [])"

datatype safe_event = Checkin checkin_v2 | Reject reject_v2 | AcsItem acs_item_v2

fun event_key_of :: "safe_event \<Rightarrow> string" where
  "event_key_of (Checkin e) = ck_event_key e"
| "event_key_of (Reject e) = rj_event_key e"
| "event_key_of (AcsItem e) = ai_event_key e"

fun event_time_of :: "safe_event \<Rightarrow> instant" where
  "event_time_of (Checkin e) = ck_event_time e"
| "event_time_of (Reject e) = rj_event_time e"
| "event_time_of (AcsItem e) = ai_event_time e"

fun kind_of :: "safe_event \<Rightarrow> string" where
  "kind_of (Checkin e) = ''checkins''"
| "kind_of (Reject e) = ''rejects''"
| "kind_of (AcsItem e) = ''acs_items''"

fun event_payload :: "safe_event \<Rightarrow> (string \<times> json) list" where
  "event_payload (Checkin e) = checkin_payload e"
| "event_payload (Reject e) = reject_payload e"
| "event_payload (AcsItem e) = acs_item_payload e"

record cursor =
  cur_identity :: "(int \<times> int) option"
  cur_offset :: nat

definition validate_key_id :: "string \<Rightarrow> string + string" where
  "validate_key_id v = bind_result (check_field ''key_id'' (is_uuid4 v)) (\<lambda>_. Inr v)"

section \<open>What a constructed event satisfies\<close>

definition checkin_ok :: "checkin_v2 \<Rightarrow> bool" where
  "checkin_ok e \<longleftrightarrow> is_hmac_hex (ck_event_key e) \<and> (case ck_item_key e of None \<Rightarrow> True | Some k \<Rightarrow> is_hmac_hex k)
     \<and> is_destination (ck_destination e) \<and> is_bin (ck_bin e)"

definition reject_ok :: "reject_v2 \<Rightarrow> bool" where
  "reject_ok e \<longleftrightarrow> is_hmac_hex (rj_event_key e) \<and> (case rj_item_key e of None \<Rightarrow> True | Some k \<Rightarrow> is_hmac_hex k)
     \<and> rj_error_class e \<in> set error_classes"

definition acs_item_ok :: "acs_item_v2 \<Rightarrow> bool" where
  "acs_item_ok e \<longleftrightarrow> is_hmac_hex (ai_event_key e) \<and> is_hmac_hex (ai_item_key e) \<and> ai_state e \<in> set acs_item_states
     \<and> (if ai_state e = ''hold''
        then (case ai_destination e of None \<Rightarrow> False | Some d \<Rightarrow> is_destination d) \<and> ai_is_ill e \<noteq> None
          \<and> ai_is_branch_services e \<noteq> None \<and> ai_is_collection_services e \<noteq> None
          \<and> (case ai_ruleset_id e of None \<Rightarrow> True | Some r \<Rightarrow> is_uuid4 r)
        else ai_destination e = None \<and> ai_is_ill e = None \<and> ai_is_branch_services e = None
          \<and> ai_is_collection_services e = None \<and> ai_ruleset_id e = None)"

fun event_ok :: "safe_event \<Rightarrow> bool" where
  "event_ok (Checkin e) = checkin_ok e"
| "event_ok (Reject e) = reject_ok e"
| "event_ok (AcsItem e) = acs_item_ok e"

lemma check_field_Inr [simp]: "check_field n ok = Inr u \<longleftrightarrow> ok"
  by (simp add: check_field_def)

lemma check_field_bind: "bind_result (check_field n ok) f = (if ok then f () else Inl n)"
  by (simp add: check_field_def)

lemma utc_time_Inr [simp]: "utc_time w = Inr t \<longleftrightarrow> w = Aware t 0"
  by (cases w) auto

lemma opt_hex_key_Inr [simp]:
  "opt_hex_key n v = Inr u \<longleftrightarrow> (case v of None \<Rightarrow> True | Some s \<Rightarrow> is_hmac_hex s)"
  by (simp add: opt_hex_key_def hex_key_def split: option.splits)

lemma mk_checkin_Inr: "mk_checkin key w item dest bin = Inr e \<longleftrightarrow>
   (\<exists>t. w = Aware t 0 \<and> e = \<lparr>ck_event_key = key, ck_event_time = t, ck_item_key = item, ck_destination = dest, ck_bin = bin\<rparr>
     \<and> checkin_ok e)"
  by (auto simp: mk_checkin_def hex_key_def checkin_ok_def)

lemma mk_reject_Inr: "mk_reject key w cls item = Inr e \<longleftrightarrow>
   (\<exists>t. w = Aware t 0 \<and> e = \<lparr>rj_event_key = key, rj_event_time = t, rj_error_class = cls, rj_item_key = item\<rparr>
     \<and> reject_ok e)"
  by (auto simp: mk_reject_def hex_key_def reject_ok_def)

lemma mk_acs_item_Inr: "mk_acs_item key w item st dest ill br co rs = Inr e \<longleftrightarrow>
   (\<exists>t. w = Aware t 0 \<and> e = \<lparr>ai_event_key = key, ai_event_time = t, ai_item_key = item, ai_state = st,
      ai_destination = dest, ai_is_ill = ill, ai_is_branch_services = br, ai_is_collection_services = co,
      ai_ruleset_id = rs\<rparr> \<and> acs_item_ok e)"
  by (auto simp: mk_acs_item_def hex_key_def acs_item_ok_def split: option.splits if_splits)

end
