(* ===== verification/CollectorState.thy ===== *)
theory CollectorState
  imports V2Events
begin

text \<open>
  collector/state.py: the durable cursor document and the atomic write that both the state and the
  status files rely on. Documents are \<^typ>\<open>json\<close>; a file is missing, unreadable (or not JSON), or a
  document. The lemmas show that a saved state reads back unchanged, that nothing out of bounds is
  ever accepted, that sources are kept under their names like any keyed store, and that a write
  interrupted at any point leaves the old document or the complete new one.
\<close>

datatype state_error = CorruptState

definition state_schema_version :: int where
  "state_schema_version = 1"

definition max_plausible_offset :: int where
  "max_plausible_offset = 10 ^ 18"

section \<open>State\<close>

record source_state =
  ss_identity :: "(int \<times> int) option"
  ss_offset :: int

definition mk_source_state :: "(int \<times> int) option \<Rightarrow> int \<Rightarrow> state_error + source_state" where
  "mk_source_state identity offset =
     (if offset < 0 then Inl CorruptState
      else if offset > max_plausible_offset then Inl CorruptState
      else Inr \<lparr>ss_identity = identity, ss_offset = offset\<rparr>)"

record collector_state =
  cs_schema_version :: int
  cs_sources :: "(string \<times> source_state) list"

definition empty_state :: collector_state where
  "empty_state = \<lparr>cs_schema_version = state_schema_version, cs_sources = []\<rparr>"

definition get_source :: "collector_state \<Rightarrow> string \<Rightarrow> source_state option" where
  "get_source st name = map_of (cs_sources st) name"

definition with_source :: "collector_state \<Rightarrow> string \<Rightarrow> source_state \<Rightarrow> collector_state" where
  "with_source st name s = st\<lparr>cs_sources := AList.update name s (cs_sources st)\<rparr>"

definition serialize_source :: "source_state \<Rightarrow> json" where
  "serialize_source s = JObj
     [(''identity'', case ss_identity s of None \<Rightarrow> JNull | Some (a, b) \<Rightarrow> JArr [JInt a, JInt b]), (''offset'', JInt (ss_offset s))]"

definition serialize_state :: "collector_state \<Rightarrow> json" where
  "serialize_state st = JObj
     [(''schema_version'', JInt (cs_schema_version st)),
      (''sources'', JObj (List.map (\<lambda>(name, s). (name, serialize_source s)) (cs_sources st)))]"

fun deserialize_identity :: "json \<Rightarrow> state_error + (int \<times> int) option" where
  "deserialize_identity JNull = Inr None"
| "deserialize_identity (JArr [JInt a, JInt b]) = Inr (Some (a, b))"
| "deserialize_identity _ = Inl CorruptState"

fun deserialize_source :: "string \<times> json \<Rightarrow> state_error + string \<times> source_state" where
  "deserialize_source (name, JObj entry) =
     (case jget entry ''offset'' of
        JInt offset \<Rightarrow>
          bind_result (deserialize_identity (jget entry ''identity'')) (\<lambda>identity.
          bind_result (mk_source_state identity offset) (\<lambda>s. Inr (name, s)))
      | _ \<Rightarrow> Inl CorruptState)"
| "deserialize_source _ = Inl CorruptState"

fun deserialize_state :: "json \<Rightarrow> state_error + collector_state" where
  "deserialize_state (JObj raw) =
     (if \<not> json_is_int (jget raw ''schema_version'') state_schema_version then Inl CorruptState
      else case jget raw ''sources'' of
        JObj sources \<Rightarrow>
          bind_result (map_result deserialize_source sources) (\<lambda>ss.
            Inr \<lparr>cs_schema_version = state_schema_version, cs_sources = ss\<rparr>)
      | _ \<Rightarrow> Inl CorruptState)"
| "deserialize_state _ = Inl CorruptState"

definition load_state :: "json option option \<Rightarrow> state_error + collector_state" where
  "load_state file =
     (case file of None \<Rightarrow> Inr empty_state | Some None \<Rightarrow> Inl CorruptState | Some (Some doc) \<Rightarrow> deserialize_state doc)"

definition load_status :: "json option option \<Rightarrow> (string \<times> json) list" where
  "load_status file = (case file of Some (Some (JObj ms)) \<Rightarrow> ms | _ \<Rightarrow> [])"

interpretation sources: keyed_store get_source with_source "\<lambda>_. True"
  by unfold_locales (simp_all add: get_source_def with_source_def AList.update_conv fun_eq_iff)

section \<open>The atomic write\<close>

text \<open>
  Files by path. A write makes a temporary file, fills it, and replaces the destination. At each step it
  may fail (the exception handler then removes the temporary file) or the machine may die (nothing
  runs any more); filling may have left any partial content.
\<close>

datatype write_step = MakeTemp | Dump | Replace

datatype fault = NoFault | Fails write_step | Dies write_step

fun write_until :: "('p \<Rightarrow> 'c option) \<Rightarrow> 'p \<Rightarrow> 'p \<Rightarrow> 'c \<Rightarrow> 'c \<Rightarrow> 'c \<Rightarrow> write_step \<Rightarrow> 'p \<Rightarrow> 'c option" where
  "write_until fs tmp dst blank partial data MakeTemp = fs"
| "write_until fs tmp dst blank partial data Dump = fs(tmp \<mapsto> partial)"
| "write_until fs tmp dst blank partial data Replace = fs(tmp \<mapsto> data)"

text \<open>The result is the files left and whether the caller saw an exception (\<open>None\<close>: it never returned).\<close>

fun atomic_write :: "('p \<Rightarrow> 'c option) \<Rightarrow> 'p \<Rightarrow> 'p \<Rightarrow> 'c \<Rightarrow> 'c \<Rightarrow> 'c \<Rightarrow> fault \<Rightarrow> ('p \<Rightarrow> 'c option) \<times> bool option" where
  "atomic_write fs tmp dst blank partial data NoFault = (fs(dst \<mapsto> data, tmp := None), Some False)"
| "atomic_write fs tmp dst blank partial data (Fails MakeTemp) = (fs, Some True)"
| "atomic_write fs tmp dst blank partial data (Fails s) =
     ((write_until fs tmp dst blank partial data s)(tmp := None), Some True)"
| "atomic_write fs tmp dst blank partial data (Dies s) = (write_until fs tmp dst blank partial data s, None)"

section \<open>The properties of the state file\<close>

definition source_ok :: "source_state \<Rightarrow> bool" where
  "source_ok s \<longleftrightarrow> 0 \<le> ss_offset s \<and> ss_offset s \<le> max_plausible_offset"

definition state_ok :: "collector_state \<Rightarrow> bool" where
  "state_ok st \<longleftrightarrow> cs_schema_version st = state_schema_version \<and> (\<forall>(name, s) \<in> set (cs_sources st). source_ok s)"

lemma mk_source_state_Inr: "mk_source_state i off = Inr s \<longleftrightarrow> s = \<lparr>ss_identity = i, ss_offset = off\<rparr> \<and> source_ok s"
  by (auto simp: mk_source_state_def source_ok_def)

lemma source_roundtrip: "source_ok s \<Longrightarrow> deserialize_source (name, serialize_source s) = Inr (name, s)"
  by (cases s) (auto simp: serialize_source_def mk_source_state_Inr split: option.splits prod.splits)

lemma deserialize_source_ok: "deserialize_source e = Inr (name, s) \<Longrightarrow> source_ok s"
  by (cases e rule: deserialize_source.cases) (auto simp: mk_source_state_Inr split: json.splits)

lemma deserialize_state_ok: "deserialize_state doc = Inr st \<Longrightarrow> state_ok st"
proof -
  assume a: "deserialize_state doc = Inr st"
  then obtain raw where doc: "doc = JObj raw" by (cases doc) auto
  with a obtain sources where src: "jget raw ''sources'' = JObj sources" by (auto split: if_splits json.splits)
  with a doc obtain ss where "map_result deserialize_source sources = Inr ss"
    "st = \<lparr>cs_schema_version = state_schema_version, cs_sources = ss\<rparr>" by (auto split: if_splits)
  moreover have "\<forall>y \<in> set ss. source_ok (snd y)"
    by (rule map_result_all [OF calculation(1)]) (metis deserialize_source_ok prod.collapse)
  ultimately show ?thesis by (auto simp: state_ok_def)
qed

lemma state_loads:
  assumes "state_ok st"
  shows "load_state (Some (Some (serialize_state st))) = Inr st"
proof -
  obtain v ss where st: "st = \<lparr>cs_schema_version = v, cs_sources = ss\<rparr>" by (cases st) auto
  have "map_result deserialize_source (List.map (\<lambda>(name, s). (name, serialize_source s)) ss) = Inr (List.map (\<lambda>x. x) ss)"
    by (rule map_result_map) (use assms source_roundtrip in \<open>auto simp: state_ok_def st\<close>)
  with assms show ?thesis by (simp add: load_state_def serialize_state_def st state_ok_def)
qed

text \<open>C40. A saved state reads back as it was: serializing any well-formed state and loading the document gives the same cursors
  under the same names, whether or not a source has been identified yet.\<close>

theorem state_roundtrip:
  assumes "state_ok st"
  shows "load_state (Some (Some (serialize_state st))) = Inr st"
  using assms by (rule state_loads)

definition sample_state :: collector_state where
  "sample_state = \<lparr>cs_schema_version = 1, cs_sources = [(''acs'', \<lparr>ss_identity = Some (5, 77), ss_offset = 1024\<rparr>),
     (''checkins'', \<lparr>ss_identity = None, ss_offset = 0\<rparr>)]\<rparr>"

theorem state_roundtrip_witness: "load_state (Some (Some (serialize_state sample_state))) = Inr sample_state"
  by (rule state_roundtrip)
    (simp add: state_ok_def sample_state_def state_schema_version_def source_ok_def max_plausible_offset_def)

text \<open>No document can put a cursor out of bounds: whatever a state file holds, loading it raises the corrupt-state error or
  gives a state of the supported schema in which every offset is between 0 and ten to the eighteenth; only a missing file is read as
  the empty state, and an unreadable one never is.\<close>

lemma load_state_bounds:
  "(\<forall>st. load_state source = Inr st \<longrightarrow> state_ok st) \<and> (load_state None = Inr empty_state) \<and> load_state (Some None) = Inl CorruptState
   \<and> (\<forall>ms. \<not> json_is_int (jget ms ''schema_version'') state_schema_version \<longrightarrow> load_state (Some (Some (JObj ms))) = Inl CorruptState)"
proof (intro conjI allI impI)
  fix st assume l: "load_state source = Inr st"
  show "state_ok st"
  proof (cases source)
    case None
    with l show ?thesis by (auto simp: load_state_def state_ok_def empty_state_def)
  next
    case (Some content)
    with l obtain doc where "content = Some doc" "deserialize_state doc = Inr st" by (cases content) (simp_all add: load_state_def)
    then show ?thesis by (simp add: deserialize_state_ok)
  qed
qed (simp_all add: load_state_def)

lemma load_state_bounds_witness:
  "\<exists>st. load_state (Some (Some (serialize_state sample_state))) = Inr st \<and> state_ok st"
proof -
  have "load_state (Some (Some (serialize_state sample_state))) = Inr sample_state" by code_simp
  with load_state_bounds [of "Some (Some (serialize_state sample_state))"] show ?thesis by blast
qed

text \<open>A write is all or nothing for whoever reads the file: at whatever step it fails or the machine dies, and whatever partial
  content had been written, the destination holds its previous content, or, exactly when the write finished, the new one; no
  other file changes, and a write that fails leaves no temporary file behind.\<close>

lemma atomic_write_safe:
  assumes "tmp \<noteq> dst" "fs tmp = None" "atomic_write fs tmp dst blank partial data f = (fs', raised)"
  shows "fs' dst = (if f = NoFault then Some data else fs dst) \<and> (raised = Some False \<longleftrightarrow> f = NoFault)
    \<and> (\<forall>p. p \<noteq> dst \<longrightarrow> p \<noteq> tmp \<longrightarrow> fs' p = fs p) \<and> (raised \<noteq> None \<longrightarrow> fs' tmp = None)"
proof (cases f)
  case NoFault
  with assms show ?thesis by auto
next
  case (Fails s)
  with assms show ?thesis by (cases s) auto
next
  case (Dies s)
  with assms show ?thesis by (cases s) auto
qed

lemma atomic_write_safe_witness:
  "fst (atomic_write (\<lambda>p. if p = (0::nat) then Some ''old'' else None) 1 0 [] ''ne'' ''new'' (Fails Dump)) 0 = Some ''old''"
  using atomic_write_safe [of 1 "0::nat" "\<lambda>p. if p = 0 then Some ''old'' else None" "[]" "''ne''" "''new''" "Fails Dump"
      "fst (atomic_write (\<lambda>p. if p = (0::nat) then Some ''old'' else None) 1 0 [] ''ne'' ''new'' (Fails Dump))"
      "snd (atomic_write (\<lambda>p. if p = (0::nat) then Some ''old'' else None) 1 0 [] ''ne'' ''new'' (Fails Dump))"]
  by simp

end
