(* ===== verification/V2Status.thy ===== *)
theory V2Status
  imports CollectorState
begin

text \<open>
  collector/v2_status.py: the heartbeat snapshot and its self-checking constructor, the request body, the
  decision that turns a run into a status, and the local status file with what the next run reads back
  from it. A snapshot holds the UTC instant of each aware \<open>datetime\<close>. The lemmas show that every status
  decided can be put into a snapshot, that a status is \<open>healthy\<close> exactly when nothing went wrong, and that
  the failure count and the last success survive the status file.
\<close>

definition auth :: string where "auth = ''auth''"
definition config :: string where "config = ''config''"
definition permanent :: string where "permanent = ''permanent''"
definition retryable :: string where "retryable = ''retryable''"
definition other_failure :: string where "other_failure = ''other''"

definition failure_categories :: "string list" where
  "failure_categories = [auth, config, permanent, retryable, other_failure]"

definition class_of_failure :: "string \<Rightarrow> string option" where
  "class_of_failure = map_of [(auth, ''auth_failure''), (config, ''configuration_error''), (permanent, ''permanent_rejection''),
     (retryable, ''retryable_infra''), (other_failure, ''other'')]"

lemmas failure_names = auth_def config_def permanent_def retryable_def other_failure_def

definition max_counter :: int where
  "max_counter = 10000000"

section \<open>The snapshot\<close>

record status_snapshot =
  ss_status :: string
  ss_last_error_class :: "string option"
  ss_quarantined_count :: int
  ss_last_success_at :: "instant option"
  ss_watcher_last_active_at :: "instant option"
  ss_pending_outbox_count :: int
  ss_collector_last_run_at :: "instant option"
  ss_collector_next_run_at :: "instant option"
  ss_collector_run_duration_ms :: "int option"
  ss_collector_schedule_status :: "string option"

text \<open>An optional \<open>datetime\<close> must be aware; its instant is kept.\<close>

fun aware :: "string \<Rightarrow> pydatetime option \<Rightarrow> string + instant option" where
  "aware name None = Inr None"
| "aware name (Some (Naive t)) = Inl name"
| "aware name (Some (Aware t off)) = Inr (Some t)"

definition mk_snapshot ::
    "string \<Rightarrow> string option \<Rightarrow> int \<Rightarrow> pydatetime option \<Rightarrow> pydatetime option \<Rightarrow> int \<Rightarrow> pydatetime option \<Rightarrow> pydatetime option
     \<Rightarrow> int option \<Rightarrow> string option \<Rightarrow> string + status_snapshot" where
  "mk_snapshot status cls quarantined success active pending last_run next_run duration sched =
     bind_result (check_field ''status'' (status \<in> set health_statuses)) (\<lambda>_.
     bind_result (check_field ''last_error_class'' (case cls of None \<Rightarrow> True | Some c \<Rightarrow> c \<in> set last_error_classes)) (\<lambda>_.
     bind_result (check_field ''quarantined_count'' (0 \<le> quarantined \<and> quarantined \<le> max_counter)) (\<lambda>_.
     bind_result (check_field ''pending_outbox_count'' (0 \<le> pending \<and> pending \<le> max_counter)) (\<lambda>_.
     bind_result (check_field ''pending_outbox_count'' (pending = 0)) (\<lambda>_.
     bind_result (aware ''last_success_at'' success) (\<lambda>success'.
     bind_result (aware ''watcher_last_active_at'' active) (\<lambda>active'.
     bind_result (aware ''collector_last_run_at'' last_run) (\<lambda>last_run'.
     bind_result (aware ''collector_next_run_at'' next_run) (\<lambda>next_run'.
     bind_result (check_field ''collector_run_duration_ms''
        (case duration of None \<Rightarrow> True | Some d \<Rightarrow> 0 \<le> d \<and> d \<le> max_run_duration_ms)) (\<lambda>_.
     bind_result (check_field ''collector_schedule_status'' (case sched of None \<Rightarrow> True | Some s \<Rightarrow> s \<in> set schedule_statuses)) (\<lambda>_.
       Inr \<lparr>ss_status = status, ss_last_error_class = cls, ss_quarantined_count = quarantined, ss_last_success_at = success',
            ss_watcher_last_active_at = active', ss_pending_outbox_count = pending, ss_collector_last_run_at = last_run',
            ss_collector_next_run_at = next_run', ss_collector_run_duration_ms = duration,
            ss_collector_schedule_status = sched\<rparr>)))))))))))"

definition optional_member :: "string \<Rightarrow> ('a \<Rightarrow> json) \<Rightarrow> 'a option \<Rightarrow> (string \<times> json) list" where
  "optional_member name spell v = (case v of None \<Rightarrow> [] | Some x \<Rightarrow> [(name, spell x)])"

definition spell_time :: "instant \<Rightarrow> json" where
  "spell_time t = JStr (format_time t)"

definition snapshot_payload :: "status_snapshot \<Rightarrow> string \<Rightarrow> (string \<times> json) list" where
  "snapshot_payload s key_id =
     [(''contract_version'', JInt 2), (''key_id'', JStr key_id), (''status'', JStr (ss_status s)),
      (''pending_outbox_count'', JInt (ss_pending_outbox_count s)), (''quarantined_count'', JInt (ss_quarantined_count s))]
     @ optional_member ''last_error_class'' JStr (ss_last_error_class s)
     @ optional_member ''last_success_at'' spell_time (ss_last_success_at s)
     @ optional_member ''watcher_last_active_at'' spell_time (ss_watcher_last_active_at s)
     @ optional_member ''collector_last_run_at'' spell_time (ss_collector_last_run_at s)
     @ optional_member ''collector_next_run_at'' spell_time (ss_collector_next_run_at s)
     @ optional_member ''collector_run_duration_ms'' JInt (ss_collector_run_duration_ms s)
     @ optional_member ''collector_schedule_status'' JStr (ss_collector_schedule_status s)"

section \<open>From a run to a status\<close>

definition decide :: "string option \<Rightarrow> nat \<Rightarrow> nat \<Rightarrow> int \<Rightarrow> int \<Rightarrow> string \<times> string option" where
  "decide failure new_quarantined sources_missing consecutive_failures error_after =
     (case failure of
        None \<Rightarrow> if sources_missing > 0 then (''degraded'', Some ''source_unavailable'')
                else if new_quarantined > 0 then (''degraded'', Some ''permanent_rejection'')
                else (''healthy'', None)
      | Some f \<Rightarrow>
          (let f = (if f \<notin> set failure_categories then other_failure else f) in
           if f = retryable
           then ((if consecutive_failures \<ge> error_after then ''error'' else ''degraded''), Some ''retryable_infra'')
           else (''error'', class_of_failure f)))"

definition local_status_document ::
    "instant \<Rightarrow> bool \<Rightarrow> string \<Rightarrow> string option \<Rightarrow> int \<Rightarrow> instant option \<Rightarrow> (string \<times> int) list \<Rightarrow> int \<Rightarrow> (string \<times> json) list" where
  "local_status_document now ok health last_error_class consecutive_failures last_success_at counters quarantined_count =
     [(''last_attempt'', spell_time now), (''run_ok'', JBool ok), (''health_status'', JStr health),
      (''last_error_class'', json_opt_str last_error_class), (''consecutive_failures'', JInt consecutive_failures),
      (''last_success_at'', (case last_success_at of None \<Rightarrow> JNull | Some t \<Rightarrow> spell_time t)),
      (''quarantined_count'', JInt quarantined_count), (''pending_outbox_count'', JInt 0),
      (''counters'', JObj (List.map (\<lambda>(name, n). (name, JInt n)) counters))]"

definition parse_prior :: "(string \<times> json) list \<Rightarrow> int \<times> instant option" where
  "parse_prior document =
     ((case jget_or document ''consecutive_failures'' (JInt 0) of JInt n \<Rightarrow> if n \<ge> 0 then n else 0 | _ \<Rightarrow> 0),
      (case jget document ''last_success_at'' of JStr s \<Rightarrow> strptime_utc s | _ \<Rightarrow> None))"

section \<open>Lemmas\<close>

definition snapshot_ok :: "status_snapshot \<Rightarrow> bool" where
  "snapshot_ok s \<longleftrightarrow> ss_status s \<in> set health_statuses
     \<and> (case ss_last_error_class s of None \<Rightarrow> True | Some c \<Rightarrow> c \<in> set last_error_classes)
     \<and> 0 \<le> ss_quarantined_count s \<and> ss_quarantined_count s \<le> max_counter \<and> ss_pending_outbox_count s = 0
     \<and> (case ss_collector_run_duration_ms s of None \<Rightarrow> True | Some d \<Rightarrow> 0 \<le> d \<and> d \<le> max_run_duration_ms)
     \<and> (case ss_collector_schedule_status s of None \<Rightarrow> True | Some c \<Rightarrow> c \<in> set schedule_statuses)"

lemma mk_snapshot_ok: "mk_snapshot status cls q su ac p la ne d sc = Inr s \<Longrightarrow> snapshot_ok s"
  by (auto simp: mk_snapshot_def snapshot_ok_def)

lemma aware_Some: "aware name (map_option (\<lambda>t. Aware t off) v) = Inr v"
  by (cases v) auto

lemma decide_failure_class: "f \<in> set failure_categories \<Longrightarrow> (case class_of_failure f of None \<Rightarrow> True | Some c \<Rightarrow> c \<in> set last_error_classes)"
  by (auto simp: failure_categories_def class_of_failure_def failure_names last_error_classes_def)

lemma decide_ok: "decide failure q m n k = (h, c) \<Longrightarrow> h \<in> set health_statuses \<and> (case c of None \<Rightarrow> True | Some c \<Rightarrow> c \<in> set last_error_classes)"
proof (cases failure)
  case None
  moreover assume "decide failure q m n k = (h, c)"
  ultimately show ?thesis by (auto simp: decide_def health_statuses_def last_error_classes_def split: if_splits)
next
  case (Some f)
  let ?g = "if f \<notin> set failure_categories then other_failure else f"
  have g: "?g \<in> set failure_categories" by (simp add: failure_categories_def)
  assume "decide failure q m n k = (h, c)"
  then have "(if ?g = retryable then (if n \<ge> k then ''error'' else ''degraded'', Some ''retryable_infra'')
      else (''error'', class_of_failure ?g)) = (h, c)" by (simp add: Some decide_def Let_def)
  moreover have "''retryable_infra'' \<in> set last_error_classes" by (simp add: last_error_classes_def)
  ultimately show ?thesis using decide_failure_class [OF g] by (auto simp: health_statuses_def split: if_splits)
qed

section \<open>The properties of the heartbeat\<close>

lemma decide_facts:
  "(fst (decide failure q m n k) = ''healthy'' \<longleftrightarrow> failure = None \<and> q = 0 \<and> m = 0)
   \<and> (snd (decide failure q m n k) = None \<longleftrightarrow> fst (decide failure q m n k) = ''healthy'')
   \<and> (fst (decide failure q m n k) = ''error'' \<longleftrightarrow> (if failure = Some retryable then k \<le> n else failure \<noteq> None))
   \<and> (snd (decide failure q m n k) = Some ''retryable_infra'' \<longleftrightarrow> failure = Some retryable)"
proof (cases failure)
  case None
  then show ?thesis by (simp add: decide_def)
next
  case (Some f)
  show ?thesis
    by (simp add: Some decide_def Let_def failure_categories_def class_of_failure_def failure_names)
qed

text \<open>A run's status is healthy exactly when the run completed with every source present and nothing newly quarantined, the error
  class is given exactly when it is not healthy, a completed run is never an error, and a failure is an error at once unless it is
  retryable, which becomes one when it has lasted the configured number of runs.\<close>

lemma decide_spec:
  "(fst (decide failure q m n k) = ''healthy'' \<longleftrightarrow> failure = None \<and> q = 0 \<and> m = 0)
   \<and> (snd (decide failure q m n k) = None \<longleftrightarrow> fst (decide failure q m n k) = ''healthy'')
   \<and> (fst (decide failure q m n k) = ''error'' \<longleftrightarrow> (if failure = Some retryable then k \<le> n else failure \<noteq> None))
   \<and> (snd (decide failure q m n k) = Some ''retryable_infra'' \<longleftrightarrow> failure = Some retryable)"
  by (rule decide_facts)

lemma status_file_reads:
  assumes "0 \<le> failures" "case success of None \<Rightarrow> True | Some t \<Rightarrow> in_calendar t"
  shows "parse_prior (load_status (Some (Some (JObj (local_status_document now ok health cls failures success counters quarantined)))))
    = (failures, map_option (\<lambda>t. t div 1000000 * 1000000) success)"
  using assms by (simp add: load_status_def parse_prior_def local_status_document_def jget_or_def spell_time_def strptime_format_time
    split: option.splits)

text \<open>The status file keeps what the next run needs: the failure count, and the last success to the whole second.\<close>

lemma status_file_roundtrip:
  assumes "0 \<le> failures" "case success of None \<Rightarrow> True | Some t \<Rightarrow> in_calendar t"
  shows "parse_prior (load_status (Some (Some (JObj (local_status_document now ok health cls failures success counters quarantined)))))
    = (failures, map_option (\<lambda>t. t div 1000000 * 1000000) success)"
  using assms by (rule status_file_reads)

lemma status_file_roundtrip_witness:
  "parse_prior (load_status (Some (Some (JObj (local_status_document 0 True ''healthy'' None 0 (Some 1714557600123456) [(''lines_read'', 3)] 0)))))
    = (0, Some 1714557600000000)"
  by (subst status_file_roundtrip) (simp_all add: in_calendar_def day_of_def)

end
