(* ===== verification/V2Uploader.thy ===== *)
theory V2Uploader
  imports V2Status "HOL-Library.Multiset"
begin

text \<open>
  collector/v2_uploader.py: batches of safe events, the request they become, and the classification of the
  answer. The network is a parameter: a request either raises or gives a status code and a body, which is
  \<open>None\<close> when it is not JSON. The lemmas show that an answer can only ever name events that are in the batch,
  that leaving those out splits the batch without losing or inventing an event, and that an answer is
  classified into a fixed set of outcomes.
\<close>

section \<open>Batches\<close>

record batch =
  bt_key_id :: string
  bt_order :: "(string \<times> safe_event list) list"

definition items :: "batch \<Rightarrow> string \<Rightarrow> safe_event list" where
  "items b kind = (case map_of (bt_order b) kind of None \<Rightarrow> [] | Some es \<Rightarrow> es)"

definition batch_of :: "string \<Rightarrow> safe_event list \<Rightarrow> batch" where
  "batch_of key_id events =
     \<lparr>bt_key_id = key_id, bt_order = List.map (\<lambda>kind. (kind, filter (\<lambda>e. kind_of e = kind) events)) kinds\<rparr>"

definition batch_len :: "batch \<Rightarrow> nat" where
  "batch_len b = sum_list (List.map (\<lambda>(_, es). length es) (bt_order b))"

definition batch_payload :: "batch \<Rightarrow> (string \<times> json) list" where
  "batch_payload b =
     [(''contract_version'', JInt 2), (''key_id'', JStr (bt_key_id b))]
     @ concat (List.map (\<lambda>kind. if items b kind = [] then []
                                else [(kind, JArr (List.map (\<lambda>e. JObj (event_payload e)) (items b kind)))]) kinds)"

text \<open>The events of a list whose positions are, or are not, in a set.\<close>

definition keep_at :: "(nat \<Rightarrow> bool) \<Rightarrow> 'a list \<Rightarrow> 'a list" where
  "keep_at P xs = List.map snd (filter (\<lambda>(i, _). P i) (enumerate 0 xs))"

type_synonym positions = "(string \<times> nat list) list"

definition positions_of :: "positions \<Rightarrow> string \<Rightarrow> nat list" where
  "positions_of ps kind = (case map_of ps kind of None \<Rightarrow> [] | Some vs \<Rightarrow> vs)"

definition without :: "batch \<Rightarrow> positions \<Rightarrow> batch \<times> safe_event list" where
  "without b ps =
     (b\<lparr>bt_order := List.map (\<lambda>kind. (kind, keep_at (\<lambda>i. i \<notin> set (positions_of ps kind)) (items b kind))) kinds\<rparr>,
      concat (List.map (\<lambda>kind. keep_at (\<lambda>i. i \<in> set (positions_of ps kind)) (items b kind)) kinds))"

section \<open>Requests and answers\<close>

record collector_config =
  cc_api_url :: string
  cc_api_token :: string
  cc_http_connect_timeout :: rat
  cc_http_read_timeout :: rat

record http_request =
  rq_url :: string
  rq_json :: "(string \<times> json) list"
  rq_headers :: "(string \<times> string) list"
  rq_timeout :: "rat \<times> rat"

text \<open>What \<open>session.post\<close> does: it raises a \<open>RequestException\<close> or another exception, or answers.\<close>

datatype http_answer = RequestException | OtherException | Response int "json option"

definition request_headers :: "collector_config \<Rightarrow> (string \<times> string) list" where
  "request_headers cfg = [(''Authorization'', ''Bearer '' @ cc_api_token cfg), (''Content-Type'', ''application/json'')]"

definition request_timeout :: "collector_config \<Rightarrow> rat \<times> rat" where
  "request_timeout cfg = (cc_http_connect_timeout cfg, cc_http_read_timeout cfg)"

definition upload_request :: "collector_config \<Rightarrow> batch \<Rightarrow> http_request" where
  "upload_request cfg b = \<lparr>rq_url = cc_api_url cfg @ ''/v2/upload'', rq_json = batch_payload b,
     rq_headers = request_headers cfg, rq_timeout = request_timeout cfg\<rparr>"

definition status_request :: "collector_config \<Rightarrow> string \<Rightarrow> status_snapshot \<Rightarrow> http_request" where
  "status_request cfg key_id snapshot = \<lparr>rq_url = cc_api_url cfg @ ''/v2/status'', rq_json = snapshot_payload snapshot key_id,
     rq_headers = request_headers cfg, rq_timeout = request_timeout cfg\<rparr>"

datatype batch_outcome =
    Delivered int int                     \<comment> \<open>ok: inserted and duplicates\<close>
  | Conflict positions
  | Invalid positions
  | Failed string "int option"            \<comment> \<open>failed: a failure category and the status code\<close>

datatype status_outcome = StatusSent int | StatusFailed string "int option"

definition failure_for :: "int \<Rightarrow> string" where
  "failure_for code =
     (if code = 401 \<or> code = 403 then auth
      else if code = 404 \<or> code = 405 then config
      else if code = 400 \<or> code = 413 then permanent
      else if code = 429 \<or> (500 \<le> code \<and> code \<le> 599) then retryable
      else other_failure)"

fun body_dict :: "json option \<Rightarrow> (string \<times> json) list option" where
  "body_dict (Some (JObj body)) = Some body"
| "body_dict _ = None"

text \<open>Integer positions within the batch; \<open>None\<close> if anything is malformed or out of range.\<close>

fun position_value :: "nat \<Rightarrow> json \<Rightarrow> nat option" where
  "position_value n (JInt v) = (if 0 \<le> v \<and> v < int n then Some (nat v) else None)"
| "position_value n _ = None"

definition sorted_set :: "nat list \<Rightarrow> nat list" where
  "sorted_set vs = sort (remdups vs)"

fun conflict_positions :: "batch \<Rightarrow> (string \<times> json) list \<Rightarrow> positions option" where
  "conflict_positions b [] = Some []"
| "conflict_positions b ((kind, values) # rest) =
     (case values of
        JArr vs \<Rightarrow>
          if kind \<notin> set kinds \<or> vs = [] then None
          else (case those (List.map (position_value (length (items b kind))) vs) of
                  None \<Rightarrow> None
                | Some ns \<Rightarrow> map_option (\<lambda>found. (kind, sorted_set ns) # found) (conflict_positions b rest))
      | _ \<Rightarrow> None)"

fun reported_positions :: "json \<Rightarrow> batch \<Rightarrow> positions option" where
  "reported_positions (JObj raw) b = (if raw = [] then None else conflict_positions b raw)"
| "reported_positions _ b = None"

fun event_loc :: "batch \<Rightarrow> json \<Rightarrow> (string \<times> nat) option" where
  "event_loc b (JObj error) =
     (case jget error ''loc'' of
        JArr (JStr start # JStr kind # i # _) \<Rightarrow>
          if start = ''body'' \<and> kind \<in> set kinds
          then map_option (\<lambda>n. (kind, n)) (position_value (length (items b kind)) i) else None
      | _ \<Rightarrow> None)"
| "event_loc b _ = None"

definition add_position :: "(string \<times> nat) \<Rightarrow> (string \<times> nat list) list \<Rightarrow> (string \<times> nat list) list" where
  "add_position p found = (case p of (kind, n) \<Rightarrow> AList.update kind (n # positions_of found kind) found)"

definition invalid_positions :: "(string \<times> json) list option \<Rightarrow> batch \<Rightarrow> positions option" where
  "invalid_positions body b =
     (case body of None \<Rightarrow> None
      | Some body \<Rightarrow>
          (case jget body ''detail'' of
             JArr detail \<Rightarrow>
               if detail = [] then None
               else (case those (List.map (event_loc b) detail) of
                       None \<Rightarrow> None
                     | Some locs \<Rightarrow> Some (List.map (\<lambda>(kind, ns). (kind, sorted_set ns)) (foldl (\<lambda>found p. add_position p found) [] locs)))
           | _ \<Rightarrow> None))"

definition int_member :: "(string \<times> json) list \<Rightarrow> string \<Rightarrow> int" where
  "int_member body name = (case jget body name of JInt v \<Rightarrow> v | _ \<Rightarrow> 0)"

definition total_counts :: "(string \<times> json) list \<Rightarrow> string \<Rightarrow> int" where
  "total_counts body sfx = sum_list (List.map (\<lambda>kind. int_member body (kind @ ''_'' @ sfx)) kinds)"

definition classify_upload :: "batch \<Rightarrow> http_answer \<Rightarrow> batch_outcome" where
  "classify_upload b answer =
     (case answer of
        RequestException \<Rightarrow> Failed retryable None
      | OtherException \<Rightarrow> Failed other_failure None
      | Response code body \<Rightarrow>
          if code = 200
          then (case body_dict body of
                  None \<Rightarrow> Failed retryable (Some code)
                | Some ms \<Rightarrow> if jget ms ''status'' \<noteq> JStr ''success'' then Failed retryable (Some code)
                             else Delivered (total_counts ms ''inserted'') (total_counts ms ''duplicates''))
          else if code = 409
          then (case (case body_dict body of
                        Some ms \<Rightarrow> if ms \<noteq> [] \<and> jget ms ''code'' = JStr ''event_conflict''
                                   then reported_positions (jget ms ''conflicts'') b else None
                      | None \<Rightarrow> None) of
                  None \<Rightarrow> Failed permanent (Some code)
                | Some ps \<Rightarrow> Conflict ps)
          else if code = 422
          then (case invalid_positions (body_dict body) b of
                  None \<Rightarrow> Failed config (Some code)
                | Some ps \<Rightarrow> Invalid ps)
          else Failed (failure_for code) (Some code))"

definition post_batch :: "(http_request \<Rightarrow> 'w \<Rightarrow> http_answer \<times> 'w) \<Rightarrow> collector_config \<Rightarrow> batch \<Rightarrow> 'w \<Rightarrow> batch_outcome \<times> 'w" where
  "post_batch post cfg b w = (let (answer, w') = post (upload_request cfg b) w in (classify_upload b answer, w'))"

definition classify_status :: "http_answer \<Rightarrow> status_outcome" where
  "classify_status answer =
     (case answer of
        RequestException \<Rightarrow> StatusFailed retryable None
      | OtherException \<Rightarrow> StatusFailed other_failure None
      | Response code body \<Rightarrow>
          if code = 200
          then (case body_dict body of
                  Some ms \<Rightarrow> if jget ms ''status'' = JStr ''success'' then StatusSent code else StatusFailed retryable (Some code)
                | None \<Rightarrow> StatusFailed retryable (Some code))
          else StatusFailed (failure_for code) (Some code))"

definition post_status ::
    "(http_request \<Rightarrow> 'w \<Rightarrow> http_answer \<times> 'w) \<Rightarrow> collector_config \<Rightarrow> string \<Rightarrow> status_snapshot \<Rightarrow> 'w \<Rightarrow> status_outcome \<times> 'w" where
  "post_status post cfg key_id snapshot w =
     (let (answer, w') = post (status_request cfg key_id snapshot) w in (classify_status answer, w'))"

section \<open>Lemmas\<close>

definition batch_wf :: "batch \<Rightarrow> bool" where
  "batch_wf b \<longleftrightarrow> List.map fst (bt_order b) = kinds \<and> list_all (\<lambda>(kind, es). list_all (\<lambda>e. kind_of e = kind) es) (bt_order b)"

definition batch_events :: "batch \<Rightarrow> safe_event list" where
  "batch_events b = concat (List.map (items b) kinds)"

definition found_ok :: "batch \<Rightarrow> positions \<Rightarrow> bool" where
  "found_ok b = list_all (\<lambda>(kind, ns). kind \<in> set kinds \<and> ns \<noteq> [] \<and> (\<forall>n \<in> set ns. n < length (items b kind)))"

definition positions_in :: "batch \<Rightarrow> positions \<Rightarrow> bool" where
  "positions_in b ps \<longleftrightarrow> ps \<noteq> [] \<and> found_ok b ps"

lemma found_okD: "found_ok b found \<Longrightarrow> (kind, ns) \<in> set found \<Longrightarrow> kind \<in> set kinds \<and> ns \<noteq> [] \<and> (\<forall>n \<in> set ns. n < length (items b kind))"
  unfolding found_ok_def list_all_iff by blast

lemma found_ok_simps [simp]: "found_ok b []"
  "found_ok b ((kind, ns) # found) \<longleftrightarrow> (kind \<in> set kinds \<and> ns \<noteq> [] \<and> (\<forall>n \<in> set ns. n < length (items b kind))) \<and> found_ok b found"
  by (simp_all add: found_ok_def)

lemma kind_in_kinds: "kind_of e \<in> set kinds"
  by (cases e) (simp_all add: kinds_def)

lemma distinct_kinds: "distinct kinds"
  by (simp add: kinds_def)

lemma keep_at_Nil [simp]: "keep_at P [] = []"
  by (simp add: keep_at_def)

lemma keep_at_enum: "List.map snd (filter (\<lambda>(i, _). P i) (enumerate n xs)) = keep_at (\<lambda>i. P (i + n)) xs"
proof (induction xs arbitrary: n P)
  case (Cons x xs)
  have "List.map snd (filter (\<lambda>(i, _). P i) (enumerate (Suc n) xs)) = keep_at (\<lambda>i. P (i + Suc n)) xs" by (rule Cons.IH)
  moreover have "List.map snd (filter (\<lambda>(i, _). P (i + n)) (enumerate (Suc 0) xs)) = keep_at (\<lambda>i. P (i + Suc 0 + n)) xs"
    by (rule Cons.IH [of "\<lambda>i. P (i + n)"])
  ultimately show ?case by (simp add: keep_at_def [of _ "x # xs"])
qed simp

lemma keep_at_Cons [simp]: "keep_at P (x # xs) = (if P 0 then [x] else []) @ keep_at (\<lambda>i. P (Suc i)) xs"
  using keep_at_enum [of P "Suc 0" xs] by (simp add: keep_at_def [of P "x # xs"])

lemma keep_at_mset: "mset (keep_at (\<lambda>i. \<not> P i) xs) + mset (keep_at P xs) = mset xs"
  by (induction xs arbitrary: P) auto

lemma ex_nat_cases: "(\<exists>i. Q i) \<longleftrightarrow> Q 0 \<or> (\<exists>i. Q (Suc i))"
  by (metis not0_implies_Suc)

lemma keep_at_set: "set (keep_at P xs) = {xs ! i |i. i < length xs \<and> P i}"
proof (induction xs arbitrary: P)
  case (Cons x xs)
  have "{(x # xs) ! i |i. i < length (x # xs) \<and> P i} = (if P 0 then {x} else {}) \<union> {xs ! i |i. i < length xs \<and> P (Suc i)}"
    (is "?l = ?r")
  proof (rule set_eqI)
    fix y
    have "y \<in> ?l \<longleftrightarrow> (\<exists>i. y = (x # xs) ! i \<and> i < Suc (length xs) \<and> P i)" by simp
    also have "\<dots> \<longleftrightarrow> (y = x \<and> P 0) \<or> (\<exists>i. y = xs ! i \<and> i < length xs \<and> P (Suc i))" by (subst ex_nat_cases) simp
    finally show "y \<in> ?l \<longleftrightarrow> y \<in> ?r" by simp
  qed
  then show ?case using Cons.IH [of "\<lambda>i. P (Suc i)"] by auto
qed simp

lemma keep_at_all: "(\<And>i. i < length xs \<Longrightarrow> P i) \<Longrightarrow> keep_at P xs = xs"
  by (induction xs arbitrary: P) auto

lemma items_batch_of [simp]: "kind \<in> set kinds \<Longrightarrow> items (batch_of k es) kind = filter (\<lambda>e. kind_of e = kind) es"
  by (auto simp: items_def batch_of_def kinds_def)

lemma batch_of_wf: "batch_wf (batch_of k es)"
  by (simp add: batch_wf_def batch_of_def kinds_def list_all_iff)

lemma items_kind: "batch_wf b \<Longrightarrow> e \<in> set (items b kind) \<Longrightarrow> kind_of e = kind"
proof -
  assume b: "batch_wf b" and e: "e \<in> set (items b kind)"
  from e obtain es where es: "map_of (bt_order b) kind = Some es" "e \<in> set es" by (cases "map_of (bt_order b) kind") (simp_all add: items_def)
  from map_of_SomeD [OF es(1)] b have "list_all (\<lambda>e. kind_of e = kind) es" unfolding batch_wf_def list_all_iff [of "\<lambda>(kind, es). _ kind es"] by blast
  with es(2) show "kind_of e = kind" by (simp add: list_all_iff)
qed

lemma batch_order: "batch_wf b \<Longrightarrow> bt_order b = List.map (\<lambda>kind. (kind, items b kind)) kinds"
proof -
  assume "batch_wf b"
  then have f: "List.map fst (bt_order b) = kinds" by (simp add: batch_wf_def)
  then have d: "distinct (List.map fst (bt_order b))" by (simp add: distinct_kinds)
  have "bt_order b = List.map (\<lambda>p. (fst p, items b (fst p))) (bt_order b)"
    by (rule map_idI [symmetric]) (use d in \<open>auto simp: items_def\<close>)
  also have "\<dots> = List.map (\<lambda>kind. (kind, items b kind)) (List.map fst (bt_order b))" by simp
  finally show ?thesis using f by simp
qed

lemma batch_len_events: "batch_wf b \<Longrightarrow> batch_len b = length (batch_events b)"
  unfolding batch_len_def by (subst batch_order) (simp_all add: batch_events_def length_concat comp_def)

lemma mset_by_kind: "mset (concat (List.map (\<lambda>kind. filter (\<lambda>e. kind_of e = kind) es) kinds)) = mset es"
proof (induction es)
  case (Cons e es)
  then show ?case using kind_in_kinds [of e] by (cases e) (simp_all add: kinds_def)
qed simp

lemma batch_of_events: "mset (batch_events (batch_of k es)) = mset es"
proof -
  have "batch_events (batch_of k es) = concat (List.map (\<lambda>kind. filter (\<lambda>e. kind_of e = kind) es) kinds)"
    by (simp add: batch_events_def cong: map_cong)
  then show ?thesis by (simp only: mset_by_kind)
qed

lemma items_without: "kind \<in> set kinds \<Longrightarrow> items (fst (without b ps)) kind = keep_at (\<lambda>i. i \<notin> set (positions_of ps kind)) (items b kind)"
  by (auto simp: without_def items_def [of "b\<lparr>bt_order := _\<rparr>"] kinds_def)

lemma without_wf: "batch_wf b \<Longrightarrow> batch_wf (fst (without b ps))"
proof -
  assume b: "batch_wf b"
  have "set (keep_at P xs) \<subseteq> set xs" for P and xs :: "safe_event list" by (auto simp: keep_at_set)
  then have "list_all (\<lambda>e. kind_of e = kind) (keep_at P (items b kind))" for P kind
    using items_kind [OF b] unfolding list_all_iff by blast
  then show ?thesis by (simp add: batch_wf_def without_def kinds_def)
qed

lemma without_mset: "mset (batch_events (fst (without b ps))) + mset (snd (without b ps)) = mset (batch_events b)"
proof -
  have "mset (concat (List.map (\<lambda>kind. keep_at (\<lambda>i. i \<notin> set (positions_of ps kind)) (items b kind)) ks))
      + mset (concat (List.map (\<lambda>kind. keep_at (\<lambda>i. i \<in> set (positions_of ps kind)) (items b kind)) ks))
      = mset (concat (List.map (items b) ks))" for ks
  proof (induction ks)
    case (Cons k ks)
    let ?P = "\<lambda>k i. i \<in> set (positions_of ps k)"
    have "mset (keep_at (\<lambda>i. \<not> ?P k i) (items b k)) + mset (keep_at (?P k) (items b k)) = mset (items b k)" by (rule keep_at_mset)
    moreover have "(p + x) + (q + y) = r + t" if "p + q = r" "x + y = t" for p q r x y t :: "safe_event multiset"
      using that by (simp add: ac_simps)
    ultimately show ?case using Cons.IH by (simp only: list.map concat.simps mset_append)
  qed simp
  then show ?thesis by (simp add: batch_events_def items_without without_def [THEN arg_cong [of _ _ snd]] cong: map_cong)
qed

lemma without_removes: "positions_in b ps \<Longrightarrow> snd (without b ps) \<noteq> []"
proof -
  assume p: "positions_in b ps"
  then obtain kind ns rest where ps: "ps = (kind, ns) # rest" unfolding positions_in_def by (cases ps) auto
  with p obtain n where n: "kind \<in> set kinds" "n \<in> set ns" "n < length (items b kind)"
    using found_okD [of b ps kind ns] unfolding positions_in_def by (metis last_in_set list.set_intros(1))
  have "positions_of ps kind = ns" by (simp add: ps positions_of_def)
  with n have "items b kind ! n \<in> set (keep_at (\<lambda>i. i \<in> set (positions_of ps kind)) (items b kind))" by (auto simp: keep_at_set)
  with n(1) show ?thesis by (force simp: without_def)
qed

lemma position_value_Some: "position_value n v = Some i \<Longrightarrow> i < n"
  by (cases v) (auto split: if_splits)

lemma those_members: "those xs = Some ys \<Longrightarrow> y \<in> set ys \<Longrightarrow> Some y \<in> set xs"
  by (induction xs arbitrary: ys) (auto split: option.splits)

lemma those_length: "those xs = Some ys \<Longrightarrow> length ys = length xs"
  by (induction xs arbitrary: ys) (auto split: option.splits)

lemma set_sorted_set [simp]: "set (sorted_set vs) = set vs"
  by (simp add: sorted_set_def)

lemma conflict_positions_in:
  "conflict_positions b raw = Some ps \<Longrightarrow> found_ok b ps
     \<and> List.map fst ps = List.map fst raw"
proof (induction raw arbitrary: ps)
  case (Cons p raw)
  obtain kind v where p: "p = (kind, v)" by fastforce
  from Cons.prems obtain vs ns found where v: "v = JArr vs" "kind \<in> set kinds" "vs \<noteq> []"
      "those (List.map (position_value (length (items b kind))) vs) = Some ns"
      "conflict_positions b raw = Some found" "ps = (kind, sorted_set ns) # found"
    by (cases v) (auto simp: p split: if_splits option.splits)
  have "ns \<noteq> []" using those_length [OF v(4)] v(3) by auto
  then have "sorted_set ns \<noteq> []" by (metis set_empty set_sorted_set)
  moreover have "\<forall>n \<in> set ns. n < length (items b kind)" using those_members [OF v(4)] position_value_Some by fastforce
  ultimately show ?case using v(2) Cons.IH [OF v(5)] by (simp add: p v(6))
qed simp

lemma event_loc_in: "event_loc b error = Some (kind, n) \<Longrightarrow> kind \<in> set kinds \<and> n < length (items b kind)"
  by (cases "(b, error)" rule: event_loc.cases)
    (auto split: json.splits list.splits if_splits dest: position_value_Some)

lemma add_position_in:
  assumes "found_ok b found"
    and "kind \<in> set kinds" "n < length (items b kind)"
  shows "found_ok b (add_position (kind, n) found)"
proof -
  have m: "m < length (items b kind)" if "m \<in> set (n # positions_of found kind)" for m
  proof (cases "m = n")
    case False
    with that have "m \<in> set (positions_of found kind)" by simp
    then obtain vs where "map_of found kind = Some vs" "m \<in> set vs" by (cases "map_of found kind") (simp_all add: positions_of_def)
    then show ?thesis using found_okD [OF assms(1)] map_of_SomeD by metis
  qed (simp add: assms(3))
  have "found_ok b (AList.update kind vs found)" if "vs \<noteq> []" "\<forall>m \<in> set vs. m < length (items b kind)" for vs
    using assms(1) that assms(2) by (induction found) auto
  then show ?thesis using m unfolding add_position_def by simp
qed

lemma add_positions_in:
  assumes "\<forall>(kind, n) \<in> set locs. kind \<in> set kinds \<and> n < length (items b kind)"
    and "found_ok b found"
  shows "found_ok b
    (foldl (\<lambda>found p. add_position p found) found locs)"
  using assms
proof (induction locs arbitrary: found)
  case (Cons p locs)
  then have "found_ok b (add_position p found)"
    by (cases p) (simp add: add_position_in)
  with Cons show ?case by simp
qed simp

lemma add_positions_ne: "found \<noteq> [] \<or> locs \<noteq> [] \<Longrightarrow> foldl (\<lambda>found p. add_position p found) found locs \<noteq> []"
proof (induction locs arbitrary: found)
  case (Cons p locs)
  have "add_position p found \<noteq> []" by (cases found; cases p) (simp_all add: add_position_def)
  then show ?case using Cons.IH by simp
qed simp

lemma sorted_set_Nil [simp]: "sorted_set ns = [] \<longleftrightarrow> ns = []"
  by (metis set_empty set_sorted_set)

lemma found_ok_sorted: "found_ok b (List.map (\<lambda>(kind, ns). (kind, sorted_set ns)) ps) = found_ok b ps"
proof (induction ps)
  case (Cons p ps)
  then show ?case by (cases p) simp
qed simp

lemma invalid_positions_in: "invalid_positions body b = Some ps \<Longrightarrow> positions_in b ps"
proof -
  assume "invalid_positions body b = Some ps"
  then obtain detail locs where d: "detail \<noteq> []" "those (List.map (event_loc b) detail) = Some locs"
      "ps = List.map (\<lambda>(kind, ns). (kind, sorted_set ns)) (foldl (\<lambda>found p. add_position p found) [] locs)"
    unfolding invalid_positions_def by (auto split: option.splits json.splits if_splits)
  let ?found = "foldl (\<lambda>found p. add_position p found) [] locs"
  have "\<forall>(kind, n) \<in> set locs. kind \<in> set kinds \<and> n < length (items b kind)"
  proof (rule ballI)
    fix p assume p: "p \<in> set locs"
    obtain kind n where kn: "p = (kind, n)" by fastforce
    from those_members [OF d(2) p] obtain error where "event_loc b error = Some (kind, n)" by (auto simp: kn)
    then show "case p of (kind, n) \<Rightarrow> kind \<in> set kinds \<and> n < length (items b kind)" using event_loc_in kn by auto
  qed
  then have f: "found_ok b ?found"
    by (rule add_positions_in) simp
  have "locs \<noteq> []" using those_length [OF d(2)] d(1) by auto
  then have "?found \<noteq> []" using add_positions_ne [of "[]" locs] by simp
  then show "positions_in b ps" using f by (simp add: positions_in_def d(3) found_ok_sorted)
qed

lemma reported_positions_in: "reported_positions raw b = Some ps \<Longrightarrow> positions_in b ps"
proof (cases raw)
  case (JObj ms)
  assume "reported_positions raw b = Some ps"
  then have m: "ms \<noteq> []" "conflict_positions b ms = Some ps" by (simp_all add: JObj split: if_splits)
  note c = conflict_positions_in [OF m(2)]
  have "ps \<noteq> []" using c m(1) by auto
  with c show ?thesis unfolding positions_in_def by blast
qed simp_all

lemma classify_positions: "classify_upload b answer = Conflict ps \<or> classify_upload b answer = Invalid ps \<Longrightarrow> positions_in b ps"
  by (auto simp: classify_upload_def split: http_answer.splits option.splits if_splits
    dest: reported_positions_in invalid_positions_in)

lemma failure_for_category: "failure_for code \<in> set failure_categories"
  by (simp add: failure_for_def failure_categories_def)

section \<open>The properties of the client\<close>

text \<open>C39. Refused events are real: whatever the server answers, the events left out after a conflict or a validation failure are events of
  the batch, at least one, and the batch that is sent again together with them is exactly the batch, so nothing is lost, nothing is
  invented and every round is shorter.\<close>

theorem refused_events_are_real:
  assumes "batch_wf b" "classify_upload b answer = Conflict ps \<or> classify_upload b answer = Invalid ps"
  shows "snd (without b ps) \<noteq> [] \<and> batch_wf (fst (without b ps))
    \<and> mset (batch_events (fst (without b ps))) + mset (snd (without b ps)) = mset (batch_events b)
    \<and> batch_len (fst (without b ps)) < batch_len b"
proof -
  have r: "snd (without b ps) \<noteq> []" using without_removes classify_positions [OF assms(2)] by blast
  have m: "mset (batch_events (fst (without b ps))) + mset (snd (without b ps)) = mset (batch_events b)" by (rule without_mset)
  then have "length (batch_events (fst (without b ps))) + length (snd (without b ps)) = length (batch_events b)"
    by (metis size_mset size_union)
  with r have "length (batch_events (fst (without b ps))) < length (batch_events b)" by (cases "snd (without b ps)") auto
  with r m show ?thesis using batch_len_events without_wf [OF assms(1)] assms(1) by simp
qed

text \<open>An answer is classified by its status code: only a 200 counts as delivered, only a 409 as a conflict and only a 422 as invalid;
  every other answer fails with one of the five fixed categories, which for those codes depends on nothing else.\<close>

lemma upload_outcome_by_code:
  "(case classify_upload b (Response code body) of
      Delivered n m \<Rightarrow> code = 200 | Conflict ps \<Rightarrow> code = 409 | Invalid ps \<Rightarrow> code = 422
    | Failed f c \<Rightarrow> f \<in> set failure_categories \<and> c = Some code
        \<and> f = (if code = 200 then retryable else if code = 409 then permanent else if code = 422 then config else failure_for code))
   \<and> classify_status (Response code body) \<in> {StatusSent 200, StatusFailed (if code = 200 then retryable else failure_for code) (Some code)}"
proof
  show "case classify_upload b (Response code body) of
      Delivered n m \<Rightarrow> code = 200 | Conflict ps \<Rightarrow> code = 409 | Invalid ps \<Rightarrow> code = 422
    | Failed f c \<Rightarrow> f \<in> set failure_categories \<and> c = Some code
        \<and> f = (if code = 200 then retryable else if code = 409 then permanent else if code = 422 then config else failure_for code)"
    by (simp add: classify_upload_def failure_for_category split: option.splits)
      (simp add: failure_categories_def)
  show "classify_status (Response code body) \<in> {StatusSent 200, StatusFailed (if code = 200 then retryable else failure_for code) (Some code)}"
    by (auto simp: classify_status_def split: option.splits)
qed

definition sample_event :: "char \<Rightarrow> safe_event" where
  "sample_event c = Checkin \<lparr>ck_event_key = replicate 64 c, ck_event_time = 1714557600000000, ck_item_key = None,
     ck_destination = ''main'', ck_bin = ''1''\<rparr>"

definition conflict_answer :: "int list \<Rightarrow> http_answer" where
  "conflict_answer ps = Response 409 (Some (JObj [(''code'', JStr ''event_conflict''),
     (''conflicts'', JObj [(''checkins'', JArr (List.map JInt ps))])]))"

theorem refused_events_are_real_witness:
  "let b = batch_of ''k'' [sample_event (CHR ''a''), sample_event (CHR ''b'')] in
     classify_upload b (conflict_answer [1]) = Conflict [(''checkins'', [1])] \<and> batch_len (fst (without b [(''checkins'', [1])])) < batch_len b"
proof -
  let ?b = "batch_of ''k'' [sample_event (CHR ''a''), sample_event (CHR ''b'')]"
  have c: "classify_upload ?b (conflict_answer [1]) = Conflict [(''checkins'', [1])]"
    by (simp add: classify_upload_def conflict_answer_def sample_event_def kinds_def sorted_set_def)
  then show ?thesis using refused_events_are_real [OF batch_of_wf disjI1 [OF c]] by (simp add: Let_def)
qed

end
