(* ===== verification/V2Quarantine.thy ===== *)
theory V2Quarantine
  imports CollectorState
begin

text \<open>
  collector/v2_quarantine.py: the bounded store of permanently refused events. The document on disk is
  part of the state (\<open>qn_file\<close>, \<open>None\<close> when there is none); dates are ordinals printed as text, as the
  code compares them. The lemmas show that an entry is never stored twice, that the store stays within
  its cap and retention with the newest entries kept, and that what was saved is loaded again.
\<close>

section \<open>Entries\<close>

definition reasons :: "string list" where
  "reasons = [''event_conflict'', ''invalid_event'']"

definition is_entry_time :: "string \<Rightarrow> bool" where
  "is_entry_time s = fits ''9999-99-99T99:99:99Z'' s"

definition is_entry_date :: "string \<Rightarrow> bool" where
  "is_entry_date s = fits ''9999-99-99'' s"

record q_entry =
  qe_event_key :: string
  qe_kind :: string
  qe_event_time :: string
  qe_reason :: string
  qe_quarantined_on :: string

definition mk_entry :: "string \<Rightarrow> string \<Rightarrow> string \<Rightarrow> string \<Rightarrow> string \<Rightarrow> string + q_entry" where
  "mk_entry key kind t reason day =
     bind_result (check_field ''event_key'' (is_hmac_hex key)) (\<lambda>_.
     bind_result (check_field ''kind'' (kind \<in> set kinds)) (\<lambda>_.
     bind_result (check_field ''event_time'' (is_entry_time t)) (\<lambda>_.
     bind_result (check_field ''reason'' (reason \<in> set reasons)) (\<lambda>_.
     bind_result (check_field ''quarantined_on'' (is_entry_date day)) (\<lambda>_.
       Inr \<lparr>qe_event_key = key, qe_kind = kind, qe_event_time = t, qe_reason = reason, qe_quarantined_on = day\<rparr>)))))"

definition entry_dict :: "q_entry \<Rightarrow> (string \<times> json) list" where
  "entry_dict e = [(''event_key'', JStr (qe_event_key e)), (''kind'', JStr (qe_kind e)), (''event_time'', JStr (qe_event_time e)),
     (''reason'', JStr (qe_reason e)), (''quarantined_on'', JStr (qe_quarantined_on e))]"

definition entry_fields :: "string list" where
  "entry_fields = [''event_key'', ''kind'', ''event_time'', ''reason'', ''quarantined_on'']"

text \<open>\<open>QuarantineEntry(**item)\<close>: a dict with exactly the five fields.\<close>

fun entry_of_json :: "json \<Rightarrow> string + q_entry" where
  "entry_of_json (JObj item) =
     (if set (List.map fst item) \<noteq> set entry_fields then Inl ''TypeError''
      else case (jget item ''event_key'', jget item ''kind'', jget item ''event_time'', jget item ''reason'', jget item ''quarantined_on'') of
        (JStr key, JStr kind, JStr t, JStr reason, JStr day) \<Rightarrow> mk_entry key kind t reason day
      | _ \<Rightarrow> Inl ''QuarantineEntryError'')"
| "entry_of_json _ = Inl ''TypeError''"

section \<open>The store\<close>

record quarantine =
  qn_entries :: "q_entry list"
  qn_max_entries :: nat
  qn_retention_days :: nat
  qn_today :: nat
  qn_read_only :: bool
  qn_reset_from_corrupt_file :: bool
  qn_file :: "json option option" \<comment> \<open>\<open>Some None\<close>: there, but unreadable or not JSON\<close>

definition cutoff_day :: "quarantine \<Rightarrow> string" where
  "cutoff_day q = iso_date (qn_today q - qn_retention_days q)"

definition prune :: "quarantine \<Rightarrow> quarantine" where
  "prune q =
     (let kept = filter (\<lambda>e. cutoff_day q \<le> qe_quarantined_on e) (qn_entries q) in
      q\<lparr>qn_entries := (if length kept > qn_max_entries q then drop (length kept - qn_max_entries q) kept else kept)\<rparr>)"

text \<open>The entries of a document; iterating an empty object or string also gives none.\<close>

fun entries_of_document :: "json \<Rightarrow> string + q_entry list" where
  "entries_of_document (JObj document) =
     (if \<not> json_is_int (jget document ''schema_version'') 1 then Inl ''schema''
      else case jget document ''entries'' of
        JArr items \<Rightarrow> map_result entry_of_json items
      | JObj [] \<Rightarrow> Inr []
      | JStr [] \<Rightarrow> Inr []
      | _ \<Rightarrow> Inl ''TypeError'')"
| "entries_of_document _ = Inl ''AttributeError''"

definition load_quarantine :: "quarantine \<Rightarrow> quarantine" where
  "load_quarantine q =
     (case qn_file q of
        None \<Rightarrow> q\<lparr>qn_entries := []\<rparr>
      | Some content \<Rightarrow>
          (case (case content of None \<Rightarrow> Inl ''unreadable'' | Some document \<Rightarrow> entries_of_document document) of
             Inr entries \<Rightarrow> prune (q\<lparr>qn_entries := entries\<rparr>)
           | Inl _ \<Rightarrow> prune (q\<lparr>qn_entries := [], qn_reset_from_corrupt_file := True,
                              qn_file := (if qn_read_only q then qn_file q else None)\<rparr>)))"

definition q_contains :: "quarantine \<Rightarrow> string \<Rightarrow> string \<Rightarrow> bool" where
  "q_contains q kind key \<longleftrightarrow> list_ex (\<lambda>e. qe_kind e = kind \<and> qe_event_key e = key) (qn_entries q)"

definition keys_for :: "quarantine \<Rightarrow> string \<Rightarrow> string set" where
  "keys_for q kind = qe_event_key ` set (filter (\<lambda>e. qe_kind e = kind) (qn_entries q))"

definition document_of :: "quarantine \<Rightarrow> json" where
  "document_of q = JObj [(''schema_version'', JInt 1), (''entries'', JArr (List.map (\<lambda>e. JObj (entry_dict e)) (qn_entries q)))]"

definition save_quarantine :: "quarantine \<Rightarrow> quarantine" where
  "save_quarantine q = (if qn_read_only q then q else q\<lparr>qn_file := Some (Some (document_of q))\<rparr>)"

definition entry_id :: "q_entry \<Rightarrow> string \<times> string" where
  "entry_id e = (qe_kind e, qe_event_key e)"

definition add_entry :: "q_entry list \<times> (string \<times> string) set \<Rightarrow> q_entry \<Rightarrow> q_entry list \<times> (string \<times> string) set" where
  "add_entry acc e = (case acc of (entries, known) \<Rightarrow>
     if entry_id e \<in> known then (entries, known) else (entries @ [e], insert (entry_id e) known))"

definition add_entries :: "quarantine \<Rightarrow> q_entry list \<Rightarrow> quarantine" where
  "add_entries q new_entries =
     (if qn_read_only q then q
      else let known = entry_id ` set (qn_entries q);
               (entries, _) = foldl add_entry (qn_entries q, known) new_entries
           in save_quarantine (prune (q\<lparr>qn_entries := entries\<rparr>)))"

definition prune_and_save :: "quarantine \<Rightarrow> quarantine" where
  "prune_and_save q = save_quarantine (prune q)"

section \<open>Lemmas\<close>

definition entry_ok :: "q_entry \<Rightarrow> bool" where
  "entry_ok e \<longleftrightarrow> is_hmac_hex (qe_event_key e) \<and> qe_kind e \<in> set kinds \<and> is_entry_time (qe_event_time e)
     \<and> qe_reason e \<in> set reasons \<and> is_entry_date (qe_quarantined_on e)"

definition store_ok :: "quarantine \<Rightarrow> bool" where
  "store_ok q \<longleftrightarrow> distinct (List.map entry_id (qn_entries q)) \<and> length (qn_entries q) \<le> qn_max_entries q
     \<and> (\<forall>e \<in> set (qn_entries q). entry_ok e \<and> cutoff_day q \<le> qe_quarantined_on e)"

lemma mk_entry_Inr: "mk_entry key kind t reason day = Inr e \<longleftrightarrow>
   e = \<lparr>qe_event_key = key, qe_kind = kind, qe_event_time = t, qe_reason = reason, qe_quarantined_on = day\<rparr> \<and> entry_ok e"
  by (auto simp: mk_entry_def entry_ok_def)

lemma entry_roundtrip: "entry_ok e \<Longrightarrow> entry_of_json (JObj (entry_dict e)) = Inr e"
  by (cases e) (simp add: entry_dict_def entry_fields_def mk_entry_Inr)

lemma foldl_add_entry:
  assumes "distinct (List.map entry_id es)" "known = entry_id ` set es"
  shows "\<exists>es' known'. foldl add_entry (es, known) new = (es @ es', known') \<and> distinct (List.map entry_id (es @ es'))
    \<and> entry_id ` set (es @ es') = entry_id ` (set es \<union> set new) \<and> set es' \<subseteq> set new"
  using assms
proof (induction new arbitrary: es known)
  case Nil
  then show ?case by simp
next
  case (Cons e new)
  show ?case
  proof (cases "entry_id e \<in> known")
    case True
    then have s: "foldl add_entry (es, known) (e # new) = foldl add_entry (es, known) new" by (simp add: add_entry_def)
    from Cons.IH [OF Cons.prems] obtain es' known' where r: "foldl add_entry (es, known) new = (es @ es', known')"
      "distinct (List.map entry_id (es @ es'))" "entry_id ` set (es @ es') = entry_id ` (set es \<union> set new)" "set es' \<subseteq> set new"
      by blast
    with True Cons.prems(2) show ?thesis unfolding s by (intro exI [of _ es'] exI [of _ known']) auto
  next
    case False
    then have s: "foldl add_entry (es, known) (e # new) = foldl add_entry (es @ [e], insert (entry_id e) known) new"
      by (simp add: add_entry_def)
    have "distinct (List.map entry_id (es @ [e]))" "insert (entry_id e) known = entry_id ` set (es @ [e])"
      using Cons.prems False by auto
    from Cons.IH [OF this] obtain es' known' where "foldl add_entry (es @ [e], insert (entry_id e) known) new = ((es @ [e]) @ es', known')"
      "distinct (List.map entry_id ((es @ [e]) @ es'))" "entry_id ` set ((es @ [e]) @ es') = entry_id ` (set (es @ [e]) \<union> set new)"
      "set es' \<subseteq> set new" by blast
    then show ?thesis unfolding s by (intro exI [of _ "e # es'"] exI [of _ known']) auto
  qed
qed

lemma prune_ok:
  assumes "distinct (List.map entry_id (qn_entries q))" "\<forall>e \<in> set (qn_entries q). entry_ok e"
  shows "store_ok (prune q)"
proof -
  let ?kept = "filter (\<lambda>e. cutoff_day q \<le> qe_quarantined_on e) (qn_entries q)"
  have "distinct (List.map entry_id ?kept)" using assms(1) by (simp add: distinct_map_filter)
  then have "distinct (List.map entry_id (drop n ?kept))" for n by (simp add: drop_map [symmetric] distinct_drop)
  with \<open>distinct (List.map entry_id ?kept)\<close> assms(2) show ?thesis
    by (auto simp: store_ok_def prune_def Let_def cutoff_day_def dest!: in_set_dropD)
qed

lemma store_frame [simp]: "store_ok (save_quarantine q) = store_ok q" "qn_entries (save_quarantine q) = qn_entries q"
  by (simp_all add: store_ok_def save_quarantine_def cutoff_day_def)

lemma add_entries_spec:
  assumes "store_ok q" "\<not> qn_read_only q" "\<forall>e \<in> set new. entry_ok e \<and> cutoff_day q \<le> qe_quarantined_on e"
  shows "store_ok (add_entries q new) \<and> qn_file (add_entries q new) = Some (Some (document_of (add_entries q new)))
    \<and> (\<exists>added. set added \<subseteq> set new \<and> entry_id ` set (qn_entries q @ added) = entry_id ` (set (qn_entries q) \<union> set new)
         \<and> qn_entries (add_entries q new) = drop (length (qn_entries q @ added) - qn_max_entries q) (qn_entries q @ added))"
proof -
  obtain es' known' where r: "foldl add_entry (qn_entries q, entry_id ` set (qn_entries q)) new = (qn_entries q @ es', known')"
    "distinct (List.map entry_id (qn_entries q @ es'))" "entry_id ` set (qn_entries q @ es') = entry_id ` (set (qn_entries q) \<union> set new)"
    "set es' \<subseteq> set new"
    using foldl_add_entry [OF _ refl, of "qn_entries q" new] assms(1) unfolding store_ok_def by blast
  let ?q = "q\<lparr>qn_entries := qn_entries q @ es'\<rparr>"
  have a: "add_entries q new = save_quarantine (prune ?q)"
    using assms(2) r(1) by (simp add: add_entries_def Let_def)
  have all: "\<forall>e \<in> set (qn_entries ?q). entry_ok e \<and> cutoff_day ?q \<le> qe_quarantined_on e"
    using assms(1,3) r(4) by (auto simp: store_ok_def cutoff_day_def)
  then have "filter (\<lambda>e. cutoff_day ?q \<le> qe_quarantined_on e) (qn_entries ?q) = qn_entries ?q" by (intro filter_True) blast
  then have e: "qn_entries (prune ?q) = drop (length (qn_entries q @ es') - qn_max_entries q) (qn_entries q @ es')"
    unfolding prune_def by (simp add: Let_def)
  have "store_ok (prune ?q)" using prune_ok [of ?q] r(2) all by simp
  moreover have "qn_file (save_quarantine (prune ?q)) = Some (Some (document_of (save_quarantine (prune ?q))))"
    using assms(2) by (simp add: save_quarantine_def document_of_def prune_def Let_def)
  ultimately show ?thesis using r(3,4) e unfolding a by auto
qed

text \<open>Within the cap nothing is dropped.\<close>

lemma add_entries_room:
  assumes "store_ok q" "\<not> qn_read_only q" "\<forall>e \<in> set new. entry_ok e \<and> cutoff_day q \<le> qe_quarantined_on e"
    "length (qn_entries q) + length new \<le> qn_max_entries q"
  shows "store_ok (add_entries q new) \<and> entry_id ` set (qn_entries (add_entries q new)) = entry_id ` (set (qn_entries q) \<union> set new)
    \<and> length (qn_entries (add_entries q new)) \<le> length (qn_entries q) + length new
    \<and> qn_max_entries (add_entries q new) = qn_max_entries q \<and> qn_retention_days (add_entries q new) = qn_retention_days q
    \<and> qn_today (add_entries q new) = qn_today q \<and> \<not> qn_read_only (add_entries q new)"
proof -
  obtain es known where f: "foldl add_entry (qn_entries q, entry_id ` set (qn_entries q)) new = (qn_entries q @ es, known)"
    "distinct (List.map entry_id (qn_entries q @ es))" "entry_id ` set (qn_entries q @ es) = entry_id ` (set (qn_entries q) \<union> set new)"
    "set es \<subseteq> set new"
    using foldl_add_entry [OF _ refl, of "qn_entries q" new] assms(1) unfolding store_ok_def by blast
  from f(2) have "distinct es" by (simp add: distinct_map)
  then have "length es = card (set es)" by (simp add: distinct_card)
  also have "\<dots> \<le> card (set new)" by (rule card_mono) (use f(4) in simp_all)
  also have "\<dots> \<le> length new" by (rule card_length)
  finally have l: "length es \<le> length new" .
  let ?q = "q\<lparr>qn_entries := qn_entries q @ es\<rparr>"
  have a: "add_entries q new = save_quarantine (prune ?q)" using assms(2) f(1) by (simp add: add_entries_def Let_def)
  have all: "\<forall>e \<in> set (qn_entries ?q). entry_ok e \<and> cutoff_day ?q \<le> qe_quarantined_on e"
    using assms(1,3) f(4) by (auto simp: store_ok_def cutoff_day_def)
  then have "filter (\<lambda>e. cutoff_day ?q \<le> qe_quarantined_on e) (qn_entries ?q) = qn_entries ?q" by (intro filter_True) blast
  then have p: "prune ?q = ?q" using assms(4) l by (simp add: prune_def Let_def)
  have "store_ok (prune ?q)" using prune_ok [of ?q] f(2) all by simp
  then have "store_ok ?q" by (simp add: p)
  then show ?thesis using f(3) l assms(2) unfolding a p by (simp add: save_quarantine_def) (simp add: store_ok_def cutoff_day_def)
qed

section \<open>The properties of the quarantine\<close>

text \<open>Quarantining refused events keeps the store sound: no event is recorded twice, every entry has its safe format and lies within the
  retention, the cap holds with the oldest entries dropped first, every event named is recorded unless the cap pushed it out,
  and the file on disk is exactly the store.\<close>

lemma quarantine_add:
  assumes "store_ok q" "\<not> qn_read_only q" "\<forall>e \<in> set new. entry_ok e \<and> cutoff_day q \<le> qe_quarantined_on e"
  shows "store_ok (add_entries q new) \<and> qn_file (add_entries q new) = Some (Some (document_of (add_entries q new)))
    \<and> (\<exists>added. set added \<subseteq> set new \<and> entry_id ` set (qn_entries q @ added) = entry_id ` (set (qn_entries q) \<union> set new)
         \<and> qn_entries (add_entries q new) = drop (length (qn_entries q @ added) - qn_max_entries q) (qn_entries q @ added))"
  using assms by (rule add_entries_spec)

definition sample_quarantine :: quarantine where
  "sample_quarantine = \<lparr>qn_entries = [], qn_max_entries = 1, qn_retention_days = 90, qn_today = 739000, qn_read_only = False,
     qn_reset_from_corrupt_file = False, qn_file = None\<rparr>"

definition sample_entry :: "char \<Rightarrow> q_entry" where
  "sample_entry c = \<lparr>qe_event_key = replicate 64 c, qe_kind = ''checkins'', qe_event_time = ''2024-05-01T10:00:00Z'',
     qe_reason = ''event_conflict'', qe_quarantined_on = ''2024-05-02''\<rparr>"

lemma sample_entry_ok: "entry_ok (sample_entry (CHR ''a''))" "entry_ok (sample_entry (CHR ''b''))"
  "cutoff_day sample_quarantine \<le> qe_quarantined_on (sample_entry c)"
proof -
  show "entry_ok (sample_entry (CHR ''a''))" by code_simp
  show "entry_ok (sample_entry (CHR ''b''))" by code_simp
  have "ord2ymd (739000 - 90) = (2024, 1, 25)"
    by (simp add: ord2ymd_def Let_def is_leap_def month_lengths_def)
  then have "cutoff_day sample_quarantine = pad 4 2024 @ ''-'' @ pad 2 1 @ ''-'' @ pad 2 25"
    by (simp add: cutoff_day_def sample_quarantine_def iso_date_def)
  also have "\<dots> = ''2024-01-25''" by code_simp
  also have "\<dots> \<le> ''2024-05-02''" by code_simp
  finally have "cutoff_day sample_quarantine \<le> ''2024-05-02''" .
  then show "cutoff_day sample_quarantine \<le> qe_quarantined_on (sample_entry c)" by (simp add: sample_entry_def)
qed

lemma sample_store_ok: "store_ok sample_quarantine"
  by (simp add: store_ok_def sample_quarantine_def)

lemma quarantine_add_witness:
  "store_ok (add_entries sample_quarantine [sample_entry (CHR ''a''), sample_entry (CHR ''b'')])
   \<and> length (qn_entries (add_entries sample_quarantine [sample_entry (CHR ''a''), sample_entry (CHR ''b'')])) \<le> 1"
proof -
  have m: "\<not> qn_read_only sample_quarantine" by (simp add: sample_quarantine_def)
  have g: "\<forall>e \<in> set [sample_entry (CHR ''a''), sample_entry (CHR ''b'')]. entry_ok e \<and> cutoff_day sample_quarantine \<le> qe_quarantined_on e"
    using sample_entry_ok by simp
  let ?q = "add_entries sample_quarantine [sample_entry (CHR ''a''), sample_entry (CHR ''b'')]"
  have ok: "store_ok ?q" using quarantine_add [OF sample_store_ok m g] by (rule conjunct1)
  from quarantine_add [OF sample_store_ok m g] obtain added where
    "qn_entries ?q = drop (length (qn_entries sample_quarantine @ added) - qn_max_entries sample_quarantine) (qn_entries sample_quarantine @ added)"
    by blast
  then have "length (qn_entries ?q) \<le> qn_max_entries sample_quarantine" by simp
  also have "\<dots> = 1" by (simp add: sample_quarantine_def)
  finally show ?thesis using ok by simp
qed

text \<open>A quarantine saved on a day and loaded on the same day holds the same entries in the same order, so no refused event is sent
  again after a restart.\<close>

lemma quarantine_roundtrip:
  assumes "store_ok q" "\<not> qn_read_only q"
  shows "qn_entries (load_quarantine ((save_quarantine q)\<lparr>qn_entries := []\<rparr>)) = qn_entries q
    \<and> \<not> (qn_reset_from_corrupt_file (load_quarantine ((save_quarantine q)\<lparr>qn_entries := []\<rparr>)) \<and> \<not> qn_reset_from_corrupt_file q)"
proof -
  have "map_result entry_of_json (List.map (\<lambda>e. JObj (entry_dict e)) (qn_entries q)) = Inr (List.map (\<lambda>e. e) (qn_entries q))"
  proof (rule map_result_map)
    fix e assume "e \<in> set (qn_entries q)"
    then have "entry_ok e" using assms(1) by (simp add: store_ok_def)
    then show "entry_of_json (JObj (entry_dict e)) = Inr e" by (rule entry_roundtrip)
  qed
  then have d: "entries_of_document (document_of q) = Inr (qn_entries q)" by (simp add: document_of_def)
  have "filter (\<lambda>e. cutoff_day q \<le> qe_quarantined_on e) (qn_entries q) = qn_entries q"
    using assms(1) by (intro filter_True) (simp add: store_ok_def)
  with assms d show ?thesis
    by (simp add: load_quarantine_def save_quarantine_def prune_def store_ok_def cutoff_day_def)
qed

lemma quarantine_roundtrip_witness:
  "qn_entries (load_quarantine ((save_quarantine (sample_quarantine\<lparr>qn_entries := [sample_entry (CHR ''a'')]\<rparr>))\<lparr>qn_entries := []\<rparr>))
     = [sample_entry (CHR ''a'')]"
proof -
  let ?q = "sample_quarantine\<lparr>qn_entries := [sample_entry (CHR ''a'')]\<rparr>"
  have "store_ok ?q" using sample_entry_ok by (simp add: store_ok_def sample_quarantine_def cutoff_day_def)
  moreover have "\<not> qn_read_only ?q" by (simp add: sample_quarantine_def)
  ultimately show ?thesis using quarantine_roundtrip by simp
qed

end
