(* ===== verification/V2Delivery.thy ===== *)
theory V2Delivery
  imports V2Uploader V2Quarantine
begin

text \<open>
  Delivery (collector/v2_run.py, \<open>_deliver\<close>): a chunk's events in requests of bounded size, a refused event
  quarantined and the rest of its batch sent again. The network and the server are one state \<open>'w\<close> and a
  function that answers a request; what delivery relies on of them is the locale \<open>ingest_endpoint\<close>: an
  answer 200 means the batch is stored, and what is stored stays. Inside it, delivery that succeeds has left
  every event stored or quarantined, whatever was lost or refused on the way. Pacing sleeps have no effect.
\<close>

section \<open>Totals\<close>

record totals =
  to_chunks :: nat
  to_batches :: nat
  to_inserted :: int
  to_duplicates :: int
  to_quarantined_conflict :: nat
  to_quarantined_invalid :: nat
  to_skipped_quarantined :: nat
  to_sources_missing :: nat
  to_sources_rotated :: nat
  to_sources_truncated :: nat

definition new_totals :: totals where
  "new_totals = \<lparr>to_chunks = 0, to_batches = 0, to_inserted = 0, to_duplicates = 0, to_quarantined_conflict = 0,
     to_quarantined_invalid = 0, to_skipped_quarantined = 0, to_sources_missing = 0, to_sources_rotated = 0, to_sources_truncated = 0\<rparr>"

definition totals_flat :: "totals \<Rightarrow> (string \<times> int) list" where
  "totals_flat t =
     [(''chunks_committed'', int (to_chunks t)), (''batches_sent'', int (to_batches t)), (''events_inserted'', to_inserted t),
      (''events_server_duplicates'', to_duplicates t), (''events_quarantined_conflict'', int (to_quarantined_conflict t)),
      (''events_quarantined_invalid'', int (to_quarantined_invalid t)), (''events_skipped_quarantined'', int (to_skipped_quarantined t)),
      (''sources_missing'', int (to_sources_missing t)), (''sources_rotated'', int (to_sources_rotated t)),
      (''sources_truncated'', int (to_sources_truncated t))]"

section \<open>Delivery\<close>

definition max_rounds :: nat where
  "max_rounds = 60"

record 'w dstate =
  ds_world :: 'w
  ds_quarantine :: quarantine
  ds_totals :: totals

text \<open>What a run knows: the configuration, the key, today's date and the endpoint.\<close>

record 'w delivery =
  dl_post :: "http_request \<Rightarrow> 'w \<Rightarrow> http_answer \<times> 'w"
  dl_config :: collector_config
  dl_key_id :: string
  dl_max_events :: nat
  dl_today :: string

definition entry_for :: "string \<Rightarrow> string \<Rightarrow> safe_event \<Rightarrow> string + q_entry" where
  "entry_for reason today e = mk_entry (event_key_of e) (kind_of e) (format_time (event_time_of e)) reason today"

definition count_refused :: "string \<Rightarrow> nat \<Rightarrow> totals \<Rightarrow> totals" where
  "count_refused reason n t =
     (if reason = ''event_conflict'' then t\<lparr>to_quarantined_conflict := to_quarantined_conflict t + n\<rparr>
      else t\<lparr>to_quarantined_invalid := to_quarantined_invalid t + n\<rparr>)"

text \<open>One refused round: the events left out are quarantined; \<open>None\<close> when there were none.\<close>

definition refuse :: "'w delivery \<Rightarrow> string \<Rightarrow> positions \<Rightarrow> batch \<Rightarrow> 'w dstate \<Rightarrow> string + (batch \<times> 'w dstate) option" where
  "refuse d reason ps b st =
     (let (b', removed) = without b ps in
      if removed = [] then Inr None
      else bind_result (map_result (entry_for reason (dl_today d)) removed) (\<lambda>entries.
        Inr (Some (b', st\<lparr>ds_quarantine := add_entries (ds_quarantine st) entries,
                          ds_totals := count_refused reason (length removed) (ds_totals st)\<rparr>))))"

fun deliver_rounds :: "'w delivery \<Rightarrow> nat \<Rightarrow> batch \<Rightarrow> 'w dstate \<Rightarrow> string + string option \<times> 'w dstate" where
  "deliver_rounds d 0 b st = (if batch_len b = 0 then Inr (None, st) else Inr (Some permanent, st))"
| "deliver_rounds d (Suc n) b st =
     (if batch_len b = 0 then Inr (None, st)
      else
        let (outcome, w) = post_batch (dl_post d) (dl_config d) b (ds_world st);
            st = st\<lparr>ds_world := w\<rparr>
        in case outcome of
             Delivered inserted duplicates \<Rightarrow>
               Inr (None, st\<lparr>ds_totals := (ds_totals st)\<lparr>to_batches := to_batches (ds_totals st) + 1,
                     to_inserted := to_inserted (ds_totals st) + inserted, to_duplicates := to_duplicates (ds_totals st) + duplicates\<rparr>\<rparr>)
           | Failed f _ \<Rightarrow> Inr (Some (if f = [] then other_failure else f), st)
           | Conflict ps \<Rightarrow>
               bind_result (refuse d ''event_conflict'' ps b st) (\<lambda>r.
                 case r of None \<Rightarrow> Inr (Some permanent, st) | Some (b', st') \<Rightarrow> deliver_rounds d n b' st')
           | Invalid ps \<Rightarrow>
               bind_result (refuse d ''invalid_event'' ps b st) (\<lambda>r.
                 case r of None \<Rightarrow> Inr (Some permanent, st) | Some (b', st') \<Rightarrow> deliver_rounds d n b' st'))"

fun deliver_slices :: "'w delivery \<Rightarrow> safe_event list list \<Rightarrow> 'w dstate \<Rightarrow> string + string option \<times> 'w dstate" where
  "deliver_slices d [] st = Inr (None, st)"
| "deliver_slices d (es # rest) st =
     bind_result (deliver_rounds d max_rounds (batch_of (dl_key_id d) es) st) (\<lambda>(failure, st').
       case failure of None \<Rightarrow> deliver_slices d rest st' | Some f \<Rightarrow> Inr (Some f, st'))"

definition deliver :: "'w delivery \<Rightarrow> safe_event list \<Rightarrow> 'w dstate \<Rightarrow> string + string option \<times> 'w dstate" where
  "deliver d events st = deliver_slices d (chunks (dl_max_events d) events) st"

section \<open>Lemmas\<close>

definition client_event :: "safe_event \<Rightarrow> bool" where
  "client_event e \<longleftrightarrow> event_ok e \<and> in_calendar (event_time_of e)"

definition event_id :: "safe_event \<Rightarrow> string \<times> string" where
  "event_id e = (kind_of e, event_key_of e)"

text \<open>There is room for \<open>n\<close> more entries, dated today.\<close>

definition room :: "string \<Rightarrow> quarantine \<Rightarrow> nat \<Rightarrow> bool" where
  "room today q n \<longleftrightarrow> store_ok q \<and> \<not> qn_read_only q \<and> cutoff_day q \<le> today \<and> is_entry_date today
     \<and> length (qn_entries q) + n \<le> qn_max_entries q"

definition quarantined :: "quarantine \<Rightarrow> safe_event \<Rightarrow> bool" where
  "quarantined q e \<longleftrightarrow> event_id e \<in> entry_id ` set (qn_entries q)"

definition handled :: "('w \<Rightarrow> string \<Rightarrow> safe_event \<Rightarrow> bool) \<Rightarrow> string \<Rightarrow> 'w dstate \<Rightarrow> safe_event \<Rightarrow> bool" where
  "handled stored key st e \<longleftrightarrow> stored (ds_world st) key e \<or> quarantined (ds_quarantine st) e"

lemma quarantined_contains: "quarantined q e \<longleftrightarrow> q_contains q (kind_of e) (event_key_of e)"
  unfolding quarantined_def q_contains_def event_id_def entry_id_def list_ex_iff image_iff by (auto intro: bexI [rotated])

lemma event_ok_key: "event_ok e \<Longrightarrow> is_hmac_hex (event_key_of e)"
  by (cases e) (simp_all add: checkin_ok_def reject_ok_def acs_item_ok_def)

lemma entry_for_ok:
  assumes "client_event e" "is_entry_date today" "reason \<in> set reasons"
  shows "\<exists>q. entry_for reason today e = Inr q \<and> entry_ok q \<and> entry_id q = event_id e \<and> qe_quarantined_on q = today"
proof -
  have "is_hmac_hex (event_key_of e)" using assms(1) by (simp add: client_event_def event_ok_key)
  then have "entry_for reason today e = Inr \<lparr>qe_event_key = event_key_of e, qe_kind = kind_of e, qe_event_time = format_time (event_time_of e),
      qe_reason = reason, qe_quarantined_on = today\<rparr>"
    unfolding entry_for_def mk_entry_Inr using assms(2,3) kind_in_kinds fits_format_time by (simp add: entry_ok_def is_entry_time_def)
  moreover from this [unfolded entry_for_def mk_entry_Inr] have "entry_ok \<lparr>qe_event_key = event_key_of e, qe_kind = kind_of e,
      qe_event_time = format_time (event_time_of e), qe_reason = reason, qe_quarantined_on = today\<rparr>" by blast
  ultimately show ?thesis by (simp add: entry_id_def event_id_def)
qed

lemma entries_for_ok:
  assumes "\<forall>e \<in> set es. client_event e" "is_entry_date today" "reason \<in> set reasons"
  shows "\<exists>qs. map_result (entry_for reason today) es = Inr qs \<and> length qs = length es \<and> entry_id ` set qs = event_id ` set es
    \<and> (\<forall>q \<in> set qs. entry_ok q \<and> qe_quarantined_on q = today)"
  using assms(1)
proof (induction es)
  case (Cons e es)
  then obtain qs where qs: "map_result (entry_for reason today) es = Inr qs" "length qs = length es" "entry_id ` set qs = event_id ` set es"
      "\<forall>q \<in> set qs. entry_ok q \<and> qe_quarantined_on q = today" by auto
  obtain q where q: "entry_for reason today e = Inr q" "entry_ok q" "entry_id q = event_id e" "qe_quarantined_on q = today"
    using entry_for_ok [OF _ assms(2,3)] Cons.prems by auto
  have "map_result (entry_for reason today) (e # es) = Inr (q # qs)" by (simp add: qs(1) q(1))
  with qs q show ?case by (intro exI [of _ "q # qs"]) simp
qed simp

text \<open>What a refused round does.\<close>

lemma refuse_spec:
  assumes "batch_wf b" "positions_in b ps" "\<forall>e \<in> set (batch_events b). client_event e" "reason \<in> set reasons"
    "room (dl_today d) (ds_quarantine st) (batch_len b)"
  obtains b' st' removed where "refuse d reason ps b st = Inr (Some (b', st'))" "batch_wf b'" "bt_key_id b' = bt_key_id b"
    "mset (batch_events b') + mset removed = mset (batch_events b)" "removed \<noteq> []" "ds_world st' = ds_world st"
    "room (dl_today d) (ds_quarantine st') (batch_len b')"
    "entry_id ` set (qn_entries (ds_quarantine st')) = entry_id ` set (qn_entries (ds_quarantine st)) \<union> event_id ` set removed"
    "length (qn_entries (ds_quarantine st')) + batch_len b' \<le> length (qn_entries (ds_quarantine st)) + batch_len b"
    "qn_max_entries (ds_quarantine st') = qn_max_entries (ds_quarantine st)" "positions_in b ps" "fst (without b ps) = b'"
proof -
  obtain b' removed where w: "without b ps = (b', removed)" by fastforce
  have m: "mset (batch_events b') + mset removed = mset (batch_events b)" using without_mset [of b ps] by (simp add: w)
  have r: "removed \<noteq> []" using without_removes [OF assms(2)] by (simp add: w)
  have wf: "batch_wf b'" using without_wf [OF assms(1), of ps] by (simp add: w)
  have n: "batch_len b' + length removed = batch_len b"
    using arg_cong [OF m, of size] by (simp add: batch_len_events wf assms(1))
  have "set removed \<subseteq> set (batch_events b)" using arg_cong [OF m, of set_mset] by auto
  then have ok: "\<forall>e \<in> set removed. client_event e" using assms(3) by blast
  note rm = assms(5) [unfolded room_def]
  have today: "is_entry_date (dl_today d)" using rm by simp
  obtain qs where qs: "map_result (entry_for reason (dl_today d)) removed = Inr qs" "length qs = length removed"
      "entry_id ` set qs = event_id ` set removed" "\<forall>q \<in> set qs. entry_ok q \<and> qe_quarantined_on q = dl_today d"
    using entries_for_ok [OF ok today assms(4)] by blast
  let ?q = "add_entries (ds_quarantine st) qs"
  let ?st = "st\<lparr>ds_quarantine := ?q, ds_totals := count_refused reason (length removed) (ds_totals st)\<rparr>"
  have s: "refuse d reason ps b st = Inr (Some (b', ?st))" using r by (simp add: refuse_def w qs(1))
  have fresh: "\<forall>q \<in> set qs. entry_ok q \<and> cutoff_day (ds_quarantine st) \<le> qe_quarantined_on q" using qs(4) rm by simp
  have "length (qn_entries (ds_quarantine st)) + length qs \<le> qn_max_entries (ds_quarantine st)" using rm n qs(2) by simp
  note a = add_entries_room [OF _ _ fresh this]
  have a: "store_ok ?q" "entry_id ` set (qn_entries ?q) = entry_id ` (set (qn_entries (ds_quarantine st)) \<union> set qs)"
    "length (qn_entries ?q) \<le> length (qn_entries (ds_quarantine st)) + length qs" "qn_max_entries ?q = qn_max_entries (ds_quarantine st)"
    "qn_retention_days ?q = qn_retention_days (ds_quarantine st)" "qn_today ?q = qn_today (ds_quarantine st)" "\<not> qn_read_only ?q"
    using a rm by simp_all
  have "room (dl_today d) ?q (batch_len b')" using a rm n qs(2) by (simp add: room_def cutoff_day_def)
  moreover have "bt_key_id b' = bt_key_id b" using w by (auto simp: without_def)
  ultimately show thesis
    using that [OF s wf _ m r] a n qs(2,3) assms(2) w by (simp add: image_Un)
qed

section \<open>What delivery relies on\<close>

locale ingest_endpoint =
  fixes post :: "http_request \<Rightarrow> 'w \<Rightarrow> http_answer \<times> 'w"
    and stored :: "'w \<Rightarrow> string \<Rightarrow> safe_event \<Rightarrow> bool"
    and cfg :: collector_config
  assumes delivered: "\<lbrakk>batch_wf b; \<forall>e \<in> set (batch_events b). client_event e; post (upload_request cfg b) w = (Response 200 body, w');
      e \<in> set (batch_events b)\<rbrakk> \<Longrightarrow> stored w' (bt_key_id b) e"
    and kept: "stored w k e \<Longrightarrow> stored (snd (post q w)) k e"
begin

definition grown :: "'w delivery \<Rightarrow> 'w dstate \<Rightarrow> 'w dstate \<Rightarrow> nat \<Rightarrow> bool" where
  "grown d st st' n \<longleftrightarrow> (\<forall>m. room (dl_today d) (ds_quarantine st) (n + m) \<longrightarrow> room (dl_today d) (ds_quarantine st') m)
     \<and> entry_id ` set (qn_entries (ds_quarantine st)) \<subseteq> entry_id ` set (qn_entries (ds_quarantine st'))
     \<and> (\<forall>k e. stored (ds_world st) k e \<longrightarrow> stored (ds_world st') k e)"

lemma grown_mono:
  assumes "grown d st st' n" "n \<le> n'"
  shows "grown d st st' n'"
  unfolding grown_def
proof (intro conjI allI impI)
  fix m assume "room (dl_today d) (ds_quarantine st) (n' + m)"
  then have "room (dl_today d) (ds_quarantine st) (n + (n' - n + m))" using assms(2) by simp
  with assms(1) have "room (dl_today d) (ds_quarantine st') (n' - n + m)" unfolding grown_def by blast
  then show "room (dl_today d) (ds_quarantine st') m" by (simp add: room_def)
qed (use assms(1) in \<open>auto simp: grown_def\<close>)

lemma grown_handled: "grown d st st' n \<Longrightarrow> handled stored key st e \<Longrightarrow> handled stored key st' e"
  by (auto simp: grown_def handled_def quarantined_def)

lemma post_kept: "post_batch post cfg b w = (outcome, w') \<Longrightarrow> stored w k e \<Longrightarrow> stored w' k e"
  using kept [of w k e "upload_request cfg b"] by (auto simp: post_batch_def split: prod.splits)

lemma post_delivered:
  assumes "post_batch post cfg b w = (Delivered i n, w')" "batch_wf b" "\<forall>e \<in> set (batch_events b). client_event e" "e \<in> set (batch_events b)"
  shows "stored w' (bt_key_id b) e"
proof -
  obtain answer where a: "post (upload_request cfg b) w = (answer, w')" "classify_upload b answer = Delivered i n"
    using assms(1) by (auto simp: post_batch_def split: prod.splits)
  from a(2) obtain body where "answer = Response 200 body"
    by (auto simp: classify_upload_def split: http_answer.splits option.splits if_splits)
  with a(1) show ?thesis using delivered [OF assms(2,3) _ assms(4)] by simp
qed

lemma delivered_rounds:
  assumes "dl_post d = post" "dl_config d = cfg" "batch_wf b" "\<forall>e \<in> set (batch_events b). client_event e"
    "room (dl_today d) (ds_quarantine st) (batch_len b)"
  shows "\<exists>failure st'. deliver_rounds d n b st = Inr (failure, st') \<and> grown d st st' (batch_len b)
    \<and> (failure = None \<longrightarrow> (\<forall>e \<in> set (batch_events b). handled stored (bt_key_id b) st' e))"
  using assms(3-5)
proof (induction n arbitrary: b st)
  case 0
  have "batch_events b = []" if "batch_len b = 0" using that batch_len_events [OF 0(1)] by simp
  moreover have "grown d st st k" for k by (auto simp: grown_def room_def)
  ultimately show ?case by simp
next
  case (Suc n)
  show ?case
  proof (cases "batch_len b = 0")
    case True
    then have "batch_events b = []" using batch_len_events [OF Suc.prems(1)] by simp
    moreover have "grown d st st 0" by (simp add: grown_def)
    ultimately show ?thesis using True by simp
  next
    case False
    obtain outcome w where p: "post_batch post cfg b (ds_world st) = (outcome, w)" by fastforce
    let ?st = "st\<lparr>ds_world := w\<rparr>"
    have g0: "grown d st (?st\<lparr>ds_totals := t\<rparr>) k" for t k using post_kept [OF p] by (auto simp: grown_def room_def)
    have g1: "grown d st ?st k" for k using g0 [of "ds_totals st" k] by (simp add: grown_def)
    have step: "\<exists>failure st'. bind_result (refuse d reason ps b ?st) (\<lambda>r. case r of None \<Rightarrow> Inr (Some permanent, ?st)
          | Some (b', st') \<Rightarrow> deliver_rounds d n b' st') = Inr (failure, st') \<and> grown d st st' (batch_len b)
        \<and> (failure = None \<longrightarrow> (\<forall>e \<in> set (batch_events b). handled stored (bt_key_id b) st' e))"
      if reason: "reason \<in> set reasons" and ps: "positions_in b ps" for reason ps
    proof -
      have rm: "room (dl_today d) (ds_quarantine ?st) (batch_len b)" using Suc.prems(3) by simp
      obtain b' st1 removed where r: "refuse d reason ps b ?st = Inr (Some (b', st1))" "batch_wf b'" "bt_key_id b' = bt_key_id b"
        "mset (batch_events b') + mset removed = mset (batch_events b)" "ds_world st1 = ds_world ?st"
        "room (dl_today d) (ds_quarantine st1) (batch_len b')"
        "entry_id ` set (qn_entries (ds_quarantine st1)) = entry_id ` set (qn_entries (ds_quarantine ?st)) \<union> event_id ` set removed"
        "length (qn_entries (ds_quarantine st1)) + batch_len b' \<le> length (qn_entries (ds_quarantine ?st)) + batch_len b"
        "qn_max_entries (ds_quarantine st1) = qn_max_entries (ds_quarantine ?st)"
        by (rule refuse_spec [OF Suc.prems(1) ps Suc.prems(2) reason rm]) blast
      have sub: "set (batch_events b) = set (batch_events b') \<union> set removed" using arg_cong [OF r(4), of set_mset] by simp
      with Suc.prems(2) have ok: "\<forall>e \<in> set (batch_events b'). client_event e" by simp
      from Suc.IH [OF r(2) ok r(6)] obtain failure st' where i: "deliver_rounds d n b' st1 = Inr (failure, st')"
        "grown d st1 st' (batch_len b')" "failure = None \<longrightarrow> (\<forall>e \<in> set (batch_events b'). handled stored (bt_key_id b') st' e)" by blast
      have "grown d st st' (batch_len b)"
        unfolding grown_def
      proof (intro conjI allI impI)
        fix m assume "room (dl_today d) (ds_quarantine st) (batch_len b + m)"
        with r(6,8,9) have "room (dl_today d) (ds_quarantine st1) (batch_len b' + m)" by (simp add: room_def)
        with i(2) show "room (dl_today d) (ds_quarantine st') m" by (simp add: grown_def)
      next
        show "entry_id ` set (qn_entries (ds_quarantine st)) \<subseteq> entry_id ` set (qn_entries (ds_quarantine st'))"
          using i(2) r(7) by (auto simp: grown_def)
      next
        fix k e assume "stored (ds_world st) k e"
        with post_kept [OF p] r(5) have "stored (ds_world st1) k e" by simp
        with i(2) show "stored (ds_world st') k e" by (simp add: grown_def)
      qed
      moreover have "handled stored (bt_key_id b) st' e" if "failure = None" "e \<in> set (batch_events b)" for e
      proof (cases "e \<in> set (batch_events b')")
        case True
        with i(3) that(1) r(3) show ?thesis by simp
      next
        case False
        with sub that(2) have "e \<in> set removed" by blast
        then have "quarantined (ds_quarantine st1) e" by (simp add: quarantined_def r(7))
        with i(2) show ?thesis by (auto simp: handled_def quarantined_def grown_def)
      qed
      ultimately show ?thesis using r(1) i(1) by simp
    qed
    show ?thesis
    proof (cases outcome)
      case (Delivered i k)
      let ?t = "(ds_totals st)\<lparr>to_batches := to_batches (ds_totals st) + 1, to_inserted := to_inserted (ds_totals st) + i,
        to_duplicates := to_duplicates (ds_totals st) + k\<rparr>"
      have "deliver_rounds d (Suc n) b st = Inr (None, ?st\<lparr>ds_totals := ?t\<rparr>)" using False p assms(1,2) Delivered by simp
      moreover have "\<forall>e \<in> set (batch_events b). handled stored (bt_key_id b) (?st\<lparr>ds_totals := ?t\<rparr>) e"
        using post_delivered [OF p [unfolded Delivered] Suc.prems(1,2)] by (simp add: handled_def)
      ultimately show ?thesis using g0 by blast
    next
      case (Failed f c)
      have "deliver_rounds d (Suc n) b st = Inr (Some (if f = [] then other_failure else f), ?st)" using False p assms(1,2) Failed by simp
      then show ?thesis using g1 by blast
    next
      case (Conflict ps)
      have "positions_in b ps" using p classify_positions by (auto simp: post_batch_def Conflict split: prod.splits)
      moreover have "deliver_rounds d (Suc n) b st = bind_result (refuse d ''event_conflict'' ps b ?st) (\<lambda>r. case r of None \<Rightarrow> Inr (Some permanent, ?st)
          | Some (b', st') \<Rightarrow> deliver_rounds d n b' st')" using False p assms(1,2) Conflict by (simp add: Let_def)
      moreover have "''event_conflict'' \<in> set reasons" by (simp add: reasons_def)
      ultimately show ?thesis using step by metis
    next
      case (Invalid ps)
      have "positions_in b ps" using p classify_positions by (auto simp: post_batch_def Invalid split: prod.splits)
      moreover have "deliver_rounds d (Suc n) b st = bind_result (refuse d ''invalid_event'' ps b ?st) (\<lambda>r. case r of None \<Rightarrow> Inr (Some permanent, ?st)
          | Some (b', st') \<Rightarrow> deliver_rounds d n b' st')" using False p assms(1,2) Invalid by (simp add: Let_def)
      moreover have "''invalid_event'' \<in> set reasons" by (simp add: reasons_def)
      ultimately show ?thesis using step by metis
    qed
  qed
qed

lemma delivered_slices:
  assumes "dl_post d = post" "dl_config d = cfg" "\<forall>e \<in> set (concat ess). client_event e"
    "room (dl_today d) (ds_quarantine st) (length (concat ess))"
  shows "\<exists>failure st'. deliver_slices d ess st = Inr (failure, st') \<and> grown d st st' (length (concat ess))
    \<and> (failure = None \<longrightarrow> (\<forall>e \<in> set (concat ess). handled stored (dl_key_id d) st' e))"
  using assms(3,4)
proof (induction ess arbitrary: st)
  case Nil
  then show ?case by (simp add: grown_def)
next
  case (Cons es ess)
  let ?b = "batch_of (dl_key_id d) es"
  have e: "set (batch_events ?b) = set es" "batch_len ?b = length es"
    using arg_cong [OF batch_of_events, of set_mset] arg_cong [OF batch_of_events, of size] batch_len_events [OF batch_of_wf] by simp_all
  have k: "bt_key_id ?b = dl_key_id d" by (simp add: batch_of_def)
  have "\<forall>x \<in> set (batch_events ?b). client_event x" "room (dl_today d) (ds_quarantine st) (batch_len ?b)"
    using Cons.prems by (simp_all add: e room_def)
  from delivered_rounds [OF assms(1,2) batch_of_wf this, of max_rounds] obtain failure st1 where
    r: "deliver_rounds d max_rounds ?b st = Inr (failure, st1)" "grown d st st1 (length es)"
      "failure = None \<longrightarrow> (\<forall>x \<in> set es. handled stored (dl_key_id d) st1 x)" by (auto simp: e k)
  have rm: "room (dl_today d) (ds_quarantine st1) (length (concat ess))"
    using r(2) Cons.prems(2) by (simp add: grown_def)
  show ?case
  proof (cases failure)
    case None
    from Cons.IH [OF _ rm] Cons.prems(1) obtain failure' st' where i: "deliver_slices d ess st1 = Inr (failure', st')"
      "grown d st1 st' (length (concat ess))" "failure' = None \<longrightarrow> (\<forall>x \<in> set (concat ess). handled stored (dl_key_id d) st' x)" by auto
    have "grown d st st' (length (concat (es # ess)))" using r(2) i(2) by (simp add: grown_def add.assoc) (meson subset_trans)
    moreover have "handled stored (dl_key_id d) st' x" if "failure' = None" "x \<in> set (concat (es # ess))" for x
    proof (cases "x \<in> set es")
      case True
      with r(3) None have "handled stored (dl_key_id d) st1 x" by blast
      with grown_handled [OF i(2)] show ?thesis .
    next
      case False
      with that have "x \<in> set (concat ess)" by simp
      with i(3) that(1) show ?thesis by blast
    qed
    ultimately show ?thesis using r(1) None i(1) by simp
  next
    case (Some f)
    have "grown d st st1 (length (concat (es # ess)))" by (rule grown_mono [OF r(2)]) simp
    with r(1) Some show ?thesis by simp
  qed
qed

text \<open>Delivery never raises, and when it reports success every event is stored or quarantined.\<close>

lemma delivered_all:
  assumes "dl_post d = post" "dl_config d = cfg" "dl_max_events d \<noteq> 0" "\<forall>e \<in> set es. client_event e"
    "room (dl_today d) (ds_quarantine st) (length es)"
  shows "\<exists>failure st'. deliver d es st = Inr (failure, st') \<and> grown d st st' (length es)
    \<and> (failure = None \<longrightarrow> (\<forall>e \<in> set es. handled stored (dl_key_id d) st' e))"
  using delivered_slices [OF assms(1,2), of "chunks (dl_max_events d) es"] assms(4,5)
  by (simp add: deliver_def concat_chunks [OF assms(3)] del: set_concat)

end

end
