(* ===== verification/IngestModels.thy ===== *)
theory IngestModels
  imports V2Uploader
begin

text \<open>
  src/services/ingest_v2_models.py: what the server accepts. Each request model is an allowlist, read as a
  function from the decoded body: a field has its declared type and format, an absent optional field is
  \<open>None\<close>, and any other member refuses the request. A value is \<open>Accepted\<close>, \<open>Refused\<close> (a validation error),
  or validating it \<open>Raised\<close> another exception, which wins over a refusal because every field is looked at.
  Events are the records the collector builds, an event time being the instant. The lemmas show that what
  is accepted is well-formed and that everything the collector sends is accepted unchanged.
\<close>

section \<open>Validation\<close>

datatype 'a parsed = Accepted 'a | Refused | Raised

fun ap :: "('a \<Rightarrow> 'b) parsed \<Rightarrow> 'a parsed \<Rightarrow> 'b parsed" where
  "ap Raised p = Raised"
| "ap f Raised = Raised"
| "ap (Accepted f) (Accepted a) = Accepted (f a)"
| "ap _ _ = Refused"

definition accept_if :: "bool \<Rightarrow> 'a \<Rightarrow> 'a parsed" where
  "accept_if ok a = (if ok then Accepted a else Refused)"

definition field :: "(string \<times> json) list \<Rightarrow> string \<Rightarrow> (json \<Rightarrow> 'a parsed) \<Rightarrow> 'a parsed" where
  "field ms name check = (case map_of ms name of None \<Rightarrow> Refused | Some v \<Rightarrow> check v)"

definition opt_field :: "(string \<times> json) list \<Rightarrow> string \<Rightarrow> (json \<Rightarrow> 'a parsed) \<Rightarrow> 'a option parsed" where
  "opt_field ms name check =
     (case map_of ms name of None \<Rightarrow> Accepted None
      | Some v \<Rightarrow> if v = JNull then Accepted None else ap (Accepted Some) (check v))"

text \<open>\<open>extra = forbid\<close>: a member that is not a field refuses the model.\<close>

definition no_extra :: "(string \<times> json) list \<Rightarrow> string list \<Rightarrow> 'a parsed \<Rightarrow> 'a parsed" where
  "no_extra ms names p = (if set (List.map fst ms) \<subseteq> set names then p else case p of Raised \<Rightarrow> Raised | _ \<Rightarrow> Refused)"

fun parse_all :: "(json \<Rightarrow> 'a parsed) \<Rightarrow> json list \<Rightarrow> 'a list parsed" where
  "parse_all check [] = Accepted []"
| "parse_all check (j # js) = ap (ap (Accepted (#)) (check j)) (parse_all check js)"

text \<open>A list is validated item by item and refused at the first item beyond its bound.\<close>

fun parse_list :: "nat \<Rightarrow> (json \<Rightarrow> 'a parsed) \<Rightarrow> json \<Rightarrow> 'a list parsed" where
  "parse_list n check (JArr js) =
     (if length js \<le> n then parse_all check js
      else case parse_all check (take (Suc n) js) of Raised \<Rightarrow> Raised | _ \<Rightarrow> Refused)"
| "parse_list n check _ = Refused"

section \<open>Fields\<close>

definition max_events_total :: nat where
  "max_events_total = 1000"

definition max_events_per_list :: nat where
  "max_events_per_list = 1000"

definition non_hold_states :: "string list" where
  "non_hold_states = [''non_hold_101'', ''other_code10'']"

fun str_field :: "(string \<Rightarrow> bool) \<Rightarrow> json \<Rightarrow> string parsed" where
  "str_field ok (JStr s) = accept_if (ok s) s"
| "str_field ok _ = Refused"

fun bool_field :: "json \<Rightarrow> bool parsed" where
  "bool_field (JBool b) = Accepted b"
| "bool_field _ = Refused"

fun int_field :: "int \<Rightarrow> int \<Rightarrow> json \<Rightarrow> int parsed" where
  "int_field lo hi (JInt n) = accept_if (lo \<le> n \<and> n \<le> hi) n"
| "int_field lo hi _ = Refused"

section \<open>Timestamps\<close>

text \<open>The layout \<open>YYYY-MM-DDTHH:MM:SS[.ffffff](Z|+hh:mm)\<close>: microseconds and offset in minutes.\<close>

fun zone_minutes :: "string \<Rightarrow> int option" where
  "zone_minutes [c] = (if c = CHR ''Z'' then Some 0 else None)"
| "zone_minutes (c # rest) =
     (if (c = CHR ''+'' \<or> c = CHR ''-'') \<and> fits ''99:99'' rest
      then Some ((if c = CHR ''-'' then - 1 else 1) * int (60 * read_digits (take 2 rest) + read_digits (drop 3 rest))) else None)"
| "zone_minutes [] = None"

definition iso_tail :: "string \<Rightarrow> (nat \<times> int) option" where
  "iso_tail rest =
     (if rest \<noteq> [] \<and> hd rest = CHR ''.''
      then let ds = takeWhile is_digit (tl rest) in
           if 1 \<le> length ds \<and> length ds \<le> 6
           then map_option (\<lambda>z. (read_digits ds * 10 ^ (6 - length ds), z)) (zone_minutes (drop (length ds) (tl rest))) else None
      else map_option (\<lambda>z. (0, z)) (zone_minutes rest))"

text \<open>\<open>datetime.fromisoformat\<close> on that layout: the local time and its offset, or a \<open>ValueError\<close>.\<close>

definition from_iso :: "string \<Rightarrow> (instant \<times> int) option" where
  "from_iso s =
     (if fits ''9999-99-99T99:99:99'' (take 19 s)
      then case iso_tail (drop 19 s) of None \<Rightarrow> None
        | Some (us, z) \<Rightarrow>
            (let y = read_digits (take 4 s); m = read_digits (take 2 (drop 5 s)); d = read_digits (take 2 (drop 8 s));
                 h = read_digits (take 2 (drop 11 s)); mi = read_digits (take 2 (drop 14 s)); sec = read_digits (take 2 (drop 17 s))
             in if valid_ymd (y, m, d) \<and> h < 24 \<and> mi < 60 \<and> sec < 60 \<and> \<bar>z\<bar> < 1440
                then Some (instant_of (y, m, d) h mi sec + int us, z) else None)
      else None)"

definition models_earliest :: instant where
  "models_earliest = 946684800000000"

definition future_tolerance :: instant where
  "future_tolerance = 86400000000"

text \<open>\<open>astimezone(UTC)\<close> raises \<open>OverflowError\<close> when the instant has no \<open>datetime\<close>; that is no validation error.\<close>

fun parse_offset_timestamp :: "instant \<Rightarrow> json \<Rightarrow> instant parsed" where
  "parse_offset_timestamp now (JStr s) =
     (case from_iso s of
        None \<Rightarrow> Refused
      | Some (local, minutes) \<Rightarrow>
          (let t = local - minutes * 60000000 in
           if \<not> in_calendar t then Raised
           else accept_if (models_earliest \<le> t \<and> t \<le> now + future_tolerance) t))"
| "parse_offset_timestamp now _ = Refused"

section \<open>Events\<close>

fun checkin_event :: "instant \<Rightarrow> json \<Rightarrow> checkin_v2 parsed" where
  "checkin_event now (JObj ms) =
     no_extra ms [''event_key'', ''event_time'', ''item_key'', ''destination'', ''bin'']
       (ap (ap (ap (ap (ap (Accepted (\<lambda>key t item dest bin.
            \<lparr>ck_event_key = key, ck_event_time = t, ck_item_key = item, ck_destination = dest, ck_bin = bin\<rparr>))
          (field ms ''event_key'' (str_field is_hmac_hex)))
          (field ms ''event_time'' (parse_offset_timestamp now)))
          (opt_field ms ''item_key'' (str_field is_hmac_hex)))
          (field ms ''destination'' (str_field is_destination)))
          (field ms ''bin'' (str_field is_bin)))"
| "checkin_event now _ = Refused"

fun reject_event :: "instant \<Rightarrow> json \<Rightarrow> reject_v2 parsed" where
  "reject_event now (JObj ms) =
     no_extra ms [''event_key'', ''event_time'', ''error_class'', ''item_key'']
       (ap (ap (ap (ap (Accepted (\<lambda>key t cls item.
            \<lparr>rj_event_key = key, rj_event_time = t, rj_error_class = cls, rj_item_key = item\<rparr>))
          (field ms ''event_key'' (str_field is_hmac_hex)))
          (field ms ''event_time'' (parse_offset_timestamp now)))
          (field ms ''error_class'' (str_field (\<lambda>s. s \<in> set error_classes))))
          (opt_field ms ''item_key'' (str_field is_hmac_hex)))"
| "reject_event now _ = Refused"

definition acs_hold_event :: "instant \<Rightarrow> (string \<times> json) list \<Rightarrow> acs_item_v2 parsed" where
  "acs_hold_event now ms =
     no_extra ms [''state'', ''event_key'', ''event_time'', ''item_key'', ''destination'', ''is_ill'', ''is_branch_services'',
                  ''is_collection_services'', ''ruleset_id'']
       (ap (ap (ap (ap (ap (ap (ap (ap (Accepted (\<lambda>key t item dest ill br co rs.
            \<lparr>ai_event_key = key, ai_event_time = t, ai_item_key = item, ai_state = ''hold'', ai_destination = Some dest, ai_is_ill = Some ill,
             ai_is_branch_services = Some br, ai_is_collection_services = Some co, ai_ruleset_id = rs\<rparr>))
          (field ms ''event_key'' (str_field is_hmac_hex)))
          (field ms ''event_time'' (parse_offset_timestamp now)))
          (field ms ''item_key'' (str_field is_hmac_hex)))
          (field ms ''destination'' (str_field is_destination)))
          (field ms ''is_ill'' bool_field))
          (field ms ''is_branch_services'' bool_field))
          (field ms ''is_collection_services'' bool_field))
          (opt_field ms ''ruleset_id'' (str_field is_uuid4)))"

definition acs_non_hold_event :: "instant \<Rightarrow> string \<Rightarrow> (string \<times> json) list \<Rightarrow> acs_item_v2 parsed" where
  "acs_non_hold_event now state ms =
     no_extra ms [''state'', ''event_key'', ''event_time'', ''item_key'']
       (ap (ap (ap (Accepted (\<lambda>key t item.
            \<lparr>ai_event_key = key, ai_event_time = t, ai_item_key = item, ai_state = state, ai_destination = None, ai_is_ill = None,
             ai_is_branch_services = None, ai_is_collection_services = None, ai_ruleset_id = None\<rparr>))
          (field ms ''event_key'' (str_field is_hmac_hex)))
          (field ms ''event_time'' (parse_offset_timestamp now)))
          (field ms ''item_key'' (str_field is_hmac_hex)))"

text \<open>The union is discriminated by \<open>state\<close>.\<close>

fun acs_item_event :: "instant \<Rightarrow> json \<Rightarrow> acs_item_v2 parsed" where
  "acs_item_event now (JObj ms) =
     (case jget ms ''state'' of
        JStr s \<Rightarrow> if s = ''hold'' then acs_hold_event now ms
                  else if s \<in> set non_hold_states then acs_non_hold_event now s ms else Refused
      | _ \<Rightarrow> Refused)"
| "acs_item_event now _ = Refused"

section \<open>Requests\<close>

record upload_v2_request =
  up_key_id :: string
  up_checkins :: "checkin_v2 list"
  up_rejects :: "reject_v2 list"
  up_acs_items :: "acs_item_v2 list"

definition list_field :: "(string \<times> json) list \<Rightarrow> string \<Rightarrow> (json \<Rightarrow> 'a parsed) \<Rightarrow> 'a list parsed" where
  "list_field ms name check = (case map_of ms name of None \<Rightarrow> Accepted [] | Some v \<Rightarrow> parse_list max_events_per_list check v)"

definition total_is_bounded :: "upload_v2_request \<Rightarrow> bool" where
  "total_is_bounded r \<longleftrightarrow> length (up_checkins r) + length (up_rejects r) + length (up_acs_items r) \<le> max_events_total"

fun after :: "('a \<Rightarrow> bool) \<Rightarrow> 'a parsed \<Rightarrow> 'a parsed" where
  "after ok (Accepted a) = accept_if (ok a) a"
| "after ok p = p"

fun parse_upload :: "instant \<Rightarrow> json \<Rightarrow> upload_v2_request parsed" where
  "parse_upload now (JObj ms) =
     after total_is_bounded (no_extra ms [''contract_version'', ''key_id'', ''checkins'', ''rejects'', ''acs_items'']
       (ap (ap (ap (ap (ap (Accepted (\<lambda>_ key cs rs as. \<lparr>up_key_id = key, up_checkins = cs, up_rejects = rs, up_acs_items = as\<rparr>))
          (field ms ''contract_version'' (int_field 2 2)))
          (field ms ''key_id'' (str_field is_uuid4)))
          (list_field ms ''checkins'' (checkin_event now)))
          (list_field ms ''rejects'' (reject_event now)))
          (list_field ms ''acs_items'' (acs_item_event now))))"
| "parse_upload now _ = Refused"

record status_v2_request =
  sq_key_id :: string
  sq_status :: string
  sq_last_error_class :: "string option"
  sq_pending_outbox_count :: "int option"
  sq_quarantined_count :: "int option"
  sq_oldest_pending_event_at :: "instant option"
  sq_last_success_at :: "instant option"
  sq_watcher_last_active_at :: "instant option"
  sq_collector_last_run_at :: "instant option"
  sq_collector_next_run_at :: "instant option"
  sq_collector_run_duration_ms :: "int option"
  sq_collector_schedule_status :: "string option"

definition status_fields :: "string list" where
  "status_fields = [''contract_version'', ''key_id'', ''status'', ''last_error_class'', ''pending_outbox_count'', ''quarantined_count'',
     ''oldest_pending_event_at'', ''last_success_at'', ''watcher_last_active_at'', ''collector_last_run_at'', ''collector_next_run_at'',
     ''collector_run_duration_ms'', ''collector_schedule_status'']"

fun parse_status :: "instant \<Rightarrow> json \<Rightarrow> status_v2_request parsed" where
  "parse_status now (JObj ms) =
     no_extra ms status_fields
       (ap (ap (ap (ap (ap (ap (ap (ap (ap (ap (ap (ap (ap (Accepted (\<lambda>_ key st cls pend quar oldest success active last_run next_run dur sched.
            \<lparr>sq_key_id = key, sq_status = st, sq_last_error_class = cls, sq_pending_outbox_count = pend, sq_quarantined_count = quar,
             sq_oldest_pending_event_at = oldest, sq_last_success_at = success, sq_watcher_last_active_at = active,
             sq_collector_last_run_at = last_run, sq_collector_next_run_at = next_run, sq_collector_run_duration_ms = dur,
             sq_collector_schedule_status = sched\<rparr>))
          (field ms ''contract_version'' (int_field 2 2)))
          (field ms ''key_id'' (str_field is_uuid4)))
          (field ms ''status'' (str_field (\<lambda>s. s \<in> set health_statuses))))
          (opt_field ms ''last_error_class'' (str_field (\<lambda>s. s \<in> set last_error_classes))))
          (opt_field ms ''pending_outbox_count'' (int_field 0 max_counter)))
          (opt_field ms ''quarantined_count'' (int_field 0 max_counter)))
          (opt_field ms ''oldest_pending_event_at'' (parse_offset_timestamp now)))
          (opt_field ms ''last_success_at'' (parse_offset_timestamp now)))
          (opt_field ms ''watcher_last_active_at'' (parse_offset_timestamp now)))
          (opt_field ms ''collector_last_run_at'' (parse_offset_timestamp now)))
          (opt_field ms ''collector_next_run_at'' (parse_offset_timestamp now)))
          (opt_field ms ''collector_run_duration_ms'' (int_field 0 max_run_duration_ms)))
          (opt_field ms ''collector_schedule_status'' (str_field (\<lambda>s. s \<in> set schedule_statuses))))"
| "parse_status now _ = Refused"

section \<open>Lemmas\<close>

lemma ap_Accepted [simp]: "ap f p = Accepted b \<longleftrightarrow> (\<exists>g a. f = Accepted g \<and> p = Accepted a \<and> b = g a)"
  by (cases "(f, p)" rule: ap.cases) auto

lemma accept_if_Accepted [simp]: "accept_if ok a = Accepted b \<longleftrightarrow> ok \<and> b = a"
  by (auto simp: accept_if_def)

lemma field_Accepted: "field ms name check = Accepted a \<longleftrightarrow> (\<exists>v. map_of ms name = Some v \<and> check v = Accepted a)"
  by (simp add: field_def split: option.splits)

lemma opt_field_Accepted: "opt_field ms name check = Accepted a \<longleftrightarrow>
    (case map_of ms name of None \<Rightarrow> a = None
     | Some v \<Rightarrow> if v = JNull then a = None else \<exists>b. a = Some b \<and> check v = Accepted b)"
  by (auto simp: opt_field_def split: option.splits)

lemma no_extra_Accepted [simp]: "no_extra ms names p = Accepted a \<longleftrightarrow> set (List.map fst ms) \<subseteq> set names \<and> p = Accepted a"
  by (auto simp: no_extra_def split: parsed.splits)

lemma str_field_Accepted [simp]: "str_field ok j = Accepted s \<longleftrightarrow> j = JStr s \<and> ok s"
  by (cases j) auto

lemma bool_field_Accepted [simp]: "bool_field j = Accepted b \<longleftrightarrow> j = JBool b"
  by (cases j) auto

lemma after_Accepted [simp]: "after ok p = Accepted a \<longleftrightarrow> p = Accepted a \<and> ok a"
  by (cases p) auto

lemma parse_list_map: "length js \<le> n \<Longrightarrow> (\<And>j. j \<in> set js \<Longrightarrow> check j = Accepted (f j)) \<Longrightarrow> parse_list n check (JArr js) = Accepted (List.map f js)"
proof -
  assume "length js \<le> n" "\<And>j. j \<in> set js \<Longrightarrow> check j = Accepted (f j)"
  moreover from this(2) have "parse_all check js = Accepted (List.map f js)" by (induction js) auto
  ultimately show ?thesis by simp
qed

lemma parse_all_Accepted: "parse_all check js = Accepted as \<Longrightarrow> list_all2 (\<lambda>j a. check j = Accepted a) js as"
  by (induction js arbitrary: as) auto

lemma opt_str_ok: "opt_field ms name (str_field ok) = Accepted v \<Longrightarrow> (case v of None \<Rightarrow> True | Some s \<Rightarrow> ok s)"
  by (auto simp: opt_field_Accepted split: option.splits if_splits)

lemma checkin_event_ok: "checkin_event now j = Accepted e \<Longrightarrow> checkin_ok e"
  by (cases j) (auto simp: field_Accepted checkin_ok_def dest: opt_str_ok)

lemma reject_event_ok: "reject_event now j = Accepted e \<Longrightarrow> reject_ok e"
  by (cases j) (auto simp: field_Accepted reject_ok_def dest: opt_str_ok)

lemma acs_hold_event_ok: "acs_hold_event now ms = Accepted e \<Longrightarrow> acs_item_ok e"
  unfolding acs_hold_event_def
  by (clarsimp simp: field_Accepted acs_item_ok_def acs_item_states_def dest!: opt_str_ok)

lemma acs_non_hold_event_ok: "acs_non_hold_event now st ms = Accepted e \<Longrightarrow> st \<in> set non_hold_states \<Longrightarrow> acs_item_ok e"
  unfolding acs_non_hold_event_def
  by (clarsimp simp: field_Accepted acs_item_ok_def acs_item_states_def non_hold_states_def)

lemma acs_item_event_ok: "acs_item_event now j = Accepted e \<Longrightarrow> acs_item_ok e"
proof (cases j)
  case (JObj ms)
  assume a: "acs_item_event now j = Accepted e"
  then obtain st where st: "jget ms ''state'' = JStr st" by (cases "jget ms ''state''") (simp_all add: JObj)
  consider (hold) "st = ''hold''" | (non_hold) "st \<noteq> ''hold''" "st \<in> set non_hold_states"
    using a st by (auto simp: JObj split: if_splits)
  then show ?thesis
  proof cases
    case hold
    with a st show ?thesis by (simp add: JObj acs_hold_event_ok)
  next
    case non_hold
    with a st show ?thesis using acs_non_hold_event_ok by (simp add: JObj)
  qed
qed simp_all

definition whole :: "instant \<Rightarrow> instant" where
  "whole t = t div 1000000 * 1000000"

definition in_range :: "instant \<Rightarrow> instant \<Rightarrow> bool" where
  "in_range now t \<longleftrightarrow> models_earliest \<le> whole t \<and> whole t \<le> now + future_tolerance"

lemma timestamp_in_range: "parse_offset_timestamp now j = Accepted t \<Longrightarrow> models_earliest \<le> t \<and> t \<le> now + future_tolerance \<and> in_calendar t"
  by (cases j) (auto simp: Let_def split: option.splits if_splits)

lemma from_iso_fields:
  assumes "y < 10 ^ 4" "m < 10 ^ 2" "d < 10 ^ 2" "valid_ymd (y, m, d)" "s < 86400"
  shows "from_iso ((pad 4 y @ ''-'' @ pad 2 m @ ''-'' @ pad 2 d) @ ''T'' @ hms s @ ''Z'')
    = Some (instant_of (y, m, d) (s div 3600) (s div 60 mod 60) (s mod 60), 0)"
proof -
  let ?h = "s div 3600" and ?mi = "s div 60 mod 60" and ?sec = "s mod 60"
  have b: "?h < 24" "?mi < 60" "?sec < 60" using assms(5) by auto
  let ?s = "pad 4 y @ ''-'' @ pad 2 m @ ''-'' @ pad 2 d @ ''T'' @ pad 2 ?h @ '':'' @ pad 2 ?mi @ '':'' @ pad 2 ?sec @ ''Z''"
  have e: "(pad 4 y @ ''-'' @ pad 2 m @ ''-'' @ pad 2 d) @ ''T'' @ hms s @ ''Z'' = ?s" by (simp add: hms_def)
  have t: "take 19 ?s = pad 4 y @ ''-'' @ pad 2 m @ ''-'' @ pad 2 d @ ''T'' @ pad 2 ?h @ '':'' @ pad 2 ?mi @ '':'' @ pad 2 ?sec"
    "drop 19 ?s = ''Z''" "take 4 ?s = pad 4 y" "take 2 (drop 5 ?s) = pad 2 m" "take 2 (drop 8 ?s) = pad 2 d"
    "take 2 (drop 11 ?s) = pad 2 ?h" "take 2 (drop 14 ?s) = pad 2 ?mi" "take 2 (drop 17 ?s) = pad 2 ?sec"
    by (simp_all add: length_pad)
  have l: "''9999-99-99T99:99:99'' = replicate 4 (CHR ''9'') @ ''-'' @ replicate 2 (CHR ''9'') @ ''-'' @ replicate 2 (CHR ''9'') @ ''T''
    @ replicate 2 (CHR ''9'') @ '':'' @ replicate 2 (CHR ''9'') @ '':'' @ replicate 2 (CHR ''9'')"
    by (simp add: numeral_nat)
  have f: "fits ''9999-99-99T99:99:99'' (take 19 ?s)"
    unfolding t(1) l by (simp only: fits_append length_pad length_replicate fits_pad list.size fits.simps) simp
  have r: "read_digits (pad 4 y) = y" "read_digits (pad 2 m) = m" "read_digits (pad 2 d) = d" "read_digits (pad 2 ?h) = ?h"
    "read_digits (pad 2 ?mi) = ?mi" "read_digits (pad 2 ?sec) = ?sec"
    using assms(1-3) b by (simp_all add: read_pad)
  have z: "iso_tail ''Z'' = Some (0, 0)" by (simp add: iso_tail_def)
  show ?thesis unfolding e from_iso_def by (simp only: f if_True t(2-) z r option.case prod.case Let_def) (use assms(4) b in simp)
qed

lemma from_iso_format_time:
  assumes "in_calendar t"
  shows "from_iso (format_time t) = Some (whole t, 0)"
proof -
  obtain y m d where p: "ord2ymd (ord_of t) = (y, m, d)" by (metis prod_cases3)
  have o: "1 \<le> ord_of t" "ord_of t \<le> 3652059" using ord_of_pos [OF assms] by auto
  let ?s = "sec_of_day t"
  have "from_iso (format_time t) = Some (instant_of (y, m, d) (?s div 3600) (?s div 60 mod 60) (?s mod 60), 0)"
    using from_iso_fields [OF ymd_bounds [OF o p] sec_of_day_less] by (simp add: format_time_def iso_date_def p)
  then show ?thesis by (simp add: instant_of_time [OF assms p] whole_def)
qed

lemma timestamp_of_format:
  assumes "in_calendar t" "in_range now t"
  shows "parse_offset_timestamp now (JStr (format_time t)) = Accepted (whole t)"
proof -
  have "whole t \<le> t" "t < whole t + 1000000"
    using div_mult_mod_eq [of t 1000000] by (simp_all add: whole_def)
  moreover have "day_of (whole t) = day_of t" unfolding day_of_def whole_def
    using zdiv_zmult2_eq [of 86400 t 1000000] zdiv_zmult2_eq [of 86400 "t div 1000000 * 1000000" 1000000] by simp
  ultimately have "in_calendar (whole t)" using assms(1) by (simp add: in_calendar_def)
  then show ?thesis using assms(2) by (simp add: from_iso_format_time [OF assms(1)] in_range_def)
qed

definition on_server :: "safe_event \<Rightarrow> safe_event" where
  "on_server e = (case e of Checkin c \<Rightarrow> Checkin (c\<lparr>ck_event_time := whole (ck_event_time c)\<rparr>)
     | Reject r \<Rightarrow> Reject (r\<lparr>rj_event_time := whole (rj_event_time r)\<rparr>)
     | AcsItem a \<Rightarrow> AcsItem (a\<lparr>ai_event_time := whole (ai_event_time a)\<rparr>))"

definition sendable :: "instant \<Rightarrow> safe_event \<Rightarrow> bool" where
  "sendable now e \<longleftrightarrow> event_ok e \<and> in_calendar (event_time_of e) \<and> in_range now (event_time_of e)"

lemma checkin_accepted:
  assumes "checkin_ok e" "in_calendar (ck_event_time e)" "in_range now (ck_event_time e)"
  shows "checkin_event now (JObj (checkin_payload e)) = Accepted (e\<lparr>ck_event_time := whole (ck_event_time e)\<rparr>)"
  using assms(1) timestamp_of_format [OF assms(2,3)]
  by (cases e; cases "ck_item_key e")
    (simp_all add: checkin_payload_def field_def opt_field_def no_extra_def accept_if_def checkin_ok_def del: parse_offset_timestamp.simps)

lemma reject_accepted:
  assumes "reject_ok e" "in_calendar (rj_event_time e)" "in_range now (rj_event_time e)"
  shows "reject_event now (JObj (reject_payload e)) = Accepted (e\<lparr>rj_event_time := whole (rj_event_time e)\<rparr>)"
  using assms(1) timestamp_of_format [OF assms(2,3)]
  by (cases e; cases "rj_item_key e")
    (simp_all add: reject_payload_def field_def opt_field_def no_extra_def accept_if_def reject_ok_def del: parse_offset_timestamp.simps)

lemma acs_item_accepted:
  assumes "acs_item_ok e" "in_calendar (ai_event_time e)" "in_range now (ai_event_time e)"
  shows "acs_item_event now (JObj (acs_item_payload e)) = Accepted (e\<lparr>ai_event_time := whole (ai_event_time e)\<rparr>)"
proof (cases "ai_state e = ''hold''")
  case True
  with assms(1) obtain d i b c where f: "ai_destination e = Some d" "is_destination d" "ai_is_ill e = Some i" "ai_is_branch_services e = Some b"
      "ai_is_collection_services e = Some c"
    by (auto simp: acs_item_ok_def split: option.splits)
  with True assms(1) show ?thesis using timestamp_of_format [OF assms(2,3)]
    by (cases e; cases "ai_ruleset_id e")
      (simp_all add: acs_item_payload_def acs_hold_event_def field_def opt_field_def no_extra_def accept_if_def acs_item_ok_def
        json_opt_str_def json_opt_bool_def del: parse_offset_timestamp.simps)
next
  case False
  with assms(1) have "ai_state e \<in> set non_hold_states" by (auto simp: acs_item_ok_def acs_item_states_def non_hold_states_def)
  with False assms(1) show ?thesis using timestamp_of_format [OF assms(2,3)]
    by (cases e) (simp_all add: acs_item_payload_def acs_non_hold_event_def field_def no_extra_def accept_if_def acs_item_ok_def
      del: parse_offset_timestamp.simps)
qed

definition request_events :: "upload_v2_request \<Rightarrow> safe_event list" where
  "request_events r = List.map Checkin (up_checkins r) @ List.map Reject (up_rejects r) @ List.map AcsItem (up_acs_items r)"

lemma of_kind_map: "\<forall>e \<in> set es. \<exists>x. e = c x \<Longrightarrow> \<exists>xs. es = List.map c xs"
proof (induction es)
  case (Cons e es)
  then obtain x xs where "e = c x" "es = List.map c xs" by auto
  then have "e # es = List.map c (x # xs)" by simp
  then show ?case by (rule exI)
qed simp

lemma items_of_kind:
  assumes "batch_wf b"
  shows "\<exists>cs. items b ''checkins'' = List.map Checkin cs" "\<exists>rs. items b ''rejects'' = List.map Reject rs"
    "\<exists>as. items b ''acs_items'' = List.map AcsItem as"
proof -
  show "\<exists>cs. items b ''checkins'' = List.map Checkin cs"
  proof (rule of_kind_map, rule ballI)
    fix e assume "e \<in> set (items b ''checkins'')"
    from items_kind [OF assms this] show "\<exists>x. e = Checkin x" by (cases e) simp_all
  qed
  show "\<exists>rs. items b ''rejects'' = List.map Reject rs"
  proof (rule of_kind_map, rule ballI)
    fix e assume "e \<in> set (items b ''rejects'')"
    from items_kind [OF assms this] show "\<exists>x. e = Reject x" by (cases e) simp_all
  qed
  show "\<exists>as. items b ''acs_items'' = List.map AcsItem as"
  proof (rule of_kind_map, rule ballI)
    fix e assume "e \<in> set (items b ''acs_items'')"
    from items_kind [OF assms this] show "\<exists>x. e = AcsItem x" by (cases e) simp_all
  qed
qed

text \<open>One list of the request, whether it was sent or left out because it is empty.\<close>

definition list_member :: "string \<Rightarrow> json list \<Rightarrow> (string \<times> json) list" where
  "list_member kind js = (if js = [] then [] else [(kind, JArr js)])"

lemma batch_payload_members: "batch_payload b = [(''contract_version'', JInt 2), (''key_id'', JStr (bt_key_id b))]
    @ list_member ''checkins'' (List.map (\<lambda>e. JObj (event_payload e)) (items b ''checkins''))
    @ list_member ''rejects'' (List.map (\<lambda>e. JObj (event_payload e)) (items b ''rejects''))
    @ list_member ''acs_items'' (List.map (\<lambda>e. JObj (event_payload e)) (items b ''acs_items''))"
  by (simp add: batch_payload_def list_member_def kinds_def)

lemma map_of_append_None: "map_of xs k = None \<Longrightarrow> map_of ys k = None \<Longrightarrow> map_of (xs @ ys) k = None"
  by (simp add: map_add_def)

lemma parse_list_events:
  assumes "\<And>x. x \<in> set xs \<Longrightarrow> check (JObj (event_payload (c x))) = Accepted (f x)" "length xs \<le> 1000"
    "map_of before kind = None" "map_of rest kind = None"
  shows "list_field (before @ list_member kind (List.map (\<lambda>e. JObj (event_payload e)) (List.map c xs)) @ rest) kind check = Accepted (List.map f xs)"
proof -
  have p: "parse_all check (List.map (\<lambda>e. JObj (event_payload e)) (List.map c xs)) = Accepted (List.map f xs)"
    using assms(1) by (induction xs) auto
  show ?thesis
  proof (cases "xs = []")
    case True
    with map_of_append_None [OF assms(3,4)] show ?thesis by (simp add: list_field_def list_member_def del: map_of_append)
  next
    case False
    with assms(2-4) p show ?thesis
      by (simp add: list_field_def list_member_def max_events_per_list_def map_add_def)
  qed
qed

lemma list_member_keys: "k \<noteq> kind \<Longrightarrow> map_of (list_member kind js) k = None"
  by (simp add: list_member_def)

lemma sent_batch_parsed:
  assumes "batch_wf b" "is_uuid4 (bt_key_id b)" "\<forall>e \<in> set (batch_events b). sendable now e" "length (batch_events b) \<le> 1000"
  shows "\<exists>r. parse_upload now (JObj (batch_payload b)) = Accepted r \<and> up_key_id r = bt_key_id b
    \<and> request_events r = List.map on_server (batch_events b)"
proof -
  obtain cs rs as where l: "items b ''checkins'' = List.map Checkin cs" "items b ''rejects'' = List.map Reject rs"
      "items b ''acs_items'' = List.map AcsItem as"
    using items_of_kind [OF assms(1)] by blast
  have ev: "batch_events b = List.map Checkin cs @ List.map Reject rs @ List.map AcsItem as"
    by (simp add: batch_events_def kinds_def l)
  have n: "length cs + length rs + length as \<le> 1000" using assms(4) by (simp add: ev)
  let ?c = "\<lambda>e. e\<lparr>ck_event_time := whole (ck_event_time e)\<rparr>" and ?r = "\<lambda>e. e\<lparr>rj_event_time := whole (rj_event_time e)\<rparr>"
    and ?a = "\<lambda>e. e\<lparr>ai_event_time := whole (ai_event_time e)\<rparr>"
  have "checkin_event now (JObj (event_payload (Checkin x))) = Accepted (?c x)" if "x \<in> set cs" for x
    using checkin_accepted [of x now] bspec [OF assms(3), of "Checkin x"] that by (simp add: ev sendable_def del: checkin_event.simps)
  note pc = parse_list_events [of cs "checkin_event now" Checkin ?c, OF this]
  have "reject_event now (JObj (event_payload (Reject x))) = Accepted (?r x)" if "x \<in> set rs" for x
    using reject_accepted [of x now] bspec [OF assms(3), of "Reject x"] that by (simp add: ev sendable_def del: reject_event.simps)
  note pr = parse_list_events [of rs "reject_event now" Reject ?r, OF this]
  have "acs_item_event now (JObj (event_payload (AcsItem x))) = Accepted (?a x)" if "x \<in> set as" for x
    using acs_item_accepted [of x now] bspec [OF assms(3), of "AcsItem x"] that by (simp add: ev sendable_def del: acs_item_event.simps)
  note pa = parse_list_events [of as "acs_item_event now" AcsItem ?a, OF this]
  let ?jc = "list_member ''checkins'' (List.map (\<lambda>e. JObj (event_payload e)) (List.map Checkin cs))"
  let ?jr = "list_member ''rejects'' (List.map (\<lambda>e. JObj (event_payload e)) (List.map Reject rs))"
  let ?ja = "list_member ''acs_items'' (List.map (\<lambda>e. JObj (event_payload e)) (List.map AcsItem as))"
  let ?h = "[(''contract_version'', JInt 2), (''key_id'', JStr (bt_key_id b))]"
  have ms: "batch_payload b = ?h @ ?jc @ ?jr @ ?ja" by (simp only: batch_payload_members l)
  let ?req = "\<lparr>up_key_id = bt_key_id b, up_checkins = List.map ?c cs, up_rejects = List.map ?r rs, up_acs_items = List.map ?a as\<rparr>"
  have "list_field (batch_payload b) ''checkins'' (checkin_event now) = Accepted (List.map ?c cs)"
    unfolding ms by (rule pc) (use n in \<open>simp_all add: map_of_append_None list_member_keys\<close>)
  moreover have "list_field ((?h @ ?jc) @ ?jr @ ?ja) ''rejects'' (reject_event now) = Accepted (List.map ?r rs)"
    by (rule pr) (use n in \<open>simp_all add: map_add_def list_member_keys\<close>)
  moreover have "list_field ((?h @ ?jc @ ?jr) @ ?ja @ []) ''acs_items'' (acs_item_event now) = Accepted (List.map ?a as)"
    by (rule pa) (use n in \<open>simp_all add: map_add_def list_member_keys\<close>)
  moreover have "field (batch_payload b) ''contract_version'' (int_field 2 2) = Accepted 2"
    "field (batch_payload b) ''key_id'' (str_field is_uuid4) = Accepted (bt_key_id b)"
    using assms(2) by (simp_all add: ms field_def accept_if_def)
  moreover have "set (List.map fst (batch_payload b)) \<subseteq> set [''contract_version'', ''key_id'', ''checkins'', ''rejects'', ''acs_items'']"
    by (auto simp: ms list_member_def split: if_splits)
  moreover have "total_is_bounded ?req" using n by (simp add: total_is_bounded_def max_events_total_def)
  ultimately have "parse_upload now (JObj (batch_payload b)) = Accepted ?req"
    by (simp add: ms no_extra_def accept_if_def)
  moreover have "request_events ?req = List.map on_server (batch_events b)" by (simp add: request_events_def ev on_server_def)
  ultimately show ?thesis by (intro exI [of _ ?req]) simp
qed

lemma timestamp_accepted: "in_calendar t \<Longrightarrow> parse_offset_timestamp now (JStr (format_time t)) = Accepted t' \<Longrightarrow> in_range now t"
  by (simp add: from_iso_format_time in_range_def Let_def split: if_splits)

lemma event_time_accepted:
  "checkin_event now (JObj (checkin_payload c)) = Accepted c' \<Longrightarrow> in_calendar (ck_event_time c) \<Longrightarrow> in_range now (ck_event_time c)"
  "reject_event now (JObj (reject_payload r)) = Accepted r' \<Longrightarrow> in_calendar (rj_event_time r) \<Longrightarrow> in_range now (rj_event_time r)"
  "acs_item_event now (JObj (acs_item_payload a)) = Accepted a' \<Longrightarrow> in_calendar (ai_event_time a) \<Longrightarrow> in_range now (ai_event_time a)"
proof -
  show "checkin_event now (JObj (checkin_payload c)) = Accepted c' \<Longrightarrow> in_calendar (ck_event_time c) \<Longrightarrow> in_range now (ck_event_time c)"
    by (simp add: checkin_payload_def field_Accepted del: parse_offset_timestamp.simps) (blast intro: timestamp_accepted)
  show "reject_event now (JObj (reject_payload r)) = Accepted r' \<Longrightarrow> in_calendar (rj_event_time r) \<Longrightarrow> in_range now (rj_event_time r)"
    by (simp add: reject_payload_def field_Accepted del: parse_offset_timestamp.simps) (blast intro: timestamp_accepted)
  show "acs_item_event now (JObj (acs_item_payload a)) = Accepted a' \<Longrightarrow> in_calendar (ai_event_time a) \<Longrightarrow> in_range now (ai_event_time a)"
    by (simp add: acs_item_payload_def acs_hold_event_def acs_non_hold_event_def field_Accepted del: parse_offset_timestamp.simps
      split: if_splits) (blast intro: timestamp_accepted)+
qed

lemma list_field_accepted:
  assumes "list_field (before @ list_member kind js @ rest) kind check = Accepted xs" "map_of before kind = None" "map_of rest kind = None"
  shows "length xs = length js \<and> list_all2 (\<lambda>j x. check j = Accepted x) js xs"
proof (cases "js = []")
  case True
  with map_of_append_None [OF assms(2,3)] assms(1) show ?thesis by (simp add: list_field_def list_member_def del: map_of_append)
next
  case False
  with assms have "parse_list max_events_per_list check (JArr js) = Accepted xs"
    by (simp add: list_field_def list_member_def map_add_def del: parse_list.simps)
  then have "parse_all check js = Accepted xs" by (simp split: if_splits parsed.splits)
  from parse_all_Accepted [OF this] show ?thesis by (simp add: list_all2_lengthD [symmetric])
qed

text \<open>The converse: a request for a batch that is accepted had its events in the window, and holds exactly them.\<close>

lemma accepted_batch:
  assumes "batch_wf b" "\<forall>e \<in> set (batch_events b). event_ok e \<and> in_calendar (event_time_of e)"
    "parse_upload now (JObj (batch_payload b)) = Accepted r"
  shows "up_key_id r = bt_key_id b \<and> request_events r = List.map on_server (batch_events b)"
proof -
  obtain cs rs as where l: "items b ''checkins'' = List.map Checkin cs" "items b ''rejects'' = List.map Reject rs"
      "items b ''acs_items'' = List.map AcsItem as"
    using items_of_kind [OF assms(1)] by blast
  have ev: "batch_events b = List.map Checkin cs @ List.map Reject rs @ List.map AcsItem as"
    by (simp add: batch_events_def kinds_def l)
  let ?jc = "list_member ''checkins'' (List.map (\<lambda>c. JObj (checkin_payload c)) cs)"
  let ?jr = "list_member ''rejects'' (List.map (\<lambda>c. JObj (reject_payload c)) rs)"
  let ?ja = "list_member ''acs_items'' (List.map (\<lambda>c. JObj (acs_item_payload c)) as)"
  let ?h = "[(''contract_version'', JInt 2), (''key_id'', JStr (bt_key_id b))]"
  have ms: "batch_payload b = ?h @ ?jc @ ?jr @ ?ja" unfolding batch_payload_members l list.map_comp comp_def event_payload.simps ..
  from assms(3) obtain cs' rs' as' where p: "list_field (?h @ ?jc @ ?jr @ ?ja) ''checkins'' (checkin_event now) = Accepted cs'"
    "list_field (?h @ ?jc @ ?jr @ ?ja) ''rejects'' (reject_event now) = Accepted rs'"
    "list_field (?h @ ?jc @ ?jr @ ?ja) ''acs_items'' (acs_item_event now) = Accepted as'"
    "length cs' + length rs' + length as' \<le> 1000" "is_uuid4 (bt_key_id b)"
    by (auto simp: ms field_Accepted total_is_bounded_def max_events_total_def)
  have c: "length cs' = length cs" "list_all2 (\<lambda>j x. checkin_event now j = Accepted x) (List.map (\<lambda>c. JObj (checkin_payload c)) cs) cs'"
    using list_field_accepted [OF p(1)] by (simp_all add: map_of_append_None list_member_keys)
  have "list_field ((?h @ ?jc) @ ?jr @ ?ja) ''rejects'' (reject_event now) = Accepted rs'" using p(2) by simp
  then have rj: "length rs' = length rs" "list_all2 (\<lambda>j x. reject_event now j = Accepted x) (List.map (\<lambda>c. JObj (reject_payload c)) rs) rs'"
    using list_field_accepted [OF \<open>list_field ((?h @ ?jc) @ ?jr @ ?ja) _ _ = _\<close>]
    by (simp_all add: map_add_def list_member_keys)
  have "list_field ((?h @ ?jc @ ?jr) @ ?ja @ []) ''acs_items'' (acs_item_event now) = Accepted as'" using p(3) by simp
  then have ac: "length as' = length as" "list_all2 (\<lambda>j x. acs_item_event now j = Accepted x) (List.map (\<lambda>c. JObj (acs_item_payload c)) as) as'"
    using list_field_accepted [OF \<open>list_field ((?h @ ?jc @ ?jr) @ ?ja @ []) _ _ = _\<close>]
    by (simp_all add: map_add_def list_member_keys)
  have "sendable now e" if "e \<in> set (batch_events b)" for e
  proof -
    have in_two: "\<exists>y. P (f x) y" if "x \<in> set xs" "list_all2 P (List.map f xs) ys" for P x and f :: "'x \<Rightarrow> 'y" and xs and ys :: "'z list"
      using that by (auto simp: list_all2_map1 list_all2_conv_all_nth in_set_conv_nth)
    have ok: "event_ok e" "in_calendar (event_time_of e)" using assms(2) that by auto
    have "in_range now (event_time_of e)"
    proof (cases e)
      case (Checkin x)
      with that have "x \<in> set cs" by (auto simp: ev)
      from in_two [OF this c(2)] ok(2) show ?thesis using event_time_accepted(1) by (auto simp: Checkin)
    next
      case (Reject x)
      with that have "x \<in> set rs" by (auto simp: ev)
      from in_two [OF this rj(2)] ok(2) show ?thesis using event_time_accepted(2) by (auto simp: Reject)
    next
      case (AcsItem x)
      with that have "x \<in> set as" by (auto simp: ev)
      from in_two [OF this ac(2)] ok(2) show ?thesis using event_time_accepted(3) by (auto simp: AcsItem)
    qed
    with ok show ?thesis by (simp add: sendable_def)
  qed
  moreover have "length (batch_events b) \<le> 1000" using p(4) c(1) rj(1) ac(1) by (simp add: ev)
  ultimately have "\<exists>r. parse_upload now (JObj (batch_payload b)) = Accepted r \<and> up_key_id r = bt_key_id b
      \<and> request_events r = List.map on_server (batch_events b)"
    using sent_batch_parsed [OF assms(1) p(5)] by blast
  with assms(3) show ?thesis by auto
qed

section \<open>The properties of the contract\<close>

text \<open>C35. Everything the collector sends is accepted: a request for any batch of up to 1000 safe events whose times lie in the window is
  accepted by the server, with the same key and the same events in the same lists, each at its whole second.\<close>

theorem sent_batch_accepted:
  assumes "batch_wf b" "is_uuid4 (bt_key_id b)" "\<forall>e \<in> set (batch_events b). sendable now e" "length (batch_events b) \<le> 1000"
  shows "\<exists>r. parse_upload now (JObj (batch_payload b)) = Accepted r \<and> up_key_id r = bt_key_id b
    \<and> request_events r = List.map on_server (batch_events b)"
  using assms by (rule sent_batch_parsed)

definition sample_key_id :: string where
  "sample_key_id = ''0a1b2c3d-4e5f-4a6b-8c7d-0123456789ab''"

lemma sample_key_ok: "is_uuid4 sample_key_id"
  by code_simp

lemma sample_sendable: "sendable 1714557601000000 (sample_event CHR ''a'')" "sendable 1714557601000000 (sample_event CHR ''b'')"
  by (simp_all add: sendable_def sample_event_def checkin_ok_def is_hmac_hex_def list_all_iff is_hex_char_def in_calendar_def day_of_def
    in_range_def whole_def models_earliest_def future_tolerance_def)

theorem sent_batch_accepted_witness:
  "\<exists>r. parse_upload 1714557601000000 (JObj (batch_payload (batch_of sample_key_id [sample_event CHR ''a'', sample_event CHR ''b'']))) = Accepted r
     \<and> up_key_id r = sample_key_id"
proof -
  let ?b = "batch_of sample_key_id [sample_event CHR ''a'', sample_event CHR ''b'']"
  have e: "batch_events ?b = [sample_event CHR ''a'', sample_event CHR ''b'']"
    by (simp add: batch_events_def kinds_def items_def batch_of_def sample_event_def)
  have "is_uuid4 (bt_key_id ?b)" using sample_key_ok by (simp add: batch_of_def)
  moreover have "bt_key_id ?b = sample_key_id" by (simp add: batch_of_def)
  ultimately show ?thesis
    using sent_batch_accepted [OF batch_of_wf, of sample_key_id "[sample_event CHR ''a'', sample_event CHR ''b'']" 1714557601000000]
      sample_sendable e by auto
qed

definition time_in_range :: "instant \<Rightarrow> instant option \<Rightarrow> bool" where
  "time_in_range now t \<longleftrightarrow> (case t of None \<Rightarrow> True | Some t \<Rightarrow> in_calendar t \<and> in_range now t)"

lemma opt_member_parsed:
  assumes "map_of before name = None" "map_of rest name = None" "\<And>x. v = Some x \<Longrightarrow> spell x \<noteq> JNull \<and> check (spell x) = Accepted (g x)"
  shows "opt_field (before @ optional_member name spell v @ rest) name check = Accepted (map_option g v)"
proof (cases v)
  case None
  with map_of_append_None [OF assms(1,2)] show ?thesis by (simp add: opt_field_def optional_member_def del: map_of_append)
next
  case (Some x)
  with assms show ?thesis by (simp add: opt_field_def optional_member_def map_add_def)
qed

lemma optional_member_keys: "k \<noteq> name \<Longrightarrow> map_of (optional_member name spell v) k = None"
  by (simp add: optional_member_def split: option.splits)

lemma opt_time_parsed:
  assumes "time_in_range now v" "map_of before name = None" "map_of rest name = None"
  shows "opt_field (before @ optional_member name spell_time v @ rest) name (parse_offset_timestamp now) = Accepted (map_option whole v)"
  by (rule opt_member_parsed [OF assms(2,3)])
    (use assms(1) timestamp_of_format in \<open>simp add: spell_time_def time_in_range_def del: parse_offset_timestamp.simps\<close>)

text \<open>Every heartbeat is accepted and understood: a snapshot whose four times lie in the server's window gives a request that is
  accepted, with the same status, class, counts, duration and schedule code, each time at its whole second, and no outbox.\<close>

lemma heartbeat_accepted:
  assumes "snapshot_ok s" "is_uuid4 key_id" "time_in_range now (ss_last_success_at s)" "time_in_range now (ss_watcher_last_active_at s)"
    "time_in_range now (ss_collector_last_run_at s)" "time_in_range now (ss_collector_next_run_at s)"
  shows "parse_status now (JObj (snapshot_payload s key_id)) = Accepted
    \<lparr>sq_key_id = key_id, sq_status = ss_status s, sq_last_error_class = ss_last_error_class s, sq_pending_outbox_count = Some 0,
     sq_quarantined_count = Some (ss_quarantined_count s), sq_oldest_pending_event_at = None,
     sq_last_success_at = map_option whole (ss_last_success_at s),
     sq_watcher_last_active_at = map_option whole (ss_watcher_last_active_at s),
     sq_collector_last_run_at = map_option whole (ss_collector_last_run_at s),
     sq_collector_next_run_at = map_option whole (ss_collector_next_run_at s),
     sq_collector_run_duration_ms = ss_collector_run_duration_ms s,
     sq_collector_schedule_status = ss_collector_schedule_status s\<rparr>"
proof -
  note ok = assms(1) [unfolded snapshot_ok_def]
  let ?h = "[(''contract_version'', JInt 2), (''key_id'', JStr key_id), (''status'', JStr (ss_status s)),
      (''pending_outbox_count'', JInt (ss_pending_outbox_count s)), (''quarantined_count'', JInt (ss_quarantined_count s))]"
  let ?a = "optional_member ''last_error_class'' JStr (ss_last_error_class s)"
  let ?b = "optional_member ''last_success_at'' spell_time (ss_last_success_at s)"
  let ?c = "optional_member ''watcher_last_active_at'' spell_time (ss_watcher_last_active_at s)"
  let ?d = "optional_member ''collector_last_run_at'' spell_time (ss_collector_last_run_at s)"
  let ?e = "optional_member ''collector_next_run_at'' spell_time (ss_collector_next_run_at s)"
  let ?f = "optional_member ''collector_run_duration_ms'' JInt (ss_collector_run_duration_ms s)"
  let ?g = "optional_member ''collector_schedule_status'' JStr (ss_collector_schedule_status s)"
  let ?ms = "snapshot_payload s key_id"
  have ms: "?ms = ?h @ ?a @ ?b @ ?c @ ?d @ ?e @ ?f @ ?g" by (simp only: snapshot_payload_def)
  note keys = map_of_append_None optional_member_keys
  have "opt_field (?h @ ?a @ ?b @ ?c @ ?d @ ?e @ ?f @ ?g) ''last_error_class'' (str_field (\<lambda>s. s \<in> set last_error_classes))
      = Accepted (map_option (\<lambda>x. x) (ss_last_error_class s))"
    by (rule opt_member_parsed) (use ok in \<open>auto simp: keys accept_if_def simp del: map_of_append\<close>)
  moreover have "opt_field ((?h @ ?a) @ ?b @ ?c @ ?d @ ?e @ ?f @ ?g) ''last_success_at'' (parse_offset_timestamp now)
      = Accepted (map_option whole (ss_last_success_at s))"
    by (rule opt_time_parsed [OF assms(3)]) (simp_all add: keys del: map_of_append)
  moreover have "opt_field ((?h @ ?a @ ?b) @ ?c @ ?d @ ?e @ ?f @ ?g) ''watcher_last_active_at'' (parse_offset_timestamp now)
      = Accepted (map_option whole (ss_watcher_last_active_at s))"
    by (rule opt_time_parsed [OF assms(4)]) (simp_all add: keys del: map_of_append)
  moreover have "opt_field ((?h @ ?a @ ?b @ ?c) @ ?d @ ?e @ ?f @ ?g) ''collector_last_run_at'' (parse_offset_timestamp now)
      = Accepted (map_option whole (ss_collector_last_run_at s))"
    by (rule opt_time_parsed [OF assms(5)]) (simp_all add: keys del: map_of_append)
  moreover have "opt_field ((?h @ ?a @ ?b @ ?c @ ?d) @ ?e @ ?f @ ?g) ''collector_next_run_at'' (parse_offset_timestamp now)
      = Accepted (map_option whole (ss_collector_next_run_at s))"
    by (rule opt_time_parsed [OF assms(6)]) (simp_all add: keys del: map_of_append)
  moreover have "opt_field ((?h @ ?a @ ?b @ ?c @ ?d @ ?e) @ ?f @ ?g) ''collector_run_duration_ms'' (int_field 0 max_run_duration_ms)
      = Accepted (map_option (\<lambda>x. x) (ss_collector_run_duration_ms s))"
    by (rule opt_member_parsed) (use ok in \<open>auto simp: keys accept_if_def simp del: map_of_append\<close>)
  moreover have "opt_field ((?h @ ?a @ ?b @ ?c @ ?d @ ?e @ ?f) @ ?g @ []) ''collector_schedule_status'' (str_field (\<lambda>s. s \<in> set schedule_statuses))
      = Accepted (map_option (\<lambda>x. x) (ss_collector_schedule_status s))"
    by (rule opt_member_parsed) (use ok in \<open>auto simp: keys accept_if_def simp del: map_of_append\<close>)
  moreover have "field ?ms ''contract_version'' (int_field 2 2) = Accepted 2" "field ?ms ''key_id'' (str_field is_uuid4) = Accepted key_id"
    "field ?ms ''status'' (str_field (\<lambda>s. s \<in> set health_statuses)) = Accepted (ss_status s)"
    "opt_field ?ms ''pending_outbox_count'' (int_field 0 max_counter) = Accepted (Some 0)"
    "opt_field ?ms ''quarantined_count'' (int_field 0 max_counter) = Accepted (Some (ss_quarantined_count s))"
    using ok assms(2) by (simp_all add: ms field_def opt_field_def accept_if_def max_counter_def)
  moreover have "opt_field ?ms ''oldest_pending_event_at'' (parse_offset_timestamp now) = Accepted None"
    by (simp add: ms opt_field_def keys map_add_def)
  moreover have "set (List.map fst ?ms) \<subseteq> set status_fields"
    by (auto simp: ms optional_member_def status_fields_def split: option.splits)
  ultimately show ?thesis by (simp add: ms no_extra_def option.map_ident del: int_field.simps str_field.simps)
qed

definition sample_snapshot :: status_snapshot where
  "sample_snapshot = \<lparr>ss_status = ''degraded'', ss_last_error_class = Some ''source_unavailable'', ss_quarantined_count = 3,
     ss_last_success_at = None, ss_watcher_last_active_at = Some 1714557600500000, ss_pending_outbox_count = 0,
     ss_collector_last_run_at = Some 1714557600000000, ss_collector_next_run_at = Some 1714558500000000,
     ss_collector_run_duration_ms = Some 1500, ss_collector_schedule_status = Some ''healthy''\<rparr>"

lemma heartbeat_accepted_witness:
  "\<exists>q. parse_status 1714557601000000 (JObj (snapshot_payload sample_snapshot sample_key_id)) = Accepted q
     \<and> sq_watcher_last_active_at q = Some 1714557600000000"
proof -
  have "snapshot_ok sample_snapshot"
    by (simp add: snapshot_ok_def sample_snapshot_def health_statuses_def last_error_classes_def schedule_statuses_def max_counter_def
      max_run_duration_ms_def)
  note h = heartbeat_accepted [OF this sample_key_ok, of 1714557601000000]
  show ?thesis
    by (rule exI, rule conjI, rule h)
      (simp_all add: sample_snapshot_def time_in_range_def in_calendar_def day_of_def in_range_def whole_def models_earliest_def
        future_tolerance_def)
qed

text \<open>The time window of the contract: an accepted timestamp is an instant from the year 2000 to a day ahead of the server's clock, a
  text that is no ISO time with an offset is refused, and an ISO time whose instant falls off the calendar is not refused but raises,
  whatever the rest of the request.\<close>

lemma timestamp_outcomes:
  "(case parse_offset_timestamp now (JStr s) of
      Accepted t \<Rightarrow> (\<exists>local z. from_iso s = Some (local, z) \<and> t = local - z * 60000000) \<and> models_earliest \<le> t \<and> t \<le> now + future_tolerance
    | Raised \<Rightarrow> (\<exists>local z. from_iso s = Some (local, z) \<and> \<not> in_calendar (local - z * 60000000))
    | Refused \<Rightarrow> from_iso s = None \<or> (\<exists>local z. from_iso s = Some (local, z) \<and> \<not> (models_earliest \<le> local - z * 60000000
        \<and> local - z * 60000000 \<le> now + future_tolerance)))
   \<and> parse_offset_timestamp now (JStr ''0001-01-01T00:00:00+05:00'') = Raised"
proof
  show "case parse_offset_timestamp now (JStr s) of
      Accepted t \<Rightarrow> (\<exists>local z. from_iso s = Some (local, z) \<and> t = local - z * 60000000) \<and> models_earliest \<le> t \<and> t \<le> now + future_tolerance
    | Raised \<Rightarrow> (\<exists>local z. from_iso s = Some (local, z) \<and> \<not> in_calendar (local - z * 60000000))
    | Refused \<Rightarrow> from_iso s = None \<or> (\<exists>local z. from_iso s = Some (local, z) \<and> \<not> (models_earliest \<le> local - z * 60000000
        \<and> local - z * 60000000 \<le> now + future_tolerance))"
    by (auto simp: Let_def accept_if_def split: option.splits)
  have "iso_tail ''+05:00'' = Some (0, 300)" by code_simp
  moreover have "read_digits ''0001'' = 1" "read_digits ''01'' = 1" "read_digits ''00'' = 0" by code_simp+
  ultimately have "from_iso ''0001-01-01T00:00:00+05:00'' = Some (instant_of (1, 1, 1) 0 0 0, 300)"
    by (simp add: from_iso_def valid_ymd_def days_in_month_def month_lengths_def)
  then show "parse_offset_timestamp now (JStr ''0001-01-01T00:00:00+05:00'') = Raised"
    by (simp add: instant_of_def in_calendar_def day_of_def ymd2ord_def days_before_year_def days_before_month_def)
qed

end
