(* ===== verification/IngestDb.thy ===== *)
theory IngestDb
  imports IngestModels
begin

text \<open>
  The rows of the server's database that ingestion reads and writes (src/services/ingest_v2_service.py and
  src/main.py), the registry of ingest keys and the cutover record. A table is the list of its rows in the
  order of their ids; a statement is a function on the database, and a transaction that raises leaves the
  database as it was. Clock readings, random ids and \<open>set_at\<close> stamps are arguments. Row locks and row
  level security are not modelled: one transaction runs at a time. The lemmas show which tenants can be
  given a key or a cutover, that keys are only ever retired, and that the cutover record only grows.
\<close>

section \<open>Tables\<close>

record organization =
  og_id :: int
  og_operational_customer_id :: "int option"
  og_status :: string
  og_slug :: string
  og_created_at :: "pydatetime option" \<comment> \<open>\<open>None\<close>: not a datetime\<close>

record branch =
  br_id :: int
  br_organization_id :: int
  br_operational_branch_id :: "int option"
  br_status :: string
  br_onboarding_status :: string
  br_onboarding_message :: "string option"
  br_onboarding_updated_at :: "instant option"
  br_is_primary :: bool
  br_slug :: string

record installation =
  in_id :: int
  in_organization_id :: int
  in_branch_id :: int
  in_status :: string
  in_installed_at :: "instant option"
  in_last_seen_at :: "instant option"
  in_collector_version :: "string option"
  in_updated_at :: "instant option"
  in_name :: string
  in_required_contract :: int

record agent_token =
  at_id :: int
  at_token_hash :: string
  at_customer_id :: int
  at_branch_id :: int
  at_is_active :: bool
  at_installation_id :: "int option"
  at_last_used_at :: "instant option"
  at_description :: string

record heartbeat_row =
  hb_last_heartbeat_at :: instant
  hb_health_status :: string
  hb_last_error_class :: "string option"
  hb_pending_outbox_count :: "int option"
  hb_quarantined_count :: "int option"
  hb_oldest_pending_event_at :: "instant option"
  hb_last_success_at :: "instant option"
  hb_watcher_last_active_at :: "instant option"
  hb_collector_last_run_at :: "instant option"
  hb_collector_next_run_at :: "instant option"
  hb_collector_run_duration_ms :: "int option"
  hb_collector_schedule_status :: "string option"

record ingest_key =
  ik_key_id :: string
  ik_customer_id :: int
  ik_branch_id :: int
  ik_algorithm :: string
  ik_status :: string
  ik_retired_at :: "instant option"
  ik_installation_id :: "int option"
  ik_heartbeat :: "heartbeat_row option"

record cutover_row =
  cv_customer_id :: int
  cv_branch_id :: int
  cv_cutover_at :: "instant option"
  cv_set_by :: string
  cv_note :: "string option"
  cv_set_at :: instant

text \<open>An event row: the tenant columns and the columns of its kind, a cell being text, an instant, a flag or NULL.\<close>

datatype cell = TextCell string | TimeCell instant | FlagCell bool | NullCell

type_synonym row = "(string \<times> cell) list"

record event_row =
  er_table :: string
  er_customer_id :: int
  er_branch_id :: int
  er_key_id :: string
  er_columns :: row

record db =
  db_organizations :: "organization list"
  db_branches :: "branch list"
  db_installations :: "installation list"
  db_tokens :: "agent_token list"
  db_keys :: "ingest_key list"
  db_cutovers :: "cutover_row list"
  db_events :: "event_row list"

text \<open>\<open>UPDATE\<close>: the rows a condition picks, changed; with the number of rows it picked.\<close>

definition update_where :: "('a \<Rightarrow> bool) \<Rightarrow> ('a \<Rightarrow> 'a) \<Rightarrow> 'a list \<Rightarrow> nat \<times> 'a list" where
  "update_where P f rows = (length (filter P rows), List.map (\<lambda>r. if P r then f r else r) rows)"

section \<open>Which tenants can be provisioned\<close>

definition mapped_status :: "db \<Rightarrow> int \<Rightarrow> int \<Rightarrow> string option" where
  "mapped_status db customer branch =
     map_option og_status (find (\<lambda>g. og_operational_customer_id g = Some customer
       \<and> list_ex (\<lambda>b. br_organization_id b = og_id g \<and> br_operational_branch_id b = Some branch) (db_branches db)) (db_organizations db))"

definition require_provisionable_tenant :: "db \<Rightarrow> int \<Rightarrow> int \<Rightarrow> string + unit" where
  "require_provisionable_tenant db customer branch =
     (case mapped_status db customer branch of
        None \<Rightarrow> Inl ''not a mapped operational tenant''
      | Some status \<Rightarrow> if status = ''cancelled'' then Inl ''the organization is cancelled'' else Inr ())"

section \<open>The key registry\<close>

definition algorithm :: string where
  "algorithm = ''hmac-sha256-v1''"

definition enrollment_cutover_set_by :: string where
  "enrollment_cutover_set_by = ''collector-enrollment''"

definition of_tenant :: "int \<Rightarrow> int \<Rightarrow> ingest_key \<Rightarrow> bool" where
  "of_tenant customer branch k \<longleftrightarrow> ik_customer_id k = customer \<and> ik_branch_id k = branch"

definition ingest_key_problem :: "db \<Rightarrow> int \<Rightarrow> int \<Rightarrow> string \<Rightarrow> int option \<Rightarrow> string option" where
  "ingest_key_problem db customer branch key_id token_installation =
     (case find (\<lambda>k. ik_key_id k = key_id) (db_keys db) of
        None \<Rightarrow> Some ''unknown key''
      | Some k \<Rightarrow>
          if \<not> of_tenant customer branch k then Some ''key belongs to another tenant''
          else if ik_status k \<noteq> ''active'' then Some (''key status '' @ ik_status k)
          else (case ik_installation_id k of
                  None \<Rightarrow> None
                | Some owner \<Rightarrow> if token_installation = Some owner then None else Some ''key is owned by another installation''))"

definition refuse_an_unowned_key :: "db \<Rightarrow> int \<Rightarrow> int \<Rightarrow> string + unit" where
  "refuse_an_unowned_key db customer branch =
     (let keys = filter (of_tenant customer branch) (db_keys db);
          active = List.map ik_installation_id (filter (\<lambda>k. ik_status k = ''active'') keys) in
      if list_ex (\<lambda>owner. owner \<noteq> None) active then Inl ''the branch has an active key owned by an installation''
      else if active \<noteq> [] then Inl ''the branch already has an active key''
      else if list_ex (\<lambda>k. ik_installation_id k \<noteq> None) keys then Inl ''the branch has a retired key owned by an installation''
      else if list_ex (\<lambda>v. cv_customer_id v = customer \<and> cv_branch_id v = branch \<and> cv_set_by v = enrollment_cutover_set_by)
                (db_cutovers db)
      then Inl ''the branch was enrolled through Contract v2''
      else Inr ())"

definition issue_ingest_key :: "string \<Rightarrow> db \<Rightarrow> int \<Rightarrow> int \<Rightarrow> int option \<Rightarrow> string + string \<times> db" where
  "issue_ingest_key new_id db customer branch installation =
     bind_result (require_provisionable_tenant db customer branch) (\<lambda>_.
     bind_result (if installation = None then refuse_an_unowned_key db customer branch else Inr ()) (\<lambda>_.
       Inr (new_id, db\<lparr>db_keys := db_keys db @ [\<lparr>ik_key_id = new_id, ik_customer_id = customer, ik_branch_id = branch,
          ik_algorithm = algorithm, ik_status = ''active'', ik_retired_at = None, ik_installation_id = installation,
          ik_heartbeat = None\<rparr>]\<rparr>)))"

definition active_ingest_key_owners :: "db \<Rightarrow> int \<Rightarrow> int \<Rightarrow> int option list" where
  "active_ingest_key_owners db customer branch =
     List.map ik_installation_id (filter (\<lambda>k. of_tenant customer branch k \<and> ik_status k = ''active'') (db_keys db))"

definition has_active_ingest_key :: "db \<Rightarrow> int \<Rightarrow> int \<Rightarrow> bool" where
  "has_active_ingest_key db customer branch =
     list_ex (\<lambda>k. of_tenant customer branch k \<and> ik_status k = ''active'') (db_keys db)"

definition retire_ingest_key :: "instant \<Rightarrow> db \<Rightarrow> string \<Rightarrow> string + bool \<times> db" where
  "retire_ingest_key now db key_id =
     (let (n, keys) = update_where (\<lambda>k. ik_key_id k = key_id \<and> ik_status k = ''active'' \<and> ik_installation_id k = None)
                        (\<lambda>k. k\<lparr>ik_status := ''retired'', ik_retired_at := Some now\<rparr>) (db_keys db) in
      if n = 1 then Inr (True, db\<lparr>db_keys := keys\<rparr>)
      else if list_ex (\<lambda>k. ik_key_id k = key_id \<and> ik_status k = ''active'' \<and> ik_installation_id k \<noteq> None) (db_keys db)
      then Inl ''the key is owned by an installation''
      else Inr (False, db\<lparr>db_keys := keys\<rparr>))"

text \<open>\<open>ORDER BY last_heartbeat_at DESC NULLS LAST LIMIT 1\<close>.\<close>

fun latest_of :: "ingest_key list \<Rightarrow> ingest_key option" where
  "latest_of [] = None"
| "latest_of (k # ks) =
     (case latest_of ks of None \<Rightarrow> Some k
      | Some k' \<Rightarrow> (case (ik_heartbeat k, ik_heartbeat k') of
            (Some h, Some h') \<Rightarrow> if hb_last_heartbeat_at h \<ge> hb_last_heartbeat_at h' then Some k else Some k'
          | (None, Some _) \<Rightarrow> Some k'
          | _ \<Rightarrow> Some k))"

definition latest_ingest_status :: "db \<Rightarrow> int \<Rightarrow> int \<Rightarrow> ingest_key option" where
  "latest_ingest_status db customer branch =
     latest_of (filter (\<lambda>k. of_tenant customer branch k \<and> ik_status k = ''active'') (db_keys db))"

section \<open>The cutover record\<close>

definition of_branch :: "int \<Rightarrow> int \<Rightarrow> cutover_row \<Rightarrow> bool" where
  "of_branch customer branch v \<longleftrightarrow> cv_customer_id v = customer \<and> cv_branch_id v = branch"

definition record_v2_cutover ::
    "instant \<Rightarrow> db \<Rightarrow> int \<Rightarrow> int \<Rightarrow> instant option \<Rightarrow> string option \<Rightarrow> string option \<Rightarrow> string + db" where
  "record_v2_cutover now db customer branch cutover_at set_by note =
     bind_result (require_provisionable_tenant db customer branch) (\<lambda>_.
       let by = py_strip (case set_by of None \<Rightarrow> [] | Some s \<Rightarrow> s) in
       if by = [] then Inl ''set_by is required and cannot be blank''
       else Inr (db\<lparr>db_cutovers := db_cutovers db @ [\<lparr>cv_customer_id = customer, cv_branch_id = branch, cv_cutover_at = cutover_at,
              cv_set_by = by, cv_note = note, cv_set_at = now\<rparr>]\<rparr>))"

definition has_any_v2_cutover :: "db \<Rightarrow> int \<Rightarrow> int \<Rightarrow> bool" where
  "has_any_v2_cutover db customer branch = list_ex (of_branch customer branch) (db_cutovers db)"

definition record_initial_v2_cutover ::
    "instant \<Rightarrow> db \<Rightarrow> int \<Rightarrow> int \<Rightarrow> pydatetime \<Rightarrow> string option \<Rightarrow> string option \<Rightarrow> string + db" where
  "record_initial_v2_cutover now db customer branch cutover_at set_by note =
     (case cutover_at of
        Naive _ \<Rightarrow> Inl ''cutover_at must be an offset-aware datetime''
      | Aware t _ \<Rightarrow>
          if has_any_v2_cutover db customer branch then Inl ''the tenant already has a v2 cutover record''
          else record_v2_cutover now db customer branch (Some t) set_by note)"

text \<open>\<open>ORDER BY set_at DESC LIMIT 1\<close>.\<close>

fun latest_row :: "cutover_row list \<Rightarrow> cutover_row option" where
  "latest_row [] = None"
| "latest_row (v # vs) =
     (case latest_row vs of None \<Rightarrow> Some v | Some v' \<Rightarrow> if cv_set_at v > cv_set_at v' then Some v else Some v')"

definition get_effective_v2_cutover :: "db \<Rightarrow> int \<Rightarrow> int \<Rightarrow> instant option" where
  "get_effective_v2_cutover db customer branch =
     (case latest_row (filter (of_branch customer branch) (db_cutovers db)) of None \<Rightarrow> None | Some v \<Rightarrow> cv_cutover_at v)"

section \<open>Lemmas\<close>

definition keys_wf :: "db \<Rightarrow> bool" where
  "keys_wf db \<longleftrightarrow> distinct (List.map ik_key_id (db_keys db))"

lemma update_where_length [simp]: "length (snd (update_where P f rows)) = length rows"
  by (simp add: update_where_def)

lemma find_distinct_key: "distinct (List.map ik_key_id ks) \<Longrightarrow> k \<in> set ks \<Longrightarrow> find (\<lambda>x. ik_key_id x = ik_key_id k) ks = Some k"
  by (induction ks) auto

lemma find_SomeD: "find P xs = Some x \<Longrightarrow> x \<in> set xs \<and> P x"
  by (induction xs) (auto split: if_splits)

lemma find_append: "find P (xs @ ys) = (case find P xs of None \<Rightarrow> find P ys | Some x \<Rightarrow> Some x)"
  by (induction xs) auto

lemma latest_row_append: "\<forall>v \<in> set vs. cv_set_at v \<le> cv_set_at w \<Longrightarrow> latest_row (vs @ [w]) = Some w"
  by (induction vs) auto

lemma provisionable_Inr [simp]: "require_provisionable_tenant db c b = Inr u \<longleftrightarrow>
    (\<exists>status. mapped_status db c b = Some status \<and> status \<noteq> ''cancelled'')"
  by (simp add: require_provisionable_tenant_def split: option.splits)

lemma refuse_unowned_Inr: "refuse_an_unowned_key db c b = Inr u \<Longrightarrow> active_ingest_key_owners db c b = []
    \<and> list_all (\<lambda>k. ik_installation_id k = None) (filter (of_tenant c b) (db_keys db))"
  by (auto simp: refuse_an_unowned_key_def active_ingest_key_owners_def Let_def list_all_iff list_ex_iff filter_empty_conv
    split: if_splits)

section \<open>The properties of the registry\<close>

text \<open>An unowned key is only ever a branch's first key: issuing one succeeds only for a mapped tenant whose organization is not
  cancelled and which has no active key and never had an owned one; it then is the tenant's one active key, usable by any token of the
  tenant and by no other tenant's, and no other row changes.\<close>

lemma issue_unowned_key:
  assumes "issue_ingest_key new_id db c b None = Inr (key, db')" "\<forall>k \<in> set (db_keys db). ik_key_id k \<noteq> new_id"
  shows "key = new_id \<and> (\<exists>status. mapped_status db c b = Some status \<and> status \<noteq> ''cancelled'')
    \<and> active_ingest_key_owners db c b = [] \<and> active_ingest_key_owners db' c b = [None]
    \<and> ingest_key_problem db' c b key token = None
    \<and> (\<forall>c' b'. (c', b') \<noteq> (c, b) \<longrightarrow> ingest_key_problem db' c' b' key token \<noteq> None
         \<and> active_ingest_key_owners db' c' b' = active_ingest_key_owners db c' b')
    \<and> db_events db' = db_events db \<and> db_cutovers db' = db_cutovers db"
proof -
  let ?k = "\<lparr>ik_key_id = new_id, ik_customer_id = c, ik_branch_id = b, ik_algorithm = algorithm, ik_status = ''active'',
    ik_retired_at = None, ik_installation_id = None, ik_heartbeat = None\<rparr>"
  from assms(1) obtain u where r: "refuse_an_unowned_key db c b = Inr u"
      "\<exists>status. mapped_status db c b = Some status \<and> status \<noteq> ''cancelled''"
      "key = new_id" "db' = db\<lparr>db_keys := db_keys db @ [?k]\<rparr>"
    by (auto simp: issue_ingest_key_def)
  have f: "find (\<lambda>k. ik_key_id k = new_id) (db_keys db @ [?k]) = Some ?k"
    using assms(2) by (auto simp: find_append find_None_iff split: option.splits dest: find_SomeD)
  note a = refuse_unowned_Inr [OF r(1)]
  have t: "of_tenant c' b' ?k \<longleftrightarrow> (c', b') = (c, b)" for c' b' by (auto simp: of_tenant_def)
  have "active_ingest_key_owners db' c b = [None]"
    using a by (simp add: r(4) active_ingest_key_owners_def t)
  moreover have "ingest_key_problem db' c b key token = None" unfolding ingest_key_problem_def by (simp add: r(3,4) f t)
  moreover have "ingest_key_problem db' c' b' key token \<noteq> None \<and> active_ingest_key_owners db' c' b' = active_ingest_key_owners db c' b'"
    if "(c', b') \<noteq> (c, b)" for c' b'
    using that unfolding ingest_key_problem_def by (simp add: r(3,4) f t active_ingest_key_owners_def)
  ultimately show ?thesis using a r by simp
qed

definition sample_db :: db where
  "sample_db = \<lparr>db_organizations = [\<lparr>og_id = 1, og_operational_customer_id = Some 10, og_status = ''active'',
        og_slug = ''main'', og_created_at = None\<rparr>],
     db_branches = [\<lparr>br_id = 2, br_organization_id = 1, br_operational_branch_id = Some 20, br_status = ''active'',
        br_onboarding_status = ''pending'', br_onboarding_message = None, br_onboarding_updated_at = None, br_is_primary = True, br_slug = ''central''\<rparr>],
     db_installations = [], db_tokens = [], db_keys = [], db_cutovers = [], db_events = []\<rparr>"

lemma sample_issue: "\<exists>db'. issue_ingest_key sample_key_id sample_db 10 20 None = Inr (sample_key_id, db')"
  by (simp add: issue_ingest_key_def sample_db_def refuse_an_unowned_key_def require_provisionable_tenant_def mapped_status_def)

lemma issue_unowned_key_witness:
  "\<exists>db'. issue_ingest_key sample_key_id sample_db 10 20 None = Inr (sample_key_id, db') \<and> active_ingest_key_owners db' 10 20 = [None]"
proof -
  obtain db' where i: "issue_ingest_key sample_key_id sample_db 10 20 None = Inr (sample_key_id, db')" using sample_issue by blast
  have "\<forall>k \<in> set (db_keys sample_db). ik_key_id k \<noteq> sample_key_id" by (simp add: sample_db_def)
  from issue_unowned_key [OF i this] i show ?thesis by blast
qed

text \<open>A key that was retired never ingests again, no other key changes, and a key an installation owns is never retired this way.\<close>

lemma retire_key:
  assumes "keys_wf db" "retire_ingest_key now db key = Inr (True, db')"
  shows "ingest_key_problem db' c b key token \<noteq> None \<and> keys_wf db'
    \<and> (\<forall>other. other \<noteq> key \<longrightarrow> ingest_key_problem db' c b other token = ingest_key_problem db c b other token)
    \<and> \<not> list_ex (\<lambda>k. ik_key_id k = key \<and> ik_installation_id k \<noteq> None) (db_keys db)"
proof -
  let ?P = "\<lambda>k. ik_key_id k = key \<and> ik_status k = ''active'' \<and> ik_installation_id k = None"
  let ?f = "\<lambda>k. if ?P k then k\<lparr>ik_status := ''retired'', ik_retired_at := Some now\<rparr> else k"
  have r: "length (filter ?P (db_keys db)) = 1" "db' = db\<lparr>db_keys := List.map ?f (db_keys db)\<rparr>"
    using assms(2) by (auto simp: retire_ingest_key_def update_where_def split: if_splits)
  then have "filter ?P (db_keys db) \<noteq> []" by auto
  then obtain k where k: "k \<in> set (db_keys db)" "?P k" by (auto simp: filter_empty_conv)
  have ids: "ik_key_id (?f x) = ik_key_id x" for x by simp
  have fm: "find (\<lambda>x. ik_key_id x = other) (List.map ?f ks) = map_option ?f (find (\<lambda>x. ik_key_id x = other) ks)" for other ks
    by (induction ks) auto
  have fk: "find (\<lambda>x. ik_key_id x = key) (db_keys db) = Some k"
    using find_distinct_key [OF assms(1) [unfolded keys_wf_def] k(1)] k(2) by simp
  have "ingest_key_problem db' c b key token \<noteq> None"
    unfolding ingest_key_problem_def by (simp add: r(2) fm fk k(2))
  moreover have "keys_wf db'" using assms(1) by (simp add: keys_wf_def r(2) comp_def ids)
  moreover have "ingest_key_problem db' c b other token = ingest_key_problem db c b other token" if "other \<noteq> key" for other
  proof -
    have "map_option ?f (find (\<lambda>x. ik_key_id x = other) (db_keys db)) = find (\<lambda>x. ik_key_id x = other) (db_keys db)"
      using that by (cases "find (\<lambda>x. ik_key_id x = other) (db_keys db)") (auto dest!: find_SomeD)
    then show ?thesis unfolding ingest_key_problem_def by (simp add: r(2) fm)
  qed
  moreover have "x = k" if "x \<in> set (db_keys db)" "ik_key_id x = key" for x
    using find_distinct_key [OF assms(1) [unfolded keys_wf_def] that(1)] that(2) fk by simp
  then have "\<not> list_ex (\<lambda>x. ik_key_id x = key \<and> ik_installation_id x \<noteq> None) (db_keys db)" using k(2) by (auto simp: list_ex_iff)
  ultimately show ?thesis by blast
qed

lemma retire_key_witness:
  "\<exists>db'. retire_ingest_key 5 (snd (projr (issue_ingest_key sample_key_id sample_db 10 20 None))) sample_key_id = Inr (True, db')
     \<and> ingest_key_problem db' 10 20 sample_key_id None \<noteq> None"
proof -
  let ?db = "snd (projr (issue_ingest_key sample_key_id sample_db 10 20 None))"
  have k: "db_keys ?db = [\<lparr>ik_key_id = sample_key_id, ik_customer_id = 10, ik_branch_id = 20, ik_algorithm = algorithm,
      ik_status = ''active'', ik_retired_at = None, ik_installation_id = None, ik_heartbeat = None\<rparr>]"
    by (simp add: issue_ingest_key_def sample_db_def refuse_an_unowned_key_def require_provisionable_tenant_def mapped_status_def)
  then have "keys_wf ?db" by (simp add: keys_wf_def)
  moreover obtain db' where r: "retire_ingest_key 5 ?db sample_key_id = Inr (True, db')"
    by (simp add: retire_ingest_key_def k update_where_def)
  ultimately show ?thesis using retire_key by blast
qed

text \<open>The newest decision counts: after a cutover or a rollback is recorded for a branch, the effective boundary is the one just
  recorded (none for a rollback), every earlier row is kept, and no other branch's boundary changes.\<close>

lemma newest_cutover_counts:
  assumes "record_v2_cutover now db c b cutover set_by note = Inr db'" "\<forall>v \<in> set (db_cutovers db). cv_set_at v \<le> now"
  shows "get_effective_v2_cutover db' c b = cutover \<and> has_any_v2_cutover db' c b
    \<and> take (length (db_cutovers db)) (db_cutovers db') = db_cutovers db
    \<and> (\<forall>c' b'. (c', b') \<noteq> (c, b) \<longrightarrow> get_effective_v2_cutover db' c' b' = get_effective_v2_cutover db c' b')"
proof -
  from assms(1) obtain w where w: "db' = db\<lparr>db_cutovers := db_cutovers db @ [w]\<rparr>" "of_branch c b w" "cv_cutover_at w = cutover"
      "cv_set_at w = now" "cv_customer_id w = c" "cv_branch_id w = b"
    by (auto simp: record_v2_cutover_def Let_def of_branch_def split: if_splits)
  have "latest_row (filter (of_branch c b) (db_cutovers db) @ [w]) = Some w"
    by (rule latest_row_append) (use assms(2) w(4) in auto)
  then have "get_effective_v2_cutover db' c b = cutover" using w by (simp add: get_effective_v2_cutover_def)
  moreover have "get_effective_v2_cutover db' c' b' = get_effective_v2_cutover db c' b'" if "(c', b') \<noteq> (c, b)" for c' b'
  proof -
    have "\<not> of_branch c' b' w" using that w by (auto simp: of_branch_def)
    then show ?thesis by (simp add: get_effective_v2_cutover_def w(1))
  qed
  ultimately show ?thesis using w by (auto simp: has_any_v2_cutover_def)
qed

lemma newest_cutover_counts_witness:
  "\<exists>db'. record_v2_cutover 7 sample_db 10 20 (Some 100) (Some ''operator'') None = Inr db' \<and> get_effective_v2_cutover db' 10 20 = Some 100"
proof -
  have "\<exists>db'. record_v2_cutover 7 sample_db 10 20 (Some 100) (Some ''operator'') None = Inr db'"
    by (simp add: record_v2_cutover_def require_provisionable_tenant_def mapped_status_def sample_db_def py_strip_def is_space_def)
  then obtain db' where r: "record_v2_cutover 7 sample_db 10 20 (Some 100) (Some ''operator'') None = Inr db'" by blast
  have "\<forall>v \<in> set (db_cutovers sample_db). cv_set_at v \<le> 7" by (simp add: sample_db_def)
  from newest_cutover_counts [OF r this] r show ?thesis by blast
qed

end
