(* ===== verification/IngestStore.thy ===== *)
theory IngestStore
  imports IngestDb
begin

text \<open>
  Event storage (src/services/ingest_v2_service.py, from the row builders to \<open>store_events\<close>). A request's
  list becomes rows; rows whose identity is already stored are skipped by the insert and read back to be
  compared, so that an identical resend is idempotent and a different content is a conflict. The exception
  that aborts the request is an \<open>Inl\<close>, and the caller's transaction then keeps the database as it was. The
  lemmas show that the chunked inserts store each identity once, that nothing stored is ever changed, and
  that conflicts are reported for exactly the positions whose content differs.
\<close>

section \<open>Rows\<close>

record event_kind =
  ek_label :: string
  ek_table :: string
  ek_columns :: "string list"
  ek_compare_columns :: "string list"

definition event_kinds :: "event_kind list" where
  "event_kinds =
     [\<lparr>ek_label = ''checkins'', ek_table = ''checkin_events'',
       ek_columns = [''event_key'', ''event_time'', ''item_key'', ''destination'', ''bin''],
       ek_compare_columns = [''event_time'', ''item_key'', ''destination'', ''bin'']\<rparr>,
      \<lparr>ek_label = ''rejects'', ek_table = ''reject_events'',
       ek_columns = [''event_key'', ''event_time'', ''error_class'', ''item_key''],
       ek_compare_columns = [''event_time'', ''error_class'', ''item_key'']\<rparr>,
      \<lparr>ek_label = ''acs_items'', ek_table = ''acs_item_events'',
       ek_columns = [''event_key'', ''event_time'', ''state'', ''item_key'', ''destination'', ''is_ill'', ''is_branch_services'',
                     ''is_collection_services'', ''ruleset_id''],
       ek_compare_columns = [''event_time'', ''state'', ''item_key'', ''destination'', ''is_ill'', ''is_branch_services'',
                     ''is_collection_services'']\<rparr>]"

definition opt_text :: "string option \<Rightarrow> cell" where
  "opt_text v = (case v of None \<Rightarrow> NullCell | Some s \<Rightarrow> TextCell s)"

definition opt_flag :: "bool option \<Rightarrow> cell" where
  "opt_flag v = (case v of None \<Rightarrow> NullCell | Some b \<Rightarrow> FlagCell b)"

fun event_row_of :: "safe_event \<Rightarrow> row" where
  "event_row_of (Checkin e) =
     [(''event_key'', TextCell (ck_event_key e)), (''event_time'', TimeCell (ck_event_time e)), (''item_key'', opt_text (ck_item_key e)),
      (''destination'', TextCell (ck_destination e)), (''bin'', TextCell (ck_bin e))]"
| "event_row_of (Reject e) =
     [(''event_key'', TextCell (rj_event_key e)), (''event_time'', TimeCell (rj_event_time e)),
      (''error_class'', TextCell (rj_error_class e)), (''item_key'', opt_text (rj_item_key e))]"
| "event_row_of (AcsItem e) =
     [(''event_key'', TextCell (ai_event_key e)), (''event_time'', TimeCell (ai_event_time e)), (''state'', TextCell (ai_state e)),
      (''item_key'', TextCell (ai_item_key e)), (''destination'', opt_text (ai_destination e)), (''is_ill'', opt_flag (ai_is_ill e)),
      (''is_branch_services'', opt_flag (ai_is_branch_services e)),
      (''is_collection_services'', opt_flag (ai_is_collection_services e)), (''ruleset_id'', opt_text (ai_ruleset_id e))]"

definition column :: "row \<Rightarrow> string \<Rightarrow> cell" where
  "column r name = (case map_of r name of None \<Rightarrow> NullCell | Some c \<Rightarrow> c)"

definition row_key :: "row \<Rightarrow> cell" where
  "row_key r = column r ''event_key''"

definition content :: "event_kind \<Rightarrow> row \<Rightarrow> cell list" where
  "content kind r = List.map (column r) (ek_compare_columns kind)"

section \<open>Statements\<close>

record event_scope =
  es_table :: string
  es_customer :: int
  es_branch :: int
  es_key_id :: string

definition in_scope :: "event_scope \<Rightarrow> event_row \<Rightarrow> bool" where
  "in_scope sc r \<longleftrightarrow> er_table r = es_table sc \<and> er_customer_id r = es_customer sc \<and> er_branch_id r = es_branch sc \<and> er_key_id r = es_key_id sc"

definition stored_row :: "event_scope \<Rightarrow> event_row list \<Rightarrow> cell \<Rightarrow> row option" where
  "stored_row sc events key = map_option er_columns (find (\<lambda>r. in_scope sc r \<and> row_key (er_columns r) = key) events)"

text \<open>\<open>INSERT ... ON CONFLICT (customer_id, branch_id, key_id, event_key) DO NOTHING RETURNING event_key\<close>.\<close>

definition insert_row :: "event_scope \<Rightarrow> event_row list \<times> cell list \<Rightarrow> row \<Rightarrow> event_row list \<times> cell list" where
  "insert_row sc acc r = (case acc of (events, inserted) \<Rightarrow>
     if stored_row sc events (row_key r) \<noteq> None then (events, inserted)
     else (events @ [\<lparr>er_table = es_table sc, er_customer_id = es_customer sc, er_branch_id = es_branch sc, er_key_id = es_key_id sc,
                       er_columns = r\<rparr>], inserted @ [row_key r]))"

definition insert_chunk_size :: nat where
  "insert_chunk_size = 200"

definition max_reported_conflicts :: nat where
  "max_reported_conflicts = 50"

section \<open>One list\<close>

datatype store_error = EventConflict "(string \<times> nat list) list" | NotReadBack

text \<open>The first pass: the first row of each identity, and the positions that repeat one with other content.\<close>

definition unique_step ::
    "event_kind \<Rightarrow> (cell \<times> nat \<times> row) list \<times> nat list \<Rightarrow> nat \<times> row \<Rightarrow> (cell \<times> nat \<times> row) list \<times> nat list" where
  "unique_step kind acc p = (case acc of (unique, conflicts) \<Rightarrow> case p of (position, r) \<Rightarrow>
     (case map_of unique (row_key r) of
        None \<Rightarrow> (unique @ [(row_key r, position, r)], conflicts)
      | Some (_, first) \<Rightarrow> (unique, if content kind first \<noteq> content kind r then conflicts @ [position] else conflicts)))"

definition insert_chunk :: "event_scope \<Rightarrow> event_row list \<times> cell list \<Rightarrow> (nat \<times> row) list \<Rightarrow> event_row list \<times> cell list" where
  "insert_chunk sc acc chunk = foldl (insert_row sc) acc (List.map snd chunk)"

definition compare_row :: "event_kind \<Rightarrow> event_scope \<Rightarrow> event_row list \<Rightarrow> nat list \<Rightarrow> nat \<times> row \<Rightarrow> store_error + nat list" where
  "compare_row kind sc events conflicts p = (case p of (position, r) \<Rightarrow>
     (case stored_row sc events (row_key r) of
        None \<Rightarrow> Inl NotReadBack
      | Some existing \<Rightarrow> Inr (if content kind existing \<noteq> content kind r then conflicts @ [position] else conflicts)))"

definition store_kind :: "event_kind \<Rightarrow> event_scope \<Rightarrow> row list \<Rightarrow> event_row list \<Rightarrow> store_error + nat \<times> nat list \<times> event_row list" where
  "store_kind kind sc rows events =
     (let (unique, conflicts) = foldl (unique_step kind) ([], []) (enumerate 0 rows) in
      if conflicts \<noteq> [] then Inr (0, conflicts, events)
      else
        let ordered = List.map snd unique;
            (events', inserted) = foldl (insert_chunk sc) (events, []) (chunks insert_chunk_size ordered);
            skipped = filter (\<lambda>(_, r). row_key r \<notin> set inserted) ordered
        in bind_result (fold_result (\<lambda>cs chunk. fold_result (compare_row kind sc events') cs chunk) [] (chunks insert_chunk_size skipped))
             (\<lambda>cs. Inr (length (remdups inserted), cs, events')))"

section \<open>The whole request\<close>

definition events_of_kind :: "string \<Rightarrow> upload_v2_request \<Rightarrow> safe_event list" where
  "events_of_kind label r =
     (if label = ''checkins'' then List.map Checkin (up_checkins r)
      else if label = ''rejects'' then List.map Reject (up_rejects r)
      else List.map AcsItem (up_acs_items r))"

record store_state =
  st_counts :: "(string \<times> nat) list"
  st_conflicts :: "(string \<times> nat list) list"
  st_events :: "event_row list"

definition kind_scope :: "event_kind \<Rightarrow> int \<Rightarrow> int \<Rightarrow> string \<Rightarrow> event_scope" where
  "kind_scope kind customer branch key_id = \<lparr>es_table = ek_table kind, es_customer = customer, es_branch = branch, es_key_id = key_id\<rparr>"

definition store_step :: "int \<Rightarrow> int \<Rightarrow> upload_v2_request \<Rightarrow> store_state \<Rightarrow> event_kind \<Rightarrow> store_error + store_state" where
  "store_step customer branch r st kind =
     (let rows = List.map event_row_of (events_of_kind (ek_label kind) r) in
      bind_result (store_kind kind (kind_scope kind customer branch (up_key_id r)) rows (st_events st)) (\<lambda>(inserted, kind_conflicts, events).
        Inr \<lparr>st_counts = st_counts st @ [(ek_label kind @ ''_received'', length rows), (ek_label kind @ ''_inserted'', inserted),
               (ek_label kind @ ''_duplicates'', length rows - inserted)],
             st_conflicts = (if kind_conflicts = [] then st_conflicts st
               else st_conflicts st @ [(ek_label kind, take max_reported_conflicts (sort kind_conflicts))]),
             st_events = events\<rparr>))"

definition store_events :: "int \<Rightarrow> int \<Rightarrow> upload_v2_request \<Rightarrow> event_row list \<Rightarrow> store_error + (string \<times> nat) list \<times> event_row list" where
  "store_events customer branch r events =
     bind_result (fold_result (store_step customer branch r) \<lparr>st_counts = [], st_conflicts = [], st_events = events\<rparr> event_kinds) (\<lambda>st.
       if st_conflicts st \<noteq> [] then Inl (EventConflict (st_conflicts st)) else Inr (st_counts st, st_events st))"

section \<open>Lemmas about the statements\<close>

lemma foldl_concat: "foldl (\<lambda>acc xs. foldl f acc xs) a xss = foldl f a (concat xss)"
  by (induction xss arbitrary: a) simp_all

lemma fold_result_concat: "fold_result (\<lambda>acc xs. fold_result f acc xs) a xss = fold_result f a (concat xss)"
  by (induction xss arbitrary: a) (simp_all add: fold_result_append)

lemma insert_chunks: "foldl (insert_chunk sc) acc (chunks insert_chunk_size xs) = foldl (insert_row sc) acc (List.map snd xs)"
proof -
  have "foldl (insert_chunk sc) acc xss = foldl (insert_row sc) acc (List.map snd (concat xss))" for xss
    by (induction xss arbitrary: acc) (simp_all add: insert_chunk_def)
  then show ?thesis by (simp add: concat_chunks insert_chunk_size_def)
qed

definition new_row :: "event_scope \<Rightarrow> row \<Rightarrow> event_row" where
  "new_row sc r = \<lparr>er_table = es_table sc, er_customer_id = es_customer sc, er_branch_id = es_branch sc, er_key_id = es_key_id sc,
     er_columns = r\<rparr>"

lemma stored_row_append: "stored_row sc (es @ fs) k = (case stored_row sc es k of None \<Rightarrow> stored_row sc fs k | Some r \<Rightarrow> Some r)"
  by (simp add: stored_row_def find_append split: option.splits)

lemma stored_row_new: "stored_row sc' [new_row sc r] k = (if in_scope sc' (new_row sc r) \<and> row_key r = k then Some r else None)"
  by (simp add: stored_row_def new_row_def)

lemma in_scope_new [simp]: "in_scope sc' (new_row sc r) \<longleftrightarrow> sc' = sc"
  by (cases sc; cases sc') (auto simp: in_scope_def new_row_def)

lemma insert_row_eq: "insert_row sc (events, inserted) r =
    (if stored_row sc events (row_key r) \<noteq> None then (events, inserted) else (events @ [new_row sc r], inserted @ [row_key r]))"
  by (simp add: insert_row_def new_row_def)

text \<open>Inserting rows of distinct identities appends exactly those not yet stored.\<close>

lemma insert_rows:
  assumes "distinct (List.map row_key rs)"
  shows "foldl (insert_row sc) (events, inserted) rs =
    (events @ List.map (new_row sc) (filter (\<lambda>r. stored_row sc events (row_key r) = None) rs),
     inserted @ List.map row_key (filter (\<lambda>r. stored_row sc events (row_key r) = None) rs))"
  using assms
proof (induction rs arbitrary: events inserted)
  case (Cons r rs)
  show ?case
  proof (cases "stored_row sc events (row_key r) = None")
    case False
    with Cons show ?thesis by (simp add: insert_row_eq)
  next
    case True
    have "filter (\<lambda>x. stored_row sc (events @ [new_row sc r]) (row_key x) = None) rs = filter (\<lambda>x. stored_row sc events (row_key x) = None) rs"
      using Cons.prems by (intro filter_cong) (auto simp: stored_row_append stored_row_new split: option.splits)
    with True Cons show ?thesis by (simp add: insert_row_eq)
  qed
qed simp

section \<open>One list, by position\<close>

definition unique_pass :: "event_kind \<Rightarrow> row list \<Rightarrow> (cell \<times> nat \<times> row) list \<times> nat list" where
  "unique_pass kind rows = foldl (unique_step kind) ([], []) (enumerate 0 rows)"

definition repeats :: "event_kind \<Rightarrow> row list \<Rightarrow> nat \<Rightarrow> bool" where
  "repeats kind rows i \<longleftrightarrow> (\<exists>j < i. row_key (rows ! j) = row_key (rows ! i) \<and> content kind (rows ! j) \<noteq> content kind (rows ! i))"

definition firsts_ok :: "event_kind \<Rightarrow> row list \<Rightarrow> (cell \<times> nat \<times> row) list \<times> nat list \<Rightarrow> bool" where
  "firsts_ok kind rows acc \<longleftrightarrow> (case acc of (u, cs) \<Rightarrow>
     distinct (List.map fst u) \<and> (\<forall>(k, i, r) \<in> set u. i < length rows \<and> rows ! i = r \<and> row_key r = k)
     \<and> fst ` set u = row_key ` set rows \<and> (\<forall>i \<in> set cs. i < length rows \<and> repeats kind rows i)
     \<and> (cs = [] \<longrightarrow> (\<forall>(k, i, r) \<in> set u. \<forall>x \<in> set rows. row_key x = k \<longrightarrow> content kind x = content kind r)))"

lemma firsts_okD:
  assumes "firsts_ok kind rows (u, cs)"
  shows "distinct (List.map fst u)" "\<And>k i r. (k, i, r) \<in> set u \<Longrightarrow> i < length rows \<and> rows ! i = r \<and> row_key r = k"
    "fst ` set u = row_key ` set rows" "\<And>i. i \<in> set cs \<Longrightarrow> i < length rows \<and> repeats kind rows i"
    "\<And>k i r x. cs = [] \<Longrightarrow> (k, i, r) \<in> set u \<Longrightarrow> x \<in> set rows \<Longrightarrow> row_key x = k \<Longrightarrow> content kind x = content kind r"
proof -
  note o = assms [unfolded firsts_ok_def prod.case]
  show "distinct (List.map fst u)" "fst ` set u = row_key ` set rows" using o by simp_all
  show "i < length rows \<and> rows ! i = r \<and> row_key r = k" if "(k, i, r) \<in> set u" for k i r
    using bspec [OF o [THEN conjunct2, THEN conjunct1] that] by simp
  show "i < length rows \<and> repeats kind rows i" if "i \<in> set cs" for i
    using bspec [OF o [THEN conjunct2, THEN conjunct2, THEN conjunct2, THEN conjunct1] that] .
  show "content kind x = content kind r" if "cs = []" "(k, i, r) \<in> set u" "x \<in> set rows" "row_key x = k" for k i r x
    using bspec [OF mp [OF o [THEN conjunct2, THEN conjunct2, THEN conjunct2, THEN conjunct2] that(1)] that(2)] that(3,4) by blast
qed

lemma firsts_okI:
  assumes "distinct (List.map fst u)" "\<And>k i r. (k, i, r) \<in> set u \<Longrightarrow> i < length rows \<and> rows ! i = r \<and> row_key r = k"
    "fst ` set u = row_key ` set rows" "\<And>i. i \<in> set cs \<Longrightarrow> i < length rows \<and> repeats kind rows i"
    "\<And>k i r x. cs = [] \<Longrightarrow> (k, i, r) \<in> set u \<Longrightarrow> x \<in> set rows \<Longrightarrow> row_key x = k \<Longrightarrow> content kind x = content kind r"
  shows "firsts_ok kind rows (u, cs)"
  unfolding firsts_ok_def prod.case
proof (intro conjI)
  show "distinct (List.map fst u)" "fst ` set u = row_key ` set rows" using assms(1,3) .
  show "\<forall>(k, i, r) \<in> set u. i < length rows \<and> rows ! i = r \<and> row_key r = k"
  proof (rule ballI)
    fix p assume "p \<in> set u"
    then show "case p of (k, i, r) \<Rightarrow> i < length rows \<and> rows ! i = r \<and> row_key r = k" using assms(2) by (cases p rule: prod_cases3) simp
  qed
  show "\<forall>i \<in> set cs. i < length rows \<and> repeats kind rows i" using assms(4) by simp
  show "cs = [] \<longrightarrow> (\<forall>(k, i, r) \<in> set u. \<forall>x \<in> set rows. row_key x = k \<longrightarrow> content kind x = content kind r)"
  proof (intro impI ballI)
    fix p assume "cs = []" "p \<in> set u"
    then show "case p of (k, i, r) \<Rightarrow> \<forall>x \<in> set rows. row_key x = k \<longrightarrow> content kind x = content kind r"
      using assms(5) by (cases p rule: prod_cases3) simp
  qed
qed

lemma repeats_append: "i < length rows \<Longrightarrow> repeats kind (rows @ [x]) i = repeats kind rows i"
proof -
  assume i: "i < length rows"
  then have n: "(rows @ [x]) ! j = rows ! j" if "j \<le> i" for j using that by (simp add: nth_append)
  show ?thesis unfolding repeats_def n [OF order_refl] using n [OF less_imp_le] by (metis (no_types))
qed

lemma unique_pass_snoc: "unique_pass kind (rows @ [x]) = unique_step kind (unique_pass kind rows) (length rows, x)"
  by (simp add: unique_pass_def enumerate_append_eq)

lemma unique_step_ok:
  assumes "firsts_ok kind rows (u, cs)"
  shows "firsts_ok kind (rows @ [x]) (unique_step kind (u, cs) (length rows, x))"
proof -
  note ok = firsts_okD [OF assms]
  note u = ok(2)
  have u': "i < length (rows @ [x]) \<and> (rows @ [x]) ! i = r \<and> row_key r = k" if "(k, i, r) \<in> set u" for k i r
    using u [OF that] by (simp add: nth_append)
  have c': "i < length (rows @ [x]) \<and> repeats kind (rows @ [x]) i" if "i \<in> set cs" for i
    using ok(4) [OF that] by (simp add: repeats_append)
  have k: "k \<in> row_key ` set rows" if "(k, i, r) \<in> set u" for k i r using u [OF that] by (metis image_eqI nth_mem)
  show ?thesis
  proof (cases "map_of u (row_key x)")
    case None
    then have n: "row_key x \<notin> row_key ` set rows" using ok(3) by (metis map_of_eq_None_iff)
    have s: "unique_step kind (u, cs) (length rows, x) = (u @ [(row_key x, length rows, x)], cs)" by (simp add: unique_step_def None)
    show ?thesis unfolding s
    proof (rule firsts_okI)
      show "distinct (List.map fst (u @ [(row_key x, length rows, x)]))" using ok(1,3) n by simp
      show "fst ` set (u @ [(row_key x, length rows, x)]) = row_key ` set (rows @ [x])" using ok(3) by simp
      show "i < length (rows @ [x]) \<and> (rows @ [x]) ! i = r \<and> row_key r = k" if "(k, i, r) \<in> set (u @ [(row_key x, length rows, x)])" for k i r
        using that u' [of k i r] by (cases "(k, i, r) \<in> set u") simp_all
      show "i < length (rows @ [x]) \<and> repeats kind (rows @ [x]) i" if "i \<in> set cs" for i using c' [OF that] .
      show "content kind y = content kind r"
        if a: "cs = []" "(k, i, r) \<in> set (u @ [(row_key x, length rows, x)])" "y \<in> set (rows @ [x])" "row_key y = k" for k i r y
      proof (cases "(k, i, r) \<in> set u")
        case True
        with k [OF True] n have "k \<noteq> row_key x" by metis
        with a(3,4) have "y \<in> set rows" by auto
        from ok(5) [OF a(1) True this a(4)] show ?thesis .
      next
        case False
        with a(2) have r: "k = row_key x" "r = x" by auto
        from a(4) r(1) n have "y \<notin> set rows" by (metis image_eqI)
        with a(3) have "y = x" by simp
        with r show ?thesis by simp
      qed
    qed
  next
    case (Some p)
    obtain j f where p: "p = (j, f)" by fastforce
    have m: "(row_key x, j, f) \<in> set u" using Some p map_of_SomeD by metis
    note jf = u [OF m]
    let ?cs = "if content kind f \<noteq> content kind x then cs @ [length rows] else cs"
    have s: "unique_step kind (u, cs) (length rows, x) = (u, ?cs)" by (simp add: unique_step_def Some p)
    have rep: "repeats kind (rows @ [x]) (length rows)" if "content kind f \<noteq> content kind x"
      using that jf unfolding repeats_def by (intro exI [of _ j]) (simp add: nth_append)
    show ?thesis unfolding s
    proof (rule firsts_okI)
      show "distinct (List.map fst u)" by (rule ok(1))
      show "fst ` set u = row_key ` set (rows @ [x])" using ok(3) k [OF m] by auto
      show "i < length (rows @ [x]) \<and> (rows @ [x]) ! i = r \<and> row_key r = k" if "(k, i, r) \<in> set u" for k i r using u' [OF that] .
      show "i < length (rows @ [x]) \<and> repeats kind (rows @ [x]) i" if "i \<in> set ?cs" for i
        using that c' [of i] rep by (cases "i = length rows") (auto split: if_splits)
      show "content kind y = content kind r" if a: "?cs = []" "(k, i, r) \<in> set u" "y \<in> set (rows @ [x])" "row_key y = k" for k i r y
      proof -
        from a(1) have e: "cs = []" "content kind f = content kind x" by (simp_all split: if_splits)
        show ?thesis
        proof (cases "y \<in> set rows")
          case True
          from ok(5) [OF e(1) a(2) True a(4)] show ?thesis .
        next
          case False
          with a(3) have "y = x" by simp
          with a(4) have "(i, r) = (j, f)" using eq_key_imp_eq_value [OF ok(1) a(2)] m by simp
          with e(2) \<open>y = x\<close> show ?thesis by simp
        qed
      qed
    qed
  qed
qed

lemma unique_pass_ok: "firsts_ok kind rows (unique_pass kind rows)"
proof (induction rows rule: rev_induct)
  case Nil
  then show ?case by (simp add: unique_pass_def firsts_ok_def)
next
  case (snoc x rows)
  then show ?case unfolding unique_pass_snoc using unique_step_ok by (metis surj_pair)
qed

lemma compare_rows:
  assumes "\<forall>(i, r) \<in> set ps. stored_row sc events (row_key r) \<noteq> None"
  shows "fold_result (compare_row kind sc events) cs ps =
    Inr (cs @ List.map fst (filter (\<lambda>(i, r). content kind (the (stored_row sc events (row_key r))) \<noteq> content kind r) ps))"
  using assms by (induction ps arbitrary: cs) (auto simp: compare_row_def)

text \<open>What storing one list does: nothing when a row repeats an identity with other content, and otherwise every new identity is
  appended once and the positions whose stored content differs are reported.\<close>

lemma store_kind_cases:
  obtains (repeat) cs where "store_kind kind sc rows events = Inr (0, cs, events)" "cs \<noteq> []" "\<forall>i \<in> set cs. i < length rows \<and> repeats kind rows i"
  | (insert) ps new where
      "distinct (List.map (row_key \<circ> snd) ps)" "\<forall>(i, r) \<in> set ps. i < length rows \<and> rows ! i = r" "(row_key \<circ> snd) ` set ps = row_key ` set rows"
      "\<forall>(i, r) \<in> set ps. \<forall>x \<in> set rows. row_key x = row_key r \<longrightarrow> content kind x = content kind r"
      "new = filter (\<lambda>r. stored_row sc events (row_key r) = None) (List.map snd ps)"
      "store_kind kind sc rows events = Inr (length new,
         List.map fst (filter (\<lambda>(i, r). stored_row sc events (row_key r) \<noteq> None
            \<and> content kind (the (stored_row sc events (row_key r))) \<noteq> content kind r) ps), events @ List.map (new_row sc) new)"
proof -
  obtain u cs where u: "unique_pass kind rows = (u, cs)" by fastforce
  note ok = firsts_okD [OF unique_pass_ok [of kind rows, unfolded u]]
  show ?thesis
  proof (cases "cs = []")
    case False
    then have "store_kind kind sc rows events = Inr (0, cs, events)"
      using u by (simp add: store_kind_def unique_pass_def)
    moreover have "\<forall>i \<in> set cs. i < length rows \<and> repeats kind rows i" using ok(4) by (rule ballI)
    ultimately show ?thesis using False by (intro repeat)
  next
    case True
    let ?ps = "List.map snd u"
    let ?N = "filter (\<lambda>r. stored_row sc events (row_key r) = None) (List.map snd ?ps)"
    have keys: "List.map (row_key \<circ> snd) ?ps = List.map fst u"
      unfolding list.map_comp by (rule map_cong [OF refl]) (use ok(2) in auto)
    have d: "distinct (List.map (row_key \<circ> snd) ?ps)" unfolding keys by (rule ok(1))
    then have d': "distinct (List.map row_key (List.map snd ?ps))" by (simp add: comp_def)
    have ins: "foldl (insert_chunk sc) (events, []) (chunks insert_chunk_size ?ps) = (events @ List.map (new_row sc) ?N, List.map row_key ?N)"
      using insert_rows [OF d'] by (simp add: insert_chunks)
    have dN: "distinct (List.map row_key ?N)" using d' distinct_map_filter by blast
    let ?e = "events @ List.map (new_row sc) ?N"
    have st: "stored_row sc (events @ es) (row_key r) = stored_row sc events (row_key r)" if "stored_row sc events (row_key r) \<noteq> None" for r es
      using that by (auto simp: stored_row_append)
    have inj: "row_key r \<in> row_key ` set ?N \<longleftrightarrow> stored_row sc events (row_key r) = None" if "r \<in> set (List.map snd ?ps)" for r
      using that by (auto simp: image_iff)
    have sk: "filter (\<lambda>(_, r). row_key r \<notin> set (List.map row_key ?N)) ?ps = filter (\<lambda>(_, r). stored_row sc events (row_key r) \<noteq> None) ?ps"
      using inj by (intro filter_cong) (auto simp: image_iff)
    let ?s = "filter (\<lambda>(_, r). stored_row sc events (row_key r) \<noteq> None) ?ps"
    have "\<forall>(i, r) \<in> set ?s. stored_row sc ?e (row_key r) \<noteq> None" by (auto simp: stored_row_append split: option.splits)
    from compare_rows [OF this, of kind "[]"]
    have "fold_result (compare_row kind sc ?e) [] ?s = Inr (List.map fst (filter (\<lambda>(i, r). content kind (the (stored_row sc ?e (row_key r)))
        \<noteq> content kind r) ?s))" by simp
    also have "filter (\<lambda>(i, r). content kind (the (stored_row sc ?e (row_key r))) \<noteq> content kind r) ?s
        = filter (\<lambda>(i, r). stored_row sc events (row_key r) \<noteq> None \<and> content kind (the (stored_row sc events (row_key r))) \<noteq> content kind r) ?ps"
      unfolding filter_filter by (intro filter_cong) (auto simp: st)
    finally have cmp: "fold_result (compare_row kind sc ?e) [] ?s = Inr (List.map fst (filter (\<lambda>(i, r). stored_row sc events (row_key r) \<noteq> None
        \<and> content kind (the (stored_row sc events (row_key r))) \<noteq> content kind r) ?ps))" .
    have "store_kind kind sc rows events = Inr (length ?N, List.map fst (filter (\<lambda>(i, r). stored_row sc events (row_key r) \<noteq> None
        \<and> content kind (the (stored_row sc events (row_key r))) \<noteq> content kind r) ?ps), ?e)"
      unfolding store_kind_def unique_pass_def [symmetric] u Let_def prod.case True ins fold_result_concat sk
      by (simp only: concat_chunks [of insert_chunk_size, unfolded insert_chunk_size_def, simplified] insert_chunk_size_def cmp bind_result.simps
        distinct_remdups_id [OF dN] length_map if_False simp_thms not_True_eq_False)
    moreover have "\<forall>(i, r) \<in> set ?ps. i < length rows \<and> rows ! i = r" using ok(2) by auto
    moreover have "(row_key \<circ> snd) ` set ?ps = row_key ` set rows"
      using arg_cong [OF keys, of set] ok(3) by (simp only: set_map)
    moreover have "\<forall>(i, r) \<in> set ?ps. \<forall>x \<in> set rows. row_key x = row_key r \<longrightarrow> content kind x = content kind r"
    proof (intro ballI, clarify)
      fix i r x assume "(i, r) \<in> set ?ps" "x \<in> set rows" "row_key x = row_key r"
      then obtain k where m: "(k, i, r) \<in> set u" by auto
      from ok(5) [OF True m \<open>x \<in> set rows\<close>] ok(2) [OF m] \<open>row_key x = row_key r\<close> show "content kind x = content kind r" by metis
    qed
    ultimately show ?thesis using d by - (rule insert [of ?ps ?N], (assumption | rule refl)+)
  qed
qed

section \<open>One step of the request\<close>

definition request_rows :: "event_kind \<Rightarrow> upload_v2_request \<Rightarrow> row list" where
  "request_rows kind r = List.map event_row_of (events_of_kind (ek_label kind) r)"

definition conflict_at :: "event_kind \<Rightarrow> event_scope \<Rightarrow> row list \<Rightarrow> event_row list \<Rightarrow> nat \<Rightarrow> bool" where
  "conflict_at kind sc rows events i \<longleftrightarrow> i < length rows \<and> (repeats kind rows i
     \<or> (\<exists>x. stored_row sc events (row_key (rows ! i)) = Some x \<and> content kind x \<noteq> content kind (rows ! i)))"

definition row_stored :: "event_kind \<Rightarrow> event_scope \<Rightarrow> event_row list \<Rightarrow> row \<Rightarrow> bool" where
  "row_stored kind sc events r \<longleftrightarrow> (\<exists>x. stored_row sc events (row_key r) = Some x \<and> content kind x = content kind r)"

lemma row_stored_append: "row_stored kind sc events r \<Longrightarrow> row_stored kind sc (events @ later) r"
  by (auto simp: row_stored_def stored_row_append)

lemma er_columns_new [simp]: "er_columns (new_row sc r) = r"
  by (simp add: new_row_def)

lemma stored_among_new:
  assumes "stored_row sc events k = None" "r \<in> set new" "row_key r = k"
  shows "\<exists>y \<in> set new. row_key y = k \<and> stored_row sc (events @ List.map (new_row sc) new) k = Some y"
proof -
  have "find (\<lambda>x. in_scope sc x \<and> row_key (er_columns x) = k) (List.map (new_row sc) new) = map_option (new_row sc) (find (\<lambda>y. row_key y = k) new)"
    by (induction new) simp_all
  moreover obtain y where y: "find (\<lambda>y. row_key y = k) new = Some y"
    using assms(2,3) by (cases "find (\<lambda>y. row_key y = k) new") (auto simp: find_None_iff)
  ultimately have "stored_row sc (List.map (new_row sc) new) k = Some y" by (simp add: stored_row_def)
  then have "stored_row sc (events @ List.map (new_row sc) new) k = Some y" by (simp add: stored_row_append assms(1))
  with find_SomeD [OF y] show ?thesis by blast
qed

lemma store_kind_spec:
  obtains n cs new where "store_kind kind sc rows events = Inr (n, cs, events @ List.map (new_row sc) new)" "set new \<subseteq> set rows"
    "\<forall>i \<in> set cs. conflict_at kind sc rows events i"
    "cs = [] \<longrightarrow> n = length new \<and> (\<forall>r \<in> set rows. row_stored kind sc (events @ List.map (new_row sc) new) r)
       \<and> (\<forall>i. \<not> conflict_at kind sc rows events i)"
    "(\<forall>r \<in> set rows. stored_row sc events (row_key r) \<noteq> None) \<longrightarrow> new = []"
proof (rule store_kind_cases [of kind sc rows events])
  fix cs
  assume a: "store_kind kind sc rows events = Inr (0, cs, events)" "cs \<noteq> []" "\<forall>i \<in> set cs. i < length rows \<and> repeats kind rows i"
  show thesis by (rule that [of 0 cs "[]"]) (use a in \<open>simp_all add: conflict_at_def\<close>)
next
  fix ps new
  assume d: "distinct (List.map (row_key \<circ> snd) ps)" and p: "\<forall>(i, r) \<in> set ps. i < length rows \<and> rows ! i = r"
    and k: "(row_key \<circ> snd) ` set ps = row_key ` set rows"
    and c: "\<forall>(i, r) \<in> set ps. \<forall>x \<in> set rows. row_key x = row_key r \<longrightarrow> content kind x = content kind r"
    and n: "new = filter (\<lambda>r. stored_row sc events (row_key r) = None) (List.map snd ps)"
    and s: "store_kind kind sc rows events = Inr (length new, List.map fst (filter (\<lambda>(i, r). stored_row sc events (row_key r) \<noteq> None
            \<and> content kind (the (stored_row sc events (row_key r))) \<noteq> content kind r) ps), events @ List.map (new_row sc) new)"
  let ?cs = "List.map fst (filter (\<lambda>(i, r). stored_row sc events (row_key r) \<noteq> None
      \<and> content kind (the (stored_row sc events (row_key r))) \<noteq> content kind r) ps)"
  have pr: "i < length rows \<and> rows ! i = r \<and> r \<in> set rows" if "(i, r) \<in> set ps" for i r using bspec [OF p that] by auto
  have same: "content kind x = content kind r" if "(i, r) \<in> set ps" "x \<in> set rows" "row_key x = row_key r" for i r x
    using bspec [OF c that(1)] that(2,3) by blast
  have sub: "set new \<subseteq> set rows" using pr by (auto simp: n)
  have first: "\<exists>i r'. (i, r') \<in> set ps \<and> row_key r' = row_key r" if "r \<in> set rows" for r
  proof -
    have "row_key r \<in> (row_key \<circ> snd) ` set ps" using k that by blast
    then show ?thesis by fastforce
  qed
  show thesis
  proof (rule that [OF s sub])
    show "\<forall>i \<in> set ?cs. conflict_at kind sc rows events i"
    proof (rule ballI)
      fix i assume "i \<in> set ?cs"
      then obtain r where "(i, r) \<in> set ps" "stored_row sc events (row_key r) \<noteq> None"
          "content kind (the (stored_row sc events (row_key r))) \<noteq> content kind r" by auto
      with pr [of i r] show "conflict_at kind sc rows events i" by (auto simp: conflict_at_def)
    qed
    show "?cs = [] \<longrightarrow> length new = length new \<and> (\<forall>r \<in> set rows. row_stored kind sc (events @ List.map (new_row sc) new) r)
       \<and> (\<forall>i. \<not> conflict_at kind sc rows events i)"
    proof (intro impI conjI refl)
      assume e: "?cs = []"
      have ok: "content kind x = content kind r'" if "(i, r') \<in> set ps" "stored_row sc events (row_key r') = Some x" for i r' x
        using e that by (fastforce simp: filter_empty_conv)
      show "\<forall>r \<in> set rows. row_stored kind sc (events @ List.map (new_row sc) new) r"
      proof (rule ballI)
        fix r assume r: "r \<in> set rows"
        obtain i r' where r': "(i, r') \<in> set ps" "row_key r' = row_key r" using first [OF r] by blast
        note cr = same [OF r'(1) r r'(2) [symmetric]]
        show "row_stored kind sc (events @ List.map (new_row sc) new) r"
        proof (cases "stored_row sc events (row_key r)")
          case (Some x)
          with ok [OF r'(1)] r'(2) cr show ?thesis by (simp add: row_stored_def stored_row_append)
        next
          case None
          with r' have "r' \<in> set new" by (force simp: n)
          from stored_among_new [OF None this r'(2)] obtain y where y: "y \<in> set new" "row_key y = row_key r"
              "stored_row sc (events @ List.map (new_row sc) new) (row_key r) = Some y" by blast
          with sub have "content kind y = content kind r'" using same [OF r'(1)] r'(2) by (metis subsetD)
          with y(3) cr show ?thesis by (simp add: row_stored_def)
        qed
      qed
      show "\<forall>i. \<not> conflict_at kind sc rows events i"
      proof (rule allI, rule notI)
        fix i assume i: "conflict_at kind sc rows events i"
        then have r: "rows ! i \<in> set rows" "i < length rows" by (simp_all add: conflict_at_def)
        obtain l r' where r': "(l, r') \<in> set ps" "row_key r' = row_key (rows ! i)" using first [OF r(1)] by blast
        note cr = same [OF r'(1) r(1) r'(2) [symmetric]]
        have "content kind (rows ! j) = content kind (rows ! i)" if "j < i" "row_key (rows ! j) = row_key (rows ! i)" for j
          using same [OF r'(1), of "rows ! j"] that r(2) r'(2) cr by simp
        then have "\<not> repeats kind rows i" by (auto simp: repeats_def)
        with i ok [OF r'(1)] r'(2) cr show False by (auto simp: conflict_at_def)
      qed
    qed
    show "(\<forall>r \<in> set rows. stored_row sc events (row_key r) \<noteq> None) \<longrightarrow> new = []"
      using pr by (auto simp: n filter_empty_conv)
  qed
qed

section \<open>The whole request\<close>

definition request_scope :: "int \<Rightarrow> int \<Rightarrow> upload_v2_request \<Rightarrow> event_kind \<Rightarrow> event_scope" where
  "request_scope c b r kind = kind_scope kind c b (up_key_id r)"

definition added_rows :: "int \<Rightarrow> int \<Rightarrow> upload_v2_request \<Rightarrow> event_row list \<Rightarrow> bool" where
  "added_rows c b r rows \<longleftrightarrow> (\<forall>x \<in> set rows. \<exists>kind \<in> set event_kinds. in_scope (request_scope c b r kind) x
     \<and> er_columns x \<in> set (request_rows kind r))"

definition all_stored :: "int \<Rightarrow> int \<Rightarrow> upload_v2_request \<Rightarrow> event_row list \<Rightarrow> bool" where
  "all_stored c b r events \<longleftrightarrow> (\<forall>kind \<in> set event_kinds. \<forall>row \<in> set (request_rows kind r). row_stored kind (request_scope c b r kind) events row)"

definition reported_ok :: "int \<Rightarrow> int \<Rightarrow> upload_v2_request \<Rightarrow> event_row list \<Rightarrow> (string \<times> nat list) list \<Rightarrow> bool" where
  "reported_ok c b r events ps \<longleftrightarrow> (\<forall>(label, positions) \<in> set ps. \<exists>kind \<in> set event_kinds. ek_label kind = label \<and> positions \<noteq> []
     \<and> length positions \<le> max_reported_conflicts
     \<and> (\<forall>i \<in> set positions. conflict_at kind (request_scope c b r kind) (request_rows kind r) events i))"

lemma kinds_distinct: "distinct (List.map ek_table event_kinds)"
  by (simp add: event_kinds_def)

lemma stored_row_other:
  assumes "\<forall>x \<in> set later. er_table x \<noteq> es_table sc"
  shows "stored_row sc (events @ later) k = stored_row sc events k"
proof -
  have "find (\<lambda>r. in_scope sc r \<and> row_key (er_columns r) = k) later = None"
    using assms by (auto simp: find_None_iff in_scope_def)
  then show ?thesis by (simp add: stored_row_def find_append split: option.splits)
qed

text \<open>Storing some of the kinds: rows are only appended, in the tables of those kinds.\<close>

lemma store_steps:
  assumes "distinct (List.map ek_table ks)" "set ks \<subseteq> set event_kinds" "st_events st = events @ later"
    "\<forall>x \<in> set later. er_table x \<notin> ek_table ` set ks"
  shows "\<exists>st' new. fold_result (store_step c b r) st ks = Inr st' \<and> st_events st' = st_events st @ new \<and> added_rows c b r new
    \<and> (\<exists>ps. st_conflicts st' = st_conflicts st @ ps \<and> reported_ok c b r events ps
         \<and> (ps = [] \<longrightarrow> (\<forall>kind \<in> set ks. (\<forall>row \<in> set (request_rows kind r). row_stored kind (request_scope c b r kind) (st_events st') row)
              \<and> (\<forall>i. \<not> conflict_at kind (request_scope c b r kind) (request_rows kind r) events i))))
    \<and> ((\<forall>kind \<in> set ks. \<forall>row \<in> set (request_rows kind r). stored_row (request_scope c b r kind) events (row_key row) \<noteq> None) \<longrightarrow> new = [])"
  using assms
proof (induction ks arbitrary: st later)
  case Nil
  then show ?case by (intro exI [of _ st] exI [of _ "[]"]) (simp add: added_rows_def reported_ok_def)
next
  case (Cons k ks)
  let ?sc = "request_scope c b r k" and ?rows = "request_rows k r"
  have k: "k \<in> set event_kinds" using Cons.prems(2) by simp
  have t: "es_table ?sc = ek_table k" by (simp add: request_scope_def kind_scope_def)
  have so: "stored_row ?sc (st_events st) x = stored_row ?sc events x" for x
    unfolding Cons.prems(3) by (rule stored_row_other) (use Cons.prems(4) in \<open>auto simp: t\<close>)
  then have co: "conflict_at k ?sc ?rows (st_events st) i = conflict_at k ?sc ?rows events i" for i
    by (simp add: conflict_at_def)
  obtain n cs new where s: "store_kind k ?sc ?rows (st_events st) = Inr (n, cs, st_events st @ List.map (new_row ?sc) new)" "set new \<subseteq> set ?rows"
    "\<forall>i \<in> set cs. conflict_at k ?sc ?rows (st_events st) i"
    "cs = [] \<longrightarrow> n = length new \<and> (\<forall>row \<in> set ?rows. row_stored k ?sc (st_events st @ List.map (new_row ?sc) new) row)
       \<and> (\<forall>i. \<not> conflict_at k ?sc ?rows (st_events st) i)"
    "(\<forall>row \<in> set ?rows. stored_row ?sc (st_events st) (row_key row) \<noteq> None) \<longrightarrow> new = []"
    by (rule store_kind_spec [of k ?sc ?rows "st_events st"])
  let ?p = "if cs = [] then [] else [(ek_label k, take max_reported_conflicts (sort cs))]"
  let ?n = "List.map (new_row ?sc) new"
  obtain st1 where st1: "store_step c b r st k = Inr st1" "st_events st1 = st_events st @ ?n" "st_conflicts st1 = st_conflicts st @ ?p"
    using s(1) by (simp add: store_step_def request_rows_def request_scope_def Let_def)
  have tn: "er_table x = ek_table k" if "x \<in> set ?n" for x using that by (auto simp: new_row_def t)
  have l1: "st_events st1 = events @ (later @ ?n)" using Cons.prems(3) st1(2) by simp
  have l2: "\<forall>x \<in> set (later @ ?n). er_table x \<notin> ek_table ` set ks"
  proof (rule ballI)
    fix x assume x: "x \<in> set (later @ ?n)"
    show "er_table x \<notin> ek_table ` set ks"
    proof (cases "x \<in> set ?n")
      case True
      then show ?thesis using tn [OF True] Cons.prems(1) by simp
    next
      case False
      with x have "x \<in> set later" by simp
      with bspec [OF Cons.prems(4) this] show ?thesis by simp
    qed
  qed
  have d: "distinct (List.map ek_table ks)" "set ks \<subseteq> set event_kinds" using Cons.prems(1,2) by simp_all
  from Cons.IH [OF d l1 l2] obtain st' new' ps where i: "fold_result (store_step c b r) st1 ks = Inr st'" "st_events st' = st_events st1 @ new'"
    "added_rows c b r new'" "st_conflicts st' = st_conflicts st1 @ ps" "reported_ok c b r events ps"
    "ps = [] \<longrightarrow> (\<forall>kind \<in> set ks. (\<forall>row \<in> set (request_rows kind r). row_stored kind (request_scope c b r kind) (st_events st') row)
              \<and> (\<forall>i. \<not> conflict_at kind (request_scope c b r kind) (request_rows kind r) events i))"
    "(\<forall>kind \<in> set ks. \<forall>row \<in> set (request_rows kind r). stored_row (request_scope c b r kind) events (row_key row) \<noteq> None) \<longrightarrow> new' = []"
    by blast
  have added: "added_rows c b r (?n @ new')"
    unfolding added_rows_def
  proof (rule ballI)
    fix x assume "x \<in> set (?n @ new')"
    then consider "x \<in> set new'" | y where "y \<in> set new" "x = new_row ?sc y" by auto
    then show "\<exists>kind \<in> set event_kinds. in_scope (request_scope c b r kind) x \<and> er_columns x \<in> set (request_rows kind r)"
    proof cases
      case 1
      with i(3) show ?thesis unfolding added_rows_def by blast
    next
      case 2
      with s(2) k show ?thesis by (intro bexI [of _ k]) auto
    qed
  qed
  have rep: "reported_ok c b r events (?p @ ps)"
  proof -
    have "\<exists>kind \<in> set event_kinds. ek_label kind = ek_label k \<and> take max_reported_conflicts (sort cs) \<noteq> []
        \<and> length (take max_reported_conflicts (sort cs)) \<le> max_reported_conflicts
        \<and> (\<forall>i \<in> set (take max_reported_conflicts (sort cs)). conflict_at kind (request_scope c b r kind) (request_rows kind r) events i)"
      if "cs \<noteq> []"
    proof (rule bexI [OF _ k], intro conjI)
      show "take max_reported_conflicts (sort cs) \<noteq> []" using that by (simp add: max_reported_conflicts_def) (metis set_empty set_sort)
      show "\<forall>i \<in> set (take max_reported_conflicts (sort cs)). conflict_at k ?sc ?rows events i"
        using s(3) by (auto simp: co dest!: in_set_takeD)
    qed simp_all
    with i(5) show ?thesis unfolding reported_ok_def by (cases "cs = []") auto
  qed
  have fin: "(\<forall>kind \<in> set (k # ks). (\<forall>row \<in> set (request_rows kind r). row_stored kind (request_scope c b r kind) (st_events st') row)
      \<and> (\<forall>i. \<not> conflict_at kind (request_scope c b r kind) (request_rows kind r) events i))" if "?p @ ps = []"
  proof -
    from that have "cs = []" "ps = []" by (simp_all split: if_splits)
    from \<open>cs = []\<close> s(4) have "\<forall>row \<in> set ?rows. row_stored k ?sc (st_events st1) row" "\<forall>i. \<not> conflict_at k ?sc ?rows events i"
      by (simp_all add: st1(2) co)
    moreover from this(1) have "\<forall>row \<in> set ?rows. row_stored k ?sc (st_events st') row" unfolding i(2) using row_stored_append by blast
    ultimately show ?thesis using i(6) \<open>ps = []\<close> by simp
  qed
  have none: "?n @ new' = []" if "\<forall>kind \<in> set (k # ks). \<forall>row \<in> set (request_rows kind r). stored_row (request_scope c b r kind) events (row_key row) \<noteq> None"
    using that s(5) i(7) by (simp add: so)
  show ?case
    by (intro exI [of _ st'] exI [of _ "?n @ new'"] conjI exI [of _ "?p @ ps"])
      (use st1 i(1,2,4) added rep fin none in simp_all)
qed

lemma store_events_run:
  obtains st new ps where "fold_result (store_step c b r) \<lparr>st_counts = [], st_conflicts = [], st_events = events\<rparr> event_kinds = Inr st"
    "st_events st = events @ new" "added_rows c b r new" "st_conflicts st = ps" "reported_ok c b r events ps"
    "ps = [] \<longrightarrow> all_stored c b r (events @ new)
       \<and> (\<forall>kind \<in> set event_kinds. \<forall>i. \<not> conflict_at kind (request_scope c b r kind) (request_rows kind r) events i)"
    "(\<forall>kind \<in> set event_kinds. \<forall>row \<in> set (request_rows kind r). stored_row (request_scope c b r kind) events (row_key row) \<noteq> None) \<longrightarrow> new = []"
proof -
  let ?st = "\<lparr>st_counts = [], st_conflicts = [], st_events = events\<rparr>"
  have "st_events ?st = events @ []" "\<forall>x \<in> set []. er_table x \<notin> ek_table ` set event_kinds" by simp_all
  from store_steps [OF kinds_distinct subset_refl this, of c b r] obtain st new where
    s: "fold_result (store_step c b r) ?st event_kinds = Inr st" "st_events st = st_events ?st @ new" "added_rows c b r new"
    "\<exists>ps. st_conflicts st = st_conflicts ?st @ ps \<and> reported_ok c b r events ps
         \<and> (ps = [] \<longrightarrow> (\<forall>kind \<in> set event_kinds. (\<forall>row \<in> set (request_rows kind r). row_stored kind (request_scope c b r kind) (st_events st) row)
              \<and> (\<forall>i. \<not> conflict_at kind (request_scope c b r kind) (request_rows kind r) events i)))"
    "(\<forall>kind \<in> set event_kinds. \<forall>row \<in> set (request_rows kind r). stored_row (request_scope c b r kind) events (row_key row) \<noteq> None) \<longrightarrow> new = []"
    by blast
  from s(4) obtain ps where p: "st_conflicts st = ps" "reported_ok c b r events ps"
    "ps = [] \<longrightarrow> (\<forall>kind \<in> set event_kinds. (\<forall>row \<in> set (request_rows kind r). row_stored kind (request_scope c b r kind) (st_events st) row)
              \<and> (\<forall>i. \<not> conflict_at kind (request_scope c b r kind) (request_rows kind r) events i))"
    by auto
  have e: "st_events st = events @ new" using s(2) by simp
  show thesis by (rule that [OF s(1) e s(3) p(1,2) _ s(5)]) (use p(3) in \<open>simp add: all_stored_def e\<close>)
qed

lemma store_events_stored:
  assumes "store_events c b r events = Inr (counts, events')"
  shows "(\<exists>new. events' = events @ new \<and> added_rows c b r new) \<and> all_stored c b r events'"
proof -
  obtain st new ps where s: "fold_result (store_step c b r) \<lparr>st_counts = [], st_conflicts = [], st_events = events\<rparr> event_kinds = Inr st"
    "st_events st = events @ new" "added_rows c b r new" "st_conflicts st = ps"
    "ps = [] \<longrightarrow> all_stored c b r (events @ new)
       \<and> (\<forall>kind \<in> set event_kinds. \<forall>i. \<not> conflict_at kind (request_scope c b r kind) (request_rows kind r) events i)"
    by (rule store_events_run [of c b r events])
  with assms have "ps = []" "events' = events @ new" by (simp_all add: store_events_def split: if_splits)
  with s(3,5) show ?thesis by blast
qed

lemma store_events_refused:
  assumes "store_events c b r events = Inl e"
  shows "\<exists>ps. e = EventConflict ps \<and> ps \<noteq> [] \<and> reported_ok c b r events ps"
proof -
  obtain st new ps where s: "fold_result (store_step c b r) \<lparr>st_counts = [], st_conflicts = [], st_events = events\<rparr> event_kinds = Inr st"
    "st_conflicts st = ps" "reported_ok c b r events ps"
    by (rule store_events_run [of c b r events])
  then show ?thesis using assms by (auto simp: store_events_def split: if_splits)
qed

section \<open>The properties of the store\<close>


text \<open>An identical resend is idempotent at any later time: once a request was stored, storing it again, whatever has been stored in
  between, succeeds and adds nothing.\<close>

lemma resend_idempotent:
  assumes "store_events c b r events = Inr (counts, events')"
  shows "\<exists>counts'. store_events c b r (events' @ later) = Inr (counts', events' @ later)"
proof -
  obtain st new ps where s: "fold_result (store_step c b r) \<lparr>st_counts = [], st_conflicts = [], st_events = events\<rparr> event_kinds = Inr st"
    "st_events st = events @ new" "st_conflicts st = ps"
    "ps = [] \<longrightarrow> all_stored c b r (events @ new)
       \<and> (\<forall>kind \<in> set event_kinds. \<forall>i. \<not> conflict_at kind (request_scope c b r kind) (request_rows kind r) events i)"
    by (rule store_events_run [of c b r events])
  from assms s(1-3) have e: "ps = []" "events' = events @ new" by (auto simp: store_events_def split: if_splits)
  have stored: "row_stored kind (request_scope c b r kind) (events' @ later) row" if "kind \<in> set event_kinds" "row \<in> set (request_rows kind r)" for kind row
    by (rule row_stored_append) (use s(4) e that in \<open>simp add: all_stored_def\<close>)
  have repeats: "\<not> repeats kind (request_rows kind r) i" if "kind \<in> set event_kinds" "i < length (request_rows kind r)" for kind i
    using s(4) e(1) that by (simp add: conflict_at_def)
  obtain st' new' ps' where t:
    "fold_result (store_step c b r) \<lparr>st_counts = [], st_conflicts = [], st_events = events' @ later\<rparr> event_kinds = Inr st'"
    "st_events st' = (events' @ later) @ new'" "st_conflicts st' = ps'" "reported_ok c b r (events' @ later) ps'"
    "(\<forall>kind \<in> set event_kinds. \<forall>row \<in> set (request_rows kind r). stored_row (request_scope c b r kind) (events' @ later) (row_key row) \<noteq> None)
      \<longrightarrow> new' = []"
    by (rule store_events_run [of c b r "events' @ later"])
  have "new' = []" using t(5) stored unfolding row_stored_def by blast
  have free: "\<not> conflict_at kind (request_scope c b r kind) (request_rows kind r) (events' @ later) i" if k: "kind \<in> set event_kinds" for kind i
  proof
    assume i: "conflict_at kind (request_scope c b r kind) (request_rows kind r) (events' @ later) i"
    then have l: "i < length (request_rows kind r)" by (simp add: conflict_at_def)
    then have "request_rows kind r ! i \<in> set (request_rows kind r)" by (rule nth_mem)
    from stored [OF k this] repeats [OF k l] i show False by (auto simp: conflict_at_def row_stored_def)
  qed
  have "ps' = []"
  proof (rule ccontr)
    assume "ps' \<noteq> []"
    then obtain label positions rest where p: "ps' = (label, positions) # rest" by (cases ps') auto
    from t(4) obtain kind where "kind \<in> set event_kinds" "positions \<noteq> []"
        "\<forall>i \<in> set positions. conflict_at kind (request_scope c b r kind) (request_rows kind r) (events' @ later) i"
      by (auto simp: p reported_ok_def)
    with free show False by (metis last_in_set)
  qed
  with t(1-3) \<open>new' = []\<close> show ?thesis by (simp add: store_events_def)
qed

definition sample_request :: upload_v2_request where
  "sample_request = \<lparr>up_key_id = sample_key_id,
     up_checkins = [\<lparr>ck_event_key = ''a'', ck_event_time = 0, ck_item_key = None, ck_destination = ''main'', ck_bin = ''1''\<rparr>],
     up_rejects = [], up_acs_items = []\<rparr>"

lemma sample_stored: "\<exists>counts events. store_events 10 20 sample_request [] = Inr (counts, events) \<and> length events = 1"
proof -
  have c: "chunks 200 xs = (if xs = [] then [] else [xs])" if "length xs \<le> 200" for xs :: "(nat \<times> row) list"
    using that by (subst chunks.simps) (simp add: chunks.simps)
  show ?thesis
    by (simp add: store_events_def event_kinds_def store_step_def store_kind_def events_of_kind_def sample_request_def unique_step_def
      insert_chunk_def insert_row_def insert_chunk_size_def c stored_row_def kind_scope_def row_key_def column_def)
qed

lemma resend_idempotent_witness:
  "\<exists>counts events counts'. store_events 10 20 sample_request [] = Inr (counts, events)
     \<and> store_events 10 20 sample_request events = Inr (counts', events)"
proof -
  obtain counts events where s: "store_events 10 20 sample_request [] = Inr (counts, events)" using sample_stored by blast
  from resend_idempotent [OF s, of "[]"] s show ?thesis by auto
qed

end
