(* ===== verification/KeyedHash.thy ===== *)
theory KeyedHash
  imports Prelude
begin

text \<open>
  The standard-library primitives that collector/v2_identity.py derives every identifier from:
  SHA-256 on octets, HMAC over it, the lower-case hexadecimal spelling of a digest, and the UTF-8
  encoding of ASCII text. The locale \<open>keyed_hash\<close> is what the identity layer relies on of a keyed
  hash (a digest of fixed length); it is interpreted on HMAC-SHA-256 itself. Nothing here or later
  assumes the hash to be free of collisions: statements about keys are up to equality of digests.
\<close>

unbundle bit_operations_syntax

type_synonym w32 = "32 word"

section \<open>SHA-256\<close>

definition sha_k :: "w32 list" where
  "sha_k =
    [0x428a2f98, 0x71374491, 0xb5c0fbcf, 0xe9b5dba5, 0x3956c25b, 0x59f111f1, 0x923f82a4, 0xab1c5ed5,
     0xd807aa98, 0x12835b01, 0x243185be, 0x550c7dc3, 0x72be5d74, 0x80deb1fe, 0x9bdc06a7, 0xc19bf174,
     0xe49b69c1, 0xefbe4786, 0x0fc19dc6, 0x240ca1cc, 0x2de92c6f, 0x4a7484aa, 0x5cb0a9dc, 0x76f988da,
     0x983e5152, 0xa831c66d, 0xb00327c8, 0xbf597fc7, 0xc6e00bf3, 0xd5a79147, 0x06ca6351, 0x14292967,
     0x27b70a85, 0x2e1b2138, 0x4d2c6dfc, 0x53380d13, 0x650a7354, 0x766a0abb, 0x81c2c92e, 0x92722c85,
     0xa2bfe8a1, 0xa81a664b, 0xc24b8b70, 0xc76c51a3, 0xd192e819, 0xd6990624, 0xf40e3585, 0x106aa070,
     0x19a4c116, 0x1e376c08, 0x2748774c, 0x34b0bcb5, 0x391c0cb3, 0x4ed8aa4a, 0x5b9cca4f, 0x682e6ff3,
     0x748f82ee, 0x78a5636f, 0x84c87814, 0x8cc70208, 0x90befffa, 0xa4506ceb, 0xbef9a3f7, 0xc67178f2]"

type_synonym sha_state = "w32 \<times> w32 \<times> w32 \<times> w32 \<times> w32 \<times> w32 \<times> w32 \<times> w32"

definition sha_init :: sha_state where
  "sha_init = (0x6a09e667, 0xbb67ae85, 0x3c6ef372, 0xa54ff53a, 0x510e527f, 0x9b05688c, 0x1f83d9ab, 0x5be0cd19)"

definition rotr :: "nat \<Rightarrow> w32 \<Rightarrow> w32" where
  "rotr n x = drop_bit n x OR push_bit (32 - n) x"

definition be32 :: "8 word \<Rightarrow> 8 word \<Rightarrow> 8 word \<Rightarrow> 8 word \<Rightarrow> w32" where
  "be32 a b c d = push_bit 24 (ucast a) OR push_bit 16 (ucast b) OR push_bit 8 (ucast c) OR ucast d"

definition octets_of_w32 :: "w32 \<Rightarrow> octets" where
  "octets_of_w32 x = [ucast (drop_bit 24 x), ucast (drop_bit 16 x), ucast (drop_bit 8 x), ucast x]"

fun block_words :: "octets \<Rightarrow> w32 list" where
  "block_words (a # b # c # d # rest) = be32 a b c d # block_words rest"
| "block_words _ = []"

fun blocks64 :: "nat \<Rightarrow> octets \<Rightarrow> octets list" where
  "blocks64 0 m = []"
| "blocks64 (Suc n) m = take 64 m # blocks64 n (drop 64 m)"

definition be64 :: "nat \<Rightarrow> octets" where
  "be64 n = List.map (\<lambda>i. ucast (drop_bit i (word_of_nat n :: 64 word))) [56, 48, 40, 32, 24, 16, 8, 0]"

definition sha_pad :: "octets \<Rightarrow> octets" where
  "sha_pad m = m @ [128] @ replicate ((119 - length m mod 64) mod 64) 0 @ be64 (8 * length m)"

fun sha_schedule :: "nat \<Rightarrow> w32 list \<Rightarrow> w32 list" where
  "sha_schedule 0 ws = ws"
| "sha_schedule (Suc n) ws =
     (let t = length ws; a = ws ! (t - 15); b = ws ! (t - 2);
          s0 = rotr 7 a XOR rotr 18 a XOR drop_bit 3 a;
          s1 = rotr 17 b XOR rotr 19 b XOR drop_bit 10 b
      in sha_schedule n (ws @ [ws ! (t - 16) + s0 + ws ! (t - 7) + s1]))"

definition sha_round :: "sha_state \<Rightarrow> w32 \<times> w32 \<Rightarrow> sha_state" where
  "sha_round = (\<lambda>(a, b, c, d, e, f, g, h) (k, w).
     let s1 = rotr 6 e XOR rotr 11 e XOR rotr 25 e;
         ch = (e AND f) XOR (NOT e AND g);
         t1 = h + s1 + ch + k + w;
         s0 = rotr 2 a XOR rotr 13 a XOR rotr 22 a;
         maj = (a AND b) XOR (a AND c) XOR (b AND c)
     in (t1 + (s0 + maj), a, b, c, d + t1, e, f, g))"

definition sha_block :: "sha_state \<Rightarrow> octets \<Rightarrow> sha_state" where
  "sha_block s blk =
     (case (s, foldl sha_round s (zip sha_k (sha_schedule 48 (block_words blk)))) of
        ((a, b, c, d, e, f, g, h), (a', b', c', d', e', f', g', h')) \<Rightarrow>
          (a + a', b + b', c + c', d + d', e + e', f + f', g + g', h + h'))"

definition sha256 :: "octets \<Rightarrow> octets" where
  "sha256 m =
     (let p = sha_pad m in
      case foldl sha_block sha_init (blocks64 (length p div 64) p) of
        (a, b, c, d, e, f, g, h) \<Rightarrow> concat (List.map octets_of_w32 [a, b, c, d, e, f, g, h]))"

lemma length_sha256 [simp]: "length (sha256 m) = 32"
  by (simp add: sha256_def octets_of_w32_def Let_def split: prod.splits)

section \<open>HMAC and hexadecimal digests\<close>

text \<open>\<open>hmac.new(key, message, hashlib.sha256).digest()\<close>.\<close>

definition hmac_sha256 :: "octets \<Rightarrow> octets \<Rightarrow> octets" where
  "hmac_sha256 key message =
     (let k0 = (if length key > 64 then sha256 key else key);
          k = k0 @ replicate (64 - length k0) 0
      in sha256 (List.map (\<lambda>b. b XOR 0x5c) k @ sha256 (List.map (\<lambda>b. b XOR 0x36) k @ message)))"

definition hex_char :: "nat \<Rightarrow> char" where
  "hex_char n = (if n < 10 then digit_char n else char_of (87 + n))"

definition hex_octet :: "8 word \<Rightarrow> string" where
  "hex_octet b = [hex_char (unat b div 16), hex_char (unat b mod 16)]"

definition to_hex :: "octets \<Rightarrow> string" where
  "to_hex bs = concat (List.map hex_octet bs)"

text \<open>\<open>text.encode("utf-8")\<close> of ASCII text.\<close>

definition encode_text :: "string \<Rightarrow> octets" where
  "encode_text s = List.map (\<lambda>c. word_of_nat (char_code c)) s"

lemma length_hmac [simp]: "length (hmac_sha256 k m) = 32"
  by (simp add: hmac_sha256_def Let_def)

lemma unat_byte_less: "unat (b :: 8 word) < 256"
  using unsigned_less [of b] by simp

lemma hex_char_code: "n < 16 \<Longrightarrow> char_code (hex_char n) = (if n < 10 then 48 + n else 87 + n)"
  by (simp add: hex_char_def digit_char_code)

lemma hex_char_inj: "\<lbrakk>a < 16; b < 16; hex_char a = hex_char b\<rbrakk> \<Longrightarrow> a = b"
proof -
  assume ab: "a < 16" "b < 16" and "hex_char a = hex_char b"
  then have "char_code (hex_char a) = char_code (hex_char b)" by simp
  with ab show "a = b" by (simp add: hex_char_code split: if_splits)
qed

lemma is_hex_hex_char [simp]: "n < 16 \<Longrightarrow> is_hex_char (hex_char n)"
  by (auto simp: is_hex_char_def is_digit_def hex_char_code)

lemma length_to_hex [simp]: "length (to_hex bs) = 2 * length bs"
  by (induction bs) (auto simp: to_hex_def hex_octet_def)

lemma to_hex_is_hex: "list_all is_hex_char (to_hex bs)"
proof (induction bs)
  case Nil
  then show ?case by (simp add: to_hex_def)
next
  case (Cons b bs)
  have "unat b div 16 < 16" using unat_byte_less [of b] by (simp add: less_mult_imp_div_less)
  with Cons show ?case by (simp add: to_hex_def hex_octet_def)
qed

lemma hex_octet_inj: "hex_octet a = hex_octet b \<Longrightarrow> a = b"
proof -
  assume eq: "hex_octet a = hex_octet b"
  have "unat a div 16 < 16" "unat b div 16 < 16"
    using unat_byte_less [of a] unat_byte_less [of b] by (simp_all add: less_mult_imp_div_less)
  with eq have "unat a div 16 = unat b div 16" "unat a mod 16 = unat b mod 16"
    by (auto simp: hex_octet_def intro!: hex_char_inj)
  then show "a = b" by (metis div_mult_mod_eq word_unat_eq_iff)
qed

lemma to_hex_inj: "to_hex a = to_hex b \<Longrightarrow> a = b"
proof (induction a arbitrary: b)
  case Nil
  then show ?case by (cases b) (auto simp: to_hex_def hex_octet_def)
next
  case (Cons x xs)
  then obtain y ys where b: "b = y # ys" by (cases b) (auto simp: to_hex_def hex_octet_def)
  with Cons.prems have "hex_octet x = hex_octet y" "to_hex xs = to_hex ys"
    by (auto simp: to_hex_def hex_octet_def)
  with Cons.IH b show ?case using hex_octet_inj by blast
qed

lemma encode_text_inj: "encode_text a = encode_text b \<Longrightarrow> a = b"
proof (induction a arbitrary: b)
  case Nil
  then show ?case by (cases b) (auto simp: encode_text_def)
next
  case (Cons x xs)
  then obtain y ys where b: "b = y # ys" by (cases b) (auto simp: encode_text_def)
  have less: "char_code c < 2 ^ 8" for c
    by (cases c) (simp add: char_code_def of_char_def horner_sum_of_bool_2_less [of "[_, _, _, _, _, _, _, _]", simplified])
  from Cons.prems b have "word_of_nat (char_code x) = (word_of_nat (char_code y) :: 8 word)"
    by (simp add: encode_text_def)
  then have "unat (word_of_nat (char_code x) :: 8 word) = unat (word_of_nat (char_code y) :: 8 word)"
    by simp
  then have "char_code x = char_code y"
    by (simp add: unsigned_of_nat take_bit_nat_eq_self [OF less, simplified])
  with Cons b show ?case by (simp add: encode_text_def char_code_inj)
qed

section \<open>The keyed-hash interface\<close>

locale keyed_hash =
  fixes h :: "octets \<Rightarrow> octets \<Rightarrow> octets" and digest :: nat
  assumes digest_length: "length (h k m) = digest"
begin

lemma hex_length: "length (to_hex (h k m)) = 2 * digest"
  by (simp add: digest_length)

lemma hex_alphabet: "list_all is_hex_char (to_hex (h k m))"
  by (rule to_hex_is_hex)

lemma hex_eq_iff: "to_hex (h k m) = to_hex (h k' m') \<longleftrightarrow> h k m = h k' m'"
  using to_hex_inj by auto

text \<open>A hexadecimal key holds no byte outside its alphabet, so it never breaks a line or a field.\<close>

lemma hex_no_char: "\<not> is_hex_char c \<Longrightarrow> c \<notin> set (to_hex (h k m))"
  using hex_alphabet [of k m] by (auto simp: list_all_iff)

end

interpretation hmac: keyed_hash hmac_sha256 32
  by unfold_locales simp

end
