(* ===== verification/IngestApi.thy ===== *)
theory IngestApi
  imports IngestStore KeyedHash
begin

text \<open>
  The Contract v2 endpoints of src/main.py: the bounded body read, bearer tokens, the gates of
  authentication, the ingest key, the first ingest of a branch, the installation heartbeat, and the two
  handlers as transactions. A handler maps the request and the database to a status code, a body and the
  database after it; an \<open>HTTPException\<close> inside the transaction leaves the database unchanged. The clock, the
  feature flag, the rate limiter's verdict and the body of a validation error are arguments. The lemmas
  show that only a request that passed every gate changes anything, and then only rows of its own tenant.
\<close>

section \<open>The body\<close>

definition upload_max_body_bytes :: nat where
  "upload_max_body_bytes = 1024 * 1024"

definition status_max_body_bytes :: nat where
  "status_max_body_bytes = 16 * 1024"

fun read_stream :: "nat \<Rightarrow> nat \<Rightarrow> octets list \<Rightarrow> octets list \<Rightarrow> int + octets" where
  "read_stream limit seen acc [] = Inr (concat acc)"
| "read_stream limit seen acc (chunk # rest) =
     (if seen + length chunk > limit then Inl 413 else read_stream limit (seen + length chunk) (acc @ [chunk]) rest)"

text \<open>The declared length is absent, no integer, or an integer.\<close>

definition read_bounded_body :: "int option option \<Rightarrow> octets list \<Rightarrow> nat \<Rightarrow> int + octets" where
  "read_bounded_body declared stream limit =
     (case declared of
        Some None \<Rightarrow> Inl 400
      | Some (Some n) \<Rightarrow> if n < 0 \<or> n > int limit then Inl 413 else read_stream limit 0 [] stream
      | None \<Rightarrow> read_stream limit 0 [] stream)"

section \<open>Bearer tokens\<close>

definition get_bearer_token :: "string option \<Rightarrow> int + string" where
  "get_bearer_token authorization =
     (case authorization of
        None \<Rightarrow> Inl 401
      | Some header \<Rightarrow>
          if header = [] then Inl 401
          else let s = py_strip header; rest = drop 6 s; token = dropWhile is_space rest in
               if py_lower (take 6 s) = ''bearer'' \<and> rest \<noteq> [] \<and> is_space (hd rest) \<and> token \<noteq> [] \<and> CHR 0x0A \<notin> set token
               then (if py_strip token = [] then Inl 401 else Inr (py_strip token)) else Inl 401)"

definition token_hash :: "string \<Rightarrow> string" where
  "token_hash token = to_hex (sha256 (encode_text token))"

section \<open>Authentication\<close>

record token_row =
  tr_id :: int
  tr_customer_id :: int
  tr_branch_id :: int
  tr_is_active :: bool
  tr_installation_id :: "int option"
  tr_resolved_organization_id :: "int option"
  tr_organization_status :: "string option"
  tr_resolved_branch_id :: "int option"
  tr_branch_status :: "string option"
  tr_installation_status :: "string option"
  tr_installation_organization_id :: "int option"
  tr_installation_branch_id :: "int option"

definition token_lookup :: "db \<Rightarrow> string \<Rightarrow> token_row option" where
  "token_lookup db token =
     (case find (\<lambda>t. at_token_hash t = token_hash token) (db_tokens db) of
        None \<Rightarrow> None
      | Some t \<Rightarrow>
          (let org = find (\<lambda>g. og_operational_customer_id g = Some (at_customer_id t)) (db_organizations db);
               br = (case org of None \<Rightarrow> None
                     | Some g \<Rightarrow> find (\<lambda>b. br_operational_branch_id b = Some (at_branch_id t) \<and> br_organization_id b = og_id g) (db_branches db));
               inst = (case at_installation_id t of None \<Rightarrow> None | Some i \<Rightarrow> find (\<lambda>x. in_id x = i) (db_installations db))
           in Some \<lparr>tr_id = at_id t, tr_customer_id = at_customer_id t, tr_branch_id = at_branch_id t, tr_is_active = at_is_active t,
                tr_installation_id = at_installation_id t, tr_resolved_organization_id = map_option og_id org,
                tr_organization_status = map_option og_status org, tr_resolved_branch_id = map_option br_id br,
                tr_branch_status = map_option br_status br, tr_installation_status = map_option in_status inst,
                tr_installation_organization_id = map_option in_organization_id inst,
                tr_installation_branch_id = map_option in_branch_id inst\<rparr>))"

definition allowed_organization_statuses :: "string list" where
  "allowed_organization_statuses = [''active'', ''trial'']"

definition allowed_branch_status :: string where
  "allowed_branch_status = ''active''"

definition installation_heartbeat_statuses :: "string list" where
  "installation_heartbeat_statuses = [''provisioning'', ''active'']"

definition tenant_unusable_reason :: "token_row \<Rightarrow> string option" where
  "tenant_unusable_reason r =
     (case tr_organization_status r of
        None \<Rightarrow> Some ''no mapped organization''
      | Some os \<Rightarrow>
          if os \<notin> set allowed_organization_statuses then Some (''organization status '' @ os)
          else (case tr_branch_status r of
                  None \<Rightarrow> Some ''no mapped branch for the organization''
                | Some bs \<Rightarrow> if bs \<noteq> allowed_branch_status then Some (''branch status '' @ bs) else None))"

definition bound_installation_unusable_reason :: "token_row \<Rightarrow> string option" where
  "bound_installation_unusable_reason r =
     (case tr_installation_id r of
        None \<Rightarrow> None
      | Some i \<Rightarrow>
          (case tr_installation_status r of
             None \<Rightarrow> Some ''bound installation not found''
           | Some st \<Rightarrow>
               if st \<notin> set installation_heartbeat_statuses then Some (''bound installation status '' @ st)
               else if tr_installation_organization_id r \<noteq> tr_resolved_organization_id r
               then Some ''bound installation belongs to another organization''
               else if tr_installation_branch_id r \<noteq> tr_resolved_branch_id r then Some ''bound installation belongs to another branch''
               else None))"

definition authenticate :: "instant \<Rightarrow> db \<Rightarrow> string option \<Rightarrow> (int \<times> int) option \<Rightarrow> int + token_row \<times> db" where
  "authenticate now db authorization expected_scope =
     bind_result (get_bearer_token authorization) (\<lambda>token.
     case token_lookup db token of
       None \<Rightarrow> Inl 401
     | Some r \<Rightarrow>
         if \<not> tr_is_active r then Inl 403
         else if expected_scope \<noteq> None \<and> expected_scope \<noteq> Some (tr_customer_id r, tr_branch_id r) then Inl 403
         else if tenant_unusable_reason r \<noteq> None then Inl 403
         else if bound_installation_unusable_reason r \<noteq> None then Inl 403
         else Inr (r, db\<lparr>db_tokens := snd (update_where (\<lambda>t. at_id t = tr_id r) (\<lambda>t. t\<lparr>at_last_used_at := Some now\<rparr>) (db_tokens db))\<rparr>))"

definition require_ingest_key :: "db \<Rightarrow> token_row \<Rightarrow> string \<Rightarrow> int + unit" where
  "require_ingest_key db r key_id =
     (case ingest_key_problem db (tr_customer_id r) (tr_branch_id r) key_id (tr_installation_id r) of
        None \<Rightarrow> Inr () | Some _ \<Rightarrow> Inl 403)"

text \<open>Since when v1 uploads are closed for the token's branch, if they are.\<close>

definition v1_upload_closed_since :: "instant \<Rightarrow> db \<Rightarrow> token_row \<Rightarrow> instant option" where
  "v1_upload_closed_since now db r =
     (case get_effective_v2_cutover db (tr_customer_id r) (tr_branch_id r) of
        None \<Rightarrow> None | Some t \<Rightarrow> if t \<le> now then Some t else None)"

section \<open>The first ingest and the installation\<close>

definition mark_branch_ready :: "instant \<Rightarrow> db \<Rightarrow> token_row \<Rightarrow> bool \<times> db" where
  "mark_branch_ready now db r =
     (let (n, branches) = update_where
            (\<lambda>b. Some (br_id b) = tr_resolved_branch_id r \<and> Some (br_organization_id b) = tr_resolved_organization_id r
               \<and> br_operational_branch_id b = Some (tr_branch_id r) \<and> br_status b = ''active'' \<and> br_onboarding_status b = ''pending'')
            (\<lambda>b. b\<lparr>br_onboarding_status := ''ready'', br_onboarding_message := None, br_onboarding_updated_at := Some now\<rparr>) (db_branches db)
      in (n = 1, db\<lparr>db_branches := branches\<rparr>))"

definition record_installation_heartbeat :: "instant \<Rightarrow> db \<Rightarrow> token_row \<Rightarrow> int \<Rightarrow> string option \<Rightarrow> int + db" where
  "record_installation_heartbeat now db r installation version =
     (let version = (case py_strip (case version of None \<Rightarrow> [] | Some v \<Rightarrow> v) of [] \<Rightarrow> None | v \<Rightarrow> Some v) in
      if tr_installation_id r \<noteq> None \<and> tr_installation_id r \<noteq> Some installation then Inl 403
      else case find (\<lambda>x. in_id x = installation
               \<and> list_ex (\<lambda>g. og_id g = in_organization_id x \<and> og_operational_customer_id g = Some (tr_customer_id r)
                   \<and> list_ex (\<lambda>b. br_id b = in_branch_id x \<and> br_organization_id b = og_id g
                       \<and> br_operational_branch_id b = Some (tr_branch_id r)) (db_branches db)) (db_organizations db))
             (db_installations db) of
          None \<Rightarrow> Inl 403
        | Some x \<Rightarrow>
            if in_status x \<notin> set installation_heartbeat_statuses then Inl 403
            else let (n, rows) = update_where (\<lambda>y. in_id y = installation \<and> in_status y \<in> set installation_heartbeat_statuses)
                       (\<lambda>y. y\<lparr>in_status := ''active'',
                              in_installed_at := (case in_installed_at y of None \<Rightarrow> Some now | Some t \<Rightarrow> Some t),
                              in_last_seen_at := Some now,
                              in_collector_version := (case version of None \<Rightarrow> in_collector_version y | Some v \<Rightarrow> Some v),
                              in_updated_at := Some now\<rparr>) (db_installations db)
                 in if n \<noteq> 1 then Inl 403 else Inr (db\<lparr>db_installations := rows\<rparr>))"

definition heartbeat_of :: "instant \<Rightarrow> status_v2_request \<Rightarrow> heartbeat_row" where
  "heartbeat_of now q =
     \<lparr>hb_last_heartbeat_at = now, hb_health_status = sq_status q, hb_last_error_class = sq_last_error_class q,
      hb_pending_outbox_count = sq_pending_outbox_count q, hb_quarantined_count = sq_quarantined_count q,
      hb_oldest_pending_event_at = sq_oldest_pending_event_at q, hb_last_success_at = sq_last_success_at q,
      hb_watcher_last_active_at = sq_watcher_last_active_at q, hb_collector_last_run_at = sq_collector_last_run_at q,
      hb_collector_next_run_at = sq_collector_next_run_at q, hb_collector_run_duration_ms = sq_collector_run_duration_ms q,
      hb_collector_schedule_status = sq_collector_schedule_status q\<rparr>"

definition record_heartbeat :: "instant \<Rightarrow> db \<Rightarrow> int \<Rightarrow> int \<Rightarrow> status_v2_request \<Rightarrow> bool \<times> db" where
  "record_heartbeat now db customer branch q =
     (let (n, keys) = update_where (\<lambda>k. ik_key_id k = sq_key_id q \<and> of_tenant customer branch k \<and> ik_status k = ''active'')
            (\<lambda>k. k\<lparr>ik_heartbeat := Some (heartbeat_of now q)\<rparr>) (db_keys db)
      in (n = 1, db\<lparr>db_keys := keys\<rparr>))"

section \<open>The endpoints\<close>

record server_settings =
  sv_v2_ingest_enabled :: bool
  sv_within_rate_limit :: bool
  sv_validation_body :: "json option \<Rightarrow> (string \<times> json) list" \<comment> \<open>the hardened 422 body\<close>

type_synonym reply = "int \<times> json option"

definition http_error :: "int \<Rightarrow> reply" where
  "http_error code = (code, None)"

text \<open>The transaction of \<open>/v2/upload\<close>: \<open>Inl\<close> is the exception that rolls it back.\<close>

datatype upload_failure = HttpFailure int | ConflictFailure "(string \<times> nat list) list" | ServerFailure

definition store_failure :: "store_error \<Rightarrow> upload_failure" where
  "store_failure e = (case e of EventConflict ps \<Rightarrow> ConflictFailure ps | NotReadBack \<Rightarrow> ServerFailure)"

definition counted :: "(string \<times> nat) list \<Rightarrow> string \<Rightarrow> nat" where
  "counted counts name = (case map_of counts name of None \<Rightarrow> 0 | Some n \<Rightarrow> n)"

fun lift_error :: "('e \<Rightarrow> 'f) \<Rightarrow> 'e + 'a \<Rightarrow> 'f + 'a" where
  "lift_error f (Inl e) = Inl (f e)"
| "lift_error f (Inr a) = Inr a"

definition upload_transaction ::
    "instant \<Rightarrow> db \<Rightarrow> string option \<Rightarrow> upload_v2_request \<Rightarrow> upload_failure + (string \<times> nat) list \<times> db" where
  "upload_transaction now db authorization r =
     bind_result (lift_error HttpFailure (authenticate now db authorization None)) (\<lambda>(token, db).
     bind_result (lift_error HttpFailure (require_ingest_key db token (up_key_id r))) (\<lambda>_.
     bind_result (lift_error store_failure (store_events (tr_customer_id token) (tr_branch_id token) r (db_events db))) (\<lambda>(counts, events).
       let db = db\<lparr>db_events := events\<rparr>;
           inserted = sum_list (List.map (\<lambda>kind. counted counts (kind @ ''_inserted'')) kinds)
       in Inr (counts, if inserted > 0 then snd (mark_branch_ready now db token) else db))))"

definition upload_v2 :: "server_settings \<Rightarrow> instant \<Rightarrow> string option \<Rightarrow> json option \<Rightarrow> db \<Rightarrow> reply \<times> db" where
  "upload_v2 sv now authorization body db =
     (if \<not> sv_v2_ingest_enabled sv then (http_error 404, db)
      else case (case body of None \<Rightarrow> Refused | Some j \<Rightarrow> parse_upload now j) of
        Raised \<Rightarrow> (http_error 500, db)
      | Refused \<Rightarrow> ((422, Some (JObj (sv_validation_body sv body))), db)
      | Accepted r \<Rightarrow>
          if \<not> sv_within_rate_limit sv then (http_error 429, db)
          else if up_checkins r = [] \<and> up_rejects r = [] \<and> up_acs_items r = [] then (http_error 400, db)
          else (case upload_transaction now db authorization r of
                  Inl (HttpFailure code) \<Rightarrow> (http_error code, db)
                | Inl (ConflictFailure ps) \<Rightarrow>
                    ((409, Some (JObj [(''code'', JStr ''event_conflict''),
                        (''detail'', JStr ''An event identity arrived with different content; nothing was stored''),
                        (''conflicts'', JObj (List.map (\<lambda>(label, is). (label, JArr (List.map (\<lambda>i. JInt (int i)) is))) ps))])), db)
                | Inl ServerFailure \<Rightarrow> (http_error 500, db)
                | Inr (counts, db') \<Rightarrow>
                    ((200, Some (JObj ([(''status'', JStr ''success''), (''contract_version'', JInt 2)]
                        @ List.map (\<lambda>(name, n). (name, JInt (int n))) counts))), db')))"

definition status_transaction :: "instant \<Rightarrow> db \<Rightarrow> string option \<Rightarrow> status_v2_request \<Rightarrow> int + db" where
  "status_transaction now db authorization q =
     bind_result (authenticate now db authorization None) (\<lambda>(token, db).
     bind_result (require_ingest_key db token (sq_key_id q)) (\<lambda>_.
       let (stored, db) = record_heartbeat now db (tr_customer_id token) (tr_branch_id token) q in
       if \<not> stored then Inl 403
       else case tr_installation_id token of
           None \<Rightarrow> Inr db
         | Some i \<Rightarrow> record_installation_heartbeat now db token i None))"

definition status_v2 :: "server_settings \<Rightarrow> instant \<Rightarrow> string option \<Rightarrow> json option \<Rightarrow> db \<Rightarrow> reply \<times> db" where
  "status_v2 sv now authorization body db =
     (if \<not> sv_v2_ingest_enabled sv then (http_error 404, db)
      else case (case body of None \<Rightarrow> Refused | Some j \<Rightarrow> parse_status now j) of
        Raised \<Rightarrow> (http_error 500, db)
      | Refused \<Rightarrow> ((422, Some (JObj (sv_validation_body sv body))), db)
      | Accepted q \<Rightarrow>
          if \<not> sv_within_rate_limit sv then (http_error 429, db)
          else (case status_transaction now db authorization q of
                  Inl code \<Rightarrow> (http_error code, db)
                | Inr db' \<Rightarrow> ((200, Some (JObj [(''status'', JStr ''success''), (''contract_version'', JInt 2)])), db')))"

section \<open>Lemmas\<close>

definition usable :: "token_row \<Rightarrow> bool" where
  "usable r \<longleftrightarrow> tr_is_active r \<and> (\<exists>os. tr_organization_status r = Some os \<and> os \<in> set allowed_organization_statuses)
     \<and> tr_branch_status r = Some allowed_branch_status
     \<and> (case tr_installation_id r of None \<Rightarrow> True
        | Some i \<Rightarrow> (\<exists>st. tr_installation_status r = Some st \<and> st \<in> set installation_heartbeat_statuses)
            \<and> tr_installation_organization_id r = tr_resolved_organization_id r \<and> tr_installation_branch_id r = tr_resolved_branch_id r)"

lemma tenant_usable: "tenant_unusable_reason r = None \<longleftrightarrow>
    (\<exists>os. tr_organization_status r = Some os \<and> os \<in> set allowed_organization_statuses) \<and> tr_branch_status r = Some allowed_branch_status"
  by (auto simp: tenant_unusable_reason_def split: option.splits)

lemma installation_usable: "bound_installation_unusable_reason r = None \<longleftrightarrow> (case tr_installation_id r of None \<Rightarrow> True
        | Some i \<Rightarrow> (\<exists>st. tr_installation_status r = Some st \<and> st \<in> set installation_heartbeat_statuses)
            \<and> tr_installation_organization_id r = tr_resolved_organization_id r \<and> tr_installation_branch_id r = tr_resolved_branch_id r)"
  by (auto simp: bound_installation_unusable_reason_def split: option.splits if_splits)

lemma usable_iff: "usable r \<longleftrightarrow> tr_is_active r \<and> tenant_unusable_reason r = None \<and> bound_installation_unusable_reason r = None"
  unfolding usable_def tenant_usable installation_usable by blast

lemma authenticate_Inr: "authenticate now db authorization scope = Inr (r, db') \<longleftrightarrow>
    (\<exists>token. get_bearer_token authorization = Inr token \<and> token_lookup db token = Some r \<and> usable r
      \<and> (scope = None \<or> scope = Some (tr_customer_id r, tr_branch_id r))
      \<and> db' = db\<lparr>db_tokens := snd (update_where (\<lambda>t. at_id t = tr_id r) (\<lambda>t. t\<lparr>at_last_used_at := Some now\<rparr>) (db_tokens db))\<rparr>)"
proof (cases "get_bearer_token authorization")
  case (Inr token)
  show ?thesis
  proof (cases "token_lookup db token")
    case (Some x)
    have "authenticate now db authorization scope = Inr (r, db') \<longleftrightarrow> x = r \<and> usable x
        \<and> (scope = None \<or> scope = Some (tr_customer_id x, tr_branch_id x))
        \<and> db' = db\<lparr>db_tokens := snd (update_where (\<lambda>t. at_id t = tr_id x) (\<lambda>t. t\<lparr>at_last_used_at := Some now\<rparr>) (db_tokens db))\<rparr>"
      by (cases scope) (auto simp: authenticate_def Inr Some usable_iff)
    then show ?thesis by (auto simp: Inr Some)
  qed (simp add: authenticate_def Inr)
qed (simp add: authenticate_def)

lemma get_bearer_token_Inl: "get_bearer_token authorization = Inl code \<Longrightarrow> code = 401"
  by (simp add: get_bearer_token_def Let_def split: option.splits if_splits)

lemma authenticate_Inl:
  assumes "authenticate now db authorization scope = Inl code"
  shows "code = 401 \<or> code = 403"
proof (cases "get_bearer_token authorization")
  case (Inl c)
  with assms get_bearer_token_Inl [OF Inl] show ?thesis by (simp add: authenticate_def)
next
  case (Inr token)
  with assms show ?thesis by (simp add: authenticate_def split: option.splits if_splits)
qed

lemma lift_error_Inl: "lift_error f r = Inl e \<longleftrightarrow> (\<exists>d. r = Inl d \<and> e = f d)"
  by (cases r) auto

lemma lift_error_Inr [simp]: "lift_error f r = Inr a \<longleftrightarrow> r = Inr a"
  by (cases r) auto

lemma require_ingest_key_Inr [simp]: "require_ingest_key db r key = Inr u \<longleftrightarrow>
    ingest_key_problem db (tr_customer_id r) (tr_branch_id r) key (tr_installation_id r) = None"
  by (simp add: require_ingest_key_def split: option.splits)

lemma ingest_key_frame: "db_keys db' = db_keys db \<Longrightarrow> ingest_key_problem db' c b k t = ingest_key_problem db c b k t"
  by (simp add: ingest_key_problem_def)

text \<open>What an upload may do to a branch: nothing, or make the token's own pending branch ready.\<close>

definition branch_step :: "instant \<Rightarrow> token_row \<Rightarrow> branch \<Rightarrow> branch \<Rightarrow> bool" where
  "branch_step now r b b' \<longleftrightarrow> b' = b \<or> (Some (br_id b) = tr_resolved_branch_id r \<and> Some (br_organization_id b) = tr_resolved_organization_id r
     \<and> br_operational_branch_id b = Some (tr_branch_id r) \<and> br_status b = ''active'' \<and> br_onboarding_status b = ''pending''
     \<and> b' = b\<lparr>br_onboarding_status := ''ready'', br_onboarding_message := None, br_onboarding_updated_at := Some now\<rparr>)"

lemma mark_branch_ready_steps: "list_all2 (branch_step now r) (db_branches db) (db_branches (snd (mark_branch_ready now db r)))"
proof -
  have "list_all2 (branch_step now r) bs (List.map (\<lambda>b. if Some (br_id b) = tr_resolved_branch_id r
      \<and> Some (br_organization_id b) = tr_resolved_organization_id r
      \<and> br_operational_branch_id b = Some (tr_branch_id r) \<and> br_status b = ''active'' \<and> br_onboarding_status b = ''pending''
      then b\<lparr>br_onboarding_status := ''ready'', br_onboarding_message := None, br_onboarding_updated_at := Some now\<rparr> else b) bs)" for bs
    by (induction bs) (auto simp: branch_step_def)
  then show ?thesis by (simp add: mark_branch_ready_def update_where_def)
qed

lemma branch_step_refl: "list_all2 (branch_step now r) bs bs"
  by (simp add: branch_step_def list_all2_same)

lemma mark_branch_ready_frame:
  "db_events (snd (mark_branch_ready now db r)) = db_events db" "db_keys (snd (mark_branch_ready now db r)) = db_keys db"
  "db_organizations (snd (mark_branch_ready now db r)) = db_organizations db" "db_cutovers (snd (mark_branch_ready now db r)) = db_cutovers db"
  "db_installations (snd (mark_branch_ready now db r)) = db_installations db"
  by (simp_all add: mark_branch_ready_def update_where_def)

definition same_registry :: "db \<Rightarrow> db \<Rightarrow> bool" where
  "same_registry db db' \<longleftrightarrow> db_keys db' = db_keys db \<and> db_organizations db' = db_organizations db
     \<and> db_cutovers db' = db_cutovers db \<and> db_installations db' = db_installations db"

lemma upload_transaction_Inr:
  assumes "upload_transaction now db authorization r = Inr (counts, db')"
  obtains bearer token new where "get_bearer_token authorization = Inr bearer" "token_lookup db bearer = Some token" "usable token"
    "ingest_key_problem db (tr_customer_id token) (tr_branch_id token) (up_key_id r) (tr_installation_id token) = None"
    "store_events (tr_customer_id token) (tr_branch_id token) r (db_events db) = Inr (counts, db_events db')"
    "same_registry db db'" "list_all2 (branch_step now token) (db_branches db) (db_branches db')"
proof -
  from assms obtain token db1 events where a: "authenticate now db authorization None = Inr (token, db1)"
      "ingest_key_problem db1 (tr_customer_id token) (tr_branch_id token) (up_key_id r) (tr_installation_id token) = None"
      "store_events (tr_customer_id token) (tr_branch_id token) r (db_events db1) = Inr (counts, events)"
    and d: "db' = (if sum_list (List.map (\<lambda>kind. counted counts (kind @ ''_inserted'')) kinds) > 0
        then snd (mark_branch_ready now (db1\<lparr>db_events := events\<rparr>) token) else db1\<lparr>db_events := events\<rparr>)"
    by (auto simp: upload_transaction_def Let_def)
  from a(1) obtain bearer where b: "get_bearer_token authorization = Inr bearer" "token_lookup db bearer = Some token" "usable token"
      and d1: "db_keys db1 = db_keys db" "db_events db1 = db_events db" "db_branches db1 = db_branches db"
      "db_organizations db1 = db_organizations db" "db_cutovers db1 = db_cutovers db" "db_installations db1 = db_installations db"
    by (auto simp: authenticate_Inr)
  have "db_events db' = events" by (simp add: d mark_branch_ready_frame)
  moreover have "same_registry db db'" by (simp add: same_registry_def d mark_branch_ready_frame d1)
  moreover have "list_all2 (branch_step now token) (db_branches db) (db_branches db')"
    using mark_branch_ready_steps [of now token "db1\<lparr>db_events := events\<rparr>"] branch_step_refl by (simp add: d d1)
  ultimately show thesis using that b a(2,3) by (simp add: ingest_key_frame [OF d1(1)] d1(2))
qed

lemma upload_transaction_code:
  assumes "upload_transaction now db authorization r = Inl (HttpFailure code)"
  shows "code = 401 \<or> code = 403"
proof -
  have s: "HttpFailure code \<noteq> store_failure e" for e by (cases e) (simp_all add: store_failure_def)
  with assms consider "authenticate now db authorization None = Inl code"
    | token db1 where "require_ingest_key db1 token (up_key_id r) = Inl code"
    by (auto simp: upload_transaction_def bind_result_Inl lift_error_Inl Let_def s)
  then show ?thesis
  proof cases
    case 1
    then show ?thesis by (rule authenticate_Inl)
  next
    case 2
    then show ?thesis by (simp add: require_ingest_key_def split: option.splits)
  qed
qed

lemma upload_v2_cases:
  obtains (ok) j r counts db' where "body = Some j" "parse_upload now j = Accepted r" "upload_transaction now db authorization r = Inr (counts, db')"
      "\<exists>b. upload_v2 sv now authorization body db = ((200, b), db')"
    | (other) "fst (fst (upload_v2 sv now authorization body db)) \<noteq> 200" "snd (upload_v2 sv now authorization body db) = db"
proof (cases "sv_v2_ingest_enabled sv")
  case False
  then show ?thesis by (intro other) (simp_all add: upload_v2_def http_error_def)
next
  case enabled: True
  show ?thesis
  proof (cases "case body of None \<Rightarrow> Refused | Some j \<Rightarrow> parse_upload now j")
    case Refused
    then show ?thesis using enabled by (intro other) (simp_all add: upload_v2_def http_error_def)
  next
    case Raised
    then show ?thesis using enabled by (intro other) (simp_all add: upload_v2_def http_error_def)
  next
    case (Accepted r)
    then obtain j where j: "body = Some j" "parse_upload now j = Accepted r" by (cases body) simp_all
    show ?thesis
    proof (cases "\<not> sv_within_rate_limit sv \<or> up_checkins r = [] \<and> up_rejects r = [] \<and> up_acs_items r = []")
      case True
      then show ?thesis using enabled j by (intro other) (auto simp: upload_v2_def http_error_def)
    next
      case lim: False
      show ?thesis
      proof (cases "upload_transaction now db authorization r")
        case (Inr p)
        then obtain counts db' where "upload_transaction now db authorization r = Inr (counts, db')" by (cases p) simp
        then show ?thesis using enabled j lim by (intro ok) (auto simp: upload_v2_def)
      next
        case (Inl e)
        have "c \<noteq> 200" if "e = HttpFailure c" for c using upload_transaction_code Inl that by fastforce
        then show ?thesis using enabled j lim Inl by (intro other; cases e) (auto simp: upload_v2_def http_error_def)
      qed
    qed
  qed
qed

section \<open>The properties of the endpoints\<close>

text \<open>C24. An upload changes the database only when it answers 200, and then: the request was valid, its token active and its tenant,
  branch and bound installation usable, its key registered, active and of that very tenant; the events are all stored, appended as rows
  of that tenant and key only; and nothing else changes but the token's own branch becoming ready and the time the token was used.\<close>

theorem upload_effect:
  "case upload_v2 sv now authorization body db of (reply, db') \<Rightarrow>
     if fst reply = 200
     then \<exists>j r bearer token new. body = Some j \<and> parse_upload now j = Accepted r
       \<and> get_bearer_token authorization = Inr bearer \<and> token_lookup db bearer = Some token \<and> usable token
       \<and> ingest_key_problem db (tr_customer_id token) (tr_branch_id token) (up_key_id r) (tr_installation_id token) = None
       \<and> db_events db' = db_events db @ new \<and> added_rows (tr_customer_id token) (tr_branch_id token) r new
       \<and> all_stored (tr_customer_id token) (tr_branch_id token) r (db_events db')
       \<and> same_registry db db' \<and> list_all2 (branch_step now token) (db_branches db) (db_branches db')
     else db' = db"
proof -
  show ?thesis
  proof (rule upload_v2_cases [of body now db authorization sv])
    fix j r counts db'
    assume ok: "body = Some j" "parse_upload now j = Accepted r" "upload_transaction now db authorization r = Inr (counts, db')"
      "\<exists>b. upload_v2 sv now authorization body db = ((200, b), db')"
    obtain bearer token where t: "get_bearer_token authorization = Inr bearer" "token_lookup db bearer = Some token" "usable token"
      "ingest_key_problem db (tr_customer_id token) (tr_branch_id token) (up_key_id r) (tr_installation_id token) = None"
      "store_events (tr_customer_id token) (tr_branch_id token) r (db_events db) = Inr (counts, db_events db')"
      "same_registry db db'" "list_all2 (branch_step now token) (db_branches db) (db_branches db')"
      by (rule upload_transaction_Inr [OF ok(3)])
    have "(\<exists>new. db_events db' = db_events db @ new \<and> added_rows (tr_customer_id token) (tr_branch_id token) r new)
        \<and> all_stored (tr_customer_id token) (tr_branch_id token) r (db_events db')"
      using store_events_stored [OF t(5)] .
    with ok t show ?thesis by auto
  next
    assume other: "fst (fst (upload_v2 sv now authorization body db)) \<noteq> 200" "snd (upload_v2 sv now authorization body db) = db"
    then show ?thesis by (cases "upload_v2 sv now authorization body db") auto
  qed
qed

text \<open>What a heartbeat may do to a key and to an installation.\<close>

definition key_step :: "instant \<Rightarrow> token_row \<Rightarrow> status_v2_request \<Rightarrow> ingest_key \<Rightarrow> ingest_key \<Rightarrow> bool" where
  "key_step now r q k k' \<longleftrightarrow>
     (if ik_key_id k = sq_key_id q \<and> of_tenant (tr_customer_id r) (tr_branch_id r) k \<and> ik_status k = ''active''
      then k' = k\<lparr>ik_heartbeat := Some (heartbeat_of now q)\<rparr> else k' = k)"

definition installation_step :: "instant \<Rightarrow> token_row \<Rightarrow> installation \<Rightarrow> installation \<Rightarrow> bool" where
  "installation_step now r x x' \<longleftrightarrow>
     (if Some (in_id x) = tr_installation_id r \<and> in_status x \<in> set installation_heartbeat_statuses
      then x' = x\<lparr>in_status := ''active'', in_installed_at := (case in_installed_at x of None \<Rightarrow> Some now | Some t \<Rightarrow> Some t),
             in_last_seen_at := Some now, in_updated_at := Some now\<rparr>
      else x' = x)"

lemma list_all2_map_self: "(\<And>x. x \<in> set xs \<Longrightarrow> P x (f x)) \<Longrightarrow> list_all2 P xs (List.map f xs)"
  by (induction xs) auto

lemma record_heartbeat_steps:
  assumes "record_heartbeat now db (tr_customer_id r) (tr_branch_id r) q = (stored, db')"
  shows "list_all2 (key_step now r q) (db_keys db) (db_keys db') \<and> db' = db\<lparr>db_keys := db_keys db'\<rparr>"
proof -
  let ?f = "\<lambda>k. if ik_key_id k = sq_key_id q \<and> of_tenant (tr_customer_id r) (tr_branch_id r) k \<and> ik_status k = ''active''
    then k\<lparr>ik_heartbeat := Some (heartbeat_of now q)\<rparr> else k"
  have "db' = db\<lparr>db_keys := List.map ?f (db_keys db)\<rparr>" using assms by (auto simp: record_heartbeat_def update_where_def)
  moreover have "key_step now r q k (?f k)" for k by (simp add: key_step_def)
  ultimately show ?thesis by (simp add: list_all2_map_self)
qed

lemma installation_steps:
  assumes "record_installation_heartbeat now db r i None = Inr db'" "tr_installation_id r = Some i"
  shows "list_all2 (installation_step now r) (db_installations db) (db_installations db') \<and> db' = db\<lparr>db_installations := db_installations db'\<rparr>"
proof -
  let ?f = "\<lambda>y. if in_id y = i \<and> in_status y \<in> set installation_heartbeat_statuses
    then y\<lparr>in_status := ''active'', in_installed_at := (case in_installed_at y of None \<Rightarrow> Some now | Some t \<Rightarrow> Some t),
           in_last_seen_at := Some now, in_updated_at := Some now\<rparr> else y"
  from assms(1) have "db' = db\<lparr>db_installations := List.map ?f (db_installations db)\<rparr>"
    by (auto simp: record_installation_heartbeat_def update_where_def Let_def py_strip_def split: option.splits if_splits)
  moreover have "installation_step now r x (?f x)" for x using assms(2) by (simp add: installation_step_def)
  ultimately show ?thesis by (simp add: list_all2_map_self)
qed

lemma record_installation_heartbeat_Inl: "record_installation_heartbeat now db r i v = Inl code \<Longrightarrow> code = 403"
  by (simp add: record_installation_heartbeat_def Let_def split: option.splits if_splits prod.splits)

lemma status_transaction_code:
  assumes "status_transaction now db authorization q = Inl code"
  shows "code = 401 \<or> code = 403"
proof (cases "authenticate now db authorization None")
  case (Inl c)
  with assms show ?thesis by (simp add: status_transaction_def authenticate_Inl)
next
  case (Inr p)
  obtain token db1 where p: "p = (token, db1)" by fastforce
  show ?thesis
  proof (cases "require_ingest_key db1 token (sq_key_id q)")
    case (Inl c)
    then have "c = 403" by (simp add: require_ingest_key_def split: option.splits)
    with assms show ?thesis by (simp add: status_transaction_def Inr p Inl)
  next
    case key: (Inr u)
    obtain stored db2 where h: "record_heartbeat now db1 (tr_customer_id token) (tr_branch_id token) q = (stored, db2)" by fastforce
    from assms have "(if \<not> stored then Inl 403 else case tr_installation_id token of None \<Rightarrow> Inr db2
        | Some i \<Rightarrow> record_installation_heartbeat now db2 token i None) = Inl code"
      by (simp only: status_transaction_def Inr p key h bind_result.simps prod.case Let_def)
    then show ?thesis by (auto dest: record_installation_heartbeat_Inl split: if_splits option.splits)
  qed
qed

lemma status_transaction_Inr:
  assumes "status_transaction now db authorization q = Inr db'"
  obtains bearer token where "get_bearer_token authorization = Inr bearer" "token_lookup db bearer = Some token" "usable token"
    "ingest_key_problem db (tr_customer_id token) (tr_branch_id token) (sq_key_id q) (tr_installation_id token) = None"
    "list_all2 (key_step now token q) (db_keys db) (db_keys db')"
    "list_all2 (installation_step now token) (db_installations db) (db_installations db')"
    "db_events db' = db_events db" "db_branches db' = db_branches db" "db_organizations db' = db_organizations db"
    "db_cutovers db' = db_cutovers db"
proof -
  from assms obtain token db1 where a: "authenticate now db authorization None = Inr (token, db1)"
      "ingest_key_problem db1 (tr_customer_id token) (tr_branch_id token) (sq_key_id q) (tr_installation_id token) = None"
    and s: "(let (stored, db) = record_heartbeat now db1 (tr_customer_id token) (tr_branch_id token) q in
       if \<not> stored then Inl 403
       else case tr_installation_id token of None \<Rightarrow> Inr db | Some i \<Rightarrow> record_installation_heartbeat now db token i None) = Inr db'"
    unfolding status_transaction_def bind_result_Inr by fastforce
  obtain stored db2 where k: "record_heartbeat now db1 (tr_customer_id token) (tr_branch_id token) q = (stored, db2)" by fastforce
  from s have d: "(case tr_installation_id token of None \<Rightarrow> Inr db2 | Some i \<Rightarrow> record_installation_heartbeat now db2 token i None) = Inr db'"
    by (simp add: k split: if_splits)
  from a(1) obtain bearer where b: "get_bearer_token authorization = Inr bearer" "token_lookup db bearer = Some token" "usable token"
      and d1: "db_keys db1 = db_keys db" "db_events db1 = db_events db" "db_branches db1 = db_branches db"
      "db_organizations db1 = db_organizations db" "db_cutovers db1 = db_cutovers db" "db_installations db1 = db_installations db"
    by (auto simp: authenticate_Inr)
  note k = record_heartbeat_steps [OF k]
  obtain rows where r: "db' = db2\<lparr>db_installations := rows\<rparr>" "list_all2 (installation_step now token) (db_installations db2) rows"
  proof (cases "tr_installation_id token")
    case None
    with d have "db' = db2\<lparr>db_installations := db_installations db2\<rparr>" by simp
    moreover have "list_all2 (installation_step now token) (db_installations db2) (db_installations db2)"
      by (simp add: list_all2_same installation_step_def None)
    ultimately show thesis by (rule that)
  next
    case (Some i)
    with d have "record_installation_heartbeat now db2 token i None = Inr db'" by simp
    from installation_steps [OF this Some] show thesis using that by blast
  qed
  obtain keys where d2: "db2 = db1\<lparr>db_keys := keys\<rparr>" using k by blast
  show thesis
    by (rule that [OF b]) (use a(2) k r in \<open>simp_all add: ingest_key_frame [OF d1(1)] d1 d2\<close>)
qed

lemma status_v2_cases:
  obtains (ok) j q db' where "body = Some j" "parse_status now j = Accepted q" "status_transaction now db authorization q = Inr db'"
      "\<exists>b. status_v2 sv now authorization body db = ((200, b), db')"
    | (other) "fst (fst (status_v2 sv now authorization body db)) \<noteq> 200" "snd (status_v2 sv now authorization body db) = db"
proof (cases "sv_v2_ingest_enabled sv")
  case False
  then show ?thesis by (intro other) (simp_all add: status_v2_def http_error_def)
next
  case enabled: True
  show ?thesis
  proof (cases "case body of None \<Rightarrow> Refused | Some j \<Rightarrow> parse_status now j")
    case Refused
    then show ?thesis using enabled by (intro other) (simp_all add: status_v2_def http_error_def)
  next
    case Raised
    then show ?thesis using enabled by (intro other) (simp_all add: status_v2_def http_error_def)
  next
    case (Accepted q)
    then obtain j where j: "body = Some j" "parse_status now j = Accepted q" by (cases body) simp_all
    show ?thesis
    proof (cases "sv_within_rate_limit sv")
      case False
      then show ?thesis using enabled j by (intro other) (simp_all add: status_v2_def http_error_def)
    next
      case lim: True
      show ?thesis
      proof (cases "status_transaction now db authorization q")
        case (Inr db')
        then show ?thesis using enabled j lim by (intro ok) (simp_all add: status_v2_def)
      next
        case (Inl c)
        have "c \<noteq> 200" using status_transaction_code [OF Inl] by auto
        then show ?thesis using enabled j lim Inl by (intro other) (simp_all add: status_v2_def http_error_def)
      qed
    qed
  qed
qed

text \<open>C25. A heartbeat changes the database only when it answers 200, and then: its token, tenant, branch and bound installation were
  usable and its key active and the tenant's own; that key alone carries the new snapshot; the token's own installation, if it has one,
  is active and seen now, keeping the moment it was first installed, while a retired or inactive one is never revived; no event, branch,
  organization or cutover changes.\<close>

theorem heartbeat_effect:
  "case status_v2 sv now authorization body db of (reply, db') \<Rightarrow>
     if fst reply = 200
     then \<exists>j q bearer token. body = Some j \<and> parse_status now j = Accepted q
       \<and> get_bearer_token authorization = Inr bearer \<and> token_lookup db bearer = Some token \<and> usable token
       \<and> ingest_key_problem db (tr_customer_id token) (tr_branch_id token) (sq_key_id q) (tr_installation_id token) = None
       \<and> list_all2 (key_step now token q) (db_keys db) (db_keys db')
       \<and> list_all2 (installation_step now token) (db_installations db) (db_installations db')
       \<and> db_events db' = db_events db \<and> db_branches db' = db_branches db \<and> db_organizations db' = db_organizations db
       \<and> db_cutovers db' = db_cutovers db
     else db' = db"
proof -
  show ?thesis
  proof (rule status_v2_cases [of body now db authorization sv])
    fix j q db'
    assume ok: "body = Some j" "parse_status now j = Accepted q" "status_transaction now db authorization q = Inr db'"
      "\<exists>b. status_v2 sv now authorization body db = ((200, b), db')"
    obtain bearer token where t: "get_bearer_token authorization = Inr bearer" "token_lookup db bearer = Some token" "usable token"
      "ingest_key_problem db (tr_customer_id token) (tr_branch_id token) (sq_key_id q) (tr_installation_id token) = None"
      "list_all2 (key_step now token q) (db_keys db) (db_keys db')"
      "list_all2 (installation_step now token) (db_installations db) (db_installations db')"
      "db_events db' = db_events db" "db_branches db' = db_branches db" "db_organizations db' = db_organizations db"
      "db_cutovers db' = db_cutovers db"
      by (rule status_transaction_Inr [OF ok(3)])
    with ok show ?thesis by auto
  next
    assume other: "fst (fst (status_v2 sv now authorization body db)) \<noteq> 200" "snd (status_v2 sv now authorization body db) = db"
    then show ?thesis by (cases "status_v2 sv now authorization body db") auto
  qed
qed

end
