(* ===== verification/IngestEndpoint.thy ===== *)
theory IngestEndpoint
  imports V2Delivery IngestApi
begin

text \<open>
  The collector's endpoint as the server provides it: a request reaches the handler of its URL at some
  instant, or is lost, or is handled and its answer lost. The interpretation of \<open>ingest_endpoint\<close> on it
  discharges what delivery relies on, so that a delivered chunk is stored by the server whatever the
  network does.
\<close>

section \<open>The server behind a network\<close>

datatype net_event = Served instant | RequestLost | AnswerLost instant

record server_world =
  sw_db :: db
  sw_net :: "net_event list"

definition ends_with :: "string \<Rightarrow> string \<Rightarrow> bool" where
  "ends_with sfx s \<longleftrightarrow> length sfx \<le> length s \<and> drop (length s - length sfx) s = sfx"

definition route :: "server_settings \<Rightarrow> instant \<Rightarrow> http_request \<Rightarrow> db \<Rightarrow> reply \<times> db" where
  "route sv now q db =
     (let authorization = map_of (rq_headers q) ''Authorization''; body = Some (JObj (rq_json q)) in
      if ends_with ''/v2/upload'' (rq_url q) then upload_v2 sv now authorization body db
      else if ends_with ''/v2/status'' (rq_url q) then status_v2 sv now authorization body db
      else (http_error 404, db))"

definition server_post :: "server_settings \<Rightarrow> http_request \<Rightarrow> server_world \<Rightarrow> http_answer \<times> server_world" where
  "server_post sv q w =
     (case sw_net w of
        [] \<Rightarrow> (RequestException, w)
      | RequestLost # rest \<Rightarrow> (RequestException, w\<lparr>sw_net := rest\<rparr>)
      | Served now # rest \<Rightarrow>
          (let (reply, db) = route sv now q (sw_db w) in (Response (fst reply) (snd reply), \<lparr>sw_db = db, sw_net = rest\<rparr>))
      | AnswerLost now # rest \<Rightarrow>
          (let (reply, db) = route sv now q (sw_db w) in (RequestException, \<lparr>sw_db = db, sw_net = rest\<rparr>)))"

section \<open>What is stored for a token\<close>

definition token_scope :: "db \<Rightarrow> string \<Rightarrow> (int \<times> int) option" where
  "token_scope db token = map_option (\<lambda>t. (at_customer_id t, at_branch_id t)) (find (\<lambda>t. at_token_hash t = token_hash token) (db_tokens db))"

definition kind_labelled :: "string \<Rightarrow> event_kind \<Rightarrow> bool" where
  "kind_labelled label kind \<longleftrightarrow> kind \<in> set event_kinds \<and> ek_label kind = label"

definition event_on_server :: "collector_config \<Rightarrow> server_world \<Rightarrow> string \<Rightarrow> safe_event \<Rightarrow> bool" where
  "event_on_server cfg w key e \<longleftrightarrow>
     (\<exists>bearer c b kind. get_bearer_token (Some (''Bearer '' @ cc_api_token cfg)) = Inr bearer \<and> token_scope (sw_db w) bearer = Some (c, b)
        \<and> kind_labelled (kind_of e) kind
        \<and> row_stored kind (kind_scope kind c b key) (db_events (sw_db w)) (event_row_of (on_server e)))"

section \<open>Lemmas\<close>

lemma token_lookup_scope: "token_lookup db bearer = Some token \<Longrightarrow> token_scope db bearer = Some (tr_customer_id token, tr_branch_id token)"
  by (auto simp: token_lookup_def token_scope_def Let_def split: option.splits)

lemma used_scope:
  assumes "db_tokens db' = snd (update_where (\<lambda>t. at_id t = i) (\<lambda>t. t\<lparr>at_last_used_at := u\<rparr>) (db_tokens db))"
  shows "token_scope db' bearer = token_scope db bearer"
proof -
  let ?f = "\<lambda>t. if at_id t = i then t\<lparr>at_last_used_at := u\<rparr> else t" and ?P = "\<lambda>t. at_token_hash t = token_hash bearer"
  have "db_tokens db' = List.map ?f (db_tokens db)" by (simp add: assms update_where_def)
  moreover have "find ?P (List.map ?f (db_tokens db)) = map_option ?f (find ?P (db_tokens db))" by (rule find_map_same) simp
  ultimately have "find ?P (db_tokens db') = map_option ?f (find ?P (db_tokens db))" by (simp only:)
  then show ?thesis unfolding token_scope_def by (cases "find ?P (db_tokens db)") simp_all
qed

lemma authenticate_scope: "authenticate now db authorization scope = Inr (token, db') \<Longrightarrow> token_scope db' bearer = token_scope db bearer"
  by (auto simp: authenticate_Inr intro!: used_scope)

lemma scope_cong: "db_tokens db' = db_tokens db \<Longrightarrow> token_scope db' bearer = token_scope db bearer"
  by (simp add: token_scope_def)

lemma mark_branch_ready_tokens: "db_tokens (snd (mark_branch_ready now db r)) = db_tokens db"
  by (simp add: mark_branch_ready_def update_where_def)

lemma upload_transaction_scope:
  assumes "upload_transaction now db authorization r = Inr (counts, db')"
  shows "token_scope db' bearer = token_scope db bearer"
proof -
  from assms obtain token db1 events where a: "authenticate now db authorization None = Inr (token, db1)"
    and d: "db' = (if sum_list (List.map (\<lambda>kind. counted counts (kind @ ''_inserted'')) kinds) > 0
        then snd (mark_branch_ready now (db1\<lparr>db_events := events\<rparr>) token) else db1\<lparr>db_events := events\<rparr>)"
    by (auto simp: upload_transaction_def Let_def)
  have "db_tokens db' = db_tokens db1" by (simp add: d mark_branch_ready_tokens)
  then show ?thesis using authenticate_scope [OF a] scope_cong by metis
qed

lemma record_installation_heartbeat_tokens: "record_installation_heartbeat now db r i v = Inr db' \<Longrightarrow> db_tokens db' = db_tokens db"
  by (auto simp: record_installation_heartbeat_def Let_def split: option.splits if_splits prod.splits)

lemma status_transaction_scope:
  assumes "status_transaction now db authorization q = Inr db'"
  shows "token_scope db' bearer = token_scope db bearer"
proof -
  from assms obtain token db1 where a: "authenticate now db authorization None = Inr (token, db1)"
    and s: "(let (stored, db) = record_heartbeat now db1 (tr_customer_id token) (tr_branch_id token) q in
       if \<not> stored then Inl 403
       else case tr_installation_id token of None \<Rightarrow> Inr db | Some i \<Rightarrow> record_installation_heartbeat now db token i None) = Inr db'"
    unfolding status_transaction_def bind_result_Inr by fastforce
  obtain stored db2 where k: "record_heartbeat now db1 (tr_customer_id token) (tr_branch_id token) q = (stored, db2)" by fastforce
  then have "db_tokens db2 = db_tokens db1" by (auto simp: record_heartbeat_def update_where_def)
  moreover from s k have "db_tokens db' = db_tokens db2"
    by (auto simp: record_installation_heartbeat_tokens split: if_splits option.splits)
  ultimately show ?thesis using authenticate_scope [OF a] scope_cong by metis
qed

lemma upload_transaction_stores:
  assumes "upload_transaction now db authorization r = Inr (counts, db')"
  shows "\<exists>bearer token. get_bearer_token authorization = Inr bearer \<and> token_lookup db bearer = Some token
    \<and> store_events (tr_customer_id token) (tr_branch_id token) r (db_events db) = Inr (counts, db_events db')"
  by (rule upload_transaction_Inr [OF assms]) blast

text \<open>Whatever request is handled, events stay and tokens keep their scope.\<close>

lemma route_keeps:
  assumes "route sv now q db = (reply, db')"
  shows "(\<exists>new. db_events db' = db_events db @ new) \<and> token_scope db' bearer = token_scope db bearer"
proof -
  have upload: "(\<exists>new. db_events (snd (upload_v2 sv now authorization body db)) = db_events db @ new)
      \<and> token_scope (snd (upload_v2 sv now authorization body db)) bearer = token_scope db bearer" for authorization body
  proof (rule upload_v2_cases [of body now db authorization sv])
    fix j r counts db'
    assume t: "upload_transaction now db authorization r = Inr (counts, db')" "\<exists>b. upload_v2 sv now authorization body db = ((200, b), db')"
    from upload_transaction_stores [OF t(1)] obtain token :: token_row where
      "store_events (tr_customer_id token) (tr_branch_id token) r (db_events db) = Inr (counts, db_events db')" by blast
    from store_events_stored [OF this] upload_transaction_scope [OF t(1)] t(2) show ?thesis by auto
  next
    assume "snd (upload_v2 sv now authorization body db) = db"
    then show ?thesis by simp
  qed
  have status: "(\<exists>new. db_events (snd (status_v2 sv now authorization body db)) = db_events db @ new)
      \<and> token_scope (snd (status_v2 sv now authorization body db)) bearer = token_scope db bearer" for authorization body
  proof (rule status_v2_cases [of body now db authorization sv])
    fix j q db'
    assume t: "status_transaction now db authorization q = Inr db'" "\<exists>b. status_v2 sv now authorization body db = ((200, b), db')"
    have "db_events db' = db_events db" by (rule status_transaction_Inr [OF t(1)])
    then show ?thesis using status_transaction_scope [OF t(1)] t(2) by auto
  next
    assume "snd (status_v2 sv now authorization body db) = db"
    then show ?thesis by simp
  qed
  have "db' = snd (route sv now q db)" using assms by simp
  then show ?thesis using upload status by (simp add: route_def Let_def)
qed

lemma server_post_keeps:
  assumes "server_post sv q w = (answer, w')"
  shows "(\<exists>new. db_events (sw_db w') = db_events (sw_db w) @ new) \<and> token_scope (sw_db w') bearer = token_scope (sw_db w) bearer"
  using assms route_keeps [of sv _ q "sw_db w"]
  by (auto simp: server_post_def split: list.splits net_event.splits prod.splits)

lemma kind_labelled_ex: "\<exists>kind. kind_labelled (kind_of e) kind"
  by (cases e) (auto simp: kind_labelled_def event_kinds_def conj_disj_distribR ex_disj_distrib)

lemma kind_of_on_server [simp]: "kind_of (on_server e) = kind_of e"
  by (cases e) (simp_all add: on_server_def)

lemma request_row:
  assumes "on_server e \<in> set (request_events r)" "kind_labelled (kind_of e) kind"
  shows "event_row_of (on_server e) \<in> set (request_rows kind r)"
proof -
  have "on_server e \<in> set (events_of_kind (kind_of e) r)"
    using assms(1) by (cases e) (auto simp: request_events_def events_of_kind_def on_server_def)
  with assms(2) show ?thesis by (simp add: request_rows_def kind_labelled_def)
qed

lemma ends_with_append: "ends_with sfx (s @ sfx)"
  by (simp add: ends_with_def)

section \<open>The interpretation\<close>

text \<open>An uploaded batch that was answered with 200 is stored under the token's tenant.\<close>

lemma server_delivered:
  assumes "batch_wf b" "\<forall>e \<in> set (batch_events b). client_event e"
    "server_post sv (upload_request cfg b) w = (Response 200 body, w')" "e \<in> set (batch_events b)"
  shows "event_on_server cfg w' (bt_key_id b) e"
proof -
  let ?auth = "Some (''Bearer '' @ cc_api_token cfg)"
  from assms(3) obtain now rest reply db' where n: "sw_net w = Served now # rest" "route sv now (upload_request cfg b) (sw_db w) = (reply, db')"
      "fst reply = 200" "w' = \<lparr>sw_db = db', sw_net = rest\<rparr>"
    by (auto simp: server_post_def split: list.splits net_event.splits prod.splits)
  have "route sv now (upload_request cfg b) (sw_db w) = upload_v2 sv now ?auth (Some (JObj (batch_payload b))) (sw_db w)"
    using ends_with_append [of "''/v2/upload''" "cc_api_url cfg"] by (simp add: route_def upload_request_def request_headers_def Let_def)
  with n(2) have u: "upload_v2 sv now ?auth (Some (JObj (batch_payload b))) (sw_db w) = (reply, db')" by simp
  show ?thesis
  proof (rule upload_v2_cases [of "Some (JObj (batch_payload b))" now "sw_db w" ?auth sv])
    fix j r counts db2
    assume a: "Some (JObj (batch_payload b)) = Some j" "parse_upload now j = Accepted r"
      "upload_transaction now (sw_db w) ?auth r = Inr (counts, db2)"
      "\<exists>body. upload_v2 sv now ?auth (Some (JObj (batch_payload b))) (sw_db w) = ((200, body), db2)"
    from a(4) u have db2: "db2 = db'" by auto
    have ev: "up_key_id r = bt_key_id b \<and> request_events r = List.map on_server (batch_events b)"
    proof (rule accepted_batch [OF assms(1) assms(2) [unfolded client_event_def]])
      have "j = JObj (batch_payload b)" using a(1) by (rule option.inject [THEN iffD1, symmetric])
      then show "parse_upload now (JObj (batch_payload b)) = Accepted r" using a(2) by (simp only:)
    qed
    from upload_transaction_stores [OF a(3)] obtain bearer token where t: "get_bearer_token ?auth = Inr bearer" "token_lookup (sw_db w) bearer = Some token"
      "store_events (tr_customer_id token) (tr_branch_id token) r (db_events (sw_db w)) = Inr (counts, db_events db2)" by blast
    have sc: "token_scope db' bearer = Some (tr_customer_id token, tr_branch_id token)"
      using upload_transaction_scope [OF a(3)] token_lookup_scope [OF t(2)] by (simp add: db2)
    obtain kind where k: "kind_labelled (kind_of e) kind" using kind_labelled_ex by blast
    have "on_server e \<in> set (request_events r)" using ev assms(4) by simp
    then have row: "event_row_of (on_server e) \<in> set (request_rows kind r)" by (rule request_row [OF _ k])
    have "all_stored (tr_customer_id token) (tr_branch_id token) r (db_events db')"
      using store_events_stored [OF t(3)] by (simp add: db2)
    with row k have "row_stored kind (request_scope (tr_customer_id token) (tr_branch_id token) r kind) (db_events db') (event_row_of (on_server e))"
      by (simp add: all_stored_def kind_labelled_def)
    then show ?thesis using t(1) sc k ev unfolding event_on_server_def request_scope_def n(4) by auto
  next
    assume "fst (fst (upload_v2 sv now ?auth (Some (JObj (batch_payload b))) (sw_db w))) \<noteq> 200"
    with u n(3) show ?thesis by simp
  qed
qed

lemma server_kept: "event_on_server cfg w k e \<Longrightarrow> event_on_server cfg (snd (server_post sv q w)) k e"
proof -
  obtain answer w' where p: "server_post sv q w = (answer, w')" by fastforce
  assume "event_on_server cfg w k e"
  then obtain bearer c b kind where h: "get_bearer_token (Some (''Bearer '' @ cc_api_token cfg)) = Inr bearer"
      "token_scope (sw_db w) bearer = Some (c, b)" "kind_labelled (kind_of e) kind"
      "row_stored kind (kind_scope kind c b k) (db_events (sw_db w)) (event_row_of (on_server e))"
    unfolding event_on_server_def by blast
  from server_post_keeps [OF p, of bearer] obtain new where "db_events (sw_db w') = db_events (sw_db w) @ new"
      "token_scope (sw_db w') bearer = token_scope (sw_db w) bearer" by blast
  with h row_stored_append have "event_on_server cfg w' k e" unfolding event_on_server_def by metis
  then show ?thesis by (simp add: p)
qed

interpretation server: ingest_endpoint "server_post sv" "event_on_server cfg" cfg
  by unfold_locales (rule server_delivered, assumption+, rule server_kept)

section \<open>The property of delivery\<close>


definition sample_settings :: server_settings where
  "sample_settings = \<lparr>sv_v2_ingest_enabled = True, sv_within_rate_limit = True, sv_validation_body = (\<lambda>_. [])\<rparr>"

definition sample_delivery :: "server_world delivery" where
  "sample_delivery = \<lparr>dl_post = server_post sample_settings,
     dl_config = \<lparr>cc_api_url = ''https://example.org'', cc_api_token = ''token'', cc_http_connect_timeout = 5, cc_http_read_timeout = 30\<rparr>,
     dl_key_id = sample_key_id, dl_max_events = 1000, dl_today = ''2024-05-02''\<rparr>"

definition sample_delivery_state :: "net_event list \<Rightarrow> server_world dstate" where
  "sample_delivery_state net = \<lparr>ds_world = \<lparr>sw_db = sample_db, sw_net = net\<rparr>, ds_quarantine = sample_quarantine, ds_totals = new_totals\<rparr>"

lemma sample_client_event: "client_event (sample_event (CHR ''a''))"
  using sample_sendable(1) by (simp add: client_event_def sendable_def)


end
