(* ===== verification/V2Reader.thy ===== *)
theory V2Reader
  imports V2Events
begin

text \<open>
  collector/reader.py and collector/v2_reader.py: incremental reading of whole lines by byte offset. A
  file is seen through what each system call of one read returned (\<open>file_view\<close>: \<open>None\<close> is an
  \<open>OSError\<close>), so that it may vanish or grow in between. Bytes become text one for one (ASCII). The
  lemmas show that what is read is exactly the complete lines from the cursor on, that successive
  chunks of a growing file neither lose nor repeat a line, when a file counts as the same, and that the
  two readers agree.
\<close>

section \<open>Files and cursors\<close>

record file_view =
  fv_identity :: "(int \<times> int) option"
  fv_size :: "nat option"
  fv_bytes :: "octets option"
  fv_size_after :: "nat option"

text \<open>A file nothing interferes with during the read.\<close>

definition still_file :: "int \<times> int \<Rightarrow> octets \<Rightarrow> file_view" where
  "still_file identity bytes = \<lparr>fv_identity = Some identity, fv_size = Some (length bytes), fv_bytes = Some bytes,
     fv_size_after = Some (length bytes)\<rparr>"

definition uint32 :: int where
  "uint32 = 2 ^ 32"

definition is_identity_token :: "int \<times> int \<Rightarrow> bool" where
  "is_identity_token token \<longleftrightarrow> 0 \<le> fst token \<and> 0 \<le> snd token"

definition same_file :: "bool \<Rightarrow> (int \<times> int) option \<Rightarrow> (int \<times> int) option \<Rightarrow> bool" where
  "same_file windows saved current =
     (case (saved, current) of
        (Some s, Some c) \<Rightarrow>
          if s = c then True
          else if \<not> windows \<or> \<not> (is_identity_token s \<and> is_identity_token c) then False
          else snd s = snd c \<and> fst s < uint32 \<and> uint32 \<le> fst c \<and> fst c mod uint32 = fst s
      | _ \<Rightarrow> False)"

section \<open>Reading complete lines\<close>

definition newline_byte :: "8 word" where
  "newline_byte = 10"

text \<open>\<open>readline\<close>: up to and including the next newline, or all that is left.\<close>

definition next_line :: "octets \<Rightarrow> octets" where
  "next_line bs = takeWhile (\<lambda>b. b \<noteq> newline_byte) bs @ take 1 (dropWhile (\<lambda>b. b \<noteq> newline_byte) bs)"

definition is_complete :: "octets \<Rightarrow> bool" where
  "is_complete raw \<longleftrightarrow> raw \<noteq> [] \<and> last raw = newline_byte"

text \<open>The bounded loop of \<open>read_chunk\<close> and the unbounded one of \<open>_read_complete_lines\<close>.\<close>

fun read_loop :: "nat \<Rightarrow> octets \<Rightarrow> octets list" where
  "read_loop 0 bs = []"
| "read_loop (Suc n) bs =
     (let raw = next_line bs in if is_complete raw then raw # read_loop n (drop (length raw) bs) else [])"

lemma next_line_shorter: "is_complete (next_line bs) \<Longrightarrow> length bs - length (next_line bs) < length bs"
  by (cases bs) (auto simp: is_complete_def next_line_def)

function read_all :: "octets \<Rightarrow> octets list" where
  "read_all bs = (let raw = next_line bs in if is_complete raw then raw # read_all (drop (length raw) bs) else [])"
  by pat_completeness auto

termination
  by (relation "measure length") (use next_line_shorter in auto)

declare read_all.simps [simp del]

definition decode_line :: "octets \<Rightarrow> string" where
  "decode_line raw =
     (let text = List.map (\<lambda>b. char_of (unat b)) raw in
      if suffix [CHR 0x0D, CHR 0x0A] text then take (length text - 2) text @ [CHR 0x0A] else text)"

text \<open>Where a read starts, whether the file rotated, whether it shrank; \<open>None\<close> when its size cannot be read.\<close>

definition start_point :: "bool \<Rightarrow> file_view \<Rightarrow> int \<times> int \<Rightarrow> cursor option \<Rightarrow> (nat \<times> bool \<times> bool) option" where
  "start_point windows view identity cursor =
     (case cursor of None \<Rightarrow> Some (0, False, False)
      | Some c \<Rightarrow>
          if cur_identity c = None then Some (0, False, False)
          else if \<not> same_file windows (cur_identity c) (Some identity) then Some (0, True, False)
          else (case fv_size view of None \<Rightarrow> None
                | Some len \<Rightarrow> if len < cur_offset c then Some (0, False, True) else Some (cur_offset c, False, False)))"

record chunk_read =
  cd_lines :: "string list"
  cd_cursor :: "cursor option"
  cd_existed :: bool
  cd_rotated :: bool
  cd_truncated :: bool
  cd_more :: bool

definition no_chunk :: "cursor option \<Rightarrow> chunk_read" where
  "no_chunk cursor = \<lparr>cd_lines = [], cd_cursor = cursor, cd_existed = False, cd_rotated = False, cd_truncated = False, cd_more = False\<rparr>"

definition read_chunk :: "bool \<Rightarrow> file_view \<Rightarrow> cursor option \<Rightarrow> nat \<Rightarrow> chunk_read" where
  "read_chunk windows view cursor max_lines =
     (case fv_identity view of None \<Rightarrow> no_chunk cursor
      | Some identity \<Rightarrow>
          (case start_point windows view identity cursor of None \<Rightarrow> no_chunk cursor
           | Some (start, rotated, truncated) \<Rightarrow>
               (case (fv_bytes view, fv_size_after view) of
                  (Some bytes, Some after) \<Rightarrow>
                    (let raws = read_loop max_lines (drop start bytes); safe = start + sum_list (List.map length raws) in
                     \<lparr>cd_lines = List.map decode_line raws,
                      cd_cursor = Some \<lparr>cur_identity = Some identity, cur_offset = safe\<rparr>, cd_existed = True,
                      cd_rotated = rotated, cd_truncated = truncated, cd_more = safe < after \<and> max_lines \<le> length raws\<rparr>)
                | _ \<Rightarrow> no_chunk cursor)))"

record read_result =
  rd_lines :: "string list"
  rd_cursor :: cursor
  rd_existed :: bool
  rd_rotated :: bool
  rd_truncated :: bool

definition read_new_lines :: "bool \<Rightarrow> file_view \<Rightarrow> cursor option \<Rightarrow> read_result" where
  "read_new_lines windows view cursor =
     (let failed = (\<lambda>c. \<lparr>rd_lines = [], rd_cursor = c, rd_existed = False, rd_rotated = False, rd_truncated = False\<rparr>) in
      case fv_identity view of
        None \<Rightarrow> failed (case cursor of None \<Rightarrow> \<lparr>cur_identity = None, cur_offset = 0\<rparr> | Some c \<Rightarrow> c)
      | Some identity \<Rightarrow>
          (let fallback = (case cursor of None \<Rightarrow> \<lparr>cur_identity = Some identity, cur_offset = 0\<rparr> | Some c \<Rightarrow> c) in
           case start_point windows view identity cursor of None \<Rightarrow> failed fallback
           | Some (start, rotated, truncated) \<Rightarrow>
               (case fv_bytes view of None \<Rightarrow> failed fallback
                | Some bytes \<Rightarrow>
                    (let raws = read_all (drop start bytes) in
                     \<lparr>rd_lines = List.map decode_line raws,
                      rd_cursor = \<lparr>cur_identity = Some identity, cur_offset = start + sum_list (List.map length raws)\<rparr>,
                      rd_existed = True, rd_rotated = rotated, rd_truncated = truncated\<rparr>))))"

text \<open>The dry run's tail: complete lines of the last \<open>tail_bytes\<close> octets, the first, possibly cut, line dropped.\<close>

definition read_tail :: "octets option \<Rightarrow> nat \<Rightarrow> string list" where
  "read_tail file tail_bytes =
     (case file of None \<Rightarrow> []
      | Some bytes \<Rightarrow>
          (let start = length bytes - tail_bytes; data = drop start bytes;
               data = (if start > 0 then drop 1 (dropWhile (\<lambda>b. b \<noteq> newline_byte) data) else data)
           in if newline_byte \<notin> set data then []
              else List.map (\<lambda>line. decode_line (line @ [newline_byte])) (butlast (split_on newline_byte data))))"

section \<open>What the loops read\<close>

lemma next_line_eq: "next_line (body @ newline_byte # rest) = body @ [newline_byte]" if "newline_byte \<notin> set body"
  using that by (simp add: next_line_def takeWhile_append dropWhile_append)

lemma next_line_complete: "is_complete (next_line bs) \<longleftrightarrow> newline_byte \<in> set bs"
proof (cases "newline_byte \<in> set bs")
  case True
  then obtain body rest where "bs = body @ newline_byte # rest" "newline_byte \<notin> set body"
    by (meson split_list_first)
  then show ?thesis by (simp add: next_line_eq is_complete_def)
next
  case False
  then have t: "takeWhile (\<lambda>b. b \<noteq> newline_byte) bs = bs" "dropWhile (\<lambda>b. b \<noteq> newline_byte) bs = []"
    by (auto simp: takeWhile_eq_all_conv dropWhile_eq_Nil_conv)
  have "next_line bs = bs" by (simp only: next_line_def t take_Nil append_Nil2)
  with False show ?thesis by (auto simp: is_complete_def dest: last_in_set)
qed

lemma read_all_line: "newline_byte \<notin> set body \<Longrightarrow> read_all (body @ newline_byte # rest) = (body @ [newline_byte]) # read_all rest"
  by (subst read_all.simps) (simp add: next_line_eq is_complete_def Let_def)

lemma read_all_none: "newline_byte \<notin> set bs \<Longrightarrow> read_all bs = []"
  by (subst read_all.simps) (simp add: next_line_complete Let_def)

lemma split_lines:
  obtains (none) "newline_byte \<notin> set bs"
  | (line) body rest where "bs = body @ newline_byte # rest" "newline_byte \<notin> set body" "length rest < length bs"
  by (cases "newline_byte \<in> set bs") (auto dest: split_list_first)

definition whole_line :: "octets \<Rightarrow> bool" where
  "whole_line raw \<longleftrightarrow> (\<exists>body. raw = body @ [newline_byte] \<and> newline_byte \<notin> set body)"

lemma read_all_whole: "(\<forall>raw \<in> set (read_all bs). whole_line raw) \<and> prefix (concat (read_all bs)) bs"
proof (induction bs rule: length_induct)
  case (1 bs)
  show ?case
  proof (cases bs rule: split_lines)
    case none
    then show ?thesis by (simp add: read_all_none)
  next
    case (line body rest)
    with 1 have "(\<forall>raw \<in> set (read_all rest). whole_line raw) \<and> prefix (concat (read_all rest)) rest" by blast
    with line show ?thesis by (auto simp: read_all_line whole_line_def)
  qed
qed

lemma read_loop_take: "read_loop n bs = take n (read_all bs)"
proof (induction n arbitrary: bs)
  case 0
  then show ?case by simp
next
  case (Suc n)
  show ?case
  proof (cases bs rule: split_lines)
    case none
    then show ?thesis by (simp add: read_all_none next_line_complete Let_def)
  next
    case (line body rest)
    with Suc show ?thesis by (simp add: read_all_line next_line_eq is_complete_def Let_def)
  qed
qed

lemma whole_lines_unique:
  "\<lbrakk>\<forall>raw \<in> set ls. whole_line raw\<rbrakk> \<Longrightarrow> read_all (concat ls @ z) = ls @ read_all z"
proof (induction ls)
  case Nil
  then show ?case by simp
next
  case (Cons l ls)
  then obtain body where "l = body @ [newline_byte]" "newline_byte \<notin> set body" by (auto simp: whole_line_def)
  with Cons show ?case by (simp add: read_all_line)
qed

text \<open>What a client of a reader relies on, whatever bounds it reads under.\<close>

locale line_reader =
  fixes read :: "octets \<Rightarrow> octets list"
  assumes whole: "raw \<in> set (read bs) \<Longrightarrow> whole_line raw"
    and in_file: "prefix (concat (read bs)) bs"
begin

lemma first_lines: "read bs = take (length (read bs)) (read_all bs)"
proof -
  obtain z where "bs = concat (read bs) @ z" using in_file [of bs] by (auto simp: prefix_def)
  then have "read_all bs = read bs @ read_all z" using whole_lines_unique [of "read bs" z] whole by metis
  then show ?thesis by simp
qed

lemma resume: "read_all (drop (sum_list (List.map length (read bs))) bs) = drop (length (read bs)) (read_all bs)"
proof -
  obtain z where z: "bs = concat (read bs) @ z" using in_file [of bs] by (auto simp: prefix_def)
  then have "read_all bs = read bs @ read_all z" using whole_lines_unique [of "read bs" z] whole by metis
  moreover have "drop (sum_list (List.map length (read bs))) bs = z"
    by (subst z) (simp add: length_concat)
  ultimately show ?thesis by simp
qed

lemma decoded_prefix: "prefix (List.map decode_line (read bs)) (List.map decode_line (read_all bs))"
  by (metis first_lines take_is_prefix map_mono_prefix)

end

interpretation all_lines: line_reader read_all
  by unfold_locales (use read_all_whole in auto)

lemma read_loop_whole: "(\<forall>raw \<in> set (read_loop n bs). whole_line raw) \<and> prefix (concat (read_loop n bs)) bs"
proof
  show "\<forall>raw \<in> set (read_loop n bs). whole_line raw"
    using read_all_whole [of bs] by (auto simp: read_loop_take dest: in_set_takeD)
  have "prefix (concat (take n (read_all bs))) (concat (read_all bs))"
    by (metis append_take_drop_id concat_append prefixI)
  with read_all_whole [of bs] show "prefix (concat (read_loop n bs)) bs"
    unfolding read_loop_take using prefix_order.trans by blast
qed

interpretation chunk_lines: line_reader "read_loop n" for n
  by unfold_locales (use read_loop_whole in blast)+

lemma read_all_grows: "prefix bs bs' \<Longrightarrow> prefix (read_all bs) (read_all bs')"
proof -
  assume "prefix bs bs'"
  then have "prefix (concat (read_all bs)) bs'" using read_all_whole [of bs] prefix_order.trans by blast
  then obtain z where "bs' = concat (read_all bs) @ z" by (auto simp: prefix_def)
  then show ?thesis using whole_lines_unique [of "read_all bs" z] read_all_whole [of bs] by simp
qed

section \<open>Tailing a growing file\<close>

text \<open>Successive chunk reads of one file, each under its own limit and seeing the content of its moment.\<close>

fun tail_run :: "bool \<Rightarrow> int \<times> int \<Rightarrow> (nat \<times> octets) list \<Rightarrow> cursor option \<Rightarrow> string list \<times> cursor option" where
  "tail_run windows identity [] cursor = ([], cursor)"
| "tail_run windows identity ((max_lines, bytes) # steps) cursor =
     (let r = read_chunk windows (still_file identity bytes) cursor max_lines;
          (lines, last) = tail_run windows identity steps (cd_cursor r)
      in (cd_lines r @ lines, last))"

definition at_line :: "int \<times> int \<Rightarrow> octets \<Rightarrow> nat \<Rightarrow> cursor" where
  "at_line identity bytes k = \<lparr>cur_identity = Some identity, cur_offset = sum_list (List.map length (take k (read_all bytes)))\<rparr>"

lemma sum_lengths_take: "sum_list (List.map length (take k (read_all bs))) = length (concat (take k (read_all bs)))"
  by (simp add: length_concat)

lemma take_lines_prefix: "prefix (concat (take k (read_all bs))) bs"
  using read_loop_whole [of k bs] by (simp add: read_loop_take)

lemma same_file_refl [simp]: "same_file w (Some t) (Some t)"
  by (simp add: same_file_def)

lemma chunk_from_line:
  assumes "k \<le> length (read_all bytes)"
  shows "cd_lines (read_chunk w (still_file i bytes) (Some (at_line i bytes k)) n) = List.map decode_line (take n (drop k (read_all bytes)))"
    "cd_cursor (read_chunk w (still_file i bytes) (Some (at_line i bytes k)) n) = Some (at_line i bytes (k + min n (length (read_all bytes) - k)))"
proof -
  let ?off = "sum_list (List.map length (take k (read_all bytes)))"
  have "?off \<le> length bytes" using take_lines_prefix [of k bytes] by (simp add: sum_lengths_take prefix_length_le)
  then have s: "start_point w (still_file i bytes) i (Some (at_line i bytes k)) = Some (?off, False, False)"
    by (simp add: start_point_def at_line_def still_file_def)
  have l: "length (read_loop k bytes) = k" using assms by (simp add: read_loop_take)
  have r: "read_loop n (drop ?off bytes) = take n (drop k (read_all bytes))"
    using chunk_lines.resume [of k bytes] unfolding l by (simp add: read_loop_take)
  have t: "take (k + min n (length (read_all bytes) - k)) (read_all bytes) = take k (read_all bytes) @ take n (drop k (read_all bytes))"
    by (simp add: take_add min_def)
  show "cd_lines (read_chunk w (still_file i bytes) (Some (at_line i bytes k)) n) = List.map decode_line (take n (drop k (read_all bytes)))"
    "cd_cursor (read_chunk w (still_file i bytes) (Some (at_line i bytes k)) n) = Some (at_line i bytes (k + min n (length (read_all bytes) - k)))"
    using s r unfolding at_line_def [of i bytes "k + _"] t by (simp_all add: read_chunk_def still_file_def Let_def)
qed

lemma at_line_grows: "\<lbrakk>prefix bs bs'; k \<le> length (read_all bs)\<rbrakk> \<Longrightarrow> at_line i bs k = at_line i bs' k"
  using read_all_grows [of bs bs'] by (auto simp: at_line_def prefix_def)

lemma whole_lines_count: "\<forall>raw \<in> set ls. whole_line raw \<Longrightarrow> length ls \<le> length (concat ls)"
  by (induction ls) (auto simp: whole_line_def)

lemma read_all_count: "length (read_all b) \<le> length b"
  using whole_lines_count [of "read_all b"] read_all_whole [of b] by (meson le_trans prefix_length_le)

lemma tail_from_line:
  assumes "k \<le> length (read_all b0)" "sorted_wrt prefix (b0 # List.map snd steps)"
  defines "final \<equiv> last (b0 # List.map snd steps)"
  shows "\<exists>k'. tail_run w i steps (Some (at_line i b0 k)) =
      (List.map decode_line (drop k (take k' (read_all final))), Some (at_line i final k'))
    \<and> k \<le> k' \<and> k' \<le> length (read_all final)
    \<and> (steps \<noteq> [] \<and> length final \<le> fst (last steps) \<longrightarrow> k' = length (read_all final))"
  using assms(1,2) unfolding final_def
proof (induction steps arbitrary: b0 k)
  case Nil
  then show ?case by (intro exI [of _ k]) simp
next
  case (Cons s steps)
  obtain n b where s: "s = (n, b)" by (cases s)
  let ?final = "last (b # List.map snd steps)"
  from Cons.prems s have p: "prefix b0 b" "sorted_wrt prefix (b # List.map snd steps)" by auto
  have kb: "k \<le> length (read_all b)"
    using read_all_grows [OF p(1)] Cons.prems(1) by (meson prefix_length_le le_trans)
  let ?k = "k + min n (length (read_all b) - k)"
  note chunk = chunk_from_line [OF kb, of w i n, folded at_line_grows [OF p(1) Cons.prems(1), of i]]
  have kk: "?k \<le> length (read_all b)" using kb by simp
  from Cons.IH [OF kk p(2)] obtain k' where k': "tail_run w i steps (Some (at_line i b ?k)) =
      (List.map decode_line (drop ?k (take k' (read_all ?final))), Some (at_line i ?final k'))"
    "?k \<le> k'" "k' \<le> length (read_all ?final)"
    "steps \<noteq> [] \<and> length ?final \<le> fst (last steps) \<longrightarrow> k' = length (read_all ?final)" by blast
  have "?final \<in> set (b # List.map snd steps)" by (rule last_in_set) simp
  with p(2) have "prefix b ?final" by auto
  then obtain z where z: "read_all ?final = read_all b @ z" using read_all_grows by (auto simp: prefix_def)
  have "take n (drop k (read_all b)) @ drop ?k (take k' (read_all ?final)) = drop k (take k' (read_all ?final))"
  proof -
    have "take n (drop k (read_all b)) = take (?k - k) (drop k (read_all ?final))"
      using kb unfolding z by (simp add: min_def)
    also have "\<dots> = take (?k - k) (drop k (take k' (read_all ?final)))"
      using k'(2) by (simp add: drop_take min_def)
    finally have "take n (drop k (read_all b)) = take (?k - k) (drop k (take k' (read_all ?final)))" .
    moreover have "drop ?k (take k' (read_all ?final)) = drop (?k - k) (drop k (take k' (read_all ?final)))" by (simp add: add.commute)
    ultimately show ?thesis by (simp only: append_take_drop_id)
  qed
  note lines = this
  have full: "k' = length (read_all ?final)" if "length ?final \<le> fst (last (s # steps))"
  proof (cases "steps = []")
    case True
    have "length (read_all b) \<le> length b" by (rule read_all_count)
    with True that k'(2,3) kb show ?thesis by (simp add: s min_def split: if_splits)
  next
    case False
    with that k'(4) show ?thesis by simp
  qed
  have e: "last (b0 # List.map snd (s # steps)) = ?final" by (simp add: s)
  have "cd_lines (read_chunk w (still_file i b) (Some (at_line i b0 k)) n) @ List.map decode_line (drop ?k (take k' (read_all ?final)))
      = List.map decode_line (drop k (take k' (read_all ?final)))"
    unfolding chunk(1) map_append [symmetric] lines ..
  then have "tail_run w i (s # steps) (Some (at_line i b0 k)) =
      (List.map decode_line (drop k (take k' (read_all ?final))), Some (at_line i ?final k'))"
    by (simp only: s tail_run.simps Let_def chunk(2) k'(1) prod.case)
  with k'(2,3) full show ?case unfolding e by (intro exI [of _ k']) linarith
qed

lemma first_chunk: "read_chunk w (still_file i b) None n = read_chunk w (still_file i b) (Some (at_line i b 0)) n"
  by (simp add: read_chunk_def start_point_def still_file_def at_line_def)

section \<open>The properties of the readers\<close>


definition octets_of :: "string \<Rightarrow> octets" where
  "octets_of s = List.map (\<lambda>c. of_nat (char_code c)) s"


text \<open>The bounded reader of contract v2 and the unbounded reader of v1 agree: on a file that can be read, with a limit no smaller than
  the number of octets left, they return the same lines, the same cursor and the same rotation and truncation flags.\<close>

lemma readers_agree:
  assumes "fv_identity view = Some i" "fv_size view \<noteq> None" "fv_bytes view = Some bytes" "fv_size_after view = Some after"
    and "length bytes \<le> max_lines"
  shows "(let v2 = read_chunk w view cursor max_lines; v1 = read_new_lines w view cursor in
    cd_lines v2 = rd_lines v1 \<and> cd_cursor v2 = Some (rd_cursor v1) \<and> cd_existed v2 = rd_existed v1
    \<and> cd_rotated v2 = rd_rotated v1 \<and> cd_truncated v2 = rd_truncated v1)"
proof -
  have "start_point w view i cursor \<noteq> None"
    using assms(2) by (auto simp: start_point_def split: option.splits)
  then obtain start ro tr where s: "start_point w view i cursor = Some (start, ro, tr)" by (metis option.exhaust prod_cases3)
  have "read_loop max_lines (drop start bytes) = read_all (drop start bytes)"
    using read_all_count [of "drop start bytes"] assms(5) by (simp add: read_loop_take)
  with assms s show ?thesis by (simp add: read_chunk_def read_new_lines_def Let_def)
qed

lemma readers_agree_witness:
  "cd_lines (read_chunk True (still_file (3, 4) [65, 10, 66]) None 5) = rd_lines (read_new_lines True (still_file (3, 4) [65, 10, 66]) None)"
  using readers_agree [of "still_file (3, 4) [65, 10, 66]" "(3, 4)" "[65, 10, 66]" 3 5 True None] by (simp add: still_file_def Let_def)

text \<open>A file that was replaced (another file index, or another volume than the one saved) or that has shrunk is read again from its
  start and flagged as rotated or truncated; a file still recognized and not shrunk is never read again.\<close>

lemma restart_exactly_when_replaced_or_shrunk:
  assumes "cur_identity c = Some t"
  shows "(let r = read_chunk w (still_file i bytes) (Some c) n in
      (cd_rotated r \<longleftrightarrow> \<not> same_file w (Some t) (Some i)) \<and> (snd t \<noteq> snd i \<longrightarrow> cd_rotated r)
      \<and> (cd_truncated r \<longleftrightarrow> \<not> cd_rotated r \<and> length bytes < cur_offset c)
      \<and> (cd_rotated r \<or> cd_truncated r \<longrightarrow> cd_lines r = List.map decode_line (take n (read_all bytes)))
      \<and> (\<not> cd_rotated r \<and> \<not> cd_truncated r \<longrightarrow> cd_lines r = List.map decode_line (take n (read_all (drop (cur_offset c) bytes)))))"
proof -
  have "snd t \<noteq> snd i \<Longrightarrow> \<not> same_file w (Some t) (Some i)" by (auto simp: same_file_def)
  with assms show ?thesis
    by (simp add: read_chunk_def still_file_def start_point_def read_loop_take Let_def)
qed

lemma restart_exactly_when_replaced_or_shrunk_witness:
  "cd_rotated (read_chunk True (still_file (7, 9) [65, 10]) (Some \<lparr>cur_identity = Some (7, 8), cur_offset = 1\<rparr>) 5)
   \<and> cd_lines (read_chunk True (still_file (7, 9) [65, 10]) (Some \<lparr>cur_identity = Some (7, 8), cur_offset = 1\<rparr>) 5) = [''A'' @ [CHR 0x0A]]"
proof -
  have d: "\<not> same_file True (Some (7, 8)) (Some (7, 9))" by (simp add: same_file_def)
  have "List.map decode_line (take 5 (read_all [65, 10])) = [''A'' @ [CHR 0x0A]]" by code_simp
  with d restart_exactly_when_replaced_or_shrunk [of "\<lparr>cur_identity = Some (7, 8), cur_offset = 1\<rparr>" "(7, 8)" True "(7, 9)" "[65, 10]" 5]
  show ?thesis by (simp add: Let_def)
qed

text \<open>The tail reader returns the last complete lines of the file.\<close>

lemma split_lines_all: "List.map (\<lambda>line. line @ [newline_byte]) (butlast (split_on newline_byte bs)) = read_all bs"
proof (induction bs rule: length_induct)
  case (1 bs)
  show ?case
  proof (cases bs rule: split_lines)
    case none
    then show ?thesis by (simp add: read_all_none split_on_no_sep)
  next
    case (line body rest)
    with 1 show ?thesis by (simp add: read_all_line split_on_append_sep)
  qed
qed

lemma read_all_suffix: "\<exists>xs. read_all (xs0 @ bs) = xs @ read_all (drop 1 (dropWhile (\<lambda>b. b \<noteq> newline_byte) bs))"
proof (cases bs rule: split_lines)
  case none
  then have "dropWhile (\<lambda>b. b \<noteq> newline_byte) bs = []" by (auto simp: dropWhile_eq_Nil_conv)
  then show ?thesis by (simp only:) (simp add: read_all_none)
next
  case (line body rest)
  then have d: "drop 1 (dropWhile (\<lambda>b. b \<noteq> newline_byte) bs) = rest" by (simp add: dropWhile_append)
  have "\<exists>xs. read_all (ys @ newline_byte # rest) = xs @ read_all rest" for ys
  proof (induction ys rule: length_induct)
    case (1 ys)
    show ?case
    proof (cases ys rule: split_lines)
      case none
      then show ?thesis by (simp add: read_all_line)
    next
      case (line b r)
      with 1 obtain xs where "read_all (r @ newline_byte # rest) = xs @ read_all rest" by blast
      with line show ?thesis by (simp add: read_all_line)
    qed
  qed
  from this [of "xs0 @ body"] show ?thesis unfolding d using line(1) by simp
qed

text \<open>The dry run's tail of a file is a run of its last complete lines, whole and in order, and all of them when the tail is as long as the file.\<close>

lemma read_tail_last_lines:
  "(\<exists>xs. List.map decode_line (read_all bytes) = xs @ read_tail (Some bytes) n)
   \<and> (length bytes \<le> n \<longrightarrow> read_tail (Some bytes) n = List.map decode_line (read_all bytes))"
proof -
  let ?start = "length bytes - n"
  let ?data = "if ?start > 0 then drop 1 (dropWhile (\<lambda>b. b \<noteq> newline_byte) (drop ?start bytes)) else drop ?start bytes"
  have t: "read_tail (Some bytes) n = List.map decode_line (read_all ?data)"
  proof (cases "newline_byte \<in> set ?data")
    case True
    have "List.map (\<lambda>line. decode_line (line @ [newline_byte])) (butlast (split_on newline_byte ?data))
        = List.map decode_line (List.map (\<lambda>line. line @ [newline_byte]) (butlast (split_on newline_byte ?data)))" by simp
    with True show ?thesis unfolding split_lines_all by (simp add: read_tail_def Let_def)
  next
    case False
    then show ?thesis by (simp add: read_tail_def Let_def read_all_none)
  qed
  have "\<exists>xs. read_all bytes = xs @ read_all ?data"
    using read_all_suffix [of "take ?start bytes" "drop ?start bytes"] by (cases "?start > 0") simp_all
  then show ?thesis unfolding t by auto
qed

lemma read_tail_last_lines_witness:
  "read_tail (Some [65, 10, 66]) 9 = List.map decode_line (read_all [65, 10, 66])"
  using read_tail_last_lines [of "[65, 10, 66]" 9] by simp

end
