(* ===== verification/V2Identity.thy ===== *)
theory V2Identity
  imports KeyedHash V2Events
begin

text \<open>
  collector/v2_identity.py: the purpose keys derived from the master secret, the keyed identifiers
  (item, patron, name, ruleset), the canonical event forms and the builders that compute an event's
  key. The lemmas show that HKDF-Expand returns the requested length, that every key is a
  64-character lower-case hexadecimal string, that a canonical form determines the safe fields it
  was built from (so two events share an event key only if they have the same safe fields or their
  digests collide), and what the builders return.
\<close>

section \<open>Key derivation\<close>

text \<open>The loop of \<open>hkdf_expand\<close>: one block per round until there are enough octets.\<close>

function hkdf_loop :: "octets \<Rightarrow> octets \<Rightarrow> nat \<Rightarrow> octets \<Rightarrow> nat \<Rightarrow> octets list \<Rightarrow> octets list" where
  "hkdf_loop prk info len previous counter blocks =
     (if sum_list (List.map length blocks) < len
      then let b = hmac_sha256 prk (previous @ info @ [word_of_nat counter])
           in hkdf_loop prk info len b (Suc counter) (blocks @ [b])
      else blocks)"
  by pat_completeness auto
termination
  by (relation "measure (\<lambda>(prk, info, len, previous, counter, blocks). len - sum_list (List.map length blocks))") auto

declare hkdf_loop.simps [simp del]

definition hkdf_expand :: "octets \<Rightarrow> octets \<Rightarrow> nat \<Rightarrow> string + octets" where
  "hkdf_expand prk info len =
     (if len > 255 * 32 \<or> len < 1 then Inl ''invalid HKDF length''
      else Inr (take len (concat (hkdf_loop prk info len [] 1 []))))"

lemma hkdf_loop_enough:
  "len \<le> sum_list (List.map length (hkdf_loop prk info len previous counter blocks))"
proof (induction prk info len previous counter blocks rule: hkdf_loop.induct)
  case (1 prk info len previous counter blocks)
  show ?case
  proof (cases "sum_list (List.map length blocks) < len")
    case True
    with 1 show ?thesis by (subst hkdf_loop.simps) (simp add: Let_def)
  next
    case False
    then show ?thesis by (subst hkdf_loop.simps) simp
  qed
qed

lemma hkdf_expand_length: "hkdf_expand prk info len = Inr k \<Longrightarrow> length k = len"
  using hkdf_loop_enough [of len prk info "[]" 1 "[]"]
  by (auto simp: hkdf_expand_def length_concat split: if_splits)

record sub_keys =
  k_event :: octets
  k_item :: octets
  k_patron :: octets
  k_name :: octets
  k_ruleset :: octets

definition subkey_info_prefix :: string where
  "subkey_info_prefix = ''sortview/v2/hmac-sha256-v1/''"

definition derive_subkeys :: "octets \<Rightarrow> string + sub_keys" where
  "derive_subkeys master =
     (if length master \<noteq> 32 then Inl ''the master secret must be exactly 32 bytes''
      else let expand = (\<lambda>purpose. hkdf_expand master (encode_text (subkey_info_prefix @ purpose)) 32)
      in bind_result (expand ''event'') (\<lambda>e.
         bind_result (expand ''item'') (\<lambda>i.
         bind_result (expand ''patron'') (\<lambda>p.
         bind_result (expand ''name'') (\<lambda>n.
         bind_result (expand ''ruleset'') (\<lambda>r.
           Inr \<lparr>k_event = e, k_item = i, k_patron = p, k_name = n, k_ruleset = r\<rparr>))))))"

lemma derive_subkeys_ok: "length master = 32 \<Longrightarrow> \<exists>k. derive_subkeys master = Inr k"
  by (simp add: derive_subkeys_def hkdf_expand_def)

section \<open>Keyed identifiers\<close>

definition item_key :: "sub_keys \<Rightarrow> string \<Rightarrow> string" where
  "item_key keys barcode = to_hex (hmac_sha256 (k_item keys) (encode_text (py_strip barcode)))"

definition patron_id_hmac :: "sub_keys \<Rightarrow> string \<Rightarrow> octets" where
  "patron_id_hmac keys pid = hmac_sha256 (k_patron keys) (encode_text (py_strip pid))"

definition name_hmac :: "sub_keys \<Rightarrow> string \<Rightarrow> octets" where
  "name_hmac keys name = hmac_sha256 (k_name keys) (encode_text (py_upper (py_strip name)))"

definition ruleset_fingerprint :: "sub_keys \<Rightarrow> octets \<Rightarrow> octets" where
  "ruleset_fingerprint keys canonical_rules = hmac_sha256 (k_ruleset keys) canonical_rules"

definition event_key :: "sub_keys \<Rightarrow> octets \<Rightarrow> string" where
  "event_key keys canonical = to_hex (hmac_sha256 (k_event keys) canonical)"

section \<open>Canonical event forms\<close>

definition newline :: string where
  "newline = [CHR 0x0A]"

definition absent :: string where
  "absent = ''~''"

definition has_line_break :: "string \<Rightarrow> bool" where
  "has_line_break s \<longleftrightarrow> CHR 0x0A \<in> set s \<or> CHR 0x0D \<in> set s"

definition field_line :: "string \<times> string \<Rightarrow> string" where
  "field_line f = fst f @ ''='' @ snd f"

definition canonical :: "string \<Rightarrow> (string \<times> string) list \<Rightarrow> string + octets" where
  "canonical kind fs =
     (if list_ex (\<lambda>f. has_line_break (snd f)) fs then Inl ''canonical field contains a line break''
      else Inr (encode_text (join_with newline
             ((''sortview/v2/event/'' @ kind @ ''/1'') # List.map field_line fs))))"

definition flag_text :: "bool option \<Rightarrow> string" where
  "flag_text v = (case v of None \<Rightarrow> absent | Some b \<Rightarrow> if b then ''1'' else ''0'')"

text \<open>\<open>value or ABSENT\<close>: an empty string is falsy too.\<close>

definition or_absent :: "string option \<Rightarrow> string" where
  "or_absent v = (case v of None \<Rightarrow> absent | Some s \<Rightarrow> if s = [] then absent else s)"

definition canonical_checkin :: "string \<Rightarrow> string option \<Rightarrow> string \<Rightarrow> string \<Rightarrow> string + octets" where
  "canonical_checkin event_time item dest bin =
     canonical ''checkin'' [(''event_time'', event_time), (''item_key'', or_absent item),
       (''destination'', dest), (''bin'', bin)]"

definition canonical_reject :: "string \<Rightarrow> string option \<Rightarrow> string \<Rightarrow> string + octets" where
  "canonical_reject event_time item cls =
     canonical ''reject'' [(''event_time'', event_time), (''item_key'', or_absent item), (''error_class'', cls)]"

definition acs_fields :: "string \<Rightarrow> string \<Rightarrow> string \<Rightarrow> string option \<Rightarrow> bool option \<Rightarrow> bool option \<Rightarrow> bool option \<Rightarrow>
    nat \<Rightarrow> (string \<times> string) list" where
  "acs_fields event_time item state dest ill branch coll revision =
     [(''event_time'', event_time), (''item_key'', item), (''state'', state)]
     @ (if state = ''hold''
        then [(''destination'', or_absent dest), (''is_ill'', flag_text ill),
              (''is_branch_services'', flag_text branch), (''is_collection_services'', flag_text coll)]
             @ (if revision > 0 then [(''revision'', show_nat revision)] else [])
        else [])"

definition canonical_acs_item :: "string \<Rightarrow> string \<Rightarrow> string \<Rightarrow> string option \<Rightarrow> bool option \<Rightarrow> bool option \<Rightarrow>
    bool option \<Rightarrow> nat \<Rightarrow> string + octets" where
  "canonical_acs_item event_time item state dest ill branch coll revision =
     canonical ''acs_item'' (acs_fields event_time item state dest ill branch coll revision)"

section \<open>Building events\<close>

definition build_checkin :: "sub_keys \<Rightarrow> instant \<Rightarrow> string option \<Rightarrow> string \<Rightarrow> string \<Rightarrow> string + checkin_v2" where
  "build_checkin keys t item dest bin =
     bind_result (canonical_checkin (format_time t) item dest bin) (\<lambda>c.
       mk_checkin (event_key keys c) (Aware t 0) item dest bin)"

definition build_reject :: "sub_keys \<Rightarrow> instant \<Rightarrow> string option \<Rightarrow> string \<Rightarrow> string + reject_v2" where
  "build_reject keys t item cls =
     bind_result (canonical_reject (format_time t) item cls) (\<lambda>c.
       mk_reject (event_key keys c) (Aware t 0) cls item)"

definition build_acs_item :: "sub_keys \<Rightarrow> instant \<Rightarrow> string \<Rightarrow> string \<Rightarrow> string option \<Rightarrow> bool option \<Rightarrow> bool option \<Rightarrow>
    bool option \<Rightarrow> string option \<Rightarrow> nat \<Rightarrow> string + acs_item_v2" where
  "build_acs_item keys t item state dest ill branch coll ruleset revision =
     bind_result (canonical_acs_item (format_time t) item state dest ill branch coll revision) (\<lambda>c.
       mk_acs_item (event_key keys c) (Aware t 0) item state dest ill branch coll ruleset)"

section \<open>Keys are well-formed and canonical forms are unambiguous\<close>

lemma event_key_hex [simp]: "is_hmac_hex (event_key keys c)"
  unfolding is_hmac_hex_def event_key_def using hmac.hex_length hmac.hex_alphabet by simp

lemma item_key_hex [simp]: "is_hmac_hex (item_key keys b)"
  unfolding is_hmac_hex_def item_key_def using hmac.hex_length hmac.hex_alphabet by simp

lemma event_key_eq_iff:
  "event_key keys c = event_key keys c' \<longleftrightarrow> hmac_sha256 (k_event keys) c = hmac_sha256 (k_event keys) c'"
  unfolding event_key_def by (rule hmac.hex_eq_iff)

lemma canonical_Inr:
  "canonical kind fs = Inr c \<longleftrightarrow> (\<forall>f \<in> set fs. \<not> has_line_break (snd f)) \<and>
     c = encode_text (join_with newline ((''sortview/v2/event/'' @ kind @ ''/1'') # List.map field_line fs))"
  by (auto simp: canonical_def list_ex_iff)

lemma no_break_newline: "\<not> has_line_break s \<Longrightarrow> CHR 0x0A \<notin> set s"
  by (simp add: has_line_break_def)

text \<open>The lines of a canonical form can be read back: no value holds a line break.\<close>

lemma canonical_lines:
  assumes "canonical kind fs = Inr c" "canonical kind' fs' = Inr c"
    and "\<And>f. f \<in> set fs \<Longrightarrow> CHR 0x0A \<notin> set (fst f)" "CHR 0x0A \<notin> set kind"
    and "\<And>f. f \<in> set fs' \<Longrightarrow> CHR 0x0A \<notin> set (fst f)" "CHR 0x0A \<notin> set kind'"
  shows "kind = kind' \<and> List.map field_line fs = List.map field_line fs'"
proof -
  let ?nl = "CHR 0x0A"
  let ?l = "(''sortview/v2/event/'' @ kind @ ''/1'') # List.map field_line fs"
  let ?l' = "(''sortview/v2/event/'' @ kind' @ ''/1'') # List.map field_line fs'"
  have eq: "join_with [?nl] ?l = join_with [?nl] ?l'"
    using assms(1,2) encode_text_inj unfolding canonical_Inr newline_def by metis
  have nl: "?nl \<notin> set ''sortview/v2/event/''" "?nl \<notin> set ''/1''" "?nl \<notin> set ''=''" by simp_all
  have clean: "\<forall>xs \<in> set ?l. ?nl \<notin> set xs" "\<forall>xs \<in> set ?l'. ?nl \<notin> set xs"
    using assms nl no_break_newline by (auto simp: canonical_Inr field_line_def)
  have "?l = split_on ?nl (join_with [?nl] ?l)" by (rule split_join [symmetric]) (use clean in simp_all)
  also have "\<dots> = ?l'" unfolding eq by (rule split_join) (use clean in simp_all)
  finally show ?thesis by simp
qed

text \<open>
  What an event's key is computed from: everything but the key itself, the provenance
  \<open>ruleset_id\<close> and the part of the time below the second.
\<close>

fun canonical_of :: "safe_event \<Rightarrow> nat \<Rightarrow> string + octets" where
  "canonical_of (Checkin e) r = canonical_checkin (format_time (ck_event_time e)) (ck_item_key e) (ck_destination e) (ck_bin e)"
| "canonical_of (Reject e) r = canonical_reject (format_time (rj_event_time e)) (rj_item_key e) (rj_error_class e)"
| "canonical_of (AcsItem e) r = canonical_acs_item (format_time (ai_event_time e)) (ai_item_key e) (ai_state e)
     (ai_destination e) (ai_is_ill e) (ai_is_branch_services e) (ai_is_collection_services e) r"

definition whole_second :: "instant \<Rightarrow> instant" where
  "whole_second t = t div 1000000 * 1000000"

fun strip_event :: "safe_event \<Rightarrow> safe_event" where
  "strip_event (Checkin e) = Checkin (e\<lparr>ck_event_key := [], ck_event_time := whole_second (ck_event_time e)\<rparr>)"
| "strip_event (Reject e) = Reject (e\<lparr>rj_event_key := [], rj_event_time := whole_second (rj_event_time e)\<rparr>)"
| "strip_event (AcsItem e) = AcsItem (e\<lparr>ai_event_key := [], ai_event_time := whole_second (ai_event_time e), ai_ruleset_id := None\<rparr>)"

fun is_hold :: "safe_event \<Rightarrow> bool" where
  "is_hold (AcsItem e) \<longleftrightarrow> ai_state e = ''hold''"
| "is_hold _ \<longleftrightarrow> False"

lemma format_time_whole:
  "\<lbrakk>in_calendar t; in_calendar t'; format_time t = format_time t'\<rbrakk> \<Longrightarrow> whole_second t = whole_second t'"
  by (simp add: format_time_eq whole_second_def)

lemma or_absent_inj:
  assumes "or_absent v = or_absent w"
    and "case v of None \<Rightarrow> True | Some s \<Rightarrow> is_hmac_hex s" "case w of None \<Rightarrow> True | Some s \<Rightarrow> is_hmac_hex s"
  shows "v = w"
proof -
  have "\<not> is_hmac_hex absent" "\<not> is_hmac_hex []" by (simp_all add: is_hmac_hex_def absent_def)
  with assms show ?thesis by (auto simp: or_absent_def split: option.splits if_splits)
qed

lemma or_absent_dest:
  "\<lbrakk>or_absent (Some d) = or_absent (Some d'); is_destination d; is_destination d'\<rbrakk> \<Longrightarrow> d = d'"
  by (auto simp: or_absent_def split: if_splits)

lemma flag_text_inj: "flag_text v = flag_text w \<Longrightarrow> v = w"
  by (auto simp: flag_text_def absent_def split: option.splits if_splits)

fun form_of :: "safe_event \<Rightarrow> nat \<Rightarrow> string \<times> (string \<times> string) list" where
  "form_of (Checkin e) r = (''checkin'', [(''event_time'', format_time (ck_event_time e)),
     (''item_key'', or_absent (ck_item_key e)), (''destination'', ck_destination e), (''bin'', ck_bin e)])"
| "form_of (Reject e) r = (''reject'', [(''event_time'', format_time (rj_event_time e)),
     (''item_key'', or_absent (rj_item_key e)), (''error_class'', rj_error_class e)])"
| "form_of (AcsItem e) r = (''acs_item'', acs_fields (format_time (ai_event_time e)) (ai_item_key e) (ai_state e)
     (ai_destination e) (ai_is_ill e) (ai_is_branch_services e) (ai_is_collection_services e) r)"

lemma canonical_of_form: "canonical_of e r = canonical (fst (form_of e r)) (snd (form_of e r))"
  by (cases e) (simp_all add: canonical_checkin_def canonical_reject_def canonical_acs_item_def)

lemma form_clean:
  "f \<in> set (snd (form_of e r)) \<Longrightarrow> CHR 0x0A \<notin> set (fst f)" "CHR 0x0A \<notin> set (fst (form_of e r))"
  by (cases e; auto simp: acs_fields_def split: if_splits)+

lemma field_line_eq [simp]: "field_line (n, v) = field_line (n, v') \<longleftrightarrow> v = v'"
  by (simp add: field_line_def)

lemma form_inj:
  assumes "event_ok e" "event_ok e'" "in_calendar (event_time_of e)" "in_calendar (event_time_of e')"
    and "fst (form_of e r) = fst (form_of e' r')"
    and "List.map field_line (snd (form_of e r)) = List.map field_line (snd (form_of e' r'))"
  shows "strip_event e = strip_event e' \<and> (is_hold e \<longrightarrow> r = r')"
proof (cases e)
  case (Checkin a)
  with assms(5) obtain b where b: "e' = Checkin b" by (cases e') auto
  show ?thesis using assms Checkin b
    by (cases a; cases b) (auto simp: checkin_ok_def dest: format_time_whole or_absent_inj)
next
  case (Reject a)
  with assms(5) obtain b where b: "e' = Reject b" by (cases e') auto
  show ?thesis using assms Reject b
    by (cases a; cases b) (auto simp: reject_ok_def dest: format_time_whole or_absent_inj)
next
  case (AcsItem a)
  with assms(5) obtain b where b: "e' = AcsItem b" by (cases e') auto
  from assms(6) have st: "ai_state a = ai_state b" "ai_item_key a = ai_item_key b"
    "format_time (ai_event_time a) = format_time (ai_event_time b)"
    by (auto simp: AcsItem b acs_fields_def)
  with assms(3,4) have t: "whole_second (ai_event_time a) = whole_second (ai_event_time b)"
    by (auto simp: AcsItem b dest: format_time_whole)
  show ?thesis
  proof (cases "ai_state a = ''hold''")
    case False
    with assms(1,2) st t show ?thesis
      by (cases a; cases b) (auto simp: AcsItem b acs_item_ok_def)
  next
    case True
    then obtain d d' where d: "ai_destination a = Some d" "is_destination d" "ai_destination b = Some d'" "is_destination d'"
      using assms(1,2) st by (auto simp: AcsItem b acs_item_ok_def split: option.splits)
    have "d = d'" "ai_is_ill a = ai_is_ill b" "ai_is_branch_services a = ai_is_branch_services b"
      "ai_is_collection_services a = ai_is_collection_services b"
      using assms(6) True st d or_absent_dest [of d d'] by (auto simp: AcsItem b acs_fields_def dest: flag_text_inj)
    moreover have "r = r'"
    proof -
      have "List.map field_line (if r > 0 then [(''revision'', show_nat r)] else [])
          = List.map field_line (if r' > 0 then [(''revision'', show_nat r')] else [])"
        using assms(6) True st(1) [symmetric] by (simp add: AcsItem b acs_fields_def)
      then show ?thesis by (auto split: if_splits dest: show_nat_inj)
    qed
    ultimately show ?thesis using True st t d
      by (cases a; cases b) (auto simp: AcsItem b)
  qed
qed

lemma canonical_of_inj:
  assumes "event_ok e" "event_ok e'" "in_calendar (event_time_of e)" "in_calendar (event_time_of e')"
    and "canonical_of e r = Inr c" "canonical_of e' r' = Inr c"
  shows "strip_event e = strip_event e' \<and> (is_hold e \<longrightarrow> r = r')"
proof -
  have "fst (form_of e r) = fst (form_of e' r') \<and> List.map field_line (snd (form_of e r)) = List.map field_line (snd (form_of e' r'))"
    by (rule canonical_lines [OF assms(5,6) [unfolded canonical_of_form]]) (simp_all add: form_clean)
  then show ?thesis using form_inj [OF assms(1-4)] by blast
qed

text \<open>A valid event always has a canonical form: no safe field can hold a line break.\<close>

lemma no_break_list_all: "\<lbrakk>list_all P s; \<not> P (CHR 0x0A); \<not> P (CHR 0x0D)\<rbrakk> \<Longrightarrow> \<not> has_line_break s"
  by (auto simp: has_line_break_def list_all_iff)

lemma breaks_not_safe [simp]:
  "\<not> is_hex_char (CHR 0x0A)" "\<not> is_hex_char (CHR 0x0D)" "\<not> is_slug_char (CHR 0x0A)" "\<not> is_slug_char (CHR 0x0D)"
  "\<not> is_digit (CHR 0x0A)" "\<not> is_digit (CHR 0x0D)" "\<not> is_lower (CHR 0x0A)" "\<not> is_lower (CHR 0x0D)"
  by (simp_all add: is_hex_char_def is_slug_char_def is_digit_def is_lower_def char_code_def)

lemma has_line_break_append [simp]: "has_line_break (a @ b) \<longleftrightarrow> has_line_break a \<or> has_line_break b"
  by (auto simp: has_line_break_def)

lemma has_line_break_Cons [simp]: "has_line_break (c # b) \<longleftrightarrow> c = CHR 0x0A \<or> c = CHR 0x0D \<or> has_line_break b"
  by (auto simp: has_line_break_def)

lemma has_line_break_Nil [simp]: "\<not> has_line_break []"
  by (auto simp: has_line_break_def)

lemma pad_no_break [simp]: "\<not> has_line_break (pad k n)"
  by (rule no_break_list_all [OF pad_digits]) simp_all

lemma show_nat_no_break [simp]: "\<not> has_line_break (show_nat n)"
  by (rule no_break_list_all [OF show_nat_digits]) simp_all

lemma format_time_no_break [simp]: "\<not> has_line_break (format_time t)"
  by (simp add: format_time_def iso_date_def hms_def split: prod.splits)

lemma hmac_hex_no_break: "is_hmac_hex s \<Longrightarrow> \<not> has_line_break s"
  unfolding is_hmac_hex_def by (elim conjE, erule no_break_list_all) simp_all

lemma slug_no_break: "list_all is_slug_char s \<Longrightarrow> \<not> has_line_break s"
  by (erule no_break_list_all) simp_all

lemma destination_no_break: "is_destination s \<Longrightarrow> \<not> has_line_break s"
  by (cases s) (auto dest: slug_no_break)

lemma bin_no_break: "is_bin s \<Longrightarrow> \<not> has_line_break s"
  by (cases s) (auto dest: slug_no_break)

lemma enum_no_break: "s \<in> set error_classes \<Longrightarrow> \<not> has_line_break s" "s \<in> set acs_item_states \<Longrightarrow> \<not> has_line_break s"
  by (auto simp: error_classes_def acs_item_states_def)

lemma or_absent_no_break [simp]: "has_line_break (or_absent v) \<longleftrightarrow> (\<exists>s. v = Some s \<and> has_line_break s)"
  by (auto simp: or_absent_def absent_def split: option.splits)

lemma flag_text_no_break [simp]: "\<not> has_line_break (flag_text v)"
  by (auto simp: flag_text_def absent_def split: option.splits)

lemma canonical_total:
  assumes "event_ok e"
  shows "\<exists>c. canonical_of e r = Inr c"
proof -
  have "\<forall>f \<in> set (snd (form_of e r)). \<not> has_line_break (snd f)"
    using assms
    by (cases e)
      (auto simp: checkin_ok_def reject_ok_def acs_item_ok_def acs_fields_def split: option.splits if_splits
        dest: hmac_hex_no_break destination_no_break bin_no_break enum_no_break)
  then show ?thesis unfolding canonical_of_form by (auto simp: canonical_Inr)
qed

lemma build_checkin_Inr: "build_checkin keys t item dest bin = Inr e \<Longrightarrow>
   event_ok (Checkin e) \<and> ck_event_time e = t \<and> ck_item_key e = item \<and> ck_destination e = dest \<and> ck_bin e = bin
     \<and> (\<exists>c. canonical_of (Checkin e) 0 = Inr c \<and> ck_event_key e = event_key keys c)"
  by (auto simp: build_checkin_def mk_checkin_Inr)

lemma build_reject_Inr: "build_reject keys t item cls = Inr e \<Longrightarrow>
   event_ok (Reject e) \<and> rj_event_time e = t \<and> rj_item_key e = item \<and> rj_error_class e = cls
     \<and> (\<exists>c. canonical_of (Reject e) 0 = Inr c \<and> rj_event_key e = event_key keys c)"
  by (auto simp: build_reject_def mk_reject_Inr)

lemma build_acs_item_Inr: "build_acs_item keys t item st dest ill br co rs rv = Inr e \<Longrightarrow>
   event_ok (AcsItem e) \<and> ai_event_time e = t \<and> ai_item_key e = item \<and> ai_state e = st \<and> ai_destination e = dest
     \<and> ai_is_ill e = ill \<and> ai_is_branch_services e = br \<and> ai_is_collection_services e = co \<and> ai_ruleset_id e = rs
     \<and> (\<exists>c. canonical_of (AcsItem e) rv = Inr c \<and> ai_event_key e = event_key keys c)"
  by (auto simp: build_acs_item_def mk_acs_item_Inr)

lemma whole_second_format:
  "\<lbrakk>in_calendar t; in_calendar t'; whole_second t = whole_second t'\<rbrakk> \<Longrightarrow> format_time t = format_time t'"
  by (simp add: format_time_eq whole_second_def)

lemma strip_canonical:
  assumes "in_calendar (event_time_of e)" "in_calendar (event_time_of e')"
    and "strip_event e = strip_event e'" "is_hold e \<longrightarrow> r = r'"
  shows "canonical_of e r = canonical_of e' r'"
proof (cases e)
  case (Checkin a)
  with assms(3) obtain b where b: "e' = Checkin b" by (cases e') auto
  with assms Checkin show ?thesis by (cases a; cases b) (auto dest: whole_second_format)
next
  case (Reject a)
  with assms(3) obtain b where b: "e' = Reject b" by (cases e') auto
  with assms Reject show ?thesis by (cases a; cases b) (auto dest: whole_second_format)
next
  case (AcsItem a)
  with assms(3) obtain b where b: "e' = AcsItem b" by (cases e') auto
  with assms AcsItem show ?thesis
    by (cases a; cases b) (auto simp: canonical_acs_item_def acs_fields_def dest: whole_second_format)
qed

text \<open>C29. An event key identifies exactly the privacy-safe content of its event: two valid events have the same
  canonical form if and only if they agree on their kind and on every safe field (the whole second, the item key,
  the destination, bin, error class, state and flags, and for a hold its correction revision), and their event keys
  are equal if and only if the digests of those forms are.\<close>

theorem event_key_identity:
  assumes "event_ok e" "event_ok e'" "in_calendar (event_time_of e)" "in_calendar (event_time_of e')"
    and "canonical_of e r = Inr c" "canonical_of e' r' = Inr c'"
  shows "(c = c' \<longleftrightarrow> strip_event e = strip_event e' \<and> (is_hold e \<longrightarrow> r = r'))
    \<and> (event_key keys c = event_key keys c' \<longleftrightarrow> hmac_sha256 (k_event keys) c = hmac_sha256 (k_event keys) c')"
proof
  show "c = c' \<longleftrightarrow> strip_event e = strip_event e' \<and> (is_hold e \<longrightarrow> r = r')"
    using canonical_of_inj [OF assms(1-4)] strip_canonical [OF assms(3,4), of r r'] assms(5,6) by auto
qed (rule event_key_eq_iff)

definition sample_key :: string where
  "sample_key = replicate 64 (CHR ''a'')"

definition sample_checkin :: "string \<Rightarrow> safe_event" where
  "sample_checkin bin = Checkin \<lparr>ck_event_key = sample_key, ck_event_time = 1700000000000000,
     ck_item_key = Some sample_key, ck_destination = ''main'', ck_bin = bin\<rparr>"

lemma sample_checkin_facts:
  "event_ok (sample_checkin ''3'')" "event_ok (sample_checkin ''4'')"
  "event_time_of (sample_checkin b) = 1700000000000000" "in_calendar 1700000000000000"
  by (code_simp, code_simp, simp_all add: sample_checkin_def in_calendar_def day_of_def)

lemma sample_canonical: "\<exists>c. canonical_of (sample_checkin ''3'') 0 = Inr c"  "\<exists>c. canonical_of (sample_checkin ''4'') 0 = Inr c"
  by (rule canonical_total, rule sample_checkin_facts)+

theorem event_key_identity_witness:
  "\<exists>c c'. canonical_of (sample_checkin ''3'') 0 = Inr c \<and> canonical_of (sample_checkin ''4'') 0 = Inr c' \<and> c \<noteq> c'"
proof -
  obtain c c' where c: "canonical_of (sample_checkin ''3'') 0 = Inr c" "canonical_of (sample_checkin ''4'') 0 = Inr c'"
    using sample_canonical by blast
  have "c \<noteq> c'"
    using event_key_identity [OF sample_checkin_facts(1,2) _ _ c] sample_checkin_facts(3,4)
    by (simp add: sample_checkin_def)
  with c show ?thesis by blast
qed

end
