(* ===== verification/V2Rules.thy ===== *)
theory V2Rules
  imports V2Identity
begin

text \<open>
  collector/v2_rules.py: validating and compiling the local classification rules. A document that is
  not exactly of the documented shape is refused as a whole (\<open>RulesInvalid\<close>), names are reduced to
  keyed digests, and the keyed fingerprint is taken over the normalized document's JSON text.
\<close>

datatype rules_error = RulesMissing | RulesInvalid

definition max_entries :: nat where
  "max_entries = 5000"

fun json_strings :: "json list \<Rightarrow> string list option" where
  "json_strings [] = Some []"
| "json_strings (JStr s # vs) = map_option (Cons s) (json_strings vs)"
| "json_strings _ = None"

definition clean_names :: "string list \<Rightarrow> string list" where
  "clean_names vs = sort (remdups (List.map (\<lambda>v. py_upper (py_strip v)) (filter (\<lambda>v. py_strip v \<noteq> []) vs)))"

definition rule_names :: "(string \<times> json) list \<Rightarrow> string \<Rightarrow> rules_error + string list" where
  "rule_names document key =
     (case jget_or document key (JArr []) of
        JArr values \<Rightarrow>
          (if length values > max_entries then Inl RulesInvalid
           else case json_strings values of None \<Rightarrow> Inl RulesInvalid | Some vs \<Rightarrow> Inr (clean_names vs))
      | _ \<Rightarrow> Inl RulesInvalid)"

record norm_document =
  nd_destinations :: "(string \<times> string) list" \<comment> \<open>slug, upper-case \<open>contains\<close> text, in file order\<close>
  nd_branch_names :: "string list"
  nd_collection_names :: "string list"
  nd_branch_patterns :: "string list"
  nd_collection_patterns :: "string list"

fun clean_destination :: "json \<Rightarrow> rules_error + string \<times> string" where
  "clean_destination (JObj entry) =
     (case (jget entry ''slug'', jget entry ''contains'') of
        (JStr slug, JStr text) \<Rightarrow>
          (if is_destination slug \<and> py_strip text \<noteq> [] then Inr (slug, py_upper (py_strip text)) else Inl RulesInvalid)
      | _ \<Rightarrow> Inl RulesInvalid)"
| "clean_destination _ = Inl RulesInvalid"

fun normalize_document :: "json \<Rightarrow> rules_error + norm_document" where
  "normalize_document (JObj document) =
     (if \<not> json_is_int (jget document ''schema_version'') 1 then Inl RulesInvalid
      else case jget_or document ''destinations'' (JArr []) of
        JArr entries \<Rightarrow>
          (if length entries > max_entries then Inl RulesInvalid
           else bind_result (map_result clean_destination entries) (\<lambda>cleaned.
                bind_result (rule_names document ''branch_services_names'') (\<lambda>bn.
                bind_result (rule_names document ''collection_services_names'') (\<lambda>cn.
                bind_result (rule_names document ''branch_services_da_patterns'') (\<lambda>bp.
                bind_result (rule_names document ''collection_services_da_patterns'') (\<lambda>cp.
                  Inr \<lparr>nd_destinations = cleaned, nd_branch_names = bn, nd_collection_names = cn,
                       nd_branch_patterns = bp, nd_collection_patterns = cp\<rparr>))))))
      | _ \<Rightarrow> Inl RulesInvalid)"
| "normalize_document _ = Inl RulesInvalid"

text \<open>The compact, key-sorted \<open>json.dumps\<close> of the normalized document (ASCII text).\<close>

definition json_escape :: "char \<Rightarrow> string" where
  "json_escape c =
     (let n = char_code c in
      if c = CHR 0x22 then [CHR 0x5C, CHR 0x22] else if c = CHR 0x5C then [CHR 0x5C, CHR 0x5C]
      else if n = 10 then [CHR 0x5C, CHR ''n''] else if n = 13 then [CHR 0x5C, CHR ''r'']
      else if n = 9 then [CHR 0x5C, CHR ''t''] else if n = 8 then [CHR 0x5C, CHR ''b'']
      else if n = 12 then [CHR 0x5C, CHR ''f'']
      else if n < 32 then [CHR 0x5C] @ ''u00'' @ [hex_char (n div 16), hex_char (n mod 16)]
      else [c])"

definition json_text :: "string \<Rightarrow> string" where
  "json_text s = [CHR 0x22] @ concat (List.map json_escape s) @ [CHR 0x22]"

definition json_list_text :: "string list \<Rightarrow> string" where
  "json_list_text xs = ''['' @ join_with '','' xs @ '']''"

definition json_member :: "string \<Rightarrow> string \<Rightarrow> string" where
  "json_member k v = json_text k @ '':'' @ v"

definition json_object_text :: "string list \<Rightarrow> string" where
  "json_object_text ms = ''{'' @ join_with '','' ms @ ''}''"

definition canonical_rules :: "norm_document \<Rightarrow> octets" where
  "canonical_rules d = encode_text (json_object_text
     [json_member ''branch_services_da_patterns'' (json_list_text (List.map json_text (nd_branch_patterns d))),
      json_member ''branch_services_names'' (json_list_text (List.map json_text (nd_branch_names d))),
      json_member ''collection_services_da_patterns'' (json_list_text (List.map json_text (nd_collection_patterns d))),
      json_member ''collection_services_names'' (json_list_text (List.map json_text (nd_collection_names d))),
      json_member ''destinations'' (json_list_text (List.map (\<lambda>(slug, text).
        json_object_text [json_member ''contains'' (json_text text), json_member ''slug'' (json_text slug)]) (nd_destinations d))),
      json_member ''schema_version'' ''1''])"

record rules =
  ru_destinations :: "(string \<times> string) list" \<comment> \<open>(\<open>contains\<close>, slug)\<close>
  ru_branch_names :: "octets list"
  ru_collection_names :: "octets list"
  ru_branch_markers :: "string list"
  ru_collection_markers :: "string list"
  ru_fingerprint :: octets

definition marker :: "string \<Rightarrow> string" where
  "marker p = ''|'' @ p @ ''|''"

definition compile_rules :: "json \<Rightarrow> sub_keys \<Rightarrow> rules_error + rules" where
  "compile_rules document keys =
     bind_result (normalize_document document) (\<lambda>d.
       Inr \<lparr>ru_destinations = List.map (\<lambda>(slug, text). (text, slug)) (nd_destinations d),
            ru_branch_names = List.map (name_hmac keys) (nd_branch_names d),
            ru_collection_names = List.map (name_hmac keys) (nd_collection_names d),
            ru_branch_markers = List.map marker (nd_branch_patterns d),
            ru_collection_markers = List.map marker (nd_collection_patterns d),
            ru_fingerprint = ruleset_fingerprint keys (canonical_rules d)\<rparr>)"

text \<open>
  \<open>load_rules\<close>: the file is \<open>None\<close> when it does not exist, \<open>Some None\<close> when it cannot be read or is
  not JSON, else the parsed document.
\<close>

definition load_rules :: "json option option \<Rightarrow> sub_keys \<Rightarrow> rules_error + rules" where
  "load_rules file keys =
     (case file of None \<Rightarrow> Inl RulesMissing
      | Some None \<Rightarrow> Inl RulesInvalid
      | Some (Some document) \<Rightarrow> compile_rules document keys)"

section \<open>Slugs made from display keys\<close>

text \<open>\<open>re.sub("[^a-z0-9]+", "_", text)\<close>: each run of other characters becomes one underscore.\<close>

definition slug_alnum :: "char \<Rightarrow> bool" where
  "slug_alnum c \<longleftrightarrow> is_lower c \<or> is_digit c"

fun squash :: "bool \<Rightarrow> string \<Rightarrow> string" where
  "squash in_run [] = []"
| "squash in_run (c # cs) =
     (if slug_alnum c then c # squash False cs
      else if in_run then squash True cs else CHR ''_'' # squash True cs)"

definition strip_underscores :: "string \<Rightarrow> string" where
  "strip_underscores s = rev (dropWhile (\<lambda>c. c = CHR ''_'') (rev (dropWhile (\<lambda>c. c = CHR ''_'') s)))"

definition slugify :: "string \<Rightarrow> string option" where
  "slugify key =
     (let slug = take 32 (strip_underscores (squash False (py_lower (py_strip key))));
          slug' = (if slug \<noteq> [] \<and> \<not> is_lower (hd slug) then take 32 (''d_'' @ slug) else slug)
      in if is_destination slug' then Some slug' else None)"

section \<open>Compiled rules are well formed\<close>

definition rules_ok :: "rules \<Rightarrow> bool" where
  "rules_ok r \<longleftrightarrow> (\<forall>(text, slug) \<in> set (ru_destinations r). is_destination slug \<and> text \<noteq> [])"

lemma clean_destination_ok: "clean_destination j = Inr (slug, text) \<Longrightarrow> is_destination slug \<and> text \<noteq> []"
  by (cases j) (auto split: json.splits if_splits)

lemma normalize_document_destinations:
  assumes "normalize_document j = Inr d"
  shows "\<forall>(slug, text) \<in> set (nd_destinations d). is_destination slug \<and> text \<noteq> []"
proof -
  from assms obtain doc where j: "j = JObj doc" by (cases j) auto
  from assms obtain entries where "map_result clean_destination entries = Inr (nd_destinations d)"
    by (auto simp: j split: json.splits if_splits)
  then show ?thesis by (rule map_result_all) (auto dest: clean_destination_ok)
qed

lemma compile_rules_ok: "compile_rules document keys = Inr r \<Longrightarrow> rules_ok r"
  using normalize_document_destinations by (fastforce simp: compile_rules_def rules_ok_def)

lemma load_rules_ok: "load_rules file keys = Inr r \<Longrightarrow> rules_ok r"
  by (auto simp: load_rules_def compile_rules_ok split: option.splits)

lemma clean_names_sorted: "sorted (clean_names vs)" "distinct (clean_names vs)"
  by (simp_all add: clean_names_def)

lemma clean_names_set: "set (clean_names vs) = (\<lambda>v. py_upper (py_strip v)) ` {v \<in> set vs. py_strip v \<noteq> []}"
  by (auto simp: clean_names_def)

section \<open>What slugify accepts\<close>

lemma squash_chars: "c \<in> set (squash b s) \<Longrightarrow> is_slug_char c"
  by (induction b s rule: squash.induct) (auto simp: is_slug_char_def slug_alnum_def split: if_splits)

lemma squash_alnum: "\<exists>c \<in> set s. slug_alnum c \<Longrightarrow> \<exists>c \<in> set (squash b s). slug_alnum c"
  by (induction b s rule: squash.induct) auto

lemma squash_only_underscores: "\<forall>c \<in> set s. \<not> slug_alnum c \<Longrightarrow> \<forall>c \<in> set (squash b s). c = CHR ''_''"
  by (induction b s rule: squash.induct) auto

lemma strip_underscores_Nil: "\<forall>c \<in> set s. c = CHR ''_'' \<Longrightarrow> strip_underscores s = []"
proof -
  assume a: "\<forall>c \<in> set s. c = CHR ''_''"
  then have "dropWhile (\<lambda>c. c = CHR ''_'') s = []" by (simp only: dropWhile_eq_Nil_conv)
  then show ?thesis unfolding strip_underscores_def by (simp only: rev.simps dropWhile.simps)
qed

lemma strip_underscores_ne:
  assumes "c \<in> set s" "c \<noteq> CHR ''_''"
  shows "strip_underscores s \<noteq> [] \<and> hd (strip_underscores s) \<noteq> CHR ''_''"
proof -
  let ?d = "dropWhile (\<lambda>c. c = CHR ''_'') s"
  have ne: "?d \<noteq> []" using assms by (auto simp: dropWhile_eq_Nil_conv)
  then have "hd ?d \<noteq> CHR ''_''" using hd_dropWhile [of "\<lambda>c. c = CHR ''_''" s] by simp
  with ne show ?thesis
    unfolding strip_underscores_def using hd_dropWhile_rev [of ?d "\<lambda>c. c = CHR ''_''"] by simp
qed

lemma strip_underscores_chars: "c \<in> set (strip_underscores s) \<Longrightarrow> c \<in> set s"
  unfolding strip_underscores_def by (auto dest!: set_dropWhileD)

lemma underscore_not_alnum [simp]: "\<not> slug_alnum (CHR ''_'')"
  by (simp add: slug_alnum_def is_lower_def is_digit_def char_code_def)

lemma is_destination_iff:
  "is_destination s \<longleftrightarrow> s \<noteq> [] \<and> is_lower (hd s) \<and> (\<forall>c \<in> set (tl s). is_slug_char c) \<and> length s \<le> 32"
  by (cases s) (auto simp: list_all_iff)

lemma slugify_alnum:
  assumes "\<exists>c \<in> set (py_lower (py_strip key)). slug_alnum c"
  shows "\<exists>s. slugify key = Some s"
proof -
  let ?q = "squash False (py_lower (py_strip key))"
  let ?s = "take 32 (strip_underscores ?q)"
  from squash_alnum [OF assms] obtain c where c: "c \<in> set ?q" "slug_alnum c" by blast
  then have "c \<noteq> CHR ''_''" by auto
  from strip_underscores_ne [OF c(1) this]
  have ne: "?s \<noteq> []" and hd: "hd ?s \<noteq> CHR ''_''" by (simp_all add: hd_take)
  have chars: "\<forall>c \<in> set ?s. is_slug_char c"
    using squash_chars strip_underscores_chars set_take_subset by (metis subsetD)
  show ?thesis
  proof (cases "is_lower (hd ?s)")
    case True
    with ne chars have "is_destination ?s"
      unfolding is_destination_iff using list.set_sel(2) [of ?s] by fastforce
    with True show ?thesis by (auto simp: slugify_def Let_def)
  next
    case False
    let ?t = "take 32 (''d_'' @ ?s)"
    have "is_slug_char (CHR ''_'')" "is_lower (CHR ''d'')"
      by (simp_all add: is_slug_char_def is_lower_def char_code_def)
    with chars have "\<forall>c \<in> set (''d_'' @ ?s). is_slug_char c"
      by (auto simp: is_slug_char_def)
    then have "\<forall>c \<in> set ?t. is_slug_char c" using set_take_subset by (metis subsetD)
    then have "is_destination ?t"
      using \<open>is_lower (CHR ''d'')\<close> by (simp add: is_destination_iff)
    with False ne show ?thesis by (auto simp: slugify_def Let_def)
  qed
qed

text \<open>Turning a display key into a destination slug succeeds exactly when the key has a letter or a digit, and
  what it returns always has the wire format of a destination.\<close>

lemma slugify_total:
  "(slugify key = None \<longleftrightarrow> (\<forall>c \<in> set (py_lower (py_strip key)). \<not> (is_lower c \<or> is_digit c)))
   \<and> (case slugify key of None \<Rightarrow> True | Some s \<Rightarrow> is_destination s)"
proof
  have "slugify key = None" if "\<forall>c \<in> set (py_lower (py_strip key)). \<not> slug_alnum c"
    using strip_underscores_Nil [OF squash_only_underscores [OF that]] by (simp add: slugify_def)
  then show "slugify key = None \<longleftrightarrow> (\<forall>c \<in> set (py_lower (py_strip key)). \<not> (is_lower c \<or> is_digit c))"
    using slugify_alnum unfolding slug_alnum_def by fastforce
  show "case slugify key of None \<Rightarrow> True | Some s \<Rightarrow> is_destination s"
    by (auto simp: slugify_def Let_def split: if_splits)
qed

lemma slugify_total_witness:
  "slugify ''- -'' = None \<and> (case slugify ''12th St'' of None \<Rightarrow> False | Some s \<Rightarrow> is_destination s)"
proof -
  have "\<forall>c \<in> set (py_lower (py_strip ''- -'')). \<not> (is_lower c \<or> is_digit c)" by code_simp
  moreover have "\<not> (\<forall>c \<in> set (py_lower (py_strip ''12th St'')). \<not> (is_lower c \<or> is_digit c))" by code_simp
  ultimately show ?thesis using slugify_total [of "''- -''"] slugify_total [of "''12th St''"] by (auto split: option.splits)
qed

end
