(* ===== verification/V2Patrons.thy ===== *)
theory V2Patrons
  imports Calendar "HOL-Library.Multiset"
begin

text \<open>
  collector/v2_patrons.py: the local patron cache, ruleset registry and hold ledger. The three SQLite
  tables are association lists with distinct keys in primary-key order of insertion; the staged
  overlays are Python dicts (association lists updated in place). A database statement that fails is
  not modelled. The lemmas show that committing changes what is stored and nothing that can be read,
  what a purge removes and keeps, and that a patron's holds as listed are exactly the holds readable
  one by one, in time order.
\<close>

type_synonym flags3 = "bool \<times> bool \<times> bool"

record hold_row =
  hr_item_key :: string
  hr_event_time :: string
  hr_patron_pk :: octets
  hr_destination :: string
  hr_static :: flags3
  hr_flags :: flags3
  hr_revision :: nat

record patron_info =
  pi_name_k :: "octets option"
  pi_type_ill :: bool
  pi_name_ill :: bool

definition unknown_patron :: patron_info where
  "unknown_patron = \<lparr>pi_name_k = None, pi_type_ill = False, pi_name_ill = False\<rparr>"

record patron_row =
  pr_info :: patron_info
  pr_first_seen :: string
  pr_last_seen :: string

text \<open>A staged sighting; \<open>sg_profile\<close> tells a message-64 profile from a plain sighting.\<close>

record staged =
  sg_info :: patron_info
  sg_profile :: bool

record patron_cache =
  pc_patrons :: "(octets \<times> patron_row) list"
  pc_holds :: "(string \<times> hold_row) list"
  pc_rulesets :: "(octets \<times> string \<times> string) list" \<comment> \<open>fingerprint, (ruleset\_id, created)\<close>
  pc_overlay :: "(octets \<times> staged) list"
  pc_hold_overlay :: "(string \<times> hold_row option) list"
  pc_new_rulesets :: "(octets \<times> string) list"
  pc_today :: nat \<comment> \<open>ordinal of the day\<close>
  pc_ttl_days :: nat
  pc_max_rows :: nat
  pc_hold_days :: nat
  pc_hold_max_rows :: nat
  pc_read_only :: bool

definition max_rulesets :: nat where
  "max_rulesets = 50"

section \<open>Reading\<close>

definition cache_lookup :: "patron_cache \<Rightarrow> octets \<Rightarrow> patron_info option" where
  "cache_lookup c pk =
     (let stored = map_option pr_info (map_of (pc_patrons c) pk) in
      case map_of (pc_overlay c) pk of
        None \<Rightarrow> stored
      | Some s \<Rightarrow>
          (if sg_profile s then Some (sg_info s)
           else Some (case stored of None \<Rightarrow> unknown_patron | Some i \<Rightarrow> i)))"

definition cache_contains :: "patron_cache \<Rightarrow> octets \<Rightarrow> bool" where
  "cache_contains c pk \<longleftrightarrow> map_of (pc_overlay c) pk \<noteq> None \<or> map_of (pc_patrons c) pk \<noteq> None"

definition patron_count :: "patron_cache \<Rightarrow> nat" where
  "patron_count c = length (pc_patrons c)"

section \<open>Staging and committing\<close>

definition cache_stage :: "patron_cache \<Rightarrow> octets \<Rightarrow> patron_info \<Rightarrow> bool \<Rightarrow> patron_cache" where
  "cache_stage c pk info profile =
     (if \<not> profile \<and> map_of (pc_overlay c) pk \<noteq> None then c
      else c\<lparr>pc_overlay := AList.update pk \<lparr>sg_info = info, sg_profile = profile\<rparr> (pc_overlay c)\<rparr>)"

text \<open>\<open>stage(pk)\<close>: a plain sighting.\<close>

definition cache_sight :: "patron_cache \<Rightarrow> octets \<Rightarrow> patron_cache" where
  "cache_sight c pk = cache_stage c pk unknown_patron False"

definition upsert_patron :: "string \<Rightarrow> (octets \<times> patron_row) list \<Rightarrow> octets \<times> staged \<Rightarrow> (octets \<times> patron_row) list" where
  "upsert_patron now table item =
     (case item of (pk, s) \<Rightarrow>
        (case map_of table pk of
           None \<Rightarrow> AList.update pk \<lparr>pr_info = (if sg_profile s then sg_info s else unknown_patron),
                                pr_first_seen = now, pr_last_seen = now\<rparr> table
         | Some row \<Rightarrow>
             AList.update pk
               (if sg_profile s then row\<lparr>pr_info := sg_info s, pr_last_seen := now\<rparr> else row\<lparr>pr_last_seen := now\<rparr>)
               table))"

definition insert_ruleset :: "string \<Rightarrow> (octets \<times> string \<times> string) list \<Rightarrow> octets \<times> string \<Rightarrow> (octets \<times> string \<times> string) list" where
  "insert_ruleset now table item =
     (case item of (fp, rid) \<Rightarrow> if map_of table fp = None then AList.update fp (rid, now) table else table)"

definition commit_hold :: "(string \<times> hold_row) list \<Rightarrow> string \<times> hold_row option \<Rightarrow> (string \<times> hold_row) list" where
  "commit_hold table item =
     (case item of (k, None) \<Rightarrow> AList.delete k table | (k, Some row) \<Rightarrow> AList.update k row table)"

definition commit_holds :: "patron_cache \<Rightarrow> patron_cache" where
  "commit_holds c =
     (if pc_hold_overlay c = [] then c
      else c\<lparr>pc_holds := foldl commit_hold (pc_holds c) (pc_hold_overlay c), pc_hold_overlay := []\<rparr>)"

definition cache_commit :: "patron_cache \<Rightarrow> patron_cache" where
  "cache_commit c =
     (if pc_read_only c then c\<lparr>pc_overlay := [], pc_hold_overlay := []\<rparr>
      else let c = commit_holds c in
        if pc_overlay c = [] \<and> pc_new_rulesets c = [] then c
        else let now = iso_date (pc_today c) in
          c\<lparr>pc_patrons := foldl (upsert_patron now) (pc_patrons c) (pc_overlay c),
            pc_rulesets := foldl (insert_ruleset now) (pc_rulesets c) (pc_new_rulesets c),
            pc_overlay := [], pc_new_rulesets := []\<rparr>)"

definition cache_discard :: "patron_cache \<Rightarrow> patron_cache" where
  "cache_discard c = c\<lparr>pc_overlay := [], pc_hold_overlay := []\<rparr>"

section \<open>Lifecycle\<close>

text \<open>\<open>DELETE ... WHERE key IN (SELECT key ... ORDER BY f LIMIT n)\<close>.\<close>

definition delete_first :: "('k \<times> 'v \<Rightarrow> 'o::linorder) \<Rightarrow> nat \<Rightarrow> ('k \<times> 'v) list \<Rightarrow> ('k \<times> 'v) list" where
  "delete_first f n table =
     (let victims = List.map fst (take n (sort_key f table)) in filter (\<lambda>r. fst r \<notin> set victims) table)"

definition cache_purge :: "patron_cache \<Rightarrow> patron_cache \<times> nat \<times> nat" where
  "cache_purge c =
     (if pc_read_only c then (c, 0, 0)
      else let cutoff = iso_date (pc_today c - pc_ttl_days c);
               kept = filter (\<lambda>r. \<not> pr_last_seen (snd r) < cutoff) (pc_patrons c);
               excess = length kept - pc_max_rows c;
               final = (if excess > 0 then delete_first (\<lambda>r. pr_last_seen (snd r)) excess kept else kept);
               newest = List.map fst (take max_rulesets (rev (sort_key (\<lambda>r. snd (snd r)) (pc_rulesets c))))
           in (c\<lparr>pc_patrons := final, pc_rulesets := filter (\<lambda>r. fst r \<in> set newest) (pc_rulesets c)\<rparr>,
               length (pc_patrons c) - length kept, length kept - length final))"

definition ruleset_id_for :: "patron_cache \<Rightarrow> octets \<Rightarrow> string \<Rightarrow> string \<times> patron_cache" where
  "ruleset_id_for c fp fresh =
     (case map_of (pc_new_rulesets c) fp of
        Some rid \<Rightarrow> (rid, c)
      | None \<Rightarrow>
          (case map_of (pc_rulesets c) fp of
             Some (rid, created) \<Rightarrow> (rid, c)
           | None \<Rightarrow>
               (fresh,
                if pc_read_only c then c\<lparr>pc_new_rulesets := AList.update fp fresh (pc_new_rulesets c)\<rparr>
                else c\<lparr>pc_rulesets := insert_ruleset (iso_date (pc_today c)) (pc_rulesets c) (fp, fresh)\<rparr>)))"

section \<open>The hold ledger\<close>

definition hold_get :: "patron_cache \<Rightarrow> string \<Rightarrow> hold_row option" where
  "hold_get c k =
     (case map_of (pc_hold_overlay c) k of Some r \<Rightarrow> r | None \<Rightarrow> map_of (pc_holds c) k)"

definition hold_stage :: "patron_cache \<Rightarrow> string \<Rightarrow> hold_row option \<Rightarrow> patron_cache" where
  "hold_stage c k v = c\<lparr>pc_hold_overlay := AList.update k v (pc_hold_overlay c)\<rparr>"

definition hold_put :: "patron_cache \<Rightarrow> hold_row \<Rightarrow> patron_cache" where
  "hold_put c row = hold_stage c (hr_item_key row) (Some row)"

definition hold_delete :: "patron_cache \<Rightarrow> string \<Rightarrow> patron_cache" where
  "hold_delete c k = hold_stage c k None"

definition apply_staged_hold :: "octets \<Rightarrow> (string \<times> hold_row) list \<Rightarrow> string \<times> hold_row option \<Rightarrow> (string \<times> hold_row) list" where
  "apply_staged_hold pk found item =
     (case item of (k, None) \<Rightarrow> AList.delete k found
      | (k, Some row) \<Rightarrow> if hr_patron_pk row \<noteq> pk then AList.delete k found else AList.update k row found)"

definition holds_for_patron :: "patron_cache \<Rightarrow> octets \<Rightarrow> hold_row list" where
  "holds_for_patron c pk =
     (let found = filter (\<lambda>r. hr_patron_pk (snd r) = pk) (pc_holds c)
      in sort_key (\<lambda>r. (hr_event_time r, hr_item_key r))
           (List.map snd (foldl (apply_staged_hold pk) found (pc_hold_overlay c))))"

definition hold_count :: "patron_cache \<Rightarrow> nat" where
  "hold_count c = length (pc_holds c)"

definition event_day :: "hold_row \<Rightarrow> string" where
  "event_day r = take 10 (hr_event_time r)"

definition purge_holds :: "patron_cache \<Rightarrow> patron_cache \<times> nat" where
  "purge_holds c =
     (if pc_read_only c then (c, 0)
      else let cutoff = iso_date (pc_today c - pc_hold_days c);
               kept = filter (\<lambda>r. \<not> event_day (snd r) < cutoff) (pc_holds c);
               excess = length kept - pc_hold_max_rows c;
               final = (if excess > 0 then delete_first (\<lambda>r. (event_day (snd r), fst r)) excess kept else kept)
           in (c\<lparr>pc_holds := final\<rparr>, length (pc_holds c) - length final))"

section \<open>Well-formed caches\<close>

definition cache_wf :: "patron_cache \<Rightarrow> bool" where
  "cache_wf c \<longleftrightarrow> distinct (List.map fst (pc_patrons c)) \<and> distinct (List.map fst (pc_holds c))
     \<and> distinct (List.map fst (pc_overlay c)) \<and> distinct (List.map fst (pc_hold_overlay c))
     \<and> (\<forall>(k, r) \<in> set (pc_holds c). hr_item_key r = k)
     \<and> (\<forall>(k, v) \<in> set (pc_hold_overlay c). \<forall>r. v = Some r \<longrightarrow> hr_item_key r = k)"

interpretation ledger: erasable_store hold_get "\<lambda>c k r. hold_stage c k (Some r)" "\<lambda>_. True" "\<lambda>c k. hold_stage c k None"
  by unfold_locales (auto simp: hold_get_def hold_stage_def AList.update_conv fun_eq_iff split: option.split)

lemma hold_get_put: "hold_get (hold_put c r) = (hold_get c)(hr_item_key r \<mapsto> r)"
  using ledger.get_put [of c] by (simp add: hold_put_def)

lemma hold_get_delete: "hold_get (hold_delete c k) = (hold_get c)(k := None)"
  using ledger.get_del [of c] by (simp add: hold_delete_def)

lemma set_update: "(k', v') \<in> set (AList.update k v al) \<Longrightarrow> (k', v') = (k, v) \<or> (k', v') \<in> set al"
  by (induction al) (auto split: if_splits)

lemma hold_stage_wf:
  "\<lbrakk>cache_wf c; \<And>r. v = Some r \<Longrightarrow> hr_item_key r = k\<rbrakk> \<Longrightarrow> cache_wf (hold_stage c k v)"
  by (auto simp: cache_wf_def hold_stage_def distinct_update dest!: set_update)

lemma hold_put_wf: "cache_wf c \<Longrightarrow> cache_wf (hold_put c r)"
  unfolding hold_put_def by (rule hold_stage_wf) auto

lemma hold_delete_wf: "cache_wf c \<Longrightarrow> cache_wf (hold_delete c k)"
  unfolding hold_delete_def by (rule hold_stage_wf) auto

lemma cache_stage_wf: "cache_wf c \<Longrightarrow> cache_wf (cache_stage c pk info p)"
  by (auto simp: cache_wf_def cache_stage_def distinct_update)

lemma cache_sight_wf: "cache_wf c \<Longrightarrow> cache_wf (cache_sight c pk)"
  by (simp add: cache_sight_def cache_stage_wf)

lemma cache_stage_holds [simp]:
  "hold_get (cache_stage c pk i p) = hold_get c" "pc_holds (cache_stage c pk i p) = pc_holds c"
  "pc_hold_overlay (cache_stage c pk i p) = pc_hold_overlay c" "pc_patrons (cache_stage c pk i p) = pc_patrons c"
  by (auto simp: hold_get_def cache_stage_def fun_eq_iff split: option.split)

lemma cache_stage_contains: "cache_contains (cache_stage c pk i p) pk' \<longleftrightarrow> pk' = pk \<or> cache_contains c pk'"
  by (auto simp: cache_contains_def cache_stage_def AList.update_conv)

lemma cache_stage_lookup:
  "cache_lookup (cache_stage c pk i True) = (cache_lookup c)(pk \<mapsto> i)"
  by (auto simp: cache_lookup_def cache_stage_def AList.update_conv fun_eq_iff Let_def)

text \<open>A plain sighting never changes what the classifier sees of a known patron.\<close>

lemma cache_sight_lookup:
  "cache_lookup (cache_sight c pk) pk' = (if pk' = pk \<and> cache_lookup c pk = None then Some unknown_patron else cache_lookup c pk')"
  by (auto simp: cache_lookup_def cache_sight_def cache_stage_def AList.update_conv Let_def split: option.splits)

section \<open>Committing is invisible to readers\<close>

lemma map_of_delete: "map_of (AList.delete k al) = (map_of al)(k := None)"
  by (rule ext) (rule AList.delete_conv)

lemma commit_hold_map: "map_of (commit_hold table (k, v)) = (map_of table)(k := v)"
  by (cases v) (auto simp: commit_hold_def AList.update_conv map_of_delete fun_eq_iff)

lemma foldl_commit_hold_map:
  "distinct (List.map fst ov) \<Longrightarrow>
   map_of (foldl commit_hold table ov) k = (case map_of ov k of Some v \<Rightarrow> v | None \<Rightarrow> map_of table k)"
proof (induction ov arbitrary: table)
  case Nil
  then show ?case by simp
next
  case (Cons item ov)
  obtain k' v where i: "item = (k', v)" by (cases item)
  from Cons.prems have "k' \<notin> dom (map_of ov)" by (simp add: i dom_map_of_conv_image_fst)
  then have "map_of ov k' = None" by auto
  with Cons i show ?case by (auto simp: commit_hold_map split: option.split)
qed

lemma commit_holds_get: "distinct (List.map fst (pc_hold_overlay c)) \<Longrightarrow> hold_get (commit_holds c) = hold_get c"
  by (auto simp: commit_holds_def hold_get_def fun_eq_iff foldl_commit_hold_map split: option.split)

definition committed_info :: "staged \<Rightarrow> patron_info option \<Rightarrow> patron_info" where
  "committed_info s stored = (if sg_profile s then sg_info s else case stored of None \<Rightarrow> unknown_patron | Some i \<Rightarrow> i)"

lemma upsert_patron_map:
  "map_option pr_info (map_of (upsert_patron now table (pk, s)) k) =
     (if k = pk then Some (committed_info s (map_option pr_info (map_of table pk)))
      else map_option pr_info (map_of table k))"
  by (auto simp: upsert_patron_def committed_info_def AList.update_conv split: option.split)

lemma foldl_upsert_map:
  "distinct (List.map fst ov) \<Longrightarrow>
   map_option pr_info (map_of (foldl (upsert_patron now) table ov) k) =
     (case map_of ov k of Some s \<Rightarrow> Some (committed_info s (map_option pr_info (map_of table k)))
      | None \<Rightarrow> map_option pr_info (map_of table k))"
proof (induction ov arbitrary: table)
  case Nil
  then show ?case by simp
next
  case (Cons item ov)
  obtain pk s where i: "item = (pk, s)" by (cases item)
  from Cons.prems have "pk \<notin> dom (map_of ov)" by (simp add: i dom_map_of_conv_image_fst)
  then have "map_of ov pk = None" by auto
  with Cons i show ?case by (auto simp: upsert_patron_map split: option.split)
qed

lemma cache_lookup_committed:
  "cache_lookup c pk = (case map_of (pc_overlay c) pk of
     Some s \<Rightarrow> Some (committed_info s (map_option pr_info (map_of (pc_patrons c) pk)))
   | None \<Rightarrow> map_option pr_info (map_of (pc_patrons c) pk))"
  by (auto simp: cache_lookup_def committed_info_def Let_def split: option.split)

lemma cache_contains_lookup: "cache_contains c pk \<longleftrightarrow> cache_lookup c pk \<noteq> None"
  by (auto simp: cache_contains_def cache_lookup_committed split: option.split)

lemma commit_holds_frame [simp]:
  "pc_patrons (commit_holds c) = pc_patrons c" "pc_overlay (commit_holds c) = pc_overlay c"
  "pc_new_rulesets (commit_holds c) = pc_new_rulesets c" "pc_today (commit_holds c) = pc_today c"
  "pc_rulesets (commit_holds c) = pc_rulesets c" "pc_read_only (commit_holds c) = pc_read_only c"
  "pc_hold_overlay (commit_holds c) = []"
  by (simp_all add: commit_holds_def)

lemma commit_hold_get:
  assumes "\<not> pc_read_only c" "distinct (List.map fst (pc_hold_overlay c))"
  shows "hold_get (cache_commit c) = hold_get c"
proof -
  have "hold_get (cache_commit c) = hold_get (commit_holds c)"
    using assms(1) by (auto simp: cache_commit_def Let_def hold_get_def fun_eq_iff split: option.split)
  with commit_holds_get [OF assms(2)] show ?thesis by simp
qed

lemma commit_lookup:
  assumes "\<not> pc_read_only c" "distinct (List.map fst (pc_overlay c))"
  shows "cache_lookup (cache_commit c) = cache_lookup c"
  using assms foldl_upsert_map [OF assms(2)]
  by (auto simp: cache_commit_def Let_def cache_lookup_committed fun_eq_iff)

lemma commit_hold_keys: "distinct (List.map fst t) \<Longrightarrow> distinct (List.map fst (commit_hold t item))"
  by (auto simp: commit_hold_def distinct_update distinct_delete split: prod.splits option.splits)

lemma upsert_keys: "distinct (List.map fst t) \<Longrightarrow> distinct (List.map fst (upsert_patron now t item))"
  by (auto simp: upsert_patron_def distinct_update split: prod.splits option.splits)

lemma foldl_keeps: "\<lbrakk>P a; \<And>a x. x \<in> set xs \<Longrightarrow> P a \<Longrightarrow> P (f a x)\<rbrakk> \<Longrightarrow> P (foldl f a xs)"
  by (induction xs arbitrary: a) auto

lemma foldl_commit_rows:
  assumes "\<forall>(k, r) \<in> set t. hr_item_key r = k" "\<forall>(k, v) \<in> set ov. \<forall>r. v = Some r \<longrightarrow> hr_item_key r = k"
  shows "\<forall>(k, r) \<in> set (foldl commit_hold t ov). hr_item_key r = k"
proof (rule foldl_keeps [where P = "\<lambda>t. \<forall>(k, r) \<in> set t. hr_item_key r = k", OF assms(1)])
  fix a :: "(string \<times> hold_row) list" and x
  assume x: "x \<in> set ov" and a: "\<forall>(k, r) \<in> set a. hr_item_key r = k"
  obtain k v where kv: "x = (k, v)" by (cases x)
  show "\<forall>(k, r) \<in> set (commit_hold a x). hr_item_key r = k"
  proof (cases v)
    case None
    with a kv show ?thesis by (auto simp: commit_hold_def AList.delete_eq)
  next
    case (Some r)
    with a kv x assms(2) show ?thesis by (auto simp: commit_hold_def dest!: set_update)
  qed
qed

lemma commit_wf:
  assumes "cache_wf c"
  shows "cache_wf (cache_commit c)"
proof (cases "pc_read_only c")
  case True
  with assms show ?thesis by (simp add: cache_commit_def cache_wf_def)
next
  case False
  from assms have d: "distinct (List.map fst (pc_patrons c))" "distinct (List.map fst (pc_holds c))"
    "\<forall>(k, r) \<in> set (pc_holds c). hr_item_key r = k"
    "\<forall>(k, v) \<in> set (pc_hold_overlay c). \<forall>r. v = Some r \<longrightarrow> hr_item_key r = k"
    by (auto simp: cache_wf_def)
  have h: "distinct (List.map fst (foldl commit_hold (pc_holds c) (pc_hold_overlay c)))"
    by (rule foldl_keeps) (use d commit_hold_keys in auto)
  have p: "distinct (List.map fst (foldl (upsert_patron now) (pc_patrons c) (pc_overlay c)))" for now
    by (rule foldl_keeps) (use d upsert_keys in auto)
  have wf: "cache_wf (commit_holds c)"
    using assms h foldl_commit_rows [OF d(3,4)] by (auto simp: cache_wf_def commit_holds_def)
  with p False show ?thesis by (auto simp: cache_commit_def Let_def cache_wf_def)
qed

section \<open>What a patron's holds are\<close>

lemma apply_staged_map:
  "map_of (apply_staged_hold pk found (k, v)) =
     (map_of found)(k := (case v of None \<Rightarrow> None | Some r \<Rightarrow> if hr_patron_pk r = pk then Some r else None))"
  by (cases v) (auto simp: apply_staged_hold_def AList.update_conv map_of_delete)

lemma foldl_apply_map:
  "distinct (List.map fst ov) \<Longrightarrow>
   map_of (foldl (apply_staged_hold pk) found ov) k =
     (case map_of ov k of None \<Rightarrow> map_of found k
      | Some None \<Rightarrow> None | Some (Some r) \<Rightarrow> if hr_patron_pk r = pk then Some r else None)"
proof (induction ov arbitrary: found)
  case Nil
  then show ?case by simp
next
  case (Cons item ov)
  obtain k' v where i: "item = (k', v)" by (cases item)
  from Cons.prems have "k' \<notin> dom (map_of ov)" by (simp add: i dom_map_of_conv_image_fst)
  then have "map_of ov k' = None" by auto
  with Cons i show ?case by (auto simp: apply_staged_map split: option.split)
qed

lemma apply_staged_keys: "distinct (List.map fst t) \<Longrightarrow> distinct (List.map fst (apply_staged_hold pk t item))"
  by (auto simp: apply_staged_hold_def distinct_update distinct_delete split: prod.splits option.splits)

lemma distinct_fst_filter: "distinct (List.map fst t) \<Longrightarrow> distinct (List.map fst (filter P t))"
  by (induction t) auto

lemma map_of_filter_rows:
  "distinct (List.map fst t) \<Longrightarrow>
   map_of (filter (\<lambda>r. P (snd r)) t) k = (case map_of t k of Some r \<Rightarrow> if P r then Some r else None | None \<Rightarrow> None)"
  by (induction t) (auto split: option.splits simp: map_of_eq_None_iff image_iff)

lemma set_snd_map_of: "distinct (List.map fst t) \<Longrightarrow> set (List.map snd t) = {v. \<exists>k. map_of t k = Some v}"
  by (force simp: image_iff map_of_eq_Some_iff)

lemma hold_get_key: "\<lbrakk>cache_wf c; hold_get c k = Some r\<rbrakk> \<Longrightarrow> hr_item_key r = k"
  unfolding cache_wf_def hold_get_def by (fastforce dest: map_of_SomeD split: option.splits)

lemma holds_listed_spec:
  assumes "cache_wf c"
  shows "set (holds_for_patron c pk) = {r. \<exists>k. hold_get c k = Some r \<and> hr_patron_pk r = pk}
    \<and> distinct (List.map hr_item_key (holds_for_patron c pk))
    \<and> sorted (List.map (\<lambda>r. (hr_event_time r, hr_item_key r)) (holds_for_patron c pk))"
proof -
  let ?found = "filter (\<lambda>r. hr_patron_pk (snd r) = pk) (pc_holds c)"
  let ?all = "foldl (apply_staged_hold pk) ?found (pc_hold_overlay c)"
  from assms have d: "distinct (List.map fst (pc_holds c))" "distinct (List.map fst (pc_hold_overlay c))"
    by (auto simp: cache_wf_def)
  have da: "distinct (List.map fst ?all)"
    by (rule foldl_keeps) (use distinct_fst_filter [OF d(1)] apply_staged_keys in auto)
  have m: "map_of ?all k = (case hold_get c k of Some r \<Rightarrow> if hr_patron_pk r = pk then Some r else None | None \<Rightarrow> None)" for k
    unfolding foldl_apply_map [OF d(2)] hold_get_def
    using map_of_filter_rows [OF d(1), of "\<lambda>r. hr_patron_pk r = pk"] by (simp split: option.split)
  have "set (holds_for_patron c pk) = {v. \<exists>k. map_of ?all k = Some v}"
    using set_snd_map_of [OF da] by (simp add: holds_for_patron_def Let_def)
  also have "\<dots> = {r. \<exists>k. hold_get c k = Some r \<and> hr_patron_pk r = pk}"
    unfolding m by (auto split: option.splits if_splits)
  finally have set: "set (holds_for_patron c pk) = {r. \<exists>k. hold_get c k = Some r \<and> hr_patron_pk r = pk}" .
  have keys: "List.map hr_item_key (List.map snd ?all) = List.map fst ?all"
  proof -
    have "hr_item_key r = k" if "(k, r) \<in> set ?all" for k r
      using map_of_is_SomeI [OF da that] m [of k] hold_get_key [OF assms] by (auto split: option.splits if_splits)
    then show ?thesis by auto
  qed
  have "mset (List.map hr_item_key (holds_for_patron c pk)) = mset (List.map fst ?all)"
    unfolding keys [symmetric] by (simp add: holds_for_patron_def Let_def multiset.map_comp)
  then have "distinct (List.map hr_item_key (holds_for_patron c pk))"
    using da by (metis mset_eq_imp_distinct_iff)
  with set show ?thesis by (simp add: holds_for_patron_def Let_def)
qed

text \<open>C38. The holds listed for a patron are exactly the ledger rows (staged changes included) that a lookup by
  item would return with that patron, each item once, oldest first with ties broken by item key.\<close>

theorem holds_for_patron_spec:
  assumes "cache_wf c"
  shows "set (holds_for_patron c pk) = {r. \<exists>k. hold_get c k = Some r \<and> hr_patron_pk r = pk}
    \<and> distinct (List.map hr_item_key (holds_for_patron c pk))
    \<and> sorted (List.map (\<lambda>r. (hr_event_time r, hr_item_key r)) (holds_for_patron c pk))"
  using assms by (rule holds_listed_spec)

definition sample_cache :: patron_cache where
  "sample_cache = \<lparr>pc_patrons = [], pc_holds = [(''k1'', \<lparr>hr_item_key = ''k1'', hr_event_time = ''2024-01-02T00:00:00Z'',
      hr_patron_pk = [7], hr_destination = ''main'', hr_static = (False, False, False), hr_flags = (False, False, False),
      hr_revision = 0\<rparr>)], pc_rulesets = [], pc_overlay = [([7], \<lparr>sg_info = unknown_patron, sg_profile = False\<rparr>)],
     pc_hold_overlay = [(''k2'', None)], pc_new_rulesets = [], pc_today = 738900, pc_ttl_days = 180, pc_max_rows = 500000,
     pc_hold_days = 90, pc_hold_max_rows = 250000, pc_read_only = False\<rparr>"

lemma sample_cache_wf: "cache_wf sample_cache" "\<not> pc_read_only sample_cache"
  by (simp_all add: cache_wf_def sample_cache_def)

theorem holds_for_patron_spec_witness: "List.map hr_item_key (holds_for_patron sample_cache [7]) = [''k1'']
    \<and> distinct (List.map hr_item_key (holds_for_patron sample_cache [7]))"
  using holds_for_patron_spec [OF sample_cache_wf(1), of "[7]"]
  by (simp add: holds_for_patron_def sample_cache_def apply_staged_hold_def)

text \<open>Committing a delivered chunk's staged changes to the database changes nothing a reader can see: every
  patron lookup, every patron-card question and every ledger lookup answers as before, and the cache stays well formed.\<close>

lemma commit_invisible:
  assumes "cache_wf c" "\<not> pc_read_only c"
  shows "cache_lookup (cache_commit c) = cache_lookup c \<and> cache_contains (cache_commit c) = cache_contains c
    \<and> hold_get (cache_commit c) = hold_get c \<and> cache_wf (cache_commit c)
    \<and> pc_overlay (cache_commit c) = [] \<and> pc_hold_overlay (cache_commit c) = []"
proof -
  from assms(1) have d: "distinct (List.map fst (pc_overlay c))" "distinct (List.map fst (pc_hold_overlay c))"
    by (auto simp: cache_wf_def)
  have "pc_overlay (cache_commit c) = [] \<and> pc_hold_overlay (cache_commit c) = []"
    using assms(2) by (auto simp: cache_commit_def Let_def)
  moreover note commit_lookup [OF assms(2) d(1)] commit_hold_get [OF assms(2) d(2)] commit_wf [OF assms(1)]
  ultimately show ?thesis by (simp add: fun_eq_iff cache_contains_lookup)
qed

lemma commit_invisible_witness: "cache_contains sample_cache [7] \<and> cache_contains (cache_commit sample_cache) [7]"
  using commit_invisible [OF sample_cache_wf] by (simp add: cache_contains_def sample_cache_def)

section \<open>What a purge removes\<close>

lemma filter_not_taken:
  "distinct (List.map fst s) \<Longrightarrow> filter (\<lambda>r. fst r \<notin> set (List.map fst (take n s))) s = drop n s"
proof (induction s arbitrary: n)
  case Nil
  then show ?case by simp
next
  case (Cons r s)
  show ?case
  proof (cases n)
    case 0
    then show ?thesis by simp
  next
    case (Suc m)
    have "filter (\<lambda>x. fst x \<noteq> fst r \<and> fst x \<notin> fst ` set (take m s)) s = filter (\<lambda>x. fst x \<notin> fst ` set (take m s)) s"
      using Cons.prems by (intro filter_cong) (auto simp: image_iff)
    with Cons Suc show ?thesis by simp
  qed
qed

lemma delete_first_mset:
  assumes "distinct (List.map fst t)"
  shows "mset (delete_first f n t) = mset (drop n (sort_key f t))"
proof -
  let ?s = "sort_key f t"
  have ds: "distinct (List.map fst ?s)"
    using assms by (metis mset_map mset_sort mset_eq_imp_distinct_iff)
  have "mset (delete_first f n t) = mset (filter (\<lambda>r. fst r \<notin> set (List.map fst (take n ?s))) ?s)"
    by (simp add: delete_first_def Let_def)
  with filter_not_taken [OF ds] show ?thesis by simp
qed

lemma delete_first_length:
  assumes "distinct (List.map fst t)"
  shows "length (delete_first f n t) = length t - n"
  using arg_cong [OF delete_first_mset [OF assms, of f n], of size] by simp

lemma delete_first_set: "set (delete_first f n t) \<subseteq> set t"
  by (auto simp: delete_first_def Let_def)

lemma delete_first_least:
  assumes "distinct (List.map fst t)" "r \<in> set t" "r \<notin> set (delete_first f n t)" "r' \<in> set (delete_first f n t)"
  shows "f r \<le> f r'"
proof -
  let ?s = "sort_key f t"
  have eq: "set (delete_first f n t) = set (drop n ?s)"
    using delete_first_mset [OF assms(1), of f n] by (metis set_mset_mset)
  have "set t = set (take n ?s) \<union> set (drop n ?s)"
    by (metis append_take_drop_id set_append set_sort)
  with assms(2,3) eq have "r \<in> set (take n ?s)" by auto
  moreover have "sorted (List.map f (take n ?s) @ List.map f (drop n ?s))"
    by (metis append_take_drop_id map_append sorted_sort_key)
  ultimately show ?thesis using assms(4) eq by (auto simp: sorted_append)
qed

text \<open>A purge of the patron cache removes every row not seen within the sliding TTL and, if more than the row
  cap are left, the least recently seen of them: the cap holds afterwards, every surviving row was seen within the
  TTL, a row evicted for the cap was last seen no later than any that survives, nothing within the
  TTL is lost while the cap allows it, and the two counts returned account for every row removed.\<close>

lemma cache_purge_spec:
  assumes "cache_wf c" "\<not> pc_read_only c" "cache_purge c = (c', expired, evicted)"
  defines "cutoff \<equiv> iso_date (pc_today c - pc_ttl_days c)"
  shows "patron_count c' \<le> pc_max_rows c \<and> patron_count c = patron_count c' + expired + evicted
    \<and> expired = length (filter (\<lambda>r. pr_last_seen (snd r) < cutoff) (pc_patrons c))
    \<and> (\<forall>r \<in> set (pc_patrons c'). r \<in> set (pc_patrons c) \<and> cutoff \<le> pr_last_seen (snd r))
    \<and> (\<forall>r \<in> set (pc_patrons c). cutoff \<le> pr_last_seen (snd r) \<longrightarrow> r \<notin> set (pc_patrons c') \<longrightarrow>
         evicted > 0 \<and> (\<forall>r' \<in> set (pc_patrons c'). pr_last_seen (snd r) \<le> pr_last_seen (snd r')))"
proof -
  let ?kept = "filter (\<lambda>r. \<not> pr_last_seen (snd r) < cutoff) (pc_patrons c)"
  let ?n = "length ?kept - pc_max_rows c"
  let ?final = "if ?n > 0 then delete_first (\<lambda>r. pr_last_seen (snd r)) ?n ?kept else ?kept"
  have d: "distinct (List.map fst ?kept)"
    using assms(1) distinct_fst_filter by (auto simp: cache_wf_def)
  have c': "pc_patrons c' = ?final" "expired = length (pc_patrons c) - length ?kept" "evicted = length ?kept - length ?final"
    using assms(2,3) by (auto simp: cache_purge_def Let_def cutoff_def)
  have len: "length ?final = length ?kept - ?n"
    using delete_first_length [OF d, of "\<lambda>r. pr_last_seen (snd r)" ?n] by simp
  have part: "length (filter (\<lambda>r. pr_last_seen (snd r) < cutoff) (pc_patrons c)) + length ?kept = length (pc_patrons c)"
    by (rule sum_length_filter_compl)
  have sub: "set ?final \<subseteq> set ?kept" by (split if_split) (use delete_first_set in blast)
  have least: "pr_last_seen (snd r) \<le> pr_last_seen (snd r')"
    if "r \<in> set ?kept" "r \<notin> set ?final" "r' \<in> set ?final" for r r'
    using that delete_first_least [OF d, of r "\<lambda>r. pr_last_seen (snd r)" ?n r'] by (auto split: if_splits)
  show ?thesis
  proof (intro conjI ballI impI)
    show "patron_count c' \<le> pc_max_rows c" using len by (simp add: patron_count_def c')
    show "patron_count c = patron_count c' + expired + evicted" using len part by (simp add: patron_count_def c')
    show "expired = length (filter (\<lambda>r. pr_last_seen (snd r) < cutoff) (pc_patrons c))" using part by (simp add: c')
  next
    fix r assume "r \<in> set (pc_patrons c')"
    with sub have "r \<in> set ?kept" unfolding c' by blast
    then show "r \<in> set (pc_patrons c)" "cutoff \<le> pr_last_seen (snd r)" by auto
  next
    fix r assume r: "r \<in> set (pc_patrons c)" "cutoff \<le> pr_last_seen (snd r)" "r \<notin> set (pc_patrons c')"
    then have k: "r \<in> set ?kept" "r \<notin> set ?final" unfolding c' by auto
    then have n: "?n > 0" by (auto split: if_splits)
    with len show "evicted > 0" unfolding c'(3) using k(1) by (auto simp: length_pos_if_in_set)
    fix r' assume "r' \<in> set (pc_patrons c')"
    then show "pr_last_seen (snd r) \<le> pr_last_seen (snd r')" using least [OF k] unfolding c' by blast
  qed
qed

lemma cache_purge_spec_witness: "\<exists>c' expired evicted. cache_purge sample_cache = (c', expired, evicted)
    \<and> patron_count c' \<le> pc_max_rows sample_cache"
  using cache_purge_spec [OF sample_cache_wf] by (metis prod_cases3)

section \<open>The sliding TTL\<close>

lemma upsert_last_seen:
  "map_option pr_last_seen (map_of (upsert_patron now t (pk, s)) k) =
     (if k = pk then Some now else map_option pr_last_seen (map_of t k))"
  by (auto simp: upsert_patron_def AList.update_conv split: option.split)

lemma foldl_upsert_last_seen:
  "map_option pr_last_seen (map_of (foldl (upsert_patron now) t ov) k) =
     (if k \<in> fst ` set ov then Some now else map_option pr_last_seen (map_of t k))"
proof (induction ov arbitrary: t)
  case Nil
  then show ?case by simp
next
  case (Cons item ov)
  obtain pk s where "item = (pk, s)" by (cases item)
  with Cons show ?case by (simp add: upsert_last_seen)
qed

lemma cache_sight_overlay: "pk \<in> fst ` set (pc_overlay (cache_sight c pk))"
proof -
  have "map_of (pc_overlay (cache_sight c pk)) pk \<noteq> None"
    by (auto simp: cache_sight_def cache_stage_def AList.update_conv)
  then show ?thesis by (auto dest: map_of_SomeD intro: rev_image_eqI)
qed

lemma committed_sighting:
  assumes "\<not> pc_read_only c"
  shows "map_option pr_last_seen (map_of (pc_patrons (cache_commit (cache_sight c pk))) pk) = Some (iso_date (pc_today c))"
proof -
  let ?c = "cache_sight c pk"
  have ro: "\<not> pc_read_only ?c" "pc_today ?c = pc_today c"
    using assms by (auto simp: cache_sight_def cache_stage_def)
  have "pc_overlay ?c \<noteq> []" using cache_sight_overlay [of pk c] by auto
  with ro have "pc_patrons (cache_commit ?c) = foldl (upsert_patron (iso_date (pc_today c))) (pc_patrons ?c) (pc_overlay ?c)"
    by (simp add: cache_commit_def Let_def)
  then show ?thesis using foldl_upsert_last_seen cache_sight_overlay [of pk c] by metis
qed

lemma commit_frame [simp]:
  "pc_max_rows (cache_commit c) = pc_max_rows c" "pc_ttl_days (cache_commit c) = pc_ttl_days c"
  "pc_read_only (cache_commit c) = pc_read_only c" "pc_today (cache_commit c) = pc_today c"
  by (auto simp: cache_commit_def commit_holds_def Let_def)

lemma sight_frame [simp]:
  "pc_max_rows (cache_sight c pk) = pc_max_rows c" "pc_ttl_days (cache_sight c pk) = pc_ttl_days c"
  "pc_read_only (cache_sight c pk) = pc_read_only c" "pc_today (cache_sight c pk) = pc_today c"
  by (auto simp: cache_sight_def cache_stage_def)

text \<open>The TTL slides and is whole-day exact: a patron identifier seen on one day and committed is still recognized
  after the purge of a later day if and only if that day is at most \<open>ttl_days\<close> later (while the row cap is not hit).\<close>

lemma seen_patron_ttl:
  assumes "cache_wf c" "\<not> pc_read_only c" "1 \<le> pc_today c" "pc_today c \<le> later" "later \<le> 3652059"
    and "pc_ttl_days c < later"
    and "patron_count (cache_commit (cache_sight c pk)) \<le> pc_max_rows c"
  shows "cache_contains (fst (cache_purge ((cache_commit (cache_sight c pk))\<lparr>pc_today := later\<rparr>))) pk
    \<longleftrightarrow> later \<le> pc_today c + pc_ttl_days c"
proof -
  let ?c = "cache_commit (cache_sight c pk)"
  let ?cut = "iso_date (later - pc_ttl_days c)"
  let ?kept = "filter (\<lambda>r. \<not> pr_last_seen (snd r) < ?cut) (pc_patrons ?c)"
  have wf: "cache_wf ?c" using assms(1) by (intro commit_wf cache_sight_wf)
  have ov: "pc_overlay ?c = []" using assms(2) by (auto simp: cache_commit_def Let_def)
  have "length ?kept \<le> pc_max_rows c"
    using assms(7) length_filter_le le_trans unfolding patron_count_def by blast
  then have p: "pc_patrons (fst (cache_purge (?c\<lparr>pc_today := later\<rparr>))) = ?kept"
    and o: "pc_overlay (fst (cache_purge (?c\<lparr>pc_today := later\<rparr>))) = []"
    using assms(2) ov by (simp_all add: cache_purge_def Let_def)
  obtain row where row: "map_of (pc_patrons ?c) pk = Some row" "pr_last_seen row = iso_date (pc_today c)"
    using committed_sighting [OF assms(2), of pk] by auto
  have d: "distinct (List.map fst (pc_patrons ?c))" using wf by (simp add: cache_wf_def)
  have "cache_contains (fst (cache_purge (?c\<lparr>pc_today := later\<rparr>))) pk \<longleftrightarrow> map_of ?kept pk \<noteq> None"
    by (simp add: cache_contains_def p o)
  also have "\<dots> \<longleftrightarrow> \<not> iso_date (pc_today c) < ?cut"
    using map_of_filter_rows [OF d, of "\<lambda>r. \<not> pr_last_seen r < ?cut" pk] row by simp
  also have "\<dots> \<longleftrightarrow> \<not> pc_today c < later - pc_ttl_days c"
    using iso_date_less [of "pc_today c" "later - pc_ttl_days c"] assms(3-6) by simp
  finally show ?thesis using assms(6) by auto
qed

lemma seen_patron_ttl_witness:
  "cache_contains (fst (cache_purge ((cache_commit (cache_sight sample_cache [9]))\<lparr>pc_today := 739080\<rparr>))) [9]
   \<and> \<not> cache_contains (fst (cache_purge ((cache_commit (cache_sight sample_cache [9]))\<lparr>pc_today := 739081\<rparr>))) [9]"
proof -
  have n: "patron_count (cache_commit (cache_sight sample_cache [9])) \<le> pc_max_rows sample_cache"
    by (simp add: patron_count_def cache_commit_def commit_holds_def cache_sight_def cache_stage_def sample_cache_def
        upsert_patron_def Let_def)
  have t: "pc_today sample_cache = 738900" "pc_ttl_days sample_cache = 180" by (simp_all add: sample_cache_def)
  show ?thesis
    using seen_patron_ttl [OF sample_cache_wf, of 739080 "[9]"] seen_patron_ttl [OF sample_cache_wf, of 739081 "[9]"] n t
    by simp
qed

end
