(* ===== verification/V2Classify.thy ===== *)
theory V2Classify
  imports V2Rules V2Patrons
begin

text \<open>
  collector/v2_classify.py: what a hold is classified as, from its own message and the cached profile
  of its patron, beside the per-item classification of the dashboard it was moved from
  (src/src/metrics.py, \<open>build_acs_item_summary\<close>). The lemmas characterize the whole-word search and
  the main result is that the two classifications agree, although the collector holds no patron name
  and only compares keyed digests.
\<close>

section \<open>Regular-expression searches\<close>

text \<open>\<open>re.search\<close> of a pattern given by its match at a position (the character before, the rest).\<close>

fun search_from :: "(char option \<Rightarrow> string \<Rightarrow> bool) \<Rightarrow> char option \<Rightarrow> string \<Rightarrow> bool" where
  "search_from m prev [] \<longleftrightarrow> m prev []"
| "search_from m prev (c # cs) \<longleftrightarrow> m prev (c # cs) \<or> search_from m (Some c) cs"

definition word_at :: "char option \<Rightarrow> bool" where
  "word_at c = (case c of None \<Rightarrow> False | Some x \<Rightarrow> is_word_char x)"

definition next_char :: "string \<Rightarrow> char option" where
  "next_char s = (case s of [] \<Rightarrow> None | c # cs \<Rightarrow> Some c)"

text \<open>\<open>\bword\b\<close> for a word of letters, \<open>lit\b\<close> for a literal that ends in a letter, and a plain literal.\<close>

definition match_word :: "string \<Rightarrow> char option \<Rightarrow> string \<Rightarrow> bool" where
  "match_word w prev s \<longleftrightarrow> \<not> word_at prev \<and> prefix w s \<and> \<not> word_at (next_char (drop (length w) s))"

definition match_end :: "string \<Rightarrow> char option \<Rightarrow> string \<Rightarrow> bool" where
  "match_end w prev s \<longleftrightarrow> prefix w s \<and> \<not> word_at (next_char (drop (length w) s))"

definition match_literal :: "string \<Rightarrow> char option \<Rightarrow> string \<Rightarrow> bool" where
  "match_literal w prev s \<longleftrightarrow> prefix w s"

definition ill_word :: "string \<Rightarrow> bool" where
  "ill_word s = search_from (\<lambda>p t. match_word ''ILL'' p t \<or> match_literal ''INTERLIBRARY'' p t) None s"

definition ill_raw :: "string \<Rightarrow> bool" where
  "ill_raw s = search_from (\<lambda>p t. match_word ''ILL'' p t \<or> match_literal ''INTERLIBRARY'' p t
     \<or> match_end ''|DAILL'' p t \<or> match_end ''|AEILL'' p t \<or> match_end ''|PTILL'' p t) None s"

text \<open>The text of the first field with this tag, up to the next bar.\<close>

fun field_after :: "string \<Rightarrow> string \<Rightarrow> string option" where
  "field_after tag [] = (if tag = [] then Some [] else None)"
| "field_after tag (c # cs) =
     (if prefix tag (c # cs) then Some (takeWhile (\<lambda>x. x \<noteq> CHR ''|'') (drop (length tag) (c # cs)))
      else field_after tag cs)"

section \<open>The classifier\<close>

definition item_state :: "string \<Rightarrow> string" where
  "item_state raw =
     (if starts_with ''101YNY'' raw then ''hold'' else if starts_with ''101'' raw then ''non_hold_101'' else ''other_code10'')"

definition stripped_or_empty :: "string option \<Rightarrow> string" where
  "stripped_or_empty v = (case v of None \<Rightarrow> [] | Some s \<Rightarrow> py_strip s)"

definition patron_profile :: "string \<Rightarrow> string \<times> string" where
  "patron_profile raw = (stripped_or_empty (field_after ''|AE'' raw), stripped_or_empty (field_after ''|PT'' raw))"

definition name_is_ill_like :: "string \<Rightarrow> bool" where
  "name_is_ill_like name = ill_word (py_upper (py_strip name))"

definition type_is_ill :: "string \<Rightarrow> bool" where
  "type_is_ill kind \<longleftrightarrow> py_upper (py_strip kind) = ''ILL''"

definition static_flags :: "string \<Rightarrow> string option \<Rightarrow> rules \<Rightarrow> flags3" where
  "static_flags raw dest rs =
     (let raw_upper = py_upper raw;
          dest_upper = (case dest of None \<Rightarrow> [] | Some d \<Rightarrow> py_upper (py_strip d))
      in (ill_word dest_upper \<or> ill_raw raw_upper,
          list_ex (\<lambda>m. contains m raw_upper) (ru_branch_markers rs),
          list_ex (\<lambda>m. contains m raw_upper) (ru_collection_markers rs)))"

definition profile_outcome :: "patron_info option \<Rightarrow> rules \<Rightarrow> flags3" where
  "profile_outcome patron rs =
     (let known = (case patron of None \<Rightarrow> unknown_patron | Some i \<Rightarrow> i);
          among = (\<lambda>hmacs. case pi_name_k known of None \<Rightarrow> False | Some k \<Rightarrow> k \<in> set hmacs)
      in (pi_type_ill known \<or> pi_name_ill known, among (ru_branch_names rs), among (ru_collection_names rs)))"

definition combine :: "flags3 \<Rightarrow> flags3 \<Rightarrow> flags3" where
  "combine static outcome =
     (fst static \<or> fst outcome, fst (snd static) \<or> fst (snd outcome), snd (snd static) \<or> snd (snd outcome))"

definition classify_hold :: "string \<Rightarrow> string option \<Rightarrow> patron_info option \<Rightarrow> rules \<Rightarrow> flags3" where
  "classify_hold raw dest patron rs = combine (static_flags raw dest rs) (profile_outcome patron rs)"

text \<open>The cached profile of a message-64 record (pass 1 of the ACS transformation).\<close>

definition profile_info :: "sub_keys \<Rightarrow> string \<Rightarrow> patron_info" where
  "profile_info keys raw =
     (case patron_profile raw of (name, kind) \<Rightarrow>
        \<lparr>pi_name_k = (if name \<noteq> [] then Some (name_hmac keys name) else None),
         pi_type_ill = type_is_ill kind, pi_name_ill = name_is_ill_like name\<rparr>)"

section \<open>The dashboard's classification of one item\<close>

record dashboard_lists =
  dl_branch_names :: "string list"
  dl_collection_names :: "string list"
  dl_branch_patterns :: "string list"
  dl_collection_patterns :: "string list"

definition dash_clean :: "string list \<Rightarrow> string list" where
  "dash_clean vs = List.map (\<lambda>v. py_upper (py_strip v)) (filter (\<lambda>v. py_strip v \<noteq> []) vs)"

text \<open>The row's flags \<open>is_ill\<close>, \<open>is_programming\<close>, \<open>is_collection_services\<close>; missing values are empty text.\<close>

definition dash_flags :: "dashboard_lists \<Rightarrow> string \<Rightarrow> string \<Rightarrow> string \<Rightarrow> string \<Rightarrow> flags3" where
  "dash_flags dl name kind dest raw =
     (let name_upper = py_upper (py_strip name); raw_upper = py_upper raw in
      (py_upper (py_strip kind) = ''ILL'' \<or> ill_word (py_upper (py_strip dest)) \<or> ill_word name_upper \<or> ill_raw raw_upper,
       name_upper \<in> set (dash_clean (dl_branch_names dl))
         \<or> list_ex (\<lambda>p. contains (''|'' @ p @ ''|'') raw_upper) (dash_clean (dl_branch_patterns dl)),
       name_upper \<in> set (dash_clean (dl_collection_names dl))
         \<or> list_ex (\<lambda>p. contains (''|'' @ p @ ''|'') raw_upper) (dash_clean (dl_collection_patterns dl))))"

section \<open>What the whole-word search finds\<close>

lemma search_from_iff:
  "search_from m prev s \<longleftrightarrow> (\<exists>a b. s = a @ b \<and> m (if a = [] then prev else Some (last a)) b)"
proof (induction s arbitrary: prev)
  case Nil
  then show ?case by simp
next
  case (Cons c cs)
  show ?case (is "?l \<longleftrightarrow> ?r")
  proof
    assume ?l
    then consider "m prev (c # cs)" | "search_from m (Some c) cs" by auto
    then show ?r
    proof cases
      case 1
      then have "c # cs = [] @ (c # cs) \<and> m (if ([]::string) = [] then prev else Some (last [])) (c # cs)" by simp
      then show ?thesis by blast
    next
      case 2
      then obtain a b where "cs = a @ b" "m (if a = [] then Some c else Some (last a)) b" unfolding Cons by blast
      then show ?thesis by (intro exI [of _ "c # a"] exI [of _ b]) auto
    qed
  next
    assume ?r
    then obtain a b where ab: "c # cs = a @ b" "m (if a = [] then prev else Some (last a)) b" by blast
    show ?l
    proof (cases a)
      case Nil
      with ab have "m prev (c # cs)" by simp
      then show ?thesis by simp
    next
      case (Cons x a')
      with ab have "cs = a' @ b" "m (if a' = [] then Some c else Some (last a')) b" by (auto split: if_splits)
      then have "search_from m (Some c) cs" unfolding \<open>\<And>prev. search_from m prev cs \<longleftrightarrow> _\<close> by blast
      then show ?thesis by simp
    qed
  qed
qed

lemma search_or: "search_from (\<lambda>p t. m p t \<or> n p t) prev s \<longleftrightarrow> search_from m prev s \<or> search_from n prev s"
  by (induction s arbitrary: prev) auto

lemma search_literal: "search_from (match_literal w) prev s \<longleftrightarrow> sublist w s"
  unfolding search_from_iff match_literal_def by (auto simp: sublist_def prefix_def)

lemma search_word:
  "search_from (match_word w) None s \<longleftrightarrow>
     (\<exists>a b. s = a @ w @ b \<and> (a = [] \<or> \<not> is_word_char (last a)) \<and> (b = [] \<or> \<not> is_word_char (hd b)))"
proof -
  have n: "\<not> word_at (next_char b) \<longleftrightarrow> b = [] \<or> \<not> is_word_char (hd b)" for b
    by (cases b) (auto simp: word_at_def next_char_def)
  have p: "\<not> word_at (if a = [] then None else Some (last a)) \<longleftrightarrow> a = [] \<or> \<not> is_word_char (last a)" for a
    by (simp add: word_at_def)
  have q: "prefix w b \<and> Q (drop (length w) b) \<longleftrightarrow> (\<exists>z. b = w @ z \<and> Q z)" for b and Q :: "string \<Rightarrow> bool"
    by (auto simp: prefix_def)
  show ?thesis unfolding search_from_iff match_word_def n p q [of _ "\<lambda>z. z = [] \<or> \<not> is_word_char (hd z)"] by blast
qed

text \<open>The destination text or name is taken for an inter-library loan exactly when it has INTERLIBRARY anywhere or
  ILL as a whole word: no letter, digit or underscore directly before or after it.\<close>

lemma ill_word_spec:
  "ill_word s \<longleftrightarrow> sublist ''INTERLIBRARY'' s \<or>
     (\<exists>a b. s = a @ ''ILL'' @ b \<and> (a = [] \<or> \<not> is_word_char (last a)) \<and> (b = [] \<or> \<not> is_word_char (hd b)))"
  unfolding ill_word_def search_or search_literal search_word by blast

lemma ill_word_spec_witness: "ill_word ''AN ILL ITEM'' \<and> \<not> ill_word ''BILLED''"
proof
  have "''AN ILL ITEM'' = ''AN '' @ ''ILL'' @ '' ITEM'' \<and> (''AN '' = [] \<or> \<not> is_word_char (last ''AN ''))
      \<and> ('' ITEM'' = [] \<or> \<not> is_word_char (hd '' ITEM''))"
    by (simp add: is_word_char_def)
  then have "\<exists>a b. ''AN ILL ITEM'' = a @ ''ILL'' @ b \<and> (a = [] \<or> \<not> is_word_char (last a)) \<and> (b = [] \<or> \<not> is_word_char (hd b))"
    by blast
  then show "ill_word ''AN ILL ITEM''" unfolding ill_word_spec by (rule disjI2)
qed code_simp

section \<open>Agreement with the dashboard\<close>

lemma is_space_upper [simp]: "is_space (upper_char c) = is_space c"
  by (auto simp: upper_char_def is_space_def is_lower_def)

lemma upper_char_idem [simp]: "upper_char (upper_char c) = upper_char c"
  by (auto simp: upper_char_def is_lower_def)

lemma py_upper_idem [simp]: "py_upper (py_upper s) = py_upper s"
  by (simp add: py_upper_def)

lemma dropWhile_upper: "dropWhile is_space (List.map upper_char s) = List.map upper_char (dropWhile is_space s)"
  by (induction s) auto

lemma py_strip_upper: "py_strip (py_upper s) = py_upper (py_strip s)"
  by (simp add: py_strip_def py_upper_def dropWhile_upper rev_map)

lemma dash_clean_set: "set (dash_clean vs) = set (clean_names vs)"
  by (auto simp: dash_clean_def clean_names_def)

text \<open>Names that a normalized document lists are clean: normalizing them again changes nothing.\<close>

lemma rule_names_clean: "rule_names doc k = Inr ns \<Longrightarrow> set (dash_clean ns) = set ns"
  by (force simp: rule_names_def clean_names_def dash_clean_def py_strip_upper
      split: json.splits if_splits option.splits)

lemma normalize_document_clean:
  assumes "normalize_document doc = Inr d"
  shows "set (dash_clean (nd_branch_names d)) = set (nd_branch_names d)"
    "set (dash_clean (nd_collection_names d)) = set (nd_collection_names d)"
    "set (dash_clean (nd_branch_patterns d)) = set (nd_branch_patterns d)"
    "set (dash_clean (nd_collection_patterns d)) = set (nd_collection_patterns d)"
proof -
  obtain ms where "doc = JObj ms" using assms by (cases doc) auto
  with assms show "set (dash_clean (nd_branch_names d)) = set (nd_branch_names d)"
    "set (dash_clean (nd_collection_names d)) = set (nd_collection_names d)"
    "set (dash_clean (nd_branch_patterns d)) = set (nd_branch_patterns d)"
    "set (dash_clean (nd_collection_patterns d)) = set (nd_collection_patterns d)"
    by (auto split: if_splits json.splits dest!: rule_names_clean)
qed

lemma dash_clean_nonempty: "[] \<notin> set (dash_clean ns)"
  by (auto simp: dash_clean_def py_upper_def)

lemma clean_not_empty: "set (dash_clean ns) = set ns \<Longrightarrow> [] \<notin> set ns"
  using dash_clean_nonempty by metis

definition lists_of :: "norm_document \<Rightarrow> dashboard_lists" where
  "lists_of d = \<lparr>dl_branch_names = nd_branch_names d, dl_collection_names = nd_collection_names d,
     dl_branch_patterns = nd_branch_patterns d, dl_collection_patterns = nd_collection_patterns d\<rparr>"

definition listed_names :: "norm_document \<Rightarrow> string set" where
  "listed_names d = set (nd_branch_names d) \<union> set (nd_collection_names d)"

lemma py_strip_of_profile [simp]:
  "py_strip (fst (patron_profile raw)) = fst (patron_profile raw)" "py_strip (snd (patron_profile raw)) = snd (patron_profile raw)"
  by (auto simp: patron_profile_def stripped_or_empty_def split: option.split)

lemma name_hmac_among:
  assumes "set (dash_clean ns) = set ns"
    and "\<forall>n \<in> set ns. name_hmac keys n = name_hmac keys name \<longrightarrow> n = py_upper (py_strip name)"
  shows "name_hmac keys name \<in> set (List.map (name_hmac keys) ns) \<longleftrightarrow> py_upper (py_strip name) \<in> set ns"
proof -
  have "name_hmac keys (py_upper (py_strip name)) = name_hmac keys name"
    by (simp add: name_hmac_def py_strip_upper)
  then have "name_hmac keys name \<in> name_hmac keys ` set ns" if "py_upper (py_strip name) \<in> set ns"
    using that by (metis imageI)
  moreover have "py_upper (py_strip name) \<in> set ns" if "name_hmac keys name \<in> name_hmac keys ` set ns"
    using that assms(2) by (metis imageE)
  ultimately show ?thesis by auto
qed

lemma marker_list: "list_ex (\<lambda>m. contains m s) (List.map marker ps) \<longleftrightarrow> list_ex (\<lambda>p. contains (''|'' @ p @ ''|'') s) ps"
  by (simp add: list_ex_iff marker_def)

lemma list_ex_dash: "set (dash_clean ps) = set ps \<Longrightarrow> list_ex P (dash_clean ps) \<longleftrightarrow> list_ex P ps"
  by (simp add: list_ex_iff)

text \<open>C37. The collector classifies a hold exactly as the dashboard did, whatever the rules, the hold's message and its
  patron record are: the inter-library-loan, branch-services and collection-services flags computed from keyed name digests
  are those the dashboard computes from the names, provided the patron's name shares its digest with no other listed name.\<close>

theorem classify_agrees_with_dashboard:
  assumes "compile_rules doc keys = Inr rs" "normalize_document doc = Inr d"
    and "\<forall>raw64. patron64 = Some raw64 \<longrightarrow> (\<forall>n \<in> listed_names d.
      name_hmac keys n = name_hmac keys (fst (patron_profile raw64)) \<longrightarrow> n = py_upper (fst (patron_profile raw64)))"
  shows "classify_hold raw dest (map_option (profile_info keys) patron64) rs =
    dash_flags (lists_of d) (case patron64 of None \<Rightarrow> [] | Some r \<Rightarrow> fst (patron_profile r))
      (case patron64 of None \<Rightarrow> [] | Some r \<Rightarrow> snd (patron_profile r)) (case dest of None \<Rightarrow> [] | Some t \<Rightarrow> t) raw"
proof -
  note clean = normalize_document_clean [OF assms(2)]
  have rs: "ru_branch_names rs = List.map (name_hmac keys) (nd_branch_names d)"
    "ru_collection_names rs = List.map (name_hmac keys) (nd_collection_names d)"
    "ru_branch_markers rs = List.map marker (nd_branch_patterns d)"
    "ru_collection_markers rs = List.map marker (nd_collection_patterns d)"
    using assms(1,2) by (auto simp: compile_rules_def)
  have static: "static_flags raw dest rs =
      (ill_word (py_upper (py_strip (case dest of None \<Rightarrow> [] | Some t \<Rightarrow> t))) \<or> ill_raw (py_upper raw),
       list_ex (\<lambda>p. contains (''|'' @ p @ ''|'') (py_upper raw)) (nd_branch_patterns d),
       list_ex (\<lambda>p. contains (''|'' @ p @ ''|'') (py_upper raw)) (nd_collection_patterns d))"
    by (simp add: static_flags_def Let_def rs marker_list split: option.split)
  note dash = dash_flags_def lists_of_def Let_def clean list_ex_dash [OF clean(3)] list_ex_dash [OF clean(4)]
  show ?thesis
  proof (cases patron64)
    case None
    have "\<not> ill_word []" by (simp add: ill_word_def match_word_def match_literal_def)
    then show ?thesis
      using clean_not_empty [OF clean(1)] clean_not_empty [OF clean(2)]
      by (auto simp: None classify_hold_def combine_def static profile_outcome_def unknown_patron_def dash)
  next
    case (Some r)
    obtain name kind where p: "patron_profile r = (name, kind)" by (cases "patron_profile r")
    have st: "py_strip name = name" "py_strip kind = kind" using py_strip_of_profile [of r] by (simp_all add: p)
    have among: "name_hmac keys name \<in> set (List.map (name_hmac keys) ns) \<longleftrightarrow> py_upper name \<in> set ns"
      if "set (dash_clean ns) = set ns" "set ns \<subseteq> listed_names d" for ns
      using name_hmac_among [OF that(1), of keys name] assms(3) that(2) st by (auto simp: Some p)
    have b: "name_hmac keys name \<in> set (ru_branch_names rs) \<longleftrightarrow> py_upper name \<in> set (nd_branch_names d)"
      "name_hmac keys name \<in> set (ru_collection_names rs) \<longleftrightarrow> py_upper name \<in> set (nd_collection_names d)"
      unfolding rs by (rule among; simp add: clean listed_names_def)+
    have o: "profile_outcome (Some (profile_info keys r)) rs =
        (py_upper kind = ''ILL'' \<or> ill_word (py_upper name), py_upper name \<in> set (nd_branch_names d),
         py_upper name \<in> set (nd_collection_names d))"
      using b clean_not_empty [OF clean(1)] clean_not_empty [OF clean(2)]
      by (auto simp: profile_outcome_def profile_info_def p Let_def type_is_ill_def name_is_ill_like_def st)
    show ?thesis
      by (simp add: Some p classify_hold_def combine_def static o dash st) blast
  qed
qed

definition sample_keys :: sub_keys where
  "sample_keys = \<lparr>k_event = [1], k_item = [2], k_patron = [3], k_name = [4], k_ruleset = [5]\<rparr>"

theorem classify_agrees_with_dashboard_witness:
  "\<exists>rs. compile_rules (JObj [(''schema_version'', JInt 1), (''branch_services_names'', JArr [JStr '' Doe''])]) sample_keys = Inr rs
   \<and> classify_hold ''101YNY|ABx|'' None (map_option (profile_info sample_keys) (Some ''64|AEdoe|'')) rs = (False, True, False)"
proof -
  let ?doc = "JObj [(''schema_version'', JInt 1), (''branch_services_names'', JArr [JStr '' Doe''])]"
  let ?d = "\<lparr>nd_destinations = [], nd_branch_names = [''DOE''], nd_collection_names = [], nd_branch_patterns = [], nd_collection_patterns = []\<rparr>"
  have n: "clean_names ['' Doe''] = [''DOE'']" by code_simp
  have d: "normalize_document ?doc = Inr ?d"
    by (simp add: rule_names_def jget_or_def n max_entries_def) (simp add: clean_names_def)
  then obtain rs where rs: "compile_rules ?doc sample_keys = Inr rs" by (simp add: compile_rules_def)
  have "py_upper (fst (patron_profile ''64|AEdoe|'')) = ''DOE''" by code_simp
  moreover have "dash_flags (lists_of ?d) (fst (patron_profile ''64|AEdoe|'')) (snd (patron_profile ''64|AEdoe|'')) [] ''101YNY|ABx|''
      = (False, True, False)"
    by code_simp
  ultimately show ?thesis
    using classify_agrees_with_dashboard [OF rs d, of "Some ''64|AEdoe|''" "''101YNY|ABx|''" None] rs
    by (simp add: listed_names_def)
qed

end
