(* ===== verification/V2Parsers.thy ===== *)
theory V2Parsers
  imports V2Normalize
begin

text \<open>
  The canonical line parsers, agent/parser/{checkins,rejects,acs}.py. pandas' \<open>to_datetime\<close> with the
  fixed format is the parameter \<open>parse_dt\<close> (naive local microseconds, \<open>None\<close> for NaT); the calendar
  columns pandas derives from it (\<open>date_only\<close>, \<open>hour\<close>, \<open>day_of_week\<close>) and the log lines are not
  modelled. The interface \<open>record_parser\<close> carries what the three have in common: short and blank
  lines vanish, and the labels of the surviving lines stay aligned with their rows.
\<close>

section \<open>The loop over numbered lines\<close>

fun keep_rows :: "(string \<Rightarrow> 'r option) \<Rightarrow> (nat \<times> string) list \<Rightarrow> 'r list \<times> nat list" where
  "keep_rows row_of [] = ([], [])"
| "keep_rows row_of ((offset, line) # rest) =
     (case row_of line of
        None \<Rightarrow> keep_rows row_of rest
      | Some r \<Rightarrow> (let (rows, kept) = keep_rows row_of rest in (r # rows, offset # kept)))"

definition numbered :: "string list \<Rightarrow> (nat \<times> string) list" where
  "numbered lines = zip [0..<length lines] lines"

text \<open>The cells of a bar-separated line with at least \<open>n\<close> columns, cut to \<open>n\<close> and stripped.\<close>

definition bar_cells :: "nat \<Rightarrow> string \<Rightarrow> string list option" where
  "bar_cells n line =
     (let line = py_strip line; parts = split_on (CHR ''|'') line in
      if line = [] then None
      else if length parts < n then None
      else Some (List.map py_strip (take n parts)))"

definition stamp_text :: "string \<Rightarrow> string \<Rightarrow> string" where
  "stamp_text date time = date @ '' '' @ time"

section \<open>Checkins.txt\<close>

definition checkin_columns :: "string list" where
  "checkin_columns = [''title'', ''barcode'', ''collection_code'', ''call_number'', ''shelf_code'', ''destination_raw'',
     ''is_problem'', ''message'', ''bin'', ''flag_1'', ''flag_2'', ''flag_3'', ''date'', ''time'']"

record checkin_row =
  cr_cells :: "string list" \<comment> \<open>the stripped cells, in the order of \<open>checkin_columns\<close>\<close>
  cr_barcode :: string
  cr_destination :: string
  cr_bin :: string
  cr_datetime :: "int option"
  cr_is_transit :: bool
  cr_is_problem :: bool

definition checkin_row_of :: "(string \<Rightarrow> int option) \<Rightarrow> string \<Rightarrow> checkin_row option" where
  "checkin_row_of parse_dt line =
     (case bar_cells (length checkin_columns) line of None \<Rightarrow> None
      | Some cells \<Rightarrow>
          (let cell = (\<lambda>name. the (map_of (zip checkin_columns cells) name));
               destination = display_destination (Some (cell ''destination_raw''))
           in Some \<lparr>cr_cells = cells, cr_barcode = cell ''barcode'', cr_destination = destination, cr_bin = cell ''bin'',
                    cr_datetime = parse_dt (stamp_text (cell ''date'') (cell ''time'')),
                    cr_is_transit = destination \<in> set [''Westside'', ''Library Express''],
                    cr_is_problem = (py_upper (cell ''is_problem'') = ''TRUE'')\<rparr>))"

definition parse_checkins_with_offsets ::
    "(string \<Rightarrow> int option) \<Rightarrow> (nat \<times> string) list \<Rightarrow> checkin_row list \<times> nat list" where
  "parse_checkins_with_offsets parse_dt = keep_rows (checkin_row_of parse_dt)"

definition parse_checkins :: "(string \<Rightarrow> int option) \<Rightarrow> string list \<Rightarrow> checkin_row list" where
  "parse_checkins parse_dt lines = fst (parse_checkins_with_offsets parse_dt (numbered lines))"

section \<open>Rejects.txt\<close>

definition reject_columns :: "string list" where
  "reject_columns = [''barcode'', ''error_message'', ''date'', ''time'']"

record reject_row =
  rr_barcode :: string
  rr_error_message :: string
  rr_datetime :: "int option"
  rr_error_simple :: string

definition reject_row_of :: "(string \<Rightarrow> int option) \<Rightarrow> string \<Rightarrow> reject_row option" where
  "reject_row_of parse_dt line =
     (case bar_cells (length reject_columns) line of None \<Rightarrow> None
      | Some cells \<Rightarrow>
          (let cell = (\<lambda>name. the (map_of (zip reject_columns cells) name))
           in Some \<lparr>rr_barcode = cell ''barcode'', rr_error_message = cell ''error_message'',
                    rr_datetime = parse_dt (stamp_text (cell ''date'') (cell ''time'')),
                    rr_error_simple = simplify_error_message (Some (cell ''error_message''))\<rparr>))"

definition parse_rejects_with_offsets ::
    "(string \<Rightarrow> int option) \<Rightarrow> (nat \<times> string) list \<Rightarrow> reject_row list \<times> nat list" where
  "parse_rejects_with_offsets parse_dt = keep_rows (reject_row_of parse_dt)"

definition parse_rejects :: "(string \<Rightarrow> int option) \<Rightarrow> string list \<Rightarrow> reject_row list" where
  "parse_rejects parse_dt lines = fst (parse_rejects_with_offsets parse_dt (numbered lines))"

section \<open>ACS Log.txt\<close>

text \<open>\<open>TAG_PATTERN.findall\<close>: two capitals, then everything up to the next bar.\<close>

function find_tags :: "string \<Rightarrow> (string \<times> string) list" where
  "find_tags (a # b # rest) =
     (if is_upper a \<and> is_upper b
      then ([a, b], takeWhile (\<lambda>c. c \<noteq> CHR ''|'') rest) # find_tags (dropWhile (\<lambda>c. c \<noteq> CHR ''|'') rest)
      else find_tags (b # rest))"
| "find_tags [a] = []"
| "find_tags [] = []"
  by pat_completeness auto
termination
  by (relation "measure length") (auto intro!: le_less_trans [OF length_dropWhile_le])

text \<open>The loop over the matches: a later tag overwrites an earlier one.\<close>

definition extract_fields :: "string \<Rightarrow> (string \<times> string) list" where
  "extract_fields message = foldl (\<lambda>fs (tag, value). AList.update tag (py_strip value) fs) [] (find_tags message)"

record acs_row =
  ar_date :: string
  ar_time :: string
  ar_datetime :: "int option"
  ar_message_code :: string
  ar_barcode :: "string option"
  ar_title :: "string option"
  ar_patron_id :: "string option"
  ar_destination :: "string option"
  ar_raw_message :: string

definition acs_row_of :: "(string \<Rightarrow> int option) \<Rightarrow> string \<Rightarrow> acs_row option" where
  "acs_row_of parse_dt line =
     (let line = py_strip (filter (\<lambda>c. c \<noteq> CHR 0x01) line) in
      if line = [] then None
      else case split_on (CHR 0x02) line of
        d # t # m # _ \<Rightarrow>
          (let date = py_strip d; time = py_strip t; message = py_strip m; fs = extract_fields message
           in Some \<lparr>ar_date = date, ar_time = time, ar_datetime = parse_dt (stamp_text date time),
                    ar_message_code = take 2 message, ar_barcode = map_of fs ''AB'', ar_title = map_of fs ''AJ'',
                    ar_patron_id = map_of fs ''AA'', ar_destination = map_of fs ''CT'', ar_raw_message = message\<rparr>)
      | _ \<Rightarrow> None)"

definition parse_acs_with_offsets :: "(string \<Rightarrow> int option) \<Rightarrow> (nat \<times> string) list \<Rightarrow> acs_row list \<times> nat list" where
  "parse_acs_with_offsets parse_dt = keep_rows (acs_row_of parse_dt)"

definition parse_acs :: "(string \<Rightarrow> int option) \<Rightarrow> string list \<Rightarrow> acs_row list" where
  "parse_acs parse_dt lines = fst (parse_acs_with_offsets parse_dt (numbered lines))"

section \<open>What the parsers have in common\<close>

locale record_parser =
  fixes row_of :: "string \<Rightarrow> 'r option"
    and run :: "(nat \<times> string) list \<Rightarrow> 'r list \<times> nat list"
  assumes run_Nil: "run [] = ([], [])"
    and run_Cons: "run ((offset, line) # rest) =
      (case row_of line of None \<Rightarrow> run rest | Some r \<Rightarrow> (r # fst (run rest), offset # snd (run rest)))"
begin

lemma aligned:
  "length (fst (run ns)) = length (snd (run ns))
   \<and> (\<exists>kept. subseq kept ns \<and> snd (run ns) = List.map fst kept
        \<and> List.map (row_of \<circ> snd) kept = List.map Some (fst (run ns))
        \<and> List.map (row_of \<circ> snd) (filter (\<lambda>n. row_of (snd n) \<noteq> None) ns) = List.map Some (fst (run ns)))"
proof (induction ns)
  case Nil
  then show ?case by (simp add: run_Nil)
next
  case (Cons n ns)
  obtain off line where n: "n = (off, line)" by (cases n)
  from Cons obtain kept where k: "subseq kept ns" "snd (run ns) = List.map fst kept"
    "List.map (row_of \<circ> snd) kept = List.map Some (fst (run ns))"
    "List.map (row_of \<circ> snd) (filter (\<lambda>n. row_of (snd n) \<noteq> None) ns) = List.map Some (fst (run ns))"
    "length (fst (run ns)) = length (snd (run ns))" by blast
  show ?case
  proof (cases "row_of line")
    case None
    with k n show ?thesis by (auto simp: run_Cons comp_def intro!: exI [of _ kept])
  next
    case (Some r)
    with k n show ?thesis by (auto simp: run_Cons comp_def intro!: exI [of _ "(off, line) # kept"])
  qed
qed

lemma rows_append: "fst (run (ns @ ms)) = fst (run ns) @ fst (run ms)"
  by (induction ns) (auto simp: run_Nil run_Cons split: option.split)

lemma rows_labels: "List.map snd ns = List.map snd ms \<Longrightarrow> fst (run ns) = fst (run ms)"
proof (induction ns arbitrary: ms)
  case Nil
  then show ?case by simp
next
  case (Cons n ns)
  then obtain m ms' where "ms = m # ms'" "snd n = snd m" "List.map snd ns = List.map snd ms'" by auto
  with Cons.IH [of ms'] show ?case by (cases n; cases m) (auto simp: run_Cons split: option.split)
qed

lemma rows_lines: "fst (run (numbered ls)) = List.map the (filter (\<lambda>r. r \<noteq> None) (List.map row_of ls))"
proof -
  have "fst (run ns) = List.map the (filter (\<lambda>r. r \<noteq> None) (List.map (row_of \<circ> snd) ns))" for ns
    by (induction ns) (auto simp: run_Nil run_Cons split: option.split)
  moreover have "List.map (row_of \<circ> snd) (numbered ls) = List.map row_of ls"
    by (simp add: numbered_def flip: map_map)
  ultimately show ?thesis by simp
qed

end

lemma keep_rows_Cons:
  "keep_rows row_of ((offset, line) # rest) = (case row_of line of None \<Rightarrow> keep_rows row_of rest
     | Some r \<Rightarrow> (r # fst (keep_rows row_of rest), offset # snd (keep_rows row_of rest)))"
  by (simp add: Let_def split: option.split prod.split)

interpretation checkins: record_parser "checkin_row_of parse_dt" "parse_checkins_with_offsets parse_dt" for parse_dt
  by unfold_locales (simp_all only: parse_checkins_with_offsets_def keep_rows_Cons keep_rows.simps(1))

interpretation rejects: record_parser "reject_row_of parse_dt" "parse_rejects_with_offsets parse_dt" for parse_dt
  by unfold_locales (simp_all only: parse_rejects_with_offsets_def keep_rows_Cons keep_rows.simps(1))

interpretation acs: record_parser "acs_row_of parse_dt" "parse_acs_with_offsets parse_dt" for parse_dt
  by unfold_locales (simp_all only: parse_acs_with_offsets_def keep_rows_Cons keep_rows.simps(1))

text \<open>Each parser gives back, for every surviving row, the label of exactly the line it came from: the labels are
  those of a subsequence of the lines, in order and as many as the rows, each row is the parse of the line its label
  stands on, and no line that parses is lost.\<close>

lemma parsers_keep_offsets:
  "(\<exists>kept. subseq kept ns \<and> snd (parse_checkins_with_offsets p ns) = List.map fst kept
      \<and> List.map (checkin_row_of p \<circ> snd) kept = List.map Some (fst (parse_checkins_with_offsets p ns))
      \<and> length (fst (parse_checkins_with_offsets p ns)) = length (filter (\<lambda>n. checkin_row_of p (snd n) \<noteq> None) ns))
   \<and> (\<exists>kept. subseq kept ns \<and> snd (parse_rejects_with_offsets p ns) = List.map fst kept
      \<and> List.map (reject_row_of p \<circ> snd) kept = List.map Some (fst (parse_rejects_with_offsets p ns))
      \<and> length (fst (parse_rejects_with_offsets p ns)) = length (filter (\<lambda>n. reject_row_of p (snd n) \<noteq> None) ns))
   \<and> (\<exists>kept. subseq kept ns \<and> snd (parse_acs_with_offsets p ns) = List.map fst kept
      \<and> List.map (acs_row_of p \<circ> snd) kept = List.map Some (fst (parse_acs_with_offsets p ns))
      \<and> length (fst (parse_acs_with_offsets p ns)) = length (filter (\<lambda>n. acs_row_of p (snd n) \<noteq> None) ns))"
  using checkins.aligned [of p ns] rejects.aligned [of p ns] acs.aligned [of p ns] by (metis length_map)

end
