(* ===== verification/V2Time.thy ===== *)
theory V2Time
  imports Calendar
begin

text \<open>
  The conversion of naive local times, \<open>to_utc\<close> of collector/v2_transform.py. A zone is what the
  standard library's \<open>ZoneInfo\<close> searches: the offset before the first transition and the transitions
  (UTC instant, offset from then on), with the recurring rule of the time-zone file unrolled over the
  years of use; offsets are microseconds here. For a local time the library takes the offset after the
  last transition whose wall-clock time has come, the wall clock of a transition being read with the
  larger of the two offsets for \<open>fold=0\<close> and with the smaller for \<open>fold=1\<close>.
\<close>

record zone =
  zn_initial :: int
  zn_transitions :: "(instant \<times> int) list"

text \<open>The binary search of \<open>ZoneInfo._find_trans\<close> over sorted keys, as a walk.\<close>

fun offset_walk :: "(int \<Rightarrow> int \<Rightarrow> int) \<Rightarrow> int \<Rightarrow> (instant \<times> int) list \<Rightarrow> int \<Rightarrow> int" where
  "offset_walk pick off [] x = off"
| "offset_walk pick off ((u, off') # ts) x = (if u + pick off off' \<le> x then offset_walk pick off' ts x else off)"

definition fold_offset :: "zone \<Rightarrow> bool \<Rightarrow> int \<Rightarrow> int" where
  "fold_offset z fold1 naive = offset_walk (if fold1 then min else max) (zn_initial z) (zn_transitions z) naive"

definition utc_offset :: "zone \<Rightarrow> instant \<Rightarrow> int" where
  "utc_offset z t = offset_walk (\<lambda>_ _. 0) (zn_initial z) (zn_transitions z) t"

definition local_time :: "zone \<Rightarrow> instant \<Rightarrow> int" where
  "local_time z t = t + utc_offset z t"

definition to_utc :: "int \<Rightarrow> zone \<Rightarrow> instant \<times> bool \<times> bool" where
  "to_utc naive z =
     (let first = fold_offset z False naive; second = fold_offset z True naive;
          instant = naive - first;
          nonexistent = (local_time z instant \<noteq> naive);
          ambiguous = (\<not> nonexistent \<and> first \<noteq> second)
      in (instant, ambiguous, nonexistent))"

section \<open>Well-formed zones\<close>

text \<open>An offset is strictly within a day (as \<open>tzinfo.utcoffset\<close> requires); transitions are two days apart or more.\<close>

fun transitions_ok :: "int \<Rightarrow> (instant \<times> int) list \<Rightarrow> bool" where
  "transitions_ok off [] \<longleftrightarrow> \<bar>off\<bar> < day_us"
| "transitions_ok off ((u, off') # ts) \<longleftrightarrow> \<bar>off\<bar> < day_us \<and> transitions_ok off' ts
     \<and> (case ts of [] \<Rightarrow> True | (u', _) # _ \<Rightarrow> u + 2 * day_us \<le> u')"

definition zone_ok :: "zone \<Rightarrow> bool" where
  "zone_ok z \<longleftrightarrow> transitions_ok (zn_initial z) (zn_transitions z)"

definition wall :: "int \<Rightarrow> (instant \<times> int) list \<Rightarrow> instant \<Rightarrow> int" where
  "wall off ts u = u + offset_walk (\<lambda>_ _. 0) off ts u"

lemma walk_bound: "transitions_ok off ts \<Longrightarrow> \<bar>offset_walk p off ts x\<bar> < day_us"
  by (induction p off ts x rule: offset_walk.induct) (auto split: if_splits)

lemma ok_bound: "transitions_ok off ts \<Longrightarrow> \<bar>off\<bar> < day_us"
  by (cases ts) auto

lemma walk_before:
  assumes "transitions_ok off' ts" "case ts of [] \<Rightarrow> True | (u', _) # _ \<Rightarrow> u + 2 * day_us \<le> u'" "x < u + day_us"
  shows "offset_walk min off' ts x = off'"
proof (cases ts)
  case Nil
  then show ?thesis by simp
next
  case (Cons t ts')
  obtain u' o' where t: "t = (u', o')" by (cases t)
  with Cons assms ok_bound [of o' ts'] ok_bound [of off' ts] show ?thesis by auto
qed

text \<open>After a transition and before its wall clock has run a day on, the offset is the new one or the wall clock is past \<open>x\<close>.\<close>

lemma wall_after:
  assumes "transitions_ok off' ts" "case ts of [] \<Rightarrow> True | (u', _) # _ \<Rightarrow> u + 2 * day_us \<le> u'" "x < u + day_us"
  shows "wall off' ts v = x \<longleftrightarrow> v + off' = x"
proof (cases ts)
  case Nil
  then show ?thesis by (simp add: wall_def)
next
  case (Cons t ts')
  obtain u' o' where t: "t = (u', o')" by (cases t)
  show ?thesis
  proof (cases "u' \<le> v")
    case True
    have "x < wall off' ts v" using walk_bound [OF assms(1), of "\<lambda>_ _. 0" v] assms(2,3) True
      by (simp add: Cons t wall_def)
    moreover have "x < v + off'" using ok_bound [OF assms(1)] assms(2,3) True by (simp add: Cons t)
    ultimately show ?thesis by simp
  next
    case False
    then show ?thesis by (simp add: Cons t wall_def)
  qed
qed

lemma to_utc_walks:
  fixes x :: int
  assumes "transitions_ok off ts"
  defines "a \<equiv> offset_walk max off ts x" and "b \<equiv> offset_walk min off ts x"
  shows "((\<exists>u. wall off ts u = x) \<longleftrightarrow> wall off ts (x - a) = x)
    \<and> (wall off ts (x - a) = x \<longrightarrow> (\<forall>u. wall off ts u = x \<longrightarrow> x - a \<le> u)
         \<and> (a \<noteq> b \<longleftrightarrow> (\<exists>u. u \<noteq> x - a \<and> wall off ts u = x)))"
  using assms(1) unfolding a_def b_def
proof (induction ts arbitrary: off)
  case Nil
  then show ?case by (auto simp: wall_def intro: exI [of _ "x - off"])
next
  case (Cons t ts)
  obtain u off' where t: "t = (u, off')" by (cases t)
  from Cons.prems have ok: "transitions_ok off' ts" "\<bar>off\<bar> < day_us" "\<bar>off'\<bar> < day_us"
    and sp: "case ts of [] \<Rightarrow> True | (u', _) # _ \<Rightarrow> u + 2 * day_us \<le> u'"
    using ok_bound by (auto simp: t)
  have W: "wall off (t # ts) v = (if u \<le> v then wall off' ts v else v + off)" for v
    by (simp add: wall_def t)
  show ?case
  proof (cases "u + max off off' \<le> x")
    case True
    have early: "wall off' ts v \<noteq> x" if "v < u" for v
    proof -
      have "offset_walk (\<lambda>_ _. 0) off' ts v = off'" using that sp by (auto split: list.splits)
      with that True show ?thesis by (simp add: wall_def)
    qed
    have eq: "wall off (t # ts) v = x \<longleftrightarrow> wall off' ts v = x" for v
      using early [of v] True by (auto simp: W)
    have m: "offset_walk max off (t # ts) x = offset_walk max off' ts x" "offset_walk min off (t # ts) x = offset_walk min off' ts x"
      using True by (auto simp: t)
    show ?thesis unfolding eq m using Cons.IH [OF ok(1)] .
  next
    case False
    then have x: "x < u + day_us" using ok by (auto simp: max_def split: if_splits)
    note after = wall_after [OF ok(1) sp x] and before = walk_before [OF ok(1) sp x]
    have S: "wall off (t # ts) v = x \<longleftrightarrow> (if u \<le> v then v + off' = x else v + off = x)" for v
      by (simp add: W after)
    have m: "offset_walk max off (t # ts) x = off"
      "offset_walk min off (t # ts) x = (if u + min off off' \<le> x then off' else off)"
      using False by (auto simp: t before)
    have ex: "(\<exists>v. wall off (t # ts) v = x) \<longleftrightarrow> u \<le> x - off' \<or> x - off < u"
      unfolding S by (metis add.commute diff_add_cancel le_diff_eq linorder_not_le add_diff_cancel)
    have ex2: "(\<exists>v. v \<noteq> x - off \<and> wall off (t # ts) v = x) \<longleftrightarrow> u \<le> x - off' \<and> off \<noteq> off'"
      unfolding S
    proof
      assume "\<exists>v. v \<noteq> x - off \<and> (if u \<le> v then v + off' = x else v + off = x)"
      then show "u \<le> x - off' \<and> off \<noteq> off'" by (auto split: if_splits)
    next
      assume "u \<le> x - off' \<and> off \<noteq> off'"
      then show "\<exists>v. v \<noteq> x - off \<and> (if u \<le> v then v + off' = x else v + off = x)"
        by (intro exI [of _ "x - off'"]) auto
    qed
    show ?thesis unfolding m ex ex2 unfolding S using False by auto
  qed
qed

text \<open>C34. A naive local time becomes the instant at which a clock in that zone first showed it: it is flagged nonexistent exactly
  when no instant has that local time, otherwise the instant returned has it and is the earliest that does, and it is flagged
  ambiguous exactly when another instant has it too.\<close>

theorem to_utc_first_occurrence:
  assumes "zone_ok z" "to_utc naive z = (t, ambiguous, nonexistent)"
  shows "(nonexistent \<longleftrightarrow> (\<forall>u. local_time z u \<noteq> naive))
    \<and> (\<not> nonexistent \<longrightarrow> local_time z t = naive \<and> (\<forall>u. local_time z u = naive \<longrightarrow> t \<le> u))
    \<and> (ambiguous \<longleftrightarrow> local_time z t = naive \<and> (\<exists>u. u \<noteq> t \<and> local_time z u = naive))"
proof -
  have w: "local_time z u = wall (zn_initial z) (zn_transitions z) u" for u
    by (simp add: local_time_def utc_offset_def wall_def)
  have r: "t = naive - offset_walk max (zn_initial z) (zn_transitions z) naive"
    "nonexistent = (local_time z t \<noteq> naive)"
    "ambiguous = (\<not> nonexistent \<and> offset_walk max (zn_initial z) (zn_transitions z) naive
       \<noteq> offset_walk min (zn_initial z) (zn_transitions z) naive)"
    using assms(2) by (auto simp: to_utc_def Let_def fold_offset_def)
  note walks = to_utc_walks [OF assms(1) [unfolded zone_ok_def], of naive, folded r(1), folded w]
  have ex: "(\<exists>u. local_time z u = naive) \<longleftrightarrow> local_time z t = naive" using walks by (rule conjunct1)
  have least: "(\<forall>u. local_time z u = naive \<longrightarrow> t \<le> u)" "ambiguous \<longleftrightarrow> (\<exists>u. u \<noteq> t \<and> local_time z u = naive)"
    if "local_time z t = naive"
    using walks that r(2,3) by simp_all
  show ?thesis
  proof (cases "local_time z t = naive")
    case True
    with least [OF True] r(2) show ?thesis by blast
  next
    case False
    with ex r(2,3) show ?thesis by simp
  qed
qed

definition sample_zone :: zone where
  "sample_zone = \<lparr>zn_initial = -18000000000, zn_transitions =
     [(1710054000000000, -14400000000), (1730613600000000, -18000000000)]\<rparr>"

text \<open>New York, 3 November 2024, 01:30 local: shown twice, first at 05:30 UTC.\<close>

theorem to_utc_first_occurrence_witness:
  "to_utc 1730597400000000 sample_zone = (1730611800000000, True, False)
   \<and> local_time sample_zone 1730611800000000 = 1730597400000000"
proof -
  have ok: "zone_ok sample_zone" by (simp add: zone_ok_def sample_zone_def)
  have c: "to_utc 1730597400000000 sample_zone = (1730611800000000, True, False)" by code_simp
  show ?thesis using to_utc_first_occurrence [OF ok c] c by simp
qed

end
