(* ===== verification/V2Transform.thy ===== *)
theory V2Transform
  imports V2Classify V2Parsers V2Time
begin

text \<open>
  collector/v2_transform.py: the privacy boundary, from raw lines to safe events and counters. The
  context holds what the Python context holds except the patron cache, which is threaded through the
  state of each loop (\<open>tstate\<close>: events so far, cache, counters); a body that raises stops the loop, and
  \<open>transform_lines\<close> turns that into the fixed code of the source. \<open>parse_dt\<close> is pandas' time parser.
\<close>

section \<open>Counters\<close>

record counters =
  ct_lines_read :: nat
  ct_records_parsed :: nat
  ct_dropped_bad_time :: nat
  ct_dropped_out_of_range_time :: nat
  ct_dropped_patron_card :: nat
  ct_dropped_missing_barcode :: nat
  ct_dst_ambiguous :: nat
  ct_dst_nonexistent :: nat
  ct_unknown_destination :: nat
  ct_unknown_bin :: nat
  ct_patron_records :: nat
  ct_acs_corrections :: nat
  ct_identical_identity_events :: nat
  ct_events :: "(string \<times> nat) list"
  ct_acs_states :: "(string \<times> nat) list"
  ct_reject_classes :: "(string \<times> nat) list"

definition new_counters :: counters where
  "new_counters = \<lparr>ct_lines_read = 0, ct_records_parsed = 0, ct_dropped_bad_time = 0, ct_dropped_out_of_range_time = 0,
     ct_dropped_patron_card = 0, ct_dropped_missing_barcode = 0, ct_dst_ambiguous = 0, ct_dst_nonexistent = 0,
     ct_unknown_destination = 0, ct_unknown_bin = 0, ct_patron_records = 0, ct_acs_corrections = 0,
     ct_identical_identity_events = 0, ct_events = List.map (\<lambda>k. (k, 0)) kinds,
     ct_acs_states = List.map (\<lambda>k. (k, 0)) acs_item_states, ct_reject_classes = List.map (\<lambda>k. (k, 0)) error_classes\<rparr>"

definition count_of :: "(string \<times> nat) list \<Rightarrow> string \<Rightarrow> nat" where
  "count_of counts k = (case map_of counts k of None \<Rightarrow> 0 | Some n \<Rightarrow> n)"

definition add_at :: "string \<Rightarrow> nat \<Rightarrow> (string \<times> nat) list \<Rightarrow> (string \<times> nat) list" where
  "add_at k n counts = AList.update k (count_of counts k + n) counts"

definition merge_counts :: "(string \<times> nat) list \<Rightarrow> (string \<times> nat) list \<Rightarrow> (string \<times> nat) list" where
  "merge_counts mine theirs = foldl (\<lambda>m (k, n). add_at k n m) mine theirs"

definition counters_merge :: "counters \<Rightarrow> counters \<Rightarrow> counters" where
  "counters_merge a b =
     \<lparr>ct_lines_read = ct_lines_read a + ct_lines_read b,
      ct_records_parsed = ct_records_parsed a + ct_records_parsed b,
      ct_dropped_bad_time = ct_dropped_bad_time a + ct_dropped_bad_time b,
      ct_dropped_out_of_range_time = ct_dropped_out_of_range_time a + ct_dropped_out_of_range_time b,
      ct_dropped_patron_card = ct_dropped_patron_card a + ct_dropped_patron_card b,
      ct_dropped_missing_barcode = ct_dropped_missing_barcode a + ct_dropped_missing_barcode b,
      ct_dst_ambiguous = ct_dst_ambiguous a + ct_dst_ambiguous b,
      ct_dst_nonexistent = ct_dst_nonexistent a + ct_dst_nonexistent b,
      ct_unknown_destination = ct_unknown_destination a + ct_unknown_destination b,
      ct_unknown_bin = ct_unknown_bin a + ct_unknown_bin b,
      ct_patron_records = ct_patron_records a + ct_patron_records b,
      ct_acs_corrections = ct_acs_corrections a + ct_acs_corrections b,
      ct_identical_identity_events = ct_identical_identity_events a + ct_identical_identity_events b,
      ct_events = merge_counts (ct_events a) (ct_events b),
      ct_acs_states = merge_counts (ct_acs_states a) (ct_acs_states b),
      ct_reject_classes = merge_counts (ct_reject_classes a) (ct_reject_classes b)\<rparr>"

definition prefixed :: "string \<Rightarrow> (string \<times> nat) list \<Rightarrow> (string \<times> nat) list" where
  "prefixed p counts = List.map (\<lambda>(k, n). (p @ k, n)) counts"

definition counters_flat :: "counters \<Rightarrow> (string \<times> nat) list" where
  "counters_flat c =
     [(''lines_read'', ct_lines_read c), (''records_parsed'', ct_records_parsed c),
      (''dropped_bad_time'', ct_dropped_bad_time c), (''dropped_out_of_range_time'', ct_dropped_out_of_range_time c),
      (''dropped_patron_card'', ct_dropped_patron_card c), (''dropped_missing_barcode'', ct_dropped_missing_barcode c),
      (''dst_ambiguous'', ct_dst_ambiguous c), (''dst_nonexistent'', ct_dst_nonexistent c),
      (''unknown_destination'', ct_unknown_destination c), (''unknown_bin'', ct_unknown_bin c),
      (''patron_records'', ct_patron_records c), (''acs_corrections'', ct_acs_corrections c),
      (''identical_identity_events'', ct_identical_identity_events c)]
     @ prefixed ''events_'' (ct_events c) @ prefixed ''acs_state_'' (ct_acs_states c)
     @ prefixed ''reject_class_'' (ct_reject_classes c)"

section \<open>Context and state\<close>

record transform_context =
  tc_keys :: sub_keys
  tc_rules :: rules
  tc_ruleset_id :: string
  tc_zone :: zone
  tc_now :: instant

record tstate =
  ts_events :: "safe_event list"
  ts_cache :: patron_cache
  ts_counters :: counters

definition earliest :: instant where
  "earliest = 946684800000000"

definition count_instant :: "transform_context \<Rightarrow> counters \<Rightarrow> int \<Rightarrow> instant option \<times> counters" where
  "count_instant ctx ct naive =
     (case to_utc naive (tc_zone ctx) of (t, ambiguous, nonexistent) \<Rightarrow>
        let ct1 = ct\<lparr>ct_dst_ambiguous := ct_dst_ambiguous ct + of_bool ambiguous,
                     ct_dst_nonexistent := ct_dst_nonexistent ct + of_bool nonexistent\<rparr>
        in if earliest \<le> t \<and> t \<le> tc_now ctx + day_us then (Some t, ct1)
           else (None, ct1\<lparr>ct_dropped_out_of_range_time := ct_dropped_out_of_range_time ct1 + 1\<rparr>))"

definition guarded_card :: "transform_context \<Rightarrow> patron_cache \<Rightarrow> string \<Rightarrow> bool \<times> patron_cache" where
  "guarded_card ctx cache barcode =
     (if barcode = [] then (False, cache)
      else let pk = patron_id_hmac (tc_keys ctx) barcode in
        if cache_contains cache pk then (True, cache_sight cache pk) else (False, cache))"

definition count_event :: "string \<Rightarrow> counters \<Rightarrow> counters" where
  "count_event kind ct = ct\<lparr>ct_events := add_at kind 1 (ct_events ct)\<rparr>"

definition finish_events :: "safe_event list \<Rightarrow> counters \<Rightarrow> counters" where
  "finish_events events ct =
     ct\<lparr>ct_identical_identity_events := ct_identical_identity_events ct
          + (length events - length (remdups (List.map event_key_of events)))\<rparr>"

definition text_of :: "string option \<Rightarrow> string" where
  "text_of v = (case v of None \<Rightarrow> [] | Some s \<Rightarrow> s)"

section \<open>ACS\<close>

definition parse_stamp :: "string \<Rightarrow> string + instant" where
  "parse_stamp s = (case strptime_utc s of None \<Rightarrow> Inl ''stamp'' | Some t \<Rightarrow> Inr t)"

definition correction_step :: "transform_context \<Rightarrow> flags3 \<Rightarrow> tstate \<Rightarrow> hold_row \<Rightarrow> string + tstate" where
  "correction_step ctx outcome st row =
     (let flags = combine (hr_static row) outcome in
      if flags = hr_flags row then Inr st
      else let revision = hr_revision row + 1 in
        bind_result (parse_stamp (hr_event_time row)) (\<lambda>t.
        bind_result (build_acs_item (tc_keys ctx) t (hr_item_key row) ''hold'' (Some (hr_destination row))
            (Some (fst flags)) (Some (fst (snd flags))) (Some (snd (snd flags))) (Some (tc_ruleset_id ctx)) revision) (\<lambda>e.
          Inr (st\<lparr>ts_events := ts_events st @ [AcsItem e],
                 ts_cache := hold_put (ts_cache st) (row\<lparr>hr_flags := flags, hr_revision := revision\<rparr>),
                 ts_counters := count_event ''acs_items''
                   ((ts_counters st)\<lparr>ct_acs_corrections := ct_acs_corrections (ts_counters st) + 1\<rparr>)\<rparr>))))"

definition corrections :: "transform_context \<Rightarrow> octets \<Rightarrow> flags3 \<Rightarrow> tstate \<Rightarrow> string + tstate" where
  "corrections ctx pk outcome st = fold_result (correction_step ctx outcome) st (holds_for_patron (ts_cache st) pk)"

record acs_record =
  rec_when :: int
  rec_code :: string
  rec_barcode :: string
  rec_patron_id :: string
  rec_destination :: "string option"
  rec_raw :: string

definition usable_records :: "acs_row list \<Rightarrow> acs_record list" where
  "usable_records rows =
     List.map (\<lambda>r. \<lparr>rec_when = the (ar_datetime r), rec_code = py_strip (ar_message_code r),
                   rec_barcode = py_strip (text_of (ar_barcode r)), rec_patron_id = py_strip (text_of (ar_patron_id r)),
                   rec_destination = ar_destination r, rec_raw = ar_raw_message r\<rparr>)
       (filter (\<lambda>r. ar_datetime r \<noteq> None) rows)"

text \<open>Pass 1: the latest profile of each patron, the corrections it calls for, and the sightings.\<close>

definition patron_profiles :: "sub_keys \<Rightarrow> acs_record list \<Rightarrow> (octets \<times> patron_info) list" where
  "patron_profiles keys records =
     foldl (\<lambda>ps r. AList.update (patron_id_hmac keys (rec_patron_id r)) (profile_info keys (rec_raw r)) ps) []
       (sort_key rec_when (filter (\<lambda>r. rec_code r = ''64'' \<and> rec_patron_id r \<noteq> []) records))"

definition profile_step :: "transform_context \<Rightarrow> tstate \<Rightarrow> octets \<times> patron_info \<Rightarrow> string + tstate" where
  "profile_step ctx st item =
     (case item of (pk, info) \<Rightarrow>
        let after = profile_outcome (Some info) (tc_rules ctx) in
        bind_result
          (if profile_outcome (cache_lookup (ts_cache st) pk) (tc_rules ctx) \<noteq> after then corrections ctx pk after st else Inr st)
          (\<lambda>st. Inr (st\<lparr>ts_cache := cache_stage (ts_cache st) pk info True\<rparr>)))"

definition sight_patrons :: "sub_keys \<Rightarrow> acs_record list \<Rightarrow> patron_cache \<Rightarrow> patron_cache" where
  "sight_patrons keys records cache =
     foldl (\<lambda>c r. if rec_code r \<noteq> ''64'' \<and> rec_patron_id r \<noteq> []
                 then cache_sight c (patron_id_hmac keys (rec_patron_id r)) else c) cache records"

text \<open>Pass 2: one item record.\<close>

definition hold_revision :: "hold_row option \<Rightarrow> string \<Rightarrow> flags3 \<Rightarrow> nat" where
  "hold_revision existing stamp flags =
     (case existing of None \<Rightarrow> 0
      | Some row \<Rightarrow> if hr_event_time row = stamp
                   then (if hr_flags row = flags then hr_revision row else hr_revision row + 1) else 0)"

definition not_older :: "hold_row option \<Rightarrow> string \<Rightarrow> bool" where
  "not_older existing stamp = (case existing of None \<Rightarrow> True | Some row \<Rightarrow> hr_event_time row \<le> stamp)"

definition count_state :: "string \<Rightarrow> counters \<Rightarrow> counters" where
  "count_state state ct = count_event ''acs_items'' (ct\<lparr>ct_acs_states := add_at state 1 (ct_acs_states ct)\<rparr>)"

definition hold_record :: "transform_context \<Rightarrow> tstate \<Rightarrow> acs_record \<Rightarrow> instant \<Rightarrow> string + tstate" where
  "hold_record ctx st r t =
     (let stamp = format_time t; key = item_key (tc_keys ctx) (rec_barcode r);
          cache = ts_cache st; existing = hold_get cache key;
          pk = (if rec_patron_id r \<noteq> [] then Some (patron_id_hmac (tc_keys ctx) (rec_patron_id r)) else None);
          static = static_flags (rec_raw r) (rec_destination r) (tc_rules ctx);
          flags = combine static (profile_outcome (case pk of None \<Rightarrow> None | Some k \<Rightarrow> cache_lookup cache k) (tc_rules ctx));
          slug = normalize_destination (rec_destination r) (tc_rules ctx);
          revision = hold_revision existing stamp flags;
          newest = not_older existing stamp;
          ct = ts_counters st
      in bind_result (build_acs_item (tc_keys ctx) t key ''hold'' (Some slug) (Some (fst flags)) (Some (fst (snd flags)))
             (Some (snd (snd flags))) (Some (tc_ruleset_id ctx)) revision) (\<lambda>e.
           Inr \<lparr>ts_events = ts_events st @ [AcsItem e],
                ts_cache =
                  (case pk of
                     Some k \<Rightarrow> if newest
                       then hold_put cache \<lparr>hr_item_key = key, hr_event_time = stamp, hr_patron_pk = k, hr_destination = slug,
                                           hr_static = static, hr_flags = flags, hr_revision = revision\<rparr>
                       else cache
                   | None \<Rightarrow> if existing \<noteq> None \<and> newest then hold_delete cache key else cache),
                ts_counters = count_state ''hold''
                  (ct\<lparr>ct_unknown_destination := ct_unknown_destination ct + of_bool (slug = unknown)\<rparr>)\<rparr>))"

definition other_record :: "transform_context \<Rightarrow> tstate \<Rightarrow> acs_record \<Rightarrow> instant \<Rightarrow> string \<Rightarrow> string + tstate" where
  "other_record ctx st r t state =
     (let stamp = format_time t; key = item_key (tc_keys ctx) (rec_barcode r); existing = hold_get (ts_cache st) key
      in bind_result (build_acs_item (tc_keys ctx) t key state None None None None None 0) (\<lambda>e.
           Inr \<lparr>ts_events = ts_events st @ [AcsItem e],
                ts_cache =
                  (case existing of None \<Rightarrow> ts_cache st
                   | Some row \<Rightarrow>
                       if (state = ''non_hold_101'' \<and> hr_event_time row \<le> stamp)
                          \<or> (state = ''other_code10'' \<and> stamp = hr_event_time row)
                       then hold_delete (ts_cache st) key else ts_cache st),
                ts_counters = count_state state (ts_counters st)\<rparr>))"

definition item_step :: "transform_context \<Rightarrow> tstate \<Rightarrow> acs_record \<Rightarrow> string + tstate" where
  "item_step ctx st r =
     (if rec_code r \<noteq> ''10'' then Inr st
      else if rec_barcode r = []
      then Inr (st\<lparr>ts_counters := (ts_counters st)\<lparr>ct_dropped_missing_barcode := ct_dropped_missing_barcode (ts_counters st) + 1\<rparr>\<rparr>)
      else case guarded_card ctx (ts_cache st) (rec_barcode r) of
        (True, cache) \<Rightarrow>
          Inr (st\<lparr>ts_cache := cache,
                 ts_counters := (ts_counters st)\<lparr>ct_dropped_patron_card := ct_dropped_patron_card (ts_counters st) + 1\<rparr>\<rparr>)
      | (False, cache) \<Rightarrow>
          (case count_instant ctx (ts_counters st) (rec_when r) of
             (None, ct) \<Rightarrow> Inr (st\<lparr>ts_counters := ct\<rparr>)
           | (Some t, ct) \<Rightarrow>
               (let st1 = st\<lparr>ts_counters := ct\<rparr>; state = item_state (rec_raw r) in
                if state = ''hold'' then hold_record ctx st1 r t else other_record ctx st1 r t state)))"

definition transform_acs ::
    "(string \<Rightarrow> int option) \<Rightarrow> transform_context \<Rightarrow> string list \<Rightarrow> patron_cache \<Rightarrow> string + tstate" where
  "transform_acs parse_dt ctx lines cache =
     (let rows = parse_acs parse_dt lines; records = usable_records rows; keys = tc_keys ctx;
          patrons = filter (\<lambda>r. rec_code r = ''64'' \<and> rec_patron_id r \<noteq> []) records;
          ct = new_counters\<lparr>ct_lines_read := length lines, ct_dropped_bad_time := length rows - length records,
                            ct_records_parsed := length records, ct_patron_records := length patrons\<rparr>
      in bind_result (fold_result (profile_step ctx) \<lparr>ts_events = [], ts_cache = cache, ts_counters = ct\<rparr>
           (patron_profiles keys records)) (\<lambda>st1.
         bind_result (fold_result (item_step ctx) (st1\<lparr>ts_cache := sight_patrons keys records (ts_cache st1)\<rparr>) records) (\<lambda>st2.
           Inr (st2\<lparr>ts_counters := finish_events (ts_events st2) (ts_counters st2)\<rparr>))))"

section \<open>Check-ins and rejects\<close>

definition opt_item_key :: "transform_context \<Rightarrow> string \<Rightarrow> string option" where
  "opt_item_key ctx barcode = (if barcode \<noteq> [] then Some (item_key (tc_keys ctx) barcode) else None)"

definition checkin_step :: "transform_context \<Rightarrow> tstate \<Rightarrow> checkin_row \<Rightarrow> string + tstate" where
  "checkin_step ctx st row =
     (let ct = ts_counters st in
      case cr_datetime row of
        None \<Rightarrow> Inr (st\<lparr>ts_counters := ct\<lparr>ct_dropped_bad_time := ct_dropped_bad_time ct + 1\<rparr>\<rparr>)
      | Some naive \<Rightarrow>
          (let ct = ct\<lparr>ct_records_parsed := ct_records_parsed ct + 1\<rparr>; barcode = py_strip (cr_barcode row) in
           case guarded_card ctx (ts_cache st) barcode of
             (True, cache) \<Rightarrow>
               Inr (st\<lparr>ts_cache := cache, ts_counters := ct\<lparr>ct_dropped_patron_card := ct_dropped_patron_card ct + 1\<rparr>\<rparr>)
           | (False, cache) \<Rightarrow>
               (case count_instant ctx ct naive of
                  (None, ct) \<Rightarrow> Inr (st\<lparr>ts_counters := ct\<rparr>)
                | (Some t, ct) \<Rightarrow>
                    (let dest = normalize_destination (Some (cr_destination row)) (tc_rules ctx);
                         bin = normalize_bin (Some (cr_bin row));
                         ct = ct\<lparr>ct_unknown_destination := ct_unknown_destination ct + of_bool (dest = unknown),
                                 ct_unknown_bin := ct_unknown_bin ct + of_bool (bin = unknown)\<rparr>
                     in bind_result (build_checkin (tc_keys ctx) t (opt_item_key ctx barcode) dest bin) (\<lambda>e.
                          Inr (st\<lparr>ts_events := ts_events st @ [Checkin e], ts_counters := count_event ''checkins'' ct\<rparr>))))))"

definition reject_step :: "transform_context \<Rightarrow> tstate \<Rightarrow> reject_row \<Rightarrow> string + tstate" where
  "reject_step ctx st row =
     (let ct = ts_counters st in
      case rr_datetime row of
        None \<Rightarrow> Inr (st\<lparr>ts_counters := ct\<lparr>ct_dropped_bad_time := ct_dropped_bad_time ct + 1\<rparr>\<rparr>)
      | Some naive \<Rightarrow>
          (let ct = ct\<lparr>ct_records_parsed := ct_records_parsed ct + 1\<rparr>; barcode = py_strip (rr_barcode row) in
           case guarded_card ctx (ts_cache st) barcode of
             (True, cache) \<Rightarrow>
               Inr (st\<lparr>ts_cache := cache, ts_counters := ct\<lparr>ct_dropped_patron_card := ct_dropped_patron_card ct + 1\<rparr>\<rparr>)
           | (False, cache) \<Rightarrow>
               (case count_instant ctx ct naive of
                  (None, ct) \<Rightarrow> Inr (st\<lparr>ts_counters := ct\<rparr>)
                | (Some t, ct) \<Rightarrow>
                    (let cls = classify_reject (Some (rr_error_message row))
                     in bind_result (build_reject (tc_keys ctx) t (opt_item_key ctx barcode) cls) (\<lambda>e.
                          Inr (st\<lparr>ts_events := ts_events st @ [Reject e],
                                 ts_counters := count_event ''rejects'' (ct\<lparr>ct_reject_classes := add_at cls 1 (ct_reject_classes ct)\<rparr>)\<rparr>))))))"

definition run_rows :: "(tstate \<Rightarrow> 'r \<Rightarrow> string + tstate) \<Rightarrow> nat \<Rightarrow> 'r list \<Rightarrow> patron_cache \<Rightarrow> string + tstate" where
  "run_rows step lines_read rows cache =
     bind_result (fold_result step \<lparr>ts_events = [], ts_cache = cache, ts_counters = new_counters\<lparr>ct_lines_read := lines_read\<rparr>\<rparr> rows)
       (\<lambda>st. Inr (st\<lparr>ts_counters := finish_events (ts_events st) (ts_counters st)\<rparr>))"

definition transform_checkins ::
    "(string \<Rightarrow> int option) \<Rightarrow> transform_context \<Rightarrow> string list \<Rightarrow> patron_cache \<Rightarrow> string + tstate" where
  "transform_checkins parse_dt ctx lines cache =
     run_rows (checkin_step ctx) (length lines) (parse_checkins parse_dt lines) cache"

definition transform_rejects ::
    "(string \<Rightarrow> int option) \<Rightarrow> transform_context \<Rightarrow> string list \<Rightarrow> patron_cache \<Rightarrow> string + tstate" where
  "transform_rejects parse_dt ctx lines cache =
     run_rows (reject_step ctx) (length lines) (parse_rejects parse_dt lines) cache"

definition source_order :: "string list" where
  "source_order = [''acs'', ''checkins'', ''rejects'']"

definition transform_lines ::
    "(string \<Rightarrow> int option) \<Rightarrow> string \<Rightarrow> string list \<Rightarrow> transform_context \<Rightarrow> patron_cache \<Rightarrow> string + tstate" where
  "transform_lines parse_dt source lines ctx cache =
     (let guarded = (\<lambda>r. case r of Inl _ \<Rightarrow> Inl (''transform_'' @ source @ ''_failed'') | Inr st \<Rightarrow> Inr st) in
      if source = ''acs'' then guarded (transform_acs parse_dt ctx lines cache)
      else if source = ''checkins'' then guarded (transform_checkins parse_dt ctx lines cache)
      else if source = ''rejects'' then guarded (transform_rejects parse_dt ctx lines cache)
      else Inl ''unknown_source'')"

end
