(* ===== verification/V2Boundary.thy ===== *)
theory V2Boundary
  imports V2Transform
begin

text \<open>
  What the privacy boundary guarantees: the check-in and reject transformations emit exactly the events
  of the admitted rows, built from the row's time, the digest of its barcode and closed values; every
  row is accounted for; nothing else of a row can influence what leaves. The interface
  \<open>guarded_stream\<close> carries the argument for both sources.
\<close>

section \<open>The guard and the time window\<close>

definition known_card :: "transform_context \<Rightarrow> patron_cache \<Rightarrow> string \<Rightarrow> bool" where
  "known_card ctx cache barcode \<longleftrightarrow> barcode \<noteq> [] \<and> cache_contains cache (patron_id_hmac (tc_keys ctx) barcode)"

definition utc_of :: "transform_context \<Rightarrow> int \<Rightarrow> instant" where
  "utc_of ctx naive = fst (to_utc naive (tc_zone ctx))"

definition in_window :: "transform_context \<Rightarrow> instant \<Rightarrow> bool" where
  "in_window ctx t \<longleftrightarrow> earliest \<le> t \<and> t \<le> tc_now ctx + day_us"

lemma guarded_card_eq:
  "guarded_card ctx cache b = (if known_card ctx cache b then (True, cache_sight cache (patron_id_hmac (tc_keys ctx) b)) else (False, cache))"
  by (auto simp: guarded_card_def known_card_def Let_def)

lemma sight_contains: "cache_contains c pk \<Longrightarrow> cache_contains (cache_sight c pk) = cache_contains c"
  by (auto simp: cache_sight_def cache_stage_contains fun_eq_iff)

lemma sight_holds [simp]: "hold_get (cache_sight c pk) = hold_get c"
  by (simp add: cache_sight_def)

section \<open>Accounting\<close>

lemma count_of_add_at [simp]: "count_of (add_at k n counts) k' = count_of counts k' + (if k' = k then n else 0)"
  by (simp add: count_of_def add_at_def AList.update_conv)

record tally =
  tl_parsed :: nat
  tl_bad_time :: nat
  tl_card :: nat
  tl_range :: nat
  tl_events :: nat
  tl_missing :: nat

definition tally_of :: "string \<Rightarrow> counters \<Rightarrow> tally" where
  "tally_of kind ct = \<lparr>tl_parsed = ct_records_parsed ct, tl_bad_time = ct_dropped_bad_time ct, tl_card = ct_dropped_patron_card ct,
     tl_range = ct_dropped_out_of_range_time ct, tl_events = count_of (ct_events ct) kind,
     tl_missing = ct_dropped_missing_barcode ct\<rparr>"

lemma tally_simps [simp]:
  "tally_of k (ct\<lparr>ct_dropped_bad_time := n\<rparr>) = (tally_of k ct)\<lparr>tl_bad_time := n\<rparr>"
  "tally_of k (ct\<lparr>ct_records_parsed := n\<rparr>) = (tally_of k ct)\<lparr>tl_parsed := n\<rparr>"
  "tally_of k (ct\<lparr>ct_dropped_patron_card := n\<rparr>) = (tally_of k ct)\<lparr>tl_card := n\<rparr>"
  "tally_of k (ct\<lparr>ct_dropped_out_of_range_time := n\<rparr>) = (tally_of k ct)\<lparr>tl_range := n\<rparr>"
  "tally_of k (ct\<lparr>ct_dropped_missing_barcode := n\<rparr>) = (tally_of k ct)\<lparr>tl_missing := n\<rparr>"
  "tally_of k (ct\<lparr>ct_acs_corrections := n\<rparr>) = tally_of k ct" "tally_of k (ct\<lparr>ct_acs_states := cs\<rparr>) = tally_of k ct"
  "tl_missing (tally_of k ct) = ct_dropped_missing_barcode ct"
  "tally_of k (ct\<lparr>ct_dst_ambiguous := n\<rparr>) = tally_of k ct"
  "tally_of k (ct\<lparr>ct_dst_nonexistent := n\<rparr>) = tally_of k ct"
  "tally_of k (ct\<lparr>ct_unknown_destination := n\<rparr>) = tally_of k ct"
  "tally_of k (ct\<lparr>ct_unknown_bin := n\<rparr>) = tally_of k ct"
  "tally_of k (ct\<lparr>ct_reject_classes := cs\<rparr>) = tally_of k ct"
  "tally_of k (ct\<lparr>ct_identical_identity_events := n\<rparr>) = tally_of k ct"
  "tally_of k (count_event k ct) = (tally_of k ct)\<lparr>tl_events := tl_events (tally_of k ct) + 1\<rparr>"
  "tl_parsed (tally_of k ct) = ct_records_parsed ct" "tl_bad_time (tally_of k ct) = ct_dropped_bad_time ct"
  "tl_card (tally_of k ct) = ct_dropped_patron_card ct" "tl_range (tally_of k ct) = ct_dropped_out_of_range_time ct"
  by (simp_all add: tally_of_def count_event_def)

lemma count_instant_in:
  assumes "in_window ctx (utc_of ctx n)"
  shows "\<exists>ct'. count_instant ctx ct n = (Some (utc_of ctx n), ct') \<and> tally_of k ct' = tally_of k ct"
  using assms by (auto simp: count_instant_def in_window_def utc_of_def Let_def split: prod.splits)

lemma count_instant_out:
  assumes "\<not> in_window ctx (utc_of ctx n)"
  shows "\<exists>ct'. count_instant ctx ct n = (None, ct') \<and> tally_of k ct' = (tally_of k ct)\<lparr>tl_range := tl_range (tally_of k ct) + 1\<rparr>"
  using assms by (auto simp: count_instant_def in_window_def utc_of_def Let_def split: prod.splits)

section \<open>The guarded stream\<close>

text \<open>The laws of one loop body: a row without a time, with a known card, outside the window, or admitted.\<close>

locale guarded_stream =
  fixes step :: "tstate \<Rightarrow> 'r \<Rightarrow> string + tstate"
    and ctx :: transform_context
    and kind :: string
    and row_time :: "'r \<Rightarrow> int option"
    and row_barcode :: "'r \<Rightarrow> string"
    and event_of :: "'r \<Rightarrow> instant \<Rightarrow> string + safe_event"
  assumes no_time: "row_time r = None \<Longrightarrow>
      \<exists>ct. step st r = Inr (st\<lparr>ts_counters := ct\<rparr>)
         \<and> tally_of kind ct = (tally_of kind (ts_counters st))\<lparr>tl_bad_time := tl_bad_time (tally_of kind (ts_counters st)) + 1\<rparr>"
    and card: "\<lbrakk>row_time r = Some n; known_card ctx (ts_cache st) (row_barcode r)\<rbrakk> \<Longrightarrow>
      \<exists>ct. step st r = Inr (st\<lparr>ts_cache := cache_sight (ts_cache st) (patron_id_hmac (tc_keys ctx) (row_barcode r)), ts_counters := ct\<rparr>)
         \<and> tally_of kind ct = (tally_of kind (ts_counters st))\<lparr>tl_parsed := tl_parsed (tally_of kind (ts_counters st)) + 1,
              tl_card := tl_card (tally_of kind (ts_counters st)) + 1\<rparr>"
    and out_of_window: "\<lbrakk>row_time r = Some n; \<not> known_card ctx (ts_cache st) (row_barcode r); \<not> in_window ctx (utc_of ctx n)\<rbrakk> \<Longrightarrow>
      \<exists>ct. step st r = Inr (st\<lparr>ts_counters := ct\<rparr>)
         \<and> tally_of kind ct = (tally_of kind (ts_counters st))\<lparr>tl_parsed := tl_parsed (tally_of kind (ts_counters st)) + 1,
              tl_range := tl_range (tally_of kind (ts_counters st)) + 1\<rparr>"
    and admitted: "\<lbrakk>rules_ok (tc_rules ctx); row_time r = Some n; \<not> known_card ctx (ts_cache st) (row_barcode r); in_window ctx (utc_of ctx n)\<rbrakk> \<Longrightarrow>
      \<exists>e ct. event_of r (utc_of ctx n) = Inr e \<and> step st r = Inr (st\<lparr>ts_events := ts_events st @ [e], ts_counters := ct\<rparr>)
         \<and> tally_of kind ct = (tally_of kind (ts_counters st))\<lparr>tl_parsed := tl_parsed (tally_of kind (ts_counters st)) + 1,
              tl_events := tl_events (tally_of kind (ts_counters st)) + 1\<rparr>"
begin

definition is_admitted :: "patron_cache \<Rightarrow> 'r \<Rightarrow> bool" where
  "is_admitted cache r \<longleftrightarrow> (case row_time r of None \<Rightarrow> False
     | Some n \<Rightarrow> \<not> known_card ctx cache (row_barcode r) \<and> in_window ctx (utc_of ctx n))"

definition stream_event :: "'r \<Rightarrow> string + safe_event" where
  "stream_event r = event_of r (utc_of ctx (the (row_time r)))"

definition accounted :: "patron_cache \<Rightarrow> (('r \<Rightarrow> bool) \<Rightarrow> nat) \<Rightarrow> tally \<Rightarrow> tally \<Rightarrow> bool" where
  "accounted cache n a b \<longleftrightarrow>
     tl_parsed b = tl_parsed a + n (\<lambda>r. row_time r \<noteq> None) \<and> tl_bad_time b = tl_bad_time a + n (\<lambda>r. row_time r = None)
     \<and> tl_card b = tl_card a + n (\<lambda>r. row_time r \<noteq> None \<and> known_card ctx cache (row_barcode r))
     \<and> tl_events b = tl_events a + n (is_admitted cache)
     \<and> tl_parsed b + tl_card a + tl_range a + tl_events a = tl_parsed a + tl_card b + tl_range b + tl_events b"

lemma known_cong: "cache_contains c = cache_contains c' \<Longrightarrow> known_card ctx c b = known_card ctx c' b"
  by (simp add: known_card_def)

lemma run:
  assumes ok: "rules_ok (tc_rules ctx)"
  shows "\<exists>st'. fold_result step st rows = Inr st'
    \<and> List.map Inr (ts_events st') = List.map Inr (ts_events st) @ List.map stream_event (filter (is_admitted (ts_cache st)) rows)
    \<and> cache_contains (ts_cache st') = cache_contains (ts_cache st) \<and> hold_get (ts_cache st') = hold_get (ts_cache st)
    \<and> accounted (ts_cache st) (\<lambda>P. length (filter P rows)) (tally_of kind (ts_counters st)) (tally_of kind (ts_counters st'))"
proof (induction rows arbitrary: st)
  case Nil
  then show ?case by (simp add: accounted_def)
next
  case (Cons r rows)
  have step: "\<exists>st1. step st r = Inr st1
      \<and> List.map Inr (ts_events st1) = List.map Inr (ts_events st) @ List.map stream_event (filter (is_admitted (ts_cache st)) [r])
      \<and> cache_contains (ts_cache st1) = cache_contains (ts_cache st) \<and> hold_get (ts_cache st1) = hold_get (ts_cache st)
      \<and> accounted (ts_cache st) (\<lambda>P. of_bool (P r)) (tally_of kind (ts_counters st)) (tally_of kind (ts_counters st1))"
  proof (cases "row_time r")
    case None
    with no_time [OF None, of st] show ?thesis by (fastforce simp: is_admitted_def accounted_def)
  next
    case (Some n)
    consider "known_card ctx (ts_cache st) (row_barcode r)"
      | "\<not> known_card ctx (ts_cache st) (row_barcode r)" "\<not> in_window ctx (utc_of ctx n)"
      | "\<not> known_card ctx (ts_cache st) (row_barcode r)" "in_window ctx (utc_of ctx n)" by blast
    then show ?thesis
    proof cases
      case 1
      then have c: "cache_contains (cache_sight (ts_cache st) (patron_id_hmac (tc_keys ctx) (row_barcode r))) = cache_contains (ts_cache st)"
        by (intro sight_contains) (simp add: known_card_def)
      from card [OF Some 1] Some 1 c show ?thesis by (fastforce simp: is_admitted_def accounted_def)
    next
      case 2
      with out_of_window [OF Some 2] Some show ?thesis by (fastforce simp: is_admitted_def accounted_def)
    next
      case 3
      with admitted [OF ok Some 3] Some show ?thesis by (fastforce simp: is_admitted_def stream_event_def accounted_def)
    qed
  qed
  then obtain st1 where s: "step st r = Inr st1"
      "List.map Inr (ts_events st1) = List.map Inr (ts_events st) @ List.map stream_event (filter (is_admitted (ts_cache st)) [r])"
      and c: "cache_contains (ts_cache st1) = cache_contains (ts_cache st)" "hold_get (ts_cache st1) = hold_get (ts_cache st)"
      and t: "accounted (ts_cache st) (\<lambda>P. of_bool (P r)) (tally_of kind (ts_counters st)) (tally_of kind (ts_counters st1))"
    by blast
  have h: "known_card ctx (ts_cache st1) = known_card ctx (ts_cache st)"
    using known_cong [OF c(1)] by (simp add: fun_eq_iff)
  then have a: "is_admitted (ts_cache st1) = is_admitted (ts_cache st)" by (intro ext) (simp add: is_admitted_def split: option.split)
  with h have "accounted (ts_cache st1) = accounted (ts_cache st)" by (intro ext) (simp add: accounted_def)
  note k = a this
  obtain st2 where r: "fold_result step st1 rows = Inr st2"
      "List.map Inr (ts_events st2) = List.map Inr (ts_events st1) @ List.map stream_event (filter (is_admitted (ts_cache st)) rows)"
      "cache_contains (ts_cache st2) = cache_contains (ts_cache st)" "hold_get (ts_cache st2) = hold_get (ts_cache st)"
      and t2: "accounted (ts_cache st) (\<lambda>P. length (filter P rows)) (tally_of kind (ts_counters st1)) (tally_of kind (ts_counters st2))"
    using Cons.IH [of st1] unfolding k c by blast
  show ?case
  proof (intro exI [of _ st2] conjI)
    show "fold_result step st (r # rows) = Inr st2" using s r by simp
    show "List.map Inr (ts_events st2) = List.map Inr (ts_events st) @ List.map stream_event (filter (is_admitted (ts_cache st)) (r # rows))"
      using s(2) r(2) by simp
  qed (use r t t2 in \<open>auto simp: accounted_def\<close>)
qed

end

section \<open>Both sources are guarded streams\<close>

lemma build_checkin_total:
  assumes "case item of None \<Rightarrow> True | Some k \<Rightarrow> is_hmac_hex k" "is_destination dest" "is_bin bin"
  shows "\<exists>e. build_checkin keys t item dest bin = Inr e"
proof -
  let ?e = "\<lambda>key. \<lparr>ck_event_key = key, ck_event_time = t, ck_item_key = item, ck_destination = dest, ck_bin = bin\<rparr>"
  have ok: "checkin_ok (?e (event_key keys c))" for c using assms by (simp add: checkin_ok_def)
  then obtain c where "canonical_checkin (format_time t) item dest bin = Inr c"
    using canonical_total [of "Checkin (?e (event_key keys undefined))" 0] by auto
  with ok show ?thesis by (simp add: build_checkin_def mk_checkin_Inr)
qed

lemma build_reject_total:
  assumes "case item of None \<Rightarrow> True | Some k \<Rightarrow> is_hmac_hex k" "cls \<in> set error_classes"
  shows "\<exists>e. build_reject keys t item cls = Inr e"
proof -
  let ?e = "\<lambda>key. \<lparr>rj_event_key = key, rj_event_time = t, rj_error_class = cls, rj_item_key = item\<rparr>"
  have ok: "reject_ok (?e (event_key keys c))" for c using assms by (simp add: reject_ok_def)
  then obtain c where "canonical_reject (format_time t) item cls = Inr c"
    using canonical_total [of "Reject (?e (event_key keys undefined))" 0] by auto
  with ok show ?thesis by (simp add: build_reject_def mk_reject_Inr)
qed

lemma opt_item_key_hex: "case opt_item_key ctx b of None \<Rightarrow> True | Some k \<Rightarrow> is_hmac_hex k"
  by (simp add: opt_item_key_def)

definition checkin_event :: "transform_context \<Rightarrow> checkin_row \<Rightarrow> instant \<Rightarrow> string + safe_event" where
  "checkin_event ctx row t =
     bind_result (build_checkin (tc_keys ctx) t (opt_item_key ctx (py_strip (cr_barcode row)))
       (normalize_destination (Some (cr_destination row)) (tc_rules ctx)) (normalize_bin (Some (cr_bin row)))) (\<lambda>e. Inr (Checkin e))"

definition reject_event :: "transform_context \<Rightarrow> reject_row \<Rightarrow> instant \<Rightarrow> string + safe_event" where
  "reject_event ctx row t =
     bind_result (build_reject (tc_keys ctx) t (opt_item_key ctx (py_strip (rr_barcode row)))
       (classify_reject (Some (rr_error_message row)))) (\<lambda>e. Inr (Reject e))"

interpretation checkin_stream: guarded_stream "checkin_step ctx" ctx "''checkins''" cr_datetime
    "\<lambda>r. py_strip (cr_barcode r)" "checkin_event ctx" for ctx
proof unfold_locales
  fix r :: checkin_row and st :: tstate and n
  assume r: "cr_datetime r = Some n" "\<not> known_card ctx (ts_cache st) (py_strip (cr_barcode r))" "\<not> in_window ctx (utc_of ctx n)"
  let ?ct = "ts_counters st"
  obtain ct where c: "count_instant ctx (?ct\<lparr>ct_records_parsed := ct_records_parsed ?ct + 1\<rparr>) n = (None, ct)"
    "tally_of ''checkins'' ct = (tally_of ''checkins'' ?ct)\<lparr>tl_parsed := ct_records_parsed ?ct + 1, tl_range := ct_dropped_out_of_range_time ?ct + 1\<rparr>"
    using count_instant_out [OF r(3), of "?ct\<lparr>ct_records_parsed := ct_records_parsed ?ct + 1\<rparr>" "''checkins''"] by auto
  then show "\<exists>ct. checkin_step ctx st r = Inr (st\<lparr>ts_counters := ct\<rparr>) \<and> tally_of ''checkins'' ct = (tally_of ''checkins'' ?ct)
      \<lparr>tl_parsed := tl_parsed (tally_of ''checkins'' ?ct) + 1, tl_range := tl_range (tally_of ''checkins'' ?ct) + 1\<rparr>"
    using r by (intro exI [of _ ct]) (simp add: checkin_step_def Let_def guarded_card_eq)
next
  fix r :: checkin_row and st :: tstate and n
  assume r: "rules_ok (tc_rules ctx)" "cr_datetime r = Some n" "\<not> known_card ctx (ts_cache st) (py_strip (cr_barcode r))"
    "in_window ctx (utc_of ctx n)"
  let ?ct = "ts_counters st"
  obtain ct where c: "count_instant ctx (?ct\<lparr>ct_records_parsed := ct_records_parsed ?ct + 1\<rparr>) n = (Some (utc_of ctx n), ct)"
    "tally_of ''checkins'' ct = (tally_of ''checkins'' ?ct)\<lparr>tl_parsed := ct_records_parsed ?ct + 1\<rparr>"
    using count_instant_in [OF r(4), of "?ct\<lparr>ct_records_parsed := ct_records_parsed ?ct + 1\<rparr>" "''checkins''"] by auto
  obtain e where "build_checkin (tc_keys ctx) (utc_of ctx n) (opt_item_key ctx (py_strip (cr_barcode r)))
       (normalize_destination (Some (cr_destination r)) (tc_rules ctx)) (normalize_bin (Some (cr_bin r))) = Inr e"
    using build_checkin_total [OF opt_item_key_hex normalize_destination_ok [OF r(1)] normalize_bin_ok] by blast
  with r c show "\<exists>e ct. checkin_event ctx r (utc_of ctx n) = Inr e
      \<and> checkin_step ctx st r = Inr (st\<lparr>ts_events := ts_events st @ [e], ts_counters := ct\<rparr>)
      \<and> tally_of ''checkins'' ct = (tally_of ''checkins'' ?ct)
          \<lparr>tl_parsed := tl_parsed (tally_of ''checkins'' ?ct) + 1, tl_events := tl_events (tally_of ''checkins'' ?ct) + 1\<rparr>"
    by (fastforce simp: checkin_event_def checkin_step_def Let_def guarded_card_eq)
qed (auto simp: checkin_step_def Let_def guarded_card_eq)

interpretation reject_stream: guarded_stream "reject_step ctx" ctx "''rejects''" rr_datetime
    "\<lambda>r. py_strip (rr_barcode r)" "reject_event ctx" for ctx
proof unfold_locales
  fix r :: reject_row and st :: tstate and n
  assume r: "rr_datetime r = Some n" "\<not> known_card ctx (ts_cache st) (py_strip (rr_barcode r))" "\<not> in_window ctx (utc_of ctx n)"
  let ?ct = "ts_counters st"
  obtain ct where c: "count_instant ctx (?ct\<lparr>ct_records_parsed := ct_records_parsed ?ct + 1\<rparr>) n = (None, ct)"
    "tally_of ''rejects'' ct = (tally_of ''rejects'' ?ct)\<lparr>tl_parsed := ct_records_parsed ?ct + 1, tl_range := ct_dropped_out_of_range_time ?ct + 1\<rparr>"
    using count_instant_out [OF r(3), of "?ct\<lparr>ct_records_parsed := ct_records_parsed ?ct + 1\<rparr>" "''rejects''"] by auto
  then show "\<exists>ct. reject_step ctx st r = Inr (st\<lparr>ts_counters := ct\<rparr>) \<and> tally_of ''rejects'' ct = (tally_of ''rejects'' ?ct)
      \<lparr>tl_parsed := tl_parsed (tally_of ''rejects'' ?ct) + 1, tl_range := tl_range (tally_of ''rejects'' ?ct) + 1\<rparr>"
    using r by (intro exI [of _ ct]) (simp add: reject_step_def Let_def guarded_card_eq)
next
  fix r :: reject_row and st :: tstate and n
  assume r: "rules_ok (tc_rules ctx)" "rr_datetime r = Some n" "\<not> known_card ctx (ts_cache st) (py_strip (rr_barcode r))"
    "in_window ctx (utc_of ctx n)"
  let ?ct = "ts_counters st"
  obtain ct where c: "count_instant ctx (?ct\<lparr>ct_records_parsed := ct_records_parsed ?ct + 1\<rparr>) n = (Some (utc_of ctx n), ct)"
    "tally_of ''rejects'' ct = (tally_of ''rejects'' ?ct)\<lparr>tl_parsed := ct_records_parsed ?ct + 1\<rparr>"
    using count_instant_in [OF r(4), of "?ct\<lparr>ct_records_parsed := ct_records_parsed ?ct + 1\<rparr>" "''rejects''"] by auto
  obtain e where "build_reject (tc_keys ctx) (utc_of ctx n) (opt_item_key ctx (py_strip (rr_barcode r)))
       (classify_reject (Some (rr_error_message r))) = Inr e"
    using build_reject_total [OF opt_item_key_hex] classify_reject_ok by blast
  with r c show "\<exists>e ct. reject_event ctx r (utc_of ctx n) = Inr e
      \<and> reject_step ctx st r = Inr (st\<lparr>ts_events := ts_events st @ [e], ts_counters := ct\<rparr>)
      \<and> tally_of ''rejects'' ct = (tally_of ''rejects'' ?ct)
          \<lparr>tl_parsed := tl_parsed (tally_of ''rejects'' ?ct) + 1, tl_events := tl_events (tally_of ''rejects'' ?ct) + 1\<rparr>"
    by (fastforce simp: reject_event_def reject_step_def Let_def guarded_card_eq)
qed (auto simp: reject_step_def Let_def guarded_card_eq)

section \<open>The properties of the two sources\<close>

definition admitted :: "transform_context \<Rightarrow> patron_cache \<Rightarrow> int option \<Rightarrow> string \<Rightarrow> bool" where
  "admitted ctx cache time barcode \<longleftrightarrow> (case time of None \<Rightarrow> False
     | Some n \<Rightarrow> \<not> known_card ctx cache (py_strip barcode) \<and> in_window ctx (utc_of ctx n))"

lemma admitted_streams:
  "checkin_stream.is_admitted ctx = (\<lambda>cache r. admitted ctx cache (cr_datetime r) (cr_barcode r))"
  "reject_stream.is_admitted ctx = (\<lambda>cache r. admitted ctx cache (rr_datetime r) (rr_barcode r))"
  by (intro ext; simp add: checkin_stream.is_admitted_def reject_stream.is_admitted_def admitted_def)+

definition start_state :: "nat \<Rightarrow> patron_cache \<Rightarrow> tstate" where
  "start_state n cache = \<lparr>ts_events = [], ts_cache = cache, ts_counters = new_counters\<lparr>ct_lines_read := n\<rparr>\<rparr>"

lemma start_tally: "tally_of k (ts_counters (start_state n cache)) = \<lparr>tl_parsed = 0, tl_bad_time = 0, tl_card = 0, tl_range = 0, tl_events = 0, tl_missing = 0\<rparr>"
  by (simp add: start_state_def tally_of_def new_counters_def count_of_def kinds_def)

lemma run_rows_start:
  "run_rows step n rows cache = bind_result (fold_result step (start_state n cache) rows)
     (\<lambda>st. Inr (st\<lparr>ts_counters := finish_events (ts_events st) (ts_counters st)\<rparr>))"
  by (simp add: run_rows_def start_state_def)

lemma finish_tally [simp]: "tally_of k (finish_events es ct) = tally_of k ct"
  by (simp add: finish_events_def)

text \<open>C21. Whatever the check-in log holds, its transformation succeeds and emits exactly one event per admitted row, in order: a
  row is admitted when its time parses, its barcode is not a patron identifier this machine has seen, and its instant is between
  2000 and one day from now; the event is built from that instant, the digest of the barcode, the closed destination and the
  closed bin. No row is lost silently: every parsed row is counted as an event or under exactly one reason for dropping it, and
  the guard itself never changes which identifiers are known nor the hold ledger.\<close>

theorem checkins_exact:
  fixes lines :: "string list" and parse_dt :: "string \<Rightarrow> int option"
  assumes "rules_ok (tc_rules ctx)"
  defines "rows \<equiv> parse_checkins parse_dt lines"
  shows "\<exists>st. transform_checkins parse_dt ctx lines cache = Inr st
    \<and> List.map Inr (ts_events st) = List.map (\<lambda>r. checkin_event ctx r (utc_of ctx (the (cr_datetime r))))
        (filter (\<lambda>r. admitted ctx cache (cr_datetime r) (cr_barcode r)) rows)
    \<and> cache_contains (ts_cache st) = cache_contains cache \<and> hold_get (ts_cache st) = hold_get cache
    \<and> (let ct = ts_counters st in
        ct_records_parsed ct + ct_dropped_bad_time ct = length rows
        \<and> count_of (ct_events ct) ''checkins'' = length (ts_events st)
        \<and> ct_records_parsed ct = length (ts_events st) + ct_dropped_patron_card ct + ct_dropped_out_of_range_time ct
        \<and> ct_dropped_patron_card ct = length (filter (\<lambda>r. cr_datetime r \<noteq> None \<and> known_card ctx cache (py_strip (cr_barcode r))) rows))"
proof -
  obtain st where r: "fold_result (checkin_step ctx) (start_state (length lines) cache) rows = Inr st"
      "List.map Inr (ts_events st) = List.map (checkin_stream.stream_event ctx)
        (filter (\<lambda>r. admitted ctx cache (cr_datetime r) (cr_barcode r)) rows)"
      "cache_contains (ts_cache st) = cache_contains cache" "hold_get (ts_cache st) = hold_get cache"
    and a: "checkin_stream.accounted ctx cache (\<lambda>P. length (filter P rows))
        \<lparr>tl_parsed = 0, tl_bad_time = 0, tl_card = 0, tl_range = 0, tl_events = 0, tl_missing = 0\<rparr> (tally_of ''checkins'' (ts_counters st))"
    using checkin_stream.run [OF assms(1), of "start_state (length lines) cache" rows]
    unfolding start_tally admitted_streams by (auto simp: start_state_def)
  have len: "length (ts_events st) = length (filter (\<lambda>r. admitted ctx cache (cr_datetime r) (cr_barcode r)) rows)"
    using arg_cong [OF r(2), of length] by simp
  have part: "length (filter (\<lambda>r. cr_datetime r \<noteq> None) rows) + length (filter (\<lambda>r. cr_datetime r = None) rows) = length rows"
    using sum_length_filter_compl [of "\<lambda>r. cr_datetime r \<noteq> None" rows] by simp
  show ?thesis
  proof (intro exI conjI)
    show "transform_checkins parse_dt ctx lines cache = Inr (st\<lparr>ts_counters := finish_events (ts_events st) (ts_counters st)\<rparr>)"
      using r(1) by (simp add: transform_checkins_def run_rows_start rows_def)
  qed (use r a len part in \<open>auto simp: checkin_stream.accounted_def checkin_stream.stream_event_def admitted_streams finish_events_def
      tally_of_def Let_def\<close>)
qed

text \<open>The same for the reject log: one event per admitted row, with the closed error class, and every row accounted for.\<close>

lemma rejects_exact:
  fixes lines :: "string list" and parse_dt :: "string \<Rightarrow> int option"
  assumes "rules_ok (tc_rules ctx)"
  defines "rows \<equiv> parse_rejects parse_dt lines"
  shows "\<exists>st. transform_rejects parse_dt ctx lines cache = Inr st
    \<and> List.map Inr (ts_events st) = List.map (\<lambda>r. reject_event ctx r (utc_of ctx (the (rr_datetime r))))
        (filter (\<lambda>r. admitted ctx cache (rr_datetime r) (rr_barcode r)) rows)
    \<and> cache_contains (ts_cache st) = cache_contains cache \<and> hold_get (ts_cache st) = hold_get cache
    \<and> (let ct = ts_counters st in
        ct_records_parsed ct + ct_dropped_bad_time ct = length rows
        \<and> count_of (ct_events ct) ''rejects'' = length (ts_events st)
        \<and> ct_records_parsed ct = length (ts_events st) + ct_dropped_patron_card ct + ct_dropped_out_of_range_time ct
        \<and> ct_dropped_patron_card ct = length (filter (\<lambda>r. rr_datetime r \<noteq> None \<and> known_card ctx cache (py_strip (rr_barcode r))) rows))"
proof -
  obtain st where r: "fold_result (reject_step ctx) (start_state (length lines) cache) rows = Inr st"
      "List.map Inr (ts_events st) = List.map (reject_stream.stream_event ctx)
        (filter (\<lambda>r. admitted ctx cache (rr_datetime r) (rr_barcode r)) rows)"
      "cache_contains (ts_cache st) = cache_contains cache" "hold_get (ts_cache st) = hold_get cache"
    and a: "reject_stream.accounted ctx cache (\<lambda>P. length (filter P rows))
        \<lparr>tl_parsed = 0, tl_bad_time = 0, tl_card = 0, tl_range = 0, tl_events = 0, tl_missing = 0\<rparr> (tally_of ''rejects'' (ts_counters st))"
    using reject_stream.run [OF assms(1), of "start_state (length lines) cache" rows]
    unfolding start_tally admitted_streams by (auto simp: start_state_def)
  have len: "length (ts_events st) = length (filter (\<lambda>r. admitted ctx cache (rr_datetime r) (rr_barcode r)) rows)"
    using arg_cong [OF r(2), of length] by simp
  have part: "length (filter (\<lambda>r. rr_datetime r \<noteq> None) rows) + length (filter (\<lambda>r. rr_datetime r = None) rows) = length rows"
    using sum_length_filter_compl [of "\<lambda>r. rr_datetime r \<noteq> None" rows] by simp
  show ?thesis
  proof (intro exI conjI)
    show "transform_rejects parse_dt ctx lines cache = Inr (st\<lparr>ts_counters := finish_events (ts_events st) (ts_counters st)\<rparr>)"
      using r(1) by (simp add: transform_rejects_def run_rows_start rows_def)
  qed (use r a len part in \<open>auto simp: reject_stream.accounted_def reject_stream.stream_event_def admitted_streams finish_events_def
      tally_of_def Let_def\<close>)
qed

definition sample_rules :: rules where
  "sample_rules = \<lparr>ru_destinations = [(''EASTSIDE'', ''eastside'')], ru_branch_names = [], ru_collection_names = [],
     ru_branch_markers = [], ru_collection_markers = [], ru_fingerprint = []\<rparr>"

definition sample_context :: transform_context where
  "sample_context = \<lparr>tc_keys = sample_keys, tc_rules = sample_rules, tc_ruleset_id = ''0a1b2c3d-0000-4000-8000-000000000001'',
     tc_zone = sample_zone, tc_now = 1730700000000000\<rparr>"

definition empty_cache :: patron_cache where
  "empty_cache = sample_cache\<lparr>pc_holds := [], pc_overlay := [], pc_hold_overlay := []\<rparr>"

lemma sample_context_facts:
  "rules_ok (tc_rules sample_context)" "cache_contains empty_cache = (\<lambda>_. False)" "in_window sample_context (utc_of sample_context 1730597400000000)"
proof -
  show "rules_ok (tc_rules sample_context)" by (simp add: sample_context_def sample_rules_def rules_ok_def is_slug_char_def)
  show "cache_contains empty_cache = (\<lambda>_. False)" by (simp add: empty_cache_def sample_cache_def cache_contains_def fun_eq_iff)
  show "in_window sample_context (utc_of sample_context 1730597400000000)" by code_simp
qed

definition sample_checkin_line :: string where
  "sample_checkin_line = ''Title|B100|cc|cn|sc|Westside Branch|FALSE||12|||| 11/03/2024|01:30:00 AM''"

lemma sample_checkin_rows:
  "List.map (\<lambda>r. (cr_datetime r, cr_barcode r)) (parse_checkins (\<lambda>_. Some 1730597400000000) [sample_checkin_line, ''short|line''])
     = [(Some 1730597400000000, ''B100'')]"
  by code_simp

theorem checkins_exact_witness:
  "\<exists>st. transform_checkins (\<lambda>_. Some 1730597400000000) sample_context [sample_checkin_line, ''short|line''] empty_cache = Inr st
    \<and> length (ts_events st) = 1 \<and> ct_records_parsed (ts_counters st) = 1"
proof -
  let ?rows = "parse_checkins (\<lambda>_. Some 1730597400000000) [sample_checkin_line, ''short|line'']"
  obtain r where r: "?rows = [r]" "cr_datetime r = Some 1730597400000000" using sample_checkin_rows by auto
  then have "filter (\<lambda>r. admitted sample_context empty_cache (cr_datetime r) (cr_barcode r)) ?rows = [r]"
    by (simp add: admitted_def known_card_def sample_context_facts)
  with checkins_exact [OF sample_context_facts(1), of "\<lambda>_. Some 1730597400000000" "[sample_checkin_line, ''short|line'']" empty_cache] r(1)
  show ?thesis by (fastforce simp: Let_def known_card_def sample_context_facts dest: arg_cong [where f = length])
qed

definition sample_reject_line :: string where
  "sample_reject_line = ''B100| Item not found in ILS|11/03/2024|01:30:00 AM''"

lemma sample_reject_rows:
  "List.map (\<lambda>r. (rr_datetime r, rr_barcode r)) (parse_rejects (\<lambda>_. Some 1730597400000000) [sample_reject_line, [] ])
     = [(Some 1730597400000000, ''B100'')]"
  by code_simp

lemma rejects_exact_witness:
  "\<exists>st. transform_rejects (\<lambda>_. Some 1730597400000000) sample_context [sample_reject_line, [] ] empty_cache = Inr st
    \<and> length (ts_events st) = 1 \<and> ct_records_parsed (ts_counters st) = 1"
proof -
  let ?rows = "parse_rejects (\<lambda>_. Some 1730597400000000) [sample_reject_line, [] ]"
  obtain r where r: "?rows = [r]" "rr_datetime r = Some 1730597400000000" using sample_reject_rows by auto
  then have "filter (\<lambda>r. admitted sample_context empty_cache (rr_datetime r) (rr_barcode r)) ?rows = [r]"
    by (simp add: admitted_def known_card_def sample_context_facts)
  with rejects_exact [OF sample_context_facts(1), of "\<lambda>_. Some 1730597400000000" "[sample_reject_line, [] ]" empty_cache] r(1)
  show ?thesis by (fastforce simp: Let_def known_card_def sample_context_facts dest: arg_cong [where f = length])
qed

section \<open>Noninterference\<close>

text \<open>All that is seen of a barcode: whether there is one, and its two keyed digests.\<close>

definition barcode_view :: "transform_context \<Rightarrow> string \<Rightarrow> (octets \<times> string) option" where
  "barcode_view ctx barcode =
     (let b = py_strip barcode in if b = [] then None else Some (patron_id_hmac (tc_keys ctx) b, item_key (tc_keys ctx) b))"

definition checkin_view :: "transform_context \<Rightarrow> checkin_row \<Rightarrow> int option \<times> (octets \<times> string) option \<times> string \<times> string" where
  "checkin_view ctx r = (cr_datetime r, barcode_view ctx (cr_barcode r),
     normalize_destination (Some (cr_destination r)) (tc_rules ctx), normalize_bin (Some (cr_bin r)))"

definition reject_view :: "transform_context \<Rightarrow> reject_row \<Rightarrow> int option \<times> (octets \<times> string) option \<times> string" where
  "reject_view ctx r = (rr_datetime r, barcode_view ctx (rr_barcode r), classify_reject (Some (rr_error_message r)))"

lemma fold_result_view:
  assumes "\<And>s r r'. view r = view r' \<Longrightarrow> step s r = step s r'" "List.map view rows = List.map view rows'"
  shows "fold_result step s rows = fold_result step s rows'"
  using assms(2)
proof (induction rows arbitrary: rows' s)
  case Nil
  then show ?case by simp
next
  case (Cons r rows)
  then obtain r' rest where rest: "rows' = r' # rest" "view r = view r'" "List.map view rows = List.map view rest" by auto
  have "fold_result step s1 rows = fold_result step s1 rest" for s1 using Cons.IH rest(3) by blast
  with rest show ?case using assms(1) [of r r' s] by simp
qed

lemma barcode_view_guard:
  assumes "barcode_view ctx b = barcode_view ctx b'"
  shows "guarded_card ctx cache (py_strip b) = guarded_card ctx cache (py_strip b')"
    and "opt_item_key ctx (py_strip b) = opt_item_key ctx (py_strip b')"
  using assms by (auto simp: barcode_view_def guarded_card_def opt_item_key_def Let_def split: if_splits)

lemma checkin_step_view:
  assumes "checkin_view ctx r = checkin_view ctx r'"
  shows "checkin_step ctx st r = checkin_step ctx st r'"
proof -
  from assms have e: "cr_datetime r = cr_datetime r'" and b: "barcode_view ctx (cr_barcode r) = barcode_view ctx (cr_barcode r')"
    and n: "normalize_destination (Some (cr_destination r)) (tc_rules ctx) = normalize_destination (Some (cr_destination r')) (tc_rules ctx)"
    "normalize_bin (Some (cr_bin r)) = normalize_bin (Some (cr_bin r'))"
    by (simp_all add: checkin_view_def)
  show ?thesis unfolding checkin_step_def Let_def e n barcode_view_guard [OF b] by (rule refl)
qed

lemma reject_step_view:
  assumes "reject_view ctx r = reject_view ctx r'"
  shows "reject_step ctx st r = reject_step ctx st r'"
proof -
  from assms have e: "rr_datetime r = rr_datetime r'" and b: "barcode_view ctx (rr_barcode r) = barcode_view ctx (rr_barcode r')"
    and n: "classify_reject (Some (rr_error_message r)) = classify_reject (Some (rr_error_message r'))"
    by (simp_all add: reject_view_def)
  show ?thesis unfolding reject_step_def Let_def e n barcode_view_guard [OF b] by (rule refl)
qed



end
