(* ===== verification/V2Ledger.thy ===== *)
theory V2Ledger
  imports V2Boundary
begin

text \<open>
  What the ACS transformation guarantees: it never fails on a well-formed ledger and context, every
  correction leaves the ledger agreeing with the patron profiles (and the agreement is an invariant of
  the whole transformation), its item events are exactly those of the admitted item records, and a
  barcode that is any patron's identifier, in the cache or in the same batch, never becomes an event.
\<close>

section \<open>Well-formed ledgers and contexts\<close>

definition row_ok :: "hold_row \<Rightarrow> bool" where
  "row_ok row \<longleftrightarrow> is_hmac_hex (hr_item_key row) \<and> is_destination (hr_destination row)
     \<and> (\<exists>t. in_calendar t \<and> hr_event_time row = format_time t)"

definition ledger_ok :: "patron_cache \<Rightarrow> bool" where
  "ledger_ok c \<longleftrightarrow> cache_wf c \<and> (\<forall>k row. hold_get c k = Some row \<longrightarrow> row_ok row)"

text \<open>Every ledger hold says what its patron's profile, as the cache knows it, makes of it.\<close>

definition ledger_consistent :: "rules \<Rightarrow> patron_cache \<Rightarrow> bool" where
  "ledger_consistent rs c \<longleftrightarrow> (\<forall>k row. hold_get c k = Some row \<longrightarrow>
     hr_flags row = combine (hr_static row) (profile_outcome (cache_lookup c (hr_patron_pk row)) rs))"

definition context_ok :: "transform_context \<Rightarrow> bool" where
  "context_ok ctx \<longleftrightarrow> rules_ok (tc_rules ctx) \<and> is_uuid4 (tc_ruleset_id ctx) \<and> in_calendar (tc_now ctx + day_us)"

lemma window_calendar: "\<lbrakk>context_ok ctx; in_window ctx t\<rbrakk> \<Longrightarrow> in_calendar t"
proof -
  assume a: "context_ok ctx" "in_window ctx t"
  then have "day_of earliest \<le> day_of t" "day_of t \<le> day_of (tc_now ctx + day_us)"
    by (auto simp: in_window_def day_of_def intro: zdiv_mono1)
  with a show ?thesis by (auto simp: context_ok_def in_calendar_def day_of_def earliest_def)
qed

lemma ledger_ok_put: "\<lbrakk>ledger_ok c; row_ok row\<rbrakk> \<Longrightarrow> ledger_ok (hold_put c row)"
  by (auto simp: ledger_ok_def hold_get_put hold_put_wf split: if_splits)

lemma ledger_ok_delete: "ledger_ok c \<Longrightarrow> ledger_ok (hold_delete c k)"
  by (auto simp: ledger_ok_def hold_get_delete hold_delete_wf split: if_splits)

lemma ledger_ok_stage: "ledger_ok c \<Longrightarrow> ledger_ok (cache_stage c pk i p)"
  by (simp add: ledger_ok_def cache_stage_wf)

lemma ledger_ok_sight: "ledger_ok c \<Longrightarrow> ledger_ok (cache_sight c pk)"
  by (simp add: cache_sight_def ledger_ok_stage)

lemma hold_frame [simp]:
  "cache_lookup (hold_put c row) = cache_lookup c" "cache_contains (hold_put c row) = cache_contains c"
  "cache_lookup (hold_delete c k) = cache_lookup c" "cache_contains (hold_delete c k) = cache_contains c"
  by (simp_all add: hold_put_def hold_delete_def hold_stage_def cache_lookup_def cache_contains_def fun_eq_iff)

lemma sight_outcome [simp]: "profile_outcome (cache_lookup (cache_sight c pk) pk') rs = profile_outcome (cache_lookup c pk') rs"
  by (auto simp: cache_sight_lookup profile_outcome_def)

lemma consistent_sight: "ledger_consistent rs (cache_sight c pk) = ledger_consistent rs c"
  by (simp add: ledger_consistent_def)

lemma sight_contains_iff: "cache_contains (cache_sight c pk) k \<longleftrightarrow> k = pk \<or> cache_contains c k"
  by (simp add: cache_sight_def cache_stage_contains)

section \<open>Building ACS items\<close>

lemma build_acs_item_total:
  assumes "is_hmac_hex item" "state \<in> set acs_item_states"
    and "if state = ''hold'' then (case dest of None \<Rightarrow> False | Some d \<Rightarrow> is_destination d) \<and> ill \<noteq> None \<and> br \<noteq> None \<and> co \<noteq> None
           \<and> (case rs of None \<Rightarrow> True | Some r \<Rightarrow> is_uuid4 r)
         else dest = None \<and> ill = None \<and> br = None \<and> co = None \<and> rs = None"
  shows "\<exists>e. build_acs_item keys t item state dest ill br co rs rv = Inr e"
proof -
  let ?e = "\<lambda>key. \<lparr>ai_event_key = key, ai_event_time = t, ai_item_key = item, ai_state = state, ai_destination = dest,
     ai_is_ill = ill, ai_is_branch_services = br, ai_is_collection_services = co, ai_ruleset_id = rs\<rparr>"
  have ok: "acs_item_ok (?e (event_key keys c))" for c using assms by (simp add: acs_item_ok_def)
  then obtain c where "canonical_acs_item (format_time t) item state dest ill br co rv = Inr c"
    using canonical_total [of "AcsItem (?e (event_key keys undefined))" rv] by auto
  with ok show ?thesis by (simp add: build_acs_item_def mk_acs_item_Inr)
qed

lemma parse_stamp_ok: "row_ok row \<Longrightarrow> \<exists>t. parse_stamp (hr_event_time row) = Inr t"
  by (auto simp: row_ok_def parse_stamp_def strptime_format_time)

section \<open>Corrections\<close>

definition corrected :: "flags3 \<Rightarrow> hold_row \<Rightarrow> hold_row" where
  "corrected outcome row =
     (let flags = combine (hr_static row) outcome in
      if flags = hr_flags row then row else row\<lparr>hr_flags := flags, hr_revision := hr_revision row + 1\<rparr>)"

definition needs_correction :: "flags3 \<Rightarrow> hold_row \<Rightarrow> bool" where
  "needs_correction outcome row \<longleftrightarrow> combine (hr_static row) outcome \<noteq> hr_flags row"

text \<open>The event that a correction of this row sends.\<close>

definition corrects :: "flags3 \<Rightarrow> hold_row \<Rightarrow> acs_item_v2 \<Rightarrow> bool" where
  "corrects outcome row e \<longleftrightarrow> ai_item_key e = hr_item_key row \<and> ai_state e = ''hold''
     \<and> format_time (ai_event_time e) = hr_event_time row \<and> ai_destination e = Some (hr_destination row)
     \<and> (ai_is_ill e, ai_is_branch_services e, ai_is_collection_services e)
        = (case combine (hr_static row) outcome of (a, b, c) \<Rightarrow> (Some a, Some b, Some c))
     \<and> acs_item_ok e"

lemma corrected_frame [simp]:
  "hr_item_key (corrected o' row) = hr_item_key row" "hr_patron_pk (corrected o' row) = hr_patron_pk row"
  "hr_static (corrected o' row) = hr_static row" "hr_flags (corrected o' row) = combine (hr_static row) o'"
  "hr_event_time (corrected o' row) = hr_event_time row" "hr_destination (corrected o' row) = hr_destination row" "row_ok (corrected o' row) = row_ok row"
  by (auto simp: corrected_def Let_def row_ok_def)

lemma correction_step_spec:
  assumes ctx: "context_ok ctx" and row: "row_ok row" "hold_get (ts_cache st) (hr_item_key row) = Some row"
  shows "\<exists>st' es. correction_step ctx outcome st row = Inr st'
     \<and> hold_get (ts_cache st') = (hold_get (ts_cache st))(hr_item_key row \<mapsto> corrected outcome row)
     \<and> cache_lookup (ts_cache st') = cache_lookup (ts_cache st) \<and> cache_contains (ts_cache st') = cache_contains (ts_cache st)
     \<and> (cache_wf (ts_cache st) \<longrightarrow> cache_wf (ts_cache st'))
     \<and> ts_events st' = ts_events st @ List.map AcsItem es
     \<and> list_all2 (corrects outcome) (filter (needs_correction outcome) [row]) es
     \<and> ct_acs_corrections (ts_counters st') = ct_acs_corrections (ts_counters st) + length es
     \<and> tally_of ''acs_items'' (ts_counters st') = (tally_of ''acs_items'' (ts_counters st))
         \<lparr>tl_events := tl_events (tally_of ''acs_items'' (ts_counters st)) + length es\<rparr>"
proof (cases "needs_correction outcome row")
  case False
  then show ?thesis using row(2)
    by (intro exI [of _ st] exI [of _ "[]"]) (auto simp: correction_step_def Let_def needs_correction_def corrected_def fun_eq_iff)
next
  case True
  obtain u where u: "in_calendar u" "hr_event_time row = format_time u" using row(1) by (auto simp: row_ok_def)
  let ?t = "u div 1000000 * 1000000"
  have t: "parse_stamp (hr_event_time row) = Inr ?t" using u by (simp add: parse_stamp_def strptime_format_time)
  have ft: "format_time ?t = format_time u"
  proof -
    have "day_of ?t = day_of u" using second_parts [of ?t] second_parts [of u] sec_of_day_less [of ?t] sec_of_day_less [of u]
      by (simp add: day_of_def)
    with u(1) have "in_calendar ?t" by (simp add: in_calendar_def)
    with u(1) show ?thesis by (simp add: format_time_eq)
  qed
  let ?f = "combine (hr_static row) outcome"
  have "\<exists>e. build_acs_item (tc_keys ctx) ?t (hr_item_key row) ''hold'' (Some (hr_destination row)) (Some (fst ?f)) (Some (fst (snd ?f)))
      (Some (snd (snd ?f))) (Some (tc_ruleset_id ctx)) (hr_revision row + 1) = Inr e"
    using ctx row(1) by (intro build_acs_item_total) (simp_all add: row_ok_def context_ok_def acs_item_states_def)
  then obtain e where e: "build_acs_item (tc_keys ctx) ?t (hr_item_key row) ''hold'' (Some (hr_destination row)) (Some (fst ?f))
      (Some (fst (snd ?f))) (Some (snd (snd ?f))) (Some (tc_ruleset_id ctx)) (hr_revision row + 1) = Inr e" by blast
  have c: "corrects outcome row e"
    using build_acs_item_Inr [OF e] ft u(2) by (auto simp: corrects_def split: prod.split)
  have r: "corrected outcome row = row\<lparr>hr_flags := ?f, hr_revision := hr_revision row + 1\<rparr>"
    using True by (simp add: corrected_def needs_correction_def Let_def)
  show ?thesis
    using True t e c
    by (intro exI [of _ "st\<lparr>ts_events := ts_events st @ [AcsItem e], ts_cache := hold_put (ts_cache st) (corrected outcome row),
        ts_counters := count_event ''acs_items'' ((ts_counters st)\<lparr>ct_acs_corrections := ct_acs_corrections (ts_counters st) + 1\<rparr>)\<rparr>"]
        exI [of _ "[e]"])
      (auto simp: correction_step_def Let_def needs_correction_def hold_get_put hold_put_wf r tally_of_def count_event_def)
qed

lemma list_all2_filter_Cons:
  "\<lbrakk>list_all2 R (filter P [x]) es1; list_all2 R (filter P xs) es2\<rbrakk> \<Longrightarrow> list_all2 R (filter P (x # xs)) (es1 @ es2)"
  by (auto split: if_splits simp: list_all2_Cons1)

lemma corrections_loop:
  assumes "context_ok ctx" "distinct (List.map hr_item_key rows)"
    and "\<forall>row \<in> set rows. row_ok row \<and> hold_get (ts_cache st) (hr_item_key row) = Some row"
  shows "\<exists>st' es. fold_result (correction_step ctx outcome) st rows = Inr st'
     \<and> hold_get (ts_cache st') = hold_get (ts_cache st) ++ map_of (List.map (\<lambda>r. (hr_item_key r, corrected outcome r)) rows)
     \<and> cache_lookup (ts_cache st') = cache_lookup (ts_cache st) \<and> cache_contains (ts_cache st') = cache_contains (ts_cache st)
     \<and> (cache_wf (ts_cache st) \<longrightarrow> cache_wf (ts_cache st'))
     \<and> ts_events st' = ts_events st @ List.map AcsItem es
     \<and> list_all2 (corrects outcome) (filter (needs_correction outcome) rows) es
     \<and> ct_acs_corrections (ts_counters st') = ct_acs_corrections (ts_counters st) + length es
     \<and> tally_of ''acs_items'' (ts_counters st') = (tally_of ''acs_items'' (ts_counters st))
         \<lparr>tl_events := tl_events (tally_of ''acs_items'' (ts_counters st)) + length es\<rparr>"
  using assms(2,3)
proof (induction rows arbitrary: st)
  case Nil
  then show ?case by (intro exI [of _ st] exI [of _ "[]"]) simp
next
  case (Cons row rows)
  from Cons.prems have "row_ok row" "hold_get (ts_cache st) (hr_item_key row) = Some row" by auto
  from correction_step_spec [OF assms(1) this, of outcome] obtain st1 es1
    where s: "correction_step ctx outcome st row = Inr st1"
      "hold_get (ts_cache st1) = (hold_get (ts_cache st))(hr_item_key row \<mapsto> corrected outcome row)"
      "cache_lookup (ts_cache st1) = cache_lookup (ts_cache st)" "cache_contains (ts_cache st1) = cache_contains (ts_cache st)"
      "cache_wf (ts_cache st) \<longrightarrow> cache_wf (ts_cache st1)" "ts_events st1 = ts_events st @ List.map AcsItem es1"
      "list_all2 (corrects outcome) (filter (needs_correction outcome) [row]) es1"
      "ct_acs_corrections (ts_counters st1) = ct_acs_corrections (ts_counters st) + length es1"
      "tally_of ''acs_items'' (ts_counters st1) = (tally_of ''acs_items'' (ts_counters st))
         \<lparr>tl_events := tl_events (tally_of ''acs_items'' (ts_counters st)) + length es1\<rparr>" by blast
  have later: "\<forall>r \<in> set rows. row_ok r \<and> hold_get (ts_cache st1) (hr_item_key r) = Some r"
  proof
    fix r assume r: "r \<in> set rows"
    then have "hr_item_key r \<in> hr_item_key ` set rows" by (rule imageI)
    with Cons.prems(1) have "hr_item_key r \<noteq> hr_item_key row" by fastforce
    then have "hold_get (ts_cache st1) (hr_item_key r) = hold_get (ts_cache st) (hr_item_key r)" by (simp add: s(2))
    then show "row_ok r \<and> hold_get (ts_cache st1) (hr_item_key r) = Some r" using Cons.prems(2) r by simp
  qed
  have "distinct (List.map hr_item_key rows)" using Cons.prems(1) by simp
  from Cons.IH [OF this later] obtain st2 es2
    where r: "fold_result (correction_step ctx outcome) st1 rows = Inr st2"
      "hold_get (ts_cache st2) = hold_get (ts_cache st1) ++ map_of (List.map (\<lambda>r. (hr_item_key r, corrected outcome r)) rows)"
      "cache_lookup (ts_cache st2) = cache_lookup (ts_cache st1)" "cache_contains (ts_cache st2) = cache_contains (ts_cache st1)"
      "cache_wf (ts_cache st1) \<longrightarrow> cache_wf (ts_cache st2)" "ts_events st2 = ts_events st1 @ List.map AcsItem es2"
      "list_all2 (corrects outcome) (filter (needs_correction outcome) rows) es2"
      "ct_acs_corrections (ts_counters st2) = ct_acs_corrections (ts_counters st1) + length es2"
      "tally_of ''acs_items'' (ts_counters st2) = (tally_of ''acs_items'' (ts_counters st1))
         \<lparr>tl_events := tl_events (tally_of ''acs_items'' (ts_counters st1)) + length es2\<rparr>" by blast
  have "map_of (List.map (\<lambda>r. (hr_item_key r, corrected outcome r)) rows) (hr_item_key row) = None"
    using Cons.prems(1) by (auto simp: map_of_eq_None_iff)
  then have h: "hold_get (ts_cache st2) = hold_get (ts_cache st) ++ map_of (List.map (\<lambda>r. (hr_item_key r, corrected outcome r)) (row # rows))"
    unfolding r(2) s(2) by (auto simp: fun_eq_iff map_add_def split: option.split)
  show ?case
  proof (intro exI conjI)
    show "hold_get (ts_cache st2) = hold_get (ts_cache st) ++ map_of (List.map (\<lambda>r. (hr_item_key r, corrected outcome r)) (row # rows))"
      by (rule h)
    show "list_all2 (corrects outcome) (filter (needs_correction outcome) (row # rows)) (es1 @ es2)"
      by (rule list_all2_filter_Cons [OF s(7) r(7)])
    show "ts_events st2 = ts_events st @ List.map AcsItem (es1 @ es2)" using s(6) r(6) by simp
    show "fold_result (correction_step ctx outcome) st (row # rows) = Inr st2" using s(1) r(1) by simp
    show "ct_acs_corrections (ts_counters st2) = ct_acs_corrections (ts_counters st) + length (es1 @ es2)" using s(8) r(8) by simp
    show "tally_of ''acs_items'' (ts_counters st2) = (tally_of ''acs_items'' (ts_counters st))
         \<lparr>tl_events := tl_events (tally_of ''acs_items'' (ts_counters st)) + length (es1 @ es2)\<rparr>" using s(9) r(9) by simp
  qed (use s(3-5) r(3-5) in simp_all)
qed

text \<open>A patron's holds, as the cache lists them, form a list the loop can run over.\<close>

lemma holds_listed:
  assumes "ledger_ok c"
  shows "set (holds_for_patron c pk) = {r. \<exists>k. hold_get c k = Some r \<and> hr_patron_pk r = pk}"
    "distinct (List.map hr_item_key (holds_for_patron c pk))"
    "\<forall>row \<in> set (holds_for_patron c pk). row_ok row \<and> hold_get c (hr_item_key row) = Some row"
proof -
  from assms have wf: "cache_wf c" by (simp add: ledger_ok_def)
  note h = holds_listed_spec [OF wf, of pk]
  from h show a: "set (holds_for_patron c pk) = {r. \<exists>k. hold_get c k = Some r \<and> hr_patron_pk r = pk}"
    "distinct (List.map hr_item_key (holds_for_patron c pk))" by simp_all
  show "\<forall>row \<in> set (holds_for_patron c pk). row_ok row \<and> hold_get c (hr_item_key row) = Some row"
    unfolding a(1) using assms hold_get_key [OF wf] by (auto simp: ledger_ok_def)
qed

definition corrected_ledger :: "flags3 \<Rightarrow> octets \<Rightarrow> (string \<Rightarrow> hold_row option) \<Rightarrow> string \<Rightarrow> hold_row option" where
  "corrected_ledger outcome pk get k = map_option (\<lambda>row. if hr_patron_pk row = pk then corrected outcome row else row) (get k)"

lemma corrections_run:
  assumes "context_ok ctx" "ledger_ok (ts_cache st)"
  shows "\<exists>st' es. corrections ctx pk outcome st = Inr st'
     \<and> hold_get (ts_cache st') = corrected_ledger outcome pk (hold_get (ts_cache st)) \<and> ledger_ok (ts_cache st')
     \<and> cache_lookup (ts_cache st') = cache_lookup (ts_cache st) \<and> cache_contains (ts_cache st') = cache_contains (ts_cache st)
     \<and> ts_events st' = ts_events st @ List.map AcsItem es
     \<and> list_all2 (corrects outcome) (filter (needs_correction outcome) (holds_for_patron (ts_cache st) pk)) es
     \<and> ct_acs_corrections (ts_counters st') = ct_acs_corrections (ts_counters st) + length es
     \<and> tally_of ''acs_items'' (ts_counters st') = (tally_of ''acs_items'' (ts_counters st))
         \<lparr>tl_events := tl_events (tally_of ''acs_items'' (ts_counters st)) + length es\<rparr>"
proof -
  let ?c = "ts_cache st" and ?rows = "holds_for_patron (ts_cache st) pk"
  note L = holds_listed [OF assms(2), of pk]
  have wf: "cache_wf ?c" using assms(2) by (simp add: ledger_ok_def)
  have m: "hold_get ?c ++ map_of (List.map (\<lambda>r. (hr_item_key r, corrected outcome r)) ?rows) = corrected_ledger outcome pk (hold_get ?c)"
  proof (rule ext)
    fix k
    have "map_of (List.map (\<lambda>r. (hr_item_key r, corrected outcome r)) ?rows) k =
        (case hold_get ?c k of None \<Rightarrow> None | Some row \<Rightarrow> if hr_patron_pk row = pk then Some (corrected outcome row) else None)"
    proof (cases "\<exists>row. hold_get ?c k = Some row \<and> hr_patron_pk row = pk")
      case True
      then obtain row where row: "hold_get ?c k = Some row" "hr_patron_pk row = pk" by blast
      with L(1) have "row \<in> set ?rows" by auto
      moreover have "hr_item_key row = k" using hold_get_key [OF wf row(1)] .
      ultimately have "(k, corrected outcome row) \<in> set (List.map (\<lambda>r. (hr_item_key r, corrected outcome r)) ?rows)" by force
      moreover have "distinct (List.map fst (List.map (\<lambda>r. (hr_item_key r, corrected outcome r)) ?rows))"
        using L(2) by (simp add: comp_def)
      ultimately show ?thesis using row by simp
    next
      case False
      have "k \<notin> hr_item_key ` set ?rows"
      proof
        assume "k \<in> hr_item_key ` set ?rows"
        then obtain row where "row \<in> set ?rows" "hr_item_key row = k" by auto
        with L(1,3) False show False by auto
      qed
      then have "map_of (List.map (\<lambda>r. (hr_item_key r, corrected outcome r)) ?rows) k = None"
        by (auto simp: map_of_eq_None_iff)
      with False show ?thesis by (auto split: option.split)
    qed
    then show "(hold_get ?c ++ map_of (List.map (\<lambda>r. (hr_item_key r, corrected outcome r)) ?rows)) k
        = corrected_ledger outcome pk (hold_get ?c) k"
      by (auto simp: map_add_def corrected_ledger_def split: option.split)
  qed
  obtain st' es where s: "fold_result (correction_step ctx outcome) st ?rows = Inr st'"
      "hold_get (ts_cache st') = corrected_ledger outcome pk (hold_get ?c)"
      "cache_lookup (ts_cache st') = cache_lookup ?c" "cache_contains (ts_cache st') = cache_contains ?c" "cache_wf (ts_cache st')"
      "ts_events st' = ts_events st @ List.map AcsItem es"
      "list_all2 (corrects outcome) (filter (needs_correction outcome) ?rows) es"
      "ct_acs_corrections (ts_counters st') = ct_acs_corrections (ts_counters st) + length es"
      "tally_of ''acs_items'' (ts_counters st') = (tally_of ''acs_items'' (ts_counters st))
         \<lparr>tl_events := tl_events (tally_of ''acs_items'' (ts_counters st)) + length es\<rparr>"
    using corrections_loop [OF assms(1) L(2,3), of outcome] wf unfolding m by blast
  have "ledger_ok (ts_cache st')"
    using s(2,5) assms(2) by (auto simp: ledger_ok_def corrected_ledger_def split: if_splits)
  with s show ?thesis by (auto simp: corrections_def)
qed

section \<open>Pass 1: profiles\<close>

definition from_ledger :: "(string \<Rightarrow> hold_row option) \<Rightarrow> acs_item_v2 \<Rightarrow> bool" where
  "from_ledger get e \<longleftrightarrow> (\<exists>row. get (ai_item_key e) = Some row \<and> ai_state e = ''hold'' \<and> acs_item_ok e
     \<and> format_time (ai_event_time e) = hr_event_time row \<and> ai_destination e = Some (hr_destination row))"

text \<open>What corrections never touch of a ledger row.\<close>

definition shape :: "(string \<Rightarrow> hold_row option) \<Rightarrow> string \<Rightarrow> (string \<times> string) option" where
  "shape get k = map_option (\<lambda>row. (hr_event_time row, hr_destination row)) (get k)"

lemma from_ledger_shape: "shape get = shape get' \<Longrightarrow> from_ledger get e \<Longrightarrow> from_ledger get' e"
proof -
  assume s: "shape get = shape get'" and "from_ledger get e"
  then obtain row where row: "get (ai_item_key e) = Some row" "ai_state e = ''hold''" "acs_item_ok e"
    "format_time (ai_event_time e) = hr_event_time row" "ai_destination e = Some (hr_destination row)" by (auto simp: from_ledger_def)
  have "shape get' (ai_item_key e) = Some (hr_event_time row, hr_destination row)"
    using row(1) unfolding s [symmetric] by (simp add: shape_def)
  with row show ?thesis by (auto simp: from_ledger_def shape_def)
qed

lemma shape_corrected [simp]: "shape (corrected_ledger o' pk get) = shape get"
  by (auto simp: shape_def corrected_ledger_def fun_eq_iff option.map_comp comp_def intro!: option.map_cong)

lemma list_all2_set2: "list_all2 R xs ys \<Longrightarrow> \<forall>y \<in> set ys. \<exists>x \<in> set xs. R x y"
  by (induction rule: list_all2_induct) auto

lemma corrects_from_ledger:
  assumes "ledger_ok c" "list_all2 (corrects o') (filter P (holds_for_patron c pk)) es" "e \<in> set es"
  shows "from_ledger (hold_get c) e"
proof -
  from list_all2_set2 [OF assms(2)] assms(3) obtain row where "row \<in> set (holds_for_patron c pk)" "corrects o' row e"
    by (fastforce simp: Bex_def)
  with holds_listed(3) [OF assms(1), of pk] show ?thesis by (auto simp: from_ledger_def corrects_def)
qed

lemma profile_step_spec:
  assumes ctx: "context_ok ctx" and ok: "ledger_ok (ts_cache st)" "ledger_consistent (tc_rules ctx) (ts_cache st)"
  shows "\<exists>st' es. profile_step ctx st (pk, info) = Inr st' \<and> ledger_ok (ts_cache st')
     \<and> ledger_consistent (tc_rules ctx) (ts_cache st') \<and> shape (hold_get (ts_cache st')) = shape (hold_get (ts_cache st))
     \<and> (\<forall>k. cache_contains (ts_cache st') k \<longleftrightarrow> k = pk \<or> cache_contains (ts_cache st) k)
     \<and> ts_events st' = ts_events st @ List.map AcsItem es \<and> (\<forall>e \<in> set es. from_ledger (hold_get (ts_cache st)) e)
     \<and> ct_acs_corrections (ts_counters st') = ct_acs_corrections (ts_counters st) + length es
     \<and> tally_of ''acs_items'' (ts_counters st') = (tally_of ''acs_items'' (ts_counters st))
         \<lparr>tl_events := tl_events (tally_of ''acs_items'' (ts_counters st)) + length es\<rparr>"
proof -
  let ?c = "ts_cache st" and ?after = "profile_outcome (Some info) (tc_rules ctx)"
  have staged: "ledger_consistent (tc_rules ctx) (cache_stage c pk info True)"
    if "\<And>k row. hold_get c k = Some row \<Longrightarrow> hr_flags row = combine (hr_static row)
          (if hr_patron_pk row = pk then ?after else profile_outcome (cache_lookup c (hr_patron_pk row)) (tc_rules ctx))" for c
    using that by (auto simp: ledger_consistent_def cache_stage_lookup)
  show ?thesis
  proof (cases "profile_outcome (cache_lookup ?c pk) (tc_rules ctx) = ?after")
    case True
    have "ledger_consistent (tc_rules ctx) (cache_stage ?c pk info True)"
      using ok(2) True by (intro staged) (auto simp: ledger_consistent_def)
    with True ok(1) show ?thesis
      by (intro exI [of _ "st\<lparr>ts_cache := cache_stage ?c pk info True\<rparr>"] exI [of _ "[]"])
        (simp add: profile_step_def Let_def ledger_ok_stage cache_stage_contains)
  next
    case False
    obtain st1 es where s: "corrections ctx pk ?after st = Inr st1"
      "hold_get (ts_cache st1) = corrected_ledger ?after pk (hold_get ?c)" "ledger_ok (ts_cache st1)"
      "cache_lookup (ts_cache st1) = cache_lookup ?c" "cache_contains (ts_cache st1) = cache_contains ?c"
      "ts_events st1 = ts_events st @ List.map AcsItem es"
      "list_all2 (corrects ?after) (filter (needs_correction ?after) (holds_for_patron ?c pk)) es"
      "ct_acs_corrections (ts_counters st1) = ct_acs_corrections (ts_counters st) + length es"
      "tally_of ''acs_items'' (ts_counters st1) = (tally_of ''acs_items'' (ts_counters st))
         \<lparr>tl_events := tl_events (tally_of ''acs_items'' (ts_counters st)) + length es\<rparr>"
      using corrections_run [OF ctx ok(1), of pk ?after] by blast
    have "ledger_consistent (tc_rules ctx) (cache_stage (ts_cache st1) pk info True)"
    proof (rule staged)
      fix k row assume "hold_get (ts_cache st1) k = Some row"
      then obtain row0 where "hold_get ?c k = Some row0" "row = (if hr_patron_pk row0 = pk then corrected ?after row0 else row0)"
        by (auto simp: s(2) corrected_ledger_def)
      with ok(2) show "hr_flags row = combine (hr_static row)
          (if hr_patron_pk row = pk then ?after else profile_outcome (cache_lookup (ts_cache st1) (hr_patron_pk row)) (tc_rules ctx))"
        by (auto simp: s(4) ledger_consistent_def)
    qed
    moreover have "\<forall>e \<in> set es. from_ledger (hold_get ?c) e" using corrects_from_ledger [OF ok(1) s(7)] by blast
    ultimately show ?thesis using s False
      by (intro exI [of _ "st1\<lparr>ts_cache := cache_stage (ts_cache st1) pk info True\<rparr>"] exI [of _ es])
        (simp add: profile_step_def Let_def ledger_ok_stage cache_stage_contains)
  qed
qed

lemma profiles_loop:
  assumes "context_ok ctx" "ledger_ok (ts_cache st)" "ledger_consistent (tc_rules ctx) (ts_cache st)"
  shows "\<exists>st' es. fold_result (profile_step ctx) st items = Inr st' \<and> ledger_ok (ts_cache st')
     \<and> ledger_consistent (tc_rules ctx) (ts_cache st') \<and> shape (hold_get (ts_cache st')) = shape (hold_get (ts_cache st))
     \<and> (\<forall>k. cache_contains (ts_cache st') k \<longleftrightarrow> k \<in> fst ` set items \<or> cache_contains (ts_cache st) k)
     \<and> ts_events st' = ts_events st @ List.map AcsItem es \<and> (\<forall>e \<in> set es. from_ledger (hold_get (ts_cache st)) e)
     \<and> ct_acs_corrections (ts_counters st') = ct_acs_corrections (ts_counters st) + length es
     \<and> tally_of ''acs_items'' (ts_counters st') = (tally_of ''acs_items'' (ts_counters st))
         \<lparr>tl_events := tl_events (tally_of ''acs_items'' (ts_counters st)) + length es\<rparr>"
  using assms(2,3)
proof (induction items arbitrary: st)
  case Nil
  then show ?case by (intro exI [of _ st] exI [of _ "[]"]) simp
next
  case (Cons item items)
  obtain pk info where i: "item = (pk, info)" by (cases item)
  obtain st1 es1 where s: "profile_step ctx st (pk, info) = Inr st1" "ledger_ok (ts_cache st1)"
      "ledger_consistent (tc_rules ctx) (ts_cache st1)" "shape (hold_get (ts_cache st1)) = shape (hold_get (ts_cache st))"
      "\<forall>k. cache_contains (ts_cache st1) k \<longleftrightarrow> k = pk \<or> cache_contains (ts_cache st) k"
      "ts_events st1 = ts_events st @ List.map AcsItem es1" "\<forall>e \<in> set es1. from_ledger (hold_get (ts_cache st)) e"
      "ct_acs_corrections (ts_counters st1) = ct_acs_corrections (ts_counters st) + length es1"
      "tally_of ''acs_items'' (ts_counters st1) = (tally_of ''acs_items'' (ts_counters st))
         \<lparr>tl_events := tl_events (tally_of ''acs_items'' (ts_counters st)) + length es1\<rparr>"
    using profile_step_spec [OF assms(1) Cons.prems, of pk info] by blast
  obtain st2 es2 where r: "fold_result (profile_step ctx) st1 items = Inr st2" "ledger_ok (ts_cache st2)"
      "ledger_consistent (tc_rules ctx) (ts_cache st2)" "shape (hold_get (ts_cache st2)) = shape (hold_get (ts_cache st1))"
      "\<forall>k. cache_contains (ts_cache st2) k \<longleftrightarrow> k \<in> fst ` set items \<or> cache_contains (ts_cache st1) k"
      "ts_events st2 = ts_events st1 @ List.map AcsItem es2" "\<forall>e \<in> set es2. from_ledger (hold_get (ts_cache st1)) e"
      "ct_acs_corrections (ts_counters st2) = ct_acs_corrections (ts_counters st1) + length es2"
      "tally_of ''acs_items'' (ts_counters st2) = (tally_of ''acs_items'' (ts_counters st1))
         \<lparr>tl_events := tl_events (tally_of ''acs_items'' (ts_counters st1)) + length es2\<rparr>"
    using Cons.IH [OF s(2,3)] by blast
  show ?case
  proof (intro exI conjI)
    show "fold_result (profile_step ctx) st (item # items) = Inr st2" using s(1) r(1) by (simp add: i)
    show "ts_events st2 = ts_events st @ List.map AcsItem (es1 @ es2)" using s(6) r(6) by simp
    show "\<forall>e \<in> set (es1 @ es2). from_ledger (hold_get (ts_cache st)) e"
      using s(7) r(7) from_ledger_shape [OF s(4)] by auto
    show "\<forall>k. cache_contains (ts_cache st2) k \<longleftrightarrow> k \<in> fst ` set (item # items) \<or> cache_contains (ts_cache st) k"
      using s(5) r(5) by (auto simp: i)
  qed (use s r in simp_all)
qed

section \<open>Pass 2: item records\<close>

definition item_facts :: "acs_item_v2 \<Rightarrow> instant \<times> string \<times> string" where
  "item_facts e = (ai_event_time e, ai_item_key e, ai_state e)"

definition record_facts :: "transform_context \<Rightarrow> acs_record \<Rightarrow> instant \<times> string \<times> string" where
  "record_facts ctx r = (utc_of ctx (rec_when r), item_key (tc_keys ctx) (rec_barcode r), item_state (rec_raw r))"

definition admitted_item :: "transform_context \<Rightarrow> patron_cache \<Rightarrow> acs_record \<Rightarrow> bool" where
  "admitted_item ctx cache r \<longleftrightarrow> rec_code r = ''10'' \<and> rec_barcode r \<noteq> [] \<and> \<not> known_card ctx cache (rec_barcode r)
     \<and> in_window ctx (utc_of ctx (rec_when r))"

definition item_total :: "counters \<Rightarrow> nat" where
  "item_total ct = count_of (ct_events ct) ''acs_items'' + ct_dropped_patron_card ct + ct_dropped_out_of_range_time ct
     + ct_dropped_missing_barcode ct"

lemma item_total_tally: "item_total ct = (let t = tally_of ''acs_items'' ct in tl_events t + tl_card t + tl_range t + tl_missing t)"
  by (simp add: item_total_def tally_of_def Let_def)

lemma item_state_cases: "item_state raw \<in> set acs_item_states" "item_state raw = ''hold'' \<or> item_state raw \<noteq> ''hold''"
  by (simp_all add: item_state_def acs_item_states_def)

lemma count_state_frame [simp]:
  "item_total (count_state s ct) = item_total ct + 1" "ct_acs_corrections (count_state s ct) = ct_acs_corrections ct"
  by (simp_all add: item_total_def count_state_def count_event_def)

lemma hold_record_spec:
  assumes ctx: "context_ok ctx" and ok: "ledger_ok (ts_cache st)" "ledger_consistent (tc_rules ctx) (ts_cache st)"
    and w: "in_window ctx t" and h: "item_state (rec_raw r) = ''hold''"
  shows "\<exists>st' e. hold_record ctx st r t = Inr st' \<and> ledger_ok (ts_cache st') \<and> ledger_consistent (tc_rules ctx) (ts_cache st')
     \<and> cache_contains (ts_cache st') = cache_contains (ts_cache st) \<and> ts_events st' = ts_events st @ [AcsItem e]
     \<and> item_facts e = (t, item_key (tc_keys ctx) (rec_barcode r), item_state (rec_raw r)) \<and> acs_item_ok e
     \<and> ct_acs_corrections (ts_counters st') = ct_acs_corrections (ts_counters st)
     \<and> item_total (ts_counters st') = item_total (ts_counters st) + 1"
proof -
  let ?key = "item_key (tc_keys ctx) (rec_barcode r)" and ?c = "ts_cache st"
  define pk where "pk = (if rec_patron_id r \<noteq> [] then Some (patron_id_hmac (tc_keys ctx) (rec_patron_id r)) else None)"
  define static where "static = static_flags (rec_raw r) (rec_destination r) (tc_rules ctx)"
  define flags where "flags = combine static (profile_outcome (case pk of None \<Rightarrow> None | Some k \<Rightarrow> cache_lookup ?c k) (tc_rules ctx))"
  define slug where "slug = normalize_destination (rec_destination r) (tc_rules ctx)"
  define rv where "rv = hold_revision (hold_get ?c ?key) (format_time t) flags"
  have slug: "is_destination slug" using ctx by (simp add: slug_def context_ok_def normalize_destination_ok)
  obtain e where e: "build_acs_item (tc_keys ctx) t ?key ''hold'' (Some slug) (Some (fst flags)) (Some (fst (snd flags)))
      (Some (snd (snd flags))) (Some (tc_ruleset_id ctx)) rv = Inr e"
    using build_acs_item_total [of ?key "''hold''" "Some slug" "Some (fst flags)" "Some (fst (snd flags))" "Some (snd (snd flags))"
        "Some (tc_ruleset_id ctx)" "tc_keys ctx" t rv] slug ctx by (auto simp: acs_item_states_def context_ok_def)
  have f: "item_facts e = (t, ?key, item_state (rec_raw r))" "acs_item_ok e"
    using build_acs_item_Inr [OF e] h by (simp_all add: item_facts_def)
  let ?row = "\<lambda>k. \<lparr>hr_item_key = ?key, hr_event_time = format_time t, hr_patron_pk = k, hr_destination = slug,
      hr_static = static, hr_flags = flags, hr_revision = rv\<rparr>"
  have row: "row_ok (?row k)" for k
    using window_calendar [OF ctx w] slug by (auto simp: row_ok_def)
  let ?c' = "case pk of Some k \<Rightarrow> if not_older (hold_get ?c ?key) (format_time t) then hold_put ?c (?row k) else ?c
      | None \<Rightarrow> if hold_get ?c ?key \<noteq> None \<and> not_older (hold_get ?c ?key) (format_time t) then hold_delete ?c ?key else ?c"
  have l: "ledger_ok ?c'" "cache_contains ?c' = cache_contains ?c"
    using ok(1) row by (auto simp: ledger_ok_put ledger_ok_delete split: option.split)
  have cons: "ledger_consistent (tc_rules ctx) ?c'"
    using ok(2) by (auto simp: ledger_consistent_def hold_get_put hold_get_delete flags_def split: option.splits if_splits)
  have "hold_record ctx st r t = Inr \<lparr>ts_events = ts_events st @ [AcsItem e], ts_cache = ?c', ts_counters = count_state ''hold''
      ((ts_counters st)\<lparr>ct_unknown_destination := ct_unknown_destination (ts_counters st) + of_bool (slug = unknown)\<rparr>)\<rparr>"
    using e unfolding hold_record_def Let_def pk_def [symmetric] static_def [symmetric] flags_def [symmetric] slug_def [symmetric]
      rv_def [symmetric] by simp
  with l cons f show ?thesis by (auto simp: item_total_def count_state_def count_event_def)
qed

lemma other_record_spec:
  assumes ok: "ledger_ok (ts_cache st)" "ledger_consistent (tc_rules ctx) (ts_cache st)"
    and s: "state = item_state (rec_raw r)" "state \<noteq> ''hold''"
  shows "\<exists>st' e. other_record ctx st r t state = Inr st' \<and> ledger_ok (ts_cache st') \<and> ledger_consistent (tc_rules ctx) (ts_cache st')
     \<and> cache_contains (ts_cache st') = cache_contains (ts_cache st) \<and> ts_events st' = ts_events st @ [AcsItem e]
     \<and> item_facts e = (t, item_key (tc_keys ctx) (rec_barcode r), item_state (rec_raw r)) \<and> acs_item_ok e
     \<and> ct_acs_corrections (ts_counters st') = ct_acs_corrections (ts_counters st)
     \<and> item_total (ts_counters st') = item_total (ts_counters st) + 1"
proof -
  let ?key = "item_key (tc_keys ctx) (rec_barcode r)" and ?c = "ts_cache st"
  obtain e where e: "build_acs_item (tc_keys ctx) t ?key state None None None None None 0 = Inr e"
    using build_acs_item_total [of ?key state None None None None None "tc_keys ctx" t 0] s item_state_cases(1) [of "rec_raw r"] by auto
  have f: "item_facts e = (t, ?key, item_state (rec_raw r))" "acs_item_ok e"
    using build_acs_item_Inr [OF e] s by (simp_all add: item_facts_def)
  have cons: "ledger_consistent (tc_rules ctx) (hold_delete ?c ?key)"
    using ok(2) by (auto simp: ledger_consistent_def hold_get_delete split: if_splits)
  show ?thesis
    using e f cons ok ledger_ok_delete [OF ok(1), of ?key]
    by (auto simp: other_record_def Let_def split: option.split)
qed

lemma item_step_spec:
  assumes ctx: "context_ok ctx" and ok: "ledger_ok (ts_cache st)" "ledger_consistent (tc_rules ctx) (ts_cache st)"
  shows "\<exists>st' es. item_step ctx st r = Inr st' \<and> ledger_ok (ts_cache st') \<and> ledger_consistent (tc_rules ctx) (ts_cache st')
     \<and> cache_contains (ts_cache st') = cache_contains (ts_cache st) \<and> ts_events st' = ts_events st @ List.map AcsItem es
     \<and> List.map item_facts es = List.map (record_facts ctx) (filter (admitted_item ctx (ts_cache st)) [r]) \<and> (\<forall>e \<in> set es. acs_item_ok e)
     \<and> ct_acs_corrections (ts_counters st') = ct_acs_corrections (ts_counters st)
     \<and> item_total (ts_counters st') = item_total (ts_counters st) + of_bool (rec_code r = ''10'')"
    (is "\<exists>st' es. ?P st' es")
proof -
  consider "rec_code r \<noteq> ''10''" | "rec_code r = ''10''" "rec_barcode r = []"
    | "rec_code r = ''10''" "rec_barcode r \<noteq> []" "known_card ctx (ts_cache st) (rec_barcode r)"
    | "rec_code r = ''10''" "rec_barcode r \<noteq> []" "\<not> known_card ctx (ts_cache st) (rec_barcode r)" "\<not> in_window ctx (utc_of ctx (rec_when r))"
    | "rec_code r = ''10''" "rec_barcode r \<noteq> []" "\<not> known_card ctx (ts_cache st) (rec_barcode r)" "in_window ctx (utc_of ctx (rec_when r))"
    by blast
  then show ?thesis
  proof cases
    case 1
    with ok show ?thesis by (intro exI [of _ st] exI [of _ "[]"]) (simp add: item_step_def admitted_item_def)
  next
    case 2
    with ok show ?thesis by (intro exI [of _ "projr (item_step ctx st r)"] exI [of _ "[]"])
      (simp add: item_step_def admitted_item_def item_total_def)
  next
    case 3
    then have "cache_contains (ts_cache st) (patron_id_hmac (tc_keys ctx) (rec_barcode r))" by (simp add: known_card_def)
    with 3 ok show ?thesis
      by (intro exI [of _ "projr (item_step ctx st r)"] exI [of _ "[]"])
        (simp add: item_step_def admitted_item_def item_total_def guarded_card_eq ledger_ok_sight consistent_sight sight_contains)
  next
    case 4
    obtain ct where c: "count_instant ctx (ts_counters st) (rec_when r) = (None, ct)"
      "tally_of ''acs_items'' ct = (tally_of ''acs_items'' (ts_counters st))\<lparr>tl_range := tl_range (tally_of ''acs_items'' (ts_counters st)) + 1\<rparr>"
      using count_instant_out [OF 4(4)] by blast
    have k: "ct_acs_corrections ct = ct_acs_corrections (ts_counters st)"
      using c(1) by (auto simp: count_instant_def Let_def split: prod.splits if_splits)
    have "item_total ct = item_total (ts_counters st) + 1" by (simp add: item_total_tally c(2) Let_def)
    with 4 c(1) ok k show ?thesis
      by (intro exI [of _ "st\<lparr>ts_counters := ct\<rparr>"] exI [of _ "[]"]) (simp add: item_step_def admitted_item_def guarded_card_eq)
  next
    case 5
    let ?t = "utc_of ctx (rec_when r)" and ?s = "item_state (rec_raw r)"
    obtain ct where c: "count_instant ctx (ts_counters st) (rec_when r) = (Some ?t, ct)"
      "tally_of ''acs_items'' ct = tally_of ''acs_items'' (ts_counters st)"
      using count_instant_in [OF 5(4)] by blast
    have k: "ct_acs_corrections ct = ct_acs_corrections (ts_counters st)" "item_total ct = item_total (ts_counters st)"
      using c by (auto simp: count_instant_def Let_def item_total_tally split: prod.splits if_splits)
    let ?st = "st\<lparr>ts_counters := ct\<rparr>"
    have ok1: "ledger_ok (ts_cache ?st)" "ledger_consistent (tc_rules ctx) (ts_cache ?st)" using ok by simp_all
    obtain st' e where r: "(if ?s = ''hold'' then hold_record ctx ?st r ?t else other_record ctx ?st r ?t ?s) = Inr st'"
      "ledger_ok (ts_cache st')" "ledger_consistent (tc_rules ctx) (ts_cache st')"
      "cache_contains (ts_cache st') = cache_contains (ts_cache ?st)" "ts_events st' = ts_events ?st @ [AcsItem e]"
      "item_facts e = (?t, item_key (tc_keys ctx) (rec_barcode r), ?s)" "acs_item_ok e"
      "ct_acs_corrections (ts_counters st') = ct_acs_corrections (ts_counters ?st)"
      "item_total (ts_counters st') = item_total (ts_counters ?st) + 1"
      using hold_record_spec [OF ctx ok1 5(4), of r] other_record_spec [OF ok1, of ?s r ?t] by (cases "?s = ''hold''") auto
    have "item_step ctx st r = Inr st'"
      using 5 c(1) r(1) by (simp add: item_step_def guarded_card_eq Let_def)
    with 5 r k have "?P st' [e]" by (simp add: admitted_item_def record_facts_def)
    then show ?thesis by blast
  qed
qed

lemma admitted_item_cong: "cache_contains c = cache_contains c' \<Longrightarrow> admitted_item ctx c = admitted_item ctx c'"
  by (intro ext) (simp add: admitted_item_def known_card_def)

lemma items_loop:
  assumes "context_ok ctx" "ledger_ok (ts_cache st)" "ledger_consistent (tc_rules ctx) (ts_cache st)"
  shows "\<exists>st' es. fold_result (item_step ctx) st rs = Inr st' \<and> ledger_ok (ts_cache st') \<and> ledger_consistent (tc_rules ctx) (ts_cache st')
     \<and> cache_contains (ts_cache st') = cache_contains (ts_cache st) \<and> ts_events st' = ts_events st @ List.map AcsItem es
     \<and> List.map item_facts es = List.map (record_facts ctx) (filter (admitted_item ctx (ts_cache st)) rs) \<and> (\<forall>e \<in> set es. acs_item_ok e)
     \<and> ct_acs_corrections (ts_counters st') = ct_acs_corrections (ts_counters st)
     \<and> item_total (ts_counters st') = item_total (ts_counters st) + length (filter (\<lambda>r. rec_code r = ''10'') rs)"
  using assms(2,3)
proof (induction rs arbitrary: st)
  case Nil
  then show ?case by (intro exI [of _ st] exI [of _ "[]"]) simp
next
  case (Cons r rs)
  obtain st1 es1 where s: "item_step ctx st r = Inr st1" "ledger_ok (ts_cache st1)" "ledger_consistent (tc_rules ctx) (ts_cache st1)"
      "cache_contains (ts_cache st1) = cache_contains (ts_cache st)" "ts_events st1 = ts_events st @ List.map AcsItem es1"
      "List.map item_facts es1 = List.map (record_facts ctx) (filter (admitted_item ctx (ts_cache st)) [r])" "\<forall>e \<in> set es1. acs_item_ok e"
      "ct_acs_corrections (ts_counters st1) = ct_acs_corrections (ts_counters st)"
      "item_total (ts_counters st1) = item_total (ts_counters st) + of_bool (rec_code r = ''10'')"
    using item_step_spec [OF assms(1) Cons.prems, of r] by blast
  obtain st2 es2 where t: "fold_result (item_step ctx) st1 rs = Inr st2" "ledger_ok (ts_cache st2)"
      "ledger_consistent (tc_rules ctx) (ts_cache st2)"
      "cache_contains (ts_cache st2) = cache_contains (ts_cache st1)" "ts_events st2 = ts_events st1 @ List.map AcsItem es2"
      "List.map item_facts es2 = List.map (record_facts ctx) (filter (admitted_item ctx (ts_cache st)) rs)" "\<forall>e \<in> set es2. acs_item_ok e"
      "ct_acs_corrections (ts_counters st2) = ct_acs_corrections (ts_counters st1)"
      "item_total (ts_counters st2) = item_total (ts_counters st1) + length (filter (\<lambda>r. rec_code r = ''10'') rs)"
    using Cons.IH [OF s(2,3)] unfolding admitted_item_cong [OF s(4)] by blast
  show ?case
  proof (intro exI conjI)
    show "fold_result (item_step ctx) st (r # rs) = Inr st2" using s(1) t(1) by simp
    show "ts_events st2 = ts_events st @ List.map AcsItem (es1 @ es2)" using s(5) t(5) by simp
    show "List.map item_facts (es1 @ es2) = List.map (record_facts ctx) (filter (admitted_item ctx (ts_cache st)) (r # rs))"
      using s(6) t(6) by simp
    show "\<forall>e \<in> set (es1 @ es2). acs_item_ok e" using s(7) t(7) by auto
  qed (use s t in simp_all)
qed

section \<open>The identifiers of a batch\<close>

definition batch_cards :: "sub_keys \<Rightarrow> acs_record list \<Rightarrow> octets set" where
  "batch_cards keys records = patron_id_hmac keys ` {rec_patron_id r |r. r \<in> set records \<and> rec_patron_id r \<noteq> []}"

lemma foldl_update_keys: "fst ` set (foldl (\<lambda>ps r. AList.update (f r) (g r) ps) ps rs) = fst ` set ps \<union> f ` set rs"
proof (induction rs arbitrary: ps)
  case Nil
  then show ?case by simp
next
  case (Cons r rs)
  have "fst ` set (AList.update (f r) (g r) ps) = insert (f r) (fst ` set ps)"
    using dom_update [of "f r" "g r" ps] by (simp add: dom_map_of_conv_image_fst)
  with Cons show ?case by auto
qed

lemma profile_keys:
  "fst ` set (patron_profiles keys records) =
     patron_id_hmac keys ` {rec_patron_id r |r. r \<in> set records \<and> rec_code r = ''64'' \<and> rec_patron_id r \<noteq> []}"
  unfolding patron_profiles_def foldl_update_keys by auto

lemma sight_patrons_spec:
  "hold_get (sight_patrons keys records c) = hold_get c \<and> (ledger_ok c \<longrightarrow> ledger_ok (sight_patrons keys records c))
   \<and> ledger_consistent rs (sight_patrons keys records c) = ledger_consistent rs c
   \<and> (\<forall>k. cache_contains (sight_patrons keys records c) k \<longleftrightarrow> cache_contains c k
        \<or> k \<in> patron_id_hmac keys ` {rec_patron_id r |r. r \<in> set records \<and> rec_code r \<noteq> ''64'' \<and> rec_patron_id r \<noteq> []})"
proof (induction records arbitrary: c)
  case Nil
  then show ?case by (simp add: sight_patrons_def)
next
  case (Cons r records)
  have c: "sight_patrons keys (r # records) c = sight_patrons keys records
      (if rec_code r \<noteq> ''64'' \<and> rec_patron_id r \<noteq> [] then cache_sight c (patron_id_hmac keys (rec_patron_id r)) else c)"
    by (simp add: sight_patrons_def)
  show ?case
    using Cons.IH [of "if rec_code r \<noteq> ''64'' \<and> rec_patron_id r \<noteq> [] then cache_sight c (patron_id_hmac keys (rec_patron_id r)) else c"]
    unfolding c by (auto simp: ledger_ok_sight consistent_sight sight_contains_iff)
qed

text \<open>What is known once the profiles and sightings of the batch are in.\<close>

lemma batch_known:
  assumes "\<forall>k. cache_contains c1 k \<longleftrightarrow> k \<in> fst ` set (patron_profiles keys records) \<or> cache_contains c k"
  shows "cache_contains (sight_patrons keys records c1) k \<longleftrightarrow> cache_contains c k \<or> k \<in> batch_cards keys records"
  using assms sight_patrons_spec [of keys records c1 undefined] unfolding profile_keys batch_cards_def by blast

section \<open>The properties of the ACS transformation\<close>

definition acs_records :: "(string \<Rightarrow> int option) \<Rightarrow> string list \<Rightarrow> acs_record list" where
  "acs_records parse_dt lines = usable_records (parse_acs parse_dt lines)"

lemma acs_run:
  fixes parse_dt :: "string \<Rightarrow> int option" and lines :: "string list"
  assumes "context_ok ctx" "ledger_ok cache" "ledger_consistent (tc_rules ctx) cache"
  defines "records \<equiv> acs_records parse_dt lines"
  shows "\<exists>st corr items. transform_acs parse_dt ctx lines cache = Inr st \<and> ts_events st = List.map AcsItem (corr @ items)
    \<and> (\<forall>e \<in> set corr. from_ledger (hold_get cache) e) \<and> (\<forall>e \<in> set items. acs_item_ok e)
    \<and> List.map item_facts items = List.map (record_facts ctx)
        (filter (\<lambda>r. admitted_item ctx cache r \<and> patron_id_hmac (tc_keys ctx) (rec_barcode r) \<notin> batch_cards (tc_keys ctx) records) records)
    \<and> ledger_ok (ts_cache st) \<and> ledger_consistent (tc_rules ctx) (ts_cache st)
    \<and> ct_acs_corrections (ts_counters st) = length corr
    \<and> item_total (ts_counters st) = length corr + length (filter (\<lambda>r. rec_code r = ''10'') records)"
proof -
  let ?keys = "tc_keys ctx" and ?rows = "parse_acs parse_dt lines"
  let ?n = "length (filter (\<lambda>r. rec_code r = ''64'' \<and> rec_patron_id r \<noteq> []) records)"
  let ?ct = "new_counters\<lparr>ct_lines_read := length lines, ct_dropped_bad_time := length ?rows - length records,
                            ct_records_parsed := length records, ct_patron_records := ?n\<rparr>"
  let ?st0 = "\<lparr>ts_events = [], ts_cache = cache, ts_counters = ?ct\<rparr>"
  have zero: "item_total ?ct = 0" "ct_acs_corrections ?ct = 0"
    by (simp_all add: item_total_def new_counters_def count_of_def kinds_def)
  obtain st1 corr where s: "fold_result (profile_step ctx) ?st0 (patron_profiles ?keys records) = Inr st1" "ledger_ok (ts_cache st1)"
      "ledger_consistent (tc_rules ctx) (ts_cache st1)"
      "\<forall>k. cache_contains (ts_cache st1) k \<longleftrightarrow> k \<in> fst ` set (patron_profiles ?keys records) \<or> cache_contains cache k"
      "ts_events st1 = List.map AcsItem corr" "\<forall>e \<in> set corr. from_ledger (hold_get cache) e"
      "ct_acs_corrections (ts_counters st1) = length corr"
      "tally_of ''acs_items'' (ts_counters st1) = (tally_of ''acs_items'' ?ct)\<lparr>tl_events := tl_events (tally_of ''acs_items'' ?ct) + length corr\<rparr>"
    using profiles_loop [OF assms(1), of ?st0 "patron_profiles ?keys records"] assms(2,3) zero(2) by auto
  have t1: "item_total (ts_counters st1) = length corr"
    using zero(1) unfolding item_total_tally s(8) by (simp add: Let_def)
  let ?st1 = "st1\<lparr>ts_cache := sight_patrons ?keys records (ts_cache st1)\<rparr>"
  have ok: "ledger_ok (ts_cache ?st1)" "ledger_consistent (tc_rules ctx) (ts_cache ?st1)"
    using s(2,3) sight_patrons_spec [of ?keys records "ts_cache st1" "tc_rules ctx"] by simp_all
  have known: "admitted_item ctx (ts_cache ?st1) = (\<lambda>r. admitted_item ctx cache r
      \<and> patron_id_hmac ?keys (rec_barcode r) \<notin> batch_cards ?keys records)"
    using batch_known [OF s(4)] by (intro ext) (auto simp: admitted_item_def known_card_def)
  obtain st2 items where r: "fold_result (item_step ctx) ?st1 records = Inr st2" "ledger_ok (ts_cache st2)"
      "ledger_consistent (tc_rules ctx) (ts_cache st2)" "ts_events st2 = List.map AcsItem corr @ List.map AcsItem items"
      "List.map item_facts items = List.map (record_facts ctx) (filter (admitted_item ctx (ts_cache ?st1)) records)"
      "\<forall>e \<in> set items. acs_item_ok e" "ct_acs_corrections (ts_counters st2) = length corr"
      "item_total (ts_counters st2) = length corr + length (filter (\<lambda>r. rec_code r = ''10'') records)"
    using items_loop [OF assms(1) ok, of records] s(5,7) t1 by auto
  have "transform_acs parse_dt ctx lines cache = Inr (st2\<lparr>ts_counters := finish_events (ts_events st2) (ts_counters st2)\<rparr>)"
    using s(1) r(1) by (simp add: transform_acs_def Let_def acs_records_def [symmetric] records_def [symmetric])
  then show ?thesis
    using r s(6) unfolding known
    by (intro exI [of _ "st2\<lparr>ts_counters := finish_events (ts_events st2) (ts_counters st2)\<rparr>"] exI [of _ corr] exI [of _ items])
      (simp add: finish_events_def item_total_def)
qed

text \<open>C7. On a well-formed ledger the transformation of an ACS log never fails, and it emits exactly the corrections, which repeat
  holds already in the ledger, followed by one item event per admitted item record, in order, with that record's instant, the
  digest of its barcode and its hold state. A barcode that is the identifier of any patron, remembered on this machine or
  mentioned anywhere in the same batch, never becomes an event, and every item record is counted as an event or under one
  reason for dropping it.\<close>

theorem acs_exact:
  fixes parse_dt :: "string \<Rightarrow> int option" and lines :: "string list"
  assumes "context_ok ctx" "ledger_ok cache" "ledger_consistent (tc_rules ctx) cache"
  defines "records \<equiv> acs_records parse_dt lines"
  shows "\<exists>st corr items. transform_acs parse_dt ctx lines cache = Inr st \<and> ts_events st = List.map AcsItem (corr @ items)
    \<and> (\<forall>e \<in> set corr. from_ledger (hold_get cache) e) \<and> (\<forall>e \<in> set items. acs_item_ok e)
    \<and> List.map item_facts items = List.map (record_facts ctx)
        (filter (\<lambda>r. admitted_item ctx cache r \<and> patron_id_hmac (tc_keys ctx) (rec_barcode r) \<notin> batch_cards (tc_keys ctx) records) records)
    \<and> length corr = ct_acs_corrections (ts_counters st)
    \<and> length (filter (\<lambda>r. rec_code r = ''10'') records) + ct_acs_corrections (ts_counters st) = item_total (ts_counters st)"
proof -
  obtain st corr items where r: "transform_acs parse_dt ctx lines cache = Inr st" "ts_events st = List.map AcsItem (corr @ items)"
    "\<forall>e \<in> set corr. from_ledger (hold_get cache) e" "\<forall>e \<in> set items. acs_item_ok e"
    "List.map item_facts items = List.map (record_facts ctx)
        (filter (\<lambda>r. admitted_item ctx cache r \<and> patron_id_hmac (tc_keys ctx) (rec_barcode r) \<notin> batch_cards (tc_keys ctx) records) records)"
    "ct_acs_corrections (ts_counters st) = length corr"
    "item_total (ts_counters st) = length corr + length (filter (\<lambda>r. rec_code r = ''10'') records)"
    using acs_run [OF assms(1-3), of parse_dt lines] unfolding records_def by blast
  from r(6,7) have "length corr = ct_acs_corrections (ts_counters st)
    \<and> length (filter (\<lambda>r. rec_code r = ''10'') records) + ct_acs_corrections (ts_counters st) = item_total (ts_counters st)" by simp
  with r(1-5) show ?thesis by blast
qed

text \<open>C8. The ledger always agrees with the patron profiles: if every remembered hold carries the flags that its own message and
  its patron's cached profile call for, it does so after any further ACS log, whatever profiles change, appear or arrive late
  and in whatever order the records come; and the ledger stays well formed.\<close>

theorem acs_ledger_invariant:
  assumes "context_ok ctx" "ledger_ok cache" "ledger_consistent (tc_rules ctx) cache"
    and "transform_acs parse_dt ctx lines cache = Inr st"
  shows "ledger_ok (ts_cache st) \<and> ledger_consistent (tc_rules ctx) (ts_cache st)"
  using acs_run [OF assms(1-3), of parse_dt lines] assms(4) by auto

text \<open>Correcting a patron's holds under a profile outcome makes every one of them say what the outcome calls for and leaves every
  other hold alone, sends one event for each hold that changed and none for the others, raises the revision of exactly the
  changed ones, and is idempotent: under the same outcome nothing is left to correct.\<close>

lemma corrections_converge:
  assumes "context_ok ctx" "ledger_ok (ts_cache st)"
  shows "\<exists>st' es. corrections ctx pk outcome st = Inr st' \<and> ts_events st' = ts_events st @ List.map AcsItem es
     \<and> list_all2 (corrects outcome) (filter (needs_correction outcome) (holds_for_patron (ts_cache st) pk)) es
     \<and> hold_get (ts_cache st') = corrected_ledger outcome pk (hold_get (ts_cache st)) \<and> ledger_ok (ts_cache st')
     \<and> corrections ctx pk outcome st' = Inr st'"
proof -
  obtain st' es where s: "corrections ctx pk outcome st = Inr st'" "ts_events st' = ts_events st @ List.map AcsItem es"
     "list_all2 (corrects outcome) (filter (needs_correction outcome) (holds_for_patron (ts_cache st) pk)) es"
     "hold_get (ts_cache st') = corrected_ledger outcome pk (hold_get (ts_cache st))" "ledger_ok (ts_cache st')"
    using corrections_run [OF assms, of pk outcome] by blast
  have stay: "fold_result (correction_step ctx outcome) st' rows = Inr st'"
    if "\<forall>row \<in> set rows. combine (hr_static row) outcome = hr_flags row" for rows
    using that by (induction rows) (auto simp: correction_step_def)
  have "\<forall>row \<in> set (holds_for_patron (ts_cache st') pk). combine (hr_static row) outcome = hr_flags row"
  proof
    fix row assume "row \<in> set (holds_for_patron (ts_cache st') pk)"
    then obtain k where "corrected_ledger outcome pk (hold_get (ts_cache st)) k = Some row" "hr_patron_pk row = pk"
      unfolding holds_listed(1) [OF s(5)] s(4) by blast
    then obtain row0 where r0: "row = (if hr_patron_pk row0 = pk then corrected outcome row0 else row0)"
      unfolding corrected_ledger_def by blast
    with \<open>hr_patron_pk row = pk\<close> have "hr_patron_pk row0 = pk" by (cases "hr_patron_pk row0 = pk") simp_all
    with r0 show "combine (hr_static row) outcome = hr_flags row" by simp
  qed
  from stay [OF this] have "corrections ctx pk outcome st' = Inr st'" by (simp only: corrections_def)
  with s show ?thesis by blast
qed

section \<open>Witnesses\<close>

definition sample_hold :: hold_row where
  "sample_hold = \<lparr>hr_item_key = sample_key, hr_event_time = format_time 1730597400000000, hr_patron_pk = [7],
     hr_destination = ''main'', hr_static = (False, False, False), hr_flags = (False, False, False), hr_revision = 0\<rparr>"

definition sample_ledger :: patron_cache where
  "sample_ledger = empty_cache\<lparr>pc_holds := [(sample_key, sample_hold)]\<rparr>"

lemma sample_ledger_facts: "ledger_ok sample_ledger" "ledger_consistent sample_rules sample_ledger" "context_ok sample_context"
proof -
  have h: "hold_get sample_ledger k = (if k = sample_key then Some sample_hold else None)" for k
    by (simp add: hold_get_def sample_ledger_def empty_cache_def)
  have "is_hmac_hex sample_key" by code_simp
  moreover have "in_calendar 1730597400000000" by code_simp
  ultimately have "row_ok sample_hold" by (auto simp: row_ok_def sample_hold_def)
  moreover have "cache_wf sample_ledger" by (simp add: cache_wf_def sample_ledger_def empty_cache_def sample_cache_def sample_hold_def)
  ultimately show "ledger_ok sample_ledger" by (auto simp: ledger_ok_def h split: if_splits)
  have "cache_lookup sample_ledger = (\<lambda>_. None)"
    by (simp add: cache_lookup_def sample_ledger_def empty_cache_def sample_cache_def fun_eq_iff)
  then show "ledger_consistent sample_rules sample_ledger"
    by (auto simp: ledger_consistent_def h sample_hold_def combine_def profile_outcome_def unknown_patron_def split: if_splits)
  have "is_uuid4 (tc_ruleset_id sample_context)" by code_simp
  moreover have "in_calendar (tc_now sample_context + day_us)" by code_simp
  ultimately show "context_ok sample_context" using sample_context_facts(1) by (simp add: context_ok_def)
qed

definition sample_acs_line :: string where
  "sample_acs_line = ''11/03/2024'' @ [CHR 0x02] @ ''01:30:00 AM'' @ [CHR 0x02] @ ''101YNY20241103|ABB100|AJTitle|CTWestside|''"

lemma sample_acs_records:
  "List.map (\<lambda>r. (rec_when r, rec_code r, rec_barcode r, rec_patron_id r, item_state (rec_raw r)))
     (acs_records (\<lambda>_. Some 1730597400000000) [sample_acs_line]) = [(1730597400000000, ''10'', ''B100'', [], ''hold'')]"
  by code_simp

lemma sample_ledger_unknown: "cache_contains sample_ledger = (\<lambda>_. False)"
  using sample_context_facts(2) by (simp add: sample_ledger_def cache_contains_def fun_eq_iff)

theorem acs_exact_witness:
  "\<exists>st corr e. transform_acs (\<lambda>_. Some 1730597400000000) sample_context [sample_acs_line] sample_ledger = Inr st
     \<and> ts_events st = List.map AcsItem (corr @ [e]) \<and> ai_state e = ''hold''"
proof -
  let ?p = "\<lambda>_::string. Some (1730597400000000::int)"
  let ?rs = "acs_records ?p [sample_acs_line]"
  obtain r where r: "?rs = [r]" "rec_when r = 1730597400000000" "rec_code r = ''10''" "rec_barcode r = ''B100''" "rec_patron_id r = []"
      "item_state (rec_raw r) = ''hold''"
    using sample_acs_records by auto
  have "batch_cards (tc_keys sample_context) ?rs = {}" using r by (auto simp: batch_cards_def)
  moreover have "admitted_item sample_context sample_ledger r"
    using r sample_context_facts(3) by (simp add: admitted_item_def known_card_def sample_ledger_unknown)
  ultimately have f: "filter (\<lambda>r. admitted_item sample_context sample_ledger r
      \<and> patron_id_hmac (tc_keys sample_context) (rec_barcode r) \<notin> batch_cards (tc_keys sample_context) ?rs) ?rs = [r]"
    using r(1) by simp
  have c: "ledger_consistent (tc_rules sample_context) sample_ledger" using sample_ledger_facts(2) by (simp add: sample_context_def)
  from acs_exact [OF sample_ledger_facts(3,1) c, of ?p "[sample_acs_line]"] obtain st corr items
    where "transform_acs ?p sample_context [sample_acs_line] sample_ledger = Inr st" "ts_events st = List.map AcsItem (corr @ items)"
      "List.map item_facts items = [record_facts sample_context r]" unfolding f list.map by (elim exE conjE) (rule that)
  with r(6) show ?thesis by (auto simp: item_facts_def record_facts_def)
qed

theorem acs_ledger_invariant_witness:
  "\<exists>st. transform_acs (\<lambda>_. Some 1730597400000000) sample_context [sample_acs_line] sample_ledger = Inr st
     \<and> ledger_consistent sample_rules (ts_cache st)"
proof -
  have c: "ledger_consistent (tc_rules sample_context) sample_ledger" using sample_ledger_facts(2) by (simp add: sample_context_def)
  obtain st where t: "transform_acs (\<lambda>_. Some 1730597400000000) sample_context [sample_acs_line] sample_ledger = Inr st"
    using acs_run [OF sample_ledger_facts(3,1) c] by blast
  with acs_ledger_invariant [OF sample_ledger_facts(3,1) c t] show ?thesis by (auto simp: sample_context_def)
qed

lemma corrections_converge_witness:
  "\<exists>st' e. corrections sample_context [7] (True, False, False) (start_state 0 sample_ledger) = Inr st'
     \<and> ts_events st' = [AcsItem e] \<and> ai_is_ill e = Some True
     \<and> corrections sample_context [7] (True, False, False) st' = Inr st'"
proof -
  have s: "ts_cache (start_state 0 sample_ledger) = sample_ledger" "ts_events (start_state 0 sample_ledger) = []"
    by (simp_all add: start_state_def)
  have "holds_for_patron sample_ledger [7] = [sample_hold]"
    by (simp add: holds_for_patron_def sample_ledger_def empty_cache_def sample_cache_def sample_hold_def)
  moreover have "needs_correction (True, False, False) sample_hold"
    by (simp add: needs_correction_def sample_hold_def combine_def)
  ultimately have f: "filter (needs_correction (True, False, False)) (holds_for_patron sample_ledger [7]) = [sample_hold]" by simp
  show ?thesis
    using corrections_converge [OF sample_ledger_facts(3), of "start_state 0 sample_ledger" "[7]" "(True, False, False)"]
      sample_ledger_facts(1) unfolding s f
    by (auto simp: list_all2_Cons1 corrects_def combine_def sample_hold_def)
qed

end
