(* ===== verification/V2Emitted.thy ===== *)
theory V2Emitted
  imports V2Chunks V2Delivery
begin

text \<open>
  What leaves the privacy boundary can be delivered: every event of every chunk, whatever the log holds, has
  passed its constructor's checks and carries an instant of the calendar. The chain from the steps of the
  transformation to \<open>read_next_chunk\<close> is one invariant of the state of the loops.
\<close>

section \<open>Instants read back\<close>

lemma ymd2ord_max:
  assumes "valid_ymd (y, m, d)" "y \<le> 9999"
  shows "ymd2ord (y, m, d) \<le> 3652059"
proof -
  have "ymd2ord (y, m, d) \<le> days_before_year (Suc y)"
    using days_before_month_bound assms(1) days_before_year_Suc [of y] by (fastforce simp: ymd2ord_def valid_ymd_def)
  also have "\<dots> \<le> days_before_year 10000" by (rule days_before_year_mono) (use assms(2) in auto)
  also have "\<dots> = 3652059" by (simp add: days_before_year_def)
  finally show ?thesis .
qed

lemma instant_of_calendar:
  assumes "valid_ymd (y, m, d)" "y \<le> 9999" "h \<le> 23" "mi \<le> 59" "s \<le> 59"
  shows "in_calendar (instant_of (y, m, d) h mi s)"
proof -
  let ?r = "int (h * 3600 + mi * 60 + s) * 1000000"
  have "h * 3600 + mi * 60 + s \<le> 86399" using assms(3-5) by simp
  then have "int (h * 3600 + mi * 60 + s) \<le> 86399" by linarith
  then have "0 \<le> ?r" "?r < day_us" by simp_all
  then have "day_of (instant_of (y, m, d) h mi s) = int (ymd2ord (y, m, d)) - 719163"
    unfolding day_of_def instant_of_def by simp
  then show ?thesis using ymd2ord_pos [OF assms(1)] ymd2ord_max [OF assms(1,2)] by (simp add: in_calendar_def)
qed

lemma time_field_bounds: "time_field lo hi s = Some n \<Longrightarrow> lo \<le> n \<and> n \<le> hi"
  by (auto simp: time_field_def split: if_splits)

lemma read_digits_bound: "list_all is_digit s \<Longrightarrow> read_digits s < 10 ^ length s"
proof (induction s rule: rev_induct)
  case (snoc c s)
  have "digit_val c < 10" using snoc.prems by (auto simp: digit_val_def is_digit_def)
  with snoc show ?case by simp
qed simp

lemma strptime_calendar: "strptime_utc s = Some t \<Longrightarrow> in_calendar t"
proof -
  assume "strptime_utc s = Some t"
  then obtain ys m d h mi sec hs mis ss where a: "length ys = 4" "list_all is_digit ys" "time_field 0 23 hs = Some h" "time_field 0 59 mis = Some mi"
      "time_field 0 59 ss = Some sec" "valid_ymd (read_digits ys, m, d)" "t = instant_of (read_digits ys, m, d) h mi sec"
    unfolding strptime_utc_def by (auto split: list.splits option.splits if_splits)
  have "read_digits ys < 10 ^ 4" using read_digits_bound [OF a(2)] a(1) by simp
  then show ?thesis
    unfolding a(7) by (intro instant_of_calendar a(6)) (use time_field_bounds [OF a(3)] time_field_bounds [OF a(4)] time_field_bounds [OF a(5)] in simp_all)
qed

section \<open>Every step emits deliverable events\<close>

definition emits_ok :: "tstate \<Rightarrow> bool" where
  "emits_ok st \<longleftrightarrow> (\<forall>e \<in> set (ts_events st). client_event e)"

definition clock_ok :: "transform_context \<Rightarrow> bool" where
  "clock_ok ctx \<longleftrightarrow> in_calendar (tc_now ctx + day_us)"

lemma emits_ok_same: "emits_ok st \<Longrightarrow> ts_events st' = ts_events st \<Longrightarrow> emits_ok st'"
  by (simp add: emits_ok_def)

lemma emits_ok_snoc: "emits_ok st \<Longrightarrow> ts_events st' = ts_events st @ [e] \<Longrightarrow> client_event e \<Longrightarrow> emits_ok st'"
  by (auto simp: emits_ok_def)

lemma built_acs: "build_acs_item keys t item st dest ill br co rs rv = Inr e \<Longrightarrow> in_calendar t \<Longrightarrow> client_event (AcsItem e)"
  by (auto dest: build_acs_item_Inr simp: client_event_def)

lemma built_checkin: "build_checkin keys t item dest bin = Inr e \<Longrightarrow> in_calendar t \<Longrightarrow> client_event (Checkin e)"
  by (auto simp: build_checkin_def mk_checkin_Inr client_event_def)

lemma built_reject: "build_reject keys t item cls = Inr e \<Longrightarrow> in_calendar t \<Longrightarrow> client_event (Reject e)"
  by (auto simp: build_reject_def mk_reject_Inr client_event_def)

lemma counted_instant: "count_instant ctx ct n = (Some t, ct') \<Longrightarrow> clock_ok ctx \<Longrightarrow> in_calendar t"
proof -
  assume "count_instant ctx ct n = (Some t, ct')" "clock_ok ctx"
  then have "earliest \<le> t" "t \<le> tc_now ctx + day_us" by (auto simp: count_instant_def Let_def split: prod.splits if_splits)
  then have "day_of earliest \<le> day_of t" "day_of t \<le> day_of (tc_now ctx + day_us)" by (auto simp: day_of_def intro: zdiv_mono1)
  with \<open>clock_ok ctx\<close> show ?thesis by (auto simp: clock_ok_def in_calendar_def day_of_def earliest_def)
qed

lemma correction_emits: "correction_step ctx o' st row = Inr st' \<Longrightarrow> emits_ok st \<Longrightarrow> emits_ok st'"
  by (auto simp: correction_step_def Let_def parse_stamp_def split: if_splits option.splits
      intro: emits_ok_snoc [OF _ _ built_acs] strptime_calendar)

lemma profile_emits:
  assumes "profile_step ctx st item = Inr st'" "emits_ok st"
  shows "emits_ok st'"
proof -
  obtain pk info where i: "item = (pk, info)" by (cases item)
  from assms(1) obtain st1 where s: "corrections ctx pk (profile_outcome (Some info) (tc_rules ctx)) st = Inr st1 \<or> st1 = st"
      "st' = st1\<lparr>ts_cache := cache_stage (ts_cache st1) pk info True\<rparr>"
    by (auto simp: profile_step_def i Let_def split: if_splits)
  have "emits_ok st1" using s(1) assms(2) fold_result_keeps [of _ _ _ st1 emits_ok] correction_emits
    unfolding corrections_def by metis
  with s(2) show ?thesis by (simp add: emits_ok_def)
qed

lemma hold_emits: "hold_record ctx st r t = Inr st' \<Longrightarrow> in_calendar t \<Longrightarrow> emits_ok st \<Longrightarrow> emits_ok st'"
  by (auto simp: hold_record_def Let_def intro: emits_ok_snoc [OF _ _ built_acs])

lemma other_emits: "other_record ctx st r t state = Inr st' \<Longrightarrow> in_calendar t \<Longrightarrow> emits_ok st \<Longrightarrow> emits_ok st'"
  by (auto simp: other_record_def Let_def intro: emits_ok_snoc [OF _ _ built_acs])

lemma item_emits:
  assumes "item_step ctx st r = Inr st'" "emits_ok st" "clock_ok ctx"
  shows "emits_ok st'"
proof -
  from assms(1) consider "ts_events st' = ts_events st"
    | t ct ct' where "count_instant ctx ct (rec_when r) = (Some t, ct')"
        "hold_record ctx (st\<lparr>ts_counters := ct'\<rparr>) r t = Inr st' \<or> other_record ctx (st\<lparr>ts_counters := ct'\<rparr>) r t (item_state (rec_raw r)) = Inr st'"
    by (auto simp: item_step_def Let_def split: if_splits prod.splits bool.splits option.splits)
  then show ?thesis
  proof cases
    case 1
    then show ?thesis using assms(2) by (simp add: emits_ok_def)
  next
    case 2
    have "emits_ok (st\<lparr>ts_counters := ct'\<rparr>)" using assms(2) by (simp add: emits_ok_def)
    with 2 counted_instant [OF 2(1) assms(3)] show ?thesis using hold_emits other_emits by blast
  qed
qed

lemma checkin_emits: "checkin_step ctx st row = Inr st' \<Longrightarrow> clock_ok ctx \<Longrightarrow> emits_ok st \<Longrightarrow> emits_ok st'"
  by (auto simp: checkin_step_def Let_def split: option.splits prod.splits bool.splits
      intro: emits_ok_snoc [OF _ _ built_checkin] counted_instant emits_ok_same)

lemma reject_emits: "reject_step ctx st row = Inr st' \<Longrightarrow> clock_ok ctx \<Longrightarrow> emits_ok st \<Longrightarrow> emits_ok st'"
  by (auto simp: reject_step_def Let_def split: option.splits prod.splits bool.splits
      intro: emits_ok_snoc [OF _ _ built_reject] counted_instant emits_ok_same)

section \<open>Chunks\<close>

lemma run_rows_emits:
  assumes "run_rows step n rows cache = Inr st" "\<And>s r s'. step s r = Inr s' \<Longrightarrow> emits_ok s \<Longrightarrow> emits_ok s'"
  shows "emits_ok st"
proof -
  from assms(1) obtain st1 where f: "fold_result step \<lparr>ts_events = [], ts_cache = cache, ts_counters = new_counters\<lparr>ct_lines_read := n\<rparr>\<rparr> rows = Inr st1"
      "ts_events st = ts_events st1" by (auto simp: run_rows_def)
  have "emits_ok \<lparr>ts_events = [], ts_cache = cache, ts_counters = new_counters\<lparr>ct_lines_read := n\<rparr>\<rparr>" by (simp add: emits_ok_def)
  then have "emits_ok st1" by (rule fold_result_keeps [OF f(1)]) (rule assms(2))
  with f(2) show ?thesis by (simp add: emits_ok_def)
qed

lemma acs_emits:
  assumes "transform_acs parse_dt ctx lines cache = Inr st" "clock_ok ctx"
  shows "emits_ok st"
proof -
  let ?records = "usable_records (parse_acs parse_dt lines)"
  let ?ct = "new_counters\<lparr>ct_lines_read := length lines, ct_dropped_bad_time := length (parse_acs parse_dt lines) - length ?records,
      ct_records_parsed := length ?records, ct_patron_records := length (filter (\<lambda>r. rec_code r = ''64'' \<and> rec_patron_id r \<noteq> []) ?records)\<rparr>"
  define st0 where "st0 = \<lparr>ts_events = [], ts_cache = cache, ts_counters = ?ct\<rparr>"
  from assms(1) obtain st1 st2 where f:
      "fold_result (profile_step ctx) st0 (patron_profiles (tc_keys ctx) ?records) = Inr st1"
      "fold_result (item_step ctx) (st1\<lparr>ts_cache := sight_patrons (tc_keys ctx) ?records (ts_cache st1)\<rparr>) ?records = Inr st2"
      "ts_events st = ts_events st2"
    unfolding transform_acs_def Let_def bind_result_Inr st0_def by auto
  have "emits_ok st0" by (simp add: emits_ok_def st0_def)
  then have "emits_ok st1" by (rule fold_result_keeps [OF f(1)]) (use profile_emits in blast)
  then have "emits_ok (st1\<lparr>ts_cache := sight_patrons (tc_keys ctx) ?records (ts_cache st1)\<rparr>)" by (simp add: emits_ok_def)
  then have "emits_ok st2" by (rule fold_result_keeps [OF f(2)]) (use item_emits assms(2) in blast)
  with f(3) show ?thesis by (simp add: emits_ok_def)
qed

lemma lines_emit: "transform_lines parse_dt source lines ctx cache = Inr st \<Longrightarrow> clock_ok ctx \<Longrightarrow> emits_ok st"
  using acs_emits run_rows_emits [of "checkin_step ctx"] run_rows_emits [of "reject_step ctx"] checkin_emits reject_emits
  by (auto simp: transform_lines_def transform_checkins_def transform_rejects_def Let_def split: if_splits sum.splits)

lemma chunk_emits:
  assumes "read_next_chunk parse_dt windows source view cursor ctx n cache = Inr (chunk, cache')" "clock_ok ctx"
  shows "\<forall>e \<in> set (sc_events chunk). client_event e"
proof -
  from assms(1) consider "sc_events chunk = []" | st lines where "transform_lines parse_dt source lines ctx cache = Inr st" "sc_events chunk = ts_events st"
    by (auto simp: read_next_chunk_def transform_some_def Let_def split: if_splits)
  then show ?thesis using lines_emit assms(2) by cases (auto simp: emits_ok_def)
qed

end
