(* ===== verification/V2Config.thy ===== *)
theory V2Config
  imports V2Uploader
begin

text \<open>
  collector/v2_config.py: the v2 section of the collector's configuration. The document is the parsed
  JSON of the file (\<open>None\<close>: no file; \<open>Some None\<close>: unreadable or not JSON); a path is kept as the
  expression the code builds; whether a time zone is known and Python's \<open>str\<close> of a number, list or object
  are arguments. An error is the name of the setting at fault. The lemmas show that a configuration that
  loads is within every bound the code relies on, and what its defaults are.
\<close>

datatype config_path = PathOf string | ParentOf config_path | Under config_path string

record v2_config =
  vc_key_id :: string
  vc_timezone :: string
  vc_secret_path :: config_path
  vc_rules_path :: config_path
  vc_patron_cache_path :: config_path
  vc_quarantine_path :: config_path
  vc_state_path :: config_path
  vc_status_path :: config_path
  vc_chunk_lines :: int
  vc_max_events_per_request :: int
  vc_max_chunks_per_run :: int
  vc_request_interval_seconds :: rat
  vc_patron_ttl_days :: int
  vc_patron_cache_max_rows :: int
  vc_hold_ledger_days :: int
  vc_hold_ledger_max_rows :: int
  vc_quarantine_max_entries :: int
  vc_dry_run_tail_bytes :: int
  vc_error_after :: int

definition modes :: "string list" where
  "modes = [''v1'', ''v2'']"

definition max_events_ceiling :: int where
  "max_events_ceiling = 1000"

definition read_document :: "json option option \<Rightarrow> string + (string \<times> json) list" where
  "read_document file =
     (case file of None \<Rightarrow> Inl ''not found'' | Some None \<Rightarrow> Inl ''not valid JSON''
      | Some (Some (JObj raw)) \<Rightarrow> Inr raw | Some (Some _) \<Rightarrow> Inl ''root'')"

definition read_contract_mode :: "json option option \<Rightarrow> string + string" where
  "read_contract_mode file =
     bind_result (read_document file) (\<lambda>raw.
       case jget_or raw ''contract_mode'' (JStr ''v1'') of
         JStr mode \<Rightarrow> if mode \<in> set modes then Inr mode else Inl ''contract_mode''
       | _ \<Rightarrow> Inl ''contract_mode'')"

definition int_setting :: "(string \<times> json) list \<Rightarrow> string \<Rightarrow> int \<Rightarrow> int \<Rightarrow> int \<Rightarrow> string + int" where
  "int_setting section name dflt low high =
     (case jget_or section name (JInt dflt) of
        JInt n \<Rightarrow> if low \<le> n \<and> n \<le> high then Inr n else Inl name
      | _ \<Rightarrow> Inl name)"

definition path_setting :: "(string \<times> json) list \<Rightarrow> string \<Rightarrow> config_path \<Rightarrow> string + config_path" where
  "path_setting section name dflt =
     (case jget section name of
        JNull \<Rightarrow> Inr dflt
      | JStr s \<Rightarrow> if py_strip s = [] then Inl name else Inr (PathOf s)
      | _ \<Rightarrow> Inl name)"

definition key_id_setting :: "(string \<times> json) list \<Rightarrow> string + string" where
  "key_id_setting section =
     (case jget section ''key_id'' of
        JStr s \<Rightarrow> (case validate_key_id s of Inl _ \<Rightarrow> Inl ''key_id'' | Inr k \<Rightarrow> Inr k)
      | _ \<Rightarrow> Inl ''key_id'')"

definition timezone_setting :: "(string \<Rightarrow> bool) \<Rightarrow> (string \<times> json) list \<Rightarrow> string + string" where
  "timezone_setting known section =
     (case jget section ''timezone'' of
        JStr s \<Rightarrow> if py_strip s = [] then Inl ''timezone'' else if known s then Inr s else Inl ''timezone''
      | _ \<Rightarrow> Inl ''timezone'')"

definition interval_setting :: "(string \<times> json) list \<Rightarrow> string + rat" where
  "interval_setting section =
     (let bounded = (\<lambda>r. if 0 \<le> r \<and> r \<le> 60 then Inr r else Inl ''request_interval_seconds'') in
      case jget_or section ''request_interval_seconds'' (JFloat (22 / 10)) of
        JInt n \<Rightarrow> bounded (of_int n)
      | JFloat r \<Rightarrow> bounded r
      | _ \<Rightarrow> Inl ''request_interval_seconds'')"

text \<open>Python's \<open>str\<close> of a JSON value; \<open>repr\<close> is what it prints for a float, a list or a dictionary.\<close>

fun py_str :: "(json \<Rightarrow> string) \<Rightarrow> json \<Rightarrow> string" where
  "py_str repr JNull = ''None''"
| "py_str repr (JBool b) = (if b then ''True'' else ''False'')"
| "py_str repr (JInt n) = (if n < 0 then ''-'' @ show_nat (nat (- n)) else show_nat (nat n))"
| "py_str repr (JStr s) = s"
| "py_str repr j = repr j"

definition config_root :: "(json \<Rightarrow> string) \<Rightarrow> (string \<times> json) list \<Rightarrow> config_path" where
  "config_root repr raw = ParentOf (ParentOf (PathOf (py_str repr (jget raw ''state_path''))))"

definition load_v2_config :: "(json \<Rightarrow> string) \<Rightarrow> (string \<Rightarrow> bool) \<Rightarrow> json option option \<Rightarrow> bool \<Rightarrow> string + v2_config option" where
  "load_v2_config repr known file must_exist =
     bind_result (read_document file) (\<lambda>raw.
     case jget raw ''v2'' of
       JNull \<Rightarrow> if must_exist then Inl ''v2'' else Inr None
     | JObj section \<Rightarrow>
         bind_result (key_id_setting section) (\<lambda>key_id.
         bind_result (timezone_setting known section) (\<lambda>timezone.
         if map_of raw ''state_path'' = None then Inl ''state_path''
         else
           let base = config_root repr raw; data = Under (Under base ''data'') ''v2'' in
           bind_result (int_setting section ''max_events_per_request'' 1000 1 max_events_ceiling) (\<lambda>max_events.
           bind_result (interval_setting section) (\<lambda>interval.
           bind_result (path_setting section ''secret_path'' (Under (Under base ''secrets'') ''v2_key.dpapi'')) (\<lambda>secret_path.
           bind_result (path_setting section ''rules_path'' (Under (Under base ''config'') ''classification_rules.json'')) (\<lambda>rules_path.
           bind_result (path_setting section ''patron_cache_path'' (Under data ''patron_cache.db'')) (\<lambda>cache_path.
           bind_result (path_setting section ''quarantine_path'' (Under data ''quarantine_v2.json'')) (\<lambda>quarantine_path.
           bind_result (path_setting section ''state_path'' (Under data ''state_v2.json'')) (\<lambda>state_path.
           bind_result (path_setting section ''status_path'' (Under data ''status_v2.json'')) (\<lambda>status_path.
           bind_result (int_setting section ''chunk_lines'' 2000 1 50000) (\<lambda>chunk_lines.
           bind_result (int_setting section ''max_chunks_per_run'' 100 1 10000) (\<lambda>max_chunks.
           bind_result (int_setting section ''patron_ttl_days'' 180 1 3650) (\<lambda>ttl.
           bind_result (int_setting section ''patron_cache_max_rows'' 500000 1000 10000000) (\<lambda>cache_rows.
           bind_result (int_setting section ''hold_ledger_days'' 90 1 3650) (\<lambda>hold_days.
           bind_result (int_setting section ''hold_ledger_max_rows'' 250000 1000 10000000) (\<lambda>hold_rows.
           bind_result (int_setting section ''quarantine_max_entries'' 10000 10 1000000) (\<lambda>entries.
           bind_result (int_setting section ''dry_run_tail_bytes'' (2 * 1024 * 1024) 1024 (256 * 1024 * 1024)) (\<lambda>tail_bytes.
           bind_result (int_setting section ''error_after_consecutive_failures'' 3 1 1000) (\<lambda>error_after.
             Inr (Some \<lparr>vc_key_id = key_id, vc_timezone = timezone, vc_secret_path = secret_path, vc_rules_path = rules_path,
               vc_patron_cache_path = cache_path, vc_quarantine_path = quarantine_path, vc_state_path = state_path,
               vc_status_path = status_path, vc_chunk_lines = chunk_lines, vc_max_events_per_request = max_events,
               vc_max_chunks_per_run = max_chunks, vc_request_interval_seconds = interval, vc_patron_ttl_days = ttl,
               vc_patron_cache_max_rows = cache_rows, vc_hold_ledger_days = hold_days, vc_hold_ledger_max_rows = hold_rows,
               vc_quarantine_max_entries = entries, vc_dry_run_tail_bytes = tail_bytes, vc_error_after = error_after\<rparr>))))))))))))))))))))
     | _ \<Rightarrow> Inl ''v2'')"

section \<open>The dry run\<close>

record dry_run_settings =
  dr_sources :: "(string \<times> string) list"
  dr_timezone :: string
  dr_rules_path :: config_path
  dr_tail_bytes :: int

fun source_entry :: "(json \<Rightarrow> string) \<Rightarrow> json \<Rightarrow> string + string \<times> string" where
  "source_entry repr (JObj entry) =
     (let name = py_str repr (jget_or entry ''name'' (JStr [])); path = py_str repr (jget_or entry ''path'' (JStr [])) in
      if py_strip name = [] \<or> py_strip path = [] then Inl ''sources'' else Inr (name, path))"
| "source_entry repr _ = Inl ''sources''"

definition source_entries :: "(json \<Rightarrow> string) \<Rightarrow> (string \<times> json) list \<Rightarrow> string + (string \<times> string) list" where
  "source_entries repr raw =
     (case jget raw ''sources'' of
        JArr entries \<Rightarrow>
          if entries = [] then Inl ''sources''
          else bind_result (map_result (source_entry repr) entries) (\<lambda>ss. if distinct (List.map fst ss) then Inr ss else Inl ''sources'')
      | _ \<Rightarrow> Inl ''sources'')"

definition load_dry_run_settings :: "(json \<Rightarrow> string) \<Rightarrow> (string \<Rightarrow> bool) \<Rightarrow> json option option \<Rightarrow> string + dry_run_settings" where
  "load_dry_run_settings repr known file =
     bind_result (read_document file) (\<lambda>raw.
     case jget raw ''v2'' of
       JObj section \<Rightarrow>
         bind_result (timezone_setting known section) (\<lambda>timezone.
         bind_result (source_entries repr raw) (\<lambda>sources.
         bind_result
           (if jget section ''rules_path'' \<noteq> JNull then path_setting section ''rules_path'' (PathOf ''.'')
            else if map_of raw ''state_path'' \<noteq> None
            then Inr (Under (Under (config_root repr raw) ''config'') ''classification_rules.json'')
            else Inl ''rules_path'') (\<lambda>rules_path.
         bind_result (int_setting section ''dry_run_tail_bytes'' (2 * 1024 * 1024) 1024 (256 * 1024 * 1024)) (\<lambda>tail_bytes.
           Inr \<lparr>dr_sources = sources, dr_timezone = timezone, dr_rules_path = rules_path, dr_tail_bytes = tail_bytes\<rparr>))))
     | _ \<Rightarrow> Inl ''v2'')"

section \<open>Lemmas\<close>

lemma int_setting_Inr: "int_setting section name dflt low high = Inr n \<longleftrightarrow>
   jget_or section name (JInt dflt) = JInt n \<and> low \<le> n \<and> n \<le> high"
  by (auto simp: int_setting_def split: json.splits)

lemma interval_setting_Inr: "interval_setting section = Inr r \<Longrightarrow> 0 \<le> r \<and> r \<le> 60"
  by (auto simp: interval_setting_def Let_def split: json.splits if_splits)

lemma timezone_setting_Inr: "timezone_setting known section = Inr z \<Longrightarrow> known z"
  by (auto simp: timezone_setting_def split: json.splits if_splits)

lemma key_id_setting_Inr: "key_id_setting section = Inr k \<Longrightarrow> is_uuid4 k"
  by (auto simp: key_id_setting_def validate_key_id_def check_field_def split: json.splits sum.splits if_splits)

section \<open>The properties of the configuration\<close>

text \<open>A configuration that loads is one the collector can run with: its key id has the server's format, its time zone is known, and
  every number is inside its range, so that no request exceeds the server's cap, a chunk and a run are never empty, pacing is a real
  delay, and every store has room.\<close>

lemma loaded_config_in_range:
  assumes "load_v2_config repr known file must_exist = Inr (Some c)"
  shows "is_uuid4 (vc_key_id c) \<and> known (vc_timezone c)
    \<and> 1 \<le> vc_max_events_per_request c \<and> vc_max_events_per_request c \<le> 1000
    \<and> 1 \<le> vc_chunk_lines c \<and> vc_chunk_lines c \<le> 50000 \<and> 1 \<le> vc_max_chunks_per_run c \<and> vc_max_chunks_per_run c \<le> 10000
    \<and> 0 \<le> vc_request_interval_seconds c \<and> vc_request_interval_seconds c \<le> 60
    \<and> 1 \<le> vc_patron_ttl_days c \<and> vc_patron_ttl_days c \<le> 3650 \<and> 1000 \<le> vc_patron_cache_max_rows c
    \<and> 1 \<le> vc_hold_ledger_days c \<and> vc_hold_ledger_days c \<le> 3650 \<and> 1000 \<le> vc_hold_ledger_max_rows c
    \<and> 10 \<le> vc_quarantine_max_entries c \<and> 1024 \<le> vc_dry_run_tail_bytes c \<and> 1 \<le> vc_error_after c"
proof -
  from assms obtain raw where r: "read_document file = Inr raw" by (auto simp: load_v2_config_def)
  show ?thesis
  proof (cases "jget raw ''v2''")
    case (JObj members)
    with assms r show ?thesis
      by (clarsimp simp: load_v2_config_def Let_def int_setting_Inr max_events_ceiling_def split: if_splits)
        (simp add: key_id_setting_Inr timezone_setting_Inr interval_setting_Inr)
  qed (use assms r in \<open>auto simp: load_v2_config_def split: if_splits\<close>)
qed

text \<open>The smallest configuration, with every default.\<close>

definition sample_config_file :: json where
  "sample_config_file = JObj [(''state_path'', JStr ''C:/SortView/data/state.json''),
     (''v2'', JObj [(''key_id'', JStr ''8f14e45f-ceea-467f-9d2c-0a3d2a5b6c7d''), (''timezone'', JStr ''America/Chicago'')])]"

lemma loaded_config_in_range_witness:
  "\<exists>c. load_v2_config (\<lambda>_. []) (\<lambda>z. z = ''America/Chicago'') (Some (Some sample_config_file)) True = Inr (Some c) \<and> 1 \<le> vc_chunk_lines c
     \<and> vc_max_events_per_request c \<le> 1000"
proof -
  have "case load_v2_config (\<lambda>_. []) (\<lambda>z. z = ''America/Chicago'') (Some (Some sample_config_file)) True of Inr (Some c) \<Rightarrow> True | _ \<Rightarrow> False"
    by code_simp
  then obtain c where "load_v2_config (\<lambda>_. []) (\<lambda>z. z = ''America/Chicago'') (Some (Some sample_config_file)) True = Inr (Some c)"
    by (auto split: sum.splits option.splits)
  with loaded_config_in_range [OF this] show ?thesis by blast
qed

end
