(* ===== verification/CollectorSecrets.thy ===== *)
theory CollectorSecrets
  imports V2Events
begin

text \<open>
  The two local secrets: collector/v2_keys.py (the HMAC master secret, bound to a key id) and
  collector/api_token_store.py (the API token, bound to a tenant). Both are one DPAPI blob in a folder
  whose access list is checked before anything is read. The access list is the SDDL text \<open>icacls\<close> saved
  (\<open>None\<close>: it could not be read); DPAPI, JSON and base64 are the platform record. The lemmas show what an
  accepted access list grants, that a secret is released only behind one and only for its binding, and
  that a stored token loads again.
\<close>

section \<open>Access lists\<close>

text \<open>\<open>re.findall("\(([^)]*)\)", dacl)\<close>: the text of each entry; \<open>None\<close> outside, \<open>Some\<close> the entry read so far.\<close>

fun sddl_entries :: "string option \<Rightarrow> string \<Rightarrow> string list" where
  "sddl_entries _ [] = []"
| "sddl_entries None (c # cs) = (if c = CHR ''('' then sddl_entries (Some []) cs else sddl_entries None cs)"
| "sddl_entries (Some acc) (c # cs) =
     (if c = CHR '')'' then acc # sddl_entries None cs else sddl_entries (Some (acc @ [c])) cs)"

definition allowed_sids :: "string list" where
  "allowed_sids = [''SY'', ''BA'', ''S-1-5-18'', ''S-1-5-32-544'']"

fun judge_entries :: "string list \<Rightarrow> string" where
  "judge_entries [] = ''protected''"
| "judge_entries (entry # rest) =
     (let fs = split_on (CHR '';'') entry in
      if length fs < 6 then ''unknown''
      else if starts_with ''A'' (fs ! 0) \<and> fs ! 5 \<notin> set allowed_sids then ''exposed''
      else judge_entries rest)"

definition dacl_flags :: "string \<Rightarrow> string" where
  "dacl_flags dacl = takeWhile (\<lambda>c. c \<noteq> CHR ''('') (drop 2 dacl)"

definition acl_state_of :: "bool \<Rightarrow> string option \<Rightarrow> bool \<Rightarrow> string" where
  "acl_state_of win32 dacl must_be_cut =
     (if \<not> win32 then ''unknown''
      else case dacl of
          None \<Rightarrow> ''unknown''
        | Some d \<Rightarrow>
            if must_be_cut \<and> CHR ''P'' \<notin> set (dacl_flags d) then ''exposed''
            else if sddl_entries None d = [] then ''unknown''
            else judge_entries (sddl_entries None d))"

text \<open>\<open>require_protected\<close> of either module, with the prefix of its codes: the code of the error, or nothing.\<close>

definition require_protected :: "string \<Rightarrow> string \<Rightarrow> string + unit" where
  "require_protected area state =
     (if state = ''protected'' then Inr ()
      else Inl (area @ (if state = ''exposed'' then ''_exposed'' else ''_acl_unverified'')))"

section \<open>The folder and the platform\<close>

datatype presence = Absent | Unreachable | NotRegular | Regular

record secret_folder =
  sf_presence :: presence
  sf_folder_dacl :: "string option"
  sf_file_dacl :: "string option"
  sf_blob :: "octets option" \<comment> \<open>\<open>None\<close>: it cannot be read\<close>

record secret_host =
  sh_win32 :: bool
  sh_protect :: "octets \<Rightarrow> octets option"
  sh_unprotect :: "octets \<Rightarrow> octets option"
  sh_dumps :: "json \<Rightarrow> octets"
  sh_loads :: "octets \<Rightarrow> json option"
  sh_b64decode :: "string \<Rightarrow> octets option"

definition acl_state :: "secret_host \<Rightarrow> secret_folder \<Rightarrow> string" where
  "acl_state h f =
     (let folder = acl_state_of (sh_win32 h) (sf_folder_dacl f) True;
          file_state = (if sf_presence f = Regular then acl_state_of (sh_win32 h) (sf_file_dacl f) False else ''protected'')
      in if ''exposed'' \<in> {folder, file_state} then ''exposed''
         else if ''unknown'' \<in> {folder, file_state} then ''unknown'' else ''protected'')"

definition read_blob :: "string \<Rightarrow> secret_host \<Rightarrow> secret_folder \<Rightarrow> string + octets" where
  "read_blob code h f =
     (case sf_blob f of None \<Rightarrow> Inl code
      | Some blob \<Rightarrow> (case (if sh_win32 h then sh_unprotect h blob else None) of None \<Rightarrow> Inl code | Some payload \<Rightarrow> Inr payload))"

section \<open>The master secret\<close>

definition blob_format :: int where
  "blob_format = 1"

definition secret_bytes :: nat where
  "secret_bytes = 32"

text \<open>The payload of the blob: its key id and its secret; \<open>None\<close> when it is malformed.\<close>

definition secret_payload :: "secret_host \<Rightarrow> json option \<Rightarrow> (string \<times> octets) option" where
  "secret_payload h document =
     (case document of
        Some (JObj ms) \<Rightarrow>
          (case (map_of ms ''key_id'', map_of ms ''secret'') of
             (Some (JStr key), Some (JStr encoded)) \<Rightarrow>
               (case sh_b64decode h encoded of None \<Rightarrow> None
                | Some secret \<Rightarrow>
                    if json_is_int (jget ms ''format'') blob_format \<and> length secret = secret_bytes then Some (key, secret) else None)
           | _ \<Rightarrow> None)
      | _ \<Rightarrow> None)"

definition load_secret :: "secret_host \<Rightarrow> secret_folder \<Rightarrow> string \<Rightarrow> string + octets" where
  "load_secret h f expected_key_id =
     bind_result (validate_key_id expected_key_id) (\<lambda>_.
     if sf_presence f \<noteq> Regular then Inl ''secret_missing''
     else bind_result (require_protected ''secret'' (acl_state h f)) (\<lambda>_.
          bind_result (read_blob ''secret_unreadable'' h f) (\<lambda>payload.
            case secret_payload h (sh_loads h payload) of
              None \<Rightarrow> Inl ''secret_unreadable''
            | Some (key, secret) \<Rightarrow> if key \<noteq> expected_key_id then Inl ''secret_key_mismatch'' else Inr secret)))"

section \<open>The API token\<close>

definition is_token :: "string \<Rightarrow> bool" where
  "is_token t \<longleftrightarrow> 20 \<le> length t \<and> length t \<le> 256 \<and> list_all (\<lambda>c. is_word_char c \<or> c = CHR ''-'') t"

definition validate_token :: "string \<Rightarrow> string + string" where
  "validate_token t = (if is_token t then Inr t else Inl ''token_invalid'')"

definition validate_tenant :: "int \<Rightarrow> int \<Rightarrow> string + unit" where
  "validate_tenant customer branch = (if customer < 1 \<or> branch < 1 then Inl ''token_invalid'' else Inr ())"

definition require_present :: "secret_folder \<Rightarrow> string + unit" where
  "require_present f =
     (case sf_presence f of Absent \<Rightarrow> Inl ''token_missing'' | Regular \<Rightarrow> Inr () | _ \<Rightarrow> Inl ''token_unreadable'')"

definition token_document :: "int \<Rightarrow> int \<Rightarrow> string \<Rightarrow> string \<Rightarrow> json" where
  "token_document customer branch token updated =
     JObj [(''format'', JInt blob_format), (''customer_id'', JInt customer), (''branch_id'', JInt branch), (''token'', JStr token),
           (''updated'', JStr updated)]"

definition token_of_document :: "json option \<Rightarrow> int \<Rightarrow> int \<Rightarrow> string + string" where
  "token_of_document document customer branch =
     (case document of
        Some (JObj ms) \<Rightarrow>
          (case (map_of ms ''token'', map_of ms ''customer_id'', map_of ms ''branch_id'') of
             (Some token, Some c, Some b) \<Rightarrow>
               if \<not> json_is_int (jget ms ''format'') blob_format then Inl ''token_unreadable''
               else (case token of
                       JStr t \<Rightarrow> if \<not> is_token t then Inl ''token_unreadable''
                                 else if c = JInt customer \<and> b = JInt branch then Inr t else Inl ''token_tenant_mismatch''
                     | _ \<Rightarrow> Inl ''token_unreadable'')
           | _ \<Rightarrow> Inl ''token_unreadable'')
      | _ \<Rightarrow> Inl ''token_unreadable'')"

definition load_token :: "secret_host \<Rightarrow> secret_folder \<Rightarrow> int \<Rightarrow> int \<Rightarrow> string + string" where
  "load_token h f customer branch =
     bind_result (require_present f) (\<lambda>_.
     bind_result (validate_tenant customer branch) (\<lambda>_.
     bind_result (require_protected ''token'' (acl_state h f)) (\<lambda>_.
     bind_result (read_blob ''token_unreadable'' h f) (\<lambda>payload. token_of_document (sh_loads h payload) customer branch))))"

text \<open>
  \<open>save\<close> replaces the file or leaves it; \<open>write\<close> is the file system: the folder with the new blob, or \<open>None\<close>
  for an \<open>OSError\<close>. Each result carries the folder left behind.
\<close>

definition save_token :: "secret_host \<Rightarrow> (octets \<Rightarrow> secret_folder \<Rightarrow> secret_folder option) \<Rightarrow> string \<Rightarrow> secret_folder \<Rightarrow> int \<Rightarrow> int \<Rightarrow> string
    \<Rightarrow> (string + unit) \<times> secret_folder" where
  "save_token h write updated f customer branch token =
     (case validate_tenant customer branch of Inl e \<Rightarrow> (Inl e, f)
      | Inr _ \<Rightarrow>
          (case validate_token token of Inl e \<Rightarrow> (Inl e, f)
           | Inr _ \<Rightarrow>
               (case (if sh_win32 h then sh_protect h (sh_dumps h (token_document customer branch token updated)) else None) of
                  None \<Rightarrow> (Inl ''token_store_unavailable'', f)
                | Some blob \<Rightarrow> (case write blob f of None \<Rightarrow> (Inl ''token_not_writable'', f) | Some f' \<Rightarrow> (Inr (), f')))))"

definition provision_token ::
    "secret_host \<Rightarrow> (secret_folder \<Rightarrow> secret_folder option) \<Rightarrow> (octets \<Rightarrow> secret_folder \<Rightarrow> secret_folder option) \<Rightarrow> string \<Rightarrow> secret_folder
     \<Rightarrow> int \<Rightarrow> int \<Rightarrow> string \<Rightarrow> (string + unit) \<times> secret_folder" where
  "provision_token h protect_directory write updated f customer branch token =
     (case validate_token token of Inl e \<Rightarrow> (Inl e, f)
      | Inr _ \<Rightarrow>
     (case validate_tenant customer branch of Inl e \<Rightarrow> (Inl e, f)
      | Inr _ \<Rightarrow>
     (case (if sh_win32 h then protect_directory f else None) of
        None \<Rightarrow> (Inl (if sh_win32 h then ''token_dir_not_protected'' else ''token_store_unavailable''), f)
      | Some f1 \<Rightarrow>
     (case require_protected ''token'' (acl_state_of (sh_win32 h) (sf_folder_dacl f1) True) of Inl e \<Rightarrow> (Inl e, f1)
      | Inr _ \<Rightarrow>
     (case save_token h write updated f1 customer branch token of (Inl e, f2) \<Rightarrow> (Inl e, f2)
      | (Inr _, f2) \<Rightarrow>
          (case require_protected ''token'' (acl_state h f2) of
             Inl e \<Rightarrow> (Inl e, f2\<lparr>sf_presence := Absent, sf_blob := None\<rparr>)
           | Inr _ \<Rightarrow> (Inr (), f2)))))))"

section \<open>Lemmas\<close>

text \<open>An access list that grants nothing to anyone but SYSTEM and the administrators, as far as plain entries go.\<close>

definition trusted_entry :: "string \<Rightarrow> bool" where
  "trusted_entry entry \<longleftrightarrow> (let fs = split_on (CHR '';'') entry in
     6 \<le> length fs \<and> (starts_with ''A'' (fs ! 0) \<longrightarrow> fs ! 5 \<in> set allowed_sids))"

definition trusted_dacl :: "bool \<Rightarrow> string option \<Rightarrow> bool" where
  "trusted_dacl must_be_cut dacl \<longleftrightarrow> (\<exists>d. dacl = Some d \<and> (must_be_cut \<longrightarrow> CHR ''P'' \<in> set (dacl_flags d))
     \<and> sddl_entries None d \<noteq> [] \<and> list_all trusted_entry (sddl_entries None d))"

lemma judge_entries_protected: "judge_entries es = ''protected'' \<longleftrightarrow> list_all trusted_entry es"
  by (induction es) (auto simp: trusted_entry_def Let_def)

lemma acl_state_of_protected: "acl_state_of w dacl must_be_cut = ''protected'' \<longleftrightarrow> w \<and> trusted_dacl must_be_cut dacl"
  by (auto simp: acl_state_of_def trusted_dacl_def judge_entries_protected split: option.splits)

lemma judge_entries_range: "judge_entries es \<in> {''protected'', ''exposed'', ''unknown''}"
  by (induction es) (auto simp: Let_def)

lemma acl_state_of_range: "acl_state_of w dacl must_be_cut \<in> {''protected'', ''exposed'', ''unknown''}"
  using judge_entries_range by (auto simp: acl_state_of_def split: option.splits)

lemma combined_state:
  assumes "a \<in> {''protected'', ''exposed'', ''unknown''}" "b \<in> {''protected'', ''exposed'', ''unknown''}"
  shows "(if ''exposed'' \<in> {a, b} then ''exposed'' else if ''unknown'' \<in> {a, b} then ''unknown'' else ''protected'') = ''protected''
    \<longleftrightarrow> a = ''protected'' \<and> b = ''protected''"
  using assms by (elim insertE emptyE; hypsubst; simp)

lemma acl_state_protected: "acl_state h f = ''protected'' \<longleftrightarrow>
   sh_win32 h \<and> trusted_dacl True (sf_folder_dacl f) \<and> (sf_presence f = Regular \<longrightarrow> trusted_dacl False (sf_file_dacl f))"
proof -
  let ?b = "if sf_presence f = Regular then acl_state_of (sh_win32 h) (sf_file_dacl f) False else ''protected''"
  have "?b \<in> {''protected'', ''exposed'', ''unknown''}" using acl_state_of_range by simp
  from combined_state [OF acl_state_of_range [of "sh_win32 h" "sf_folder_dacl f" True] this]
  have "acl_state h f = ''protected'' \<longleftrightarrow> acl_state_of (sh_win32 h) (sf_folder_dacl f) True = ''protected'' \<and> ?b = ''protected''"
    unfolding acl_state_def Let_def .
  then show ?thesis by (auto simp: acl_state_of_protected)
qed

lemma require_protected_Inr [simp]: "require_protected area state = Inr u \<longleftrightarrow> state = ''protected''"
  by (simp add: require_protected_def)

lemma read_blob_Inr: "read_blob code h f = Inr payload \<longleftrightarrow> (\<exists>blob. sf_blob f = Some blob \<and> sh_win32 h \<and> sh_unprotect h blob = Some payload)"
  by (auto simp: read_blob_def split: option.splits if_splits)

lemma token_of_document_Inr: "token_of_document document customer branch = Inr t \<Longrightarrow>
   is_token t \<and> (\<exists>ms. document = Some (JObj ms) \<and> map_of ms ''token'' = Some (JStr t) \<and> map_of ms ''customer_id'' = Some (JInt customer)
     \<and> map_of ms ''branch_id'' = Some (JInt branch))"
  by (auto simp: token_of_document_def split: option.splits json.splits if_splits)

text \<open>Only entries whose type begins with \<open>A\<close> are examined: an allow entry of the callback type \<open>XA\<close> for everyone passes.\<close>

lemma callback_entries_pass:
  "acl_state_of True (Some ''D:P(A;OICI;FA;;;SY)(A;OICI;FA;;;BA)(XA;OICI;FA;;;WD)'') True = ''protected''"
  by code_simp

section \<open>The properties of the secrets\<close>

text \<open>C26. A secret is released only behind a verified access list and only for its binding: loading the master secret or the API
  token succeeds only on Windows, when the folder's list is cut off from its parent and neither list has a plain entry granting
  anyone but SYSTEM or the administrators, and the decrypted payload names exactly the key id or the tenant asked for.\<close>

theorem secrets_fail_closed:
  "(load_secret h f key = Inr secret \<longrightarrow>
      sh_win32 h \<and> trusted_dacl True (sf_folder_dacl f) \<and> trusted_dacl False (sf_file_dacl f) \<and> length secret = secret_bytes
      \<and> (\<exists>blob payload ms. sf_blob f = Some blob \<and> sh_unprotect h blob = Some payload \<and> sh_loads h payload = Some (JObj ms)
           \<and> map_of ms ''key_id'' = Some (JStr key)))
   \<and> (load_token h f customer branch = Inr token \<longrightarrow>
      sh_win32 h \<and> trusted_dacl True (sf_folder_dacl f) \<and> trusted_dacl False (sf_file_dacl f) \<and> is_token token
      \<and> (\<exists>blob payload ms. sf_blob f = Some blob \<and> sh_unprotect h blob = Some payload \<and> sh_loads h payload = Some (JObj ms)
           \<and> map_of ms ''token'' = Some (JStr token)
           \<and> map_of ms ''customer_id'' = Some (JInt customer) \<and> map_of ms ''branch_id'' = Some (JInt branch)))"
proof (intro conjI impI)
  assume "load_secret h f key = Inr secret"
  then obtain payload k where l: "sf_presence f = Regular" "acl_state h f = ''protected''" "read_blob ''secret_unreadable'' h f = Inr payload"
      "secret_payload h (sh_loads h payload) = Some (k, secret)" "k = key"
    by (auto simp: load_secret_def split: if_splits option.splits prod.splits)
  from l(4) obtain ms where "sh_loads h payload = Some (JObj ms)" "map_of ms ''key_id'' = Some (JStr k)" "length secret = secret_bytes"
    by (auto simp: secret_payload_def split: option.splits json.splits if_splits)
  with l show "sh_win32 h" "trusted_dacl True (sf_folder_dacl f)" "trusted_dacl False (sf_file_dacl f)" "length secret = secret_bytes"
    "\<exists>blob payload ms. sf_blob f = Some blob \<and> sh_unprotect h blob = Some payload \<and> sh_loads h payload = Some (JObj ms)
       \<and> map_of ms ''key_id'' = Some (JStr key)"
    by (auto simp: acl_state_protected read_blob_Inr)
next
  assume "load_token h f customer branch = Inr token"
  then obtain payload where l: "sf_presence f = Regular" "acl_state h f = ''protected''" "read_blob ''token_unreadable'' h f = Inr payload"
      "token_of_document (sh_loads h payload) customer branch = Inr token"
    by (auto simp: load_token_def require_present_def split: presence.splits)
  with token_of_document_Inr [OF l(4)]
  show "sh_win32 h" "trusted_dacl True (sf_folder_dacl f)" "trusted_dacl False (sf_file_dacl f)" "is_token token"
    "\<exists>blob payload ms. sf_blob f = Some blob \<and> sh_unprotect h blob = Some payload \<and> sh_loads h payload = Some (JObj ms)
       \<and> map_of ms ''token'' = Some (JStr token)
       \<and> map_of ms ''customer_id'' = Some (JInt customer) \<and> map_of ms ''branch_id'' = Some (JInt branch)"
    by (auto simp: acl_state_protected read_blob_Inr)
qed

text \<open>A machine with a protected folder, and DPAPI as the identity.\<close>

definition sample_document :: json where
  "sample_document = JObj [(''format'', JInt 1), (''customer_id'', JInt 10), (''branch_id'', JInt 20), (''token'', JStr (replicate 20 (CHR ''x''))),
     (''updated'', JStr ''2024-05-01T10:00:00Z''), (''key_id'', JStr ''8f14e45f-ceea-467f-9d2c-0a3d2a5b6c7d''), (''secret'', JStr ''c2VjcmV0'')]"

definition sample_host :: secret_host where
  "sample_host = \<lparr>sh_win32 = True, sh_protect = Some, sh_unprotect = Some, sh_dumps = (\<lambda>_. [1]), sh_loads = (\<lambda>_. Some sample_document),
     sh_b64decode = (\<lambda>_. Some (replicate 32 7))\<rparr>"

definition sample_folder :: secret_folder where
  "sample_folder = \<lparr>sf_presence = Regular, sf_folder_dacl = Some ''D:P(A;OICI;FA;;;SY)(A;OICI;FA;;;BA)'',
     sf_file_dacl = Some ''D:(A;ID;FA;;;SY)(A;ID;FA;;;BA)'', sf_blob = Some [1]\<rparr>"

lemma sample_acl: "acl_state sample_host sample_folder = ''protected''"
  by code_simp

theorem secrets_fail_closed_witness:
  "load_token sample_host sample_folder 10 20 = Inr (replicate 20 (CHR ''x''))
   \<and> load_secret sample_host sample_folder ''8f14e45f-ceea-467f-9d2c-0a3d2a5b6c7d'' = Inr (replicate 32 7)
   \<and> trusted_dacl True (sf_folder_dacl sample_folder)"
proof -
  have t: "load_token sample_host sample_folder 10 20 = Inr (replicate 20 (CHR ''x''))" by code_simp
  have s: "load_secret sample_host sample_folder ''8f14e45f-ceea-467f-9d2c-0a3d2a5b6c7d'' = Inr (replicate 32 7)" by code_simp
  show ?thesis using secrets_fail_closed [of sample_host sample_folder "''8f14e45f-ceea-467f-9d2c-0a3d2a5b6c7d''" "replicate 32 7" 10 20] s t by blast
qed

text \<open>A token that was provisioned is there: when provisioning succeeds, the access lists are verified and loading for the same
  tenant returns exactly the token that was stored, whatever was in the file before; when it fails, either nothing was written, or the
  lists could not be verified after the write and the file is gone. The platform only needs to decrypt what it encrypted and to parse what it printed.\<close>

lemma provision_token_loads:
  assumes "sh_loads h (sh_dumps h (token_document customer branch token updated)) = Some (token_document customer branch token updated)"
    "\<forall>blob. sh_protect h (sh_dumps h (token_document customer branch token updated)) = Some blob
       \<longrightarrow> sh_unprotect h blob = Some (sh_dumps h (token_document customer branch token updated))"
    "\<forall>blob f f'. write blob f = Some f' \<longrightarrow> sf_presence f' = Regular \<and> sf_blob f' = Some blob"
  shows "case provision_token h protect_directory write updated f customer branch token of
      (Inr _, f') \<Rightarrow> acl_state h f' = ''protected'' \<and> load_token h f' customer branch = Inr token
    | (Inl e, f') \<Rightarrow> f' = f \<or> protect_directory f = Some f' \<or> sf_presence f' = Absent \<and> sf_blob f' = None"
proof (cases "provision_token h protect_directory write updated f customer branch token")
  case (Pair r f')
  let ?doc = "token_document customer branch token updated"
  show ?thesis
  proof (cases r)
    case (Inr u)
    with Pair obtain f1 where p: "is_token token" "1 \<le> customer" "1 \<le> branch" "save_token h write updated f1 customer branch token = (Inr (), f')"
        "acl_state h f' = ''protected''"
      by (auto simp: provision_token_def validate_token_def validate_tenant_def split: sum.splits option.splits prod.splits if_splits)
    from p(4) obtain blob where b: "sh_win32 h" "sh_protect h (sh_dumps h ?doc) = Some blob" "write blob f1 = Some f'"
      by (auto simp: save_token_def split: sum.splits option.splits if_splits)
    from assms(3) b(3) have w: "sf_presence f' = Regular" "sf_blob f' = Some blob" by blast+
    from assms(2) b(2) have "sh_unprotect h blob = Some (sh_dumps h ?doc)" by blast
    with w b(1) have "read_blob ''token_unreadable'' h f' = Inr (sh_dumps h ?doc)" by (simp add: read_blob_Inr)
    moreover have "token_of_document (Some ?doc) customer branch = Inr token"
      using p(1) by (simp add: token_of_document_def token_document_def blob_format_def)
    ultimately have "load_token h f' customer branch = Inr token"
      using p(2,3,5) w(1) by (simp add: load_token_def require_present_def validate_tenant_def require_protected_def assms(1))
    with Pair Inr p(5) show ?thesis by simp
  next
    case (Inl e)
    have "f' = f \<or> protect_directory f = Some f' \<or> sf_presence f' = Absent \<and> sf_blob f' = None"
      using Pair Inl
      by (auto simp: provision_token_def save_token_def split: sum.splits option.splits prod.splits if_splits)
    with Pair Inl show ?thesis by simp
  qed
qed

definition token_host :: secret_host where
  "token_host = sample_host\<lparr>sh_loads := (\<lambda>_. Some (token_document 10 20 (replicate 20 (CHR ''x'')) ''2024-05-01T10:00:00Z''))\<rparr>"

definition write_blob :: "octets \<Rightarrow> secret_folder \<Rightarrow> secret_folder option" where
  "write_blob blob f = Some (f\<lparr>sf_presence := Regular, sf_blob := Some blob\<rparr>)"

lemma provision_token_loads_witness:
  "load_token token_host (snd (provision_token token_host Some write_blob ''2024-05-01T10:00:00Z'' sample_folder 10 20 (replicate 20 (CHR ''x''))))
     10 20 = Inr (replicate 20 (CHR ''x''))"
proof -
  have "fst (provision_token token_host Some write_blob ''2024-05-01T10:00:00Z'' sample_folder 10 20 (replicate 20 (CHR ''x''))) = Inr ()"
    by code_simp
  then show ?thesis
    using provision_token_loads [of token_host 10 20 "replicate 20 (CHR ''x'')" "''2024-05-01T10:00:00Z''" write_blob sample_folder Some]
    by (simp add: token_host_def sample_host_def write_blob_def split: prod.splits)
qed

end
