(* ===== verification/V2Schedule.thy ===== *)
theory V2Schedule
  imports V2Status
begin

text \<open>
  collector/v2_schedule.py: what Windows Task Scheduler says about the collector's task. The child process
  is a parameter (\<open>None\<close>: it could not be run or raised), and so is \<open>json.loads\<close>; its octets are checked
  the way the code checks them. The lemmas show that no answer raises out of the query, that a next run is
  reported only from a nominal answer and lies in the next day, and that a last run is never the sentinel
  of a task that never ran.
\<close>

definition max_output_bytes :: nat where
  "max_output_bytes = 4096"

definition schedule_earliest :: instant where
  "schedule_earliest = 946684800000000"

definition max_ahead :: instant where
  "max_ahead = 86400000000"

definition state_disabled :: int where
  "state_disabled = 1"

definition nominal_states :: "int list" where
  "nominal_states = [2, 3, 4]"

definition utf8_bom :: octets where
  "utf8_bom = [0xEF, 0xBB, 0xBF]"

record schedule_diagnostics =
  sd_status :: string
  sd_last_run_at :: "instant option"
  sd_next_run_at :: "instant option"

definition mk_diagnostics :: "string \<Rightarrow> instant option \<Rightarrow> instant option \<Rightarrow> string + schedule_diagnostics" where
  "mk_diagnostics status last_run next_run =
     bind_result (check_field ''status'' (status \<in> set schedule_statuses)) (\<lambda>_.
       Inr \<lparr>sd_status = status, sd_last_run_at = last_run, sd_next_run_at = next_run\<rparr>)"

definition query_failed :: schedule_diagnostics where
  "query_failed = \<lparr>sd_status = ''query_failed'', sd_last_run_at = None, sd_next_run_at = None\<rparr>"

fun schedule_instant :: "json \<Rightarrow> string + instant option" where
  "schedule_instant JNull = Inr None"
| "schedule_instant (JStr s) = (case strptime_utc s of None \<Rightarrow> Inl ''ValueError'' | Some t \<Rightarrow> Inr (Some t))"
| "schedule_instant _ = Inl ''timestamp''"

definition removeprefix :: "'a list \<Rightarrow> 'a list \<Rightarrow> 'a list" where
  "removeprefix p xs = (if take (length p) xs = p then drop (length p) xs else xs)"

definition decode_ascii :: "octets \<Rightarrow> string + string" where
  "decode_ascii bs = (if list_all (\<lambda>b. b < 128) bs then Inr (List.map (\<lambda>b. char_of (unat b)) bs) else Inl ''UnicodeDecodeError'')"

definition document_fields :: "string list" where
  "document_fields = [''found'', ''enabled'', ''state'', ''last_run'', ''next_run'']"

definition judge_task :: "instant \<Rightarrow> bool \<Rightarrow> int \<Rightarrow> instant option \<Rightarrow> instant option \<Rightarrow> string + schedule_diagnostics" where
  "judge_task now enabled state last_run next_run =
     (let last_run = (case last_run of None \<Rightarrow> None
                      | Some t \<Rightarrow> if schedule_earliest \<le> t \<and> t \<le> now + max_ahead then Some t else None) in
      if \<not> enabled \<or> state = state_disabled then mk_diagnostics ''task_disabled'' last_run None
      else if state \<notin> set nominal_states then Inl ''state''
      else case next_run of
          None \<Rightarrow> mk_diagnostics ''no_next_run'' last_run None
        | Some t \<Rightarrow> if now < t \<and> t \<le> now + max_ahead then mk_diagnostics ''healthy'' last_run (Some t)
                    else mk_diagnostics ''no_next_run'' last_run None)"

fun judge_document :: "instant \<Rightarrow> json \<Rightarrow> string + schedule_diagnostics" where
  "judge_document now (JObj document) =
     (if set (List.map fst document) = {''found''} \<and> json_is_int (jget document ''found'') 0
      then mk_diagnostics ''task_missing'' None None
      else if set (List.map fst document) \<noteq> set document_fields \<or> jget document ''found'' \<noteq> JBool True then Inl ''fields''
      else case (jget document ''enabled'', jget document ''state'') of
          (JBool enabled, JInt state) \<Rightarrow>
            bind_result (schedule_instant (jget document ''last_run'')) (\<lambda>last_run.
            bind_result (schedule_instant (jget document ''next_run'')) (\<lambda>next_run.
              judge_task now enabled state last_run next_run))
        | _ \<Rightarrow> Inl ''types'')"
| "judge_document now _ = Inl ''document''"

definition parse_output :: "(string \<Rightarrow> json option) \<Rightarrow> octets \<Rightarrow> instant \<Rightarrow> string + schedule_diagnostics" where
  "parse_output json_loads output now =
     (if length output > max_output_bytes then Inl ''output''
      else bind_result (decode_ascii (removeprefix utf8_bom output)) (\<lambda>text.
        case json_loads (py_strip text) of None \<Rightarrow> Inl ''JSONDecodeError'' | Some document \<Rightarrow> judge_document now document))"

definition query_schedule ::
    "(string \<Rightarrow> json option) \<Rightarrow> bool \<Rightarrow> string option \<Rightarrow> (string \<Rightarrow> (int \<times> octets) option) \<Rightarrow> instant \<Rightarrow> schedule_diagnostics" where
  "query_schedule json_loads win32 executable run_process now =
     (if \<not> win32 then query_failed
      else case executable of None \<Rightarrow> query_failed
        | Some exe \<Rightarrow>
            (case run_process exe of None \<Rightarrow> query_failed
             | Some (returncode, output) \<Rightarrow>
                 if returncode \<noteq> 0 then query_failed
                 else (case parse_output json_loads output now of Inl _ \<Rightarrow> query_failed | Inr d \<Rightarrow> d)))"

section \<open>What is ever reported\<close>

definition trustworthy :: "instant \<Rightarrow> schedule_diagnostics \<Rightarrow> bool" where
  "trustworthy now d \<longleftrightarrow> sd_status d \<in> set schedule_statuses
     \<and> (case sd_last_run_at d of None \<Rightarrow> True | Some t \<Rightarrow> schedule_earliest \<le> t \<and> t \<le> now + max_ahead)
     \<and> (case sd_next_run_at d of None \<Rightarrow> sd_status d \<noteq> ''healthy''
        | Some t \<Rightarrow> sd_status d = ''healthy'' \<and> now < t \<and> t \<le> now + max_ahead)"

lemma mk_diagnostics_Inr [simp]: "mk_diagnostics s l n = Inr d \<longleftrightarrow>
   s \<in> set schedule_statuses \<and> d = \<lparr>sd_status = s, sd_last_run_at = l, sd_next_run_at = n\<rparr>"
  by (auto simp: mk_diagnostics_def)

lemma judge_task_trustworthy: "judge_task now enabled state l n = Inr d \<Longrightarrow> trustworthy now d"
  by (auto simp: judge_task_def trustworthy_def Let_def split: if_splits option.splits)

lemma judge_document_trustworthy: "judge_document now document = Inr d \<Longrightarrow> trustworthy now d"
proof (cases document)
  case (JObj ms)
  assume "judge_document now document = Inr d"
  then show ?thesis
    by (auto simp: JObj trustworthy_def dest: judge_task_trustworthy split: if_splits json.splits)
qed auto

lemma parse_output_trustworthy: "parse_output json_loads output now = Inr d \<Longrightarrow> trustworthy now d"
  by (auto simp: parse_output_def dest: judge_document_trustworthy split: if_splits option.splits)

lemma query_failed_trustworthy: "trustworthy now query_failed"
  by (simp add: trustworthy_def query_failed_def schedule_statuses_def)

text \<open>Whatever the machine answers, the query returns (it never raises) a diagnosis with one of the five fixed codes, reports a next
  run exactly when the code is healthy and then one within the coming day, and never reports a last run before the year 2000 or more
  than a day ahead.\<close>

lemma query_schedule_trustworthy:
  "trustworthy now (query_schedule json_loads win32 executable run_process now)"
  by (auto simp: query_schedule_def query_failed_trustworthy dest: parse_output_trustworthy split: option.splits sum.splits)

text \<open>A run that is due is reported: when the task is there, enabled, in a nominal state, and its next run lies within the coming day,
  the diagnosis is healthy with exactly the times the scheduler gave, a last run out of range being left out.\<close>

lemma query_schedule_healthy:
  assumes "json_loads (py_strip (List.map (\<lambda>b. char_of (unat b)) output)) = Some (JObj [(''found'', JBool True), (''enabled'', JBool True),
      (''state'', JInt state), (''last_run'', spell_time lt), (''next_run'', spell_time nx)])"
    and "length output \<le> 4096" "list_all (\<lambda>b. b < 128) output"
    and "state = 2 \<or> state = 3 \<or> state = 4" "in_calendar lt" "in_calendar nx" "lt mod 1000000 = 0" "nx mod 1000000 = 0"
    and "946684800000000 \<le> lt" "lt \<le> now" "now < nx" "nx \<le> now + 86400000000"
  shows "query_schedule json_loads True (Some exe) (\<lambda>_. Some (0, output)) now
    = \<lparr>sd_status = ''healthy'', sd_last_run_at = Some lt, sd_next_run_at = Some nx\<rparr>"
proof -
  have whole: "t div 1000000 * 1000000 = t" if "t mod 1000000 = 0" for t :: int using that by (metis add.right_neutral div_mult_mod_eq)
  have "removeprefix utf8_bom output = output"
  proof (cases "take 3 output = utf8_bom")
    case True
    then have "hd utf8_bom \<in> set output" by (metis hd_in_set list.discI list.sel(1) utf8_bom_def in_set_takeD)
    with assms(3) have "hd utf8_bom < 128" by (simp add: list_all_iff)
    then show ?thesis by (simp add: utf8_bom_def)
  next
    case False
    moreover have "length utf8_bom = 3" by (simp add: utf8_bom_def)
    ultimately show ?thesis by (simp only: removeprefix_def if_False)
  qed
  then have "parse_output json_loads output now = judge_document now (JObj [(''found'', JBool True), (''enabled'', JBool True),
      (''state'', JInt state), (''last_run'', spell_time lt), (''next_run'', spell_time nx)])"
    using assms(1-3) by (simp add: parse_output_def max_output_bytes_def decode_ascii_def)
  also have "\<dots> = judge_task now True state (Some lt) (Some nx)"
    using assms(5-8) by (simp add: document_fields_def spell_time_def strptime_format_time whole insert_commute)
  also have "\<dots> = Inr \<lparr>sd_status = ''healthy'', sd_last_run_at = Some lt, sd_next_run_at = Some nx\<rparr>"
    using assms(4,9-12) by (auto simp: judge_task_def state_disabled_def nominal_states_def max_ahead_def schedule_earliest_def
      schedule_statuses_def mk_diagnostics_def check_field_def)
  finally show ?thesis by (simp add: query_schedule_def)
qed

lemma query_schedule_healthy_witness:
  "query_schedule (\<lambda>_. Some (JObj [(''found'', JBool True), (''enabled'', JBool True), (''state'', JInt 4),
      (''last_run'', spell_time 1714557600000000), (''next_run'', spell_time 1714558500000000)])) True (Some ''powershell'')
      (\<lambda>_. Some (0, [0x7B, 0x7D])) 1714557601000000
    = \<lparr>sd_status = ''healthy'', sd_last_run_at = Some 1714557600000000, sd_next_run_at = Some 1714558500000000\<rparr>"
  by (rule query_schedule_healthy [where state = 4]) (simp_all add: in_calendar_def day_of_def)

end
