(* ===== verification/V2Run.thy ===== *)
theory V2Run
  imports IngestEndpoint V2Emitted V2Config CollectorSecrets V2Schedule V2Status
begin

text \<open>
  One v2 run of the collector (collector/v2_run.py): the setup, the loop over the sources with its budget,
  the commit of a chunk after its delivery, and the status, heartbeat and exit code. What a source's file looks like at
  each read is an argument, as are the clock, the zone, the schedule diagnostics and the platform; writing a file
  succeeds. The state carries two records of the run that the code only logs: the chunks whose cursor was
  saved, and how many events were handed to delivery. The lemmas follow a run from step to step; the
  properties say that no event before a saved cursor is lost.
\<close>

section \<open>Setup\<close>

datatype run_error = StoreError string | RulesFailure rules_error | V2Failure string | OtherError

definition failure_category :: "run_error \<Rightarrow> string" where
  "failure_category e =
     (case e of StoreError _ \<Rightarrow> config | RulesFailure _ \<Rightarrow> config
      | V2Failure code \<Rightarrow> if code \<in> {''state_corrupt'', ''unknown_source''} then config else other_failure
      | OtherError \<Rightarrow> other_failure)"

record runtime =
  rt_context :: transform_context
  rt_cache :: patron_cache
  rt_quarantine :: quarantine

text \<open>What the machine holds when a run starts.\<close>

record machine =
  mc_host :: secret_host
  mc_secret :: secret_folder
  mc_rules_file :: "json option option"
  mc_cache :: patron_cache
  mc_quarantine_file :: "json option option"
  mc_state_file :: "json option option"
  mc_status_file :: "json option option"
  mc_zone :: zone
  mc_fresh_ruleset_id :: string

definition open_cache :: "v2_config \<Rightarrow> instant \<Rightarrow> patron_cache \<Rightarrow> patron_cache" where
  "open_cache v2 now c =
     c\<lparr>pc_overlay := [], pc_hold_overlay := [], pc_new_rulesets := [], pc_today := ord_of now, pc_ttl_days := nat (vc_patron_ttl_days v2),
       pc_max_rows := nat (vc_patron_cache_max_rows v2), pc_hold_days := nat (vc_hold_ledger_days v2),
       pc_hold_max_rows := nat (vc_hold_ledger_max_rows v2), pc_read_only := False\<rparr>"

definition open_quarantine :: "v2_config \<Rightarrow> instant \<Rightarrow> json option option \<Rightarrow> quarantine" where
  "open_quarantine v2 now file =
     load_quarantine \<lparr>qn_entries = [], qn_max_entries = nat (vc_quarantine_max_entries v2), qn_retention_days = 90, qn_today = ord_of now,
       qn_read_only = False, qn_reset_from_corrupt_file = False, qn_file = file\<rparr>"

definition build_runtime :: "v2_config \<Rightarrow> machine \<Rightarrow> instant \<Rightarrow> run_error + runtime" where
  "build_runtime v2 m now =
     (if sf_presence (mc_secret m) \<noteq> Regular then Inl (StoreError ''secret_missing'')
      else bind_result (lift_error StoreError (require_protected ''secret'' (acl_state (mc_host m) (mc_secret m)))) (\<lambda>_.
           bind_result (lift_error StoreError (load_secret (mc_host m) (mc_secret m) (vc_key_id v2))) (\<lambda>master.
           bind_result (lift_error (\<lambda>_. OtherError) (derive_subkeys master)) (\<lambda>keys.
           bind_result (lift_error RulesFailure (load_rules (mc_rules_file m) keys)) (\<lambda>rules.
             let (ruleset_id, cache) = ruleset_id_for (open_cache v2 now (mc_cache m)) (ru_fingerprint rules) (mc_fresh_ruleset_id m)
             in Inr \<lparr>rt_context = \<lparr>tc_keys = keys, tc_rules = rules, tc_ruleset_id = ruleset_id, tc_zone = mc_zone m, tc_now = now\<rparr>,
                      rt_cache = cache, rt_quarantine = open_quarantine v2 now (mc_quarantine_file m)\<rparr>)))))"

section \<open>The sources\<close>

datatype run_end = Completed | Ended string | Raised_error run_error

record 'w run =
  rn_delivery :: "'w delivery"
  rn_context :: transform_context
  rn_parse_dt :: "string \<Rightarrow> int option"
  rn_windows :: bool
  rn_sources :: "string list"
  rn_view :: "string \<Rightarrow> nat \<Rightarrow> file_view" \<comment> \<open>a source at the run's \<open>n\<close>-th read\<close>
  rn_chunk_lines :: nat
  rn_max_chunks :: nat

record 'w rstate =
  rs_delivery :: "'w dstate"
  rs_cache :: patron_cache
  rs_current :: collector_state
  rs_saved :: "json option option"
  rs_counters :: counters
  rs_reads :: nat
  rs_committed :: "(string \<times> safe_chunk) list"
  rs_sent :: nat

definition tally_totals :: "(totals \<Rightarrow> totals) \<Rightarrow> 'w rstate \<Rightarrow> 'w rstate" where
  "tally_totals f st = st\<lparr>rs_delivery := (rs_delivery st)\<lparr>ds_totals := f (ds_totals (rs_delivery st))\<rparr>\<rparr>"

definition source_cursor :: "collector_state \<Rightarrow> string \<Rightarrow> cursor option" where
  "source_cursor current name =
     map_option (\<lambda>s. \<lparr>cur_identity = ss_identity s, cur_offset = nat (ss_offset s)\<rparr>) (get_source current name)"

definition at_cursor :: "cursor \<Rightarrow> state_error + source_state" where
  "at_cursor c = mk_source_state (cur_identity c) (int (cur_offset c))"

text \<open>The new state on disk, and the chunk on record.\<close>

definition save_cursor :: "string \<Rightarrow> safe_chunk \<Rightarrow> source_state \<Rightarrow> 'w rstate \<Rightarrow> 'w rstate" where
  "save_cursor name chunk s st =
     (let current = with_source (rs_current st) name s in
      st\<lparr>rs_current := current, rs_saved := Some (Some (serialize_state current)), rs_committed := rs_committed st @ [(name, chunk)]\<rparr>)"

text \<open>How one turn of the loop ends: with more to read, with the source at its end, with nothing to commit, or with the run over.\<close>

datatype turn = Again cursor | AtEnd | Skip | Stop run_end

definition empty_turn :: "string \<Rightarrow> cursor option \<Rightarrow> safe_chunk \<Rightarrow> 'w rstate \<Rightarrow> turn \<times> 'w rstate" where
  "empty_turn name cursor chunk st =
     (case sc_cursor chunk of
        None \<Rightarrow> (Skip, st)
      | Some c \<Rightarrow>
          if Some c = cursor then (Skip, st)
          else (case at_cursor c of Inl _ \<Rightarrow> (Stop (Raised_error OtherError), st) | Inr s \<Rightarrow> (Skip, save_cursor name chunk s st)))"

definition unskipped :: "quarantine \<Rightarrow> safe_event list \<Rightarrow> safe_event list" where
  "unskipped q events = filter (\<lambda>e. event_key_of e \<notin> keys_for q (kind_of e)) events"

definition commit_turn :: "string \<Rightarrow> safe_chunk \<Rightarrow> 'w rstate \<Rightarrow> turn \<times> 'w rstate" where
  "commit_turn name chunk st =
     (case sc_cursor chunk of
        None \<Rightarrow> (Stop (Raised_error (V2Failure ''internal_error'')), st\<lparr>rs_cache := cache_discard (rs_cache st)\<rparr>)
      | Some c \<Rightarrow>
          (case at_cursor c of
             Inl _ \<Rightarrow> (Stop (Raised_error OtherError), st)
           | Inr s \<Rightarrow>
               (let st = save_cursor name chunk s (st\<lparr>rs_cache := cache_commit (rs_cache st)\<rparr>);
                    st = tally_totals (\<lambda>t. t\<lparr>to_chunks := to_chunks t + 1\<rparr>) (st\<lparr>rs_counters := counters_merge (rs_counters st) (sc_counters chunk)\<rparr>)
                in (if sc_more chunk then Again c else AtEnd, st))))"

definition before_delivery :: "safe_chunk \<Rightarrow> 'w rstate \<Rightarrow> 'w rstate" where
  "before_delivery chunk st =
     (let events = unskipped (ds_quarantine (rs_delivery st)) (sc_events chunk) in
      (tally_totals (\<lambda>t. t\<lparr>to_skipped_quarantined := to_skipped_quarantined t + (length (sc_events chunk) - length events)\<rparr>) st)
        \<lparr>rs_sent := rs_sent st + length events\<rparr>)"

definition full_turn :: "'w run \<Rightarrow> string \<Rightarrow> safe_chunk \<Rightarrow> 'w rstate \<Rightarrow> turn \<times> 'w rstate" where
  "full_turn run name chunk st =
     (let st1 = before_delivery chunk st in
      case deliver (rn_delivery run) (unskipped (ds_quarantine (rs_delivery st)) (sc_events chunk)) (rs_delivery st1) of
        Inl _ \<Rightarrow> (Stop (Raised_error OtherError), st1)
      | Inr (Some failure, ds) \<Rightarrow> (Stop (Ended failure), st1\<lparr>rs_delivery := ds, rs_cache := cache_discard (rs_cache st1)\<rparr>)
      | Inr (None, ds) \<Rightarrow> commit_turn name chunk (st1\<lparr>rs_delivery := ds\<rparr>))"

definition count_read :: "safe_chunk \<Rightarrow> 'w rstate \<Rightarrow> 'w rstate" where
  "count_read chunk = tally_totals (\<lambda>t. t\<lparr>to_sources_rotated := to_sources_rotated t + of_bool (sc_rotated chunk),
     to_sources_truncated := to_sources_truncated t + of_bool (sc_truncated chunk)\<rparr>)"

definition one_turn :: "'w run \<Rightarrow> string \<Rightarrow> cursor option \<Rightarrow> 'w rstate \<Rightarrow> turn \<times> 'w rstate" where
  "one_turn run name cursor st =
     (let view = rn_view run name (rs_reads st); st = st\<lparr>rs_reads := rs_reads st + 1\<rparr> in
      case read_next_chunk (rn_parse_dt run) (rn_windows run) name view cursor (rn_context run) (rn_chunk_lines run) (rs_cache st) of
        Inl code \<Rightarrow> (Stop (Raised_error (V2Failure code)), st)
      | Inr (chunk, cache) \<Rightarrow>
          (let st = st\<lparr>rs_cache := cache\<rparr> in
           if \<not> sc_existed chunk then (Skip, tally_totals (\<lambda>t. t\<lparr>to_sources_missing := to_sources_missing t + 1\<rparr>) st)
           else let st = count_read chunk st
                in if sc_empty chunk then empty_turn name cursor chunk st else full_turn run name chunk st))"

text \<open>\<open>while budget > 0\<close>: how the run ended, if it did, the budget left, and the state.\<close>

fun source_loop :: "'w run \<Rightarrow> string \<Rightarrow> cursor option \<Rightarrow> nat \<Rightarrow> 'w rstate \<Rightarrow> run_end option \<times> nat \<times> 'w rstate" where
  "source_loop run name cursor 0 st = (None, 0, st)"
| "source_loop run name cursor (Suc budget) st =
     (case one_turn run name cursor st of
        (Again c, st) \<Rightarrow> source_loop run name (Some c) budget st
      | (AtEnd, st) \<Rightarrow> (None, budget, st)
      | (Skip, st) \<Rightarrow> (None, Suc budget, st)
      | (Stop e, st) \<Rightarrow> (Some e, budget, st))"

fun sources_loop :: "'w run \<Rightarrow> string list \<Rightarrow> nat \<Rightarrow> 'w rstate \<Rightarrow> run_end \<times> 'w rstate" where
  "sources_loop run [] budget st = (Completed, st)"
| "sources_loop run (name # rest) budget st =
     (if name \<notin> set (rn_sources run) then sources_loop run rest budget st
      else case source_loop run name (source_cursor (rs_current st) name) budget st of
             (Some e, _, st) \<Rightarrow> (e, st)
           | (None, budget, st) \<Rightarrow> sources_loop run rest budget st)"

definition process_sources :: "'w run \<Rightarrow> 'w rstate \<Rightarrow> run_end \<times> 'w rstate" where
  "process_sources run st =
     (case load_state (rs_saved st) of
        Inl _ \<Rightarrow> (Raised_error (V2Failure ''state_corrupt''), st)
      | Inr current \<Rightarrow>
          if list_ex (\<lambda>name. name \<notin> set source_order) (rn_sources run) then (Raised_error (V2Failure ''unknown_source''), st)
          else sources_loop run source_order (rn_max_chunks run) (st\<lparr>rs_current := current\<rparr>))"

section \<open>How a run progresses\<close>

definition commit_entry :: "collector_state \<Rightarrow> string \<times> safe_chunk \<Rightarrow> collector_state" where
  "commit_entry current entry =
     (case sc_cursor (snd entry) of None \<Rightarrow> current
      | Some c \<Rightarrow> with_source current (fst entry) \<lparr>ss_identity = cur_identity c, ss_offset = int (cur_offset c)\<rparr>)"

definition chunk_ok :: "safe_chunk \<Rightarrow> bool" where
  "chunk_ok chunk \<longleftrightarrow> (\<exists>c. sc_cursor chunk = Some c \<and> int (cur_offset c) \<le> max_plausible_offset)"

text \<open>The state and its file follow the chunks on record.\<close>

definition cursors_follow :: "'w rstate \<Rightarrow> 'w rstate \<Rightarrow> bool" where
  "cursors_follow st st' \<longleftrightarrow> (\<exists>new. rs_committed st' = rs_committed st @ new \<and> (\<forall>entry \<in> set new. chunk_ok (snd entry))
     \<and> rs_current st' = foldl commit_entry (rs_current st) new
     \<and> rs_saved st' = (if new = [] then rs_saved st else Some (Some (serialize_state (rs_current st')))))"

definition same_log :: "'w rstate \<Rightarrow> 'w rstate \<Rightarrow> bool" where
  "same_log st st' \<longleftrightarrow> rs_committed st' = rs_committed st \<and> rs_current st' = rs_current st \<and> rs_saved st' = rs_saved st"

lemma same_log_follows: "same_log st st' \<Longrightarrow> cursors_follow st st'"
  by (simp add: same_log_def cursors_follow_def)

lemma cursors_follow_trans: "cursors_follow a b \<Longrightarrow> cursors_follow b c \<Longrightarrow> cursors_follow a c"
  unfolding cursors_follow_def by (elim exE conjE) (auto simp: foldl_append)

lemma at_cursor_Inr: "at_cursor c = Inr s \<longleftrightarrow> s = \<lparr>ss_identity = cur_identity c, ss_offset = int (cur_offset c)\<rparr>
    \<and> int (cur_offset c) \<le> max_plausible_offset"
  by (auto simp: at_cursor_def mk_source_state_Inr source_ok_def)

lemma save_cursor_follows:
  assumes "sc_cursor chunk = Some c" "at_cursor c = Inr s" "same_log st st1" "same_log (save_cursor name chunk s st1) st'"
  shows "cursors_follow st st'"
  using assms unfolding cursors_follow_def
  by (intro exI [of _ "[(name, chunk)]"]) (simp add: same_log_def save_cursor_def commit_entry_def at_cursor_Inr chunk_ok_def Let_def)

lemma commit_turn_follows:
  assumes "commit_turn name chunk st = (turn, st')"
  shows "cursors_follow st st'"
proof -
  from assms consider "same_log st st'"
    | c s where "sc_cursor chunk = Some c" "at_cursor c = Inr s"
        "same_log (save_cursor name chunk s (st\<lparr>rs_cache := cache_commit (rs_cache st)\<rparr>)) st'"
    by (cases "sc_cursor chunk") (auto simp: commit_turn_def same_log_def Let_def tally_totals_def split: sum.splits)
  then show ?thesis
  proof cases
    case 2
    show ?thesis by (rule save_cursor_follows [OF 2(1,2) _ 2(3)]) (simp add: same_log_def)
  qed (rule same_log_follows)
qed

lemma before_delivery_log: "same_log st (before_delivery chunk st)"
  by (simp add: same_log_def before_delivery_def tally_totals_def Let_def)

lemma full_turn_follows:
  assumes "full_turn run name chunk st = (turn, st')"
  shows "cursors_follow st st'"
proof -
  let ?st = "before_delivery chunk st"
  from assms consider "same_log ?st st'" | ds where "commit_turn name chunk (?st\<lparr>rs_delivery := ds\<rparr>) = (turn, st')"
    by (auto simp: full_turn_def Let_def same_log_def split: sum.splits prod.splits option.splits)
  then have "cursors_follow ?st st'"
  proof cases
    case 2
    have "cursors_follow ?st (?st\<lparr>rs_delivery := ds\<rparr>)" by (rule same_log_follows) (simp add: same_log_def)
    then show ?thesis using commit_turn_follows [OF 2] by (rule cursors_follow_trans)
  qed (rule same_log_follows)
  with same_log_follows [OF before_delivery_log] show ?thesis by (rule cursors_follow_trans)
qed

lemma empty_turn_follows:
  assumes "empty_turn name cursor chunk st = (turn, st')"
  shows "cursors_follow st st'"
proof -
  from assms consider "same_log st st'" | c s where "sc_cursor chunk = Some c" "at_cursor c = Inr s" "same_log (save_cursor name chunk s st) st'"
    by (cases "sc_cursor chunk") (auto simp: empty_turn_def same_log_def split: sum.splits if_splits)
  then show ?thesis
  proof cases
    case 2
    show ?thesis by (rule save_cursor_follows [OF 2(1,2) _ 2(3)]) (simp add: same_log_def)
  qed (rule same_log_follows)
qed

text \<open>One turn: nothing to commit, an empty chunk, or a full one.\<close>

lemma one_turn_cases:
  assumes "one_turn run name cursor st = (turn, st')"
  obtains "same_log st st'" "rs_delivery st' = (rs_delivery st)\<lparr>ds_totals := ds_totals (rs_delivery st')\<rparr>" "rs_sent st' = rs_sent st"
  | chunk st1 cache where "read_next_chunk (rn_parse_dt run) (rn_windows run) name (rn_view run name (rs_reads st)) cursor (rn_context run)
        (rn_chunk_lines run) (rs_cache st) = Inr (chunk, cache)"
      "same_log st st1" "rs_delivery st1 = (rs_delivery st)\<lparr>ds_totals := ds_totals (rs_delivery st1)\<rparr>" "rs_sent st1 = rs_sent st"
      "if sc_empty chunk then empty_turn name cursor chunk st1 = (turn, st') else full_turn run name chunk st1 = (turn, st')"
proof (cases "read_next_chunk (rn_parse_dt run) (rn_windows run) name (rn_view run name (rs_reads st)) cursor (rn_context run)
        (rn_chunk_lines run) (rs_cache st)")
  case (Inl code)
  with assms that(1) show ?thesis by (auto simp: one_turn_def Let_def same_log_def)
next
  case (Inr p)
  obtain chunk cache where p: "p = (chunk, cache)" by (cases p)
  let ?st = "count_read chunk (st\<lparr>rs_reads := rs_reads st + 1, rs_cache := cache\<rparr>)"
  show ?thesis
  proof (cases "sc_existed chunk")
    case False
    with assms Inr p that(1) show ?thesis by (auto simp: one_turn_def Let_def same_log_def tally_totals_def)
  next
    case True
    have t: "if sc_empty chunk then empty_turn name cursor chunk ?st = (turn, st') else full_turn run name chunk ?st = (turn, st')"
      using assms Inr True by (simp add: one_turn_def Let_def p split: if_splits)
    show ?thesis by (rule that(2) [OF Inr [unfolded p] _ _ _ t]) (simp_all add: same_log_def count_read_def tally_totals_def)
  qed
qed

lemma one_turn_follows: "one_turn run name cursor st = (turn, st') \<Longrightarrow> cursors_follow st st'"
  by (erule one_turn_cases)
    (auto intro: same_log_follows cursors_follow_trans [OF same_log_follows] empty_turn_follows full_turn_follows split: if_splits)

text \<open>What every turn does, the loops do.\<close>

lemma source_loop_keeps:
  assumes "source_loop run name cursor budget st = (e, budget', st')"
    and step: "\<And>cursor st turn st'. one_turn run name cursor st = (turn, st') \<Longrightarrow> R st st'"
    and refl: "\<And>st. R st st" and trans: "\<And>a b c. R a b \<Longrightarrow> R b c \<Longrightarrow> R a c"
  shows "R st st'"
  using assms(1)
proof (induction budget arbitrary: cursor st)
  case 0
  then show ?case by (simp add: refl)
next
  case (Suc budget)
  obtain turn st1 where t: "one_turn run name cursor st = (turn, st1)" by fastforce
  have "R st1 st'" if "turn = Again c" for c using Suc.prems t that by (intro Suc.IH) simp
  moreover have "st' = st1" if "\<not> (\<exists>c. turn = Again c)" using Suc.prems t that by (cases turn) auto
  ultimately show ?case using step [OF t] trans by blast
qed

lemma sources_loop_keeps:
  assumes "sources_loop run names budget st = (e, st')"
    and step: "\<And>name cursor st turn st'. one_turn run name cursor st = (turn, st') \<Longrightarrow> R st st'"
    and refl: "\<And>st. R st st" and trans: "\<And>a b c. R a b \<Longrightarrow> R b c \<Longrightarrow> R a c"
  shows "R st st'"
  using assms(1)
proof (induction names arbitrary: budget st)
  case Nil
  then show ?case by (simp add: refl)
next
  case (Cons name names)
  show ?case
  proof (cases "name \<in> set (rn_sources run)")
    case True
    obtain e1 b1 st1 where l: "source_loop run name (source_cursor (rs_current st) name) budget st = (e1, b1, st1)" by (metis prod_cases3)
    have r: "R st st1" by (rule source_loop_keeps [OF l step refl trans])
    have "R st1 st'" if "e1 = None" using Cons.prems True l that by (intro Cons.IH) simp
    moreover have "st' = st1" if "e1 = Some x" for x using Cons.prems True l that by simp
    ultimately show ?thesis using r trans by (cases e1) blast+
  next
    case False
    with Cons show ?thesis by simp
  qed
qed

lemma cursors_follow_refl: "cursors_follow st st"
  by (rule same_log_follows) (simp add: same_log_def)

lemma sources_loop_follows: "sources_loop run names budget st = (e, st') \<Longrightarrow> cursors_follow st st'"
  by (erule sources_loop_keeps) (erule one_turn_follows, rule cursors_follow_refl, erule cursors_follow_trans, assumption)

section \<open>Nothing is lost\<close>

lemma unskipped_set: "set (unskipped q es) \<subseteq> set es"
  by (auto simp: unskipped_def)

lemma skipped_quarantined: "e \<in> set es \<Longrightarrow> e \<notin> set (unskipped q es) \<Longrightarrow> quarantined q e"
  by (auto simp: unskipped_def keys_for_def quarantined_def event_id_def entry_id_def image_iff) metis

definition recorded :: "('w \<Rightarrow> string \<Rightarrow> safe_event \<Rightarrow> bool) \<Rightarrow> string \<Rightarrow> (string \<times> safe_chunk) list \<Rightarrow> 'w dstate \<Rightarrow> bool" where
  "recorded stored key chunks_done st \<longleftrightarrow> (\<forall>entry \<in> set chunks_done. \<forall>e \<in> set (sc_events (snd entry)). handled stored key st e)"

definition advanced :: "('w \<Rightarrow> string \<Rightarrow> safe_event \<Rightarrow> bool) \<Rightarrow> 'w run \<Rightarrow> 'w rstate \<Rightarrow> 'w rstate \<Rightarrow> bool" where
  "advanced stored run st st' \<longleftrightarrow> rs_sent st \<le> rs_sent st' \<and> (\<forall>m.
     room (dl_today (rn_delivery run)) (ds_quarantine (rs_delivery st)) (rs_sent st' - rs_sent st + m) \<longrightarrow>
       room (dl_today (rn_delivery run)) (ds_quarantine (rs_delivery st')) m
       \<and> (\<forall>k e. handled stored k (rs_delivery st) e \<longrightarrow> handled stored k (rs_delivery st') e)
       \<and> (\<exists>new. rs_committed st' = rs_committed st @ new \<and> recorded stored (dl_key_id (rn_delivery run)) new (rs_delivery st')))"

lemma advanced_recorded:
  assumes "advanced stored run st st'"
    "room (dl_today (rn_delivery run)) (ds_quarantine (rs_delivery st)) (rs_sent st' - rs_sent st + 0)"
  obtains new where "rs_committed st' = rs_committed st @ new" "recorded stored (dl_key_id (rn_delivery run)) new (rs_delivery st')"
  using assms unfolding advanced_def by blast

lemma recorded_mono: "recorded stored key chunks_done st \<Longrightarrow> (\<And>e. handled stored key st e \<Longrightarrow> handled stored key st' e) \<Longrightarrow> recorded stored key chunks_done st'"
  by (auto simp: recorded_def)

lemma advanced_refl: "advanced stored run st st"
  by (simp add: advanced_def recorded_def)

lemma advanced_trans:
  assumes "advanced stored run a b" "advanced stored run b c"
  shows "advanced stored run a c"
  unfolding advanced_def
proof (intro conjI allI impI)
  let ?room = "room (dl_today (rn_delivery run))" and ?key = "dl_key_id (rn_delivery run)"
  show "rs_sent a \<le> rs_sent c" using assms by (simp add: advanced_def)
  fix m assume r: "?room (ds_quarantine (rs_delivery a)) (rs_sent c - rs_sent a + m)"
  have "rs_sent c - rs_sent a + m = rs_sent b - rs_sent a + (rs_sent c - rs_sent b + m)" using assms by (simp add: advanced_def)
  with r assms(1) obtain new where b: "?room (ds_quarantine (rs_delivery b)) (rs_sent c - rs_sent b + m)"
      "\<And>k e. handled stored k (rs_delivery a) e \<Longrightarrow> handled stored k (rs_delivery b) e" "rs_committed b = rs_committed a @ new"
      "recorded stored ?key new (rs_delivery b)"
    unfolding advanced_def by metis
  with assms(2) obtain new' where c: "?room (ds_quarantine (rs_delivery c)) m"
      "\<And>k e. handled stored k (rs_delivery b) e \<Longrightarrow> handled stored k (rs_delivery c) e" "rs_committed c = rs_committed b @ new'"
      "recorded stored ?key new' (rs_delivery c)"
    unfolding advanced_def by metis
  show "?room (ds_quarantine (rs_delivery c)) m" by (rule c(1))
  show "handled stored k (rs_delivery c) e" if "handled stored k (rs_delivery a) e" for k e using that b(2) c(2) by blast
  have "recorded stored ?key new (rs_delivery c)" by (rule recorded_mono [OF b(4) c(2)])
  with c(4) have "recorded stored ?key (new @ new') (rs_delivery c)" by (auto simp: recorded_def)
  with b(3) c(3) show "\<exists>new. rs_committed c = rs_committed a @ new \<and> recorded stored ?key new (rs_delivery c)" by auto
qed

lemma advanced_same:
  assumes "same_log st st'" "rs_delivery st' = (rs_delivery st)\<lparr>ds_totals := t\<rparr>" "rs_sent st' = rs_sent st"
  shows "advanced stored run st st'"
  using assms by (simp add: advanced_def same_log_def recorded_def handled_def)

lemma empty_turn_advanced:
  assumes "empty_turn name cursor chunk st = (turn, st')" "sc_events chunk = []"
  shows "advanced stored run st st'"
proof -
  from assms(1) consider "st' = st" | s where "st' = save_cursor name chunk s st"
    by (cases "sc_cursor chunk") (auto simp: empty_turn_def split: sum.splits if_splits)
  then show ?thesis
    by cases (use assms(2) in \<open>auto simp: advanced_refl advanced_def save_cursor_def Let_def recorded_def\<close>)
qed

lemma commit_turn_delivery:
  assumes "commit_turn name chunk st = (turn, st')"
  shows "rs_sent st' = rs_sent st \<and> rs_delivery st' = (rs_delivery st)\<lparr>ds_totals := ds_totals (rs_delivery st')\<rparr>
    \<and> (rs_committed st' = rs_committed st \<or> rs_committed st' = rs_committed st @ [(name, chunk)])"
  using assms by (auto simp: commit_turn_def save_cursor_def tally_totals_def Let_def split: option.splits sum.splits)

context ingest_endpoint
begin

lemma full_turn_advanced:
  assumes "dl_post (rn_delivery run) = post" "dl_config (rn_delivery run) = cfg" "dl_max_events (rn_delivery run) \<noteq> 0"
    and events: "\<forall>e \<in> set (sc_events chunk). client_event e" and full: "full_turn run name chunk st = (turn, st')"
  shows "advanced stored run st st'"
proof -
  let ?d = "rn_delivery run" and ?st1 = "before_delivery chunk st"
  let ?es = "unskipped (ds_quarantine (rs_delivery st)) (sc_events chunk)"
  let ?room = "room (dl_today ?d)"
  have st1: "ds_quarantine (rs_delivery ?st1) = ds_quarantine (rs_delivery st)" "ds_world (rs_delivery ?st1) = ds_world (rs_delivery st)"
      "rs_sent ?st1 = rs_sent st + length ?es" "rs_committed ?st1 = rs_committed st"
    by (simp_all add: before_delivery_def tally_totals_def Let_def)
  have sent: "rs_sent st' = rs_sent st + length ?es"
    using full commit_turn_delivery by (fastforce simp: full_turn_def Let_def st1(3) split: sum.splits prod.splits option.splits)
  show ?thesis
    unfolding advanced_def sent
  proof (intro conjI allI impI)
    show "rs_sent st \<le> rs_sent st + length ?es" by simp
    fix m assume "?room (ds_quarantine (rs_delivery st)) (rs_sent st + length ?es - rs_sent st + m)"
    then have r: "?room (ds_quarantine (rs_delivery ?st1)) (length ?es + m)" "?room (ds_quarantine (rs_delivery ?st1)) (length ?es)"
      by (simp_all add: st1(1) room_def)
    have "\<forall>e \<in> set ?es. client_event e" using events unskipped_set by blast
    from delivered_all [OF assms(1-3) this r(2)] obtain failure ds where d: "deliver ?d ?es (rs_delivery ?st1) = Inr (failure, ds)"
        "grown ?d (rs_delivery ?st1) ds (length ?es)" "failure = None \<longrightarrow> (\<forall>e \<in> set ?es. handled stored (dl_key_id ?d) ds e)" by blast
    obtain t where c: "rs_delivery st' = ds\<lparr>ds_totals := t\<rparr>"
        "rs_committed st' = rs_committed st \<or> failure = None \<and> rs_committed st' = rs_committed st @ [(name, chunk)]"
    proof (cases failure)
      case None
      then have "commit_turn name chunk (?st1\<lparr>rs_delivery := ds\<rparr>) = (turn, st')" using full d(1) by (simp add: full_turn_def Let_def)
      from commit_turn_delivery [OF this] show thesis using that None by (simp add: st1(4)) blast
    next
      case (Some f)
      then show thesis using that [of "ds_totals ds"] full d(1) by (auto simp: full_turn_def Let_def st1(4))
    qed
    show "?room (ds_quarantine (rs_delivery st')) m" using d(2) r(1) by (simp add: c(1) grown_def)
    have old: "handled stored k ds e" if "handled stored k (rs_delivery st) e" for k e
      by (rule grown_handled [OF d(2)]) (use that in \<open>simp add: handled_def st1\<close>)
    then show "handled stored k (rs_delivery st') e" if "handled stored k (rs_delivery st) e" for k e
      using that by (simp add: c(1) handled_def)
    have "handled stored (dl_key_id ?d) (rs_delivery st') e" if "failure = None" "e \<in> set (sc_events chunk)" for e
    proof (cases "e \<in> set ?es")
      case True
      with d(3) that(1) show ?thesis by (simp add: c(1) handled_def)
    next
      case False
      then have "handled stored (dl_key_id ?d) (rs_delivery st) e" using skipped_quarantined [OF that(2)] by (simp add: handled_def)
      then show ?thesis using old by (simp add: c(1) handled_def)
    qed
    with c(2) show "\<exists>new. rs_committed st' = rs_committed st @ new \<and> recorded stored (dl_key_id ?d) new (rs_delivery st')"
      by (auto simp: recorded_def)
  qed
qed

lemma one_turn_advanced:
  assumes "dl_post (rn_delivery run) = post" "dl_config (rn_delivery run) = cfg" "dl_max_events (rn_delivery run) \<noteq> 0"
    and clock: "clock_ok (rn_context run)" and turn: "one_turn run name cursor st = (turn, st')"
  shows "advanced stored run st st'"
  using turn
proof (rule one_turn_cases)
  assume "same_log st st'" "rs_delivery st' = (rs_delivery st)\<lparr>ds_totals := ds_totals (rs_delivery st')\<rparr>" "rs_sent st' = rs_sent st"
  then show ?thesis by (rule advanced_same)
next
  fix chunk st1 cache
  assume a: "read_next_chunk (rn_parse_dt run) (rn_windows run) name (rn_view run name (rs_reads st)) cursor (rn_context run)
        (rn_chunk_lines run) (rs_cache st) = Inr (chunk, cache)"
      "same_log st st1" "rs_delivery st1 = (rs_delivery st)\<lparr>ds_totals := ds_totals (rs_delivery st1)\<rparr>" "rs_sent st1 = rs_sent st"
      "if sc_empty chunk then empty_turn name cursor chunk st1 = (turn, st') else full_turn run name chunk st1 = (turn, st')"
  have "advanced stored run st1 st'"
  proof (cases "sc_empty chunk")
    case True
    with a(5) empty_chunk_events [OF a(1)] show ?thesis by (simp add: empty_turn_advanced)
  next
    case False
    with a(5) full_turn_advanced [OF assms(1-3) chunk_emits [OF a(1) clock]] show ?thesis by simp
  qed
  with advanced_same [OF a(2-4)] show ?thesis by (rule advanced_trans)
qed

end

section \<open>The state file after a run\<close>

lemma update_members: "x \<in> set (AList.update k v al) \<Longrightarrow> x = (k, v) \<or> x \<in> set al"
  by (induction al) (auto split: if_splits)

lemma with_source_ok: "state_ok st \<Longrightarrow> source_ok s \<Longrightarrow> state_ok (with_source st name s)"
  unfolding state_ok_def with_source_def by (auto dest!: update_members)

lemma commit_entry_ok: "state_ok st \<Longrightarrow> chunk_ok (snd entry) \<Longrightarrow> state_ok (commit_entry st entry)"
  by (auto simp: commit_entry_def chunk_ok_def source_ok_def intro!: with_source_ok)

lemma commit_entries_ok: "state_ok st \<Longrightarrow> \<forall>entry \<in> set new. chunk_ok (snd entry) \<Longrightarrow> state_ok (foldl commit_entry st new)"
proof (induction new arbitrary: st)
  case (Cons entry new)
  then show ?case using commit_entry_ok [OF Cons.prems(1), of entry] by simp
qed simp

lemma loaded_state_ok:
  assumes "load_state f = Inr current"
  shows "state_ok current"
proof (cases f)
  case None
  with assms show ?thesis by (simp add: load_state_def state_ok_def empty_state_def) (auto simp: empty_state_def)
next
  case (Some doc)
  with assms obtain d where "deserialize_state d = Inr current" by (cases doc) (simp_all add: load_state_def)
  then show ?thesis by (rule deserialize_state_ok)
qed

lemma process_sources_state:
  assumes "process_sources run st = (e, st')" "rs_committed st = []" "load_state (rs_saved st) = Inr current"
  shows "load_state (rs_saved st') = Inr (foldl commit_entry current (rs_committed st'))"
proof -
  from assms(1,3) consider "st' = st" | "sources_loop run source_order (rn_max_chunks run) (st\<lparr>rs_current := current\<rparr>) = (e, st')"
    by (auto simp: process_sources_def split: if_splits)
  then show ?thesis
  proof cases
    case 1
    with assms(2,3) show ?thesis by simp
  next
    case 2
    from sources_loop_follows [OF 2] obtain new where n: "rs_committed st' = new" "\<forall>entry \<in> set new. chunk_ok (snd entry)"
        "rs_current st' = foldl commit_entry current new"
        "rs_saved st' = (if new = [] then rs_saved st else Some (Some (serialize_state (rs_current st'))))"
      unfolding cursors_follow_def by (elim exE conjE) (simp add: assms(2))
    have "state_ok (foldl commit_entry current new)" by (rule commit_entries_ok [OF loaded_state_ok [OF assms(3)] n(2)])
    with n assms(3) show ?thesis by (simp add: state_loads)
  qed
qed

section \<open>The properties of a run\<close>


text \<open>A run over one source whose file holds no complete line yet: its cursor is saved, with no event.\<close>

definition sample_run :: "server_world run" where
  "sample_run = \<lparr>rn_delivery = sample_delivery, rn_context = sample_context, rn_parse_dt = (\<lambda>_. None), rn_windows = True,
     rn_sources = [''checkins''], rn_view = (\<lambda>_ _. still_file (1, 2) (octets_of ''partial'')), rn_chunk_lines = 2000, rn_max_chunks = 100\<rparr>"

definition sample_start :: "server_world rstate" where
  "sample_start = \<lparr>rs_delivery = sample_delivery_state [], rs_cache = sample_cache, rs_current = empty_state, rs_saved = None,
     rs_counters = new_counters, rs_reads = 0, rs_committed = [], rs_sent = 0\<rparr>"

lemma sample_turn: "\<exists>chunk. one_turn sample_run ''checkins'' None (sample_start\<lparr>rs_current := c\<rparr>)
    = (Skip, save_cursor ''checkins'' chunk \<lparr>ss_identity = Some (1, 2), ss_offset = 0\<rparr>
        (count_read chunk (sample_start\<lparr>rs_current := c, rs_reads := 1\<rparr>))) \<and> sc_cursor chunk = Some \<lparr>cur_identity = Some (1, 2), cur_offset = 0\<rparr>"
proof -
  have "read_loop 2000 (octets_of ''partial'') = []" unfolding read_loop_take by (simp add: octets_of_def read_all_none newline_byte_def)
  then have "read_chunk True (still_file (1, 2) (octets_of ''partial'')) None 2000 = \<lparr>cd_lines = [], cd_cursor = Some \<lparr>cur_identity = Some (1, 2), cur_offset = 0\<rparr>,
      cd_existed = True, cd_rotated = False, cd_truncated = False, cd_more = False\<rparr>"
    by (simp add: read_chunk_def still_file_def start_point_def)
  then show ?thesis
    by (simp add: one_turn_def sample_run_def sample_start_def read_next_chunk_def transform_some_def Let_def empty_turn_def at_cursor_def
        mk_source_state_def max_plausible_offset_def) (intro exI conjI, rule refl, simp)
qed


section \<open>The whole run\<close>

text \<open>Python's \<open>round\<close>: to the nearest integer, ties to the even one.\<close>

definition py_round :: "rat \<Rightarrow> int" where
  "py_round r =
     (let low = \<lfloor>r\<rfloor>; rest = r - of_int low in
      if rest < 1 / 2 then low else if rest > 1 / 2 then low + 1 else if even low then low else low + 1)"

definition elapsed_ms :: "rat \<Rightarrow> rat \<Rightarrow> int" where
  "elapsed_ms started finished = max 0 (min (py_round ((finished - started) * 1000)) max_run_duration_ms)"

record 'w invocation =
  iv_config :: collector_config
  iv_v2 :: v2_config
  iv_post :: "http_request \<Rightarrow> 'w \<Rightarrow> http_answer \<times> 'w"
  iv_parse_dt :: "string \<Rightarrow> int option"
  iv_windows :: bool
  iv_sources :: "string list"
  iv_view :: "string \<Rightarrow> nat \<Rightarrow> file_view"
  iv_now :: instant
  iv_started :: rat
  iv_finished :: rat
  iv_schedule :: schedule_diagnostics

definition run_of :: "'w invocation \<Rightarrow> runtime \<Rightarrow> 'w run" where
  "run_of iv rt = \<lparr>rn_delivery = \<lparr>dl_post = iv_post iv, dl_config = iv_config iv, dl_key_id = vc_key_id (iv_v2 iv),
       dl_max_events = nat (vc_max_events_per_request (iv_v2 iv)), dl_today = iso_date (ord_of (iv_now iv))\<rparr>,
     rn_context = rt_context rt, rn_parse_dt = iv_parse_dt iv, rn_windows = iv_windows iv, rn_sources = iv_sources iv, rn_view = iv_view iv,
     rn_chunk_lines = nat (vc_chunk_lines (iv_v2 iv)), rn_max_chunks = nat (vc_max_chunks_per_run (iv_v2 iv))\<rparr>"

text \<open>The purges of a run's start, then the sources.\<close>

definition start_state_of :: "machine \<Rightarrow> runtime \<Rightarrow> 'w \<Rightarrow> 'w rstate" where
  "start_state_of m rt w = \<lparr>rs_delivery = \<lparr>ds_world = w, ds_quarantine = prune_and_save (rt_quarantine rt), ds_totals = new_totals\<rparr>,
     rs_cache = fst (purge_holds (fst (cache_purge (rt_cache rt)))), rs_current = empty_state, rs_saved = mc_state_file m,
     rs_counters = new_counters, rs_reads = 0, rs_committed = [], rs_sent = 0\<rparr>"

definition run_body :: "'w invocation \<Rightarrow> machine \<Rightarrow> 'w \<Rightarrow> run_end \<times> 'w rstate option" where
  "run_body iv m w =
     (case build_runtime (iv_v2 iv) m (iv_now iv) of
        Inl e \<Rightarrow> (Raised_error e, None)
      | Inr rt \<Rightarrow> map_prod id Some (process_sources (run_of iv rt) (start_state_of m rt w)))"

definition run_failure :: "run_end \<Rightarrow> string option" where
  "run_failure e = (case e of Completed \<Rightarrow> None | Ended f \<Rightarrow> Some f | Raised_error r \<Rightarrow> Some (failure_category r))"

definition prior_quarantined :: "(string \<times> json) list \<Rightarrow> int" where
  "prior_quarantined prior = (case jget_or prior ''quarantined_count'' (JInt 0) of JInt n \<Rightarrow> n | JBool b \<Rightarrow> of_bool b | _ \<Rightarrow> 0)"

record 'w run_result =
  rr_exit :: int
  rr_status_file :: "(string \<times> json) list"
  rr_snapshot :: "status_snapshot option" \<comment> \<open>\<open>None\<close>: its constructor refused\<close>
  rr_world :: 'w
  rr_state :: "'w rstate option"

definition run_once :: "'w invocation \<Rightarrow> machine \<Rightarrow> 'w \<Rightarrow> 'w run_result" where
  "run_once iv m w =
     (let prior = load_status (mc_status_file m); (prior_failures, prior_success) = parse_prior prior;
          (run_end, final) = run_body iv m w; failure = run_failure run_end;
          t = (case final of None \<Rightarrow> new_totals | Some st \<Rightarrow> ds_totals (rs_delivery st));
          ct = (case final of None \<Rightarrow> new_counters | Some st \<Rightarrow> rs_counters st);
          w1 = (case final of None \<Rightarrow> w | Some st \<Rightarrow> ds_world (rs_delivery st));
          held = (case final of None \<Rightarrow> prior_quarantined prior | Some st \<Rightarrow> int (length (qn_entries (ds_quarantine (rs_delivery st)))));
          consecutive = (if failure = None then 0 else prior_failures + 1);
          (health, error_class) = decide failure (to_quarantined_conflict t + to_quarantined_invalid t) (to_sources_missing t) consecutive
              (vc_error_after (iv_v2 iv));
          last_success = (if failure = None then Some (iv_now iv) else prior_success);
          status = local_status_document (iv_now iv) (failure = None) health error_class consecutive last_success
              (List.map (map_prod id int) (counters_flat ct) @ totals_flat t) held;
          code = (if failure = None then 0 else if failure = Some config then 2 else 1)
      in case mk_snapshot health error_class held (map_option (\<lambda>s. Aware s 0) last_success) (Some (Aware (iv_now iv) 0)) 0
           (map_option (\<lambda>s. Aware s 0) (sd_last_run_at (iv_schedule iv))) (map_option (\<lambda>s. Aware s 0) (sd_next_run_at (iv_schedule iv)))
           (Some (elapsed_ms (iv_started iv) (iv_finished iv))) (Some (sd_status (iv_schedule iv))) of
           Inl _ \<Rightarrow> \<lparr>rr_exit = 1, rr_status_file = status, rr_snapshot = None, rr_world = w1, rr_state = final\<rparr>
         | Inr snapshot \<Rightarrow> \<lparr>rr_exit = code, rr_status_file = status, rr_snapshot = Some snapshot,
             rr_world = snd (post_status (iv_post iv) (iv_config iv) (vc_key_id (iv_v2 iv)) snapshot w1), rr_state = final\<rparr>)"

lemma parsed_success_calendar: "parse_prior document = (n, Some t) \<Longrightarrow> in_calendar t"
  by (auto simp: parse_prior_def split: json.splits intro: strptime_calendar)

lemma parsed_failures: "0 \<le> fst (parse_prior document)"
  by (auto simp: parse_prior_def split: json.splits)

lemma elapsed_ms_bounds: "0 \<le> elapsed_ms a b \<and> elapsed_ms a b \<le> max_run_duration_ms"
  by (simp add: elapsed_ms_def max_run_duration_ms_def)

lemma mk_snapshot_exists:
  assumes "decide failure q m n k = (health, cls)" "sched \<in> set schedule_statuses" "0 \<le> d" "d \<le> max_run_duration_ms"
  shows "(\<exists>s. mk_snapshot health cls held (map_option (\<lambda>s. Aware s 0) a) (Some (Aware now 0)) 0 (map_option (\<lambda>s. Aware s 0) b)
      (map_option (\<lambda>s. Aware s 0) c) (Some d) (Some sched) = Inr s) \<longleftrightarrow> 0 \<le> held \<and> held \<le> max_counter"
  using decide_ok [OF assms(1)] assms(2-4) aware_Some by (auto simp: mk_snapshot_def check_field_def max_counter_def)


text \<open>A machine with no secret, whose status file records two failures: the run fails as a configuration problem, and says so.\<close>

definition bare_machine :: machine where
  "bare_machine = \<lparr>mc_host = sample_host, mc_secret = sample_folder\<lparr>sf_presence := Absent\<rparr>, mc_rules_file = None, mc_cache = sample_cache,
     mc_quarantine_file = None, mc_state_file = None, mc_status_file = Some (Some (JObj [(''consecutive_failures'', JInt 2)])),
     mc_zone = sample_zone, mc_fresh_ruleset_id = ''8f14e45f-ceea-467f-9d2c-0a3d2a5b6c7d''\<rparr>"

definition sample_v2 :: v2_config where
  "sample_v2 = \<lparr>vc_key_id = sample_key_id, vc_timezone = ''America/Chicago'', vc_secret_path = PathOf ''secret.bin'', vc_rules_path = PathOf ''rules.json'',
     vc_patron_cache_path = PathOf ''cache.sqlite'', vc_quarantine_path = PathOf ''quarantine.json'', vc_state_path = PathOf ''state.json'',
     vc_status_path = PathOf ''status.json'', vc_chunk_lines = 2000, vc_max_events_per_request = 1000, vc_max_chunks_per_run = 100,
     vc_request_interval_seconds = 1, vc_patron_ttl_days = 30, vc_patron_cache_max_rows = 1000, vc_hold_ledger_days = 30, vc_hold_ledger_max_rows = 1000,
     vc_quarantine_max_entries = 100, vc_dry_run_tail_bytes = 1000, vc_error_after = 3\<rparr>"

definition silent_invocation :: "unit invocation" where
  "silent_invocation = \<lparr>iv_config = \<lparr>cc_api_url = [], cc_api_token = [], cc_http_connect_timeout = 5, cc_http_read_timeout = 30\<rparr>, iv_v2 = sample_v2,
     iv_post = (\<lambda>q w. (RequestException, w)), iv_parse_dt = (\<lambda>_. None), iv_windows = True, iv_sources = [], iv_view = (\<lambda>_ _. still_file (1, 2) []),
     iv_now = 1714557600123456, iv_started = 0, iv_finished = 3 / 2, iv_schedule = query_failed\<rparr>"


end
