(* ===== verification/AgentBase.thy ===== *)
theory AgentBase
  imports V2Reader V2Identity
begin

text \<open>
  The ground layer of the continuous agent: what its modules raise, file identity and the tailer
  (agent/discovery.py, agent/tailer.py), the durable read position (agent/state.py) and the identity of
  a source record (agent/event_identity.py). An operation that mutates and may raise is an \<open>action\<close>: it
  returns its value or an exception together with the state it leaves behind, so that a raise halfway
  keeps the changes made before it. The state file is seen through what reading it gives: \<open>None\<close> when
  there is none, \<open>Some None\<close> when it is unreadable or not JSON, else the document.
\<close>

section \<open>Exceptions and actions\<close>

datatype agent_exn = OsError | ValueErr | CorruptBatch | CorruptAgentState | UnsupportedSchema | IdentityErr | AttributeErr | KeyErr | RuntimeErr

type_synonym ('s, 'a) action = "'s \<Rightarrow> (agent_exn + 'a) \<times> 's"

definition give :: "'a \<Rightarrow> ('s, 'a) action" where
  "give a = (\<lambda>s. (Inr a, s))"

definition fail :: "agent_exn \<Rightarrow> ('s, 'a) action" where
  "fail e = (\<lambda>s. (Inl e, s))"

definition chain :: "('s, 'a) action \<Rightarrow> ('a \<Rightarrow> ('s, 'b) action) \<Rightarrow> ('s, 'b) action" where
  "chain m f = (\<lambda>s. case m s of (Inl e, s') \<Rightarrow> (Inl e, s') | (Inr a, s') \<Rightarrow> f a s')"

definition update :: "('s \<Rightarrow> 's) \<Rightarrow> ('s, unit) action" where
  "update f = (\<lambda>s. (Inr (), f s))"

text \<open>A triple: from \<open>P\<close>, a normal end satisfies \<open>Q\<close> of the value and the state, a raise leaves a state in \<open>E\<close>.\<close>

definition triple :: "('s \<Rightarrow> bool) \<Rightarrow> ('s, 'a) action \<Rightarrow> ('a \<Rightarrow> 's \<Rightarrow> bool) \<Rightarrow> ('s \<Rightarrow> bool) \<Rightarrow> bool" where
  "triple P m Q E \<longleftrightarrow> (\<forall>s. P s \<longrightarrow> (case m s of (Inl _, s') \<Rightarrow> E s' | (Inr a, s') \<Rightarrow> Q a s'))"

lemma triple_give: "(\<And>s. P s \<Longrightarrow> Q a s) \<Longrightarrow> triple P (give a) Q E"
  by (simp add: triple_def give_def)

lemma triple_fail: "(\<And>s. P s \<Longrightarrow> E s) \<Longrightarrow> triple P (fail e) Q E"
  by (simp add: triple_def fail_def)

lemma triple_update: "(\<And>s. P s \<Longrightarrow> Q () (f s)) \<Longrightarrow> triple P (update f) Q E"
  by (simp add: triple_def update_def)

lemma triple_chain: "\<lbrakk>triple P m R E; \<And>a. triple (R a) (f a) Q E\<rbrakk> \<Longrightarrow> triple P (chain m f) Q E"
  unfolding triple_def chain_def by (fastforce split: prod.splits sum.splits)

lemma triple_weaken:
  "\<lbrakk>triple P' m Q' E'; \<And>s. P s \<Longrightarrow> P' s; \<And>a s. Q' a s \<Longrightarrow> Q a s; \<And>s. E' s \<Longrightarrow> E s\<rbrakk> \<Longrightarrow> triple P m Q E"
  unfolding triple_def by (fastforce split: prod.splits sum.splits)

lemma triple_Inr: "\<lbrakk>triple P m Q E; P s; m s = (Inr a, s')\<rbrakk> \<Longrightarrow> Q a s'"
  unfolding triple_def by fastforce

lemma triple_Inl: "\<lbrakk>triple P m Q E; P s; m s = (Inl e, s')\<rbrakk> \<Longrightarrow> E s'"
  unfolding triple_def by fastforce

lemma triple_snd: "\<lbrakk>triple P m (\<lambda>_. E) E; P s\<rbrakk> \<Longrightarrow> E (snd (m s))"
  unfolding triple_def by (cases "m s"; cases "fst (m s)") fastforce+

section \<open>Identity and tailing (agent/discovery.py, agent/tailer.py)\<close>

type_synonym source_identity = "int list" \<comment> \<open>the opaque token\<close>

record file_cursor =
  fc_identity :: "source_identity option"
  fc_offset :: nat

definition identify :: "file_view \<Rightarrow> source_identity option" where
  "identify view = map_option (\<lambda>(dev, ino). [dev, ino]) (fv_identity view)"

record tail_result =
  tl_lines :: "string list"
  tl_line_offsets :: "nat list"
  tl_cursor :: file_cursor
  tl_existed :: bool
  tl_rotated :: bool
  tl_truncated :: bool

text \<open>Where each of the lines read from an offset on begins.\<close>

fun line_starts :: "nat \<Rightarrow> octets list \<Rightarrow> nat list" where
  "line_starts start [] = []"
| "line_starts start (raw # raws) = start # line_starts (start + length raw) raws"

definition read_safe_lines :: "octets \<Rightarrow> nat \<Rightarrow> string list \<times> nat list \<times> nat" where
  "read_safe_lines bytes start =
     (let raws = read_all (drop start bytes) in
      (List.map decode_line raws, line_starts start raws, start + sum_list (List.map length raws)))"

definition no_read :: "file_cursor \<Rightarrow> tail_result" where
  "no_read cursor = \<lparr>tl_lines = [], tl_line_offsets = [], tl_cursor = cursor, tl_existed = False, tl_rotated = False, tl_truncated = False\<rparr>"

text \<open>The start of the read, whether the file rotated, whether it shrank; \<open>None\<close> when its size cannot be read.\<close>

definition tail_start :: "file_view \<Rightarrow> source_identity \<Rightarrow> file_cursor option \<Rightarrow> (nat \<times> bool \<times> bool) option" where
  "tail_start view current cursor =
     (case cursor of None \<Rightarrow> Some (0, False, False)
      | Some c \<Rightarrow>
          (case fc_identity c of None \<Rightarrow> Some (0, False, False)
           | Some known \<Rightarrow>
               if known \<noteq> current then Some (0, True, False)
               else (case fv_size view of None \<Rightarrow> None
                     | Some len \<Rightarrow> if len < fc_offset c then Some (0, False, True) else Some (fc_offset c, False, False))))"

definition tail_read :: "file_view \<Rightarrow> file_cursor option \<Rightarrow> tail_result" where
  "tail_read view cursor =
     (case identify view of
        None \<Rightarrow> no_read (case cursor of None \<Rightarrow> \<lparr>fc_identity = None, fc_offset = 0\<rparr> | Some c \<Rightarrow> c)
      | Some current \<Rightarrow>
          (let unchanged = (case cursor of None \<Rightarrow> \<lparr>fc_identity = Some current, fc_offset = 0\<rparr> | Some c \<Rightarrow> c) in
           case tail_start view current cursor of None \<Rightarrow> no_read unchanged
           | Some (start, rotated, truncated) \<Rightarrow>
               (case fv_bytes view of None \<Rightarrow> no_read unchanged
                | Some bytes \<Rightarrow>
                    (case read_safe_lines bytes start of (lines, offsets, end_offset) \<Rightarrow>
                       \<lparr>tl_lines = lines, tl_line_offsets = offsets,
                        tl_cursor = \<lparr>fc_identity = Some current, fc_offset = end_offset\<rparr>,
                        tl_existed = True, tl_rotated = rotated, tl_truncated = truncated\<rparr>))))"

lemma length_line_starts [simp]: "length (line_starts n raws) = length raws"
  by (induction raws arbitrary: n) simp_all

lemma line_starts_bounds: "\<lbrakk>o' \<in> set (line_starts n raws); \<forall>r \<in> set raws. r \<noteq> []\<rbrakk>
    \<Longrightarrow> n \<le> o' \<and> o' < n + sum_list (List.map length raws)"
  by (induction raws arbitrary: n) fastforce+

section \<open>The durable position (agent/state.py)\<close>

definition agent_schema_version :: int where
  "agent_schema_version = 3"

definition agent_max_offset :: int where
  "agent_max_offset = 10 ^ 18"

record agent_source =
  as_path :: string
  as_cursor :: file_cursor
  as_generation :: int

definition mk_agent_source :: "string \<Rightarrow> source_identity option \<Rightarrow> int \<Rightarrow> int \<Rightarrow> agent_exn + agent_source" where
  "mk_agent_source path identity offset generation =
     (if offset < 0 then Inl CorruptAgentState
      else if offset > agent_max_offset then Inl CorruptAgentState
      else if generation < 0 then Inl CorruptAgentState
      else Inr \<lparr>as_path = path, as_cursor = \<lparr>fc_identity = identity, fc_offset = nat offset\<rparr>, as_generation = generation\<rparr>)"

type_synonym agent_state = "(string \<times> agent_source) list" \<comment> \<open>the \<open>sources\<close> of the supported schema\<close>

definition agent_get_source :: "agent_state \<Rightarrow> string \<Rightarrow> agent_source option" where
  "agent_get_source st name = map_of st name"

definition agent_with_source :: "agent_state \<Rightarrow> string \<Rightarrow> agent_source \<Rightarrow> agent_state" where
  "agent_with_source st name source = AList.update name source st"

definition update_source :: "agent_state \<Rightarrow> string \<Rightarrow> string \<Rightarrow> file_cursor \<Rightarrow> int \<Rightarrow> agent_exn + agent_state" where
  "update_source st name path cursor generation =
     bind_result (mk_agent_source path (fc_identity cursor) (int (fc_offset cursor)) generation)
       (\<lambda>source. Inr (agent_with_source st name source))"

definition advance_generation :: "agent_source option \<Rightarrow> bool \<Rightarrow> bool \<Rightarrow> int" where
  "advance_generation prior rotated truncated =
     (case prior of None \<Rightarrow> 0 | Some p \<Rightarrow> if rotated \<or> truncated then as_generation p + 1 else as_generation p)"

definition path_changed :: "agent_source option \<Rightarrow> string \<Rightarrow> bool" where
  "path_changed source configured = (case source of None \<Rightarrow> False | Some s \<Rightarrow> as_path s \<noteq> configured)"

definition serialize_identity :: "source_identity option \<Rightarrow> json" where
  "serialize_identity identity = (case identity of None \<Rightarrow> JNull | Some token \<Rightarrow> JArr (List.map JInt token))"

fun json_int :: "json \<Rightarrow> int option" where
  "json_int (JInt n) = Some n"
| "json_int _ = None"

fun deserialize_identity :: "json \<Rightarrow> agent_exn + source_identity option" where
  "deserialize_identity JNull = Inr None"
| "deserialize_identity (JArr xs) =
     (case those (List.map json_int xs) of None \<Rightarrow> Inl CorruptAgentState | Some token \<Rightarrow> Inr (Some token))"
| "deserialize_identity _ = Inl CorruptAgentState"

text \<open>\<open>updated_at\<close> is the time of the write, which nothing reads back; on loading it must be a string or null.\<close>

definition serialize_agent_source :: "string \<Rightarrow> agent_source \<Rightarrow> json" where
  "serialize_agent_source now s =
     JObj [(''path'', JStr (as_path s)), (''identity'', serialize_identity (fc_identity (as_cursor s))),
       (''offset'', JInt (int (fc_offset (as_cursor s)))), (''generation'', JInt (as_generation s)), (''updated_at'', JStr now)]"

fun null_or_string :: "json \<Rightarrow> bool" where
  "null_or_string JNull \<longleftrightarrow> True"
| "null_or_string (JStr _) \<longleftrightarrow> True"
| "null_or_string _ \<longleftrightarrow> False"

definition deserialize_agent_source :: "json \<Rightarrow> agent_exn + agent_source" where
  "deserialize_agent_source raw =
     (case raw of
        JObj ms \<Rightarrow>
          (case jget ms ''path'' of
             JStr path \<Rightarrow>
               if path = [] then Inl CorruptAgentState
               else (case (jget ms ''offset'', jget ms ''generation'') of
                  (JInt offset, JInt generation) \<Rightarrow>
                    if offset < 0 \<or> generation < 0 then Inl CorruptAgentState
                    else bind_result (deserialize_identity (jget ms ''identity'')) (\<lambda>identity.
                      if null_or_string (jget ms ''updated_at'') then mk_agent_source path identity offset generation
                      else Inl CorruptAgentState)
                | _ \<Rightarrow> Inl CorruptAgentState)
           | _ \<Rightarrow> Inl CorruptAgentState)
      | _ \<Rightarrow> Inl CorruptAgentState)"

definition to_json_dict :: "string \<Rightarrow> agent_state \<Rightarrow> json" where
  "to_json_dict now st =
     JObj [(''schema_version'', JInt agent_schema_version),
       (''sources'', JObj (List.map (\<lambda>(name, s). (name, serialize_agent_source now s)) st))]"

definition from_json_dict :: "json \<Rightarrow> agent_exn + agent_state" where
  "from_json_dict raw =
     (case raw of
        JObj ms \<Rightarrow>
          if \<not> json_is_int (jget ms ''schema_version'') agent_schema_version then Inl UnsupportedSchema
          else (case jget ms ''sources'' of
             JObj entries \<Rightarrow>
               map_result (\<lambda>(name, entry). bind_result (deserialize_agent_source entry) (\<lambda>s. Inr (name, s))) entries
           | _ \<Rightarrow> Inl CorruptAgentState)
      | _ \<Rightarrow> Inl CorruptAgentState)"

definition load_agent_state :: "json option option \<Rightarrow> agent_exn + agent_state" where
  "load_agent_state content =
     (case content of None \<Rightarrow> Inr []
      | Some None \<Rightarrow> Inl CorruptAgentState
      | Some (Some doc) \<Rightarrow> from_json_dict doc)"

definition agent_source_ok :: "agent_source \<Rightarrow> bool" where
  "agent_source_ok s \<longleftrightarrow> as_path s \<noteq> [] \<and> int (fc_offset (as_cursor s)) \<le> agent_max_offset \<and> 0 \<le> as_generation s"

lemma mk_agent_source_Inr:
  "mk_agent_source path i off g = Inr s \<longleftrightarrow> 0 \<le> off \<and> off \<le> agent_max_offset \<and> 0 \<le> g
     \<and> s = \<lparr>as_path = path, as_cursor = \<lparr>fc_identity = i, fc_offset = nat off\<rparr>, as_generation = g\<rparr>"
  by (auto simp: mk_agent_source_def)

lemma those_json_ints [simp]: "those (List.map (json_int \<circ> JInt) token) = Some token"
  by (induction token) simp_all

lemma identity_roundtrip [simp]: "deserialize_identity (serialize_identity i) = Inr i"
  by (cases i) (simp_all add: serialize_identity_def)

lemma agent_source_roundtrip: "agent_source_ok s \<Longrightarrow> deserialize_agent_source (serialize_agent_source now s) = Inr s"
  by (cases s) (auto simp: agent_source_ok_def serialize_agent_source_def deserialize_agent_source_def mk_agent_source_def)

lemma agent_state_loads:
  assumes "\<forall>(name, s) \<in> set st. agent_source_ok s"
  shows "load_agent_state (Some (Some (to_json_dict now st))) = Inr st"
proof -
  have "map_result (\<lambda>(name, entry). bind_result (deserialize_agent_source entry) (\<lambda>s. Inr (name, s)))
      (List.map (\<lambda>(name, s). (name, serialize_agent_source now s)) st) = Inr (List.map id st)"
    using assms by (intro map_result_map) (auto simp: agent_source_roundtrip)
  then show ?thesis by (simp add: load_agent_state_def from_json_dict_def to_json_dict_def)
qed

lemma agent_source_loaded_ok: "deserialize_agent_source j = Inr s \<Longrightarrow> agent_source_ok s"
  by (auto simp: deserialize_agent_source_def agent_source_ok_def mk_agent_source_Inr split: json.splits if_splits)

lemma agent_state_loaded_ok: "load_agent_state content = Inr st \<Longrightarrow> \<forall>(name, s) \<in> set st. agent_source_ok s"
proof -
  assume l: "load_agent_state content = Inr st"
  have "\<forall>p \<in> set st. agent_source_ok (snd p)" if "map_result (\<lambda>(name, entry). bind_result (deserialize_agent_source entry) (\<lambda>s. Inr (name, s))) entries = Inr st"
    for entries :: "(string \<times> json) list"
    using that by (rule map_result_all) (auto dest: agent_source_loaded_ok)
  with l show ?thesis
    by (fastforce simp: load_agent_state_def from_json_dict_def split: option.splits json.splits if_splits)
qed

section \<open>The identity of a record (agent/event_identity.py)\<close>

definition canonical_identity_string :: "string \<Rightarrow> string \<Rightarrow> int \<Rightarrow> int \<Rightarrow> agent_exn + string" where
  "canonical_identity_string agent_id source generation start_offset =
     (if agent_id = [] then Inl IdentityErr
      else if source = [] then Inl IdentityErr
      else if CHR ''|'' \<in> set agent_id \<or> CHR ''|'' \<in> set source then Inl IdentityErr
      else if generation < 0 then Inl IdentityErr
      else if start_offset < 0 then Inl IdentityErr
      else Inr (join_with ''|'' [agent_id, source, show_nat (nat generation), show_nat (nat start_offset)]))"

definition compute_source_event_id :: "string \<Rightarrow> string \<Rightarrow> int \<Rightarrow> int \<Rightarrow> agent_exn + string" where
  "compute_source_event_id agent_id source generation start_offset =
     bind_result (canonical_identity_string agent_id source generation start_offset)
       (\<lambda>canonical. Inr (to_hex (sha256 (encode_text canonical))))"

lemma show_nat_no_bar: "CHR ''|'' \<notin> set (show_nat n)"
  using show_nat_digits [of n] by (auto simp: list_all_iff is_digit_def char_code_def)

lemma canonical_identity_inj:
  assumes "canonical_identity_string a s g n = Inr c" "canonical_identity_string a' s' g' n' = Inr c"
  shows "a = a' \<and> s = s' \<and> g = g' \<and> n = n'"
proof -
  have "split_on (CHR ''|'') c = [x, y, show_nat (nat i), show_nat (nat j)]" if "canonical_identity_string x y i j = Inr c" for x y i j
  proof -
    from that have c: "c = join_with ''|'' [x, y, show_nat (nat i), show_nat (nat j)]" "CHR ''|'' \<notin> set x" "CHR ''|'' \<notin> set y"
      by (auto simp: canonical_identity_string_def simp del: show_nat.simps join_with.simps split: if_splits)
    show ?thesis unfolding c(1) by (rule split_join) (use c show_nat_no_bar in \<open>auto simp del: show_nat.simps\<close>)
  qed
  note parts = this [OF assms(1)] this [OF assms(2)]
  have "0 \<le> g" "0 \<le> n" "0 \<le> g'" "0 \<le> n'" using assms by (auto simp: canonical_identity_string_def split: if_splits)
  with parts show ?thesis using show_nat_inj [of "nat g" "nat g'"] show_nat_inj [of "nat n" "nat n'"] by (simp add: eq_nat_nat_iff)
qed

text \<open>The identity of a source record is stable and its own: computing it twice from the same inputs gives the same 64
  hexadecimal digits, and two records with the same identity have the same installation, source, generation and offset, or
  their two canonical strings are a collision of the hash.\<close>

lemma source_event_id_identity:
  assumes "compute_source_event_id a s g n = Inr x" "compute_source_event_id a' s' g' n' = Inr x"
  shows "length x = 64 \<and> list_all is_hex_char x
    \<and> (a = a' \<and> s = s' \<and> g = g' \<and> n = n'
       \<or> (\<exists>c c'. c \<noteq> c' \<and> canonical_identity_string a s g n = Inr c \<and> canonical_identity_string a' s' g' n' = Inr c'
            \<and> sha256 (encode_text c) = sha256 (encode_text c')))"
proof -
  from assms obtain c c' where c: "canonical_identity_string a s g n = Inr c" "x = to_hex (sha256 (encode_text c))"
    "canonical_identity_string a' s' g' n' = Inr c'" "x = to_hex (sha256 (encode_text c'))"
    by (auto simp: compute_source_event_id_def)
  have h: "sha256 (encode_text c) = sha256 (encode_text c')" using c(2,4) to_hex_inj by simp
  show ?thesis
  proof (cases "c = c'")
    case True
    with c canonical_identity_inj [of a s g n c a' s' g' n'] show ?thesis by (simp add: length_to_hex to_hex_is_hex)
  next
    case False
    with c h show ?thesis by (simp add: length_to_hex to_hex_is_hex)
  qed
qed

lemma source_event_id_identity_witness:
  "\<exists>x. compute_source_event_id ''agent'' ''acs'' 12 8001234 = Inr x \<and> length x = 64"
proof -
  obtain x where x: "compute_source_event_id ''agent'' ''acs'' 12 8001234 = Inr x"
    by (simp add: compute_source_event_id_def canonical_identity_string_def)
  from source_event_id_identity [OF x x] x show ?thesis by blast
qed

end
