(* ===== verification/AgentSpool.thy ===== *)
theory AgentSpool
  imports AgentBase "HOL-Library.Multiset"
begin

text \<open>
  The durable spool of the continuous agent, agent/spool.py. The disk is a record of directory listings,
  one per source and purpose, with the files' parsed content; a file that is not UTF-8 is told apart from
  one that cannot be read, as the code does. Every write draws the next fault: it works, fails before the
  file is in place, or fails after (the directory \<open>fsync\<close>). What makes names distinct (time, process
  counter and random part) is the argument \<open>stamps\<close>, read at the number of names drawn so far. The
  lemmas show that file names sort as their batches do within the fixed widths and not beyond, what each
  operation leaves on the disk whether it raises or not, and which content is quarantined or fails.
\<close>

section \<open>The disk\<close>

datatype spool_line = BlankLine | BadLine | JsonLine json

datatype spool_file = Unreadable | NotUtf8 | SpoolText "spool_line list"

type_synonym spool_event = "(string \<times> json) list"

datatype fault = Works | FailsBefore | FailsAfter

type_synonym attempts_file = "json option" \<comment> \<open>\<open>None\<close>: unreadable or not JSON\<close>

record disk =
  dk_pending :: "string \<Rightarrow> (string \<times> spool_file) list"
  dk_attempts :: "string \<Rightarrow> (string \<times> attempts_file) list"
  dk_quarantine :: "string \<Rightarrow> (string \<times> spool_file) list"
  dk_held_attempts :: "string \<Rightarrow> (string \<times> attempts_file) list"
  dk_reasons :: "string \<Rightarrow> (string \<times> string) list"
  dk_state :: "json option option"
  dk_names :: nat
  dk_faults :: "fault list"

definition draw_fault :: "disk \<Rightarrow> fault \<times> disk" where
  "draw_fault d = (case dk_faults d of [] \<Rightarrow> (Works, d) | f # fs \<Rightarrow> (f, d\<lparr>dk_faults := fs\<rparr>))"

text \<open>\<open>_atomic_write_bytes\<close> with what it installs; and a rename or removal, which has nothing after it.\<close>

definition install :: "(disk \<Rightarrow> disk) \<Rightarrow> (disk, unit) action" where
  "install f = (\<lambda>d. case draw_fault d of
      (Works, d) \<Rightarrow> (Inr (), f d)
    | (FailsBefore, d) \<Rightarrow> (Inl OsError, d)
    | (FailsAfter, d) \<Rightarrow> (Inl OsError, f d))"

definition move :: "(disk \<Rightarrow> disk) \<Rightarrow> (disk, unit) action" where
  "move f = (\<lambda>d. case draw_fault d of (FailsBefore, d) \<Rightarrow> (Inl OsError, d) | (_, d) \<Rightarrow> (Inr (), f d))"

definition draw_name :: "(nat \<Rightarrow> 'a) \<Rightarrow> (disk, 'a) action" where
  "draw_name stamps = (\<lambda>d. (Inr (stamps (dk_names d)), d\<lparr>dk_names := dk_names d + 1\<rparr>))"

section \<open>Names\<close>

type_synonym stamp = "nat \<times> nat \<times> string" \<comment> \<open>nanoseconds, process counter, random part\<close>

definition zero_fill :: "nat \<Rightarrow> nat \<Rightarrow> string" where
  "zero_fill w n = (let s = show_nat n in replicate (w - length s) (CHR ''0'') @ s)"

definition generation_width :: nat where "generation_width = 6"
definition offset_width :: nat where "offset_width = 20"

definition ndjson :: string where "ndjson = ''.ndjson''"

fun name_tail :: "stamp \<Rightarrow> string" where
  "name_tail (ns, seq, rand) = show_nat ns @ ''-'' @ zero_fill 10 seq @ ''-'' @ rand"

definition new_batch_filename :: "stamp \<Rightarrow> nat \<Rightarrow> nat \<Rightarrow> nat \<Rightarrow> string" where
  "new_batch_filename stamp generation start_offset end_offset =
     ''batch-'' @ zero_fill generation_width generation @ ''-'' @ zero_fill offset_width start_offset @ ''-''
       @ zero_fill offset_width end_offset @ ''-'' @ name_tail stamp @ ndjson"

text \<open>\<open>int(text)\<close>: blanks around, a sign, digits with single underscores between them.\<close>

definition plain_int :: "string \<Rightarrow> nat option" where
  "plain_int s =
     (let parts = split_on (CHR ''_'') s in
      if list_all (\<lambda>p. p \<noteq> [] \<and> list_all is_digit p) parts then Some (read_digits (concat parts)) else None)"

definition py_int :: "string \<Rightarrow> int option" where
  "py_int s =
     (case py_strip s of
        [] \<Rightarrow> None
      | c # rest \<Rightarrow>
          if c = CHR ''-'' then map_option (\<lambda>n. - int n) (plain_int rest)
          else if c = CHR ''+'' then map_option int (plain_int rest)
          else map_option int (plain_int (c # rest)))"

record batch_metadata =
  bm_generation :: int
  bm_start_offset :: int
  bm_end_offset :: int
  bm_created_at :: string

text \<open>\<open>created_at\<close> is \<open>datetime.fromtimestamp\<close> of the nanoseconds, printed; \<open>None\<close> when out of its range.\<close>

definition parse_batch_filename :: "(int \<Rightarrow> string option) \<Rightarrow> string \<Rightarrow> batch_metadata option" where
  "parse_batch_filename from_ns name =
     (if \<not> suffix ndjson name then None
      else case split_on (CHR ''-'') (take (length name - length ndjson) name) of
          b # g # s # e # n # _ \<Rightarrow>
            if b \<noteq> ''batch'' then None
            else (case (py_int g, py_int s, py_int e, py_int n) of
               (Some generation, Some start, Some end_offset, Some ns) \<Rightarrow>
                 map_option (\<lambda>made. \<lparr>bm_generation = generation, bm_start_offset = start, bm_end_offset = end_offset,
                   bm_created_at = made\<rparr>) (from_ns ns)
             | _ \<Rightarrow> None)
        | _ \<Rightarrow> None)"

section \<open>Writing and enumerating\<close>

definition batch_text :: "spool_event list \<Rightarrow> spool_file" where
  "batch_text records = SpoolText (List.map (\<lambda>r. JsonLine (JObj r)) records)"

definition max_batch_offset :: int where
  "max_batch_offset = 10 ^ 20 - 1"

definition put_pending :: "string \<Rightarrow> string \<Rightarrow> spool_file \<Rightarrow> disk \<Rightarrow> disk" where
  "put_pending source name content d =
     d\<lparr>dk_pending := (dk_pending d)(source := AList.update name content (dk_pending d source))\<rparr>"

definition write_batch :: "(nat \<Rightarrow> stamp) \<Rightarrow> string \<Rightarrow> spool_event list \<Rightarrow> int \<Rightarrow> int \<Rightarrow> int \<Rightarrow> (disk, string) action" where
  "write_batch stamps source records generation start_offset end_offset =
     (if records = [] then fail ValueErr
      else if generation < 0 then fail ValueErr
      else if end_offset \<le> start_offset then fail ValueErr
      else if start_offset > max_batch_offset \<or> end_offset > max_batch_offset then fail ValueErr
      else chain (draw_name stamps) (\<lambda>stamp.
        let name = new_batch_filename stamp (nat generation) (nat start_offset) (nat end_offset) in
        chain (install (put_pending source name (batch_text records))) (\<lambda>_. give name)))"

definition list_pending_batches :: "disk \<Rightarrow> string \<Rightarrow> string list" where
  "list_pending_batches d source = sort (filter (suffix ndjson) (List.map fst (dk_pending d source)))"

section \<open>Reading\<close>

fun batch_records :: "spool_line list \<Rightarrow> agent_exn + spool_event list" where
  "batch_records [] = Inr []"
| "batch_records (line # rest) =
     (case line of
        BlankLine \<Rightarrow> batch_records rest
      | BadLine \<Rightarrow> Inl CorruptBatch
      | JsonLine (JObj r) \<Rightarrow> bind_result (batch_records rest) (\<lambda>rs. Inr (r # rs))
      | JsonLine _ \<Rightarrow> Inl CorruptBatch)"

definition read_batch :: "spool_file option \<Rightarrow> agent_exn + spool_event list" where
  "read_batch content =
     (case content of
        None \<Rightarrow> Inl CorruptBatch \<comment> \<open>no such file\<close>
      | Some Unreadable \<Rightarrow> Inl CorruptBatch
      | Some NotUtf8 \<Rightarrow> Inl ValueErr \<comment> \<open>\<open>UnicodeDecodeError\<close> is no \<open>OSError\<close>\<close>
      | Some (SpoolText lines) \<Rightarrow> batch_records lines)"

definition spool_stem :: "string \<Rightarrow> string" where
  "spool_stem name = take (length name - length ndjson) name"

text \<open>The reason is what the sidecar says; its time is not modelled.\<close>

definition put_reason :: "string \<Rightarrow> string \<Rightarrow> string \<Rightarrow> disk \<Rightarrow> disk" where
  "put_reason source name reason d =
     d\<lparr>dk_reasons := (dk_reasons d)(source := AList.update name reason (dk_reasons d source))\<rparr>"

definition move_to_quarantine :: "string \<Rightarrow> string \<Rightarrow> string \<Rightarrow> disk \<Rightarrow> disk" where
  "move_to_quarantine source name dest d =
     (case map_of (dk_pending d source) name of None \<Rightarrow> d
      | Some content \<Rightarrow>
          d\<lparr>dk_pending := (dk_pending d)(source := AList.delete name (dk_pending d source)),
            dk_quarantine := (dk_quarantine d)(source := AList.update dest content (dk_quarantine d source))\<rparr>)"

definition move_attempts :: "string \<Rightarrow> string \<Rightarrow> disk \<Rightarrow> disk" where
  "move_attempts source name d =
     (case map_of (dk_attempts d source) name of None \<Rightarrow> d
      | Some content \<Rightarrow>
          d\<lparr>dk_attempts := (dk_attempts d)(source := AList.delete name (dk_attempts d source)),
            dk_held_attempts := (dk_held_attempts d)(source := AList.update name content (dk_held_attempts d source))\<rparr>)"

text \<open>\<open>contextlib.suppress(OSError)\<close>\<close>

definition suppressed :: "(disk, unit) action \<Rightarrow> (disk, unit) action" where
  "suppressed m = (\<lambda>d. (Inr (), snd (m d)))"

definition quarantine_batch :: "(nat \<Rightarrow> stamp) \<Rightarrow> string \<Rightarrow> string \<Rightarrow> string \<Rightarrow> (disk, string) action" where
  "quarantine_batch stamps source name reason = (\<lambda>d.
     (let taken = (map_of (dk_quarantine d source) name \<noteq> None) in
      chain (if taken then chain (draw_name stamps) (\<lambda>(_, _, rand). give (spool_stem name @ ''-dup-'' @ rand @ ndjson)) else give name) (\<lambda>dest.
      chain (if map_of (dk_pending d source) name = None then fail OsError else move (move_to_quarantine source name dest)) (\<lambda>_.
      chain (install (put_reason source dest reason)) (\<lambda>_.
      chain (\<lambda>d. if map_of (dk_attempts d source) name = None then (Inr (), d) else suppressed (move (move_attempts source name)) d) (\<lambda>_.
      give dest)))) d))"

definition read_batch_or_quarantine :: "(nat \<Rightarrow> stamp) \<Rightarrow> string \<Rightarrow> string \<Rightarrow> (disk, spool_event list option) action" where
  "read_batch_or_quarantine stamps source name = (\<lambda>d.
     case read_batch (map_of (dk_pending d source) name) of
        Inr records \<Rightarrow> (Inr (Some records), d)
      | Inl CorruptBatch \<Rightarrow> chain (quarantine_batch stamps source name ''corrupt'') (\<lambda>_. give None) d
      | Inl e \<Rightarrow> (Inl e, d))"

definition drop_pending :: "string \<Rightarrow> string \<Rightarrow> disk \<Rightarrow> disk" where
  "drop_pending source name d = d\<lparr>dk_pending := (dk_pending d)(source := AList.delete name (dk_pending d source))\<rparr>"

definition drop_attempts :: "string \<Rightarrow> string \<Rightarrow> disk \<Rightarrow> disk" where
  "drop_attempts source name d = d\<lparr>dk_attempts := (dk_attempts d)(source := AList.delete name (dk_attempts d source))\<rparr>"

definition acknowledge :: "string \<Rightarrow> string \<Rightarrow> (disk, unit) action" where
  "acknowledge source name =
     chain (\<lambda>d. if map_of (dk_pending d source) name = None then (Inr (), d) else move (drop_pending source name) d) (\<lambda>_.
       (\<lambda>d. if map_of (dk_attempts d source) name = None then (Inr (), d) else move (drop_attempts source name) d))"

section \<open>Attempts\<close>

datatype failure_category = RetryableInfra | AuthFailure | PermanentRejection

fun category_value :: "failure_category \<Rightarrow> string" where
  "category_value RetryableInfra = ''retryable_infra''"
| "category_value AuthFailure = ''auth_failure''"
| "category_value PermanentRejection = ''permanent_rejection''"

record attempt_record =
  at_attempts :: int
  at_category :: json
  at_last_error :: json
  at_last_attempt_at :: json

definition no_attempts :: attempt_record where
  "no_attempts = \<lparr>at_attempts = 0, at_category = JNull, at_last_error = JNull, at_last_attempt_at = JNull\<rparr>"

text \<open>\<open>int(value)\<close> of a decoded member; \<open>None\<close> is a \<open>ValueError\<close> or \<open>TypeError\<close>.\<close>

fun int_of_json :: "json \<Rightarrow> int option" where
  "int_of_json (JInt n) = Some n"
| "int_of_json (JBool b) = Some (of_bool b)"
| "int_of_json (JFloat r) = Some (if 0 \<le> r then \<lfloor>r\<rfloor> else \<lceil>r\<rceil>)"
| "int_of_json (JStr s) = py_int s"
| "int_of_json _ = None"

text \<open>A document that is not an object has no \<open>get\<close>: the \<open>AttributeError\<close> is not among those caught.\<close>

definition load_attempts :: "attempts_file option \<Rightarrow> agent_exn + attempt_record" where
  "load_attempts content =
     (case content of
        None \<Rightarrow> Inr no_attempts
      | Some None \<Rightarrow> Inr no_attempts
      | Some (Some (JObj ms)) \<Rightarrow>
          (case int_of_json (jget_or ms ''attempts'' (JInt 0)) of
             None \<Rightarrow> Inr no_attempts
           | Some n \<Rightarrow> Inr \<lparr>at_attempts = n, at_category = jget ms ''category'', at_last_error = jget ms ''last_error'',
               at_last_attempt_at = jget ms ''last_attempt_at''\<rparr>)
      | Some (Some _) \<Rightarrow> Inl AttributeErr)"

definition attempts_document :: "attempt_record \<Rightarrow> json" where
  "attempts_document r = JObj [(''attempts'', JInt (at_attempts r)), (''category'', at_category r),
     (''last_error'', at_last_error r), (''last_attempt_at'', at_last_attempt_at r)]"

definition sanitize_error :: "string \<Rightarrow> string" where
  "sanitize_error text = (if length text \<le> 500 then text else take 500 text @ ''...<truncated>'')"

definition put_attempts :: "string \<Rightarrow> string \<Rightarrow> attempt_record \<Rightarrow> disk \<Rightarrow> disk" where
  "put_attempts source name r d =
     d\<lparr>dk_attempts := (dk_attempts d)(source := AList.update name (Some (attempts_document r)) (dk_attempts d source))\<rparr>"

definition record_attempt_failure :: "string \<Rightarrow> string \<Rightarrow> string \<Rightarrow> string \<Rightarrow> failure_category \<Rightarrow> (disk, attempt_record) action" where
  "record_attempt_failure now source name error category = (\<lambda>d.
     case load_attempts (map_of (dk_attempts d source) name) of
        Inl e \<Rightarrow> (Inl e, d)
      | Inr prior \<Rightarrow>
          (let updated = \<lparr>at_attempts = at_attempts prior + 1, at_category = JStr (category_value category),
                 at_last_error = JStr (sanitize_error error), at_last_attempt_at = JStr now\<rparr>
           in chain (install (put_attempts source name updated)) (\<lambda>_. give updated) d))"

section \<open>Isolated records and statistics\<close>

definition put_quarantine :: "string \<Rightarrow> string \<Rightarrow> spool_file \<Rightarrow> disk \<Rightarrow> disk" where
  "put_quarantine source name content d =
     d\<lparr>dk_quarantine := (dk_quarantine d)(source := AList.update name content (dk_quarantine d source))\<rparr>"

definition quarantine_records :: "(nat \<Rightarrow> stamp) \<Rightarrow> string \<Rightarrow> spool_event list \<Rightarrow> string \<Rightarrow> (disk, string) action" where
  "quarantine_records stamps source records reason =
     (if records = [] then fail ValueErr
      else chain (draw_name stamps) (\<lambda>stamp.
        let dest = ''isolated-'' @ name_tail stamp @ ndjson in
        chain (install (put_quarantine source dest (batch_text records))) (\<lambda>_.
        chain (install (put_reason source dest reason)) (\<lambda>_. give dest))))"

record spool_stats =
  sn_pending_batch_count :: nat
  sn_pending_bytes :: nat
  sn_oldest_pending_created_at :: "string option"
  sn_quarantined_batch_count :: nat
  sn_quarantined_bytes :: nat

definition get_spool_stats :: "(spool_file \<Rightarrow> nat) \<Rightarrow> (int \<Rightarrow> string option) \<Rightarrow> disk \<Rightarrow> string \<Rightarrow> spool_stats" where
  "get_spool_stats st_size from_ns d source =
     (let pending = list_pending_batches d source;
          size_of = (\<lambda>files name. case map_of files name of None \<Rightarrow> 0 | Some content \<Rightarrow> st_size content);
          held = filter (suffix ndjson) (List.map fst (dk_quarantine d source))
      in \<lparr>sn_pending_batch_count = length pending,
          sn_pending_bytes = sum_list (List.map (size_of (dk_pending d source)) pending),
          sn_oldest_pending_created_at = (case pending of [] \<Rightarrow> None | p # _ \<Rightarrow> map_option bm_created_at (parse_batch_filename from_ns p)),
          sn_quarantined_batch_count = length held,
          sn_quarantined_bytes = sum_list (List.map (size_of (dk_quarantine d source)) held)\<rparr>)"

section \<open>Names sort as their batches\<close>

lemma show_nat_small: "n < 10 \<Longrightarrow> show_nat n = [digit_char n]"
  by (subst show_nat.simps) simp

lemma show_nat_snoc: "\<not> n < 10 \<Longrightarrow> show_nat n = show_nat (n div 10) @ [digit_char (n mod 10)]"
  by (subst show_nat.simps) simp

lemma show_nat_ne: "show_nat n \<noteq> []"
  by (subst show_nat.simps) simp

lemma zero_fill_pad: "n < 10 ^ Suc w \<Longrightarrow> zero_fill (Suc w) n = pad (Suc w) n"
proof (induction w arbitrary: n)
  case 0
  then show ?case by (simp add: zero_fill_def show_nat_small)
next
  case (Suc w)
  show ?case
  proof (cases "n < 10")
    case True
    have "char_of (48 :: nat) = CHR ''0''" by code_simp
    then have "pad (Suc w) 0 = replicate (Suc w) (CHR ''0'')" using Suc.IH [of 0]
      by (simp add: zero_fill_def show_nat_small digit_char_def replicate_append_same del: pad.simps)
    then show ?thesis using True by (simp add: zero_fill_def show_nat_small)
  next
    case False
    from Suc.prems have d: "n div 10 < 10 ^ Suc w" by (simp add: less_mult_imp_div_less)
    have "zero_fill (Suc (Suc w)) n = zero_fill (Suc w) (n div 10) @ [digit_char (n mod 10)]"
      using False by (simp add: zero_fill_def Let_def show_nat_snoc)
    with Suc.IH [OF d] show ?thesis by simp
  qed
qed

lemma zero_fill_pad': "\<lbrakk>0 < w; n < 10 ^ w\<rbrakk> \<Longrightarrow> zero_fill w n = pad w n"
  using zero_fill_pad [of n "w - 1"] by (cases w) simp_all

lemma zero_fill_digits: "list_all is_digit (zero_fill w n)"
  using show_nat_digits [of n] by (auto simp: zero_fill_def Let_def list_all_iff is_digit_def char_code_def simp del: show_nat.simps)

lemma read_digits_zeros: "read_digits (replicate k (CHR ''0'') @ s) = read_digits s"
  by (induction k) (simp_all add: read_digits_def digit_val_def char_code_def)

lemma read_zero_fill: "read_digits (zero_fill w n) = n"
  by (simp add: zero_fill_def Let_def read_digits_zeros read_show_nat del: show_nat.simps)

lemma zero_fill_ne: "zero_fill w n \<noteq> []"
  by (simp add: zero_fill_def Let_def show_nat_ne)

text \<open>A text of digits reads as its number.\<close>

lemma py_int_digits:
  assumes "list_all is_digit s" "s \<noteq> []"
  shows "py_int s = Some (int (read_digits s))"
proof -
  have d: "\<forall>c \<in> set s. is_digit c" using assms(1) by (simp add: list_all_iff)
  have sp: "\<not> is_space c" if "is_digit c" for c
    using that by (auto simp: is_space_def is_digit_def)
  have "py_strip s = s"
  proof -
    have "dropWhile is_space s = s" using d sp assms(2) by (cases s) auto
    moreover have "dropWhile is_space (List.rev s) = List.rev s"
    proof (cases "List.rev s")
      case (Cons a xs)
      then have "a \<in> set s" by (metis list.set_intros(1) set_rev)
      then show ?thesis using d sp Cons by simp
    qed simp
    ultimately show ?thesis by (simp add: py_strip_def)
  qed
  moreover obtain c rest where c: "s = c # rest" using assms(2) by (cases s) auto
  moreover have "c \<noteq> CHR ''-''" "c \<noteq> CHR ''+''" using d c by (auto simp: is_digit_def char_code_def)
  moreover have "CHR ''_'' \<notin> set s" using d by (auto simp: is_digit_def char_code_def)
  moreover have "plain_int s = Some (read_digits s)"
    using split_on_no_sep [OF \<open>CHR ''_'' \<notin> set s\<close>] assms by (simp add: plain_int_def)
  ultimately show ?thesis by (simp add: py_int_def)
qed

lemma digits_no_dash: "list_all is_digit s \<Longrightarrow> CHR ''-'' \<notin> set s"
  by (auto simp: list_all_iff is_digit_def char_code_def)

lemma filename_parts:
  "\<exists>rest. split_on (CHR ''-'') (spool_stem (new_batch_filename (ns, seq, rand) g s e))
     = ''batch'' # zero_fill generation_width g # zero_fill offset_width s # zero_fill offset_width e # show_nat ns # rest"
proof -
  let ?x = "zero_fill 10 seq @ ''-'' @ rand"
  have "spool_stem (new_batch_filename (ns, seq, rand) g s e)
      = ''batch'' @ CHR ''-'' # zero_fill generation_width g @ CHR ''-'' # zero_fill offset_width s @ CHR ''-''
        # zero_fill offset_width e @ CHR ''-'' # show_nat ns @ CHR ''-'' # ?x"
  proof -
    have "new_batch_filename (ns, seq, rand) g s e = (''batch'' @ CHR ''-'' # zero_fill generation_width g @ CHR ''-''
        # zero_fill offset_width s @ CHR ''-'' # zero_fill offset_width e @ CHR ''-'' # show_nat ns @ CHR ''-'' # ?x) @ ndjson"
      by (simp add: new_batch_filename_def)
    moreover have "spool_stem (x @ ndjson) = x" for x by (simp add: spool_stem_def)
    ultimately show ?thesis by (rule ssubst)
  qed
  moreover have "CHR ''-'' \<notin> set ''batch''" by simp
  ultimately show ?thesis
    by (simp add: split_on_append_sep digits_no_dash [OF zero_fill_digits] digits_no_dash [OF show_nat_digits])
qed

lemma filename_parses:
  "parse_batch_filename from_ns (new_batch_filename (ns, seq, rand) g s e)
     = map_option (\<lambda>made. \<lparr>bm_generation = int g, bm_start_offset = int s, bm_end_offset = int e, bm_created_at = made\<rparr>) (from_ns (int ns))"
proof -
  let ?name = "new_batch_filename (ns, seq, rand) g s e"
  have sfx: "suffix ndjson ?name" by (simp add: new_batch_filename_def suffix_def)
  have z: "py_int (zero_fill w n) = Some (int n)" for w n
    using py_int_digits [OF zero_fill_digits zero_fill_ne] by (simp add: read_zero_fill)
  have ne: "show_nat ns \<noteq> []" by (rule show_nat_ne)
  have n: "py_int (show_nat ns) = Some (int ns)"
    using py_int_digits [OF show_nat_digits ne] by (simp add: read_show_nat del: show_nat.simps)
  from filename_parts [of ns seq rand g s e] obtain rest where
    "split_on (CHR ''-'') (take (length ?name - length ndjson) ?name)
       = ''batch'' # zero_fill generation_width g # zero_fill offset_width s # zero_fill offset_width e # show_nat ns # rest"
    unfolding spool_stem_def by blast
  then show ?thesis by (simp add: parse_batch_filename_def sfx z n del: show_nat.simps)
qed

definition in_widths :: "stamp \<times> nat \<times> nat \<times> nat \<Rightarrow> bool" where
  "in_widths b \<longleftrightarrow> (case b of (_, g, s, e) \<Rightarrow> g < 10 ^ generation_width \<and> s < 10 ^ offset_width \<and> e < 10 ^ offset_width)"

definition batch_name :: "stamp \<times> nat \<times> nat \<times> nat \<Rightarrow> string" where
  "batch_name b = (case b of (t, g, s, e) \<Rightarrow> new_batch_filename t g s e)"

lemma filename_less:
  assumes "in_widths b" "in_widths b'" "snd b < snd b'"
  shows "batch_name b < batch_name b'"
proof -
  obtain t g s e t' g' s' e' where b: "b = (t, g, s, e)" "b' = (t', g', s', e')" by (cases b; cases b') auto
  let ?G = "pad 6" and ?O = "pad 20"
  have w: "g < 10 ^ 6" "s < 10 ^ 20" "e < 10 ^ 20" "g' < 10 ^ 6" "s' < 10 ^ 20" "e' < 10 ^ 20"
    using assms(1,2) b by (simp_all add: in_widths_def generation_width_def offset_width_def)
  have n: "batch_name b = ''batch-'' @ ?G g @ ''-'' @ ?O s @ ''-'' @ ?O e @ ''-'' @ name_tail t @ ndjson"
    "batch_name b' = ''batch-'' @ ?G g' @ ''-'' @ ?O s' @ ''-'' @ ?O e' @ ''-'' @ name_tail t' @ ndjson"
    using w by (simp_all add: b batch_name_def new_batch_filename_def generation_width_def offset_width_def zero_fill_pad' del: pad.simps)
  have k: "(g, s, e) < (g', s', e')" using assms(3) b by simp
  have len: "length (?G g) = length (?G g')" "length (?O s) = length (?O s')" "length (?O e) = length (?O e')"
    by (simp_all only: length_pad)
  show ?thesis
    unfolding n append_less_append [OF refl] append_less_append [OF len(1)] append_less_append [OF len(2)] append_less_append [OF len(3)]
    using k w by (simp add: pad_less pad_inj less_prod_def' del: pad.simps) blast
qed

text \<open>C32. Pending batches are taken oldest first: as long as generations have at most six digits and offsets at most twenty, the
  sorted listing gives the batches in the order of generation, start and end offset, whatever their clock readings and
  random parts are, and a name parses back to its generation and offsets. Past the width the order breaks: the first
  generation of seven digits sorts before the last one of six.\<close>

theorem pending_oldest_first:
  assumes "List.map fst (dk_pending d source) = List.map batch_name bs" "\<forall>b \<in> set bs. in_widths b"
  shows "\<exists>bs'. mset bs' = mset bs \<and> list_pending_batches d source = List.map batch_name bs'
      \<and> sorted (List.map snd bs')
      \<and> (\<forall>(t, g, s, e) \<in> set bs. parse_batch_filename from_ns (batch_name (t, g, s, e))
           = map_option (\<lambda>made. \<lparr>bm_generation = int g, bm_start_offset = int s, bm_end_offset = int e, bm_created_at = made\<rparr>)
               (from_ns (int (fst t))))
      \<and> new_batch_filename t 1000000 0 1 < new_batch_filename t 999999 0 1"
proof (intro exI conjI)
  let ?bs' = "sort_key batch_name bs"
  show "mset ?bs' = mset bs" by simp
  have f: "filter (suffix ndjson) (List.map batch_name bs) = List.map batch_name bs"
    by (intro filter_True) (auto simp: batch_name_def new_batch_filename_def suffix_def)
  have "sort (List.map batch_name bs) = List.map batch_name ?bs'"
    by (rule properties_for_sort) (simp_all only: mset_map mset_sort sorted_sort_key)
  then show "list_pending_batches d source = List.map batch_name ?bs'"
    by (simp add: list_pending_batches_def assms(1) f)
  have "sorted_wrt (\<lambda>x y. batch_name x \<le> batch_name y) ?bs'" by (simp flip: sorted_wrt_map)
  then have "sorted_wrt (\<lambda>x y. snd x \<le> snd y) ?bs'"
    by (rule sorted_wrt_mono_rel [rotated]) (use assms(2) filename_less in \<open>fastforce simp: not_le [symmetric]\<close>)
  then show "sorted (List.map snd ?bs')" by (simp add: sorted_wrt_map)
  show "\<forall>(t, g, s, e) \<in> set bs. parse_batch_filename from_ns (batch_name (t, g, s, e))
      = map_option (\<lambda>made. \<lparr>bm_generation = int g, bm_start_offset = int s, bm_end_offset = int e, bm_created_at = made\<rparr>)
          (from_ns (int (fst t)))"
    by (auto simp: batch_name_def filename_parses)
  have "digit_char 9 = CHR ''9''" "digit_char 1 = CHR ''1''" by code_simp+
  then obtain x y where "zero_fill 6 1000000 = CHR ''1'' # x" "zero_fill 6 999999 = CHR ''9'' # y"
    by (simp add: zero_fill_def show_nat_small show_nat_snoc)
  moreover have "CHR ''1'' < CHR ''9''" by (simp add: char_less_code char_code_def)
  ultimately show "new_batch_filename t 1000000 0 1 < new_batch_filename t 999999 0 1"
    unfolding new_batch_filename_def generation_width_def append_less_append [OF refl] by (simp only: append_Cons Cons_less_Cons simp_thms)
qed

definition two_batches :: "(stamp \<times> nat \<times> nat \<times> nat) list" where
  "two_batches = [((5, 1, ''b''), 0, 10, 20), ((7, 0, ''a''), 0, 0, 10)]"

theorem pending_oldest_first_witness:
  "\<exists>bs'. mset bs' = mset two_batches \<and> sorted (List.map snd bs')
     \<and> list_pending_batches \<lparr>dk_pending = (\<lambda>_. List.map (\<lambda>b. (batch_name b, SpoolText [])) two_batches), dk_attempts = (\<lambda>_. []),
          dk_quarantine = (\<lambda>_. []), dk_held_attempts = (\<lambda>_. []), dk_reasons = (\<lambda>_. []), dk_state = None, dk_names = 2, dk_faults = []\<rparr> ''acs''
        = List.map batch_name bs'"
proof -
  let ?d = "\<lparr>dk_pending = (\<lambda>_. List.map (\<lambda>b. (batch_name b, SpoolText [])) two_batches), dk_attempts = (\<lambda>_. []),
          dk_quarantine = (\<lambda>_. []), dk_held_attempts = (\<lambda>_. []), dk_reasons = (\<lambda>_. []), dk_state = None, dk_names = 2, dk_faults = []\<rparr>"
  have "List.map fst (dk_pending ?d ''acs'') = List.map batch_name two_batches" by simp
  moreover have "\<forall>b \<in> set two_batches. in_widths b" by (simp add: two_batches_def in_widths_def generation_width_def offset_width_def)
  ultimately show ?thesis using pending_oldest_first [of ?d "''acs''" two_batches "\<lambda>_. None"] by blast
qed

end
