(* ===== verification/AgentUploader.thy ===== *)
theory AgentUploader
  imports AgentSpool V2Uploader
begin

text \<open>
  The uploader of the continuous agent: agent/runtime/http_client.py (classifying an answer),
  agent/runtime/uploader.py (byte budget, isolation of poison records under a shared request budget, the
  cycle over the sources) and agent/runtime/backoff.py. The HTTP library is the function \<open>uc_post\<close> on an
  arbitrary world; \<open>uc_dump_size\<close> is the length of the serialized payload. The list of requests made with
  their classified outcomes is kept beside the world: nothing reads it, the properties speak of it.
  Delays are rationals where the code has floats.
\<close>

section \<open>Classifying an answer\<close>

datatype post_reply = NetworkFailure string | Answer int "json option" string \<comment> \<open>status, decoded body, text\<close>

record http_outcome =
  ho_success :: bool
  ho_category :: "failure_category option"
  ho_status :: "int option"
  ho_error :: "string option"

definition retryable_status_codes :: "int list" where "retryable_status_codes = [429, 500, 502, 503, 504]"
definition auth_status_codes :: "int list" where "auth_status_codes = [401, 403]"
definition permanent_status_codes :: "int list" where "permanent_status_codes = [400, 413]"

definition preview :: "string \<Rightarrow> string" where
  "preview text = (if length text \<le> 300 then text else take 300 text @ ''...<truncated>'')"

definition failed_post :: "failure_category \<Rightarrow> int option \<Rightarrow> string \<Rightarrow> http_outcome" where
  "failed_post category status error = \<lparr>ho_success = False, ho_category = Some category, ho_status = status, ho_error = Some error\<rparr>"

text \<open>A 200 whose body is JSON but no object has no \<open>get\<close>: the \<open>AttributeError\<close> is not caught.\<close>

fun classify_post :: "post_reply \<Rightarrow> agent_exn + http_outcome" where
  "classify_post (NetworkFailure what) = Inr (failed_post RetryableInfra None what)"
| "classify_post (Answer code body text) =
     (if code = 200 then
        (case body of
           None \<Rightarrow> Inr (failed_post RetryableInfra (Some 200) ''200 response was not valid JSON'')
         | Some (JObj ms) \<Rightarrow>
             if jget ms ''status'' = JStr ''success''
             then Inr \<lparr>ho_success = True, ho_category = None, ho_status = Some 200, ho_error = None\<rparr>
             else Inr (failed_post RetryableInfra (Some 200) ''200 response had unexpected status field'')
         | Some _ \<Rightarrow> Inl AttributeErr)
      else if code \<in> set auth_status_codes
      then Inr (failed_post AuthFailure (Some code) (''authentication/authorization failure '' @ preview text))
      else if code \<in> set permanent_status_codes
      then Inr (failed_post PermanentRejection (Some code) (''deterministic rejection '' @ preview text))
      else if code \<in> set retryable_status_codes
      then Inr (failed_post RetryableInfra (Some code) (''retryable server error '' @ preview text))
      else Inr (failed_post RetryableInfra (Some code) (''unexpected status '' @ preview text)))"

section \<open>Requests\<close>

record 'w upload_config =
  uc_api_url :: string
  uc_api_token :: string
  uc_sources :: "string list"
  uc_max_isolation :: int
  uc_max_body_bytes :: nat
  uc_upload_enabled :: bool
  uc_post :: "string \<Rightarrow> (string \<times> string) list \<Rightarrow> (string \<times> json) list \<Rightarrow> 'w \<Rightarrow> post_reply \<times> 'w"
  uc_dump_size :: "(string \<times> json) list \<Rightarrow> nat"

text \<open>The source is one of the three; any other name has already failed in the collector.\<close>

definition build_payload :: "string \<Rightarrow> spool_event list \<Rightarrow> (string \<times> json) list" where
  "build_payload source records =
     AList.update source (JArr (List.map JObj records)) [(''checkins'', JArr []), (''rejects'', JArr []), (''acs'', JArr [])]"

definition auth_headers :: "'w upload_config \<Rightarrow> (string \<times> string) list" where
  "auth_headers cfg = [(''Authorization'', ''Bearer '' @ uc_api_token cfg), (''Content-Type'', ''application/json'')]"

text \<open>The state of one isolation: the requests used, the world, the requests made.\<close>

record 'w iso =
  is_used :: nat
  is_world :: 'w
  is_requests :: "(spool_event list \<times> http_outcome) list"

definition post_records :: "'w upload_config \<Rightarrow> string \<Rightarrow> spool_event list \<Rightarrow> ('w iso, http_outcome) action" where
  "post_records cfg source records = (\<lambda>st.
     case uc_post cfg (uc_api_url cfg @ ''/upload'') (auth_headers cfg) (build_payload source records) (is_world st) of
       (reply, w) \<Rightarrow>
         (case classify_post reply of
            Inl e \<Rightarrow> (Inl e, st\<lparr>is_world := w\<rparr>)
          | Inr oc \<Rightarrow> (Inr oc, st\<lparr>is_world := w, is_requests := is_requests st @ [(records, oc)]\<rparr>)))"

function fit_to_byte_budget :: "'w upload_config \<Rightarrow> string \<Rightarrow> spool_event list \<Rightarrow> spool_event list list" where
  "fit_to_byte_budget cfg source records =
     (if records = [] then []
      else if length records = 1 \<or> uc_dump_size cfg (build_payload source records) \<le> uc_max_body_bytes cfg then [records]
      else let mid = length records div 2
           in fit_to_byte_budget cfg source (take mid records) @ fit_to_byte_budget cfg source (drop mid records))"
  by pat_completeness auto

termination
proof (relation "measure (\<lambda>(cfg, source, records). length records)")
  fix cfg :: "'w upload_config" and source :: string and records :: "spool_event list" and mid
  assume "records \<noteq> []" "\<not> (length records = 1 \<or> uc_dump_size cfg (build_payload source records) \<le> uc_max_body_bytes cfg)"
    and mid: "mid = length records div 2"
  then have "2 \<le> length records" by (cases records; cases "tl records") auto
  with mid show "((cfg, source, take mid records), cfg, source, records) \<in> measure (\<lambda>(cfg, source, records). length records)"
    "((cfg, source, drop mid records), cfg, source, records) \<in> measure (\<lambda>(cfg, source, records). length records)"
    by (auto simp: min_def)
qed simp

declare fit_to_byte_budget.simps [simp del]

section \<open>Isolation\<close>

record isolation =
  il_delivered :: "spool_event list"
  il_quarantined :: "spool_event list"
  il_pending :: "spool_event list"
  il_last_category :: "failure_category option"
  il_last_error :: "string option"
  il_budget_exhausted :: bool

definition nothing_isolated :: isolation where
  "nothing_isolated = \<lparr>il_delivered = [], il_quarantined = [], il_pending = [], il_last_category = None, il_last_error = None,
     il_budget_exhausted = False\<rparr>"

text \<open>Python's \<open>or\<close> on optional texts: an empty one counts as missing.\<close>

definition or_else :: "'a list option \<Rightarrow> 'a list option \<Rightarrow> 'a list option" where
  "or_else a b = (if a = None \<or> a = Some [] then b else a)"

definition or_category :: "failure_category option \<Rightarrow> failure_category option \<Rightarrow> failure_category option" where
  "or_category a b = (if a = None then b else a)"

definition merge_isolation :: "isolation \<Rightarrow> isolation \<Rightarrow> isolation" where
  "merge_isolation left right =
     \<lparr>il_delivered = il_delivered left @ il_delivered right, il_quarantined = il_quarantined left @ il_quarantined right,
      il_pending = il_pending left @ il_pending right, il_last_category = or_category (il_last_category right) (il_last_category left),
      il_last_error = or_else (il_last_error right) (il_last_error left),
      il_budget_exhausted = (il_budget_exhausted left \<or> il_budget_exhausted right)\<rparr>"

definition spend :: "'w iso \<Rightarrow> 'w iso" where
  "spend st = st\<lparr>is_used := is_used st + 1\<rparr>"

text \<open>What one answer settles; \<open>None\<close> when several records were rejected together and must be split.\<close>

definition settle :: "http_outcome \<Rightarrow> spool_event list \<Rightarrow> isolation option" where
  "settle oc records =
     (if ho_success oc then Some (nothing_isolated\<lparr>il_delivered := records\<rparr>)
      else if ho_category oc \<noteq> Some PermanentRejection
      then Some (nothing_isolated\<lparr>il_pending := records, il_last_category := ho_category oc, il_last_error := ho_error oc\<rparr>)
      else if length records = 1
      then Some (nothing_isolated\<lparr>il_quarantined := records, il_last_category := ho_category oc, il_last_error := ho_error oc\<rparr>)
      else None)"

function attempt_and_isolate :: "'w upload_config \<Rightarrow> string \<Rightarrow> spool_event list \<Rightarrow> 'w iso \<Rightarrow> (agent_exn + isolation) \<times> 'w iso" where
  "attempt_and_isolate cfg source records st =
     (if uc_max_isolation cfg \<le> int (is_used st)
      then (Inr (nothing_isolated\<lparr>il_pending := records, il_budget_exhausted := True\<rparr>), st)
      else case post_records cfg source records (spend st) of
        (Inl e, st1) \<Rightarrow> (Inl e, st1)
      | (Inr oc, st1) \<Rightarrow>
          (case settle oc records of
             Some il \<Rightarrow> (Inr il, st1)
           | None \<Rightarrow>
               (case attempt_and_isolate cfg source (take (length records div 2) records) st1 of
                  (Inl e, st2) \<Rightarrow> (Inl e, st2)
                | (Inr left, st2) \<Rightarrow>
                    (case attempt_and_isolate cfg source (drop (length records div 2) records) st2 of
                       (Inl e, st3) \<Rightarrow> (Inl e, st3)
                     | (Inr right, st3) \<Rightarrow> (Inr (merge_isolation left right), st3)))))"
  by pat_completeness auto

lemma post_records_used: "post_records cfg source records st = (r, st') \<Longrightarrow> is_used st' = is_used st"
  by (auto simp: post_records_def split: prod.splits sum.splits)

text \<open>No request gives back budget: shown on the domain first, then used for termination.\<close>

lemma isolate_used:
  assumes "attempt_and_isolate_dom (cfg, source, records, st)"
  shows "is_used st \<le> is_used (snd (attempt_and_isolate cfg source records st))"
  using assms
proof (induction rule: attempt_and_isolate.pinduct)
  case (1 cfg source records st)
  show ?case
  proof (cases "uc_max_isolation cfg \<le> int (is_used st)")
    case True
    then show ?thesis using "1.hyps" by (simp add: attempt_and_isolate.psimps)
  next
    case False
    obtain r st1 where p: "post_records cfg source records (spend st) = (r, st1)" by (cases "post_records cfg source records (spend st)") auto
    have u: "is_used st1 = is_used st + 1" using post_records_used [OF p] by (simp add: spend_def)
    show ?thesis
    proof (cases r)
      case (Inl e)
      with False p u "1.hyps" show ?thesis by (simp add: attempt_and_isolate.psimps)
    next
      case (Inr oc)
      note IH = "1.IH" [OF False p [symmetric] Inr]
      show ?thesis
      proof (cases "settle oc records")
        case (Some il)
        with False p Inr u "1.hyps" show ?thesis by (simp add: attempt_and_isolate.psimps)
      next
        case None
        obtain l st2 where l: "attempt_and_isolate cfg source (take (length records div 2) records) st1 = (l, st2)"
          by (cases "attempt_and_isolate cfg source (take (length records div 2) records) st1") auto
        have ul: "is_used st1 \<le> is_used st2" using IH(1) [OF None] l by simp
        show ?thesis
        proof (cases l)
          case (Inl e)
          with False p u ul l None "1.hyps" \<open>r = Inr oc\<close> show ?thesis by (simp add: attempt_and_isolate.psimps)
        next
          case lft: (Inr left)
          obtain q st3 where q: "attempt_and_isolate cfg source (drop (length records div 2) records) st2 = (q, st3)"
            by (cases "attempt_and_isolate cfg source (drop (length records div 2) records) st2") auto
          have "is_used st2 \<le> is_used st3" using IH(2) [OF None l [symmetric] lft] q by simp
          with False p Inr u ul l lft q None "1.hyps" show ?thesis by (cases q) (simp_all add: attempt_and_isolate.psimps)
        qed
      qed
    qed
  qed
qed

termination attempt_and_isolate
proof (relation "measure (\<lambda>(cfg, source, records, st). nat (uc_max_isolation cfg) - is_used st)", goal_cases)
  case 1
  then show ?case by simp
next
  case (2 cfg source records st r st1 oc)
  then have "is_used st1 = is_used st + 1" using post_records_used [of cfg source records "spend st" r st1] by (simp add: spend_def)
  with 2 show ?case by simp
next
  case (3 cfg source records st r st1 oc l st2 left)
  then have "is_used st1 = is_used st + 1" using post_records_used [of cfg source records "spend st" r st1] by (simp add: spend_def)
  moreover have "is_used st1 \<le> is_used st2" 
    using isolate_used [of cfg source "take (length records div 2) records" st1] 3(4,5,6) by (metis 3(7) snd_conv)
  ultimately show ?case using 3 by simp
qed

declare attempt_and_isolate.simps [simp del]

section \<open>One batch, one cycle\<close>

record upload_result =
  ur_source :: string
  ur_attempted :: bool
  ur_delivered :: nat
  ur_quarantined :: nat
  ur_pending :: nat
  ur_category :: "failure_category option"
  ur_budget_exhausted :: bool
  ur_corrupt_quarantined :: bool
  ur_last_error :: "string option"

definition made_progress :: "upload_result \<Rightarrow> bool" where
  "made_progress r \<longleftrightarrow> ur_delivered r \<noteq> 0 \<or> ur_quarantined r \<noteq> 0 \<or> ur_corrupt_quarantined r"

record 'w uploader =
  ul_disk :: disk
  ul_world :: 'w
  ul_requests :: "(spool_event list \<times> http_outcome) list"

definition on_spool :: "(disk, 'a) action \<Rightarrow> ('w uploader, 'a) action" where
  "on_spool m = (\<lambda>ul. case m (ul_disk ul) of (r, d) \<Rightarrow> (r, ul\<lparr>ul_disk := d\<rparr>))"

text \<open>The chunks of one batch share the budget; their outcomes are merged as they come.\<close>

fun isolate_chunks :: "'w upload_config \<Rightarrow> string \<Rightarrow> isolation \<Rightarrow> spool_event list list \<Rightarrow> 'w iso \<Rightarrow> (agent_exn + isolation) \<times> 'w iso" where
  "isolate_chunks cfg source acc [] st = (Inr acc, st)"
| "isolate_chunks cfg source acc (chunk # rest) st =
     (case attempt_and_isolate cfg source chunk st of
        (Inl e, st') \<Rightarrow> (Inl e, st')
      | (Inr il, st') \<Rightarrow> isolate_chunks cfg source (merge_isolation acc il) rest st')"

definition isolate_batch :: "'w upload_config \<Rightarrow> string \<Rightarrow> spool_event list \<Rightarrow> ('w uploader, isolation) action" where
  "isolate_batch cfg source records = (\<lambda>ul.
     case isolate_chunks cfg source nothing_isolated (fit_to_byte_budget cfg source records)
         \<lparr>is_used = 0, is_world = ul_world ul, is_requests = ul_requests ul\<rparr> of
       (r, st) \<Rightarrow> (r, ul\<lparr>ul_world := is_world st, ul_requests := is_requests st\<rparr>))"

definition error_or :: "string \<Rightarrow> string option \<Rightarrow> string" where
  "error_or other error = (case error of None \<Rightarrow> other | Some e \<Rightarrow> if e = [] then other else e)"

text \<open>Fully resolved: the poison is written to the quarantine, then the batch goes. Otherwise only the attempt is recorded.\<close>

definition settle_batch :: "(nat \<Rightarrow> stamp) \<Rightarrow> string \<Rightarrow> string \<Rightarrow> string \<Rightarrow> isolation \<Rightarrow> ('w uploader, unit) action" where
  "settle_batch stamps now source name il =
     (if il_pending il = [] \<and> \<not> il_budget_exhausted il
      then chain (if il_quarantined il = [] then give []
                  else on_spool (quarantine_records stamps source (il_quarantined il)
                    (error_or ''permanent rejection, isolated'' (il_last_error il))))
             (\<lambda>_. on_spool (acknowledge source name))
      else chain (on_spool (record_attempt_failure now source name (error_or ''unknown error'' (il_last_error il))
                    (case il_last_category il of None \<Rightarrow> RetryableInfra | Some c \<Rightarrow> c)))
             (\<lambda>_. give ()))"

definition corrupt_result :: "string \<Rightarrow> upload_result" where
  "corrupt_result source = \<lparr>ur_source = source, ur_attempted = False, ur_delivered = 0, ur_quarantined = 0, ur_pending = 0,
     ur_category = None, ur_budget_exhausted = False, ur_corrupt_quarantined = True, ur_last_error = None\<rparr>"

definition upload_one_pending_batch :: "(nat \<Rightarrow> stamp) \<Rightarrow> string \<Rightarrow> 'w upload_config \<Rightarrow> string \<Rightarrow> ('w uploader, upload_result option) action" where
  "upload_one_pending_batch stamps now cfg source = (\<lambda>ul.
     case list_pending_batches (ul_disk ul) source of
       [] \<Rightarrow> (Inr None, ul)
     | name # _ \<Rightarrow>
         chain (on_spool (read_batch_or_quarantine stamps source name)) (\<lambda>found.
           case found of
             None \<Rightarrow> give (Some (corrupt_result source))
           | Some records \<Rightarrow>
               chain (isolate_batch cfg source records) (\<lambda>il.
               chain (settle_batch stamps now source name il) (\<lambda>_.
               give (Some \<lparr>ur_source = source, ur_attempted = True, ur_delivered = length (il_delivered il),
                 ur_quarantined = length (il_quarantined il), ur_pending = length (il_pending il), ur_category = il_last_category il,
                 ur_budget_exhausted = il_budget_exhausted il, ur_corrupt_quarantined = False, ur_last_error = il_last_error il\<rparr>)))) ul)"

fun upload_sources :: "(nat \<Rightarrow> stamp) \<Rightarrow> string \<Rightarrow> 'w upload_config \<Rightarrow> string list \<Rightarrow> ('w uploader, upload_result list) action" where
  "upload_sources stamps now cfg [] = give []"
| "upload_sources stamps now cfg (source # rest) =
     chain (upload_one_pending_batch stamps now cfg source) (\<lambda>r.
     chain (upload_sources stamps now cfg rest) (\<lambda>rs.
     give (case r of None \<Rightarrow> rs | Some x \<Rightarrow> x # rs)))"

definition run_cycle :: "(nat \<Rightarrow> stamp) \<Rightarrow> string \<Rightarrow> 'w upload_config \<Rightarrow> ('w uploader, upload_result list) action" where
  "run_cycle stamps now cfg = (if \<not> uc_upload_enabled cfg then give [] else upload_sources stamps now cfg (uc_sources cfg))"

section \<open>Backoff\<close>

record backoff =
  bo_base :: rat
  bo_max :: rat
  bo_multiplier :: rat
  bo_jitter :: rat
  bo_current :: rat

definition backoff_reset :: "backoff \<Rightarrow> backoff" where
  "backoff_reset b = b\<lparr>bo_current := bo_base b\<rparr>"

definition next_delay :: "rat \<Rightarrow> backoff \<Rightarrow> rat \<times> backoff" where
  "next_delay random b =
     (let delay = bo_current b; b = b\<lparr>bo_current := min (bo_current b * bo_multiplier b) (bo_max b)\<rparr> in
      if bo_jitter b \<le> 0 then (delay, b)
      else (max 0 (delay + (random * 2 - 1) * (delay * bo_jitter b)), b))"

text \<open>The wait after a cycle, as \<open>run_forever\<close> chooses it.\<close>

definition cycle_delay :: "rat \<Rightarrow> rat \<Rightarrow> upload_result list \<Rightarrow> backoff \<Rightarrow> rat \<times> backoff" where
  "cycle_delay poll random results b =
     (if results = [] then (poll, b)
      else if list_ex ur_budget_exhausted results then next_delay random b
      else if list_ex made_progress results then (poll, backoff_reset b)
      else next_delay random b)"

section \<open>What isolation does\<close>

text \<open>The shape of a run of isolation: one case for each way it ends.\<close>

lemma isolate_induct [consumes 1, case_names exhausted raised settled left_raised right_raised split]:
  assumes "attempt_and_isolate cfg source records st = (r, st')"
    and "\<And>records st. uc_max_isolation cfg \<le> int (is_used st)
      \<Longrightarrow> P records st (Inr (nothing_isolated\<lparr>il_pending := records, il_budget_exhausted := True\<rparr>)) st"
    and "\<And>records st e st1. \<lbrakk>\<not> uc_max_isolation cfg \<le> int (is_used st); post_records cfg source records (spend st) = (Inl e, st1)\<rbrakk>
      \<Longrightarrow> P records st (Inl e) st1"
    and "\<And>records st oc st1 il. \<lbrakk>\<not> uc_max_isolation cfg \<le> int (is_used st); post_records cfg source records (spend st) = (Inr oc, st1);
      settle oc records = Some il\<rbrakk> \<Longrightarrow> P records st (Inr il) st1"
    and "\<And>records st oc st1 e st2. \<lbrakk>\<not> uc_max_isolation cfg \<le> int (is_used st); post_records cfg source records (spend st) = (Inr oc, st1);
      settle oc records = None; P (take (length records div 2) records) st1 (Inl e) st2\<rbrakk> \<Longrightarrow> P records st (Inl e) st2"
    and "\<And>records st oc st1 left st2 e st3. \<lbrakk>\<not> uc_max_isolation cfg \<le> int (is_used st);
      post_records cfg source records (spend st) = (Inr oc, st1); settle oc records = None;
      P (take (length records div 2) records) st1 (Inr left) st2; P (drop (length records div 2) records) st2 (Inl e) st3\<rbrakk>
      \<Longrightarrow> P records st (Inl e) st3"
    and "\<And>records st oc st1 left st2 right st3. \<lbrakk>\<not> uc_max_isolation cfg \<le> int (is_used st);
      post_records cfg source records (spend st) = (Inr oc, st1); settle oc records = None;
      P (take (length records div 2) records) st1 (Inr left) st2; P (drop (length records div 2) records) st2 (Inr right) st3\<rbrakk>
      \<Longrightarrow> P records st (Inr (merge_isolation left right)) st3"
  shows "P records st r st'"
proof -
  have "c = cfg \<longrightarrow> s = source \<longrightarrow> (\<forall>r st'. attempt_and_isolate c s records st = (r, st') \<longrightarrow> P records st r st')" for c s records st
  proof (induction c s records st rule: attempt_and_isolate.induct)
    case (1 c s records st)
    show ?case
    proof (intro impI allI)
      fix r st' assume c: "c = cfg" "s = source" and run: "attempt_and_isolate c s records st = (r, st')"
      obtain q st1 where p: "post_records cfg source records (spend st) = (q, st1)" by (cases "post_records cfg source records (spend st)") auto
      show "P records st r st'"
      proof (cases "uc_max_isolation cfg \<le> int (is_used st)")
        case True
        with run c have "r = Inr (nothing_isolated\<lparr>il_pending := records, il_budget_exhausted := True\<rparr>) \<and> st' = st"
          by (simp add: attempt_and_isolate.simps [of cfg])
        with assms(2) [OF True] show ?thesis by blast
      next
        case budget: False
        show ?thesis
        proof (cases q)
          case (Inl e)
          with run c budget p have "r = Inl e \<and> st' = st1" by (simp add: attempt_and_isolate.simps [of cfg])
          with assms(3) [OF budget] p Inl show ?thesis by blast
        next
          case oc: (Inr oc)
          note IH = "1.IH" [unfolded c, OF budget p [symmetric] oc]
          show ?thesis
          proof (cases "settle oc records")
            case (Some il)
            with run c budget p oc have "r = Inr il \<and> st' = st1" by (simp add: attempt_and_isolate.simps [of cfg source records])
            with assms(4) [OF budget _ Some] p oc show ?thesis by blast
          next
            case None
            obtain l st2 where l: "attempt_and_isolate cfg source (take (length records div 2) records) st1 = (l, st2)"
              by (cases "attempt_and_isolate cfg source (take (length records div 2) records) st1") auto
            have Pl: "P (take (length records div 2) records) st1 l st2" using IH(1) [OF None] l by simp
            show ?thesis
            proof (cases l)
              case (Inl e)
              with run c budget p oc None l have "r = Inl e \<and> st' = st2" by (simp add: attempt_and_isolate.simps [of cfg source records])
              with assms(5) [OF budget _ None] p oc Pl Inl show ?thesis by blast
            next
              case lft: (Inr left)
              obtain g st3 where g: "attempt_and_isolate cfg source (drop (length records div 2) records) st2 = (g, st3)"
                by (cases "attempt_and_isolate cfg source (drop (length records div 2) records) st2") auto
              have Pr: "P (drop (length records div 2) records) st2 g st3" using IH(2) [OF None l [symmetric] lft] g by simp
              show ?thesis
              proof (cases g)
                case (Inl e)
                with run c budget p oc None l lft g have "r = Inl e \<and> st' = st3" by (simp add: attempt_and_isolate.simps [of cfg source records])
                with assms(6) [OF budget _ None] p oc Pl lft Pr Inl show ?thesis by blast
              next
                case (Inr right)
                with run c budget p oc None l lft g have "r = Inr (merge_isolation left right) \<and> st' = st3"
                  by (simp add: attempt_and_isolate.simps [of cfg source records])
                with assms(7) [OF budget _ None] p oc Pl lft Pr Inr show ?thesis by blast
              qed
            qed
          qed
        qed
      qed
    qed
  qed
  with assms(1) show ?thesis by blast
qed

lemma post_records_log: "post_records cfg source records st = (r, st') \<Longrightarrow>
    (case r of Inl _ \<Rightarrow> is_requests st' = is_requests st | Inr oc \<Rightarrow> is_requests st' = is_requests st @ [(records, oc)])"
  by (auto simp: post_records_def split: prod.splits sum.splits)

text \<open>Every record is accounted for, and each verdict rests on a request.\<close>

definition answered_success :: "(spool_event list \<times> http_outcome) list \<Rightarrow> spool_event \<Rightarrow> bool" where
  "answered_success asked e \<longleftrightarrow> (\<exists>(records, oc) \<in> set asked. ho_success oc \<and> e \<in> set records)"

definition rejected_alone :: "(spool_event list \<times> http_outcome) list \<Rightarrow> spool_event \<Rightarrow> bool" where
  "rejected_alone asked e \<longleftrightarrow> (\<exists>(records, oc) \<in> set asked. \<not> ho_success oc \<and> ho_category oc = Some PermanentRejection \<and> records = [e])"

definition accounted :: "spool_event list \<Rightarrow> isolation \<Rightarrow> (spool_event list \<times> http_outcome) list \<Rightarrow> bool" where
  "accounted records il asked \<longleftrightarrow>
     mset records = mset (il_delivered il) + mset (il_quarantined il) + mset (il_pending il)
     \<and> (\<forall>e \<in> set (il_delivered il). answered_success asked e)
     \<and> (\<forall>e \<in> set (il_quarantined il). rejected_alone asked e)"

lemma answered_mono: "\<lbrakk>answered_success asked e; set asked \<subseteq> set asked'\<rbrakk> \<Longrightarrow> answered_success asked' e"
  by (auto simp: answered_success_def)

lemma rejected_mono: "\<lbrakk>rejected_alone asked e; set asked \<subseteq> set asked'\<rbrakk> \<Longrightarrow> rejected_alone asked' e"
  by (auto simp: rejected_alone_def)

lemma settle_accounted:
  "settle oc records = Some il \<Longrightarrow> accounted records il (asked @ [(records, oc)])"
  by (cases records) (auto simp: settle_def accounted_def nothing_isolated_def answered_success_def rejected_alone_def split: if_splits)

lemma isolate_accounts:
  assumes "attempt_and_isolate cfg source records st = (r, st')"
  shows "(\<exists>later. is_requests st' = is_requests st @ later) \<and> (\<forall>il. r = Inr il \<longrightarrow> accounted records il (is_requests st'))"
  using assms
proof (induction rule: isolate_induct)
  case (exhausted records st)
  then show ?case by (simp add: accounted_def nothing_isolated_def)
next
  case (raised records st e st1)
  then show ?case using post_records_log [OF raised(2)] by (simp add: spend_def)
next
  case (settled records st oc st1 il)
  then show ?case using post_records_log [OF settled(2)] settle_accounted by (simp add: spend_def)
next
  case (left_raised records st oc st1 e st2)
  then show ?case using post_records_log [OF left_raised(2)] by (auto simp: spend_def)
next
  case (right_raised records st oc st1 left st2 e st3)
  then show ?case using post_records_log [OF right_raised(2)] by (auto simp: spend_def)
next
  case (split records st oc st1 left st2 right st3)
  let ?m = "length records div 2"
  from split obtain l2 l3 where l: "is_requests st2 = is_requests st1 @ l2" "is_requests st3 = is_requests st2 @ l3"
    "accounted (take ?m records) left (is_requests st2)" "accounted (drop ?m records) right (is_requests st3)" by auto
  have m: "mset records = mset (take ?m records) + mset (drop ?m records)" by (metis append_take_drop_id mset_append)
  have s: "set (is_requests st2) \<subseteq> set (is_requests st3)" using l by auto
  have "accounted records (merge_isolation left right) (is_requests st3)"
    using l(3,4) m answered_mono [OF _ s] rejected_mono [OF _ s] by (auto simp: accounted_def merge_isolation_def)
  then show ?case using l post_records_log [OF split(2)] by (simp add: spend_def)
qed

text \<open>One request for each unit of budget, at most two per record less one.\<close>

lemma isolate_requests:
  assumes "attempt_and_isolate cfg source records st = (r, st')"
  shows "length (is_requests st') + is_used st \<le> length (is_requests st) + is_used st'
    \<and> length (is_requests st) \<le> length (is_requests st') \<and> is_used st \<le> is_used st'
    \<and> (int (is_used st) \<le> max 0 (uc_max_isolation cfg) \<longrightarrow> int (is_used st') \<le> max 0 (uc_max_isolation cfg))
    \<and> (records \<noteq> [] \<longrightarrow> is_used st' + 1 \<le> is_used st + 2 * length records)"
  using assms
proof (induction rule: isolate_induct)
  case (exhausted records st)
  then show ?case by (cases records) auto
next
  case (raised records st e st1)
  then show ?case using post_records_log [OF raised(2)] post_records_used [OF raised(2)] by (cases records) (auto simp: spend_def)
next
  case (settled records st oc st1 il)
  then show ?case using post_records_log [OF settled(2)] post_records_used [OF settled(2)] by (cases records) (auto simp: spend_def)
next
  case (left_raised records st oc st1 e st2)
  then have two: "records = [] \<or> 2 \<le> length records" by (cases records; cases "tl records") (auto simp: settle_def split: if_splits)
  then have "2 \<le> length records \<Longrightarrow> take (length records div 2) records \<noteq> [] \<and> drop (length records div 2) records \<noteq> []" by auto
  with two left_raised show ?case using post_records_log [OF left_raised(2)] post_records_used [OF left_raised(2)]
    by (auto simp: spend_def min_def split: if_splits)
next
  case (right_raised records st oc st1 left st2 e st3)
  then have two: "records = [] \<or> 2 \<le> length records" by (cases records; cases "tl records") (auto simp: settle_def split: if_splits)
  then have "2 \<le> length records \<Longrightarrow> take (length records div 2) records \<noteq> [] \<and> drop (length records div 2) records \<noteq> []" by auto
  with two right_raised show ?case using post_records_log [OF right_raised(2)] post_records_used [OF right_raised(2)]
    by (auto simp: spend_def min_def split: if_splits)
next
  case (split records st oc st1 left st2 right st3)
  then have two: "records = [] \<or> 2 \<le> length records" by (cases records; cases "tl records") (auto simp: settle_def split: if_splits)
  then have "2 \<le> length records \<Longrightarrow> take (length records div 2) records \<noteq> [] \<and> drop (length records div 2) records \<noteq> []" by auto
  with two split show ?case using post_records_log [OF split(2)] post_records_used [OF split(2)]
    by (auto simp: spend_def min_def split: if_splits)
qed

text \<open>A server whose answer to a request depends only on whether a record in it is poison.\<close>

definition answers_by :: "(spool_event \<Rightarrow> bool) \<Rightarrow> 'w upload_config \<Rightarrow> string \<Rightarrow> bool" where
  "answers_by poison cfg source \<longleftrightarrow>
     (\<forall>records w. case classify_post (fst (uc_post cfg (uc_api_url cfg @ ''/upload'') (auth_headers cfg) (build_payload source records) w)) of
        Inl _ \<Rightarrow> False
      | Inr oc \<Rightarrow> (if list_ex poison records then \<not> ho_success oc \<and> ho_category oc = Some PermanentRejection else ho_success oc))"

lemma answered_by:
  assumes "answers_by poison cfg source" "post_records cfg source records st = (r, st')"
  shows "\<exists>oc. r = Inr oc \<and> (if list_ex poison records then \<not> ho_success oc \<and> ho_category oc = Some PermanentRejection else ho_success oc)"
  using assms by (auto simp: answers_by_def post_records_def split: prod.splits sum.splits)
    (metis (no_types, lifting) fst_conv sum.case)+

lemma filter_halves: "filter P (take n xs) @ filter P (drop n xs) = filter P xs"
  by (metis append_take_drop_id filter_append)

lemma isolate_exact:
  assumes "attempt_and_isolate cfg source records st = (r, st')" "answers_by poison cfg source"
  shows "records \<noteq> [] \<longrightarrow> int (is_used st + 2 * length records) \<le> uc_max_isolation cfg + 1
    \<longrightarrow> (\<exists>il. r = Inr il \<and> il_delivered il = filter (\<lambda>e. \<not> poison e) records \<and> il_quarantined il = filter poison records
          \<and> il_pending il = [] \<and> \<not> il_budget_exhausted il) \<and> is_used st' + 1 \<le> is_used st + 2 * length records"
  using assms(1)
proof (induction rule: isolate_induct)
  case (exhausted records st)
  then show ?case by (cases records) auto
next
  case (raised records st e st1)
  then show ?case using answered_by [OF assms(2) raised(2)] by simp
next
  case (settled records st oc st1 il)
  have u: "is_used st1 = is_used st + 1" using post_records_used [OF settled(2)] by (simp add: spend_def)
  have a: "if list_ex poison records then \<not> ho_success oc \<and> ho_category oc = Some PermanentRejection else ho_success oc"
    using answered_by [OF assms(2) settled(2)] by simp
  show ?case
  proof (cases "list_ex poison records")
    case True
    with a settled(3) obtain e where "records = [e]" "il = nothing_isolated\<lparr>il_quarantined := [e], il_last_category := ho_category oc, il_last_error := ho_error oc\<rparr>"
      by (cases records; cases "tl records") (auto simp: settle_def split: if_splits)
    then show ?thesis using u True by (simp add: nothing_isolated_def)
  next
    case False
    then have "filter poison records = []" "filter (\<lambda>e. \<not> poison e) records = records" by (auto simp: list_ex_iff filter_empty_conv)
    with False a settled(3) u show ?thesis by (cases records) (auto simp: settle_def nothing_isolated_def split: if_splits)
  qed
next
  case (left_raised records st oc st1 e st2)
  then have two: "records = [] \<or> 2 \<le> length records" by (cases records; cases "tl records") (auto simp: settle_def split: if_splits)
  have half: "min (length records) (length records div 2) = length records div 2" by simp
  from two left_raised(4) show ?case using post_records_used [OF left_raised(2)] half by (auto simp: spend_def)
next
  case (right_raised records st oc st1 left st2 e st3)
  then have two: "records = [] \<or> 2 \<le> length records" by (cases records; cases "tl records") (auto simp: settle_def split: if_splits)
  have half: "min (length records) (length records div 2) = length records div 2" by simp
  from two right_raised(4,5) show ?case using post_records_used [OF right_raised(2)] half by (auto simp: spend_def)
next
  case (split records st oc st1 left st2 right st3)
  then have two: "records = [] \<or> 2 \<le> length records" by (cases records; cases "tl records") (auto simp: settle_def split: if_splits)
  have half: "min (length records) (length records div 2) = length records div 2" by simp
  from two split(4,5) show ?case using post_records_used [OF split(2)] half
    by (auto simp: spend_def merge_isolation_def filter_halves)
qed

text \<open>C31. Isolation always ends, and within its budget: it sends at most as many requests as the budget has left, and never more
  than twice the number of records less one, whatever the server answers.\<close>

theorem isolation_within_budget:
  assumes "attempt_and_isolate cfg source records \<lparr>is_used = 0, is_world = w, is_requests = []\<rparr> = (r, st')"
  shows "int (length (is_requests st')) \<le> max 0 (uc_max_isolation cfg)
    \<and> (records \<noteq> [] \<longrightarrow> length (is_requests st') < 2 * length records)"
  using isolate_requests [OF assms] by auto

text \<open>Every record of an isolation ends up delivered, quarantined or still pending, none is lost or counted twice; a delivered
  record was in a request answered with success, and a quarantined one was rejected for good on its own.\<close>

lemma isolation_accounts_for_all:
  assumes "attempt_and_isolate cfg source records \<lparr>is_used = n, is_world = w, is_requests = []\<rparr> = (Inr il, st')"
  shows "mset records = mset (il_delivered il) + mset (il_quarantined il) + mset (il_pending il)
    \<and> (\<forall>e \<in> set (il_delivered il). answered_success (is_requests st') e)
    \<and> (\<forall>e \<in> set (il_quarantined il). rejected_alone (is_requests st') e)"
  using isolate_accounts [OF assms] by (simp add: accounted_def)

text \<open>C30. Isolation finds exactly the poison: against a server that rejects a request for good if and only if a poison record is in
  it, and with budget for twice the records, it delivers all the others in order, quarantines exactly the poison ones in order,
  and leaves nothing pending.\<close>

theorem isolation_finds_poison:
  assumes "answers_by poison cfg source" "records \<noteq> []" "2 * int (length records) \<le> uc_max_isolation cfg + 1"
  shows "\<exists>il st'. attempt_and_isolate cfg source records \<lparr>is_used = 0, is_world = w, is_requests = []\<rparr> = (Inr il, st')
    \<and> il_delivered il = filter (\<lambda>e. \<not> poison e) records \<and> il_quarantined il = filter poison records
    \<and> il_pending il = [] \<and> \<not> il_budget_exhausted il"
proof -
  obtain r st' where r: "attempt_and_isolate cfg source records \<lparr>is_used = 0, is_world = w, is_requests = []\<rparr> = (r, st')"
    by (cases "attempt_and_isolate cfg source records \<lparr>is_used = 0, is_world = w, is_requests = []\<rparr>") auto
  with isolate_exact [OF r assms(1)] assms(2,3) show ?thesis by auto
qed

text \<open>A server that rejects any request holding a record with a member named ''bad''.\<close>

fun records_in :: "json \<Rightarrow> (string \<times> json) list list" where
  "records_in (JArr xs) = concat (List.map (\<lambda>x. case x of JObj ms \<Rightarrow> [ms] | _ \<Rightarrow> []) xs)"
| "records_in _ = []"

definition is_bad :: "spool_event \<Rightarrow> bool" where
  "is_bad e \<longleftrightarrow> map_of e ''bad'' \<noteq> None"

definition picky_server :: "unit upload_config" where
  "picky_server = \<lparr>uc_api_url = ''https://example.org'', uc_api_token = ''token'', uc_sources = [''acs''], uc_max_isolation = 20,
     uc_max_body_bytes = 1000, uc_upload_enabled = True,
     uc_post = (\<lambda>url headers payload w.
        (if list_ex is_bad (records_in (jget payload ''acs'')) then Answer 400 None ''bad''
         else Answer 200 (Some (JObj [(''status'', JStr ''success'')])) '''', w)),
     uc_dump_size = (\<lambda>_. 0)\<rparr>"

lemma picky_answers: "answers_by is_bad picky_server ''acs''"
proof -
  have "jget (build_payload ''acs'' records) ''acs'' = JArr (List.map JObj records)" for records
    by (simp add: build_payload_def)
  moreover have "concat (List.map (\<lambda>x. case x of JObj ms \<Rightarrow> [ms] | _ \<Rightarrow> []) (List.map JObj records)) = records" for records
    by (induction records) simp_all
  ultimately show ?thesis
    by (simp add: answers_by_def picky_server_def failed_post_def auth_status_codes_def permanent_status_codes_def)
qed

theorem isolation_finds_poison_witness:
  "\<exists>il st'. attempt_and_isolate picky_server ''acs'' [[(''bad'', JNull)], [(''good'', JNull)]] \<lparr>is_used = 0, is_world = (), is_requests = []\<rparr> = (Inr il, st')
    \<and> il_delivered il = [[(''good'', JNull)]] \<and> il_quarantined il = [[(''bad'', JNull)]]"
  using isolation_finds_poison [OF picky_answers, of "[[(''bad'', JNull)], [(''good'', JNull)]]" "()"]
  by (auto simp: picky_server_def is_bad_def)

lemma sample_isolation:
  "\<exists>il st'. attempt_and_isolate picky_server ''acs'' [[(''good'', JNull)]] \<lparr>is_used = 0, is_world = (), is_requests = []\<rparr> = (Inr il, st')
    \<and> il_delivered il = [[(''good'', JNull)]]"
  using isolate_exact [of picky_server "''acs''" "[[(''good'', JNull)]]" "\<lparr>is_used = 0, is_world = (), is_requests = []\<rparr>", OF _ picky_answers]
  by (cases "attempt_and_isolate picky_server ''acs'' [[(''good'', JNull)]] \<lparr>is_used = 0, is_world = (), is_requests = []\<rparr>")
    (auto simp: picky_server_def is_bad_def)

theorem isolation_within_budget_witness:
  "\<exists>r st'. attempt_and_isolate picky_server ''acs'' [[(''good'', JNull)]] \<lparr>is_used = 0, is_world = (), is_requests = []\<rparr> = (r, st')
    \<and> length (is_requests st') \<le> 1"
proof -
  obtain il st' where r: "attempt_and_isolate picky_server ''acs'' [[(''good'', JNull)]] \<lparr>is_used = 0, is_world = (), is_requests = []\<rparr> = (Inr il, st')"
    using sample_isolation by blast
  from isolation_within_budget [OF r] r show ?thesis by auto
qed

lemma isolation_accounts_for_all_witness:
  "\<exists>il st'. attempt_and_isolate picky_server ''acs'' [[(''good'', JNull)]] \<lparr>is_used = 0, is_world = (), is_requests = []\<rparr> = (Inr il, st')
    \<and> answered_success (is_requests st') [(''good'', JNull)]"
proof -
  obtain il st' where r: "attempt_and_isolate picky_server ''acs'' [[(''good'', JNull)]] \<lparr>is_used = 0, is_world = (), is_requests = []\<rparr> = (Inr il, st')"
    and d: "il_delivered il = [[(''good'', JNull)]]" using sample_isolation by blast
  from isolation_accounts_for_all [OF r] d have "answered_success (is_requests st') [(''good'', JNull)]" by simp
  with r show ?thesis by blast
qed

end
