(* ===== verification/AgentCollector.thy ===== *)
theory AgentCollector
  imports AgentSpool V2Parsers
begin

text \<open>
  The continuous collector of one source, agent/runtime/collector.py and agent/runtime/events.py: from
  the log file over the tailer and the parser into the buffer, from there into spool batches, and only
  then the durable cursor. The collector's fields and the disk are one state, so that a raise keeps what
  was changed before it. The parsers are those of \<open>V2Parsers\<close>; pandas' time parsing and printing are the
  fields \<open>cl_parse_dt\<close> and \<open>cl_show_dt\<close> of the configuration. Clock readings and file views of one poll
  come from its environment. Log messages are not modelled.
\<close>

section \<open>Events (agent/runtime/events.py)\<close>

datatype parsed_row = CheckinLine checkin_row | RejectLine reject_row | AcsLine acs_row

text \<open>\<open>make_json_safe\<close>: a missing value is null, a timestamp its text.\<close>

definition text_or_null :: "string option \<Rightarrow> json" where
  "text_or_null v = (case v of None \<Rightarrow> JNull | Some s \<Rightarrow> JStr s)"

definition checkin_cell :: "checkin_row \<Rightarrow> string \<Rightarrow> json" where
  "checkin_cell r name = text_or_null (map_of (zip checkin_columns (cr_cells r)) name)"

fun build_event :: "(int \<Rightarrow> string) \<Rightarrow> int \<Rightarrow> int \<Rightarrow> parsed_row \<Rightarrow> spool_event" where
  "build_event show_dt customer branch (CheckinLine r) =
     [(''customer_id'', JInt customer), (''branch_id'', JInt branch),
      (''event_time'', text_or_null (map_option show_dt (cr_datetime r))), (''title'', checkin_cell r ''title''),
      (''barcode'', checkin_cell r ''barcode''), (''collection_code'', checkin_cell r ''collection_code''),
      (''call_number'', checkin_cell r ''call_number''), (''shelf_code'', checkin_cell r ''shelf_code''),
      (''destination'', JStr (cr_destination r)), (''bin'', checkin_cell r ''bin''), (''is_problem'', JBool (cr_is_problem r)),
      (''message'', checkin_cell r ''message''), (''flag_1'', checkin_cell r ''flag_1''), (''flag_2'', checkin_cell r ''flag_2''),
      (''flag_3'', checkin_cell r ''flag_3''), (''source_file'', JStr ''Checkins.txt'')]"
| "build_event show_dt customer branch (RejectLine r) =
     [(''customer_id'', JInt customer), (''branch_id'', JInt branch),
      (''event_time'', text_or_null (map_option show_dt (rr_datetime r))), (''barcode'', JStr (rr_barcode r)),
      (''message'', JStr (rr_error_message r)), (''source_file'', JStr ''Rejects.txt'')]"
| "build_event show_dt customer branch (AcsLine r) =
     [(''customer_id'', JInt customer), (''branch_id'', JInt branch),
      (''event_time'', text_or_null (map_option show_dt (ar_datetime r))), (''message_code'', JStr (ar_message_code r)),
      (''barcode'', text_or_null (ar_barcode r)), (''title'', text_or_null (ar_title r)), (''patron_id'', text_or_null (ar_patron_id r)),
      (''destination'', text_or_null (ar_destination r)), (''raw_message'', JStr (ar_raw_message r)),
      (''source_file'', JStr ''ACS Log.txt'')]"

section \<open>Configuration and state\<close>

datatype bootstrap_mode = BootNormal | BootReplay | BootOffset nat

record collector_config =
  cl_name :: string
  cl_path :: string
  cl_mode :: bootstrap_mode
  cl_agent_id :: string
  cl_customer_id :: int
  cl_branch_id :: int
  cl_max_events :: int
  cl_max_seconds :: rat
  cl_parse_dt :: "string \<Rightarrow> int option"
  cl_show_dt :: "int \<Rightarrow> string"

datatype disc_kind = KindRotated | KindTruncated

type_synonym discontinuity = "disc_kind \<times> source_identity option"

record collector =
  co_read_cursor :: "file_cursor option"
  co_generation :: int
  co_buffer :: "(nat \<times> spool_event) list"
  co_buffer_generation :: "int option"
  co_buffer_end :: "nat option"
  co_buffer_started :: "rat option"
  co_pending_cursor :: "file_cursor option"
  co_bootstrapped :: bool
  co_discontinuity :: "discontinuity option"
  co_disk :: disk

definition new_collector :: "disk \<Rightarrow> collector" where
  "new_collector d = \<lparr>co_read_cursor = None, co_generation = 0, co_buffer = [], co_buffer_generation = None, co_buffer_end = None,
     co_buffer_started = None, co_pending_cursor = None, co_bootstrapped = False, co_discontinuity = None, co_disk = d\<rparr>"

definition on_disk :: "(disk, 'a) action \<Rightarrow> (collector, 'a) action" where
  "on_disk m = (\<lambda>c. case m (co_disk c) of (r, d) \<Rightarrow> (r, c\<lparr>co_disk := d\<rparr>))"

text \<open>What one poll sees: the file at bootstrap and at the read, two clock readings, the time stamped on the state.\<close>

record poll_env =
  pe_boot :: file_view
  pe_view :: file_view
  pe_read_time :: rat
  pe_check_time :: rat
  pe_now :: string

text \<open>The parser of the source: the rows with the offsets of their lines.\<close>

definition parse_source :: "collector_config \<Rightarrow> (nat \<times> string) list \<Rightarrow> agent_exn + parsed_row list \<times> nat list" where
  "parse_source cfg ns =
     (if cl_name cfg = ''checkins'' then Inr (map_prod (List.map CheckinLine) id (parse_checkins_with_offsets (cl_parse_dt cfg) ns))
      else if cl_name cfg = ''rejects'' then Inr (map_prod (List.map RejectLine) id (parse_rejects_with_offsets (cl_parse_dt cfg) ns))
      else if cl_name cfg = ''acs'' then Inr (map_prod (List.map AcsLine) id (parse_acs_with_offsets (cl_parse_dt cfg) ns))
      else Inl KeyErr)"

section \<open>The durable cursor\<close>

definition loaded_state :: "(collector, agent_state) action" where
  "loaded_state = (\<lambda>c. (load_agent_state (dk_state (co_disk c)), c))"

definition put_state :: "string \<Rightarrow> agent_state \<Rightarrow> disk \<Rightarrow> disk" where
  "put_state now st d = d\<lparr>dk_state := Some (Some (to_json_dict now st))\<rparr>"

definition save_source :: "collector_config \<Rightarrow> string \<Rightarrow> agent_state \<Rightarrow> file_cursor \<Rightarrow> int \<Rightarrow> (collector, unit) action" where
  "save_source cfg now st cursor generation =
     (case update_source st (cl_name cfg) (cl_path cfg) cursor generation of
        Inl e \<Rightarrow> fail e
      | Inr st' \<Rightarrow> on_disk (install (put_state now st')))"

definition persist_state :: "collector_config \<Rightarrow> string \<Rightarrow> (collector, bool) action" where
  "persist_state cfg now = (\<lambda>c.
     case co_pending_cursor c of
        None \<Rightarrow> (Inr False, c)
      | Some cursor \<Rightarrow>
          chain loaded_state (\<lambda>st. chain (save_source cfg now st cursor (co_generation c)) (\<lambda>_. give True)) c)"

text \<open>\<open>_bootstrap_if_needed\<close>; \<open>getsize\<close> of a file that vanished after it was identified raises.\<close>

definition bootstrap_if_needed :: "collector_config \<Rightarrow> poll_env \<Rightarrow> (collector, bool) action" where
  "bootstrap_if_needed cfg env = (\<lambda>c.
     if co_bootstrapped c then (Inr True, c)
     else chain loaded_state (\<lambda>st.
       (case agent_get_source st (cl_name cfg) of
          Some prior \<Rightarrow>
            chain (update (\<lambda>c. c\<lparr>co_read_cursor := Some (as_cursor prior), co_generation := as_generation prior, co_bootstrapped := True\<rparr>))
              (\<lambda>_. give True)
        | None \<Rightarrow>
            (case cl_mode cfg of
               BootReplay \<Rightarrow>
                 chain (update (\<lambda>c. c\<lparr>co_read_cursor := None, co_generation := 0, co_bootstrapped := True\<rparr>)) (\<lambda>_. give True)
             | BootOffset offset \<Rightarrow>
                 (case identify (pe_boot env) of None \<Rightarrow> give False
                  | Some i \<Rightarrow>
                      chain (update (\<lambda>c. c\<lparr>co_read_cursor := Some \<lparr>fc_identity = Some i, fc_offset = offset\<rparr>, co_generation := 0,
                        co_bootstrapped := True\<rparr>)) (\<lambda>_. give True))
             | BootNormal \<Rightarrow>
                 (case identify (pe_boot env) of None \<Rightarrow> give False
                  | Some i \<Rightarrow>
                      (case fv_size (pe_boot env) of None \<Rightarrow> fail OsError
                       | Some eof \<Rightarrow>
                           (let cursor = \<lparr>fc_identity = Some i, fc_offset = eof\<rparr> in
                            chain (update (\<lambda>c. c\<lparr>co_read_cursor := Some cursor, co_generation := 0, co_bootstrapped := True\<rparr>)) (\<lambda>_.
                            chain (save_source cfg (pe_now env) st cursor 0) (\<lambda>_. give True)))))))) c)"

section \<open>Flushing\<close>

definition should_flush :: "collector_config \<Rightarrow> rat \<Rightarrow> collector \<Rightarrow> bool" where
  "should_flush cfg now c \<longleftrightarrow>
     (if co_buffer c = [] then False
      else if int (length (co_buffer c)) \<ge> cl_max_events cfg then True
      else (case co_buffer_started c of None \<Rightarrow> False | Some started \<Rightarrow> now - started \<ge> cl_max_seconds cfg))"

text \<open>The slices \<open>range(0, len, step)\<close> cuts: none at all for a negative step, an error for zero.\<close>

definition buffer_chunks :: "int \<Rightarrow> 'a list \<Rightarrow> agent_exn + 'a list list" where
  "buffer_chunks step xs = (if step = 0 then Inl ValueErr else if step < 0 then Inr [] else Inr (chunks (nat step) xs))"

text \<open>Each chunk ends where the next one begins, the last one where the read ended.\<close>

fun write_chunks :: "(nat \<Rightarrow> stamp) \<Rightarrow> string \<Rightarrow> int \<Rightarrow> nat \<Rightarrow> (nat \<times> spool_event) list list \<Rightarrow> (disk, unit) action" where
  "write_chunks stamps source generation final_end [] = give ()"
| "write_chunks stamps source generation final_end (chunk # rest) =
     chain (write_batch stamps source (List.map snd chunk) generation (int (fst (hd chunk)))
         (int (case rest of [] \<Rightarrow> final_end | following # _ \<Rightarrow> fst (hd following))))
       (\<lambda>_. write_chunks stamps source generation final_end rest)"

definition flush :: "(nat \<Rightarrow> stamp) \<Rightarrow> collector_config \<Rightarrow> string \<Rightarrow> (collector, nat \<times> nat \<times> bool) action" where
  "flush stamps cfg now = (\<lambda>c.
     if co_buffer c = [] then (Inr (0, 0, False), c)
     else
       (let generation = (case co_buffer_generation c of None \<Rightarrow> co_generation c | Some g \<Rightarrow> g) in
        case buffer_chunks (cl_max_events cfg) (co_buffer c) of
          Inl e \<Rightarrow> (Inl e, c)
        | Inr cs \<Rightarrow>
            (case co_buffer_end c of None \<Rightarrow> (Inl RuntimeErr, c)
             | Some final_end \<Rightarrow>
                 chain (on_disk (write_chunks stamps (cl_name cfg) generation final_end cs)) (\<lambda>_.
                 chain (update (\<lambda>c. c\<lparr>co_buffer := [], co_buffer_generation := None, co_buffer_started := None\<rparr>)) (\<lambda>_.
                 chain (persist_state cfg now) (\<lambda>persisted.
                 give (length (co_buffer c), length cs, persisted)))) c)))"

definition force_flush :: "(nat \<Rightarrow> stamp) \<Rightarrow> collector_config \<Rightarrow> string \<Rightarrow> (collector, nat \<times> nat \<times> bool) action" where
  "force_flush = flush"

definition flush_if_due :: "(nat \<Rightarrow> stamp) \<Rightarrow> collector_config \<Rightarrow> poll_env \<Rightarrow> (collector, nat \<times> nat \<times> bool) action" where
  "flush_if_due stamps cfg env = (\<lambda>c. if should_flush cfg (pe_check_time env) c then flush stamps cfg (pe_now env) c else (Inr (0, 0, False), c))"

section \<open>One poll\<close>

record cycle_report =
  cy_source :: string
  cy_existed :: bool
  cy_rotated :: bool
  cy_truncated :: bool
  cy_events_read :: nat
  cy_events_flushed :: nat
  cy_batches_written :: nat
  cy_state_persisted :: bool
  cy_source_missing :: bool
  cy_pending_discontinuity :: bool

definition candidate :: "tail_result \<Rightarrow> discontinuity option" where
  "candidate r =
     (if tl_rotated r then Some (KindRotated, fc_identity (tl_cursor r))
      else if tl_truncated r then Some (KindTruncated, None) else None)"

fun append_events :: "collector_config \<Rightarrow> rat \<Rightarrow> parsed_row list \<Rightarrow> nat list \<Rightarrow> (collector, unit) action" where
  "append_events cfg now (row # rows) (offset # offsets) = (\<lambda>c.
     case compute_source_event_id (cl_agent_id cfg) (cl_name cfg) (co_generation c) (int offset) of
        Inl e \<Rightarrow> (Inl e, c)
      | Inr event_id \<Rightarrow>
          (let event = build_event (cl_show_dt cfg) (cl_customer_id cfg) (cl_branch_id cfg) row @ [(''source_event_id'', JStr event_id)];
               c = (if co_buffer_generation c = None
                    then c\<lparr>co_buffer_generation := Some (co_generation c), co_buffer_started := Some now\<rparr> else c)
           in append_events cfg now rows offsets (c\<lparr>co_buffer := co_buffer c @ [(offset, event)]\<rparr>)))"
| "append_events cfg now _ _ = give ()"

text \<open>The end of a poll that read: the cursor is persisted when nothing is at risk, what is due goes out.\<close>

definition finish_poll :: "(nat \<Rightarrow> stamp) \<Rightarrow> collector_config \<Rightarrow> poll_env \<Rightarrow> tail_result \<Rightarrow> nat \<Rightarrow> (collector, cycle_report) action" where
  "finish_poll stamps cfg env r events_read =
     chain (\<lambda>c. if events_read = 0 \<and> co_buffer c = [] then persist_state cfg (pe_now env) c else (Inr False, c)) (\<lambda>persisted.
     chain (flush_if_due stamps cfg env) (\<lambda>(flushed, batches, flush_persisted).
     give \<lparr>cy_source = cl_name cfg, cy_existed = True, cy_rotated = tl_rotated r, cy_truncated = tl_truncated r,
       cy_events_read = events_read, cy_events_flushed = flushed, cy_batches_written = batches,
       cy_state_persisted = persisted \<or> flush_persisted, cy_source_missing = False, cy_pending_discontinuity = False\<rparr>))"

text \<open>The read of the poll is taken in: events into the buffer, then the cursors.\<close>

definition take_in :: "(nat \<Rightarrow> stamp) \<Rightarrow> collector_config \<Rightarrow> poll_env \<Rightarrow> tail_result \<Rightarrow> (collector, cycle_report) action" where
  "take_in stamps cfg env r =
     (case (if tl_lines r = [] then Inr ([], []) else parse_source cfg (zip (tl_line_offsets r) (tl_lines r))) of
        Inl e \<Rightarrow> fail e
      | Inr (rows, kept) \<Rightarrow>
          chain (append_events cfg (pe_read_time env) rows kept) (\<lambda>_.
          chain (update (\<lambda>c. c\<lparr>co_buffer_end := Some (fc_offset (tl_cursor r)), co_pending_cursor := Some (tl_cursor r),
            co_read_cursor := Some (tl_cursor r)\<rparr>)) (\<lambda>_.
          finish_poll stamps cfg env r (length rows))))"

text \<open>A cycle that takes nothing in: the source is missing, or a discontinuity is withheld.\<close>

definition idle_report :: "string \<Rightarrow> bool \<Rightarrow> nat \<times> nat \<times> bool \<Rightarrow> cycle_report" where
  "idle_report source missing flushed = (case flushed of (events, batches, persisted) \<Rightarrow>
     \<lparr>cy_source = source, cy_existed = \<not> missing, cy_rotated = False, cy_truncated = False, cy_events_read = 0,
      cy_events_flushed = events, cy_batches_written = batches, cy_state_persisted = persisted, cy_source_missing = missing,
      cy_pending_discontinuity = \<not> missing\<rparr>)"

text \<open>A confirmed discontinuity: the buffer goes out under the old generation, then the generation advances.\<close>

definition confirm_discontinuity :: "(nat \<Rightarrow> stamp) \<Rightarrow> collector_config \<Rightarrow> poll_env \<Rightarrow> tail_result \<Rightarrow> (collector, unit) action" where
  "confirm_discontinuity stamps cfg env r =
     chain (update (\<lambda>c. c\<lparr>co_discontinuity := None\<rparr>)) (\<lambda>_.
     chain (flush stamps cfg (pe_now env)) (\<lambda>_ c.
       (let cursor = (case co_read_cursor c of None \<Rightarrow> \<lparr>fc_identity = None, fc_offset = 0\<rparr> | Some x \<Rightarrow> x) in
        case mk_agent_source (cl_path cfg) (fc_identity cursor) (int (fc_offset cursor)) (co_generation c) of
          Inl e \<Rightarrow> (Inl e, c)
        | Inr prior \<Rightarrow> (Inr (), c\<lparr>co_generation := advance_generation (Some prior) (tl_rotated r) (tl_truncated r)\<rparr>))))"

definition poll_once :: "(nat \<Rightarrow> stamp) \<Rightarrow> collector_config \<Rightarrow> poll_env \<Rightarrow> (collector, cycle_report) action" where
  "poll_once stamps cfg env =
     chain (bootstrap_if_needed cfg env) (\<lambda>ready.
       if \<not> ready then give (idle_report (cl_name cfg) True (0, 0, False))
       else (\<lambda>c.
         (let r = tail_read (pe_view env) (co_read_cursor c) in
          if \<not> tl_existed r
          then chain (flush_if_due stamps cfg env) (\<lambda>flushed. give (idle_report (cl_name cfg) True flushed)) c
          else (case candidate r of
             None \<Rightarrow> take_in stamps cfg env r (c\<lparr>co_discontinuity := None\<rparr>)
           | Some d \<Rightarrow>
               if co_discontinuity c = Some d
               then chain (confirm_discontinuity stamps cfg env r) (\<lambda>_. take_in stamps cfg env r) c
               else chain (flush_if_due stamps cfg env) (\<lambda>flushed. give (idle_report (cl_name cfg) False flushed))
                      (c\<lparr>co_discontinuity := Some d\<rparr>)))))"

end
