(* ===== verification/AgentKeeps.thy ===== *)
theory AgentKeeps
  imports AgentUploader AgentCollector
begin

text \<open>
  What the spool keeps. An event is \<open>kept\<close> when it is in a pending or quarantined file of its source, or
  satisfies a predicate for having been delivered. Every operation of agent/spool.py keeps what was kept,
  whether it raises or not; only acknowledging a batch takes a file away, and the uploader does so only
  when each record was in a request answered with success or has been written to the quarantine.
  Names stay distinct because the random parts drawn (UUIDs) do not repeat.
\<close>

section \<open>Kept events and fresh names\<close>

fun file_events :: "spool_file \<Rightarrow> spool_event set" where
  "file_events (SpoolText lines) = {r. JsonLine (JObj r) \<in> set lines}"
| "file_events _ = {}"

definition kept :: "(spool_event \<Rightarrow> bool) \<Rightarrow> disk \<Rightarrow> string \<Rightarrow> spool_event \<Rightarrow> bool" where
  "kept delivered d source e \<longleftrightarrow> delivered e
     \<or> (\<exists>f \<in> snd ` set (dk_pending d source). e \<in> file_events f) \<or> (\<exists>f \<in> snd ` set (dk_quarantine d source). e \<in> file_events f)"

definition random_part :: "stamp \<Rightarrow> string" where
  "random_part t = snd (snd t)"

definition stamps_ok :: "(nat \<Rightarrow> stamp) \<Rightarrow> bool" where
  "stamps_ok stamps \<longleftrightarrow> (\<forall>j k. random_part (stamps j) = random_part (stamps k) \<longrightarrow> j = k) \<and> (\<forall>k. CHR ''-'' \<notin> set (random_part (stamps k)))"

definition ends_in :: "stamp \<Rightarrow> string \<Rightarrow> bool" where
  "ends_in t name \<longleftrightarrow> last (split_on (CHR ''-'') name) = random_part t @ ndjson"

definition names_of :: "disk \<Rightarrow> string \<Rightarrow> string set" where
  "names_of d source = fst ` set (dk_pending d source) \<union> fst ` set (dk_quarantine d source)"

definition spool_ok :: "(nat \<Rightarrow> stamp) \<Rightarrow> disk \<Rightarrow> bool" where
  "spool_ok stamps d \<longleftrightarrow> (\<forall>source. distinct (List.map fst (dk_pending d source)) \<and> distinct (List.map fst (dk_quarantine d source))
     \<and> (\<forall>name \<in> names_of d source. \<forall>k \<ge> dk_names d. \<not> ends_in (stamps k) name))"

type_synonym keeping = "(string \<times> spool_event) set"

definition keeps :: "(nat \<Rightarrow> stamp) \<Rightarrow> keeping \<Rightarrow> (spool_event \<Rightarrow> bool) \<Rightarrow> disk \<Rightarrow> bool" where
  "keeps stamps S delivered d \<longleftrightarrow> spool_ok stamps d \<and> (\<forall>(source, e) \<in> S. kept delivered d source e)"

lemma last_split_on: "c \<notin> set y \<Longrightarrow> last (split_on c (x @ c # y)) = y"
proof (induction x)
  case Nil
  then show ?case by (simp add: split_on_no_sep)
next
  case (Cons a x)
  show ?case
  proof (cases "split_on c (x @ c # y)")
    case Nil
    then show ?thesis by simp
  next
    case s: (Cons p ps)
    have "ps \<noteq> []"
    proof
      assume "ps = []"
      then have "c \<notin> set y \<and> split_on c (x @ c # y) = [p]" using Cons.prems s by simp
      moreover have "2 \<le> length (split_on c (x @ c # y))" by (induction x) (auto split: list.splits simp: Suc_le_eq)
      ultimately show False by simp
    qed
    then show ?thesis using Cons s by simp
  qed
qed

lemma name_ends_in:
  "stamps_ok stamps \<Longrightarrow> ends_in (stamps k) (x @ name_tail (stamps k) @ ndjson)"
  "stamps_ok stamps \<Longrightarrow> ends_in (stamps k) (x @ ''-dup-'' @ random_part (stamps k) @ ndjson)"
proof -
  assume ok: "stamps_ok stamps"
  then have n: "CHR ''-'' \<notin> set (random_part (stamps k) @ ndjson)" by (simp add: stamps_ok_def ndjson_def)
  obtain ns seq r where t: "stamps k = (ns, seq, r)" by (cases "stamps k") auto
  have "x @ name_tail (stamps k) @ ndjson = (x @ show_nat ns @ ''-'' @ zero_fill 10 seq) @ CHR ''-'' # (random_part (stamps k) @ ndjson)"
    by (simp add: t random_part_def)
  then show "ends_in (stamps k) (x @ name_tail (stamps k) @ ndjson)" unfolding ends_in_def using last_split_on [OF n] by (simp only:)
  have "x @ ''-dup-'' @ random_part (stamps k) @ ndjson = (x @ ''-dup'') @ CHR ''-'' # (random_part (stamps k) @ ndjson)" by simp
  then show "ends_in (stamps k) (x @ ''-dup-'' @ random_part (stamps k) @ ndjson)" unfolding ends_in_def using last_split_on [OF n] by (simp only:)
qed

lemma ends_in_unique: "\<lbrakk>stamps_ok stamps; ends_in (stamps j) name; ends_in (stamps k) name\<rbrakk> \<Longrightarrow> j = k"
  by (auto simp: stamps_ok_def ends_in_def)

lemma later_names: "\<lbrakk>stamps_ok stamps; ends_in (stamps k) name; k < n\<rbrakk> \<Longrightarrow> \<forall>j \<ge> n. \<not> ends_in (stamps j) name"
  using ends_in_unique by fastforce

lemma alist_update_new: "k \<notin> fst ` set al \<Longrightarrow> AList.update k v al = al @ [(k, v)]"
  by (induction al) auto

lemma alist_delete_names: "distinct (List.map fst al) \<Longrightarrow> distinct (List.map fst (AList.delete k al))"
  by (simp add: AList.distinct_delete)

lemma kept_mono: "\<lbrakk>kept D d s e; \<And>x. D x \<Longrightarrow> D' x\<rbrakk> \<Longrightarrow> kept D' d s e"
  by (auto simp: kept_def)

lemma keeps_mono: "\<lbrakk>keeps stamps S D d; \<And>x. D x \<Longrightarrow> D' x\<rbrakk> \<Longrightarrow> keeps stamps S D' d"
  by (auto simp: keeps_def intro: kept_mono)

lemma spool_ok_fewer:
  assumes "spool_ok stamps d" "\<And>s. names_of d' s \<subseteq> names_of d s"
    "\<And>s. distinct (List.map fst (dk_pending d' s))" "\<And>s. distinct (List.map fst (dk_quarantine d' s))" "dk_names d \<le> dk_names d'"
  shows "spool_ok stamps d'"
  unfolding spool_ok_def
proof (intro allI conjI ballI impI)
  fix s name k
  assume "name \<in> names_of d' s" "dk_names d' \<le> k"
  then have "name \<in> names_of d s" "dk_names d \<le> k" using assms(2) [of s] assms(5) by auto
  then show "\<not> ends_in (stamps k) name" using assms(1) by (simp add: spool_ok_def)
qed (use assms(3,4) in auto)

text \<open>What touches neither listing nor the names drawn keeps everything.\<close>

lemma keeps_same:
  "\<lbrakk>keeps stamps S D d; dk_pending d' = dk_pending d; dk_quarantine d' = dk_quarantine d; dk_names d \<le> dk_names d'\<rbrakk>
   \<Longrightarrow> keeps stamps S D d'"
  unfolding keeps_def spool_ok_def kept_def names_of_def by auto

lemma keeps_put_pending:
  assumes "keeps stamps S D d" "\<forall>j \<ge> dk_names d. \<not> ends_in (stamps j) name" "name \<notin> fst ` set (dk_pending d source)"
  shows "keeps stamps (S \<union> Pair source ` file_events content) D (put_pending source name content d)"
proof -
  have p: "dk_pending (put_pending source name content d) source = dk_pending d source @ [(name, content)]"
    "s \<noteq> source \<Longrightarrow> dk_pending (put_pending source name content d) s = dk_pending d s"
    "dk_quarantine (put_pending source name content d) = dk_quarantine d" "dk_names (put_pending source name content d) = dk_names d" for s
    using alist_update_new [OF assms(3)] by (simp_all add: put_pending_def)
  have "kept D (put_pending source name content d) s e" if "kept D d s e" for s e
    using that p by (cases "s = source") (auto simp: kept_def)
  moreover have "kept D (put_pending source name content d) source e" if "e \<in> file_events content" for e
    using that p by (auto simp: kept_def)
  moreover have "spool_ok stamps (put_pending source name content d)"
    unfolding spool_ok_def
  proof (intro allI conjI)
    fix s
    have ok: "distinct (List.map fst (dk_pending d s))" "distinct (List.map fst (dk_quarantine d s))"
      "\<forall>name \<in> names_of d s. \<forall>k \<ge> dk_names d. \<not> ends_in (stamps k) name"
      using assms(1) by (auto simp: keeps_def spool_ok_def)
    show "distinct (List.map fst (dk_pending (put_pending source name content d) s))" using ok p assms(3) by (cases "s = source") auto
    show "distinct (List.map fst (dk_quarantine (put_pending source name content d) s))" using ok p by simp
    show "\<forall>name' \<in> names_of (put_pending source name content d) s. \<forall>k \<ge> dk_names (put_pending source name content d). \<not> ends_in (stamps k) name'"
      using ok(3) assms(2) p by (cases "s = source") (auto simp: names_of_def)
  qed
  ultimately show ?thesis using assms(1) by (auto simp: keeps_def)
qed

lemma keeps_put_quarantine:
  assumes "keeps stamps S D d" "\<forall>j \<ge> dk_names d. \<not> ends_in (stamps j) name" "name \<notin> fst ` set (dk_quarantine d source)"
  shows "keeps stamps (S \<union> Pair source ` file_events content) D (put_quarantine source name content d)"
proof -
  have p: "dk_quarantine (put_quarantine source name content d) source = dk_quarantine d source @ [(name, content)]"
    "s \<noteq> source \<Longrightarrow> dk_quarantine (put_quarantine source name content d) s = dk_quarantine d s"
    "dk_pending (put_quarantine source name content d) = dk_pending d" "dk_names (put_quarantine source name content d) = dk_names d" for s
    using alist_update_new [OF assms(3)] by (simp_all add: put_quarantine_def)
  have "kept D (put_quarantine source name content d) s e" if "kept D d s e" for s e
    using that p by (cases "s = source") (auto simp: kept_def)
  moreover have "kept D (put_quarantine source name content d) source e" if "e \<in> file_events content" for e
    using that p by (auto simp: kept_def)
  moreover have "spool_ok stamps (put_quarantine source name content d)"
    unfolding spool_ok_def
  proof (intro allI conjI)
    fix s
    have ok: "distinct (List.map fst (dk_pending d s))" "distinct (List.map fst (dk_quarantine d s))"
      "\<forall>name \<in> names_of d s. \<forall>k \<ge> dk_names d. \<not> ends_in (stamps k) name"
      using assms(1) by (auto simp: keeps_def spool_ok_def)
    show "distinct (List.map fst (dk_quarantine (put_quarantine source name content d) s))" using ok p assms(3) by (cases "s = source") auto
    show "distinct (List.map fst (dk_pending (put_quarantine source name content d) s))" using ok p by simp
    show "\<forall>name' \<in> names_of (put_quarantine source name content d) s. \<forall>k \<ge> dk_names (put_quarantine source name content d). \<not> ends_in (stamps k) name'"
      using ok(3) assms(2) p by (cases "s = source") (auto simp: names_of_def)
  qed
  ultimately show ?thesis using assms(1) by (auto simp: keeps_def)
qed

text \<open>A pending file may go once each of its events is delivered or in the quarantine.\<close>

lemma keeps_drop_pending:
  assumes "keeps stamps S D d" "\<And>e. \<lbrakk>map_of (dk_pending d source) name = Some content; e \<in> file_events content\<rbrakk>
      \<Longrightarrow> D e \<or> (\<exists>f \<in> snd ` set (dk_quarantine d source). e \<in> file_events f)"
    "map_of (dk_pending d source) name = Some content"
  shows "keeps stamps S D (drop_pending source name d)"
proof -
  have dist: "distinct (List.map fst (dk_pending d source))" using assms(1) by (simp add: keeps_def spool_ok_def)
  have k: "kept D (drop_pending source name d) s e" if "kept D d s e" for s e
  proof (cases "s = source \<and> e \<in> file_events content")
    case True
    then show ?thesis using assms(2,3) by (auto simp: kept_def drop_pending_def)
  next
    case False
    have "\<exists>f \<in> snd ` set (AList.delete name (dk_pending d source)). e \<in> file_events f"
      if h: "(n, f) \<in> set (dk_pending d source)" "e \<in> file_events f" "s = source" for n f
    proof -
      have "n \<noteq> name" using h False assms(3) map_of_is_SomeI [OF dist] by fastforce
      then have "(n, f) \<in> set (AList.delete name (dk_pending d source))" using h(1) by (simp add: AList.delete_eq)
      with h(2) show ?thesis by force
    qed
    then show ?thesis using that by (auto simp: kept_def drop_pending_def)
  qed
  have "spool_ok stamps d" using assms(1) by (simp add: keeps_def)
  then have "spool_ok stamps (drop_pending source name d)"
  proof (rule spool_ok_fewer)
    show "names_of (drop_pending source name d) s \<subseteq> names_of d s" for s
      using AList.dom_delete_subset [of name "dk_pending d source"] by (auto simp: names_of_def drop_pending_def)
    show "distinct (List.map fst (dk_pending (drop_pending source name d) s))" "distinct (List.map fst (dk_quarantine (drop_pending source name d) s))" for s
      using \<open>spool_ok stamps d\<close> by (auto simp: spool_ok_def drop_pending_def alist_delete_names)
  qed (simp add: drop_pending_def)
  with k assms(1) show ?thesis by (auto simp: keeps_def)
qed

section \<open>The operations of the spool keep what was kept\<close>

lemma chain_at:
  "\<lbrakk>case m s of (Inl _, s') \<Rightarrow> E s' | (Inr a, s') \<Rightarrow> R a s'; \<And>a. triple (R a) (f a) Q E\<rbrakk>
   \<Longrightarrow> case chain m f s of (Inl _, s') \<Rightarrow> E s' | (Inr a, s') \<Rightarrow> Q a s'"
  unfolding triple_def chain_def by (cases "m s"; cases "fst (m s)") fastforce+

lemma draw_fault_cases: obtains f where "draw_fault d = (fst (draw_fault d), d\<lparr>dk_faults := f\<rparr>)"
  by (cases "dk_faults d") (auto simp: draw_fault_def, metis disk.surjective disk.update_convs(8) that)

lemma triple_install:
  assumes "\<And>d f. P d \<Longrightarrow> P (d\<lparr>dk_faults := f\<rparr>)" "\<And>d. P d \<Longrightarrow> Q (f d)" "\<And>d. P d \<Longrightarrow> E d" "\<And>d. Q d \<Longrightarrow> E d"
  shows "triple P (install f) (\<lambda>_. Q) E"
  unfolding triple_def
proof (intro allI impI)
  fix d assume "P d"
  obtain g where "draw_fault d = (fst (draw_fault d), d\<lparr>dk_faults := g\<rparr>)" by (rule draw_fault_cases)
  with assms \<open>P d\<close> show "case install f d of (Inl _, d') \<Rightarrow> E d' | (Inr _, d') \<Rightarrow> Q d'"
    by (cases "fst (draw_fault d)") (auto simp: install_def split: prod.splits)
qed

lemma triple_move:
  assumes "\<And>d f. P d \<Longrightarrow> P (d\<lparr>dk_faults := f\<rparr>)" "\<And>d. P d \<Longrightarrow> Q (f d)" "\<And>d. P d \<Longrightarrow> E d"
  shows "triple P (move f) (\<lambda>_. Q) E"
  unfolding triple_def
proof (intro allI impI)
  fix d assume "P d"
  obtain g where "draw_fault d = (fst (draw_fault d), d\<lparr>dk_faults := g\<rparr>)" by (rule draw_fault_cases)
  with assms \<open>P d\<close> show "case move f d of (Inl _, d') \<Rightarrow> E d' | (Inr _, d') \<Rightarrow> Q d'"
    by (cases "fst (draw_fault d)") (auto simp: move_def split: prod.splits)
qed

lemma keeps_faults: "keeps stamps S D d \<Longrightarrow> keeps stamps S D (d\<lparr>dk_faults := f\<rparr>)"
  by (erule keeps_same) simp_all

definition drawn :: "(nat \<Rightarrow> stamp) \<Rightarrow> keeping \<Rightarrow> (spool_event \<Rightarrow> bool) \<Rightarrow> stamp \<Rightarrow> disk \<Rightarrow> bool" where
  "drawn stamps S D t d \<longleftrightarrow> keeps stamps S D d
     \<and> (\<exists>k < dk_names d. t = stamps k \<and> (\<forall>s. \<forall>name \<in> names_of d s. \<not> ends_in t name))"

lemma draw_name_keeps: "triple (keeps stamps S D) (draw_name stamps) (drawn stamps S D) (keeps stamps S D)"
  unfolding triple_def
proof (intro allI impI)
  fix d assume k: "keeps stamps S D d"
  let ?d = "d\<lparr>dk_names := dk_names d + 1\<rparr>"
  have "keeps stamps S D ?d" using k by (rule keeps_same) simp_all
  moreover have "\<forall>name \<in> names_of ?d s. \<not> ends_in (stamps (dk_names d)) name" for s
    using k by (auto simp: keeps_def spool_ok_def names_of_def)
  ultimately show "case draw_name stamps d of (Inl _, d') \<Rightarrow> keeps stamps S D d' | (Inr t, d') \<Rightarrow> drawn stamps S D t d'"
    by (auto simp: draw_name_def drawn_def intro!: exI [of _ "dk_names d"])
qed

lemma drawn_keeps: "drawn stamps S D t d \<Longrightarrow> keeps stamps S D d"
  by (simp add: drawn_def)

lemma drawn_faults: "drawn stamps S D t d \<Longrightarrow> drawn stamps S D t (d\<lparr>dk_faults := f\<rparr>)"
  by (auto simp: drawn_def names_of_def intro: keeps_faults)

lemma batch_text_events [simp]: "file_events (batch_text records) = set records"
  by (auto simp: batch_text_def)

lemma keeps_less: "keeps stamps (S \<union> S') D d \<Longrightarrow> keeps stamps S D d"
  by (auto simp: keeps_def)

lemma new_name_ends: "\<exists>x. new_batch_filename t g s e = x @ name_tail t @ ndjson"
  unfolding new_batch_filename_def by (metis append.assoc)

lemma write_batch_keeps:
  assumes "stamps_ok stamps"
  shows "triple (keeps stamps S D) (write_batch stamps source records g s e)
    (\<lambda>_. keeps stamps (S \<union> Pair source ` set records) D) (keeps stamps S D)"
proof -
  have put: "keeps stamps (S \<union> Pair source ` set records) D (put_pending source (new_batch_filename t a b c) (batch_text records) d)"
    if dr: "drawn stamps S D t d" for t a b c d
  proof -
    from dr obtain k where k: "keeps stamps S D d" "k < dk_names d" "t = stamps k" "\<forall>s. \<forall>name \<in> names_of d s. \<not> ends_in t name"
      by (auto simp: drawn_def)
    obtain x where x: "new_batch_filename t a b c = x @ name_tail t @ ndjson" using new_name_ends by blast
    have e: "ends_in (stamps k) (new_batch_filename t a b c)" using name_ends_in(1) [OF assms] k(3) x by simp
    then have "new_batch_filename t a b c \<notin> fst ` set (dk_pending d source)" using k(3,4) by (auto simp: names_of_def)
    from keeps_put_pending [OF k(1) later_names [OF assms e k(2)] this, of "batch_text records"] show ?thesis by simp
  qed
  have "triple (drawn stamps S D t) (chain (install (put_pending source (new_batch_filename t a b c) (batch_text records))) (\<lambda>_. give name))
      (\<lambda>_. keeps stamps (S \<union> Pair source ` set records) D) (keeps stamps S D)" for t a b c name
    by (rule triple_chain [where R = "\<lambda>_. keeps stamps (S \<union> Pair source ` set records) D"], rule triple_install)
      (auto intro: triple_give drawn_faults put drawn_keeps keeps_less)
  from triple_chain [OF draw_name_keeps this] show ?thesis
    by (auto simp: write_batch_def Let_def intro!: triple_fail)
qed

lemma quarantine_records_keeps:
  assumes "stamps_ok stamps"
  shows "triple (keeps stamps S D) (quarantine_records stamps source records reason)
    (\<lambda>_. keeps stamps (S \<union> Pair source ` set records) D) (keeps stamps S D)"
proof -
  let ?K = "keeps stamps (S \<union> Pair source ` set records) D"
  have put: "?K (put_quarantine source (''isolated-'' @ name_tail t @ ndjson) (batch_text records) d)"
    if dr: "drawn stamps S D t d" for t d
  proof -
    from dr obtain k where k: "keeps stamps S D d" "k < dk_names d" "t = stamps k" "\<forall>s. \<forall>name \<in> names_of d s. \<not> ends_in t name"
      by (auto simp: drawn_def)
    have e: "ends_in (stamps k) (''isolated-'' @ name_tail t @ ndjson)" unfolding k(3) by (rule name_ends_in(1) [OF assms])
    then have "''isolated-'' @ name_tail t @ ndjson \<notin> fst ` set (dk_quarantine d source)" using k(3,4) by (auto simp: names_of_def)
    from keeps_put_quarantine [OF k(1) later_names [OF assms e k(2)] this, of "batch_text records"] show ?thesis by simp
  qed
  have reason: "?K (put_reason source dest reason d)" if "?K d" for dest d
    using that by (rule keeps_same) (simp_all add: put_reason_def)
  have r: "triple ?K (chain (install (put_reason source dest reason)) (\<lambda>_. give dest)) (\<lambda>_. ?K) (keeps stamps S D)" for dest
    by (rule triple_chain [where R = "\<lambda>_. ?K"], rule triple_install) (auto intro: triple_give keeps_faults reason keeps_less)
  have "triple (drawn stamps S D t) (chain (install (put_quarantine source (''isolated-'' @ name_tail t @ ndjson) (batch_text records)))
      (\<lambda>_. chain (install (put_reason source dest reason)) (\<lambda>_. give dest))) (\<lambda>_. ?K) (keeps stamps S D)" for t dest
    by (rule triple_chain [where R = "\<lambda>_. ?K", OF triple_install r]; erule drawn_faults put drawn_keeps keeps_less)
  from triple_chain [OF draw_name_keeps this] show ?thesis
    by (auto simp: quarantine_records_def Let_def intro!: triple_fail)
qed

lemma acknowledge_keeps:
  assumes "\<And>d e. \<lbrakk>P d; e \<in> file_events content\<rbrakk> \<Longrightarrow> D e \<or> (\<exists>f \<in> snd ` set (dk_quarantine d source). e \<in> file_events f)"
    "\<And>d. P d \<Longrightarrow> keeps stamps S D d \<and> (map_of (dk_pending d source) name = None \<or> map_of (dk_pending d source) name = Some content)"
    "\<And>d f. P d \<Longrightarrow> P (d\<lparr>dk_faults := f\<rparr>)"
  shows "triple P (acknowledge source name) (\<lambda>_. keeps stamps S D) (keeps stamps S D)"
proof -
  have d: "keeps stamps S D (drop_pending source name d)" if "P d" "map_of (dk_pending d source) name \<noteq> None" for d
    using that(2) assms(2) [OF that(1)] by (intro keeps_drop_pending [where content = content]) (auto dest: assms(1) [OF that(1)])
  have "triple (\<lambda>d. P d \<and> map_of (dk_pending d source) name \<noteq> None) (move (drop_pending source name)) (\<lambda>_. keeps stamps S D) (keeps stamps S D)"
    by (rule triple_move) (use assms(2,3) d in auto)
  then have first: "triple P (\<lambda>d. if map_of (dk_pending d source) name = None then (Inr (), d) else move (drop_pending source name) d)
      (\<lambda>_. keeps stamps S D) (keeps stamps S D)"
    unfolding triple_def using assms(2) by auto
  have a: "keeps stamps S D (drop_attempts source name d)" if "keeps stamps S D d" for d
    using that by (rule keeps_same) (simp_all add: drop_attempts_def)
  have "triple (keeps stamps S D) (move (drop_attempts source name)) (\<lambda>_. keeps stamps S D) (keeps stamps S D)"
    by (rule triple_move) (auto intro: keeps_faults a)
  then have "triple (keeps stamps S D) (\<lambda>d. if map_of (dk_attempts d source) name = None then (Inr (), d) else move (drop_attempts source name) d)
      (\<lambda>_. keeps stamps S D) (keeps stamps S D)"
    unfolding triple_def by auto
  with first show ?thesis unfolding acknowledge_def by (rule triple_chain)
qed

lemma move_is_put_drop:
  "map_of (dk_pending d source) name = Some content
   \<Longrightarrow> move_to_quarantine source name dest d = drop_pending source name (put_quarantine source dest content d)"
  by (simp add: move_to_quarantine_def drop_pending_def put_quarantine_def)

lemma keeps_move:
  assumes "keeps stamps S D d" "map_of (dk_pending d source) name = Some content"
    "\<forall>j \<ge> dk_names d. \<not> ends_in (stamps j) dest" "dest \<notin> fst ` set (dk_quarantine d source)"
  shows "keeps stamps S D (move_to_quarantine source name dest d)"
  unfolding move_is_put_drop [OF assms(2)]
proof (rule keeps_drop_pending)
  show "keeps stamps S D (put_quarantine source dest content d)"
    using keeps_put_quarantine [OF assms(1,3,4)] by (rule keeps_less)
  show "map_of (dk_pending (put_quarantine source dest content d) source) name = Some content"
    using assms(2) by (simp add: put_quarantine_def)
  show "D e \<or> (\<exists>f \<in> snd ` set (dk_quarantine (put_quarantine source dest content d) source). e \<in> file_events f)"
    if "e \<in> file_events content" for e
    using that alist_update_new [OF assms(4)] by (simp add: put_quarantine_def)
qed

lemma install_reason_keeps: "triple (keeps stamps S D) (install (put_reason source dest reason)) (\<lambda>_. keeps stamps S D) (keeps stamps S D)"
  by (rule triple_install) (auto intro: keeps_faults elim!: keeps_same simp: put_reason_def)

lemma quarantine_batch_keeps:
  assumes "stamps_ok stamps"
  shows "triple (keeps stamps S D) (quarantine_batch stamps source name reason) (\<lambda>_. keeps stamps S D) (keeps stamps S D)"
proof -
  let ?K = "keeps stamps S D"
  let ?rest = "\<lambda>dest. chain (install (put_reason source dest reason)) (\<lambda>_.
      chain (\<lambda>d. if map_of (dk_attempts d source) name = None then (Inr (), d) else suppressed (move (move_attempts source name)) d) (\<lambda>_. give dest))"
  have mv: "?K (move_attempts source name d)" if "?K d" for d
    using that by (rule keeps_same) (simp_all add: move_attempts_def split: option.splits)
  have "triple ?K (move (move_attempts source name)) (\<lambda>_. ?K) ?K" by (rule triple_move) (auto intro: keeps_faults mv)
  then have "triple ?K (suppressed (move (move_attempts source name))) (\<lambda>_. ?K) ?K"
    unfolding triple_def suppressed_def by (fastforce split: prod.splits sum.splits)
  then have side: "triple ?K (\<lambda>d. if map_of (dk_attempts d source) name = None then (Inr (), d)
      else suppressed (move (move_attempts source name)) d) (\<lambda>_. ?K) ?K"
    unfolding triple_def by auto
  have rest: "triple ?K (?rest dest) (\<lambda>_. ?K) ?K" for dest
    by (rule triple_chain [OF install_reason_keeps], rule triple_chain [OF side], rule triple_give)
  let ?ready = "\<lambda>dest d. ?K d \<and> (\<forall>j \<ge> dk_names d. \<not> ends_in (stamps j) dest) \<and> dest \<notin> fst ` set (dk_quarantine d source)"
  have go: "triple (?ready dest) (\<lambda>d. (if map_of (dk_pending d0 source) name = None then fail OsError else move (move_to_quarantine source name dest)) d)
      (\<lambda>_. ?K) ?K" for dest d0
  proof (cases "map_of (dk_pending d0 source) name = None")
    case True
    then show ?thesis by (simp add: triple_def fail_def)
  next
    case False
    have "?K (move_to_quarantine source name dest d)" if "?ready dest d" for d
    proof (cases "map_of (dk_pending d source) name")
      case None
      with that show ?thesis by (simp add: move_to_quarantine_def)
    next
      case (Some content)
      with that show ?thesis by (auto intro: keeps_move)
    qed
    then have "triple (?ready dest) (move (move_to_quarantine source name dest)) (\<lambda>_. ?K) ?K"
      by (intro triple_move) (auto intro: keeps_faults)
    then show ?thesis by (simp only: if_not_P [OF False])
  qed
  show ?thesis
    unfolding triple_def
  proof (intro allI impI)
    fix d assume K: "?K d"
    let ?taken = "map_of (dk_quarantine d source) name \<noteq> None"
    let ?choose = "if ?taken then chain (draw_name stamps) (\<lambda>(_, _, rand). give (spool_stem name @ ''-dup-'' @ rand @ ndjson)) else give name"
    have choose: "case ?choose d of (Inl _, d') \<Rightarrow> ?K d' | (Inr dest, d') \<Rightarrow> ?ready dest d' \<or> map_of (dk_pending d source) name = None \<and> ?K d'"
    proof (cases ?taken)
      case True
      obtain ns seq r where t: "stamps (dk_names d) = (ns, seq, r)" by (cases "stamps (dk_names d)") auto
      from draw_name_keeps [of stamps S D] K have dr: "drawn stamps S D (stamps (dk_names d)) (d\<lparr>dk_names := dk_names d + 1\<rparr>)"
        by (auto simp: triple_def draw_name_def)
      let ?dest = "spool_stem name @ ''-dup-'' @ r @ ndjson"
      have e: "ends_in (stamps (dk_names d)) ?dest" using name_ends_in(2) [OF assms, of "dk_names d" "spool_stem name"] t by (simp add: random_part_def)
      have "?ready ?dest (d\<lparr>dk_names := dk_names d + 1\<rparr>)"
      proof (intro conjI)
        show "?K (d\<lparr>dk_names := dk_names d + 1\<rparr>)" using dr by (rule drawn_keeps)
        show "\<forall>j \<ge> dk_names (d\<lparr>dk_names := dk_names d + 1\<rparr>). \<not> ends_in (stamps j) ?dest" using later_names [OF assms e, of "dk_names d + 1"] by simp
        show "?dest \<notin> fst ` set (dk_quarantine (d\<lparr>dk_names := dk_names d + 1\<rparr>) source)"
          using K e by (auto simp: keeps_def spool_ok_def names_of_def)
      qed
      with True t show ?thesis by (simp add: chain_def draw_name_def give_def)
    next
      case False
      show ?thesis
      proof (cases "map_of (dk_pending d source) name = None")
        case True
        with False K show ?thesis by (simp add: give_def)
      next
        case here: False
        then have "name \<in> names_of d source" by (auto simp: names_of_def map_of_eq_None_iff)
        then have "\<forall>j \<ge> dk_names d. \<not> ends_in (stamps j) name" using K by (simp add: keeps_def spool_ok_def)
        moreover have "name \<notin> fst ` set (dk_quarantine d source)" using False by (simp add: map_of_eq_None_iff)
        ultimately show ?thesis using False K by (simp add: give_def)
      qed
    qed
    let ?start = "\<lambda>dest d'. ?ready dest d' \<or> map_of (dk_pending d source) name = None \<and> ?K d'"
    let ?go = "\<lambda>dest. chain (if map_of (dk_pending d source) name = None then fail OsError else move (move_to_quarantine source name dest)) (\<lambda>_. ?rest dest)"
    have "triple (?start dest) (if map_of (dk_pending d source) name = None then fail OsError else move (move_to_quarantine source name dest)) (\<lambda>_. ?K) ?K" for dest
      using go [of dest d] by (cases "map_of (dk_pending d source) name = None") (auto simp: triple_def fail_def)
    then have run: "triple (?start dest) (?go dest) (\<lambda>_. ?K) ?K" for dest by (rule triple_chain [OF _ rest])
    have "case chain ?choose ?go d of (Inl _, d') \<Rightarrow> ?K d' | (Inr _, d') \<Rightarrow> ?K d'"
      by (rule chain_at [where m = ?choose and R = ?start and E = ?K and Q = "\<lambda>_. ?K" and f = ?go]) (rule choose, rule run)
    then show "case quarantine_batch stamps source name reason d of (Inl _, d') \<Rightarrow> ?K d' | (Inr _, d') \<Rightarrow> ?K d'"
      by (simp add: quarantine_batch_def Let_def)
  qed
qed

lemma record_attempt_keeps:
  "triple (keeps stamps S D) (record_attempt_failure now source name error category) (\<lambda>_. keeps stamps S D) (keeps stamps S D)"
proof -
  have "triple (keeps stamps S D) (chain (install (put_attempts source name r)) (\<lambda>_. give r)) (\<lambda>_. keeps stamps S D) (keeps stamps S D)" for r
    by (rule triple_chain [where R = "\<lambda>_. keeps stamps S D"], rule triple_install)
      (auto intro: keeps_faults triple_give elim!: keeps_same simp: put_attempts_def)
  then show ?thesis unfolding triple_def record_attempt_failure_def by (auto split: sum.splits simp: Let_def)
qed

section \<open>The uploader keeps every event\<close>

definition uploader_keeps :: "(nat \<Rightarrow> stamp) \<Rightarrow> keeping \<Rightarrow> 'w uploader \<Rightarrow> bool" where
  "uploader_keeps stamps S ul \<longleftrightarrow> keeps stamps S (answered_success (ul_requests ul)) (ul_disk ul)"

lemma on_spool_keeps:
  assumes "\<And>D. triple (keeps stamps S D) m (\<lambda>_. keeps stamps S D) (keeps stamps S D)"
  shows "triple (uploader_keeps stamps S) (on_spool m) (\<lambda>_. uploader_keeps stamps S) (uploader_keeps stamps S)"
  using assms unfolding triple_def on_spool_def uploader_keeps_def by (fastforce split: prod.splits sum.splits)

lemma batch_records_events: "batch_records lines = Inr records \<Longrightarrow> file_events (SpoolText lines) = set records"
proof (induction lines arbitrary: records)
  case (Cons l ls)
  show ?case
  proof (cases l)
    case (JsonLine j)
    with Cons show ?thesis by (cases j) auto
  qed (use Cons in auto)
qed simp

lemma read_batch_events: "read_batch (map_of files name) = Inr records
    \<Longrightarrow> \<exists>content. map_of files name = Some content \<and> file_events content = set records"
  using batch_records_events by (auto simp: read_batch_def split: option.splits spool_file.splits)

lemma concat_fit: "concat (fit_to_byte_budget cfg source records) = records"
proof (induction cfg source records rule: fit_to_byte_budget.induct)
  case (1 cfg source records)
  show ?case
  proof (cases "records = [] \<or> length records = 1 \<or> uc_dump_size cfg (build_payload source records) \<le> uc_max_body_bytes cfg")
    case True
    then show ?thesis by (auto simp: fit_to_byte_budget.simps [of cfg source records])
  next
    case False
    with 1 [OF _ _ refl] show ?thesis by (simp add: fit_to_byte_budget.simps [of cfg source records] Let_def)
  qed
qed

lemma accounted_merge:
  assumes "accounted xs a asked" "accounted ys b asked'" "set asked \<subseteq> set asked'"
  shows "accounted (xs @ ys) (merge_isolation a b) asked'"
  using assms answered_mono [OF _ assms(3)] rejected_mono [OF _ assms(3)] by (auto simp: accounted_def merge_isolation_def)

lemma isolate_chunks_accounts:
  "\<lbrakk>isolate_chunks cfg source acc cs st = (r, st'); accounted before acc (is_requests st)\<rbrakk>
   \<Longrightarrow> set (is_requests st) \<subseteq> set (is_requests st') \<and> (\<forall>il. r = Inr il \<longrightarrow> accounted (before @ concat cs) il (is_requests st'))"
proof (induction cs arbitrary: acc before st)
  case (Cons c cs)
  obtain q st1 where a: "attempt_and_isolate cfg source c st = (q, st1)" by (cases "attempt_and_isolate cfg source c st") auto
  from isolate_accounts [OF a] have s: "set (is_requests st) \<subseteq> set (is_requests st1)"
    "\<forall>il. q = Inr il \<longrightarrow> accounted c il (is_requests st1)" by auto
  show ?case
  proof (cases q)
    case (Inl e)
    with Cons.prems a s show ?thesis by auto
  next
    case (Inr il)
    then have "accounted (before @ c) (merge_isolation acc il) (is_requests st1)" using accounted_merge [OF Cons.prems(2) _ s(1)] s(2) by blast
    from Cons.IH [OF _ this] Cons.prems(1) a Inr s show ?thesis by auto
  qed
qed auto

lemma isolate_batch_accounts:
  assumes "isolate_batch cfg source records ul = (r, ul')"
  shows "ul_disk ul' = ul_disk ul \<and> set (ul_requests ul) \<subseteq> set (ul_requests ul') \<and> (\<forall>il. r = Inr il \<longrightarrow> accounted records il (ul_requests ul'))"
proof -
  have "accounted [] nothing_isolated (ul_requests ul)" by (simp add: accounted_def nothing_isolated_def)
  with assms isolate_chunks_accounts [of cfg source nothing_isolated "fit_to_byte_budget cfg source records"
      "\<lparr>is_used = 0, is_world = ul_world ul, is_requests = ul_requests ul\<rparr>" r _ "[]"]
  show ?thesis by (auto simp: isolate_batch_def concat_fit split: prod.splits)
qed

lemma quarantine_records_held:
  assumes "quarantine_records stamps source records reason d = (Inr dest, d')"
  shows "dk_pending d' = dk_pending d \<and> (\<forall>e \<in> set records. \<exists>f \<in> snd ` set (dk_quarantine d' source). e \<in> file_events f)"
proof -
  have m: "(k, v) \<in> set (AList.update k v al)" for k :: string and v :: spool_file and al by (induction al) auto
  have i: "install f d1 = (Inr (), d2) \<Longrightarrow> \<exists>g. d2 = f (d1\<lparr>dk_faults := g\<rparr>)" for f d1 d2
    by (rule draw_fault_cases [of d1]) (cases "fst (draw_fault d1)"; auto simp: install_def split: prod.splits)
  from assms obtain name d1 where n: "records \<noteq> []" "install (put_quarantine source name (batch_text records)) (d\<lparr>dk_names := dk_names d + 1\<rparr>) = (Inr (), d1)"
    "install (put_reason source name reason) d1 = (Inr (), d')"
    by (auto simp: quarantine_records_def chain_def draw_name_def fail_def give_def Let_def split: if_splits prod.splits sum.splits)
  from i [OF n(2)] i [OF n(3)] m [of name "batch_text records"] show ?thesis
    by (force simp: put_quarantine_def put_reason_def)
qed

lemma settle_batch_keeps:
  assumes "stamps_ok stamps" "uploader_keeps stamps S ul" "accounted records il (ul_requests ul)"
    "map_of (dk_pending (ul_disk ul) source) name = Some content" "file_events content = set records"
    "settle_batch stamps now source name il ul = (r, ul')"
  shows "uploader_keeps stamps S ul'"
proof (cases "il_pending il = [] \<and> \<not> il_budget_exhausted il")
  case False
  have "triple (uploader_keeps stamps S) (chain (on_spool (record_attempt_failure now source name (error_or ''unknown error'' (il_last_error il))
      (case il_last_category il of None \<Rightarrow> RetryableInfra | Some c \<Rightarrow> c))) (\<lambda>_. give ())) (\<lambda>_. uploader_keeps stamps S) (uploader_keeps stamps S)"
    by (rule triple_chain [OF on_spool_keeps [OF record_attempt_keeps]]) (rule triple_give)
  then have "triple (uploader_keeps stamps S) (settle_batch stamps now source name il) (\<lambda>_. uploader_keeps stamps S) (uploader_keeps stamps S)"
    by (simp only: settle_batch_def if_not_P [OF False])
  from triple_snd [OF this assms(2)] assms(6) show ?thesis by simp
next
  case True
  let ?D = "answered_success (ul_requests ul)"
  have who: "e \<in> set (il_delivered il) \<or> e \<in> set (il_quarantined il)" if "e \<in> file_events content" for e
    using that assms(3,5) True by (auto simp: accounted_def dest: arg_cong [of _ _ set_mset])
  have delivered: "?D e" if "e \<in> set (il_delivered il)" for e using that assms(3) by (simp add: accounted_def)
  let ?P = "\<lambda>d. keeps stamps S ?D d \<and> map_of (dk_pending d source) name = Some content
    \<and> (\<forall>e \<in> set (il_quarantined il). \<exists>f \<in> snd ` set (dk_quarantine d source). e \<in> file_events f)"
  have ack: "triple ?P (acknowledge source name) (\<lambda>_. keeps stamps S ?D) (keeps stamps S ?D)"
    by (rule acknowledge_keeps) (use who delivered in \<open>auto intro: keeps_faults\<close>)
  have keep: "keeps stamps S ?D (ul_disk ul)" using assms(2) by (simp add: uploader_keeps_def)
  show ?thesis
  proof (cases "il_quarantined il = []")
    case none: True
    then have "?P (ul_disk ul)" using keep assms(4) by simp
    from triple_snd [OF ack this] assms(6) True none show ?thesis
      by (auto simp: settle_batch_def chain_def give_def on_spool_def uploader_keeps_def split: prod.splits)
  next
    case some: False
    let ?q = "quarantine_records stamps source (il_quarantined il) (error_or ''permanent rejection, isolated'' (il_last_error il))"
    obtain x d1 where q: "?q (ul_disk ul) = (x, d1)" by (cases "?q (ul_disk ul)") auto
    note t = quarantine_records_keeps [OF assms(1), of S ?D source "il_quarantined il" "error_or ''permanent rejection, isolated'' (il_last_error il)"]
    show ?thesis
    proof (cases x)
      case (Inl e)
      from triple_Inl [OF t keep q [unfolded Inl]] assms(6) True some q Inl show ?thesis
        by (auto simp: settle_batch_def chain_def on_spool_def uploader_keeps_def split: prod.splits)
    next
      case (Inr dest)
      have "keeps stamps S ?D d1" using triple_Inr [OF t keep q [unfolded Inr]] by (rule keeps_less)
      then have "?P d1" using quarantine_records_held [OF q [unfolded Inr]] assms(4) by simp
      from triple_snd [OF ack this] assms(6) True some q Inr show ?thesis
        by (auto simp: settle_batch_def chain_def on_spool_def uploader_keeps_def split: prod.splits)
    qed
  qed
qed

lemma upload_one_keeps:
  assumes "stamps_ok stamps"
  shows "triple (uploader_keeps stamps S) (upload_one_pending_batch stamps now cfg source) (\<lambda>_. uploader_keeps stamps S) (uploader_keeps stamps S)"
proof -
  have main: "uploader_keeps stamps S (snd (upload_one_pending_batch stamps now cfg source ul))" if k: "uploader_keeps stamps S ul" for ul
  proof (cases "list_pending_batches (ul_disk ul) source")
    case Nil
    with k show ?thesis by (simp add: upload_one_pending_batch_def)
  next
    case (Cons name rest)
    let ?D = "answered_success (ul_requests ul)"
    have kd: "keeps stamps S ?D (ul_disk ul)" using k by (simp add: uploader_keeps_def)
    show ?thesis
    proof (cases "read_batch (map_of (dk_pending (ul_disk ul) source) name)")
      case (Inl e)
      have "keeps stamps S ?D (snd (read_batch_or_quarantine stamps source name (ul_disk ul)))"
        using triple_snd [OF triple_chain [OF quarantine_batch_keeps [OF assms] triple_give] kd] kd
        by (cases e) (auto simp: read_batch_or_quarantine_def Inl split: agent_exn.splits)
      moreover have "\<exists>x. fst (read_batch_or_quarantine stamps source name (ul_disk ul)) = Inl x \<or> fst (read_batch_or_quarantine stamps source name (ul_disk ul)) = Inr None"
        by (cases e; cases "fst (quarantine_batch stamps source name ''corrupt'' (ul_disk ul))")
          (auto simp: read_batch_or_quarantine_def Inl chain_def give_def split: prod.splits)
      ultimately show ?thesis
        by (auto simp: upload_one_pending_batch_def Cons chain_def on_spool_def give_def uploader_keeps_def split: prod.splits sum.splits)
    next
      case (Inr records)
      from read_batch_events [OF this] obtain content where c: "map_of (dk_pending (ul_disk ul) source) name = Some content"
        "file_events content = set records" by blast
      obtain q ul1 where i: "isolate_batch cfg source records ul = (q, ul1)" by (cases "isolate_batch cfg source records ul") auto
      from isolate_batch_accounts [OF i] have a: "ul_disk ul1 = ul_disk ul" "set (ul_requests ul) \<subseteq> set (ul_requests ul1)"
        "\<forall>il. q = Inr il \<longrightarrow> accounted records il (ul_requests ul1)" by auto
      have k1: "uploader_keeps stamps S ul1"
        using kd a(1) answered_mono [OF _ a(2)] by (auto simp: uploader_keeps_def intro: keeps_mono)
      have found: "on_spool (read_batch_or_quarantine stamps source name) ul = (Inr (Some records), ul)"
        by (simp add: on_spool_def read_batch_or_quarantine_def Inr)
      show ?thesis
      proof (cases q)
        case (Inl e)
        with k1 i found show ?thesis by (simp add: upload_one_pending_batch_def Cons chain_def)
      next
        case il: (Inr il)
        obtain z ul2 where s: "settle_batch stamps now source name il ul1 = (z, ul2)" by (cases "settle_batch stamps now source name il ul1") auto
        have "uploader_keeps stamps S ul2"
          by (rule settle_batch_keeps [OF assms k1 _ _ c(2) s]) (use a il c in auto)
        with i il s found show ?thesis by (cases z) (simp_all add: upload_one_pending_batch_def Cons chain_def give_def)
      qed
    qed
  qed
  show ?thesis unfolding triple_def
  proof (intro allI impI)
    fix ul :: "'a uploader" assume "uploader_keeps stamps S ul"
    from main [OF this] show "case upload_one_pending_batch stamps now cfg source ul of (Inl _, ul') \<Rightarrow> uploader_keeps stamps S ul' | (Inr _, ul') \<Rightarrow> uploader_keeps stamps S ul'"
      by (auto split: prod.splits sum.splits)
  qed
qed

lemma upload_sources_keeps:
  assumes "stamps_ok stamps"
  shows "triple (uploader_keeps stamps S) (upload_sources stamps now cfg sources) (\<lambda>_. uploader_keeps stamps S) (uploader_keeps stamps S)"
proof (induction sources)
  case Nil
  then show ?case by (simp add: triple_give)
next
  case (Cons source sources)
  show ?case unfolding upload_sources.simps
    by (rule triple_chain [OF upload_one_keeps [OF assms]], rule triple_chain [OF Cons.IH], rule triple_give)
qed

lemma run_cycle_keeps:
  assumes "stamps_ok stamps" "uploader_keeps stamps S ul"
  shows "uploader_keeps stamps S (snd (run_cycle stamps now cfg ul))"
  using triple_snd [OF upload_sources_keeps [OF assms(1)] assms(2)] assms(2) by (simp add: run_cycle_def give_def)

text \<open>C20. The uploader never loses an event: one that is in a pending or quarantined file, or was in a request answered with
  success, is so after any upload cycle, whatever the server answers, whichever file operation fails and however the cycle ends.\<close>

theorem upload_cycle_keeps_events:
  assumes "stamps_ok stamps" "spool_ok stamps (ul_disk ul)" "kept (answered_success (ul_requests ul)) (ul_disk ul) source e"
    "run_cycle stamps now cfg ul = (r, ul')"
  shows "kept (answered_success (ul_requests ul')) (ul_disk ul') source e \<and> spool_ok stamps (ul_disk ul')"
proof -
  have "uploader_keeps stamps {(source, e)} ul" using assms(2,3) by (simp add: uploader_keeps_def keeps_def)
  from run_cycle_keeps [OF assms(1) this, of now cfg] assms(4) show ?thesis by (simp add: uploader_keeps_def keeps_def)
qed

definition empty_disk :: disk where
  "empty_disk = \<lparr>dk_pending = (\<lambda>_. []), dk_attempts = (\<lambda>_. []), dk_quarantine = (\<lambda>_. []), dk_held_attempts = (\<lambda>_. []),
     dk_reasons = (\<lambda>_. []), dk_state = None, dk_names = 0, dk_faults = []\<rparr>"

definition sample_stamps :: "nat \<Rightarrow> stamp" where
  "sample_stamps k = (1700000000000000000, k, show_nat k)"

lemma sample_stamps_ok: "stamps_ok sample_stamps"
  using show_nat_inj digits_no_dash [OF show_nat_digits] by (auto simp: stamps_ok_def sample_stamps_def random_part_def)

lemma empty_disk_ok: "spool_ok stamps empty_disk"
  by (simp add: spool_ok_def empty_disk_def names_of_def)

definition sample_uploader :: "unit uploader" where
  "sample_uploader = \<lparr>ul_disk = snd (write_batch sample_stamps ''acs'' [[(''good'', JNull)]] 0 0 10 empty_disk), ul_world = (), ul_requests = []\<rparr>"

theorem upload_cycle_keeps_events_witness:
  "kept (answered_success (ul_requests (snd (run_cycle sample_stamps ''now'' picky_server sample_uploader))))
     (ul_disk (snd (run_cycle sample_stamps ''now'' picky_server sample_uploader))) ''acs'' [(''good'', JNull)]"
proof -
  let ?w = "write_batch sample_stamps ''acs'' [[(''good'', JNull)]] 0 0 10"
  have "keeps sample_stamps {} (\<lambda>_. False) empty_disk" by (simp add: keeps_def empty_disk_ok)
  moreover obtain x d where w: "?w empty_disk = (Inr x, d)"
    by (simp add: write_batch_def max_batch_offset_def chain_def draw_name_def install_def draw_fault_def empty_disk_def give_def Let_def)
  ultimately have "keeps sample_stamps {(''acs'', [(''good'', JNull)])} (\<lambda>_. False) d"
    using triple_Inr [OF write_batch_keeps [OF sample_stamps_ok, of "{}" "\<lambda>_. False" "''acs''" "[[(''good'', JNull)]]" 0 0 10], of empty_disk x d] by simp
  then have k: "spool_ok sample_stamps (ul_disk sample_uploader)"
    "kept (answered_success (ul_requests sample_uploader)) (ul_disk sample_uploader) ''acs'' [(''good'', JNull)]"
    using w by (auto simp: keeps_def sample_uploader_def intro: kept_mono)
  obtain r ul' where c: "run_cycle sample_stamps ''now'' picky_server sample_uploader = (r, ul')"
    by (cases "run_cycle sample_stamps ''now'' picky_server sample_uploader") auto
  from upload_cycle_keeps_events [OF sample_stamps_ok k c] c show ?thesis by simp
qed

end
