(* ===== verification/AgentSource.thy ===== *)
theory AgentSource
  imports AgentKeeps
begin

text \<open>
  One source of the agent followed through the polls of its collector: a log file grows towards its final
  content, and the invariant is that the durable cursor never leads what is kept, and the cursor in
  memory never leads what is kept or buffered. Saving, flushing, taking in a read and a whole poll keep
  it, whether they raise or not; a discontinuity that is not the one waiting to be confirmed changes
  nothing.
\<close>

section \<open>The records of a log\<close>

definition row_of_line :: "collector_config \<Rightarrow> string \<Rightarrow> parsed_row option" where
  "row_of_line cfg line =
     (if cl_name cfg = ''checkins'' then map_option CheckinLine (checkin_row_of (cl_parse_dt cfg) line)
      else if cl_name cfg = ''rejects'' then map_option RejectLine (reject_row_of (cl_parse_dt cfg) line)
      else map_option AcsLine (acs_row_of (cl_parse_dt cfg) line))"

definition event_of :: "collector_config \<Rightarrow> int \<Rightarrow> nat \<Rightarrow> parsed_row \<Rightarrow> spool_event" where
  "event_of cfg generation offset row =
     build_event (cl_show_dt cfg) (cl_customer_id cfg) (cl_branch_id cfg) row
       @ [(''source_event_id'', JStr (case compute_source_event_id (cl_agent_id cfg) (cl_name cfg) generation (int offset) of Inr x \<Rightarrow> x | Inl _ \<Rightarrow> []))]"

definition log_lines :: "octets \<Rightarrow> (nat \<times> string) list" where
  "log_lines F = zip (line_starts 0 (read_all F)) (List.map decode_line (read_all F))"

text \<open>The events of a log from an offset on under one generation, with the offsets of their lines.\<close>

definition log_events :: "collector_config \<Rightarrow> int \<Rightarrow> nat \<Rightarrow> octets \<Rightarrow> (nat \<times> spool_event) set" where
  "log_events cfg g b F = {(n, event_of cfg g n row) | n line row. b \<le> n \<and> (n, line) \<in> set (log_lines F) \<and> row_of_line cfg line = Some row}"

definition usable :: "collector_config \<Rightarrow> bool" where
  "usable cfg \<longleftrightarrow> cl_name cfg \<in> {''checkins'', ''rejects'', ''acs''} \<and> cl_path cfg \<noteq> [] \<and> cl_agent_id cfg \<noteq> []
     \<and> CHR ''|'' \<notin> set (cl_agent_id cfg) \<and> 0 < cl_max_events cfg"

lemma keep_rows_map: "keep_rows (\<lambda>l. map_option C (f l)) ns = map_prod (List.map C) id (keep_rows f ns)"
  by (induction f ns rule: keep_rows.induct) (auto split: option.splits prod.splits)

lemma parse_source_rows:
  assumes "usable cfg"
  shows "parse_source cfg ns = Inr (keep_rows (row_of_line cfg) ns)"
proof -
  have "row_of_line cfg = (if cl_name cfg = ''checkins'' then (\<lambda>l. map_option CheckinLine (checkin_row_of (cl_parse_dt cfg) l))
      else if cl_name cfg = ''rejects'' then (\<lambda>l. map_option RejectLine (reject_row_of (cl_parse_dt cfg) l))
      else (\<lambda>l. map_option AcsLine (acs_row_of (cl_parse_dt cfg) l)))"
    by (auto simp: row_of_line_def)
  then show ?thesis using assms
    by (auto simp: usable_def parse_source_def parse_checkins_with_offsets_def parse_rejects_with_offsets_def parse_acs_with_offsets_def
        keep_rows_map)
qed

lemma keep_rows_zip:
  "keep_rows f ns = (rows, labels) \<Longrightarrow> length rows = length labels
     \<and> set (zip labels rows) = {(n, r) | n line r. (n, line) \<in> set ns \<and> f line = Some r}"
proof (induction f ns arbitrary: rows labels rule: keep_rows.induct)
  case (2 f offset line rest)
  show ?case
  proof (cases "f line")
    case None
    with 2 show ?thesis by auto
  next
    case (Some r)
    obtain rows' labels' where k: "keep_rows f rest = (rows', labels')" by (cases "keep_rows f rest") auto
    from "2.IH"(2) [OF Some k] "2.prems" Some k show ?thesis by auto
  qed
qed simp

section \<open>Positions in a growing file\<close>

definition boundary :: "octets \<Rightarrow> nat \<Rightarrow> bool" where
  "boundary F n \<longleftrightarrow> (\<exists>k. n = sum_list (List.map length (take k (read_all F))))"

lemma line_starts_append: "line_starts n (xs @ ys) = line_starts n xs @ line_starts (n + sum_list (List.map length xs)) ys"
  by (induction xs arbitrary: n) (simp_all add: add.assoc)

lemma read_all_nonempty: "raw \<in> set (read_all bs) \<Longrightarrow> raw \<noteq> []"
  using read_all_whole [of bs] by (auto simp: whole_line_def)

lemma read_from_boundary:
  assumes "boundary F n" "prefix p F" "raws = read_all (drop n p)"
  shows "boundary F (n + sum_list (List.map length raws))
    \<and> (\<forall>(m, l) \<in> set (log_lines F). n \<le> m \<and> m < n + sum_list (List.map length raws)
        \<longrightarrow> (m, l) \<in> set (zip (line_starts n raws) (List.map decode_line raws)))"
proof -
  let ?ra = "read_all F"
  from assms(1) obtain k where k: "n = sum_list (List.map length (take k ?ra))" by (auto simp: boundary_def)
  then have n: "n = length (concat (take k ?ra))" by (simp add: length_concat)
  have pf: "prefix (concat (take k ?ra)) F" by (rule take_lines_prefix)
  then have F: "F = concat (take k ?ra) @ drop n F" by (metis append_eq_conv_conj n prefix_def)
  have "\<forall>raw \<in> set (take k ?ra). whole_line raw" using read_all_whole [of F] by (auto dest: in_set_takeD)
  from whole_lines_unique [OF this, of "drop n F"] F have "?ra = take k ?ra @ read_all (drop n F)" by simp
  then have rest: "read_all (drop n F) = drop k ?ra" by (metis append_take_drop_id same_append_eq)
  have "prefix (drop n p) (drop n F)" using assms(2) by (auto simp: prefix_def)
  then have "prefix raws (drop k ?ra)" using read_all_grows rest assms(3) by metis
  then obtain zs where z: "drop k ?ra = raws @ zs" by (auto simp: prefix_def)
  then have all: "?ra = take k ?ra @ raws @ zs" by (metis append_take_drop_id)
  have "take (k + length raws) ?ra = take k ?ra @ raws" using z by (simp add: take_add)
  then have b: "boundary F (n + sum_list (List.map length raws))" unfolding boundary_def using k by (metis map_append sum_list_append)
  let ?stop = "n + sum_list (List.map length raws)"
  have l: "log_lines F = zip (line_starts 0 (take k ?ra)) (List.map decode_line (take k ?ra))
      @ zip (line_starts n raws) (List.map decode_line raws) @ zip (line_starts ?stop zs) (List.map decode_line zs)"
    unfolding log_lines_def by (subst (1 2) all) (simp add: line_starts_append k [symmetric])
  have ne: "\<forall>r \<in> set (take k ?ra). r \<noteq> []" "\<forall>r \<in> set zs. r \<noteq> []"
    using read_all_nonempty [of _ F] all by (metis in_set_takeD) (metis Un_iff all read_all_nonempty set_append)
  have low: "m < n" if "(m, x) \<in> set (zip (line_starts 0 (take k ?ra)) (List.map decode_line (take k ?ra)))" for m x
    using line_starts_bounds [OF set_zip_leftD [OF that] ne(1)] k by simp
  have high: "?stop \<le> m" if "(m, x) \<in> set (zip (line_starts ?stop zs) (List.map decode_line zs))" for m x
    using line_starts_bounds [OF set_zip_leftD [OF that] ne(2)] by simp
  show ?thesis using b low high by (auto simp: l dest!: leD)
qed

text \<open>A view of the growing file: missing, or its identity with a readable prefix and no size below the cursor.\<close>

definition honest :: "octets \<Rightarrow> source_identity \<Rightarrow> file_cursor option \<Rightarrow> file_view \<Rightarrow> bool" where
  "honest F I cursor view \<longleftrightarrow> identify view = None \<or>
     (identify view = Some I \<and> (\<forall>bytes. fv_bytes view = Some bytes \<longrightarrow> prefix bytes F)
      \<and> (\<forall>c n. cursor = Some c \<and> fv_size view = Some n \<longrightarrow> fc_offset c \<le> n))"

definition cursor_in :: "octets \<Rightarrow> source_identity \<Rightarrow> file_cursor \<Rightarrow> bool" where
  "cursor_in F I c \<longleftrightarrow> fc_identity c = Some I \<and> boundary F (fc_offset c)"

definition offset_of :: "file_cursor option \<Rightarrow> nat" where
  "offset_of cursor = (case cursor of None \<Rightarrow> 0 | Some c \<Rightarrow> fc_offset c)"

lemma boundary_0: "boundary F 0"
  unfolding boundary_def by (rule exI [of _ 0]) simp

lemma honest_read:
  assumes "honest F I cursor view" "\<forall>c. cursor = Some c \<longrightarrow> cursor_in F I c" "tl_existed (tail_read view cursor)"
  shows "candidate (tail_read view cursor) = None \<and> cursor_in F I (tl_cursor (tail_read view cursor))
    \<and> offset_of cursor \<le> fc_offset (tl_cursor (tail_read view cursor))
    \<and> (\<forall>(m, l) \<in> set (log_lines F). offset_of cursor \<le> m \<and> m < fc_offset (tl_cursor (tail_read view cursor))
         \<longrightarrow> (m, l) \<in> set (zip (tl_line_offsets (tail_read view cursor)) (tl_lines (tail_read view cursor))))"
proof -
  have i: "identify view = Some I" using assms(1,3) by (auto simp: honest_def tail_read_def no_read_def)
  have s: "tail_start view I cursor = Some (offset_of cursor, False, False)"
    using assms i by (auto simp: tail_read_def tail_start_def no_read_def offset_of_def cursor_in_def honest_def split: option.splits if_splits)
  obtain bytes where b: "fv_bytes view = Some bytes" using assms(3) i s by (auto simp: tail_read_def no_read_def split: option.splits)
  have p: "prefix bytes F" using assms(1) i b by (auto simp: honest_def)
  have bd: "boundary F (offset_of cursor)" using assms(2) boundary_0 by (auto simp: offset_of_def cursor_in_def split: option.splits)
  let ?raws = "read_all (drop (offset_of cursor) bytes)"
  have r: "tail_read view cursor = \<lparr>tl_lines = List.map decode_line ?raws, tl_line_offsets = line_starts (offset_of cursor) ?raws,
      tl_cursor = \<lparr>fc_identity = Some I, fc_offset = offset_of cursor + sum_list (List.map length ?raws)\<rparr>,
      tl_existed = True, tl_rotated = False, tl_truncated = False\<rparr>"
    by (simp add: tail_read_def i s b read_safe_lines_def Let_def)
  from read_from_boundary [OF bd p refl] show ?thesis
    unfolding r by (simp add: candidate_def cursor_in_def)
qed

section \<open>The invariant of one source\<close>

definition safe_until :: "collector_config \<Rightarrow> octets \<Rightarrow> nat \<Rightarrow> (spool_event \<Rightarrow> bool) \<Rightarrow> disk \<Rightarrow> nat \<Rightarrow> bool" where
  "safe_until cfg F b delivered d n \<longleftrightarrow> (\<forall>(m, e) \<in> log_events cfg 0 b F. m < n \<longrightarrow> kept delivered d (cl_name cfg) e)"

text \<open>The durable cursor of the source, where there is one, is at a line of the log with everything before it kept.\<close>

definition entry_ok :: "collector_config \<Rightarrow> octets \<Rightarrow> source_identity \<Rightarrow> nat \<Rightarrow> (spool_event \<Rightarrow> bool) \<Rightarrow> disk \<Rightarrow> agent_source option \<Rightarrow> bool" where
  "entry_ok cfg F I b delivered d entry \<longleftrightarrow>
     (\<forall>s. entry = Some s \<longrightarrow> as_generation s = 0 \<and> cursor_in F I (as_cursor s) \<and> safe_until cfg F b delivered d (fc_offset (as_cursor s)))"

definition state_ok :: "collector_config \<Rightarrow> octets \<Rightarrow> source_identity \<Rightarrow> nat \<Rightarrow> (spool_event \<Rightarrow> bool) \<Rightarrow> disk \<Rightarrow> bool" where
  "state_ok cfg F I b delivered d \<longleftrightarrow>
     (\<exists>st. load_agent_state (dk_state d) = Inr st \<and> entry_ok cfg F I b delivered d (agent_get_source st (cl_name cfg))
        \<and> (cl_mode cfg = BootReplay \<or> agent_get_source st (cl_name cfg) \<noteq> None))"

text \<open>The memory of the collector: everything before the read cursor is kept or in the buffer.\<close>

definition memory_ok :: "collector_config \<Rightarrow> octets \<Rightarrow> source_identity \<Rightarrow> nat \<Rightarrow> (spool_event \<Rightarrow> bool) \<Rightarrow> disk \<Rightarrow> collector \<Rightarrow> bool" where
  "memory_ok cfg F I b delivered d c \<longleftrightarrow> co_generation c = 0 \<and>
     (case co_read_cursor c of
        None \<Rightarrow> co_buffer c = [] \<and> co_pending_cursor c = None
      | Some cur \<Rightarrow> co_bootstrapped c \<and> cursor_in F I cur
          \<and> (\<forall>(m, e) \<in> log_events cfg 0 b F. m < fc_offset cur \<longrightarrow> kept delivered d (cl_name cfg) e \<or> (m, e) \<in> set (co_buffer c))
          \<and> (co_pending_cursor c = None \<and> co_buffer c = [] \<or> co_pending_cursor c = Some cur))"

text \<open>Keeping is monotone on the disk: what is kept for the tracked events stays kept.\<close>

definition tracked :: "collector_config \<Rightarrow> octets \<Rightarrow> nat \<Rightarrow> (spool_event \<Rightarrow> bool) \<Rightarrow> disk \<Rightarrow> keeping" where
  "tracked cfg F b delivered d = {(cl_name cfg, e) | e. kept delivered d (cl_name cfg) e}"

lemma kept_later:
  assumes "keeps stamps (tracked cfg F b D d) D' d'"
  shows "safe_until cfg F b D d n \<Longrightarrow> safe_until cfg F b D' d' n" "kept D d (cl_name cfg) e \<Longrightarrow> kept D' d' (cl_name cfg) e"
    "entry_ok cfg F I b D d x \<Longrightarrow> entry_ok cfg F I b D' d' x"
    "memory_ok cfg F I b D d c \<Longrightarrow> memory_ok cfg F I b D' d' c"
proof -
  have k: "kept D' d' (cl_name cfg) e" if "kept D d (cl_name cfg) e" for e
    using assms that by (auto simp: keeps_def tracked_def)
  show s: "safe_until cfg F b D d n \<Longrightarrow> safe_until cfg F b D' d' n" for n using k by (auto simp: safe_until_def)
  show "kept D d (cl_name cfg) e \<Longrightarrow> kept D' d' (cl_name cfg) e" by (rule k)
  show "entry_ok cfg F I b D d x \<Longrightarrow> entry_ok cfg F I b D' d' x" using s by (auto simp: entry_ok_def)
  show "memory_ok cfg F I b D d c \<Longrightarrow> memory_ok cfg F I b D' d' c"
    using k by (fastforce simp: memory_ok_def split: option.splits)
qed

lemma keeps_tracked: "spool_ok stamps d \<Longrightarrow> keeps stamps (tracked cfg F b D d) D d"
  by (auto simp: keeps_def tracked_def)

section \<open>What leaves the state file alone\<close>

definition fixes_state :: "(disk, 'a) action \<Rightarrow> bool" where
  "fixes_state m \<longleftrightarrow> (\<forall>d. dk_state (snd (m d)) = dk_state d)"

named_theorems state_fixed

lemma fixes_give [state_fixed]: "fixes_state (give a)"
  by (simp add: fixes_state_def give_def)

lemma fixes_fail [state_fixed]: "fixes_state (fail e)"
  by (simp add: fixes_state_def fail_def)

lemma fixes_chain [state_fixed]: "\<lbrakk>fixes_state m; \<And>a. fixes_state (f a)\<rbrakk> \<Longrightarrow> fixes_state (chain m f)"
  unfolding fixes_state_def chain_def by (auto split: prod.splits sum.splits) (metis snd_conv)+

lemma draw_fault_state: "dk_state (snd (draw_fault d)) = dk_state d"
  by (rule draw_fault_cases [of d]) (metis disk.select_convs(6) disk.surjective disk.update_convs(8) snd_conv)

lemma fixes_install: "(\<And>d. dk_state (f d) = dk_state d) \<Longrightarrow> fixes_state (install f)"
  unfolding fixes_state_def
proof
  fix d assume f: "\<And>d. dk_state (f d) = dk_state d"
  obtain x d' where "draw_fault d = (x, d')" by (cases "draw_fault d")
  with f draw_fault_state [of d] show "dk_state (snd (install f d)) = dk_state d" by (cases x) (simp_all add: install_def)
qed

lemma fixes_move: "(\<And>d. dk_state (f d) = dk_state d) \<Longrightarrow> fixes_state (move f)"
  unfolding fixes_state_def
proof
  fix d assume f: "\<And>d. dk_state (f d) = dk_state d"
  obtain x d' where "draw_fault d = (x, d')" by (cases "draw_fault d")
  with f draw_fault_state [of d] show "dk_state (snd (move f d)) = dk_state d" by (cases x) (simp_all add: move_def)
qed

lemma fixes_draw [state_fixed]: "fixes_state (draw_name stamps)"
  by (simp add: fixes_state_def draw_name_def)

lemma fixes_suppressed [state_fixed]: "fixes_state m \<Longrightarrow> fixes_state (suppressed m)"
  by (simp add: fixes_state_def suppressed_def)

lemma fixes_puts [state_fixed]:
  "fixes_state (install (put_pending source name content))" "fixes_state (install (put_quarantine source name content))"
  "fixes_state (install (put_reason source name reason))" "fixes_state (install (put_attempts source name r))"
  "fixes_state (move (move_to_quarantine source name dest))" "fixes_state (move (move_attempts source name))"
  "fixes_state (move (drop_pending source name))" "fixes_state (move (drop_attempts source name))"
  by (auto intro!: fixes_install fixes_move simp: put_pending_def put_quarantine_def put_reason_def put_attempts_def
      move_to_quarantine_def move_attempts_def drop_pending_def drop_attempts_def split: option.splits)

lemma fixes_pointwise: "\<lbrakk>\<And>d. \<exists>m'. fixes_state m' \<and> m d = m' d\<rbrakk> \<Longrightarrow> fixes_state m"
  unfolding fixes_state_def by metis

lemma fixes_write_batch [state_fixed]: "fixes_state (write_batch stamps source records g s e)"
  unfolding write_batch_def Let_def by (auto intro!: state_fixed)

lemma fixes_quarantine_records [state_fixed]: "fixes_state (quarantine_records stamps source records reason)"
  unfolding quarantine_records_def Let_def by (auto intro!: state_fixed)

lemma fixes_if: "\<lbrakk>fixes_state m; fixes_state m'\<rbrakk> \<Longrightarrow> fixes_state (\<lambda>d. if P d then m d else m' d)"
  by (simp add: fixes_state_def)

lemma fixes_done: "fixes_state (\<lambda>d. (Inr (), d))"
  by (simp add: fixes_state_def)

lemma fixes_acknowledge [state_fixed]: "fixes_state (acknowledge source name)"
  unfolding acknowledge_def by (intro fixes_chain fixes_if fixes_done state_fixed)

lemma fixes_quarantine_batch [state_fixed]: "fixes_state (quarantine_batch stamps source name reason)"
  by (rule fixes_pointwise, unfold quarantine_batch_def Let_def, rule exI, rule conjI [OF _ refl])
    (auto intro!: fixes_chain fixes_if fixes_done state_fixed split: prod.splits)

lemma fixes_record_attempt [state_fixed]: "fixes_state (record_attempt_failure now source name error category)"
proof (rule fixes_pointwise)
  fix d
  show "\<exists>m'. fixes_state m' \<and> record_attempt_failure now source name error category d = m' d"
  proof (cases "load_attempts (map_of (dk_attempts d source) name)")
    case (Inl e)
    then show ?thesis using fixes_fail by (auto simp: record_attempt_failure_def fail_def intro!: exI [of _ "fail e"])
  next
    case (Inr prior)
    show ?thesis by (simp add: record_attempt_failure_def Inr Let_def, rule exI, rule conjI [OF _ refl]) (intro state_fixed)
  qed
qed

section \<open>The collector of the tracked source\<close>

definition source_inv :: "(nat \<Rightarrow> stamp) \<Rightarrow> keeping \<Rightarrow> collector_config \<Rightarrow> octets \<Rightarrow> source_identity \<Rightarrow> nat \<Rightarrow> (spool_event \<Rightarrow> bool) \<Rightarrow> collector \<Rightarrow> bool" where
  "source_inv stamps S cfg F I b D c \<longleftrightarrow> keeps stamps S D (co_disk c) \<and> state_ok cfg F I b D (co_disk c) \<and> memory_ok cfg F I b D (co_disk c) c"

lemma kept_same:
  "\<lbrakk>dk_pending d' = dk_pending d; dk_quarantine d' = dk_quarantine d\<rbrakk> \<Longrightarrow> kept D d' s e = kept D d s e"
  by (simp add: kept_def)

lemma memory_ok_disk: "memory_ok cfg F I b D d (c\<lparr>co_disk := x\<rparr>) = memory_ok cfg F I b D d c"
  by (simp add: memory_ok_def split: option.split)

lemma same_listings:
  assumes "dk_pending d' = dk_pending d" "dk_quarantine d' = dk_quarantine d"
  shows "safe_until cfg F b D d' n = safe_until cfg F b D d n" "entry_ok cfg F I b D d' x = entry_ok cfg F I b D d x"
    "memory_ok cfg F I b D d' c = memory_ok cfg F I b D d c"
proof -
  have k: "kept D d' = kept D d" by (intro ext) (rule kept_same [OF assms])
  show "safe_until cfg F b D d' n = safe_until cfg F b D d n" "entry_ok cfg F I b D d' x = entry_ok cfg F I b D d x"
    "memory_ok cfg F I b D d' c = memory_ok cfg F I b D d c"
    by (simp_all add: safe_until_def entry_ok_def memory_ok_def k split: option.split)
qed

lemma source_inv_faults: "source_inv stamps S cfg F I b D c \<Longrightarrow> source_inv stamps S cfg F I b D (c\<lparr>co_disk := (co_disk c)\<lparr>dk_faults := f\<rparr>\<rparr>)"
  by (simp add: source_inv_def keeps_faults state_ok_def memory_ok_disk same_listings [of "(co_disk c)\<lparr>dk_faults := f\<rparr>" "co_disk c"])

lemma saved_state_loads:
  assumes "load_agent_state content = Inr st" "update_source st name path cursor g = Inr st'" "path \<noteq> []"
  shows "load_agent_state (Some (Some (to_json_dict now st'))) = Inr st'
    \<and> agent_get_source st' n = (if n = name then Some \<lparr>as_path = path, as_cursor = cursor, as_generation = g\<rparr> else agent_get_source st n)"
proof -
  from assms(2) have u: "int (fc_offset cursor) \<le> agent_max_offset" "0 \<le> g"
    "st' = AList.update name \<lparr>as_path = path, as_cursor = cursor, as_generation = g\<rparr> st"
    by (cases cursor; force simp: update_source_def mk_agent_source_Inr agent_with_source_def)+
  have upd: "\<forall>p \<in> set (AList.update k v st). agent_source_ok (snd p)" if "\<forall>p \<in> set st. agent_source_ok (snd p)" "agent_source_ok v" for k v st
    using that by (induction st) auto
  have old: "\<forall>p \<in> set st. agent_source_ok (snd p)" using agent_state_loaded_ok [OF assms(1)] by fastforce
  have "\<forall>p \<in> set st'. agent_source_ok (snd p)" unfolding u(3) by (rule upd [OF old]) (use u assms(3) in \<open>simp add: agent_source_ok_def\<close>)
  then have "\<forall>(m, s) \<in> set st'. agent_source_ok s" by fastforce
  from agent_state_loads [OF this] show ?thesis
    using u(3) by (simp add: agent_get_source_def AList.update_conv')
qed

text \<open>Every outcome of saving: the disk is as it was but for the faults drawn, or holds the new state.\<close>

lemma save_source_outcomes:
  assumes "save_source cfg now st cursor g c = (r, c')"
  obtains (kept) f where "c' = c\<lparr>co_disk := (co_disk c)\<lparr>dk_faults := f\<rparr>\<rparr>"
  | (saved) f st' where "update_source st (cl_name cfg) (cl_path cfg) cursor g = Inr st'"
      "c' = c\<lparr>co_disk := put_state now st' ((co_disk c)\<lparr>dk_faults := f\<rparr>)\<rparr>"
proof (cases "update_source st (cl_name cfg) (cl_path cfg) cursor g")
  case (Inl e)
  with assms have "c' = c\<lparr>co_disk := (co_disk c)\<lparr>dk_faults := dk_faults (co_disk c)\<rparr>\<rparr>" by (simp add: save_source_def fail_def)
  then show ?thesis by (rule kept)
next
  case (Inr st')
  obtain f where f: "draw_fault (co_disk c) = (fst (draw_fault (co_disk c)), (co_disk c)\<lparr>dk_faults := f\<rparr>)" by (rule draw_fault_cases)
  show ?thesis
  proof (cases "fst (draw_fault (co_disk c))")
    case FailsBefore
    with assms f Inr show ?thesis by (intro kept [of f]) (auto simp: save_source_def on_disk_def install_def split: prod.splits)
  qed (use assms f Inr in \<open>auto simp: save_source_def on_disk_def install_def split: prod.splits intro: saved [of st' f]\<close>)
qed

lemma source_inv_save:
  assumes "source_inv stamps S cfg F I b D c" "usable cfg" "load_agent_state (dk_state (co_disk c)) = Inr st"
    "cursor_in F I cursor" "safe_until cfg F b D (co_disk c) (fc_offset cursor)"
    "save_source cfg now st cursor 0 c = (r, c')"
  shows "source_inv stamps S cfg F I b D c' \<and> co_buffer c' = co_buffer c"
  using assms(6)
proof (cases rule: save_source_outcomes)
  case (kept f)
  with source_inv_faults [OF assms(1)] show ?thesis by simp
next
  case (saved f st')
  let ?d = "put_state now st' ((co_disk c)\<lparr>dk_faults := f\<rparr>)"
  have same: "dk_pending ?d = dk_pending (co_disk c)" "dk_quarantine ?d = dk_quarantine (co_disk c)" "dk_names ?d = dk_names (co_disk c)"
    by (simp_all add: put_state_def)
  have k: "keeps stamps S D ?d" 
    by (rule keeps_same [of stamps S D "co_disk c"]) (use assms(1) same in \<open>simp_all add: source_inv_def\<close>)
  have p: "cl_path cfg \<noteq> []" using assms(2) by (simp add: usable_def)
  from saved_state_loads [OF assms(3) saved(1) p, of now "cl_name cfg"]
  have s: "load_agent_state (dk_state ?d) = Inr st'"
    "agent_get_source st' (cl_name cfg) = Some \<lparr>as_path = cl_path cfg, as_cursor = cursor, as_generation = 0\<rparr>"
    by (simp_all add: put_state_def)
  then have "state_ok cfg F I b D ?d"
    using assms(4,5) by (simp add: state_ok_def entry_ok_def same_listings [OF same(1,2)])
  moreover have "memory_ok cfg F I b D ?d c" using assms(1) by (simp add: source_inv_def same_listings [OF same(1,2)])
  ultimately show ?thesis using k saved by (simp add: source_inv_def memory_ok_disk)
qed

lemma source_inv_persist:
  assumes "source_inv stamps S cfg F I b D c" "usable cfg" "co_buffer c = []" "persist_state cfg now c = (r, c')"
  shows "source_inv stamps S cfg F I b D c' \<and> co_buffer c' = []"
proof (cases "co_pending_cursor c")
  case None
  with assms show ?thesis by (simp add: persist_state_def)
next
  case (Some cursor)
  from assms(1) obtain st where st: "load_agent_state (dk_state (co_disk c)) = Inr st" by (auto simp: source_inv_def state_ok_def)
  have m: "co_generation c = 0" "cursor_in F I cursor" "safe_until cfg F b D (co_disk c) (fc_offset cursor)"
    using assms(1,3) Some by (auto simp: source_inv_def memory_ok_def safe_until_def split: option.splits)
  obtain x c1 where s: "save_source cfg now st cursor 0 c = (x, c1)" by (cases "save_source cfg now st cursor 0 c") auto
  from source_inv_save [OF assms(1,2) st m(2,3) s] assms(3,4) Some st m(1) s show ?thesis
    by (cases x) (auto simp: persist_state_def loaded_state_def chain_def give_def)
qed

lemma write_chunks_keeps:
  assumes "stamps_ok stamps"
  shows "triple (keeps stamps S D) (write_chunks stamps source g fe cs)
    (\<lambda>_. keeps stamps (S \<union> Pair source ` (snd ` set (concat cs))) D) (keeps stamps S D)"
proof (induction cs arbitrary: S)
  case Nil
  then show ?case by (simp add: triple_give)
next
  case (Cons c cs)
  show ?case unfolding write_chunks.simps
  proof (rule triple_chain [OF write_batch_keeps [OF assms]])
    let ?S = "S \<union> Pair source ` set (List.map snd c)"
    have "S \<union> Pair source ` (snd ` set (concat (c # cs))) = ?S \<union> Pair source ` (snd ` set (concat cs))" by auto
    then show "triple (keeps stamps ?S D) (write_chunks stamps source g fe cs)
        (\<lambda>_. keeps stamps (S \<union> Pair source ` (snd ` set (concat (c # cs)))) D) (keeps stamps S D)"
      using triple_weaken [OF Cons.IH [of ?S], of "keeps stamps ?S D"] keeps_less by metis
  qed
qed

lemma fixes_write_chunks [state_fixed]: "fixes_state (write_chunks stamps source g fe cs)"
  by (induction cs) (auto intro: state_fixed)

lemma source_inv_flush:
  assumes "stamps_ok stamps" "usable cfg" "source_inv stamps S cfg F I b D c" "flush stamps cfg now c = (r, c')"
  shows "source_inv stamps S cfg F I b D c'"
proof (cases "co_buffer c = [] \<or> co_buffer_end c = None")
  case True
  have "c' = c" if "co_buffer c \<noteq> []" using that True assms(4)
    by (cases "buffer_chunks (cl_max_events cfg) (co_buffer c)") (simp_all add: flush_def Let_def)
  with True assms(3,4) show ?thesis by (cases "co_buffer c = []") (simp_all add: flush_def)
next
  case False
  then obtain fe where fe: "co_buffer_end c = Some fe" by auto
  let ?cs = "chunks (nat (cl_max_events cfg)) (co_buffer c)"
  have cs: "buffer_chunks (cl_max_events cfg) (co_buffer c) = Inr ?cs" "concat ?cs = co_buffer c"
    using assms(2) concat_chunks [of "nat (cl_max_events cfg)" "co_buffer c"] by (auto simp: buffer_chunks_def usable_def simp del: chunks.simps)
  let ?g = "case co_buffer_generation c of None \<Rightarrow> co_generation c | Some g \<Rightarrow> g"
  let ?w = "write_chunks stamps (cl_name cfg) ?g fe ?cs"
  obtain x d1 where w: "?w (co_disk c) = (x, d1)" by (cases "?w (co_disk c)") auto
  let ?S = "S \<union> tracked cfg F b D (co_disk c)"
  have k0: "keeps stamps ?S D (co_disk c)"
    using assms(3) keeps_tracked [of stamps "co_disk c" cfg F b D] by (auto simp: source_inv_def keeps_def)
  note t = write_chunks_keeps [OF assms(1), of ?S D "cl_name cfg" ?g fe ?cs]
  have k1: "keeps stamps ?S D d1"
    using triple_Inl [OF t k0] triple_Inr [OF t k0] w keeps_less by (cases x) blast+
  have st: "dk_state d1 = dk_state (co_disk c)" using fixes_write_chunks [of stamps "cl_name cfg" ?g fe ?cs] w by (auto simp: fixes_state_def dest: spec [of _ "co_disk c"])
  have tr: "keeps stamps (tracked cfg F b D (co_disk c)) D d1" "keeps stamps S D d1" using k1 by (auto simp: keeps_def)
  let ?c1 = "c\<lparr>co_disk := d1\<rparr>"
  have i1: "source_inv stamps S cfg F I b D ?c1"
    using assms(3) tr st kept_later(3,4) [OF tr(1)] by (auto simp: source_inv_def state_ok_def memory_ok_disk)
  show ?thesis
  proof (cases x)
    case (Inl e)
    with assms(4) False fe cs w i1 show ?thesis by (simp add: flush_def Let_def chain_def on_disk_def)
  next
    case (Inr u)
    have all: "kept D d1 (cl_name cfg) (snd b)" if "b \<in> set (co_buffer c)" for b
    proof -
      have "keeps stamps (?S \<union> Pair (cl_name cfg) ` (snd ` set (concat ?cs))) D d1" using triple_Inr [OF t k0 w [unfolded Inr]] .
      then show ?thesis using that cs(2) by (auto simp: keeps_def simp del: chunks.simps)
    qed
    let ?c2 = "?c1\<lparr>co_buffer := [], co_buffer_generation := None, co_buffer_started := None\<rparr>"
    have "memory_ok cfg F I b D d1 ?c2"
      using i1 all by (fastforce simp: source_inv_def memory_ok_def split: option.splits)
    then have i2: "source_inv stamps S cfg F I b D ?c2" using i1 by (simp add: source_inv_def)
    obtain y c3 where p: "persist_state cfg now ?c2 = (y, c3)" by (cases "persist_state cfg now ?c2") auto
    from source_inv_persist [OF i2 assms(2) _ p] assms(4) False fe cs w Inr p show ?thesis
      by (cases y) (auto simp: flush_def Let_def chain_def on_disk_def update_def give_def)
  qed
qed

lemma event_id_exists: "\<lbrakk>usable cfg; 0 \<le> g\<rbrakk> \<Longrightarrow> \<exists>x. compute_source_event_id (cl_agent_id cfg) (cl_name cfg) g (int n) = Inr x"
  by (auto simp: usable_def compute_source_event_id_def canonical_identity_string_def)

lemma append_events_run:
  "\<lbrakk>usable cfg; 0 \<le> co_generation c; length rows = length labels\<rbrakk>
   \<Longrightarrow> \<exists>bg bs. append_events cfg now rows labels c = (Inr (), c\<lparr>co_buffer := co_buffer c
        @ List.map (\<lambda>(n, row). (n, event_of cfg (co_generation c) n row)) (zip labels rows), co_buffer_generation := bg, co_buffer_started := bs\<rparr>)"
proof (induction rows arbitrary: labels c)
  case Nil
  then show ?case by (auto simp: give_def intro!: exI [of _ "co_buffer_generation c"] exI [of _ "co_buffer_started c"])
next
  case (Cons row rows)
  then obtain n labels' where l: "labels = n # labels'" "length rows = length labels'" by (cases labels) auto
  obtain x where x: "compute_source_event_id (cl_agent_id cfg) (cl_name cfg) (co_generation c) (int n) = Inr x"
    using event_id_exists Cons.prems by blast
  define c0 where "c0 = (if co_buffer_generation c = None then c\<lparr>co_buffer_generation := Some (co_generation c), co_buffer_started := Some now\<rparr> else c)"
  let ?e = "event_of cfg (co_generation c) n row"
  have c0: "co_generation c0 = co_generation c" "co_buffer c0 = co_buffer c" by (simp_all add: c0_def)
  have "\<exists>bg bs. append_events cfg now rows labels' (c0\<lparr>co_buffer := co_buffer c0 @ [(n, ?e)]\<rparr>) = (Inr (), c0\<lparr>co_buffer := co_buffer c0 @ [(n, ?e)]
      @ List.map (\<lambda>(n, row). (n, event_of cfg (co_generation c) n row)) (zip labels' rows), co_buffer_generation := bg, co_buffer_started := bs\<rparr>)"
    using Cons.IH [OF Cons.prems(1) _ l(2), of "c0\<lparr>co_buffer := co_buffer c0 @ [(n, ?e)]\<rparr>"] Cons.prems(2) c0 by simp
  then show ?case using x l c0 by (auto simp: event_of_def Let_def c0_def split: if_splits)
qed

lemma triple_of_runs:
  assumes "\<And>c r c'. \<lbrakk>J c; m c = (r, c')\<rbrakk> \<Longrightarrow> J c'"
  shows "triple J m (\<lambda>_. J) J"
  unfolding triple_def
proof (intro allI impI)
  fix c assume "J c"
  obtain r c' where m: "m c = (r, c')" by (cases "m c")
  from assms [OF \<open>J c\<close> m] show "case m c of (Inl _, c') \<Rightarrow> J c' | (Inr _, c') \<Rightarrow> J c'" by (cases r) (simp_all add: m)
qed

lemma flush_if_due_inv:
  "\<lbrakk>stamps_ok stamps; usable cfg; source_inv stamps S cfg F I b D c; flush_if_due stamps cfg env c = (r, c')\<rbrakk> \<Longrightarrow> source_inv stamps S cfg F I b D c'"
  using source_inv_flush by (auto simp: flush_if_due_def split: if_splits)

lemma finish_poll_inv:
  assumes "stamps_ok stamps" "usable cfg" "source_inv stamps S cfg F I b D c" "finish_poll stamps cfg env r n c = (q, c')"
  shows "source_inv stamps S cfg F I b D c'"
proof -
  let ?p = "\<lambda>c. if n = 0 \<and> co_buffer c = [] then persist_state cfg (pe_now env) c else (Inr False, c)"
  have "triple (source_inv stamps S cfg F I b D) ?p (\<lambda>_. source_inv stamps S cfg F I b D) (source_inv stamps S cfg F I b D)"
  proof (rule triple_of_runs)
    fix c r' c' assume i: "source_inv stamps S cfg F I b D c" and run: "?p c = (r', c')"
    show "source_inv stamps S cfg F I b D c'"
    proof (cases "n = 0 \<and> co_buffer c = []")
      case True
      with run source_inv_persist [OF i assms(2)] show ?thesis by simp
    next
      case False
      have "?p c = (Inr False, c)" by (rule if_not_P [OF False])
      with run i show ?thesis by simp
    qed
  qed
  note persisted = this
  have flushed: "triple (source_inv stamps S cfg F I b D) (flush_if_due stamps cfg env) (\<lambda>_. source_inv stamps S cfg F I b D) (source_inv stamps S cfg F I b D)"
    by (rule triple_of_runs) (rule flush_if_due_inv [OF assms(1,2)])
  have "triple (source_inv stamps S cfg F I b D) (finish_poll stamps cfg env r n) (\<lambda>_. source_inv stamps S cfg F I b D) (source_inv stamps S cfg F I b D)"
    unfolding finish_poll_def case_prod_unfold by (rule triple_chain [OF persisted], rule triple_chain [OF flushed], rule triple_give)
  from triple_snd [OF this assms(3)] assms(4) show ?thesis by simp
qed

lemma take_in_inv:
  assumes "stamps_ok stamps" "usable cfg" "source_inv stamps S cfg F I b D c" "co_bootstrapped c" "cursor_in F I (tl_cursor r)"
    "offset_of (co_read_cursor c) \<le> fc_offset (tl_cursor r)"
    "\<forall>(m, l) \<in> set (log_lines F). offset_of (co_read_cursor c) \<le> m \<and> m < fc_offset (tl_cursor r)
       \<longrightarrow> (m, l) \<in> set (zip (tl_line_offsets r) (tl_lines r))"
    "take_in stamps cfg env r c = (q, c')"
  shows "source_inv stamps S cfg F I b D c'"
proof -
  let ?ns = "zip (tl_line_offsets r) (tl_lines r)"
  obtain rows labels where k: "keep_rows (row_of_line cfg) ?ns = (rows, labels)" by (cases "keep_rows (row_of_line cfg) ?ns") auto
  have p: "(if tl_lines r = [] then Inr ([], []) else parse_source cfg ?ns) = (Inr (rows, labels) :: agent_exn + parsed_row list \<times> nat list)"
    using k parse_source_rows [OF assms(2), of ?ns] by auto
  from keep_rows_zip [OF k] have z: "length rows = length labels"
    "set (zip labels rows) = {(n, x) | n line x. (n, line) \<in> set ?ns \<and> row_of_line cfg line = Some x}" by auto
  have g: "co_generation c = 0" using assms(3) by (simp add: source_inv_def memory_ok_def)
  let ?new = "List.map (\<lambda>(n, row). (n, event_of cfg 0 n row)) (zip labels rows)"
  from append_events_run [OF assms(2) _ z(1), of c "pe_read_time env"] g obtain bg bs where
    a: "append_events cfg (pe_read_time env) rows labels c = (Inr (), c\<lparr>co_buffer := co_buffer c @ ?new, co_buffer_generation := bg, co_buffer_started := bs\<rparr>)"
    by auto
  define c2 where "c2 = c\<lparr>co_buffer := co_buffer c @ ?new, co_buffer_generation := bg, co_buffer_started := bs,
      co_buffer_end := Some (fc_offset (tl_cursor r)), co_pending_cursor := Some (tl_cursor r), co_read_cursor := Some (tl_cursor r)\<rparr>"
  have new: "(m, e) \<in> set ?new" if "(m, e) \<in> log_events cfg 0 b F" "offset_of (co_read_cursor c) \<le> m" "m < fc_offset (tl_cursor r)" for m e
  proof -
    from that(1) obtain line row where l: "(m, line) \<in> set (log_lines F)" "row_of_line cfg line = Some row" "e = event_of cfg 0 m row"
      by (auto simp: log_events_def)
    then have "(m, row) \<in> set (zip labels rows)" using assms(7) that z(2) by auto
    then show ?thesis using l(3) by force
  qed
  have old: "kept D (co_disk c) (cl_name cfg) e \<or> (m, e) \<in> set (co_buffer c)"
    if "(m, e) \<in> log_events cfg 0 b F" "m < offset_of (co_read_cursor c)" for m e
    using assms(3) that by (auto simp: source_inv_def memory_ok_def offset_of_def split: option.splits)
  have "memory_ok cfg F I b D (co_disk c2) c2"
    using g assms(4,5) old new not_le by (fastforce simp: memory_ok_def c2_def)
  then have i2: "source_inv stamps S cfg F I b D c2" using assms(3) by (simp add: source_inv_def c2_def)
  have t: "take_in stamps cfg env r c = finish_poll stamps cfg env r (length rows) c2"
    unfolding take_in_def p using a by (simp add: chain_def update_def c2_def)
  show ?thesis by (rule finish_poll_inv [OF assms(1,2) i2 assms(8) [unfolded t]])
qed

lemma withhold_inv:
  assumes "stamps_ok stamps" "usable cfg" "source_inv stamps S cfg F I b D c"
    "chain (flush_if_due stamps cfg env) (\<lambda>flushed. give (f flushed)) c = (q, c')"
  shows "source_inv stamps S cfg F I b D c'"
proof -
  obtain x c1 where f: "flush_if_due stamps cfg env c = (x, c1)" by (cases "flush_if_due stamps cfg env c") auto
  from flush_if_due_inv [OF assms(1-3) f] f assms(4) show ?thesis by (cases x) (simp_all add: chain_def give_def)
qed

lemma source_inv_discontinuity: "source_inv stamps S cfg F I b D (c\<lparr>co_discontinuity := x\<rparr>) = source_inv stamps S cfg F I b D c"
  by (simp add: source_inv_def memory_ok_def split: option.split)

text \<open>A discontinuity that shows in this view and is not the one waiting for its confirmation.\<close>

definition misread :: "poll_env \<Rightarrow> collector \<Rightarrow> bool" where
  "misread env c \<longleftrightarrow> candidate (tail_read (pe_view env) (co_read_cursor c)) \<noteq> None
     \<and> co_discontinuity c \<noteq> candidate (tail_read (pe_view env) (co_read_cursor c))"

text \<open>What a poll of the tracked source may see once it is bootstrapped: the growing file, or a misread.\<close>

definition plausible :: "collector_config \<Rightarrow> octets \<Rightarrow> source_identity \<Rightarrow> poll_env \<Rightarrow> collector \<Rightarrow> bool" where
  "plausible cfg F I env c =
     (case bootstrap_if_needed cfg env c of
        (Inr True, c1) \<Rightarrow> honest F I (co_read_cursor c1) (pe_view env) \<or> misread env c1
      | _ \<Rightarrow> True)"

lemma bootstrap_inv:
  assumes "usable cfg" "source_inv stamps S cfg F I b D c" "bootstrap_if_needed cfg env c = (r, c')"
  shows "source_inv stamps S cfg F I b D c' \<and> (r = Inr True \<longrightarrow> co_bootstrapped c')"
proof (cases "co_bootstrapped c")
  case True
  with assms show ?thesis by (simp add: bootstrap_if_needed_def)
next
  case False
  from assms(2) False have empty: "co_read_cursor c = None" "co_buffer c = []" "co_pending_cursor c = None"
    by (auto simp: source_inv_def memory_ok_def split: option.splits)
  from assms(2) obtain st where st: "load_agent_state (dk_state (co_disk c)) = Inr st" "entry_ok cfg F I b D (co_disk c) (agent_get_source st (cl_name cfg))"
    "cl_mode cfg = BootReplay \<or> agent_get_source st (cl_name cfg) \<noteq> None" by (auto simp: source_inv_def state_ok_def)
  show ?thesis
  proof (cases "agent_get_source st (cl_name cfg)")
    case None
    with st assms(3) False have "r = Inr True" "c' = c\<lparr>co_read_cursor := None, co_generation := 0, co_bootstrapped := True\<rparr>"
      by (simp_all add: bootstrap_if_needed_def chain_def loaded_state_def update_def give_def)
    then show ?thesis using assms(2) empty by (simp add: source_inv_def memory_ok_def)
  next
    case (Some s)
    with st(1) assms(3) False have r: "r = Inr True"
      "c' = c\<lparr>co_read_cursor := Some (as_cursor s), co_generation := as_generation s, co_bootstrapped := True\<rparr>"
      by (simp_all add: bootstrap_if_needed_def chain_def loaded_state_def update_def give_def)
    have "as_generation s = 0" "cursor_in F I (as_cursor s)" "safe_until cfg F b D (co_disk c) (fc_offset (as_cursor s))"
      using st(2) Some by (simp_all add: entry_ok_def)
    then show ?thesis using assms(2) empty r by (auto simp: source_inv_def memory_ok_def safe_until_def)
  qed
qed

lemma poll_inv:
  assumes "stamps_ok stamps" "usable cfg" "source_inv stamps S cfg F I b D c" "plausible cfg F I env c"
    "poll_once stamps cfg env c = (q, c')"
  shows "source_inv stamps S cfg F I b D c'"
proof -
  obtain x c1 where b: "bootstrap_if_needed cfg env c = (x, c1)" by (cases "bootstrap_if_needed cfg env c") auto
  from bootstrap_inv [OF assms(2,3) b] have i: "source_inv stamps S cfg F I b D c1" "x = Inr True \<longrightarrow> co_bootstrapped c1" by auto
  show ?thesis
  proof (cases "x = Inr True")
    case False
    then have "c' = c1"
      using assms(5) b by (cases x) (auto simp: poll_once_def chain_def give_def)
    then show ?thesis using i by simp
  next
    case True
    let ?r = "tail_read (pe_view env) (co_read_cursor c1)"
    have view: "honest F I (co_read_cursor c1) (pe_view env) \<or> misread env c1" using assms(4) b True by (simp add: plausible_def)
    have run: "(if \<not> tl_existed ?r then chain (flush_if_due stamps cfg env) (\<lambda>flushed. give (idle_report (cl_name cfg) True flushed)) c1
        else (case candidate ?r of None \<Rightarrow> take_in stamps cfg env ?r (c1\<lparr>co_discontinuity := None\<rparr>)
          | Some d \<Rightarrow> if co_discontinuity c1 = Some d then chain (confirm_discontinuity stamps cfg env ?r) (\<lambda>_. take_in stamps cfg env ?r) c1
            else chain (flush_if_due stamps cfg env) (\<lambda>flushed. give (idle_report (cl_name cfg) False flushed)) (c1\<lparr>co_discontinuity := Some d\<rparr>))) = (q, c')"
      using assms(5) b True by (simp add: poll_once_def chain_def Let_def)
    show ?thesis
    proof (cases "tl_existed ?r")
      case False
      with run show ?thesis by (intro withhold_inv [OF assms(1,2) i(1)]) simp
    next
      case ex: True
      show ?thesis
      proof (cases "misread env c1")
        case True
        then obtain d where d: "candidate ?r = Some d" "co_discontinuity c1 \<noteq> Some d" by (auto simp: misread_def)
        have i': "source_inv stamps S cfg F I b D (c1\<lparr>co_discontinuity := Some d\<rparr>)" using i by (simp add: source_inv_discontinuity)
        from run d ex show ?thesis by (intro withhold_inv [OF assms(1,2) i']) simp
      next
        case False
        with view have h: "honest F I (co_read_cursor c1) (pe_view env)" by simp
        have cur: "\<forall>k. co_read_cursor c1 = Some k \<longrightarrow> cursor_in F I k" using i by (auto simp: source_inv_def memory_ok_def)
        from honest_read [OF h cur ex] have hr: "candidate ?r = None" "cursor_in F I (tl_cursor ?r)"
          "offset_of (co_read_cursor c1) \<le> fc_offset (tl_cursor ?r)"
          "\<forall>(m, l) \<in> set (log_lines F). offset_of (co_read_cursor c1) \<le> m \<and> m < fc_offset (tl_cursor ?r)
             \<longrightarrow> (m, l) \<in> set (zip (tl_line_offsets ?r) (tl_lines ?r))" by auto
        let ?c2 = "c1\<lparr>co_discontinuity := None\<rparr>"
        have i': "source_inv stamps S cfg F I b D ?c2" using i by (simp add: source_inv_discontinuity)
        from run ex hr(1) have t: "take_in stamps cfg env ?r ?c2 = (q, c')" by simp
        show ?thesis by (rule take_in_inv [OF assms(1,2) i' _ hr(2) _ _ t]) (use i True hr(3,4) in auto)
      qed
    qed
  qed
qed

end
