(* ===== verification/AgentRuntime.thy ===== *)
theory AgentRuntime
  imports AgentSource
begin

text \<open>
  The agent as a whole (agent/runtime/supervisor.py): the collectors of all sources, the uploader, the
  disk they share, failing file operations and restarts, as a step relation. The theorem is that the
  durable cursor of a source never leads what is kept: every record that starts before it is in a pending
  file, in the quarantine, or was in a request answered with success. A poll and an upload cycle are
  taken as single steps.
\<close>

section \<open>The uploader and the other sources\<close>

definition state_is :: "json option option \<Rightarrow> 'w uploader \<Rightarrow> bool" where
  "state_is x ul \<longleftrightarrow> dk_state (ul_disk ul) = x"

lemma on_spool_state: "fixes_state m \<Longrightarrow> triple (state_is x :: 'w uploader \<Rightarrow> bool) (on_spool m) (\<lambda>_. state_is x) (state_is x)"
  unfolding triple_def on_spool_def
proof (intro allI impI)
  fix ul :: "'w uploader"
  assume m: "fixes_state m" "state_is x ul"
  obtain r d where r: "m (ul_disk ul) = (r, d)" by (cases "m (ul_disk ul)") auto
  have "dk_state (snd (m (ul_disk ul))) = dk_state (ul_disk ul)" using m(1) by (simp add: fixes_state_def)
  with r m(2) have "dk_state d = x" by (simp add: state_is_def)
  with r show "case case m (ul_disk ul) of (r, d) \<Rightarrow> (r, ul\<lparr>ul_disk := d\<rparr>) of (Inl _, s') \<Rightarrow> state_is x s' | (Inr _, s') \<Rightarrow> state_is x s'"
    by (cases r) (simp_all add: state_is_def)
qed

lemma fixes_read_or_quarantine [state_fixed]: "fixes_state (read_batch_or_quarantine stamps source name)"
proof (rule fixes_pointwise)
  fix d :: disk
  let ?r = "read_batch (map_of (dk_pending d source) name)"
  have q: "fixes_state (chain (quarantine_batch stamps source name ''corrupt'') (\<lambda>_. give None) :: (disk, spool_event list option) action)"
    by (intro state_fixed)
  show "\<exists>m'. fixes_state m' \<and> read_batch_or_quarantine stamps source name d = m' d"
  proof (cases ?r)
    case (Inl e)
    show ?thesis
    proof (cases "e = CorruptBatch")
      case True
      with Inl have "read_batch_or_quarantine stamps source name d = chain (quarantine_batch stamps source name ''corrupt'') (\<lambda>_. give None) d"
        by (simp add: read_batch_or_quarantine_def)
      with q show ?thesis by (intro exI conjI)
    next
      case False
      with Inl have "read_batch_or_quarantine stamps source name d = fail e d" by (cases e) (simp_all add: read_batch_or_quarantine_def fail_def)
      with fixes_fail show ?thesis by (intro exI conjI)
    qed
  next
    case (Inr records)
    then have "read_batch_or_quarantine stamps source name d = give (Some records) d" by (simp add: read_batch_or_quarantine_def give_def)
    with fixes_give show ?thesis by (intro exI conjI)
  qed
qed

lemma settle_state: "triple (state_is x) (settle_batch stamps now source name il) (\<lambda>_. state_is x) (state_is x)"
proof -
  let ?J = "state_is x"
  let ?q = "if il_quarantined il = [] then give [] else on_spool (quarantine_records stamps source (il_quarantined il)
      (error_or ''permanent rejection, isolated'' (il_last_error il)))"
  have q: "triple ?J ?q (\<lambda>_. ?J) ?J"
    by (cases "il_quarantined il = []") (simp_all add: triple_give on_spool_state fixes_quarantine_records)
  show ?thesis
  proof (cases "il_pending il = [] \<and> \<not> il_budget_exhausted il")
    case True
    show ?thesis unfolding settle_batch_def if_P [OF True]
      by (rule triple_chain [OF q on_spool_state [OF fixes_acknowledge]])
  next
    case False
    show ?thesis unfolding settle_batch_def if_not_P [OF False]
      by (rule triple_chain [OF on_spool_state [OF fixes_record_attempt] triple_give])
  qed
qed

lemma isolate_state: "triple (state_is x :: 'w uploader \<Rightarrow> bool) (isolate_batch cfg source records) (\<lambda>_. state_is x) (state_is x)"
  unfolding triple_def
proof (intro allI impI)
  fix ul :: "'w uploader" assume j: "state_is x ul"
  obtain q ul1 where i: "isolate_batch cfg source records ul = (q, ul1)" by (cases "isolate_batch cfg source records ul") auto
  from isolate_batch_accounts [OF i] j show "case isolate_batch cfg source records ul of (Inl _, s') \<Rightarrow> state_is x s' | (Inr _, s') \<Rightarrow> state_is x s'"
    by (cases q) (simp_all add: i state_is_def)
qed

lemma upload_one_state: "triple (state_is x :: 'w uploader \<Rightarrow> bool) (upload_one_pending_batch stamps now cfg source) (\<lambda>_. state_is x) (state_is x)"
proof -
  let ?J = "state_is x"
  have isolate: "triple ?J (chain (isolate_batch cfg source records) (\<lambda>il. chain (settle_batch stamps now source name il) (\<lambda>_. give (h il)))) (\<lambda>_. ?J) ?J"
    for records name and h :: "isolation \<Rightarrow> upload_result option"
    by (rule triple_chain [OF isolate_state], rule triple_chain [OF settle_state], rule triple_give)
  let ?k = "\<lambda>name found. case found of None \<Rightarrow> give (Some (corrupt_result source))
    | Some records \<Rightarrow> chain (isolate_batch cfg source records) (\<lambda>il. chain (settle_batch stamps now source name il) (\<lambda>_.
               give (Some \<lparr>ur_source = source, ur_attempted = True, ur_delivered = length (il_delivered il),
                 ur_quarantined = length (il_quarantined il), ur_pending = length (il_pending il), ur_category = il_last_category il,
                 ur_budget_exhausted = il_budget_exhausted il, ur_corrupt_quarantined = False, ur_last_error = il_last_error il\<rparr>)))"
  have k: "triple ?J (?k name found) (\<lambda>_. ?J) ?J" for name found
    by (cases found) (simp_all only: option.case isolate triple_give)
  have run: "triple ?J (chain (on_spool (read_batch_or_quarantine stamps source name)) (?k name)) (\<lambda>_. ?J) ?J" for name
    by (rule triple_chain [OF on_spool_state [OF fixes_read_or_quarantine] k])
  show ?thesis unfolding triple_def
  proof (intro allI impI)
    fix ul :: "'w uploader" assume j: "?J ul"
    show "case upload_one_pending_batch stamps now cfg source ul of (Inl _, s') \<Rightarrow> ?J s' | (Inr _, s') \<Rightarrow> ?J s'"
    proof (cases "list_pending_batches (ul_disk ul) source")
      case Nil
      with j show ?thesis by (simp add: upload_one_pending_batch_def)
    next
      case (Cons name rest)
      have "case chain (on_spool (read_batch_or_quarantine stamps source name)) (?k name) ul of (Inl _, s') \<Rightarrow> ?J s' | (Inr _, s') \<Rightarrow> ?J s'"
        by (rule run [of name, unfolded triple_def, rule_format, OF j])
      then show ?thesis unfolding upload_one_pending_batch_def Cons list.case .
    qed
  qed
qed

lemma run_cycle_state: "dk_state (ul_disk (snd (run_cycle stamps now cfg ul))) = dk_state (ul_disk ul)"
proof -
  have "triple (state_is x) (upload_sources stamps now cfg sources) (\<lambda>_. state_is x) (state_is x)" for x sources
  proof (induction sources)
    case Nil
    then show ?case by (simp add: triple_give)
  next
    case (Cons source sources)
    show ?case unfolding upload_sources.simps
      by (rule triple_chain [OF upload_one_state], rule triple_chain [OF Cons.IH], rule triple_give)
  qed
  from triple_snd [OF this, of "dk_state (ul_disk ul)" ul] show ?thesis by (simp add: run_cycle_def give_def state_is_def)
qed

text \<open>A collector of another source keeps the spool and leaves this source's entry of the state file as it is.\<close>

definition beside :: "(nat \<Rightarrow> stamp) \<Rightarrow> keeping \<Rightarrow> (spool_event \<Rightarrow> bool) \<Rightarrow> string \<Rightarrow> agent_source option \<Rightarrow> collector \<Rightarrow> bool" where
  "beside stamps S D name entry c \<longleftrightarrow> keeps stamps S D (co_disk c)
     \<and> (\<exists>st. load_agent_state (dk_state (co_disk c)) = Inr st \<and> agent_get_source st name = entry)"

named_theorems stays_beside

lemma beside_update [stays_beside]: "(\<And>c. co_disk (f c) = co_disk c) \<Longrightarrow> triple (beside stamps S D name entry) (update f) (\<lambda>_. beside stamps S D name entry) (beside stamps S D name entry)"
  by (rule triple_update) (simp add: beside_def)

lemma beside_save:
  assumes "cl_path cfg \<noteq> []" "cl_name cfg \<noteq> name"
  shows "triple (\<lambda>c. beside stamps S D name entry c \<and> load_agent_state (dk_state (co_disk c)) = Inr st) (save_source cfg now st cursor g)
    (\<lambda>_. beside stamps S D name entry) (beside stamps S D name entry)"
  unfolding triple_def
proof (intro allI impI)
  fix c assume c: "beside stamps S D name entry c \<and> load_agent_state (dk_state (co_disk c)) = Inr st"
  obtain r c' where s: "save_source cfg now st cursor g c = (r, c')" by (cases "save_source cfg now st cursor g c") auto
  have "beside stamps S D name entry c'" using s
  proof (cases rule: save_source_outcomes)
    case (kept f)
    with c show ?thesis by (auto simp: beside_def keeps_faults)
  next
    case (saved f st')
    let ?d = "put_state now st' ((co_disk c)\<lparr>dk_faults := f\<rparr>)"
    have "keeps stamps S D ?d" by (rule keeps_same [of stamps S D "co_disk c"]) (use c in \<open>simp_all add: put_state_def beside_def\<close>)
    moreover from saved_state_loads [OF _ saved(1) assms(1), of "dk_state (co_disk c)" now name] c assms(2)
    have "load_agent_state (dk_state ?d) = Inr st' \<and> agent_get_source st' name = entry" by (auto simp: put_state_def beside_def)
    ultimately show ?thesis using saved(2) by (simp add: beside_def)
  qed
  then show "case save_source cfg now st cursor g c of (Inl _, s') \<Rightarrow> beside stamps S D name entry s' | (Inr _, s') \<Rightarrow> beside stamps S D name entry s'"
    by (cases r) (simp_all add: s)
qed

lemma beside_loaded:
  "triple (beside stamps S D name entry) loaded_state
     (\<lambda>st c. beside stamps S D name entry c \<and> load_agent_state (dk_state (co_disk c)) = Inr st) (beside stamps S D name entry)"
  unfolding triple_def loaded_state_def by (auto split: sum.splits)

abbreviation stays :: "('s \<Rightarrow> bool) \<Rightarrow> ('s, 'a) action \<Rightarrow> bool" where
  "stays J m \<equiv> triple J m (\<lambda>_. J) J"

lemma stays_chain: "\<lbrakk>stays J m; \<And>a. stays J (f a)\<rbrakk> \<Longrightarrow> stays J (chain m f)"
  by (rule triple_chain)

lemma stays_if: "\<lbrakk>stays J m; stays J m'\<rbrakk> \<Longrightarrow> stays J (\<lambda>c. if P c then m c else m' c)"
  unfolding triple_def by auto

lemma stays_pointwise:
  assumes "\<And>c. \<exists>m'. stays J m' \<and> m c = m' c"
  shows "stays J m"
  unfolding triple_def
proof (intro allI impI)
  fix c assume j: "J c"
  from assms obtain m' where m: "stays J m'" "m c = m' c" by blast
  show "case m c of (Inl _, c') \<Rightarrow> J c' | (Inr _, c') \<Rightarrow> J c'" unfolding m(2) by (rule m(1) [unfolded triple_def, rule_format, OF j])
qed

lemma beside_same_disk: 
  assumes "\<And>c. co_disk (snd (m c)) = co_disk c"
  shows "stays (beside stamps S D name entry) m"
  unfolding triple_def
proof (intro allI impI)
  fix c assume b: "beside stamps S D name entry c"
  have "beside stamps S D name entry (snd (m c))" using b assms [of c] by (simp add: beside_def)
  then show "case m c of (Inl _, s') \<Rightarrow> beside stamps S D name entry s' | (Inr _, s') \<Rightarrow> beside stamps S D name entry s'"
    by (cases "m c"; cases "fst (m c)") auto
qed

lemma beside_on_disk:
  assumes "triple (keeps stamps S D) m (\<lambda>_. keeps stamps S D) (keeps stamps S D)" "fixes_state m"
  shows "stays (beside stamps S D name entry) (on_disk m)"
  unfolding triple_def
proof (intro allI impI)
  fix c assume b: "beside stamps S D name entry c"
  obtain r d where r: "m (co_disk c) = (r, d)" by (cases "m (co_disk c)") auto
  have "dk_state (snd (m (co_disk c))) = dk_state (co_disk c)" using assms(2) by (simp add: fixes_state_def)
  moreover have "keeps stamps S D (snd (m (co_disk c)))" by (rule triple_snd [OF assms(1)]) (use b in \<open>simp add: beside_def\<close>)
  ultimately have "beside stamps S D name entry (c\<lparr>co_disk := d\<rparr>)" using b r by (simp add: beside_def)
  then show "case on_disk m c of (Inl _, s') \<Rightarrow> beside stamps S D name entry s' | (Inr _, s') \<Rightarrow> beside stamps S D name entry s'"
    by (cases r) (simp_all add: on_disk_def \<open>m (co_disk c) = (r, d)\<close>)
qed

lemma beside_give: "stays (beside stamps S D name entry) (give a)"
  by (rule triple_give)

lemma beside_persist:
  assumes "cl_path cfg \<noteq> []" "cl_name cfg \<noteq> name"
  shows "stays (beside stamps S D name entry) (persist_state cfg now)"
proof (rule stays_pointwise)
  fix c
  show "\<exists>m'. stays (beside stamps S D name entry) m' \<and> persist_state cfg now c = m' c"
  proof (cases "co_pending_cursor c")
    case None
    then have "persist_state cfg now c = give False c" by (simp add: persist_state_def give_def)
    with beside_give show ?thesis by (intro exI conjI)
  next
    case (Some cursor)
    let ?m = "chain loaded_state (\<lambda>st. chain (save_source cfg now st cursor (co_generation c)) (\<lambda>_. give True))"
    from Some have "persist_state cfg now c = ?m c" by (simp add: persist_state_def)
    moreover have "stays (beside stamps S D name entry) ?m"
      by (rule triple_chain [OF beside_loaded triple_chain [OF beside_save [OF assms] triple_give]])
    ultimately show ?thesis by (intro exI conjI)
  qed
qed

lemma beside_flush:
  assumes "stamps_ok stamps" "cl_path cfg \<noteq> []" "cl_name cfg \<noteq> name"
  shows "stays (beside stamps S D name entry) (flush stamps cfg now)"
proof (rule stays_pointwise)
  fix c
  let ?J = "beside stamps S D name entry"
  show "\<exists>m'. stays ?J m' \<and> flush stamps cfg now c = m' c"
  proof (cases "co_buffer c = []")
    case True
    then have "flush stamps cfg now c = give (0, 0, False) c" by (simp add: flush_def give_def)
    with beside_give show ?thesis by (intro exI conjI)
  next
    case False
    show ?thesis
    proof (cases "buffer_chunks (cl_max_events cfg) (co_buffer c)")
      case (Inl e)
      with False have "flush stamps cfg now c = fail e c" by (simp add: flush_def Let_def fail_def)
      then show ?thesis using triple_fail [of ?J ?J e "\<lambda>_. ?J"] by blast
    next
      case (Inr cs)
      show ?thesis
      proof (cases "co_buffer_end c")
        case None
        with False Inr have "flush stamps cfg now c = fail RuntimeErr c" by (simp add: flush_def Let_def fail_def)
        then show ?thesis using triple_fail [of ?J ?J RuntimeErr "\<lambda>_. ?J"] by blast
      next
        case (Some fe)
        let ?m = "chain (on_disk (write_chunks stamps (cl_name cfg) (case co_buffer_generation c of None \<Rightarrow> co_generation c | Some g \<Rightarrow> g) fe cs)) (\<lambda>_.
            chain (update (\<lambda>c. c\<lparr>co_buffer := [], co_buffer_generation := None, co_buffer_started := None\<rparr>)) (\<lambda>_.
            chain (persist_state cfg now) (\<lambda>persisted. give (length (co_buffer c), length cs, persisted))))"
        have "flush stamps cfg now c = ?m c" using False Inr Some by (simp add: flush_def Let_def)
        moreover have "stays ?J ?m"
        proof (rule stays_chain [OF beside_on_disk [OF _ fixes_write_chunks]])
          show "stays (keeps stamps S D) (write_chunks stamps (cl_name cfg) g fe cs)" for g
            using write_chunks_keeps [OF assms(1)] by (rule triple_weaken) (simp_all add: keeps_less)
          show "stays ?J (chain (update (\<lambda>c. c\<lparr>co_buffer := [], co_buffer_generation := None, co_buffer_started := None\<rparr>)) (\<lambda>_.
            chain (persist_state cfg now) (\<lambda>persisted. give (length (co_buffer c), length cs, persisted))))"
            by (rule stays_chain [OF beside_same_disk], simp add: update_def,
                rule stays_chain [OF beside_persist [OF assms(2,3)] beside_give])
        qed
        ultimately show ?thesis by (intro exI conjI)
      qed
    qed
  qed
qed

lemma beside_flush_if_due:
  assumes "stamps_ok stamps" "cl_path cfg \<noteq> []" "cl_name cfg \<noteq> name"
  shows "stays (beside stamps S D name entry) (flush_if_due stamps cfg env)"
  unfolding flush_if_due_def
  by (rule stays_if [OF beside_flush [OF assms]]) (rule beside_same_disk, simp)

lemma append_events_disk: "co_disk (snd (append_events cfg now rows labels c)) = co_disk c"
  by (induction cfg now rows labels arbitrary: c rule: append_events.induct)
    (auto simp: give_def Let_def split: sum.splits)

lemma beside_take_in:
  assumes "stamps_ok stamps" "cl_path cfg \<noteq> []" "cl_name cfg \<noteq> name"
  shows "stays (beside stamps S D name entry) (take_in stamps cfg env r)"
proof -
  let ?J = "beside stamps S D name entry"
  have p: "stays ?J (\<lambda>c. if n = 0 \<and> co_buffer c = [] then persist_state cfg (pe_now env) c else (Inr False, c))" for n :: nat
    by (rule stays_if [OF beside_persist [OF assms(2,3)]]) (rule beside_same_disk, simp)
  have f: "stays ?J (finish_poll stamps cfg env r n)" for n
    unfolding finish_poll_def case_prod_unfold by (rule stays_chain [OF p], rule stays_chain [OF beside_flush_if_due [OF assms] beside_give])
  have u: "stays ?J (update (\<lambda>c. c\<lparr>co_buffer_end := Some n, co_pending_cursor := Some k, co_read_cursor := Some k\<rparr>))" for n k
    by (rule beside_same_disk) (simp add: update_def)
  have a: "stays ?J (append_events cfg (pe_read_time env) rows labels)" for rows labels
    by (rule beside_same_disk) (rule append_events_disk)
  let ?parsed = "if tl_lines r = [] then Inr ([], []) else parse_source cfg (zip (tl_line_offsets r) (tl_lines r))"
  show ?thesis
  proof (cases ?parsed)
    case (Inl e)
    show ?thesis unfolding take_in_def Inl sum.case by (rule triple_fail)
  next
    case (Inr x)
    obtain rows labels where x: "x = (rows, labels)" by (cases x)
    show ?thesis unfolding take_in_def Inr sum.case x prod.case by (rule stays_chain [OF a stays_chain [OF u f]])
  qed
qed

lemma beside_fail: "stays (beside stamps S D name entry) (fail e)"
  by (rule triple_fail)

lemma beside_set: "(\<And>c. co_disk (f c) = co_disk c) \<Longrightarrow> stays (beside stamps S D name entry) (update f)"
  by (rule beside_same_disk) (simp add: update_def)

lemma beside_bootstrap:
  assumes "cl_path cfg \<noteq> []" "cl_name cfg \<noteq> name"
  shows "stays (beside stamps S D name entry) (bootstrap_if_needed cfg env)"
proof -
  let ?J = "beside stamps S D name entry"
  let ?K = "\<lambda>st c. ?J c \<and> load_agent_state (dk_state (co_disk c)) = Inr st"
  have set_give: "triple (?K st) (chain (update f) (\<lambda>_. give x)) (\<lambda>_. ?J) ?J" if "\<And>c. co_disk (f c) = co_disk c" for st f and x :: bool
    by (rule triple_weaken [OF stays_chain [OF beside_set [OF that] beside_give]]) auto
  have set_save: "triple (?K st) (chain (update f) (\<lambda>_. chain (save_source cfg now st cursor 0) (\<lambda>_. give x))) (\<lambda>_. ?J) ?J"
    if "\<And>c. co_disk (f c) = co_disk c" for st f now cursor and x :: bool
  proof (rule triple_chain [where R = "\<lambda>_. ?K st"])
    show "triple (?K st) (update f) (\<lambda>_. ?K st) ?J" by (rule triple_update) (use that in \<open>auto simp: beside_def\<close>)
    show "triple (?K st) (chain (save_source cfg now st cursor 0) (\<lambda>_. give x)) (\<lambda>_. ?J) ?J"
      by (rule triple_chain [OF beside_save [OF assms] beside_give])
  qed
  have gv: "triple (?K st) (give x) (\<lambda>_. ?J) ?J" for st and x :: bool by (rule triple_give) simp
  have fl: "triple (?K st) (fail e) (\<lambda>_. ?J) ?J" for st e by (rule triple_fail) simp
  show ?thesis
    unfolding bootstrap_if_needed_def
    by (rule stays_if, rule beside_same_disk, simp, rule triple_chain [OF beside_loaded])
      (auto intro!: set_give set_save gv fl simp: Let_def split: option.split bootstrap_mode.split)
qed

lemma beside_confirm:
  assumes "stamps_ok stamps" "cl_path cfg \<noteq> []" "cl_name cfg \<noteq> name"
  shows "stays (beside stamps S D name entry) (confirm_discontinuity stamps cfg env r)"
  unfolding confirm_discontinuity_def
proof (rule stays_chain [OF beside_set stays_chain [OF beside_flush [OF assms]]])
  show "stays (beside stamps S D name entry) (\<lambda>c. let cursor = (case co_read_cursor c of None \<Rightarrow> \<lparr>fc_identity = None, fc_offset = 0\<rparr> | Some x \<Rightarrow> x) in
        case mk_agent_source (cl_path cfg) (fc_identity cursor) (int (fc_offset cursor)) (co_generation c) of
          Inl e \<Rightarrow> (Inl e, c)
        | Inr prior \<Rightarrow> (Inr (), c\<lparr>co_generation := advance_generation (Some prior) (tl_rotated r) (tl_truncated r)\<rparr>))"
    by (rule beside_same_disk) (simp add: Let_def split: sum.split)
qed simp

lemma beside_poll:
  assumes "stamps_ok stamps" "cl_path cfg \<noteq> []" "cl_name cfg \<noteq> name"
  shows "stays (beside stamps S D name entry) (poll_once stamps cfg env)"
  unfolding poll_once_def
proof (rule stays_chain [OF beside_bootstrap [OF assms(2,3)]])
  let ?J = "beside stamps S D name entry"
  let ?idle = "\<lambda>m. chain (flush_if_due stamps cfg env) (\<lambda>flushed. give (idle_report (cl_name cfg) m flushed))"
  fix ready
  have idle: "stays ?J (?idle m)" for m by (rule stays_chain [OF beside_flush_if_due [OF assms] beside_give])
  have through: "stays ?J (\<lambda>c. m (f c))" if "stays ?J m" "\<And>c. co_disk (f c) = co_disk c" for m :: "(collector, cycle_report) action" and f
    using that unfolding triple_def by (auto simp: beside_def)
  have body: "stays ?J (\<lambda>c. let r = tail_read (pe_view env) (co_read_cursor c) in
      if \<not> tl_existed r then ?idle True c
      else (case candidate r of None \<Rightarrow> take_in stamps cfg env r (c\<lparr>co_discontinuity := None\<rparr>)
        | Some d \<Rightarrow> if co_discontinuity c = Some d then chain (confirm_discontinuity stamps cfg env r) (\<lambda>_. take_in stamps cfg env r) c
            else ?idle False (c\<lparr>co_discontinuity := Some d\<rparr>)))" (is "stays ?J ?b")
  proof (rule stays_pointwise)
    fix c :: collector
    let ?r = "tail_read (pe_view env) (co_read_cursor c)"
    consider "\<not> tl_existed ?r" | "tl_existed ?r" "candidate ?r = None" | d where "tl_existed ?r" "candidate ?r = Some d" "co_discontinuity c = Some d"
      | d where "tl_existed ?r" "candidate ?r = Some d" "co_discontinuity c \<noteq> Some d" by (cases "candidate ?r") auto
    then show "\<exists>m'. stays ?J m' \<and> ?b c = m' c"
    proof cases
      case 1
      then have "?b c = ?idle True c" by simp
      with idle show ?thesis by (intro exI conjI)
    next
      case 2
      then have e: "?b c = (\<lambda>c. take_in stamps cfg env ?r (c\<lparr>co_discontinuity := None\<rparr>)) c" by simp
      have "stays ?J (\<lambda>c. take_in stamps cfg env ?r (c\<lparr>co_discontinuity := None\<rparr>))" by (rule through [OF beside_take_in [OF assms]]) simp
      with e show ?thesis by (intro exI conjI)
    next
      case 3
      then have "?b c = chain (confirm_discontinuity stamps cfg env ?r) (\<lambda>_. take_in stamps cfg env ?r) c" by (simp add: Let_def)
      with stays_chain [OF beside_confirm [OF assms] beside_take_in [OF assms]] show ?thesis by (intro exI conjI)
    next
      case (4 d)
      then have e: "?b c = (\<lambda>c. ?idle False (c\<lparr>co_discontinuity := Some d\<rparr>)) c" by simp
      have "stays ?J (\<lambda>c. ?idle False (c\<lparr>co_discontinuity := Some d\<rparr>))" by (rule through [OF idle]) simp
      with e show ?thesis by (intro exI conjI)
    qed
  qed
  show "stays ?J (if \<not> ready then give (idle_report (cl_name cfg) True (0, 0, False)) else ?b)"
    by (cases ready) (simp_all only: not_True_eq_False not_False_eq_True if_True if_False body beside_give)
qed

section \<open>The agent (agent/runtime/supervisor.py)\<close>

record 'w agent =
  ag_collectors :: "string \<Rightarrow> collector" \<comment> \<open>their \<open>co_disk\<close> is not looked at\<close>
  ag_disk :: disk
  ag_world :: 'w
  ag_requests :: "(spool_event list \<times> http_outcome) list"

definition seat :: "'w agent \<Rightarrow> string \<Rightarrow> collector" where
  "seat a name = (ag_collectors a name)\<lparr>co_disk := ag_disk a\<rparr>"

definition unseat :: "'w agent \<Rightarrow> string \<Rightarrow> collector \<Rightarrow> 'w agent" where
  "unseat a name c = a\<lparr>ag_collectors := (ag_collectors a)(name := c), ag_disk := co_disk c\<rparr>"

definition uploader_of :: "'w agent \<Rightarrow> 'w uploader" where
  "uploader_of a = \<lparr>ul_disk = ag_disk a, ul_world = ag_world a, ul_requests = ag_requests a\<rparr>"

text \<open>What each poll sees is left to \<open>sees\<close>. An exception ends the step where it was raised; the loop goes on, and a
  crash is a failing operation followed by a restart, which forgets every collector.\<close>

inductive agent_step :: "(nat \<Rightarrow> stamp) \<Rightarrow> collector_config set \<Rightarrow> (collector_config \<Rightarrow> poll_env \<Rightarrow> collector \<Rightarrow> bool) \<Rightarrow> 'w upload_config
    \<Rightarrow> 'w agent \<Rightarrow> 'w agent \<Rightarrow> bool" for stamps cfgs sees ucfg where
  polled: "\<lbrakk>cfg \<in> cfgs; sees cfg env (seat a (cl_name cfg)); poll_once stamps cfg env (seat a (cl_name cfg)) = (r, c)\<rbrakk>
     \<Longrightarrow> agent_step stamps cfgs sees ucfg a (unseat a (cl_name cfg) c)"
| flushed: "\<lbrakk>cfg \<in> cfgs; force_flush stamps cfg now (seat a (cl_name cfg)) = (r, c)\<rbrakk>
     \<Longrightarrow> agent_step stamps cfgs sees ucfg a (unseat a (cl_name cfg) c)"
| uploaded: "run_cycle stamps now ucfg (uploader_of a) = (r, ul)
     \<Longrightarrow> agent_step stamps cfgs sees ucfg a (a\<lparr>ag_disk := ul_disk ul, ag_world := ul_world ul, ag_requests := ul_requests ul\<rparr>)"
| restarted: "agent_step stamps cfgs sees ucfg a (a\<lparr>ag_collectors := \<lambda>_. new_collector (ag_disk a)\<rparr>)"

inductive_cases agent_stepE: "agent_step stamps cfgs sees ucfg a a'"

definition agent_inv :: "(nat \<Rightarrow> stamp) \<Rightarrow> collector_config \<Rightarrow> octets \<Rightarrow> source_identity \<Rightarrow> nat \<Rightarrow> 'w agent \<Rightarrow> bool" where
  "agent_inv stamps cfg F I b a \<longleftrightarrow> source_inv stamps {} cfg F I b (answered_success (ag_requests a)) (seat a (cl_name cfg))"

lemma seat_unseat: "seat (unseat a name c) n = (if n = name then c else (seat a n)\<lparr>co_disk := co_disk c\<rparr>)"
  by (cases c) (simp add: seat_def unseat_def)

lemma requests_unseat [simp]: "ag_requests (unseat a name c) = ag_requests a"
  by (simp add: unseat_def)

text \<open>A step beside the tracked source, which keeps what is kept and the source's entry, keeps the invariant.\<close>

lemma source_inv_beside:
  assumes "source_inv stamps S cfg F I b D c" "keeps stamps (tracked cfg F b D (co_disk c)) D' d'"
    "load_agent_state (dk_state d') = Inr st'" "load_agent_state (dk_state (co_disk c)) = Inr st"
    "agent_get_source st' (cl_name cfg) = agent_get_source st (cl_name cfg)"
  shows "source_inv stamps {} cfg F I b D' (c\<lparr>co_disk := d'\<rparr>)"
proof -
  note later = kept_later [OF assms(2)]
  have "keeps stamps {} D' d'" using assms(2) by (simp add: keeps_def)
  moreover have "state_ok cfg F I b D' d'" using assms later(3) by (auto simp: source_inv_def state_ok_def)
  moreover have "memory_ok cfg F I b D' d' c" using assms(1) later(4) by (simp add: source_inv_def)
  ultimately show ?thesis by (simp add: source_inv_def memory_ok_disk)
qed

lemma agent_inv_beside:
  assumes "stays (beside stamps (tracked cfg F b (answered_success (ag_requests a)) (ag_disk a)) (answered_success (ag_requests a)) (cl_name cfg) entry) m"
    "agent_inv stamps cfg F I b a" "load_agent_state (dk_state (ag_disk a)) = Inr st" "agent_get_source st (cl_name cfg) = entry"
    "cl_name other \<noteq> cl_name cfg" "m (seat a (cl_name other)) = (r, c)"
  shows "agent_inv stamps cfg F I b (unseat a (cl_name other) c)"
proof -
  let ?D = "answered_success (ag_requests a)" and ?c = "seat a (cl_name cfg)"
  let ?S = "tracked cfg F b ?D (ag_disk a)"
  have d: "co_disk ?c = ag_disk a" "co_disk (seat a (cl_name other)) = ag_disk a" by (simp_all add: seat_def)
  have "spool_ok stamps (ag_disk a)" using assms(2) d by (simp add: agent_inv_def source_inv_def keeps_def)
  then have "beside stamps ?S ?D (cl_name cfg) entry (seat a (cl_name other))"
    using assms(3,4) d keeps_tracked [of stamps "ag_disk a" cfg F b ?D] by (simp add: beside_def)
  from triple_snd [OF assms(1) this] assms(6) obtain st' where s: "keeps stamps ?S ?D (co_disk c)"
    "load_agent_state (dk_state (co_disk c)) = Inr st'" "agent_get_source st' (cl_name cfg) = entry" by (auto simp: beside_def)
  have "source_inv stamps {} cfg F I b ?D (?c\<lparr>co_disk := co_disk c\<rparr>)"
    by (rule source_inv_beside [OF assms(2) [unfolded agent_inv_def], unfolded d, OF s(1,2) assms(3)]) (simp add: s(3) assms(4))
  then show ?thesis using assms(5) by (simp add: agent_inv_def seat_unseat)
qed

lemma agent_step_inv:
  assumes "stamps_ok stamps" "usable cfg" "\<forall>other \<in> cfgs. cl_path other \<noteq> [] \<and> (cl_name other = cl_name cfg \<longrightarrow> other = cfg)"
    "\<forall>env c. sees cfg env c \<longrightarrow> plausible cfg F I env c" "agent_inv stamps cfg F I b a" "agent_step stamps cfgs sees ucfg a a'"
  shows "agent_inv stamps cfg F I b a'"
proof -
  let ?D = "answered_success (ag_requests a)"
  from assms(5) obtain st where st: "load_agent_state (dk_state (ag_disk a)) = Inr st"
    by (auto simp: agent_inv_def source_inv_def state_ok_def seat_def)
  from assms(6) show ?thesis
  proof (cases rule: agent_step.cases)
    case (polled other env r c)
    show ?thesis
    proof (cases "other = cfg")
      case True
      with polled assms(4) have "plausible cfg F I env (seat a (cl_name cfg))" by blast
      from poll_inv [OF assms(1,2) assms(5) [unfolded agent_inv_def] this] polled True show ?thesis
        by (simp add: agent_inv_def seat_unseat)
    next
      case False
      with polled assms(3) have o: "cl_name other \<noteq> cl_name cfg" "cl_path other \<noteq> []" by auto
      from agent_inv_beside [OF beside_poll [OF assms(1) o(2,1)] assms(5) st refl o(1) polled(4)] polled(1) show ?thesis by simp
    qed
  next
    case (flushed other now r c)
    show ?thesis
    proof (cases "other = cfg")
      case True
      with source_inv_flush [OF assms(1,2) assms(5) [unfolded agent_inv_def]] flushed show ?thesis
        by (simp add: agent_inv_def seat_unseat force_flush_def)
    next
      case False
      with flushed assms(3) have o: "cl_name other \<noteq> cl_name cfg" "cl_path other \<noteq> []" by auto
      from agent_inv_beside [OF beside_flush [OF assms(1) o(2,1)] assms(5) st refl o(1) flushed(3) [unfolded force_flush_def]] flushed(1)
      show ?thesis by simp
    qed
  next
    case (uploaded now r ul)
    let ?S = "tracked cfg F b ?D (ag_disk a)"
    have "spool_ok stamps (ag_disk a)" using assms(5) by (simp add: agent_inv_def source_inv_def keeps_def seat_def)
    then have "uploader_keeps stamps ?S (uploader_of a)" using keeps_tracked [of stamps "ag_disk a" cfg F b ?D] by (simp add: uploader_keeps_def uploader_of_def)
    from run_cycle_keeps [OF assms(1) this, of now ucfg] run_cycle_state [of stamps now ucfg "uploader_of a"] uploaded(2)
    have u: "keeps stamps ?S (answered_success (ul_requests ul)) (ul_disk ul)" "dk_state (ul_disk ul) = dk_state (ag_disk a)"
      by (simp_all add: uploader_keeps_def uploader_of_def)
    have "source_inv stamps {} cfg F I b (answered_success (ul_requests ul)) ((seat a (cl_name cfg))\<lparr>co_disk := ul_disk ul\<rparr>)"
      by (rule source_inv_beside [OF assms(5) [unfolded agent_inv_def]]) (use u st in \<open>simp_all add: seat_def\<close>)
    then show ?thesis using uploaded(1) by (simp add: agent_inv_def seat_def)
  next
    case restarted
    have "state_ok cfg F I b ?D (ag_disk a)" "keeps stamps {} ?D (ag_disk a)" using assms(5) by (simp_all add: agent_inv_def source_inv_def seat_def)
    then show ?thesis using restarted by (simp add: agent_inv_def source_inv_def seat_def memory_ok_def new_collector_def)
  qed
qed


definition sample_source :: collector_config where
  "sample_source = \<lparr>cl_name = ''rejects'', cl_path = ''C:/Rejects.txt'', cl_mode = BootReplay, cl_agent_id = ''agent'', cl_customer_id = 1,
     cl_branch_id = 1, cl_max_events = 1, cl_max_seconds = 5, cl_parse_dt = (\<lambda>_. None), cl_show_dt = (\<lambda>_. [])\<rparr>"

definition sample_log :: octets where
  "sample_log = List.map of_char (''1|jam|1/2/2024|9:00'' @ [CHR 0x0A])"

definition sample_view :: file_view where
  "sample_view = \<lparr>fv_identity = Some (1, 7), fv_size = Some (length sample_log), fv_bytes = Some sample_log, fv_size_after = Some (length sample_log)\<rparr>"

definition sample_poll :: poll_env where
  "sample_poll = \<lparr>pe_boot = sample_view, pe_view = sample_view, pe_read_time = 0, pe_check_time = 0, pe_now = ''now''\<rparr>"

definition fresh_agent :: "unit agent" where
  "fresh_agent = \<lparr>ag_collectors = (\<lambda>_. new_collector empty_disk), ag_disk = empty_disk, ag_world = (), ag_requests = []\<rparr>"

text \<open>The one line of the sample log is read, spooled and the cursor saved behind it in the first poll.\<close>

lemma sample_read: "read_all sample_log = [sample_log]"
  by (code_simp)

lemma sample_usable: "usable sample_source"
  by (simp add: usable_def sample_source_def)

lemma sample_row: "row_of_line sample_source (decode_line sample_log) \<noteq> None"
  by code_simp

lemma sample_length: "length sample_log = 20"
  by (simp add: sample_log_def)

lemma sample_first_poll:
  "\<exists>r c st s. poll_once sample_stamps sample_source sample_poll (seat fresh_agent ''rejects'') = (r, c)
     \<and> load_agent_state (dk_state (co_disk c)) = Inr st \<and> agent_get_source st ''rejects'' = Some s \<and> fc_offset (as_cursor s) = 20"
proof -
  let ?c = "seat fresh_agent ''rejects''"
  obtain row where row: "row_of_line sample_source (decode_line sample_log) = Some row" using sample_row by blast
  let ?r = "tail_read sample_view None"
  have r: "?r = \<lparr>tl_lines = [decode_line sample_log], tl_line_offsets = [0], tl_cursor = \<lparr>fc_identity = Some [1, 7], fc_offset = 20\<rparr>,
      tl_existed = True, tl_rotated = False, tl_truncated = False\<rparr>"
    by (simp add: tail_read_def tail_start_def identify_def sample_view_def read_safe_lines_def sample_read sample_length Let_def)
  have boot: "bootstrap_if_needed sample_source sample_poll ?c = (Inr True, ?c\<lparr>co_bootstrapped := True\<rparr>)"
    by (simp add: bootstrap_if_needed_def seat_def fresh_agent_def new_collector_def chain_def loaded_state_def load_agent_state_def
        empty_disk_def agent_get_source_def sample_source_def update_def give_def)
  have parse: "parse_source sample_source [(0, decode_line sample_log)] = Inr ([row], [0])"
    using parse_source_rows [OF sample_usable] row by simp
  obtain x where x: "compute_source_event_id ''agent'' ''rejects'' 0 0 = Inr x"
    by (simp add: compute_source_event_id_def canonical_identity_string_def)
  have one: "chunks (Suc 0) [z] = [[z]]" for z :: "nat \<times> spool_event" by (subst chunks.simps, simp, subst chunks.simps, simp)
  have none: "load_agent_state None = Inr []" by (simp add: load_agent_state_def)
  show ?thesis
    unfolding poll_once_def
    apply (simp add: chain_def boot Let_def)
    apply (simp add: seat_def fresh_agent_def new_collector_def sample_poll_def r candidate_def take_in_def parse)
    apply (simp add: x chain_def update_def give_def Let_def sample_source_def finish_poll_def flush_if_due_def should_flush_def)
    apply (simp add: flush_def buffer_chunks_def one chain_def on_disk_def write_batch_def draw_name_def install_def draw_fault_def give_def update_def
       empty_disk_def max_batch_offset_def Let_def put_pending_def persist_state_def loaded_state_def none save_source_def update_source_def
       mk_agent_source_def agent_max_offset_def agent_with_source_def put_state_def agent_state_loads agent_source_ok_def agent_get_source_def)
    done
qed


section \<open>Discontinuities\<close>

text \<open>What a flush leaves of a collector: the cursors, the generation and the pending discontinuity.\<close>

definition outline :: "collector \<Rightarrow> file_cursor option \<times> int \<times> discontinuity option \<times> bool" where
  "outline c = (co_read_cursor c, co_generation c, co_discontinuity c, co_bootstrapped c)"

lemma outline_fixed:
  assumes "\<And>c. outline (snd (m c)) = outline c"
  shows "stays (\<lambda>c. outline c = x) m"
  unfolding triple_def
proof (intro allI impI)
  fix c assume "outline c = x"
  with assms [of c] show "case m c of (Inl _, c') \<Rightarrow> outline c' = x | (Inr _, c') \<Rightarrow> outline c' = x"
    by (cases "m c"; cases "fst (m c)") auto
qed

lemma outline_on_disk: "outline (snd (on_disk m c)) = outline c"
  by (cases "m (co_disk c)") (simp add: on_disk_def outline_def)

lemma outline_save: "outline (snd (save_source cfg now st cursor g c)) = outline c"
  by (cases "update_source st (cl_name cfg) (cl_path cfg) cursor g") (simp_all add: save_source_def fail_def outline_on_disk)

lemma outline_persist: "outline (snd (persist_state cfg now c)) = outline c"
proof (cases "co_pending_cursor c")
  case None
  then show ?thesis by (simp add: persist_state_def)
next
  case (Some cursor)
  show ?thesis
  proof (cases "load_agent_state (dk_state (co_disk c))")
    case (Inl e)
    with Some show ?thesis by (simp add: persist_state_def chain_def loaded_state_def)
  next
    case (Inr st)
    obtain r c' where s: "save_source cfg now st cursor (co_generation c) c = (r, c')" by (cases "save_source cfg now st cursor (co_generation c) c") auto
    with Some Inr outline_save [of cfg now st cursor "co_generation c" c] show ?thesis
      by (cases r) (simp_all add: persist_state_def chain_def loaded_state_def give_def)
  qed
qed

lemma outline_flush: "outline (snd (flush stamps cfg now c)) = outline c"
proof (cases "co_buffer c = []")
  case True
  then show ?thesis by (simp add: flush_def)
next
  case False
  show ?thesis
  proof (cases "buffer_chunks (cl_max_events cfg) (co_buffer c)")
    case (Inl e)
    with False show ?thesis by (simp add: flush_def Let_def)
  next
    case (Inr cs)
    let ?J = "\<lambda>c'. outline c' = outline c"
    have u: "stays ?J (update (\<lambda>c. c\<lparr>co_buffer := [], co_buffer_generation := None, co_buffer_started := None\<rparr>))"
      by (rule outline_fixed) (simp add: update_def outline_def)
    have "stays ?J (chain (on_disk m) (\<lambda>_. chain (update (\<lambda>c. c\<lparr>co_buffer := [], co_buffer_generation := None, co_buffer_started := None\<rparr>)) (\<lambda>_.
        chain (persist_state cfg now) (\<lambda>persisted. give (f persisted)))))" for m :: "(disk, unit) action" and f :: "bool \<Rightarrow> nat \<times> nat \<times> bool"
      by (rule stays_chain [OF outline_fixed [OF outline_on_disk] stays_chain [OF u stays_chain [OF outline_fixed [OF outline_persist] triple_give]]])
    from triple_snd [OF this, of c] False Inr show ?thesis by (cases "co_buffer_end c") (simp_all add: flush_def Let_def)
  qed
qed

lemma outline_flush_if_due: "outline (snd (flush_if_due stamps cfg env c)) = outline c"
  by (simp add: flush_if_due_def outline_flush)

lemma outline_idle: "outline (snd (chain (flush_if_due stamps cfg env) (\<lambda>x. give (f x)) c)) = outline c"
proof -
  have "stays (\<lambda>c'. outline c' = outline c) (chain (flush_if_due stamps cfg env) (\<lambda>x. give (f x)))"
    by (rule stays_chain [OF outline_fixed [OF outline_flush_if_due] triple_give])
  from triple_snd [OF this] show ?thesis by simp
qed

definition gist :: "collector \<Rightarrow> int \<times> discontinuity option" where
  "gist c = (co_generation c, co_discontinuity c)"

lemma gist_outline: "outline c' = outline c \<Longrightarrow> gist c' = gist c"
  by (simp add: outline_def gist_def)

lemma gist_fixed:
  assumes "\<And>c. gist (snd (m c)) = gist c"
  shows "stays (\<lambda>c. gist c = x) m"
  unfolding triple_def
proof (intro allI impI)
  fix c assume "gist c = x"
  with assms [of c] show "case m c of (Inl _, c') \<Rightarrow> gist c' = x | (Inr _, c') \<Rightarrow> gist c' = x"
    by (cases "m c"; cases "fst (m c)") auto
qed

lemma gist_append: "gist (snd (append_events cfg now rows labels c)) = gist c"
  by (induction cfg now rows labels arbitrary: c rule: append_events.induct)
    (auto simp: give_def Let_def gist_def split: sum.splits)

lemma finish_poll_outline: "outline (snd (finish_poll stamps cfg env r n c)) = outline c"
proof -
  have p: "stays (\<lambda>c'. outline c' = outline c) (\<lambda>c. if n = 0 \<and> co_buffer c = [] then persist_state cfg (pe_now env) c else (Inr False, c))"
    by (rule stays_if [OF outline_fixed [OF outline_persist]]) (rule outline_fixed, simp)
  have "stays (\<lambda>c'. outline c' = outline c) (finish_poll stamps cfg env r n)"
    unfolding finish_poll_def case_prod_unfold by (rule stays_chain [OF p stays_chain [OF outline_fixed [OF outline_flush_if_due] triple_give]])
  from triple_snd [OF this] show ?thesis by simp
qed

lemma take_in_gist: "gist (snd (take_in stamps cfg env r c)) = gist c"
proof -
  let ?J = "\<lambda>c'. gist c' = gist c"
  let ?parsed = "if tl_lines r = [] then Inr ([], []) else parse_source cfg (zip (tl_line_offsets r) (tl_lines r))"
  have "stays ?J (take_in stamps cfg env r)"
  proof (cases ?parsed)
    case (Inl e)
    show ?thesis unfolding take_in_def Inl sum.case by (rule triple_fail)
  next
    case (Inr x)
    obtain rows labels where x: "x = (rows, labels)" by (cases x)
    show ?thesis unfolding take_in_def Inr sum.case x prod.case
      by (rule stays_chain [OF gist_fixed [OF gist_append] stays_chain [OF gist_fixed gist_fixed [OF gist_outline [OF finish_poll_outline]]]])
        (simp add: update_def gist_def)
  qed
  from triple_snd [OF this] show ?thesis by simp
qed

lemma take_in_cursor: "take_in stamps cfg env r c = (Inr rep, c') \<Longrightarrow> co_read_cursor c' = Some (tl_cursor r)"
proof -
  assume t: "take_in stamps cfg env r c = (Inr rep, c')"
  let ?J = "\<lambda>c'. co_read_cursor c' = Some (tl_cursor r)"
  let ?parsed = "if tl_lines r = [] then Inr ([], []) else parse_source cfg (zip (tl_line_offsets r) (tl_lines r))"
  have f: "triple ?J (finish_poll stamps cfg env r n) (\<lambda>_. ?J) (\<lambda>_. True)" for n
    unfolding triple_def
  proof (intro allI impI)
    fix c :: collector assume "?J c"
    with finish_poll_outline [of stamps cfg env r n c]
    show "case finish_poll stamps cfg env r n c of (Inl _, s') \<Rightarrow> True | (Inr a, s') \<Rightarrow> ?J s'"
      by (cases "finish_poll stamps cfg env r n c"; cases "fst (finish_poll stamps cfg env r n c)") (auto simp: outline_def)
  qed
  have u: "triple (\<lambda>_. True) (update (\<lambda>c. c\<lparr>co_buffer_end := Some (fc_offset (tl_cursor r)), co_pending_cursor := Some (tl_cursor r),
      co_read_cursor := Some (tl_cursor r)\<rparr>)) (\<lambda>_. ?J) (\<lambda>_. True)" by (rule triple_update) simp
  have a: "triple (\<lambda>_. True) m (\<lambda>_ _. True) (\<lambda>_. True)" for m :: "(collector, unit) action"
    unfolding triple_def by (auto split: prod.split sum.split)
  have "triple (\<lambda>_. True) (take_in stamps cfg env r) (\<lambda>_. ?J) (\<lambda>_. True)"
  proof (cases ?parsed)
    case (Inl e)
    show ?thesis unfolding take_in_def Inl sum.case by (rule triple_fail)
  next
    case (Inr x)
    obtain rows labels where x: "x = (rows, labels)" by (cases x)
    show ?thesis unfolding take_in_def Inr sum.case x prod.case by (rule triple_chain [OF a triple_chain [OF u f]])
  qed
  from triple_Inr [OF this TrueI t] show ?thesis .
qed

text \<open>C14. A discontinuity is acted on only at its second sighting: at the first one of a rotation or a shrink the poll leaves
  the read cursor and the generation as they are and takes nothing in; the generation never changes otherwise, and at the second
  sighting of the same one it goes up by exactly one and the poll, if it does not raise, continues behind the new content.\<close>

theorem discontinuity_confirmed:
  assumes "poll_once stamps cfg env c = (r, c')" "co_bootstrapped c" "0 \<le> co_generation c"
    "(case co_read_cursor c of None \<Rightarrow> True | Some k \<Rightarrow> int (fc_offset k) \<le> agent_max_offset)"
    "seen = tail_read (pe_view env) (co_read_cursor c)"
  shows "(candidate seen \<noteq> None \<and> co_discontinuity c \<noteq> candidate seen
        \<longrightarrow> co_read_cursor c' = co_read_cursor c \<and> co_generation c' = co_generation c \<and> co_discontinuity c' = candidate seen)
    \<and> (co_generation c' = co_generation c
        \<or> candidate seen \<noteq> None \<and> co_discontinuity c = candidate seen \<and> co_generation c' = co_generation c + 1)
    \<and> (candidate seen \<noteq> None \<and> co_discontinuity c = candidate seen \<and> (\<exists>rep. r = Inr rep)
        \<longrightarrow> co_generation c' = co_generation c + 1 \<and> co_discontinuity c' = None \<and> co_read_cursor c' = Some (tl_cursor seen))"
proof -
  have existed: "tl_existed seen" if "candidate seen \<noteq> None"
    using that assms(5) by (auto simp: candidate_def tail_read_def no_read_def Let_def split: option.splits prod.splits if_splits)
  have boot: "bootstrap_if_needed cfg env c = (Inr True, c)" using assms(2) by (simp add: bootstrap_if_needed_def)
  let ?idle = "\<lambda>m. chain (flush_if_due stamps cfg env) (\<lambda>flushed. give (idle_report (cl_name cfg) m flushed))"
  have run: "(if \<not> tl_existed seen then ?idle True c
      else (case candidate seen of None \<Rightarrow> take_in stamps cfg env seen (c\<lparr>co_discontinuity := None\<rparr>)
        | Some d \<Rightarrow> if co_discontinuity c = Some d then chain (confirm_discontinuity stamps cfg env seen) (\<lambda>_. take_in stamps cfg env seen) c
          else ?idle False (c\<lparr>co_discontinuity := Some d\<rparr>))) = (r, c')"
    using assms(1) unfolding assms(5) by (simp add: poll_once_def chain_def boot Let_def)
  consider (missing) "\<not> tl_existed seen" | (clean) "tl_existed seen" "candidate seen = None"
    | (again) d where "tl_existed seen" "candidate seen = Some d" "co_discontinuity c = Some d"
    | (fresh) d where "tl_existed seen" "candidate seen = Some d" "co_discontinuity c \<noteq> Some d" by (cases "candidate seen") auto
  then show ?thesis
  proof cases
    case missing
    with run outline_idle [of stamps cfg env "idle_report (cl_name cfg) True" c] existed show ?thesis by (auto simp: outline_def)
  next
    case clean
    with run take_in_gist [of stamps cfg env seen "c\<lparr>co_discontinuity := None\<rparr>"] show ?thesis by (simp add: gist_def)
  next
    case (fresh d)
    with run outline_idle [of stamps cfg env "idle_report (cl_name cfg) False" "c\<lparr>co_discontinuity := Some d\<rparr>"]
    show ?thesis by (simp add: outline_def)
  next
    case (again d)
    then have run: "chain (confirm_discontinuity stamps cfg env seen) (\<lambda>_. take_in stamps cfg env seen) c = (r, c')" using run by simp
    let ?c0 = "c\<lparr>co_discontinuity := None\<rparr>"
    obtain x c1 where f: "flush stamps cfg (pe_now env) ?c0 = (x, c1)" by (cases "flush stamps cfg (pe_now env) ?c0") auto
    have o1: "outline c1 = outline ?c0" using outline_flush [of stamps cfg "pe_now env" ?c0] f by simp
    have turned: "tl_rotated seen \<or> tl_truncated seen" using again(2) by (auto simp: candidate_def split: if_splits)
    let ?c2 = "c1\<lparr>co_generation := co_generation c + 1\<rparr>"
    have confirm: "confirm_discontinuity stamps cfg env seen c = (case x of Inl e \<Rightarrow> (Inl e, c1) | Inr _ \<Rightarrow> (Inr (), ?c2))"
      using f o1 assms(3,4) turned
      by (cases x; cases "co_read_cursor c") (auto simp: confirm_discontinuity_def chain_def update_def outline_def mk_agent_source_def
          advance_generation_def agent_max_offset_def)
    show ?thesis
    proof (cases x)
      case (Inl e)
      with run confirm o1 again show ?thesis by (auto simp: chain_def outline_def)
    next
      case (Inr y)
      with run confirm have t: "take_in stamps cfg env seen ?c2 = (r, c')" by (simp add: chain_def)
      from take_in_gist [of stamps cfg env seen ?c2] t o1 have "co_generation c' = co_generation c + 1 \<and> co_discontinuity c' = None"
        by (simp add: gist_def outline_def)
      with take_in_cursor t again show ?thesis by fastforce
    qed
  qed
qed

definition rotated_collector :: collector where
  "rotated_collector = (new_collector empty_disk)\<lparr>co_bootstrapped := True, co_read_cursor := Some \<lparr>fc_identity = Some [1, 2], fc_offset = 5\<rparr>\<rparr>"

theorem discontinuity_confirmed_witness:
  "\<exists>r c r' c'. poll_once sample_stamps sample_source sample_poll rotated_collector = (r, c)
     \<and> poll_once sample_stamps sample_source sample_poll c = (r', c')
     \<and> co_generation c = 0 \<and> co_discontinuity c = Some (KindRotated, Some [1, 7]) \<and> co_generation c' \<le> 1"
proof -
  obtain r c where p: "poll_once sample_stamps sample_source sample_poll rotated_collector = (r, c)"
    by (cases "poll_once sample_stamps sample_source sample_poll rotated_collector") auto
  obtain r' c' where p': "poll_once sample_stamps sample_source sample_poll c = (r', c')"
    by (cases "poll_once sample_stamps sample_source sample_poll c") auto
  let ?k = "Some \<lparr>fc_identity = Some [1, 2], fc_offset = 5\<rparr>"
  have rc: "co_read_cursor rotated_collector = ?k" "co_generation rotated_collector = 0" "co_bootstrapped rotated_collector"
    "co_discontinuity rotated_collector = None" by (simp_all add: rotated_collector_def new_collector_def)
  have seen: "candidate (tail_read (pe_view sample_poll) ?k) = Some (KindRotated, Some [1, 7])"
    by (simp add: tail_read_def tail_start_def identify_def sample_view_def sample_poll_def read_safe_lines_def sample_read Let_def candidate_def)
  have ok: "case ?k of None \<Rightarrow> True | Some k \<Rightarrow> int (fc_offset k) \<le> agent_max_offset" by (simp add: agent_max_offset_def)
  from discontinuity_confirmed [OF p rc(3) _ _ refl] rc seen ok
  have first: "co_generation c = 0" "co_discontinuity c = Some (KindRotated, Some [1, 7])" "co_read_cursor c = ?k" by simp_all
  have "co_bootstrapped c" using p seen rc
    by (auto simp: poll_once_def bootstrap_if_needed_def chain_def Let_def give_def flush_if_due_def should_flush_def rotated_collector_def
        new_collector_def split: if_splits)
  from discontinuity_confirmed [OF p' this _ _ refl] first ok have "co_generation c' \<le> 1" by auto
  with p p' first show ?thesis by blast
qed

end
