(* ===== verification/ServerTables.thy ===== *)
theory ServerTables
  imports IngestApi
begin

text \<open>
  The tables of the server beyond those of \<open>IngestDb\<close>: enrollment codes, customers, settings documents,
  accounts, login sessions, password reset tokens, memberships, the audit log and the lifecycle record, with
  the lookups several services share and the audit row of src/src/services/auth_service.py. Row locks and
  row level security are not modelled: one transaction runs at a time.
\<close>

section \<open>Rows\<close>

record enrollment_code =
  ec_id :: int
  ec_installation_id :: int
  ec_code_hash :: string
  ec_expires_at :: instant
  ec_used_at :: "instant option"
  ec_revoked_at :: "instant option"
  ec_required_contract :: int

record session =
  se_id :: int
  se_user_id :: int
  se_token_hash :: string
  se_expires_at :: instant
  se_revoked_at :: "instant option"
  se_last_seen_at :: "instant option"

record account =
  us_id :: int
  us_email :: string
  us_full_name :: string
  us_password_hash :: "string option"
  us_is_active :: bool
  us_is_platform_admin :: bool
  us_failed_login_attempts :: int
  us_locked_until :: "instant option"
  us_last_login_at :: "instant option"
  us_last_failed_login_at :: "instant option"
  us_last_password_changed_at :: "instant option"

record reset_token =
  rt_user_id :: int
  rt_token_hash :: string
  rt_expires_at :: instant
  rt_used_at :: "instant option"

record membership =
  mb_id :: int
  mb_user_id :: int
  mb_organization_id :: int
  mb_role :: string
  mb_removed_at :: "instant option"

record audit_row =
  au_event_type :: string
  au_is_success :: bool
  au_user_id :: "int option"
  au_email :: "string option"
  au_message :: string
  au_metadata :: "(string \<times> json) list"

record lifecycle_row =
  lc_event_type :: string
  lc_organization_id :: int
  lc_organization_slug :: string
  lc_customer_id :: "int option"
  lc_actor_user_id :: "int option"
  lc_actor_label :: string
  lc_details :: "(string \<times> json) list"

text \<open>A settings row holds \<open>None\<close> when what is stored is text that is not JSON.\<close>

record server =
  sr_db :: db
  sr_codes :: "enrollment_code list"
  sr_customers :: "int list"
  sr_organization_settings :: "(int \<times> json option) list"
  sr_branch_settings :: "(int \<times> json option) list"
  sr_accounts :: "account list"
  sr_sessions :: "session list"
  sr_resets :: "reset_token list"
  sr_memberships :: "membership list"
  sr_audit :: "audit_row list"
  sr_lifecycle :: "lifecycle_row list"

section \<open>Lookups\<close>

definition installation_row :: "db \<Rightarrow> int \<Rightarrow> installation option" where
  "installation_row db i = find (\<lambda>x. in_id x = i) (db_installations db)"

definition organization_row :: "db \<Rightarrow> int \<Rightarrow> organization option" where
  "organization_row db i = find (\<lambda>g. og_id g = i) (db_organizations db)"

definition organization_by_slug :: "db \<Rightarrow> string \<Rightarrow> organization option" where
  "organization_by_slug db slug = find (\<lambda>g. og_slug g = slug) (db_organizations db)"

definition branch_row :: "db \<Rightarrow> int \<Rightarrow> branch option" where
  "branch_row db i = find (\<lambda>b. br_id b = i) (db_branches db)"

definition account_row :: "server \<Rightarrow> int \<Rightarrow> account option" where
  "account_row sr i = find (\<lambda>u. us_id u = i) (sr_accounts sr)"

section \<open>The audit log (auth_service.py)\<close>

record actor =
  ac_id :: int
  ac_email :: "string option"

definition log_auth_event ::
    "string \<Rightarrow> bool \<Rightarrow> int option \<Rightarrow> string option \<Rightarrow> string \<Rightarrow> (string \<times> json) list \<Rightarrow> server \<Rightarrow> server" where
  "log_auth_event event_type is_success user_id email message metadata sr =
     sr\<lparr>sr_audit := sr_audit sr @ [\<lparr>au_event_type = event_type, au_is_success = is_success, au_user_id = user_id,
        au_email = (case email of None \<Rightarrow> None | Some [] \<Rightarrow> None | Some e \<Rightarrow> Some (py_lower (py_strip e))),
        au_message = message, au_metadata = metadata\<rparr>]\<rparr>"

text \<open>The record of an administrator's change names the library as \<open>target_org_slug\<close>.\<close>

definition audit_admin :: "string \<Rightarrow> string \<Rightarrow> string \<Rightarrow> actor \<Rightarrow> (string \<times> json) list \<Rightarrow> server \<Rightarrow> server" where
  "audit_admin event_type message slug actor details =
     log_auth_event event_type True (Some (ac_id actor)) (ac_email actor) message
       ((''target_org_slug'', JStr slug) # details @ [(''actor_user_id'', JInt (ac_id actor))])"

section \<open>Lemmas\<close>

lemma audit_frame [simp]:
  "sr_db (log_auth_event a b c d e f sr) = sr_db sr" "sr_codes (log_auth_event a b c d e f sr) = sr_codes sr"
  "sr_customers (log_auth_event a b c d e f sr) = sr_customers sr"
  "sr_organization_settings (log_auth_event a b c d e f sr) = sr_organization_settings sr"
  "sr_branch_settings (log_auth_event a b c d e f sr) = sr_branch_settings sr"
  "sr_accounts (log_auth_event a b c d e f sr) = sr_accounts sr" "sr_sessions (log_auth_event a b c d e f sr) = sr_sessions sr"
  "sr_resets (log_auth_event a b c d e f sr) = sr_resets sr" "sr_memberships (log_auth_event a b c d e f sr) = sr_memberships sr"
  "sr_lifecycle (log_auth_event a b c d e f sr) = sr_lifecycle sr"
  by (simp_all add: log_auth_event_def)

lemma audit_admin_frame [simp]:
  "sr_db (audit_admin a b c d e sr) = sr_db sr" "sr_codes (audit_admin a b c d e sr) = sr_codes sr"
  "sr_customers (audit_admin a b c d e sr) = sr_customers sr"
  "sr_organization_settings (audit_admin a b c d e sr) = sr_organization_settings sr"
  "sr_branch_settings (audit_admin a b c d e sr) = sr_branch_settings sr"
  "sr_accounts (audit_admin a b c d e sr) = sr_accounts sr" "sr_sessions (audit_admin a b c d e sr) = sr_sessions sr"
  "sr_resets (audit_admin a b c d e sr) = sr_resets sr" "sr_memberships (audit_admin a b c d e sr) = sr_memberships sr"
  "sr_lifecycle (audit_admin a b c d e sr) = sr_lifecycle sr"
  by (simp_all add: audit_admin_def)

lemma update_where_fst: "fst (update_where P f rows) = length (filter P rows)"
  by (simp add: update_where_def)

lemma update_where_snd: "snd (update_where P f rows) = List.map (\<lambda>r. if P r then f r else r) rows"
  by (simp add: update_where_def)

end
