(* ===== verification/SettingsRules.thy ===== *)
theory SettingsRules
  imports V2Classify
begin

text \<open>
  What a site's stored settings mean for its collector: src/src/services/settings_merge.py (a branch's
  settings over its organization's), src/src/services/collector_rules.py (time zone, review record and the
  classification rules an enrollment hands out) and \<open>seed_from_settings\<close> of collector/v2_rules.py, which
  collector_rules.py reproduces. Refusals are the code's fixed reason codes. Python's \<open>str\<close> of a number or a
  container is the argument \<open>str_of\<close>, the known time zones and \<open>datetime.fromisoformat\<close> are arguments too.
  The main lemma is the contract stated in the module: the server's document is exactly what the
  collector's own seeding and normalization give, and its validator accepts it unchanged.
\<close>

section \<open>Merging (settings_merge.py)\<close>

text \<open>A document that is not an object counts as empty.\<close>

fun members_of :: "json \<Rightarrow> (string \<times> json) list" where
  "members_of (JObj ms) = ms"
| "members_of _ = []"

function merge_members :: "(string \<times> json) list \<Rightarrow> (string \<times> json) list \<Rightarrow> (string \<times> json) list" where
  "merge_members result [] = result"
| "merge_members result ((k, v) # rest) =
     merge_members (AList.update k (case (v, map_of result k) of
         (JObj ms, Some (JObj old)) \<Rightarrow> JObj (merge_members old ms)
       | _ \<Rightarrow> v) result) rest"
  by pat_completeness auto

termination merge_members
  by (relation "measure (\<lambda>(result, b). size (JObj b))") auto

definition merge_settings :: "json \<Rightarrow> json \<Rightarrow> (string \<times> json) list" where
  "merge_settings organization branch = merge_members (members_of organization) (members_of branch)"

text \<open>\<open>settings_document\<close>: a stored document as the driver hands it back, an object or not; \<open>None\<close> is text that is not JSON.\<close>

definition settings_document :: "json option option \<Rightarrow> string + (string \<times> json) list" where
  "settings_document stored =
     (case stored of None \<Rightarrow> Inr [] | Some None \<Rightarrow> Inl ''ValueError'' | Some (Some j) \<Rightarrow> Inr (members_of j))"

text \<open>Whether both hold an object at a key decides between merging and replacing; keys only one has are kept.\<close>

definition merged_value :: "json option \<Rightarrow> json option \<Rightarrow> json option" where
  "merged_value old new =
     (case (old, new) of (_, None) \<Rightarrow> old
      | (Some (JObj a), Some (JObj b)) \<Rightarrow> Some (JObj (merge_members a b))
      | (_, Some v) \<Rightarrow> Some v)"

lemma merge_lookup:
  "distinct (List.map fst b) \<Longrightarrow> map_of (merge_members a b) k = merged_value (map_of a k) (map_of b k)"
proof (induction b arbitrary: a)
  case Nil
  then show ?case by (simp add: merged_value_def split: option.split json.split)
next
  case (Cons p rest)
  obtain k' v where p: "p = (k', v)" by (cases p)
  have rest: "distinct (List.map fst rest)" "map_of rest k' = None" using Cons.prems p by (auto simp: map_of_eq_None_iff)
  let ?v = "case (v, map_of a k') of (JObj ms, Some (JObj old)) \<Rightarrow> JObj (merge_members old ms) | _ \<Rightarrow> v"
  have "map_of (merge_members a (p # rest)) k = merged_value (map_of (AList.update k' ?v a) k) (map_of rest k)"
    unfolding p merge_members.simps by (rule Cons.IH [OF rest(1)])
  also have "\<dots> = merged_value (map_of a k) (map_of (p # rest) k)"
  proof (cases "k = k'")
    case True
    then show ?thesis using rest(2) by (auto simp: p merged_value_def AList.update_conv' split: option.splits json.splits)
  qed (simp add: p AList.update_conv')
  finally show ?case .
qed

section \<open>Time zone and review (collector_rules.py)\<close>

definition collector_timezone :: "(string \<Rightarrow> bool) \<Rightarrow> (string \<times> json) list \<Rightarrow> string + string" where
  "collector_timezone zone_known settings =
     (case jget settings ''collector_timezone'' of
        JNull \<Rightarrow> Inl ''timezone_not_configured''
      | JStr value \<Rightarrow>
          (let name = py_strip value in
           if name = [] then Inl ''timezone_not_configured''
           else if length name \<le> 64 \<and> zone_known name then Inr name else Inl ''timezone_invalid'')
      | _ \<Rightarrow> Inl ''timezone_invalid'')"

text \<open>\<open>iso_aware\<close>: whether \<open>fromisoformat\<close> reads the text as a time with an offset; a text it refuses is not.\<close>

definition require_rules_reviewed :: "(string \<Rightarrow> bool) \<Rightarrow> (string \<times> json) list \<Rightarrow> string + unit" where
  "require_rules_reviewed iso_aware settings =
     (let marker = members_of (jget settings ''collector_rules'') in
      case (jget marker ''reviewed_at'', jget marker ''reviewed_by_user_id'') of
        (JStr when, JInt reviewer) \<Rightarrow> if iso_aware when \<and> reviewer \<ge> 1 then Inr () else Inl ''rules_not_reviewed''
      | _ \<Rightarrow> Inl ''rules_not_reviewed'')"

definition rules_review_marker :: "(instant \<Rightarrow> string) \<Rightarrow> pydatetime \<Rightarrow> int \<Rightarrow> string + json" where
  "rules_review_marker isoformat reviewed_at reviewer =
     (case reviewed_at of Naive _ \<Rightarrow> Inl ''reviewed_at''
      | Aware t _ \<Rightarrow> if reviewer < 1 then Inl ''reviewed_by_user_id''
          else Inr (JObj [(''reviewed_at'', JStr (isoformat t)), (''reviewed_by_user_id'', JInt reviewer)]))"

section \<open>The rules document (collector_rules.py)\<close>

fun truthy :: "json \<Rightarrow> bool" where
  "truthy JNull \<longleftrightarrow> False"
| "truthy (JBool b) \<longleftrightarrow> b"
| "truthy (JInt i) \<longleftrightarrow> i \<noteq> 0"
| "truthy (JFloat r) \<longleftrightarrow> r \<noteq> 0"
| "truthy (JStr s) \<longleftrightarrow> s \<noteq> []"
| "truthy (JArr xs) \<longleftrightarrow> xs \<noteq> []"
| "truthy (JObj ms) \<longleftrightarrow> ms \<noteq> []"

fun py_str :: "(json \<Rightarrow> string) \<Rightarrow> json \<Rightarrow> string" where
  "py_str str_of (JStr s) = s"
| "py_str str_of JNull = ''None''"
| "py_str str_of (JBool b) = (if b then ''True'' else ''False'')"
| "py_str str_of v = str_of v"

definition block :: "(string \<times> json) list \<Rightarrow> string \<Rightarrow> string + (string \<times> json) list" where
  "block settings key = (case jget settings key of JNull \<Rightarrow> Inr [] | JObj ms \<Rightarrow> Inr ms | _ \<Rightarrow> Inl ''rules_invalid'')"

definition list_entries :: "(string \<times> json) list \<Rightarrow> string \<Rightarrow> string + json list" where
  "list_entries ms key =
     (case jget ms key of JNull \<Rightarrow> Inr []
      | JArr xs \<Rightarrow> if length xs > max_entries then Inl ''rules_invalid'' else Inr xs
      | _ \<Rightarrow> Inl ''rules_invalid'')"

definition listed_names :: "(string \<times> json) list \<Rightarrow> string \<Rightarrow> string + string list" where
  "listed_names ms key =
     bind_result (list_entries ms key) (\<lambda>values.
       case json_strings values of None \<Rightarrow> Inl ''rules_invalid'' | Some vs \<Rightarrow> Inr (clean_names vs))"

text \<open>An enabled destination with a label and a usable slug; one that is disabled or has neither is left out.\<close>

definition destination_of :: "(json \<Rightarrow> string) \<Rightarrow> (string \<times> json) list \<Rightarrow> (string \<times> string) option" where
  "destination_of str_of entry =
     (if \<not> truthy (jget_or entry ''enabled'' (JBool True)) then None
      else (let label = py_strip (py_str str_of (jget_or entry ''label'' (JStr [])));
                key = py_str str_of (jget_or entry ''key'' (JStr [])) in
            case slugify (if key = [] then label else key) of
              None \<Rightarrow> None
            | Some slug \<Rightarrow> if label = [] then None else Some (slug, py_upper label)))"

fun destinations_of :: "(json \<Rightarrow> string) \<Rightarrow> json list \<Rightarrow> string + (string \<times> string) list" where
  "destinations_of str_of [] = Inr []"
| "destinations_of str_of (JObj entry # rest) =
     bind_result (destinations_of str_of rest) (\<lambda>ds.
       Inr (case destination_of str_of entry of None \<Rightarrow> ds | Some d \<Rightarrow> d # ds))"
| "destinations_of str_of (_ # rest) = Inl ''rules_invalid''"

text \<open>A rules document as JSON, in the schema of the collector.\<close>

definition rules_json :: "norm_document \<Rightarrow> json" where
  "rules_json d = JObj
     [(''schema_version'', JInt 1),
      (''destinations'', JArr (List.map (\<lambda>(slug, text). JObj [(''slug'', JStr slug), (''contains'', JStr text)]) (nd_destinations d))),
      (''branch_services_names'', JArr (List.map JStr (nd_branch_names d))),
      (''collection_services_names'', JArr (List.map JStr (nd_collection_names d))),
      (''branch_services_da_patterns'', JArr (List.map JStr (nd_branch_patterns d))),
      (''collection_services_da_patterns'', JArr (List.map JStr (nd_collection_patterns d)))]"

definition build_classification_rules :: "(json \<Rightarrow> string) \<Rightarrow> (string \<times> json) list \<Rightarrow> string + norm_document" where
  "build_classification_rules str_of settings =
     bind_result (block settings ''transit'') (\<lambda>transit.
     bind_result (block settings ''internal_routing'') (\<lambda>internal.
     bind_result (list_entries transit ''destinations'') (\<lambda>entries.
     bind_result (destinations_of str_of entries) (\<lambda>ds.
     bind_result (listed_names internal ''branch_services_names'') (\<lambda>bn.
     bind_result (listed_names internal ''collection_services_names'') (\<lambda>cn.
     bind_result (listed_names internal ''branch_services_da_patterns'') (\<lambda>bp.
     bind_result (listed_names internal ''collection_services_da_patterns'') (\<lambda>cp.
       Inr \<lparr>nd_destinations = ds, nd_branch_names = bn, nd_collection_names = cn, nd_branch_patterns = bp, nd_collection_patterns = cp\<rparr>))))))))"

section \<open>The collector's own seeding (collector/v2_rules.py)\<close>

datatype seed_error = SeedInvalid | SeedTypeError

text \<open>\<open>for x in value or []\<close>: the characters of a text, the keys of an object, and no iteration over a number.\<close>

definition iterated :: "json \<Rightarrow> seed_error + json list" where
  "iterated v =
     (if \<not> truthy v then Inr []
      else case v of JArr xs \<Rightarrow> Inr xs
        | JStr s \<Rightarrow> Inr (List.map (\<lambda>c. JStr [c]) s)
        | JObj ms \<Rightarrow> Inr (List.map (\<lambda>(k, _). JStr k) ms)
        | _ \<Rightarrow> Inl SeedTypeError)"

fun seeded_destinations :: "(json \<Rightarrow> string) \<Rightarrow> json list \<Rightarrow> (string \<times> string) list" where
  "seeded_destinations str_of [] = []"
| "seeded_destinations str_of (JObj entry # rest) =
     (case destination_of str_of entry of None \<Rightarrow> seeded_destinations str_of rest | Some d \<Rightarrow> d # seeded_destinations str_of rest)"
| "seeded_destinations str_of (_ # rest) = seeded_destinations str_of rest"

definition seeded_names :: "(json \<Rightarrow> string) \<Rightarrow> (string \<times> json) list \<Rightarrow> string \<Rightarrow> seed_error + string list" where
  "seeded_names str_of internal key =
     bind_result (iterated (jget_or internal key (JArr []))) (\<lambda>values. Inr (clean_names (List.map (py_str str_of) values)))"

definition seed_from_settings :: "(json \<Rightarrow> string) \<Rightarrow> json \<Rightarrow> seed_error + json" where
  "seed_from_settings str_of settings =
     (case settings of
        JObj ms \<Rightarrow>
          (let transit = members_of (jget ms ''transit''); internal = members_of (jget ms ''internal_routing'') in
           bind_result (iterated (jget_or transit ''destinations'' (JArr []))) (\<lambda>entries.
           bind_result (seeded_names str_of internal ''branch_services_names'') (\<lambda>bn.
           bind_result (seeded_names str_of internal ''collection_services_names'') (\<lambda>cn.
           bind_result (seeded_names str_of internal ''branch_services_da_patterns'') (\<lambda>bp.
           bind_result (seeded_names str_of internal ''collection_services_da_patterns'') (\<lambda>cp.
             Inr (rules_json \<lparr>nd_destinations = seeded_destinations str_of entries, nd_branch_names = bn, nd_collection_names = cn,
                    nd_branch_patterns = bp, nd_collection_patterns = cp\<rparr>)))))))
      | _ \<Rightarrow> Inl SeedInvalid)"

section \<open>The two ends agree\<close>

lemma clean_names_idem: "clean_names (clean_names vs) = clean_names vs"
proof -
  have s: "py_upper (py_strip v) = v \<and> py_strip v \<noteq> []" if "v \<in> set (clean_names vs)" for v
  proof -
    from that obtain w where w: "v = py_upper (py_strip w)" "py_strip w \<noteq> []" by (auto simp: clean_names_set)
    then show ?thesis by (metis py_strip_upper py_strip_idem py_upper_idem map_is_Nil_conv py_upper_def)
  qed
  then have f: "filter (\<lambda>v. py_strip v \<noteq> []) (clean_names vs) = clean_names vs" by (intro filter_True) blast
  have "List.map (\<lambda>v. py_upper (py_strip v)) (clean_names vs) = clean_names vs" by (rule map_idI) (use s in blast)
  then have "clean_names (clean_names vs) = sort (remdups (clean_names vs))" by (simp add: clean_names_def [of "clean_names vs"] f)
  also have "\<dots> = clean_names vs" by (simp add: clean_names_sorted distinct_remdups_id sorted_sort_id)
  finally show ?thesis .
qed

lemma clean_names_length: "length (clean_names vs) \<le> length vs"
proof -
  have "length (clean_names vs) \<le> length (filter (\<lambda>v. py_strip v \<noteq> []) vs)"
    unfolding clean_names_def by (metis length_map length_remdups_leq length_sort)
  then show ?thesis using length_filter_le le_trans by blast
qed

lemma json_strings_JStr [simp]: "json_strings (List.map JStr vs) = Some vs"
  by (induction vs) auto

lemma json_strings_map: "json_strings xs = Some vs \<Longrightarrow> xs = List.map JStr vs"
  by (induction xs arbitrary: vs rule: json_strings.induct) auto

lemma py_str_JStr [simp]: "List.map (py_str str_of) (List.map JStr vs) = vs"
  by (simp add: comp_def)

lemma destination_of_ok: "destination_of str_of entry = Some (slug, text) \<Longrightarrow> is_destination slug \<and> text \<noteq> [] \<and> py_upper (py_strip text) = text"
proof -
  assume d: "destination_of str_of entry = Some (slug, text)"
  define l where "l = py_str str_of (jget_or entry ''label'' (JStr []))"
  define k where "k = py_str str_of (jget_or entry ''key'' (JStr []))"
  from d have s: "slugify (if k = [] then py_strip l else k) = Some slug" "py_strip l \<noteq> []" "text = py_upper (py_strip l)"
    by (auto simp: destination_of_def Let_def l_def k_def split: if_splits option.splits)
  have "is_destination slug" using slugify_total [of "if k = [] then py_strip l else k"] s(1) by simp
  moreover have "text \<noteq> []" using s by (simp add: py_upper_def)
  moreover have "py_upper (py_strip text) = text" unfolding s(3) py_strip_upper by (simp add: py_upper_def)
  ultimately show ?thesis by blast
qed

lemma destinations_agree: "destinations_of str_of xs = Inr ds \<Longrightarrow> seeded_destinations str_of xs = ds \<and> length ds \<le> length xs
    \<and> (\<forall>(slug, text) \<in> set ds. is_destination slug \<and> text \<noteq> [] \<and> py_upper (py_strip text) = text)"
proof (induction str_of xs arbitrary: ds rule: destinations_of.induct)
  case (2 str_of entry rest)
  then obtain ds' where d: "destinations_of str_of rest = Inr ds'"
    "ds = (case destination_of str_of entry of None \<Rightarrow> ds' | Some d \<Rightarrow> d # ds')" by (cases "destinations_of str_of rest") auto
  from "2.IH" [OF d(1)] d(2) destination_of_ok show ?case by (cases "destination_of str_of entry") auto
qed auto

lemma list_entries_length: "list_entries ms key = Inr xs \<Longrightarrow> length xs \<le> max_entries"
  by (auto simp: list_entries_def split: json.splits if_splits)

lemma list_entries_iterated: "list_entries ms key = Inr xs \<Longrightarrow> iterated (jget_or ms key (JArr [])) = Inr xs"
  by (auto simp: list_entries_def iterated_def jget_def jget_or_def split: json.splits if_splits option.splits)

lemma block_members: "block ms key = Inr b \<Longrightarrow> members_of (jget ms key) = b"
  by (auto simp: block_def split: json.splits)

lemma listed_names_agree:
  assumes "listed_names ms key = Inr ns"
  shows "seeded_names str_of ms key = Inr ns \<and> clean_names ns = ns \<and> length ns \<le> max_entries"
proof -
  from assms obtain xs where l: "list_entries ms key = Inr xs" by (cases "list_entries ms key") (auto simp: listed_names_def)
  with assms obtain vs where v: "json_strings xs = Some vs" "ns = clean_names vs" by (auto simp: listed_names_def split: option.splits)
  note x = json_strings_map [OF v(1)]
  have "length ns \<le> max_entries" using clean_names_length [of vs] list_entries_length [OF l] v(2) x by simp
  then show ?thesis using list_entries_iterated [OF l] v(2) x by (simp add: seeded_names_def clean_names_idem del: map_map)
qed

lemma normalize_rules_json:
  assumes "length (nd_destinations d) \<le> max_entries"
    "\<forall>(slug, text) \<in> set (nd_destinations d). is_destination slug \<and> text \<noteq> [] \<and> py_upper (py_strip text) = text"
    "\<forall>ns \<in> {nd_branch_names d, nd_collection_names d, nd_branch_patterns d, nd_collection_patterns d}. clean_names ns = ns \<and> length ns \<le> max_entries"
  shows "normalize_document (rules_json d) = Inr d"
proof -
  have strip: "py_strip l \<noteq> []" if "(slug, l) \<in> set (nd_destinations d)" for slug l
    using assms(2) that by (fastforce simp: py_upper_def)
  have ds: "map_result clean_destination (List.map (\<lambda>(slug, text). JObj [(''slug'', JStr slug), (''contains'', JStr text)]) (nd_destinations d))
      = Inr (List.map id (nd_destinations d))"
    by (rule map_result_map) (use assms(2) strip in auto)
  have names: "rule_names [(a, x), (b, y), (''branch_services_names'', JArr (List.map JStr (nd_branch_names d))),
      (''collection_services_names'', JArr (List.map JStr (nd_collection_names d))),
      (''branch_services_da_patterns'', JArr (List.map JStr (nd_branch_patterns d))),
      (''collection_services_da_patterns'', JArr (List.map JStr (nd_collection_patterns d)))] key = Inr ns"
    if "a = ''schema_version''" "b = ''destinations''" "(key, ns) \<in> {(''branch_services_names'', nd_branch_names d), (''collection_services_names'', nd_collection_names d),
      (''branch_services_da_patterns'', nd_branch_patterns d), (''collection_services_da_patterns'', nd_collection_patterns d)}" for a b x y key ns
    using that assms(3) by (auto simp: rule_names_def jget_or_def)
  show ?thesis
    using assms(1) by (simp add: rules_json_def jget_def jget_or_def ds names)
qed

lemma built_rules:
  assumes "build_classification_rules str_of settings = Inr d"
  obtains transit internal entries where "block settings ''transit'' = Inr transit" "block settings ''internal_routing'' = Inr internal"
    "list_entries transit ''destinations'' = Inr entries" "destinations_of str_of entries = Inr (nd_destinations d)"
    "listed_names internal ''branch_services_names'' = Inr (nd_branch_names d)"
    "listed_names internal ''collection_services_names'' = Inr (nd_collection_names d)"
    "listed_names internal ''branch_services_da_patterns'' = Inr (nd_branch_patterns d)"
    "listed_names internal ''collection_services_da_patterns'' = Inr (nd_collection_patterns d)"
proof -
  from assms obtain transit internal entries where b: "block settings ''transit'' = Inr transit" "block settings ''internal_routing'' = Inr internal"
    "list_entries transit ''destinations'' = Inr entries"
    by (auto simp: build_classification_rules_def)
  with assms that show thesis by (auto simp: build_classification_rules_def)
qed

lemma built_rules_accepted:
  assumes "build_classification_rules str_of settings = Inr d"
  shows "normalize_document (rules_json d) = Inr d"
proof -
  from built_rules [OF assms] obtain transit internal entries where e: "list_entries transit ''destinations'' = Inr entries"
    "destinations_of str_of entries = Inr (nd_destinations d)"
    and names: "listed_names internal ''branch_services_names'' = Inr (nd_branch_names d)"
      "listed_names internal ''collection_services_names'' = Inr (nd_collection_names d)"
      "listed_names internal ''branch_services_da_patterns'' = Inr (nd_branch_patterns d)"
      "listed_names internal ''collection_services_da_patterns'' = Inr (nd_collection_patterns d)" by metis
  show ?thesis
    by (rule normalize_rules_json) (use destinations_agree [OF e(2)] list_entries_length [OF e(1)] names [THEN listed_names_agree] in auto)
qed

text \<open>C28. What the server hands a collector is what the collector would have made itself: for every settings document the server
  accepts, its classification rules are exactly the collector's own seeding of those settings normalized by the collector, and
  the collector's validator accepts them unchanged.\<close>

theorem server_rules_match_collector:
  assumes "build_classification_rules str_of settings = Inr d"
  shows "normalize_document (rules_json d) = Inr d
    \<and> (\<exists>seeded. seed_from_settings str_of (JObj settings) = Inr seeded \<and> normalize_document seeded = Inr d)"
proof -
  from built_rules [OF assms] obtain transit internal entries where b: "block settings ''transit'' = Inr transit"
    "block settings ''internal_routing'' = Inr internal" "list_entries transit ''destinations'' = Inr entries"
    and ds: "destinations_of str_of entries = Inr (nd_destinations d)"
    and names: "listed_names internal ''branch_services_names'' = Inr (nd_branch_names d)"
      "listed_names internal ''collection_services_names'' = Inr (nd_collection_names d)"
      "listed_names internal ''branch_services_da_patterns'' = Inr (nd_branch_patterns d)"
      "listed_names internal ''collection_services_da_patterns'' = Inr (nd_collection_patterns d)" by metis
  have "seed_from_settings str_of (JObj settings) = Inr (rules_json d)"
    using names [THEN listed_names_agree, of str_of] destinations_agree [OF ds] list_entries_iterated [OF b(3)]
      block_members [OF b(1)] block_members [OF b(2)]
    by (cases d) (simp add: seed_from_settings_def Let_def)
  with built_rules_accepted [OF assms] show ?thesis by blast
qed

definition sample_settings :: "(string \<times> json) list" where
  "sample_settings = [(''transit'', JObj [(''destinations'', JArr [JObj [(''label'', JStr ''West Annex'')], JObj [(''label'', JStr ''Closed''), (''enabled'', JBool False)]])]),
     (''internal_routing'', JObj [(''branch_services_names'', JArr [JStr '' programs '', JStr ''Programs''])])]"

lemma sample_settings_built:
  "build_classification_rules (\<lambda>_. []) sample_settings = Inr \<lparr>nd_destinations = [(''west_annex'', ''WEST ANNEX'')],
     nd_branch_names = [''PROGRAMS''], nd_collection_names = [], nd_branch_patterns = [], nd_collection_patterns = []\<rparr>"
  by code_simp

theorem server_rules_match_collector_witness:
  "\<exists>seeded. seed_from_settings (\<lambda>_. []) (JObj sample_settings) = Inr seeded
     \<and> normalize_document seeded = Inr \<lparr>nd_destinations = [(''west_annex'', ''WEST ANNEX'')],
         nd_branch_names = [''PROGRAMS''], nd_collection_names = [], nd_branch_patterns = [], nd_collection_patterns = []\<rparr>"
  using server_rules_match_collector [OF sample_settings_built] by blast

end
