(* ===== verification/Enrollment.thy ===== *)
theory Enrollment
  imports ServerTables SettingsRules
begin

text \<open>
  One-time collector enrollment, src/src/services/collector_enrollment_service.py, and its endpoint in
  src/main.py. An operation runs in a
  transaction: a raise is the left side of a sum and leaves the tables as they were. Random codes, tokens,
  key ids and row ids are arguments, as are the clock of the process (\<open>now\<close>), the one of the database
  (\<open>stamp\<close>), the known time zones and Python's text of a value. Row locks are not modelled: one
  transaction runs at a time.
\<close>

section \<open>Codes\<close>

definition code_prefix :: string where
  "code_prefix = ''SV''"

definition code_alphabet :: string where
  "code_alphabet = ''ABCDEFGHJKMNPQRSTUVWXYZ23456789''"

definition format_enrollment_code :: "string \<Rightarrow> string" where
  "format_enrollment_code characters =
     join_with ''-'' (code_prefix # List.map (\<lambda>i. take 4 (drop (4 * i) characters)) [0..<4])"

definition is_separator :: "char \<Rightarrow> bool" where
  "is_separator c \<longleftrightarrow> is_space c \<or> c = CHR ''-'' \<or> c = CHR ''_''"

definition normalize_enrollment_code :: "string \<Rightarrow> string option" where
  "normalize_enrollment_code value =
     (if length value > 64 then None
      else let compact = py_upper (filter (\<lambda>c. \<not> is_separator c) value);
               compact = (if prefix code_prefix compact \<and> length compact = length code_prefix + 16
                          then drop (length code_prefix) compact else compact)
           in if length compact \<noteq> 16 \<or> list_ex (\<lambda>c. c \<notin> set code_alphabet) compact then None
              else Some (format_enrollment_code compact))"

definition hash_enrollment_code :: "string \<Rightarrow> string" where
  "hash_enrollment_code plain = token_hash plain"

definition is_control :: "char \<Rightarrow> bool" where
  "is_control c \<longleftrightarrow> char_code c < 32 \<or> char_code c = 127"

definition clean_metadata :: "string option \<Rightarrow> nat \<Rightarrow> string option" where
  "clean_metadata value max_length =
     (case value of None \<Rightarrow> None
      | Some v \<Rightarrow> (let cleaned = py_strip (take max_length (py_strip (filter (\<lambda>c. \<not> is_control c) v)))
                  in if cleaned = [] then None else Some cleaned))"

section \<open>The scope of an installation\<close>

datatype enroll_error = EnrollmentError string | EnrollmentRefused string string | StoreValueError string

record scope =
  sc_installation_id :: int
  sc_installation_name :: string
  sc_organization_id :: int
  sc_branch_id :: int
  sc_customer_id :: int
  sc_operational_branch_id :: int
  sc_required_contract :: int

definition supported_contracts :: "int list" where
  "supported_contracts = [1, 2]"

definition mapped_organizations :: "db \<Rightarrow> int \<Rightarrow> nat" where
  "mapped_organizations db customer = length (filter (\<lambda>g. og_operational_customer_id g = Some customer) (db_organizations db))"

definition check_scope :: "server \<Rightarrow> installation \<Rightarrow> organization \<Rightarrow> branch option \<Rightarrow> string + scope" where
  "check_scope sr x g found =
     (if in_status x \<notin> set installation_heartbeat_statuses then Inl (''installation_status_'' @ in_status x)
      else if og_status g \<notin> set allowed_organization_statuses then Inl (''organization_status_'' @ og_status g)
      else case found of
        None \<Rightarrow> Inl ''branch_missing''
      | Some b \<Rightarrow>
          if br_organization_id b \<noteq> in_organization_id x then Inl ''branch_belongs_to_another_organization''
          else if br_status b \<noteq> allowed_branch_status then Inl (''branch_status_'' @ br_status b)
          else (case (og_operational_customer_id g, br_operational_branch_id b) of
              (None, _) \<Rightarrow> Inl ''organization_not_operationally_mapped''
            | (Some _, None) \<Rightarrow> Inl ''branch_not_operationally_mapped''
            | (Some customer, Some branch) \<Rightarrow>
                if branch \<noteq> br_id b then Inl ''branch_operational_mapping_inconsistent''
                else if customer \<notin> set (sr_customers sr) then Inl ''operational_customer_missing''
                else if mapped_organizations (sr_db sr) customer \<noteq> 1 then Inl ''operational_customer_ambiguous''
                else Inr \<lparr>sc_installation_id = in_id x, sc_installation_name = in_name x, sc_organization_id = in_organization_id x,
                       sc_branch_id = in_branch_id x, sc_customer_id = customer, sc_operational_branch_id = branch,
                       sc_required_contract = in_required_contract x\<rparr>))"

definition resolve_installation_scope :: "server \<Rightarrow> int \<Rightarrow> int option \<Rightarrow> string + scope" where
  "resolve_installation_scope sr i expected_organization =
     (case installation_row (sr_db sr) i of None \<Rightarrow> Inl ''installation_not_found''
      | Some x \<Rightarrow>
          (case organization_row (sr_db sr) (in_organization_id x) of None \<Rightarrow> Inl ''installation_not_found''
           | Some g \<Rightarrow>
               if expected_organization \<noteq> None \<and> expected_organization \<noteq> Some (in_organization_id x)
               then Inl ''installation_organization_mismatch''
               else check_scope sr x g (branch_row (sr_db sr) (in_branch_id x))))"

section \<open>Issuing a code\<close>

definition unused :: "enrollment_code \<Rightarrow> bool" where
  "unused c \<longleftrightarrow> ec_used_at c = None \<and> ec_revoked_at c = None"

definition revoke_unused :: "instant \<Rightarrow> int \<Rightarrow> enrollment_code list \<Rightarrow> nat \<times> enrollment_code list" where
  "revoke_unused stamp i = update_where (\<lambda>c. ec_installation_id c = i \<and> unused c) (\<lambda>c. c\<lparr>ec_revoked_at := Some stamp\<rparr>)"

text \<open>\<open>characters\<close> are the sixteen drawn from the alphabet; the code returned is the only copy of it.\<close>

definition create_enrollment_code ::
    "instant \<Rightarrow> instant \<Rightarrow> int \<Rightarrow> string \<Rightarrow> int \<Rightarrow> server \<Rightarrow> int \<Rightarrow> int option \<Rightarrow> enroll_error + (string \<times> nat) \<times> server" where
  "create_enrollment_code now stamp ttl characters new_id sr i expected_organization =
     bind_result (lift_error EnrollmentError (resolve_installation_scope sr i expected_organization)) (\<lambda>scope.
       if sc_required_contract scope \<notin> set supported_contracts then Inl (EnrollmentError ''installation_contract_unsupported'')
       else let (revoked, codes) = revoke_unused stamp (sc_installation_id scope) (sr_codes sr);
                raw = format_enrollment_code characters in
         Inr ((raw, revoked), sr\<lparr>sr_codes := codes @ [\<lparr>ec_id = new_id, ec_installation_id = sc_installation_id scope,
            ec_code_hash = hash_enrollment_code raw, ec_expires_at = now + ttl, ec_used_at = None, ec_revoked_at = None,
            ec_required_contract = sc_required_contract scope\<rparr>]\<rparr>))"

section \<open>What a Contract v2 enrollment needs\<close>

record enroll_env =
  ee_zone_known :: "string \<Rightarrow> bool"
  ee_iso_aware :: "string \<Rightarrow> bool"
  ee_str_of :: "json \<Rightarrow> string"
  ee_repr :: "string \<Rightarrow> string"

record v2_site =
  vs_timezone :: string
  vs_cutover_at :: pydatetime
  vs_rules :: norm_document

definition not_ready :: "string \<Rightarrow> enroll_error" where
  "not_ready reason = EnrollmentRefused ''enrollment_not_ready'' reason"

definition stored_settings :: "(int \<times> json option) list \<Rightarrow> int \<Rightarrow> enroll_error + (string \<times> json) list" where
  "stored_settings table i = lift_error (\<lambda>_. not_ready ''settings_unreadable'') (settings_document (map_of table i))"

definition prepare_v2_enrollment :: "enroll_env \<Rightarrow> server \<Rightarrow> scope \<Rightarrow> enroll_error + v2_site" where
  "prepare_v2_enrollment env sr scope =
     (let db = sr_db sr;
          status = (case installation_row db (sc_installation_id scope) of None \<Rightarrow> ''None'' | Some x \<Rightarrow> in_status x) in
      if status \<notin> set installation_heartbeat_statuses then Inl (EnrollmentError (''installation_status_'' @ status))
      else case organization_row db (sc_organization_id scope) of
        None \<Rightarrow> Inl (not_ready ''organization_missing'')
      | Some g \<Rightarrow>
          bind_result (stored_settings (sr_organization_settings sr) (sc_organization_id scope)) (\<lambda>os.
          bind_result (stored_settings (sr_branch_settings sr) (sc_branch_id scope)) (\<lambda>bs.
          bind_result (lift_error not_ready (collector_timezone (ee_zone_known env) os)) (\<lambda>timezone.
          bind_result (lift_error not_ready (require_rules_reviewed (ee_iso_aware env) os)) (\<lambda>_.
          bind_result (lift_error not_ready (build_classification_rules (ee_str_of env) (merge_members os bs))) (\<lambda>rules.
            case og_created_at g of
              Some (Aware t z) \<Rightarrow>
                if has_active_ingest_key db (sc_customer_id scope) (sc_operational_branch_id scope)
                then Inl (not_ready ''active_ingest_key_exists'')
                else if has_any_v2_cutover db (sc_customer_id scope) (sc_operational_branch_id scope)
                then Inl (not_ready ''cutover_exists'')
                else Inr \<lparr>vs_timezone = timezone, vs_cutover_at = Aware t z, vs_rules = rules\<rparr>
            | _ \<Rightarrow> Inl (not_ready ''organization_created_at_unusable'')))))))"

definition require_permitted_contract :: "int \<Rightarrow> int option \<Rightarrow> enroll_error + int" where
  "require_permitted_contract required requested =
     (let asked = (case requested of None \<Rightarrow> 1 | Some n \<Rightarrow> n) in
      if asked \<notin> set supported_contracts then Inl (EnrollmentRefused ''unsupported_contract_version'' ''requested_contract_unsupported'')
      else if required \<notin> set supported_contracts
      then Inl (EnrollmentRefused ''collector_upgrade_required'' ''code_requires_unsupported_contract'')
      else if required = 2 \<and> asked \<noteq> 2 then Inl (EnrollmentRefused ''collector_upgrade_required'' ''code_requires_contract_2'')
      else if required = 1 \<and> asked \<noteq> 1 then Inl (EnrollmentRefused ''contract_not_permitted'' ''code_permits_contract_1_only'')
      else Inr required)"

section \<open>Redeeming a code\<close>

record enroll_draws =
  ed_token :: string
  ed_token_id :: int
  ed_key_id :: string

record enrolled =
  en_customer_id :: int
  en_branch_id :: int
  en_installation_id :: int
  en_agent_token :: string
  en_v2 :: "(string \<times> string \<times> norm_document) option" \<comment> \<open>key id, time zone and rules of a Contract v2 enrollment\<close>

definition token_description :: "enroll_env \<Rightarrow> scope \<Rightarrow> string option \<Rightarrow> string option \<Rightarrow> string" where
  "token_description env scope hostname version =
     filter (\<lambda>c. \<not> is_control c) (join_with '' | '' ([''Collector enrollment'',
       ''installation '' @ show_nat (nat (sc_installation_id scope)) @ '' ('' @ ee_repr env (take 80 (sc_installation_name scope)) @ '')'']
       @ (case hostname of None \<Rightarrow> [] | Some h \<Rightarrow> [''host '' @ h])
       @ (case version of None \<Rightarrow> [] | Some v \<Rightarrow> [''collector '' @ v])))"

definition bound_token :: "enroll_draws \<Rightarrow> scope \<Rightarrow> string \<Rightarrow> agent_token" where
  "bound_token draws scope description =
     \<lparr>at_id = ed_token_id draws, at_token_hash = token_hash (ed_token draws), at_customer_id = sc_customer_id scope,
      at_branch_id = sc_operational_branch_id scope, at_is_active = True, at_installation_id = Some (sc_installation_id scope),
      at_last_used_at = None, at_description = description\<rparr>"

definition claim_code :: "instant \<Rightarrow> instant \<Rightarrow> int \<Rightarrow> enrollment_code list \<Rightarrow> nat \<times> enrollment_code list" where
  "claim_code now stamp i =
     update_where (\<lambda>c. ec_id c = i \<and> unused c \<and> ec_expires_at c > now) (\<lambda>c. c\<lparr>ec_used_at := Some stamp\<rparr>)"

text \<open>The code presented: known, unused, unrevoked and unexpired.\<close>

definition presented_code :: "instant \<Rightarrow> server \<Rightarrow> string \<Rightarrow> enroll_error + enrollment_code" where
  "presented_code now sr raw =
     (case normalize_enrollment_code raw of None \<Rightarrow> Inl (EnrollmentError ''malformed_code'')
      | Some plain \<Rightarrow>
          (case find (\<lambda>c. ec_code_hash c = hash_enrollment_code plain) (sr_codes sr) of
             None \<Rightarrow> Inl (EnrollmentError ''unknown_code'')
           | Some c \<Rightarrow>
               if ec_used_at c \<noteq> None then Inl (EnrollmentError ''already_used'')
               else if ec_revoked_at c \<noteq> None then Inl (EnrollmentError ''revoked'')
               else if ec_expires_at c \<le> now then Inl (EnrollmentError ''expired'')
               else Inr c))"

text \<open>The branch's key, owned by the installation, and its cutover.\<close>

definition v2_identity :: "instant \<Rightarrow> string \<Rightarrow> int \<Rightarrow> scope \<Rightarrow> v2_site \<Rightarrow> db \<Rightarrow> enroll_error + db" where
  "v2_identity stamp key_id code_id scope site db =
     bind_result (lift_error StoreValueError (issue_ingest_key key_id db (sc_customer_id scope) (sc_operational_branch_id scope)
         (Some (sc_installation_id scope)))) (\<lambda>(_, db).
     lift_error StoreValueError (record_initial_v2_cutover stamp db (sc_customer_id scope) (sc_operational_branch_id scope)
         (vs_cutover_at site) (Some enrollment_cutover_set_by) (Some (''initial v2 cutover | enrollment_code_id='' @ show_nat (nat code_id)
           @ '' installation_id='' @ show_nat (nat (sc_installation_id scope))))))"

definition redeem_enrollment_code ::
    "enroll_env \<Rightarrow> instant \<Rightarrow> instant \<Rightarrow> enroll_draws \<Rightarrow> string option \<Rightarrow> string option \<Rightarrow> server \<Rightarrow> string \<Rightarrow> int option
     \<Rightarrow> enroll_error + enrolled \<times> server" where
  "redeem_enrollment_code env now stamp draws hostname version sr raw requested =
     bind_result (presented_code now sr raw) (\<lambda>code.
     bind_result (lift_error EnrollmentError (resolve_installation_scope sr (ec_installation_id code) None)) (\<lambda>scope.
     bind_result (require_permitted_contract (ec_required_contract code) requested) (\<lambda>contract.
     bind_result (if contract = 2 then bind_result (prepare_v2_enrollment env sr scope) (\<lambda>site. Inr (Some site)) else Inr None) (\<lambda>site.
       let (claimed, codes) = claim_code now stamp (ec_id code) (sr_codes sr) in
       if claimed \<noteq> 1 then Inl (EnrollmentError ''lost_redemption_race'')
       else let token = bound_token draws scope (token_description env scope (clean_metadata hostname 128) (clean_metadata version 64));
                db = (sr_db sr)\<lparr>db_tokens := db_tokens (sr_db sr) @ [token]\<rparr>;
                result = \<lparr>en_customer_id = sc_customer_id scope, en_branch_id = sc_operational_branch_id scope,
                  en_installation_id = sc_installation_id scope, en_agent_token = ed_token draws, en_v2 = None\<rparr> in
         (case site of
            None \<Rightarrow> Inr (result, sr\<lparr>sr_db := db, sr_codes := codes\<rparr>)
          | Some s \<Rightarrow> bind_result (v2_identity stamp (ed_key_id draws) (ec_id code) scope s db) (\<lambda>db.
              Inr (result\<lparr>en_v2 := Some (ed_key_id draws, vs_timezone s, vs_rules s)\<rparr>, sr\<lparr>sr_db := db, sr_codes := codes\<rparr>)))))))"

section \<open>The endpoint (src/main.py)\<close>

datatype enroll_reply = Enrolled enrolled | Refused409 string | Rejected400 | Failed500

definition collector_enroll ::
    "enroll_env \<Rightarrow> instant \<Rightarrow> instant \<Rightarrow> enroll_draws \<Rightarrow> string option \<Rightarrow> string option \<Rightarrow> server \<Rightarrow> string \<Rightarrow> int option
     \<Rightarrow> enroll_reply \<times> server" where
  "collector_enroll env now stamp draws hostname version sr raw requested =
     (case redeem_enrollment_code env now stamp draws hostname version sr raw requested of
        Inr (result, sr') \<Rightarrow> (Enrolled result, sr')
      | Inl (EnrollmentRefused code _) \<Rightarrow> (Refused409 code, sr)
      | Inl (EnrollmentError _) \<Rightarrow> (Rejected400, sr)
      | Inl (StoreValueError _) \<Rightarrow> (Failed500, sr))"

section \<open>Recovery\<close>

definition revoke_installation_tokens :: "int \<Rightarrow> agent_token list \<Rightarrow> nat \<times> agent_token list" where
  "revoke_installation_tokens i =
     update_where (\<lambda>t. at_installation_id t = Some i \<and> at_is_active t) (\<lambda>t. t\<lparr>at_is_active := False\<rparr>)"

definition issue_recovery_token :: "enroll_env \<Rightarrow> enroll_draws \<Rightarrow> server \<Rightarrow> int \<Rightarrow> int \<Rightarrow> enroll_error + (string \<times> nat) \<times> server" where
  "issue_recovery_token env draws sr i expected_organization =
     (let (revoked, tokens) = revoke_installation_tokens i (db_tokens (sr_db sr));
          db = (sr_db sr)\<lparr>db_tokens := tokens\<rparr> in
      bind_result (lift_error EnrollmentError (resolve_installation_scope (sr\<lparr>sr_db := db\<rparr>) i (Some expected_organization))) (\<lambda>scope.
        if sc_required_contract scope \<noteq> 2 then Inl (EnrollmentError ''installation_contract_not_2'')
        else if active_ingest_key_owners db (sc_customer_id scope) (sc_operational_branch_id scope) \<noteq> [Some (sc_installation_id scope)]
        then Inl (EnrollmentError ''installation_does_not_own_the_only_active_key'')
        else let description = filter (\<lambda>c. \<not> is_control c) (''Collector recovery | installation ''
               @ show_nat (nat (sc_installation_id scope)) @ '' ('' @ ee_repr env (take 80 (sc_installation_name scope)) @ '')'')
             in Inr ((ed_token draws, revoked), sr\<lparr>sr_db := db\<lparr>db_tokens := tokens @ [bound_token draws scope description]\<rparr>\<rparr>)))"

section \<open>Codes: lemmas\<close>

lemma code_alphabet_char: "c \<in> set code_alphabet \<Longrightarrow> \<not> is_separator c \<and> upper_char c = c"
  by (auto simp: code_alphabet_def is_separator_def is_space_def char_code_def upper_char_def)

lemma four_groups:
  assumes "length cs = 16"
  shows "format_enrollment_code cs = ''SV-'' @ take 4 cs @ ''-'' @ take 4 (drop 4 cs) @ ''-'' @ take 4 (drop 8 cs) @ ''-'' @ take 4 (drop 12 cs)"
    "take 4 cs @ take 4 (drop 4 cs) @ take 4 (drop 8 cs) @ take 4 (drop 12 cs) = cs"
proof -
  have u: "[0..<4] = [0, 1, 2, 3 :: nat]" by (simp add: upt_conv_Cons)
  show "format_enrollment_code cs = ''SV-'' @ take 4 cs @ ''-'' @ take 4 (drop 4 cs) @ ''-'' @ take 4 (drop 8 cs) @ ''-'' @ take 4 (drop 12 cs)"
    by (simp add: format_enrollment_code_def u code_prefix_def)
  have "take 4 cs @ take 4 (drop 4 cs) @ take 4 (drop 8 cs) @ drop 12 cs = cs"
    using append_take_drop_id [of 4 cs] append_take_drop_id [of 4 "drop 4 cs"] append_take_drop_id [of 4 "drop 8 cs"]
    by (simp only: drop_drop) simp
  moreover have "take 4 (drop 12 cs) = drop 12 cs" using assms by simp
  ultimately show "take 4 cs @ take 4 (drop 4 cs) @ take 4 (drop 8 cs) @ take 4 (drop 12 cs) = cs" by simp
qed

definition compact_of :: "string \<Rightarrow> string" where
  "compact_of value = py_upper (filter (\<lambda>c. \<not> is_separator c) value)"

lemma compact_of_append [simp]: "compact_of (a @ b) = compact_of a @ compact_of b"
  by (simp add: compact_of_def py_upper_def)

lemma compact_of_alphabet: "set cs \<subseteq> set code_alphabet \<Longrightarrow> compact_of cs = cs"
  by (induction cs) (auto simp: compact_of_def py_upper_def dest: code_alphabet_char)

lemma compact_of_format:
  assumes "set cs \<subseteq> set code_alphabet" "length cs = 16"
  shows "compact_of (format_enrollment_code cs) = ''SV'' @ cs"
proof -
  have sub: "compact_of (take 4 (drop k cs)) = take 4 (drop k cs)" for k
    by (rule compact_of_alphabet) (meson assms(1) order_trans set_drop_subset set_take_subset)
  have "compact_of (''SV-'' :: string) = ''SV''" "compact_of ''-'' = []" by code_simp+
  with sub [of 0] sub [of 4] sub [of 8] sub [of 12] show ?thesis
    unfolding four_groups(1) [OF assms(2)] compact_of_append by (simp add: four_groups(2) [OF assms(2)])
qed

lemma normalize_code_Some: "normalize_enrollment_code v = Some plain \<longleftrightarrow> (\<exists>cs. length v \<le> 64 \<and> compact_of v \<in> {cs, ''SV'' @ cs}
    \<and> length cs = 16 \<and> set cs \<subseteq> set code_alphabet \<and> plain = format_enrollment_code cs)"
proof -
  define c where "c = (if prefix code_prefix (compact_of v) \<and> length (compact_of v) = length code_prefix + 16
    then drop (length code_prefix) (compact_of v) else compact_of v)"
  have n: "normalize_enrollment_code v = (if length v > 64 then None
      else if length c \<noteq> 16 \<or> \<not> set c \<subseteq> set code_alphabet then None else Some (format_enrollment_code c))"
    unfolding normalize_enrollment_code_def c_def compact_of_def Let_def by (auto simp: list_ex_iff)
  have c: "length c = 16 \<Longrightarrow> compact_of v \<in> {c, ''SV'' @ c}"
    by (auto simp: c_def code_prefix_def prefix_def split: if_splits)
  have u: "c = cs" if "compact_of v \<in> {cs, ''SV'' @ cs}" "length cs = 16" for cs
    using that by (auto simp: c_def code_prefix_def)
  show ?thesis unfolding n using c u by (auto split: if_splits)
qed

text \<open>C0. A typed code is the code that was handed out: formatting and normalizing are inverse on the codes the generator can draw,
  whatever the case, the spaces, dashes and underscores and with or without the \<open>SV\<close> prefix; normalization accepts nothing else, and
  two different codes never share a form.\<close>

theorem enrollment_code_roundtrip:
  assumes "length cs = 16" "set cs \<subseteq> set code_alphabet"
  shows "normalize_enrollment_code (format_enrollment_code cs) = Some (format_enrollment_code cs)
    \<and> (length v \<le> 64 \<longrightarrow> py_upper (filter (\<lambda>c. \<not> is_separator c) v) \<in> {cs, code_prefix @ cs}
         \<longrightarrow> normalize_enrollment_code v = Some (format_enrollment_code cs))
    \<and> (normalize_enrollment_code v = Some (format_enrollment_code cs)
         \<longrightarrow> py_upper (filter (\<lambda>c. \<not> is_separator c) v) \<in> {cs, code_prefix @ cs})
    \<and> (length ds = 16 \<longrightarrow> set ds \<subseteq> set code_alphabet \<longrightarrow> format_enrollment_code cs = format_enrollment_code ds \<longrightarrow> cs = ds)"
proof -
  have len: "length (format_enrollment_code cs) \<le> 64" using assms by (simp add: four_groups(1))
  have inj: "a = b" if "length a = 16" "set a \<subseteq> set code_alphabet" "length b = 16" "set b \<subseteq> set code_alphabet"
      "format_enrollment_code a = format_enrollment_code b" for a b
  proof -
    have "''SV'' @ a = ''SV'' @ b" unfolding compact_of_format [OF that(2,1), symmetric] compact_of_format [OF that(4,3), symmetric] that(5) ..
    then show ?thesis by simp
  qed
  have "normalize_enrollment_code (format_enrollment_code cs) = Some (format_enrollment_code cs)"
    unfolding normalize_code_Some using assms len compact_of_format [OF assms(2,1)] by auto
  moreover have "py_upper (filter (\<lambda>c. \<not> is_separator c) v) \<in> {cs, code_prefix @ cs}"
    if "normalize_enrollment_code v = Some (format_enrollment_code cs)"
  proof -
    from that obtain d where d: "compact_of v \<in> {d, ''SV'' @ d}" "length d = 16" "set d \<subseteq> set code_alphabet"
      "format_enrollment_code cs = format_enrollment_code d" unfolding normalize_code_Some by blast
    then have "cs = d" by (rule_tac inj) (use assms in auto)
    with d(1) show ?thesis by (simp add: compact_of_def code_prefix_def)
  qed
  moreover have "normalize_enrollment_code v = Some (format_enrollment_code cs)"
    if "length v \<le> 64" "py_upper (filter (\<lambda>c. \<not> is_separator c) v) \<in> {cs, code_prefix @ cs}"
    unfolding normalize_code_Some using that assms by (auto simp: compact_of_def code_prefix_def)
  ultimately show ?thesis using inj [OF assms(1,2)] by blast
qed

theorem enrollment_code_roundtrip_witness:
  "normalize_enrollment_code ''sv abcd_efgh-jkmn pqrs'' = Some ''SV-ABCD-EFGH-JKMN-PQRS''"
proof -
  have f: "format_enrollment_code ''ABCDEFGHJKMNPQRS'' = ''SV-ABCD-EFGH-JKMN-PQRS''" by code_simp
  have "py_upper (filter (\<lambda>c. \<not> is_separator c) ''sv abcd_efgh-jkmn pqrs'') \<in> {''ABCDEFGHJKMNPQRS'', code_prefix @ ''ABCDEFGHJKMNPQRS''}"
    by code_simp
  moreover have "set ''ABCDEFGHJKMNPQRS'' \<subseteq> set code_alphabet" by code_simp
  ultimately show ?thesis
    using enrollment_code_roundtrip [of "''ABCDEFGHJKMNPQRS''" "''sv abcd_efgh-jkmn pqrs''"] f by simp
qed

end
