(* ===== verification/EnrollmentEffects.thy ===== *)
theory EnrollmentEffects
  imports Enrollment
begin

text \<open>
  What an enrollment does to the server. The lemmas take a redemption apart into the code presented, the
  scope of its installation, the contract and the rows it writes; the properties say that a token handed out
  works for exactly its installation's tenant, and that nothing but the enrollment's own rows changes.
\<close>

section \<open>Scopes\<close>

definition usable_installation :: "server \<Rightarrow> installation \<Rightarrow> organization \<Rightarrow> branch \<Rightarrow> scope \<Rightarrow> bool" where
  "usable_installation sr x g b sc \<longleftrightarrow>
     organization_row (sr_db sr) (in_organization_id x) = Some g \<and> branch_row (sr_db sr) (in_branch_id x) = Some b
     \<and> in_status x \<in> set installation_heartbeat_statuses \<and> og_status g \<in> set allowed_organization_statuses
     \<and> br_organization_id b = in_organization_id x \<and> br_status b = allowed_branch_status
     \<and> og_operational_customer_id g = Some (sc_customer_id sc) \<and> br_operational_branch_id b = Some (br_id b)
     \<and> sc_customer_id sc \<in> set (sr_customers sr) \<and> mapped_organizations (sr_db sr) (sc_customer_id sc) = 1
     \<and> sc_installation_id sc = in_id x \<and> sc_installation_name sc = in_name x \<and> sc_organization_id sc = in_organization_id x
     \<and> sc_branch_id sc = in_branch_id x \<and> sc_operational_branch_id sc = br_id b \<and> sc_required_contract sc = in_required_contract x"

lemma check_scope_Inr:
  "check_scope sr x g found = Inr sc \<Longrightarrow> organization_row (sr_db sr) (in_organization_id x) = Some g
    \<Longrightarrow> branch_row (sr_db sr) (in_branch_id x) = found \<Longrightarrow> \<exists>b. found = Some b \<and> usable_installation sr x g b sc"
  by (auto simp: check_scope_def usable_installation_def split: if_splits option.splits)

lemma resolve_scope_Inr:
  assumes "resolve_installation_scope sr i expected = Inr sc"
  obtains x g b where "installation_row (sr_db sr) i = Some x" "usable_installation sr x g b sc"
    "expected = None \<or> expected = Some (in_organization_id x)"
proof -
  from assms obtain x g where x: "installation_row (sr_db sr) i = Some x" "organization_row (sr_db sr) (in_organization_id x) = Some g"
      "expected = None \<or> expected = Some (in_organization_id x)"
    and c: "check_scope sr x g (branch_row (sr_db sr) (in_branch_id x)) = Inr sc"
    by (auto simp: resolve_installation_scope_def split: option.splits if_splits)
  from check_scope_Inr [OF c x(2) refl] x that show thesis by blast
qed

lemma row_ids:
  "installation_row db i = Some x \<Longrightarrow> in_id x = i \<and> x \<in> set (db_installations db)"
  "organization_row db i = Some g \<Longrightarrow> og_id g = i \<and> g \<in> set (db_organizations db)"
  "branch_row db i = Some b \<Longrightarrow> br_id b = i \<and> b \<in> set (db_branches db)"
  by (auto simp: installation_row_def organization_row_def branch_row_def dest: find_SomeD)

section \<open>Redemption\<close>

definition used_at :: "instant \<Rightarrow> int \<Rightarrow> enrollment_code list \<Rightarrow> enrollment_code list" where
  "used_at stamp i codes = List.map (\<lambda>c. if ec_id c = i then c\<lparr>ec_used_at := Some stamp\<rparr> else c) codes"

lemma presented_code_Inr:
  assumes "presented_code now sr raw = Inr c"
  shows "\<exists>plain. normalize_enrollment_code raw = Some plain \<and> ec_code_hash c = hash_enrollment_code plain
    \<and> c \<in> set (sr_codes sr) \<and> unused c \<and> ec_expires_at c > now"
  using assms by (auto simp: presented_code_def unused_def split: option.splits if_splits dest!: find_SomeD)

definition codes_wf :: "enrollment_code list \<Rightarrow> bool" where
  "codes_wf codes \<longleftrightarrow> distinct (List.map ec_id codes) \<and> distinct (List.map ec_code_hash codes)"

lemma ids_eq: "distinct (List.map f xs) \<Longrightarrow> x \<in> set xs \<Longrightarrow> y \<in> set xs \<Longrightarrow> f x = f y \<Longrightarrow> x = y"
  by (auto simp: distinct_map dest: inj_onD)

lemma length_filter_one: "distinct xs \<Longrightarrow> x \<in> set xs \<Longrightarrow> length (filter (\<lambda>y. y = x) xs) = 1"
proof (induction xs)
  case (Cons a xs)
  then show ?case by (cases "a = x") (auto simp: filter_empty_conv)
qed simp

lemma claim_code_eq:
  assumes "codes_wf (sr_codes sr)" "presented_code now sr raw = Inr c"
  shows "claim_code now stamp (ec_id c) (sr_codes sr) = (1, used_at stamp (ec_id c) (sr_codes sr))"
proof -
  from presented_code_Inr [OF assms(2)] have c: "c \<in> set (sr_codes sr)" "unused c" "ec_expires_at c > now" by auto
  have d: "distinct (List.map ec_id (sr_codes sr))" using assms(1) by (simp add: codes_wf_def)
  have iff: "ec_id d = ec_id c \<and> unused d \<and> ec_expires_at d > now \<longleftrightarrow> d = c" if "d \<in> set (sr_codes sr)" for d
    using c ids_eq [OF d that c(1)] by auto
  have "filter (\<lambda>d. ec_id d = ec_id c \<and> unused d \<and> ec_expires_at d > now) (sr_codes sr) = filter (\<lambda>d. d = c) (sr_codes sr)"
    by (rule filter_cong) (use iff in auto)
  also have "length \<dots> = 1" using c(1) d by (simp add: distinct_map length_filter_one)
  finally have "length (filter (\<lambda>d. ec_id d = ec_id c \<and> unused d \<and> ec_expires_at d > now) (sr_codes sr)) = 1" .
  moreover have "List.map (\<lambda>r. if ec_id r = ec_id c \<and> unused r \<and> ec_expires_at r > now then r\<lparr>ec_used_at := Some stamp\<rparr> else r) (sr_codes sr)
      = used_at stamp (ec_id c) (sr_codes sr)"
    unfolding used_at_def by (rule map_cong) (use iff ids_eq [OF d _ c(1)] in auto)
  ultimately show ?thesis by (simp add: claim_code_def update_where_def)
qed

lemma v2_identity_Inr:
  assumes "v2_identity stamp key i scope site db = Inr db'"
  obtains t z why where "vs_cutover_at site = Aware t z"
    "db' = db\<lparr>db_keys := db_keys db @ [\<lparr>ik_key_id = key, ik_customer_id = sc_customer_id scope,
         ik_branch_id = sc_operational_branch_id scope, ik_algorithm = algorithm, ik_status = ''active'', ik_retired_at = None,
         ik_installation_id = Some (sc_installation_id scope), ik_heartbeat = None\<rparr>],
       db_cutovers := db_cutovers db @ [\<lparr>cv_customer_id = sc_customer_id scope, cv_branch_id = sc_operational_branch_id scope,
         cv_cutover_at = Some t, cv_set_by = enrollment_cutover_set_by, cv_note = why, cv_set_at = stamp\<rparr>]\<rparr>"
    "\<not> has_any_v2_cutover db (sc_customer_id scope) (sc_operational_branch_id scope)"
proof -
  have strip: "py_strip enrollment_cutover_set_by = enrollment_cutover_set_by" "enrollment_cutover_set_by \<noteq> []" by code_simp+
  from assms obtain db1 where i: "issue_ingest_key key db (sc_customer_id scope) (sc_operational_branch_id scope)
      (Some (sc_installation_id scope)) = Inr (key, db1)"
    and r: "record_initial_v2_cutover stamp db1 (sc_customer_id scope) (sc_operational_branch_id scope) (vs_cutover_at site)
      (Some enrollment_cutover_set_by) (Some (''initial v2 cutover | enrollment_code_id='' @ show_nat (nat i)
           @ '' installation_id='' @ show_nat (nat (sc_installation_id scope)))) = Inr db'"
    by (auto simp: v2_identity_def issue_ingest_key_def)
  from i have db1: "db1 = db\<lparr>db_keys := db_keys db @ [\<lparr>ik_key_id = key, ik_customer_id = sc_customer_id scope,
         ik_branch_id = sc_operational_branch_id scope, ik_algorithm = algorithm, ik_status = ''active'', ik_retired_at = None,
         ik_installation_id = Some (sc_installation_id scope), ik_heartbeat = None\<rparr>]\<rparr>"
    by (auto simp: issue_ingest_key_def)
  from r obtain t z where t: "vs_cutover_at site = Aware t z"
    "\<not> has_any_v2_cutover db1 (sc_customer_id scope) (sc_operational_branch_id scope)"
    by (auto simp: record_initial_v2_cutover_def split: pydatetime.splits if_splits)
  show thesis
    by (rule that [OF t(1)]) (use r t in \<open>auto simp: record_initial_v2_cutover_def record_v2_cutover_def strip db1 has_any_v2_cutover_def\<close>)
qed

lemma prepare_v2_Inr:
  assumes "prepare_v2_enrollment env sr sc = Inr site"
  shows "\<not> has_active_ingest_key (sr_db sr) (sc_customer_id sc) (sc_operational_branch_id sc)
    \<and> \<not> has_any_v2_cutover (sr_db sr) (sc_customer_id sc) (sc_operational_branch_id sc)
    \<and> normalize_document (rules_json (vs_rules site)) = Inr (vs_rules site)"
proof -
  let ?status = "case installation_row (sr_db sr) (sc_installation_id sc) of None \<Rightarrow> ''None'' | Some x \<Rightarrow> in_status x"
  have "?status \<in> set installation_heartbeat_statuses"
    using assms by (rule_tac ccontr) (simp add: prepare_v2_enrollment_def Let_def)
  moreover obtain g where "organization_row (sr_db sr) (sc_organization_id sc) = Some g"
    using assms calculation by (cases "organization_row (sr_db sr) (sc_organization_id sc)") (simp_all add: prepare_v2_enrollment_def Let_def)
  ultimately obtain os bs zone u rules where b0: "build_classification_rules (ee_str_of env) (merge_members os bs) = Inr rules"
    and c: "(case og_created_at g of
              Some (Aware t z) \<Rightarrow>
                if has_active_ingest_key (sr_db sr) (sc_customer_id sc) (sc_operational_branch_id sc)
                then Inl (not_ready ''active_ingest_key_exists'')
                else if has_any_v2_cutover (sr_db sr) (sc_customer_id sc) (sc_operational_branch_id sc)
                then Inl (not_ready ''cutover_exists'')
                else Inr \<lparr>vs_timezone = zone, vs_cutover_at = Aware t z, vs_rules = rules\<rparr>
            | _ \<Rightarrow> Inl (not_ready ''organization_created_at_unusable'')) = Inr site"
    using assms unfolding prepare_v2_enrollment_def Let_def by (simp only: option.case if_not_P bind_result_Inr lift_error_Inr not_not) blast
  from c have d: "vs_rules site = rules" "\<not> has_active_ingest_key (sr_db sr) (sc_customer_id sc) (sc_operational_branch_id sc)"
      "\<not> has_any_v2_cutover (sr_db sr) (sc_customer_id sc) (sc_operational_branch_id sc)"
    by (auto split: option.splits pydatetime.splits if_splits)
  from b0 have b: "build_classification_rules (ee_str_of env) (merge_members os bs) = Inr (vs_rules site)" by (simp only: d(1))
  with d show ?thesis using built_rules_accepted [OF b] by blast
qed

definition owned_key :: "string \<Rightarrow> scope \<Rightarrow> ingest_key" where
  "owned_key key sc = \<lparr>ik_key_id = key, ik_customer_id = sc_customer_id sc, ik_branch_id = sc_operational_branch_id sc,
     ik_algorithm = algorithm, ik_status = ''active'', ik_retired_at = None, ik_installation_id = Some (sc_installation_id sc),
     ik_heartbeat = None\<rparr>"

definition first_cutover :: "instant \<Rightarrow> instant \<Rightarrow> string option \<Rightarrow> scope \<Rightarrow> cutover_row" where
  "first_cutover stamp t why sc = \<lparr>cv_customer_id = sc_customer_id sc, cv_branch_id = sc_operational_branch_id sc,
     cv_cutover_at = Some t, cv_set_by = enrollment_cutover_set_by, cv_note = why, cv_set_at = stamp\<rparr>"

text \<open>The database after an enrollment: a bound token, and for a Contract v2 enrollment the branch's key and cutover.\<close>

definition enrolled_db :: "instant \<Rightarrow> enroll_draws \<Rightarrow> scope \<Rightarrow> string \<Rightarrow> enrolled \<Rightarrow> instant \<Rightarrow> string option \<Rightarrow> db \<Rightarrow> db" where
  "enrolled_db stamp draws sc description e t why db =
     db\<lparr>db_tokens := db_tokens db @ [bound_token draws sc description],
        db_keys := db_keys db @ (if en_v2 e = None then [] else [owned_key (ed_key_id draws) sc]),
        db_cutovers := db_cutovers db @ (if en_v2 e = None then [] else [first_cutover stamp t why sc])\<rparr>"

lemma redeem_Inr:
  assumes "redeem_enrollment_code env now stamp draws hostname version sr raw requested = Inr (e, sr')" "codes_wf (sr_codes sr)"
  obtains c sc contract description t why where "presented_code now sr raw = Inr c"
    "resolve_installation_scope sr (ec_installation_id c) None = Inr sc"
    "require_permitted_contract (ec_required_contract c) requested = Inr contract"
    "contract = 2 \<longleftrightarrow> en_v2 e \<noteq> None"
    "en_customer_id e = sc_customer_id sc" "en_branch_id e = sc_operational_branch_id sc" "en_installation_id e = sc_installation_id sc"
    "en_agent_token e = ed_token draws"
    "sr' = sr\<lparr>sr_db := enrolled_db stamp draws sc description e t why (sr_db sr), sr_codes := used_at stamp (ec_id c) (sr_codes sr)\<rparr>"
    "\<And>key zone rules. en_v2 e = Some (key, zone, rules) \<Longrightarrow> key = ed_key_id draws \<and> normalize_document (rules_json rules) = Inr rules
       \<and> \<not> has_active_ingest_key (sr_db sr) (sc_customer_id sc) (sc_operational_branch_id sc)
       \<and> \<not> has_any_v2_cutover (sr_db sr) (sc_customer_id sc) (sc_operational_branch_id sc)"
proof -
  from assms(1) obtain c sc contract site where p: "presented_code now sr raw = Inr c"
      "resolve_installation_scope sr (ec_installation_id c) None = Inr sc"
      "require_permitted_contract (ec_required_contract c) requested = Inr contract"
      "(if contract = 2 then bind_result (prepare_v2_enrollment env sr sc) (\<lambda>site. Inr (Some site)) else Inr None) = Inr site"
    by (auto simp: redeem_enrollment_code_def)
  define description where "description = token_description env sc (clean_metadata hostname 128) (clean_metadata version 64)"
  define db1 where "db1 = (sr_db sr)\<lparr>db_tokens := db_tokens (sr_db sr) @ [bound_token draws sc description]\<rparr>"
  define result where "result = \<lparr>en_customer_id = sc_customer_id sc, en_branch_id = sc_operational_branch_id sc,
      en_installation_id = sc_installation_id sc, en_agent_token = ed_token draws, en_v2 = None\<rparr>"
  have r: "(case site of
            None \<Rightarrow> Inr (result, sr\<lparr>sr_db := db1, sr_codes := used_at stamp (ec_id c) (sr_codes sr)\<rparr>)
          | Some s \<Rightarrow> bind_result (v2_identity stamp (ed_key_id draws) (ec_id c) sc s db1) (\<lambda>db.
              Inr (result\<lparr>en_v2 := Some (ed_key_id draws, vs_timezone s, vs_rules s)\<rparr>,
                sr\<lparr>sr_db := db, sr_codes := used_at stamp (ec_id c) (sr_codes sr)\<rparr>))) = Inr (e, sr')"
    using assms(1) unfolding description_def db1_def result_def
    by (cases site) (simp_all add: redeem_enrollment_code_def p claim_code_eq [OF assms(2) p(1)] Let_def)
  show thesis
  proof (cases site)
    case None
    have "enrolled_db stamp draws sc description e t why (sr_db sr) = db1" if "en_v2 e = None" for t why
      using that by (simp add: enrolled_db_def db1_def)
    then show thesis using that [OF p(1-3), of description] r None p(4) by (auto simp: result_def split: if_splits)
  next
    case (Some s)
    with r obtain db' where v: "v2_identity stamp (ed_key_id draws) (ec_id c) sc s db1 = Inr db'"
      and e: "e = result\<lparr>en_v2 := Some (ed_key_id draws, vs_timezone s, vs_rules s)\<rparr>"
        "sr' = sr\<lparr>sr_db := db', sr_codes := used_at stamp (ec_id c) (sr_codes sr)\<rparr>" by auto
    have pr: "contract = 2" "prepare_v2_enrollment env sr sc = Inr s" using p(4) Some by (auto split: if_splits)
    note q = prepare_v2_Inr [OF pr(2)]
    obtain t z why where t: "db' = db1\<lparr>db_keys := db_keys db1 @ [owned_key (ed_key_id draws) sc],
        db_cutovers := db_cutovers db1 @ [first_cutover stamp t why sc]\<rparr>"
      by (rule v2_identity_Inr [OF v]) (auto simp: owned_key_def first_cutover_def)
    have "db' = enrolled_db stamp draws sc description e t why (sr_db sr)" unfolding t by (simp add: enrolled_db_def db1_def e(1))
    then have sr': "sr' = sr\<lparr>sr_db := enrolled_db stamp draws sc description e t why (sr_db sr), sr_codes := used_at stamp (ec_id c) (sr_codes sr)\<rparr>"
      by (simp only: e(2))
    show thesis
      by (rule that [OF p(1-3), of description t why]) (use pr(1) q sr' in \<open>simp_all only: e(1) result_def, simp_all\<close>)
  qed
qed

section \<open>A token that was handed out works\<close>

text \<open>What \<open>assign_operational_identity\<close> keeps of the branches: an operational id is the branch's own.\<close>

definition mapped_branches :: "db \<Rightarrow> bool" where
  "mapped_branches db \<longleftrightarrow> distinct (List.map br_id (db_branches db))
     \<and> (\<forall>b \<in> set (db_branches db). br_operational_branch_id b = None \<or> br_operational_branch_id b = Some (br_id b))"

lemma find_unique: "x \<in> set xs \<Longrightarrow> P x \<Longrightarrow> (\<And>y. y \<in> set xs \<Longrightarrow> P y \<Longrightarrow> y = x) \<Longrightarrow> find P xs = Some x"
proof (induction xs)
  case (Cons a xs)
  show ?case
  proof (cases "P a")
    case True
    have "a = x" by (rule Cons.prems(3)) (simp_all add: True)
    then show ?thesis using True by simp
  next
    case False
    then have "x \<in> set xs" using Cons.prems(1,2) by auto
    then have "find P xs = Some x"
      by (rule Cons.IH) (rule Cons.prems(2), rule Cons.prems(3), simp)
    then show ?thesis using False by simp
  qed
qed simp

lemma filter_one_unique:
  assumes "length (filter P xs) = 1" "x \<in> set xs" "P x" "y \<in> set xs" "P y"
  shows "y = x"
proof -
  from assms(1) obtain z where "filter P xs = [z]" by (cases "filter P xs") auto
  then have z: "set (filter P xs) = {z}" by simp
  have "x \<in> set (filter P xs)" "y \<in> set (filter P xs)" using assms by simp_all
  then show ?thesis unfolding z by simp
qed

lemma mapped_organization:
  assumes "usable_installation sr x g b sc"
  shows "find (\<lambda>g. og_operational_customer_id g = Some (sc_customer_id sc)) (db_organizations (sr_db sr)) = Some g"
proof (rule find_unique)
  from assms show "g \<in> set (db_organizations (sr_db sr))" "og_operational_customer_id g = Some (sc_customer_id sc)"
    by (auto simp: usable_installation_def dest: row_ids)
  with assms show "y = g" if "y \<in> set (db_organizations (sr_db sr))" "og_operational_customer_id y = Some (sc_customer_id sc)" for y
    using filter_one_unique [of _ "db_organizations (sr_db sr)" g y] that by (auto simp: usable_installation_def mapped_organizations_def)
qed

lemma mapped_branch:
  assumes "usable_installation sr x g b sc" "mapped_branches (sr_db sr)"
  shows "find (\<lambda>b. br_operational_branch_id b = Some (sc_operational_branch_id sc) \<and> br_organization_id b = og_id g) (db_branches (sr_db sr)) = Some b"
proof (rule find_unique)
  from assms(1) have b: "b \<in> set (db_branches (sr_db sr))" "og_id g = in_organization_id x" "br_organization_id b = in_organization_id x"
    "br_operational_branch_id b = Some (br_id b)" "sc_operational_branch_id sc = br_id b"
    by (auto simp: usable_installation_def dest: row_ids)
  then show "b \<in> set (db_branches (sr_db sr))"
    "br_operational_branch_id b = Some (sc_operational_branch_id sc) \<and> br_organization_id b = og_id g" by simp_all
  fix y
  assume y: "y \<in> set (db_branches (sr_db sr))" "br_operational_branch_id y = Some (sc_operational_branch_id sc) \<and> br_organization_id y = og_id g"
  with assms(2) b(5) have "br_id y = br_id b" by (auto simp: mapped_branches_def)
  then show "y = b" using assms(2) y(1) b(1) by (auto simp: mapped_branches_def intro: ids_eq)
qed

definition token_row_of :: "enroll_draws \<Rightarrow> scope \<Rightarrow> installation \<Rightarrow> organization \<Rightarrow> branch \<Rightarrow> token_row" where
  "token_row_of draws sc x g b = \<lparr>tr_id = ed_token_id draws, tr_customer_id = sc_customer_id sc, tr_branch_id = sc_operational_branch_id sc,
     tr_is_active = True, tr_installation_id = Some (sc_installation_id sc), tr_resolved_organization_id = Some (og_id g),
     tr_organization_status = Some (og_status g), tr_resolved_branch_id = Some (br_id b), tr_branch_status = Some (br_status b),
     tr_installation_status = Some (in_status x), tr_installation_organization_id = Some (in_organization_id x),
     tr_installation_branch_id = Some (in_branch_id x)\<rparr>"

lemma bound_token_found:
  assumes u: "usable_installation sr x g b sc" "installation_row (sr_db sr) i = Some x" "mapped_branches (sr_db sr)"
    and new: "db_tokens db' = old @ [bound_token draws sc description]" "\<forall>t \<in> set old. at_token_hash t \<noteq> token_hash (ed_token draws)"
    and same: "db_organizations db' = db_organizations (sr_db sr)" "db_branches db' = db_branches (sr_db sr)"
      "db_installations db' = db_installations (sr_db sr)"
  shows "token_lookup db' (ed_token draws) = Some (token_row_of draws sc x g b)" "usable (token_row_of draws sc x g b)"
proof -
  have "find (\<lambda>t. at_token_hash t = token_hash (ed_token draws)) old = None" using new(2) by (simp add: find_None_iff)
  then have f: "find (\<lambda>t. at_token_hash t = token_hash (ed_token draws)) (db_tokens db') = Some (bound_token draws sc description)"
    by (simp add: new(1) find_append bound_token_def)
  have i: "in_id x = i" "sc_installation_id sc = in_id x" using u(1,2) by (auto simp: usable_installation_def dest: row_ids)
  have inst: "find (\<lambda>y. in_id y = sc_installation_id sc) (db_installations (sr_db sr)) = Some x"
    using u(2) i by (simp add: installation_row_def)
  show "token_lookup db' (ed_token draws) = Some (token_row_of draws sc x g b)"
    unfolding token_lookup_def f option.case Let_def
    by (simp add: bound_token_def token_row_of_def same mapped_organization [OF u(1)] mapped_branch [OF u(1,3)] inst)
  show "usable (token_row_of draws sc x g b)"
    using u(1) by (auto simp: usable_def token_row_of_def usable_installation_def dest: row_ids)
qed

lemma bearer_header:
  assumes "token \<noteq> []" "\<forall>c \<in> set token. \<not> is_space c"
  shows "get_bearer_token (Some (''Bearer '' @ token)) = Inr token"
proof -
  have dw: "dropWhile is_space s = s" if "\<forall>c \<in> set s. \<not> is_space c" for s using that by (cases s) auto
  have nl: "CHR 0x0A \<notin> set token" using assms(2) by (auto simp: is_space_def char_code_def)
  have st: "py_strip token = token" using assms(2) by (simp add: py_strip_def dw)
  have sp: "is_space CHR '' ''" "\<not> is_space CHR ''B''" by code_simp+
  obtain a u where t: "rev token = a # u" "\<not> is_space a" using assms by (cases "rev token") (auto dest: arg_cong [of _ _ set])
  have "py_strip (''Bearer '' @ token) = ''Bearer '' @ token"
    using t(1) [THEN arg_cong [of _ _ rev]] t sp by (simp add: py_strip_def)
  moreover have "py_lower ''Bearer'' = ''bearer''" by code_simp
  moreover have "\<exists>c \<in> set token. \<not> is_space c" using assms by (cases token) simp_all
  ultimately show ?thesis using assms(1) nl st sp dw [OF assms(2)] by (simp add: get_bearer_token_def)
qed

lemma first_cutover_effective:
  assumes "\<not> has_any_v2_cutover db (sc_customer_id sc) (sc_operational_branch_id sc)"
    "db_cutovers db' = db_cutovers db @ [first_cutover stamp t why sc]"
  shows "get_effective_v2_cutover db' (sc_customer_id sc) (sc_operational_branch_id sc) = Some t"
proof -
  have "filter (of_branch (sc_customer_id sc) (sc_operational_branch_id sc)) (db_cutovers db) = []"
    using assms(1) by (auto simp: has_any_v2_cutover_def list_ex_iff filter_empty_conv)
  then show ?thesis by (simp add: get_effective_v2_cutover_def assms(2) of_branch_def first_cutover_def)
qed

lemma owned_key_usable:
  assumes "\<forall>k \<in> set (db_keys db). ik_key_id k \<noteq> key" "db_keys db' = db_keys db @ [owned_key key sc]"
  shows "ingest_key_problem db' (sc_customer_id sc) (sc_operational_branch_id sc) key token = None \<longleftrightarrow> token = Some (sc_installation_id sc)"
proof -
  have "find (\<lambda>k. ik_key_id k = key) (db_keys db) = None" using assms(1) by (simp add: find_None_iff)
  then show ?thesis unfolding ingest_key_problem_def by (simp add: assms(2) find_append owned_key_def of_tenant_def)
qed

text \<open>C5. What an enrollment hands out works, and for its own installation only: the token authenticates as exactly the customer,
  branch and installation of the reply; after a Contract v2 enrollment the returned rules document passes the collector's own
  validation, the returned key is accepted from tokens of that installation and no other, and the branch's v1 uploads are closed from
  the recorded cutover on.\<close>

theorem enrolled_collector_works:
  assumes "redeem_enrollment_code env now stamp draws hostname version sr raw requested = Inr (e, sr')"
    and "codes_wf (sr_codes sr)" "mapped_branches (sr_db sr)"
    and "\<forall>t \<in> set (db_tokens (sr_db sr)). at_token_hash t \<noteq> token_hash (ed_token draws)"
      "\<forall>k \<in> set (db_keys (sr_db sr)). ik_key_id k \<noteq> ed_key_id draws"
    and "ed_token draws \<noteq> []" "\<forall>c \<in> set (ed_token draws). \<not> is_space c"
  shows "\<exists>r db'. authenticate later (sr_db sr') (Some (''Bearer '' @ en_agent_token e)) None = Inr (r, db')
    \<and> tr_customer_id r = en_customer_id e \<and> tr_branch_id r = en_branch_id e \<and> tr_installation_id r = Some (en_installation_id e)
    \<and> (case en_v2 e of None \<Rightarrow> True | Some (key, zone, rules) \<Rightarrow>
         normalize_document (rules_json rules) = Inr rules
         \<and> require_ingest_key db' r key = Inr ()
         \<and> (\<forall>token. ingest_key_problem db' (en_customer_id e) (en_branch_id e) key token = None \<longrightarrow> token = Some (en_installation_id e))
         \<and> (\<exists>t. v1_upload_closed_since later db' r = (if t \<le> later then Some t else None)))"
proof -
  obtain c sc contract description t why where q: "presented_code now sr raw = Inr c"
      "resolve_installation_scope sr (ec_installation_id c) None = Inr sc"
      "require_permitted_contract (ec_required_contract c) requested = Inr contract"
    and k: "contract = 2 \<longleftrightarrow> en_v2 e \<noteq> None"
    and e: "en_customer_id e = sc_customer_id sc" "en_branch_id e = sc_operational_branch_id sc"
      "en_installation_id e = sc_installation_id sc" "en_agent_token e = ed_token draws"
    and sr': "sr' = sr\<lparr>sr_db := enrolled_db stamp draws sc description e t why (sr_db sr), sr_codes := used_at stamp (ec_id c) (sr_codes sr)\<rparr>"
    and v2: "\<And>key zone rules. en_v2 e = Some (key, zone, rules) \<Longrightarrow> key = ed_key_id draws \<and> normalize_document (rules_json rules) = Inr rules
       \<and> \<not> has_active_ingest_key (sr_db sr) (sc_customer_id sc) (sc_operational_branch_id sc)
       \<and> \<not> has_any_v2_cutover (sr_db sr) (sc_customer_id sc) (sc_operational_branch_id sc)"
    by (rule redeem_Inr [OF assms(1,2)]) (rule that; assumption)
  obtain x g b where x: "installation_row (sr_db sr) (ec_installation_id c) = Some x" "usable_installation sr x g b sc"
    by (rule resolve_scope_Inr [OF q(2)])
  define db where "db = enrolled_db stamp draws sc description e t why (sr_db sr)"
  have tk: "db_tokens db = db_tokens (sr_db sr) @ [bound_token draws sc description]" "db_organizations db = db_organizations (sr_db sr)"
    "db_branches db = db_branches (sr_db sr)" "db_installations db = db_installations (sr_db sr)" by (simp_all add: db_def enrolled_db_def)
  note found = bound_token_found [OF x(2,1) assms(3) tk(1) assms(4) tk(2-4)]
  define r where "r = token_row_of draws sc x g b"
  define db' where "db' = db\<lparr>db_tokens := snd (update_where (\<lambda>t. at_id t = tr_id r) (\<lambda>t. t\<lparr>at_last_used_at := Some later\<rparr>) (db_tokens db))\<rparr>"
  have a: "authenticate later (sr_db sr') (Some (''Bearer '' @ en_agent_token e)) None = Inr (r, db')"
  proof -
    have "sr_db sr' = db" by (simp add: sr' db_def)
    then show ?thesis unfolding authenticate_Inr e(4) db'_def
      using found [folded r_def] bearer_header [OF assms(6,7)] by (intro exI [of _ "ed_token draws"]) (simp only: simp_thms)
  qed
  have r: "tr_customer_id r = sc_customer_id sc" "tr_branch_id r = sc_operational_branch_id sc" "tr_installation_id r = Some (sc_installation_id sc)"
    by (simp_all add: r_def token_row_of_def)
  have "normalize_document (rules_json rules) = Inr rules
         \<and> require_ingest_key db' r key = Inr ()
         \<and> (\<forall>token. ingest_key_problem db' (en_customer_id e) (en_branch_id e) key token = None \<longrightarrow> token = Some (en_installation_id e))
         \<and> (\<exists>t. v1_upload_closed_since later db' r = (if t \<le> later then Some t else None))"
    if "en_v2 e = Some (key, zone, rules)" for key zone rules
  proof -
    note v = v2 [OF that]
    have kc: "db_keys db' = db_keys (sr_db sr) @ [owned_key key sc]" "db_cutovers db' = db_cutovers (sr_db sr) @ [first_cutover stamp t why sc]"
      using that v by (simp_all add: db'_def db_def enrolled_db_def)
    have key: "ingest_key_problem db' (sc_customer_id sc) (sc_operational_branch_id sc) key token = None \<longleftrightarrow> token = Some (sc_installation_id sc)" for token
      by (rule owned_key_usable [OF _ kc(1)]) (use assms(5) v in simp)
    have "v1_upload_closed_since later db' r = (if t \<le> later then Some t else None)"
      using first_cutover_effective [OF _ kc(2)] v by (simp add: v1_upload_closed_since_def r)
    then show ?thesis using v key by (simp add: e r) blast
  qed
  then have v: "case en_v2 e of None \<Rightarrow> True | Some (key, zone, rules) \<Rightarrow>
         normalize_document (rules_json rules) = Inr rules
         \<and> require_ingest_key db' r key = Inr ()
         \<and> (\<forall>token. ingest_key_problem db' (en_customer_id e) (en_branch_id e) key token = None \<longrightarrow> token = Some (en_installation_id e))
         \<and> (\<exists>t. v1_upload_closed_since later db' r = (if t \<le> later then Some t else None))"
    by (simp only: split: option.split prod.split) blast
  show ?thesis by (rule exI [of _ r], rule exI [of _ db'], intro conjI) (simp_all only: a [unfolded e] r e v [unfolded e])
qed

section \<open>Nothing else changes\<close>

definition enrollment_applied :: "instant \<Rightarrow> instant \<Rightarrow> enroll_draws \<Rightarrow> string \<Rightarrow> int option \<Rightarrow> server \<Rightarrow> server \<Rightarrow> bool" where
  "enrollment_applied now stamp draws raw requested sr sr' \<longleftrightarrow>
     (\<exists>plain c x g b sc contract description t why. normalize_enrollment_code raw = Some plain \<and> c \<in> set (sr_codes sr)
        \<and> ec_code_hash c = hash_enrollment_code plain \<and> unused c \<and> now < ec_expires_at c
        \<and> installation_row (sr_db sr) (ec_installation_id c) = Some x \<and> usable_installation sr x g b sc
        \<and> require_permitted_contract (ec_required_contract c) requested = Inr contract
        \<and> sr' = sr\<lparr>sr_codes := used_at stamp (ec_id c) (sr_codes sr),
            sr_db := (sr_db sr)\<lparr>db_tokens := db_tokens (sr_db sr) @ [bound_token draws sc description],
               db_keys := db_keys (sr_db sr) @ (if contract = 2 then [owned_key (ed_key_id draws) sc] else []),
               db_cutovers := db_cutovers (sr_db sr) @ (if contract = 2 then [first_cutover stamp t why sc] else [])\<rparr>\<rparr>
        \<and> (contract = 2 \<longrightarrow> \<not> has_active_ingest_key (sr_db sr) (sc_customer_id sc) (sc_operational_branch_id sc)
             \<and> \<not> has_any_v2_cutover (sr_db sr) (sc_customer_id sc) (sc_operational_branch_id sc)))"

lemma redeem_applied:
  assumes "redeem_enrollment_code env now stamp draws hostname version sr raw requested = Inr (e, sr')" "codes_wf (sr_codes sr)"
  shows "enrollment_applied now stamp draws raw requested sr sr'"
proof -
  obtain c sc contract description t why where q: "presented_code now sr raw = Inr c"
      "resolve_installation_scope sr (ec_installation_id c) None = Inr sc"
      "require_permitted_contract (ec_required_contract c) requested = Inr contract"
    and k: "contract = 2 \<longleftrightarrow> en_v2 e \<noteq> None"
    and e: "en_customer_id e = sc_customer_id sc" "en_branch_id e = sc_operational_branch_id sc"
      "en_installation_id e = sc_installation_id sc" "en_agent_token e = ed_token draws"
    and sr': "sr' = sr\<lparr>sr_db := enrolled_db stamp draws sc description e t why (sr_db sr), sr_codes := used_at stamp (ec_id c) (sr_codes sr)\<rparr>"
    and v2: "\<And>key zone rules. en_v2 e = Some (key, zone, rules) \<Longrightarrow> key = ed_key_id draws \<and> normalize_document (rules_json rules) = Inr rules
       \<and> \<not> has_active_ingest_key (sr_db sr) (sc_customer_id sc) (sc_operational_branch_id sc)
       \<and> \<not> has_any_v2_cutover (sr_db sr) (sc_customer_id sc) (sc_operational_branch_id sc)"
    by (rule redeem_Inr [OF assms]) (rule that; assumption)
  obtain x g b where x: "installation_row (sr_db sr) (ec_installation_id c) = Some x" "usable_installation sr x g b sc"
    by (rule resolve_scope_Inr [OF q(2)])
  from presented_code_Inr [OF q(1)] obtain plain where plain: "normalize_enrollment_code raw = Some plain" "c \<in> set (sr_codes sr)"
    "ec_code_hash c = hash_enrollment_code plain" "unused c" "now < ec_expires_at c" by blast
  have s: "sr' = sr\<lparr>sr_codes := used_at stamp (ec_id c) (sr_codes sr),
              sr_db := (sr_db sr)\<lparr>db_tokens := db_tokens (sr_db sr) @ [bound_token draws sc description],
                 db_keys := db_keys (sr_db sr) @ (if contract = 2 then [owned_key (ed_key_id draws) sc] else []),
                 db_cutovers := db_cutovers (sr_db sr) @ (if contract = 2 then [first_cutover stamp t why sc] else [])\<rparr>\<rparr>"
    by (cases "contract = 2") (use k in \<open>simp_all add: sr' enrolled_db_def\<close>)
  have n: "contract = 2 \<longrightarrow> \<not> has_active_ingest_key (sr_db sr) (sc_customer_id sc) (sc_operational_branch_id sc)
               \<and> \<not> has_any_v2_cutover (sr_db sr) (sc_customer_id sc) (sc_operational_branch_id sc)"
    using k v2 by (cases "en_v2 e") auto
  show ?thesis unfolding enrollment_applied_def
    by (rule exI [of _ plain], rule exI [of _ c], rule exI [of _ x], rule exI [of _ g], rule exI [of _ b], rule exI [of _ sc],
        rule exI [of _ contract], rule exI [of _ description], rule exI [of _ t], rule exI [of _ why])
      (intro conjI plain x q(3) s n)
qed

lemma enroll_cases:
  obtains (ok) e sr' where "collector_enroll env now stamp draws hostname version sr raw requested = (Enrolled e, sr')"
      "redeem_enrollment_code env now stamp draws hostname version sr raw requested = Inr (e, sr')"
    | (refused) reply where "collector_enroll env now stamp draws hostname version sr raw requested = (reply, sr)" "\<And>e. reply \<noteq> Enrolled e"
proof (cases "redeem_enrollment_code env now stamp draws hostname version sr raw requested")
  case (Inl f)
  then show thesis by (cases f) (rule refused, simp add: collector_enroll_def, simp)+
next
  case (Inr p)
  then show thesis by (cases p) (rule ok, simp_all add: collector_enroll_def)
qed

text \<open>C15. An enrollment changes the server only when it answers with an enrollment, and then: the code presented was known, unused,
  unrevoked and unexpired and is used now, its installation and tenant were usable, one token bound to that installation is added, and
  for Contract v2 the tenant's first key, owned by it, and its first cutover. Every other row of every table is as it was.\<close>

theorem enroll_effect:
  assumes "codes_wf (sr_codes sr)"
  shows "case collector_enroll env now stamp draws hostname version sr raw requested of (reply, sr') \<Rightarrow>
     (case reply of Enrolled e \<Rightarrow> enrollment_applied now stamp draws raw requested sr sr' | _ \<Rightarrow> sr' = sr)"
proof (rule enroll_cases [of env now stamp draws hostname version sr raw requested])
  fix e sr'
  assume c: "collector_enroll env now stamp draws hostname version sr raw requested = (Enrolled e, sr')"
    and r: "redeem_enrollment_code env now stamp draws hostname version sr raw requested = Inr (e, sr')"
  show ?thesis unfolding c prod.case enroll_reply.case by (rule redeem_applied [OF r assms])
next
  fix reply
  assume "collector_enroll env now stamp draws hostname version sr raw requested = (reply, sr)" "\<And>e. reply \<noteq> Enrolled e"
  then show ?thesis by (cases reply) auto
qed

section \<open>A sample server\<close>

definition sample_site :: json where
  "sample_site = JObj [(''collector_timezone'', JStr ''America/Chicago''),
     (''collector_rules'', JObj [(''reviewed_at'', JStr ''2025-01-01T00:00:00+00:00''), (''reviewed_by_user_id'', JInt 7)])]"

definition sample_code :: enrollment_code where
  "sample_code = \<lparr>ec_id = 3, ec_installation_id = 5, ec_code_hash = hash_enrollment_code ''SV-ABCD-EFGH-JKMN-PQRS'',
     ec_expires_at = 1000, ec_used_at = None, ec_revoked_at = None, ec_required_contract = 2\<rparr>"

definition sample_server :: server where
  "sample_server = \<lparr>sr_db = \<lparr>db_organizations = [\<lparr>og_id = 1, og_operational_customer_id = Some 10, og_status = ''active'',
        og_slug = ''lib'', og_created_at = Some (Aware 100 0)\<rparr>],
     db_branches = [\<lparr>br_id = 2, br_organization_id = 1, br_operational_branch_id = Some 2, br_status = ''active'',
        br_onboarding_status = ''pending'', br_onboarding_message = None, br_onboarding_updated_at = None, br_is_primary = True,
        br_slug = ''central''\<rparr>],
     db_installations = [\<lparr>in_id = 5, in_organization_id = 1, in_branch_id = 2, in_status = ''provisioning'', in_installed_at = None,
        in_last_seen_at = None, in_collector_version = None, in_updated_at = None, in_name = ''Sorter'', in_required_contract = 2\<rparr>],
     db_tokens = [], db_keys = [], db_cutovers = [], db_events = []\<rparr>,
   sr_codes = [sample_code], sr_customers = [10], sr_organization_settings = [(1, Some sample_site)], sr_branch_settings = [],
   sr_accounts = [], sr_sessions = [], sr_resets = [], sr_memberships = [], sr_audit = [], sr_lifecycle = []\<rparr>"

definition sample_env :: enroll_env where
  "sample_env = \<lparr>ee_zone_known = (\<lambda>_. True), ee_iso_aware = (\<lambda>_. True), ee_str_of = (\<lambda>_. []), ee_repr = (\<lambda>s. s)\<rparr>"

definition sample_draws :: enroll_draws where
  "sample_draws = \<lparr>ed_token = ''tok'', ed_token_id = 9, ed_key_id = sample_key_id\<rparr>"

lemma sample_scope: "resolve_installation_scope sample_server 5 None = Inr \<lparr>sc_installation_id = 5, sc_installation_name = ''Sorter'',
    sc_organization_id = 1, sc_branch_id = 2, sc_customer_id = 10, sc_operational_branch_id = 2, sc_required_contract = 2\<rparr>"
  unfolding resolve_installation_scope_def check_scope_def sample_server_def server.simps by code_simp

lemma sample_prepared: "prepare_v2_enrollment sample_env sample_server \<lparr>sc_installation_id = 5, sc_installation_name = ''Sorter'',
    sc_organization_id = 1, sc_branch_id = 2, sc_customer_id = 10, sc_operational_branch_id = 2, sc_required_contract = 2\<rparr>
  = Inr \<lparr>vs_timezone = ''America/Chicago'', vs_cutover_at = Aware 100 0, vs_rules = \<lparr>nd_destinations = [], nd_branch_names = [],
      nd_collection_names = [], nd_branch_patterns = [], nd_collection_patterns = []\<rparr>\<rparr>"
  unfolding prepare_v2_enrollment_def stored_settings_def sample_server_def server.simps by code_simp

lemma sample_presented: "presented_code 500 sample_server ''sv-abcd-efgh-jkmn-pqrs'' = Inr sample_code"
proof -
  have n: "normalize_enrollment_code ''sv-abcd-efgh-jkmn-pqrs'' = Some ''SV-ABCD-EFGH-JKMN-PQRS''" by code_simp
  show ?thesis unfolding presented_code_def n by (simp add: sample_server_def sample_code_def)
qed

lemma sample_wf: "codes_wf (sr_codes sample_server)" "mapped_branches (sr_db sample_server)"
  by (simp_all add: codes_wf_def mapped_branches_def sample_server_def)

lemma sample_redeem: "\<exists>e sr'. redeem_enrollment_code sample_env 500 501 sample_draws None None sample_server ''sv-abcd-efgh-jkmn-pqrs'' (Some 2) = Inr (e, sr')
    \<and> en_v2 e \<noteq> None \<and> en_agent_token e = ''tok''"
proof -
  have i: "ec_installation_id sample_code = 5" "ec_required_contract sample_code = 2" by (simp_all add: sample_code_def)
  have p: "require_permitted_contract 2 (Some 2) = Inr 2" by code_simp
  have strip: "py_strip enrollment_cutover_set_by = enrollment_cutover_set_by" "enrollment_cutover_set_by \<noteq> []" by code_simp+
  show ?thesis
    by (simp add: redeem_enrollment_code_def sample_presented i sample_scope p sample_prepared Let_def
      claim_code_eq [OF sample_wf(1) sample_presented, unfolded i] v2_identity_def issue_ingest_key_def record_initial_v2_cutover_def
      record_v2_cutover_def require_provisionable_tenant_def mapped_status_def strip has_any_v2_cutover_def)
      (simp add: sample_server_def sample_draws_def)
qed

theorem enrolled_collector_works_witness:
  "\<exists>e sr' r db'. redeem_enrollment_code sample_env 500 501 sample_draws None None sample_server ''sv-abcd-efgh-jkmn-pqrs'' (Some 2) = Inr (e, sr')
     \<and> authenticate 600 (sr_db sr') (Some ''Bearer tok'') None = Inr (r, db') \<and> tr_installation_id r = Some (en_installation_id e)"
proof -
  obtain e sr' where r: "redeem_enrollment_code sample_env 500 501 sample_draws None None sample_server ''sv-abcd-efgh-jkmn-pqrs'' (Some 2) = Inr (e, sr')"
    "en_agent_token e = ''tok''" using sample_redeem by blast
  have "\<forall>t \<in> set (db_tokens (sr_db sample_server)). at_token_hash t \<noteq> token_hash (ed_token sample_draws)"
    "\<forall>k \<in> set (db_keys (sr_db sample_server)). ik_key_id k \<noteq> ed_key_id sample_draws"
    "ed_token sample_draws \<noteq> []" by (simp_all add: sample_server_def sample_draws_def)
  moreover have "\<forall>c \<in> set (ed_token sample_draws). \<not> is_space c" by code_simp
  ultimately show ?thesis using enrolled_collector_works [OF r(1) sample_wf, of 600] r by auto
qed

theorem enroll_effect_witness:
  "\<exists>sr'. enrollment_applied 500 501 sample_draws ''sv-abcd-efgh-jkmn-pqrs'' (Some 2) sample_server sr'"
proof -
  obtain e sr' where "redeem_enrollment_code sample_env 500 501 sample_draws None None sample_server ''sv-abcd-efgh-jkmn-pqrs'' (Some 2) = Inr (e, sr')"
    using sample_redeem by blast
  then have "collector_enroll sample_env 500 501 sample_draws None None sample_server ''sv-abcd-efgh-jkmn-pqrs'' (Some 2) = (Enrolled e, sr')"
    by (simp add: collector_enroll_def)
  with enroll_effect [OF sample_wf(1), of 500 501 sample_draws "''sv-abcd-efgh-jkmn-pqrs''" "Some 2" sample_env None None] show ?thesis by auto
qed

end
