(* ===== verification/Installations.thy ===== *)
theory Installations
  imports EnrollmentEffects
begin

text \<open>
  What an administrator may do with a library's collector installations and their codes,
  src/src/services/admin_installation_service.py, over \<open>insert_collector_installation\<close> of
  src/src/services/tenant_service.py: add, rename, change status, issue an enrollment code or a recovery
  token, revoke a legacy token. \<open>library\<close> is the organization as it was read before the call, which may be
  out of date; a refusal is its code and rolls everything back. The library, its readiness and the listing
  queries beyond what these operations check are not modelled.
\<close>

definition max_name_length :: nat where
  "max_name_length = 120"

definition validate_name :: "string option \<Rightarrow> string + string" where
  "validate_name name =
     (case name of None \<Rightarrow> Inl ''not_text''
      | Some n \<Rightarrow> (let trimmed = py_strip n in
          if trimmed = [] then Inl ''required'' else if length trimmed > max_name_length then Inl ''too_long'' else Inr trimmed))"

definition transitions :: "(string \<times> string list) list" where
  "transitions = [(''provisioning'', [''inactive'', ''retired'']), (''active'', [''inactive'', ''retired'']),
     (''inactive'', [''provisioning'', ''retired'']), (''retired'', [])]"

definition transition_allowed :: "string \<Rightarrow> string \<Rightarrow> bool" where
  "transition_allowed current wanted \<longleftrightarrow> wanted \<in> set (case map_of transitions current of None \<Rightarrow> [] | Some ws \<Rightarrow> ws)"

definition primary_branch :: "db \<Rightarrow> int \<Rightarrow> branch option" where
  "primary_branch db org =
     (case take 2 (filter (\<lambda>b. br_organization_id b = org \<and> br_is_primary b) (db_branches db)) of [b] \<Rightarrow> Some b | _ \<Rightarrow> None)"

definition cancelled_now :: "db \<Rightarrow> int \<Rightarrow> bool" where
  "cancelled_now db org \<longleftrightarrow> list_ex (\<lambda>g. og_id g = org \<and> og_status g = ''cancelled'') (db_organizations db)"

definition refuse_cancelled :: "organization \<Rightarrow> string + unit" where
  "refuse_cancelled library = (if og_status library = ''cancelled'' then Inl ''library_cancelled'' else Inr ())"

text \<open>The installation of this library, with its branch: what \<open>_one\<close> reads.\<close>

definition listed_installation :: "db \<Rightarrow> int \<Rightarrow> int \<Rightarrow> installation option" where
  "listed_installation db org i =
     find (\<lambda>x. in_id x = i \<and> in_organization_id x = org \<and> list_ex (\<lambda>b. br_id b = in_branch_id x) (db_branches db)) (db_installations db)"

definition v2_settings_ready :: "enroll_env \<Rightarrow> server \<Rightarrow> organization \<Rightarrow> string + bool" where
  "v2_settings_ready env sr library =
     (case organization_row (sr_db sr) (og_id library) of
        None \<Rightarrow> Inl ''RuntimeError''
      | Some _ \<Rightarrow>
          bind_result (settings_document (map_of (sr_organization_settings sr) (og_id library))) (\<lambda>site.
            Inr (\<not> isl (collector_timezone (ee_zone_known env) site) \<and> \<not> isl (require_rules_reviewed (ee_iso_aware env) site))))"

section \<open>Adding and renaming\<close>

definition installation_statuses :: "string list" where
  "installation_statuses = [''provisioning'', ''active'', ''inactive'', ''retired'']"

definition insert_collector_installation ::
    "int \<Rightarrow> server \<Rightarrow> int \<Rightarrow> int \<Rightarrow> string \<Rightarrow> string \<Rightarrow> int \<Rightarrow> string + server" where
  "insert_collector_installation new_id sr org br name status contract =
     (let name = py_strip name; db = sr_db sr in
      if name = [] then Inl ''ValueError: name''
      else if status \<notin> set installation_statuses then Inl ''ValueError: status''
      else if contract \<notin> set supported_contracts then Inl ''ValueError: contract''
      else case find (\<lambda>b. br_id b = br \<and> br_organization_id b = org) (db_branches db) of
          None \<Rightarrow> Inl ''RuntimeError''
        | Some b \<Rightarrow>
            (case organization_row db org of
               None \<Rightarrow> Inl ''RuntimeError''
             | Some g \<Rightarrow>
                 if og_status g = ''cancelled'' then Inl ''RuntimeError''
                 else Inr (sr\<lparr>sr_db := db\<lparr>db_installations := db_installations db @
                   [\<lparr>in_id = new_id, in_organization_id = org, in_branch_id = br, in_status = status, in_installed_at = None,
                     in_last_seen_at = None, in_collector_version = None, in_updated_at = None, in_name = name,
                     in_required_contract = contract\<rparr>]\<rparr>\<rparr>)))"

definition create_installation ::
    "enroll_env \<Rightarrow> int \<Rightarrow> server \<Rightarrow> organization \<Rightarrow> string option \<Rightarrow> int \<Rightarrow> actor \<Rightarrow> string + server" where
  "create_installation env new_id sr library name contract actor =
     bind_result (validate_name name) (\<lambda>name.
     if contract \<notin> set supported_contracts then Inl ''invalid_contract''
     else bind_result (refuse_cancelled library) (\<lambda>_.
       bind_result (if contract = 2 then v2_settings_ready env sr library else Inr True) (\<lambda>ready.
       if \<not> ready then Inl ''collector_settings_not_ready''
       else case primary_branch (sr_db sr) (og_id library) of
           None \<Rightarrow> Inl ''no_active_primary_branch''
         | Some b \<Rightarrow>
             if br_status b \<noteq> ''active'' then Inl ''no_active_primary_branch''
             else bind_result (lift_error (\<lambda>e. if e = ''RuntimeError'' then ''library_cancelled'' else e)
                 (insert_collector_installation new_id sr (og_id library) (br_id b) name ''provisioning'' contract)) (\<lambda>sr.
               Inr (audit_admin ''admin_installation_created'' ''Collector installation added.'' (og_slug library) actor
                 [(''installation_id'', JInt new_id), (''branch_slug'', JStr (br_slug b)), (''required_contract'', JInt contract)] sr)))))"

definition rename_installation ::
    "instant \<Rightarrow> server \<Rightarrow> organization \<Rightarrow> int \<Rightarrow> string option \<Rightarrow> actor \<Rightarrow> string + server" where
  "rename_installation stamp sr library i name actor =
     bind_result (validate_name name) (\<lambda>name.
     bind_result (refuse_cancelled library) (\<lambda>_.
       let db = sr_db sr; org = og_id library;
           (n, rows) = update_where (\<lambda>x. in_id x = i \<and> in_organization_id x = org \<and> \<not> cancelled_now db org)
             (\<lambda>x. x\<lparr>in_name := name, in_updated_at := Some stamp\<rparr>) (db_installations db) in
       if n = 0 then Inl (if listed_installation db org i = None then ''installation_not_found'' else ''library_cancelled'')
       else if listed_installation db org i = None then Inl ''installation_not_found''
       else Inr (audit_admin ''admin_installation_renamed'' ''Collector installation renamed.'' (og_slug library) actor
              [(''installation_id'', JInt i)] (sr\<lparr>sr_db := db\<lparr>db_installations := rows\<rparr>\<rparr>))))"

section \<open>Status\<close>

definition refuse_retiring_a_key_owner :: "db \<Rightarrow> int \<Rightarrow> int \<Rightarrow> string + unit" where
  "refuse_retiring_a_key_owner db org i =
     (case find (\<lambda>x. in_id x = i \<and> in_organization_id x = org) (db_installations db) of
        None \<Rightarrow> Inl ''installation_not_found''
      | Some x \<Rightarrow>
          (case (organization_row db (in_organization_id x), branch_row db (in_branch_id x)) of
             (Some g, Some b) \<Rightarrow>
               (case (og_operational_customer_id g, br_operational_branch_id b) of
                  (Some customer, Some branch) \<Rightarrow>
                    if Some i \<in> set (active_ingest_key_owners db customer branch) then Inl ''installation_owns_active_key'' else Inr ()
                | _ \<Rightarrow> Inr ())
           | _ \<Rightarrow> Inl ''installation_not_found''))"

definition change_status :: "instant \<Rightarrow> server \<Rightarrow> organization \<Rightarrow> int \<Rightarrow> string \<Rightarrow> actor \<Rightarrow> string + server" where
  "change_status stamp sr library i status actor =
     bind_result (refuse_cancelled library) (\<lambda>_.
       let db = sr_db sr; org = og_id library in
       case find (\<lambda>x. in_id x = i \<and> in_organization_id x = org) (db_installations db) of
         None \<Rightarrow> Inl ''installation_not_found''
       | Some x \<Rightarrow>
           if \<not> transition_allowed (in_status x) status then Inl ''transition_not_allowed''
           else bind_result (if status = ''retired'' then refuse_retiring_a_key_owner db org i else Inr ()) (\<lambda>_.
             let (n, rows) = update_where (\<lambda>y. in_id y = i \<and> in_organization_id y = org \<and> in_status y = in_status x \<and> \<not> cancelled_now db org)
                   (\<lambda>y. y\<lparr>in_status := status, in_updated_at := Some stamp\<rparr>) (db_installations db) in
             if n = 0 then Inl ''transition_not_allowed''
             else if listed_installation db org i = None then Inl ''installation_not_found''
             else Inr (audit_admin ''admin_installation_status_changed'' ''Collector installation status changed.'' (og_slug library) actor
               [(''installation_id'', JInt i), (''previous_status'', JStr (in_status x)), (''status'', JStr status)]
               (sr\<lparr>sr_db := db\<lparr>db_installations := rows\<rparr>\<rparr>))))"

section \<open>Codes and tokens\<close>

definition starts_with :: "string \<Rightarrow> string \<Rightarrow> bool" where
  "starts_with s p \<longleftrightarrow> take (length p) s = p"

definition public_refusal :: "string \<Rightarrow> string" where
  "public_refusal reason =
     (if reason \<in> {''installation_not_found'', ''installation_organization_mismatch''} then ''installation_not_found''
      else if starts_with reason ''installation_'' then ''installation_not_enrollable''
      else if starts_with reason ''organization_status_'' then ''library_not_enrollable''
      else ''operational_identity_incomplete'')"

definition public_error :: "enroll_error \<Rightarrow> string" where
  "public_error e = (case e of EnrollmentError reason \<Rightarrow> public_refusal reason | _ \<Rightarrow> ''operational_identity_incomplete'')"

definition code_ttl :: int where
  "code_ttl = 30 * 60 * 1000000"

definition issue_enrollment_code ::
    "(instant \<Rightarrow> string) \<Rightarrow> instant \<Rightarrow> instant \<Rightarrow> string \<Rightarrow> int \<Rightarrow> server \<Rightarrow> organization \<Rightarrow> int \<Rightarrow> actor \<Rightarrow> string + string \<times> server" where
  "issue_enrollment_code isoformat now stamp characters new_id sr library i actor =
     bind_result (refuse_cancelled library) (\<lambda>_.
     bind_result (lift_error public_refusal (resolve_installation_scope sr i (Some (og_id library)))) (\<lambda>scope.
       if sc_required_contract scope = 2
          \<and> (has_active_ingest_key (sr_db sr) (sc_customer_id scope) (sc_operational_branch_id scope)
             \<or> has_any_v2_cutover (sr_db sr) (sc_customer_id scope) (sc_operational_branch_id scope))
       then Inl ''branch_already_enrolled''
       else bind_result (lift_error public_error
           (create_enrollment_code now stamp code_ttl characters new_id sr i (Some (og_id library)))) (\<lambda>((raw, revoked), sr).
         Inr (raw, audit_admin ''admin_enrollment_code_issued'' ''Collector enrollment code issued.'' (og_slug library) actor
           [(''installation_id'', JInt i), (''enrollment_code_id'', JInt new_id), (''required_contract'', JInt (sc_required_contract scope)),
            (''expires_at'', JStr (isoformat (now + code_ttl))), (''revoked_previous_count'', JInt (int revoked))] sr))))"

text \<open>The library's row, locked: cancelled meanwhile is refused.\<close>

definition lock_library :: "db \<Rightarrow> organization \<Rightarrow> string + unit" where
  "lock_library db library = (if cancelled_now db (og_id library) then Inl ''library_cancelled'' else Inr ())"

definition recover_installation ::
    "enroll_env \<Rightarrow> enroll_draws \<Rightarrow> server \<Rightarrow> organization \<Rightarrow> int \<Rightarrow> actor \<Rightarrow> string + string \<times> server" where
  "recover_installation env draws sr library i actor =
     bind_result (refuse_cancelled library) (\<lambda>_.
     bind_result (lock_library (sr_db sr) library) (\<lambda>_.
       if find (\<lambda>x. in_id x = i \<and> in_organization_id x = og_id library) (db_installations (sr_db sr)) = None
       then Inl ''installation_not_found''
       else bind_result (lift_error (\<lambda>_. ''installation_not_recoverable'') (issue_recovery_token env draws sr i (og_id library)))
         (\<lambda>((raw, revoked), sr).
         Inr (raw, audit_admin ''admin_recovery_token_issued'' ''Collector recovery token issued.'' (og_slug library) actor
           [(''installation_id'', JInt i), (''token_id'', JInt (ed_token_id draws)), (''revoked_previous_count'', JInt (int revoked))] sr))))"

definition revoke_unbound_token :: "server \<Rightarrow> organization \<Rightarrow> int \<Rightarrow> actor \<Rightarrow> string + server" where
  "revoke_unbound_token sr library token_id actor =
     bind_result (refuse_cancelled library) (\<lambda>_.
     bind_result (lock_library (sr_db sr) library) (\<lambda>_.
       let db = sr_db sr;
           customer = (case organization_row db (og_id library) of None \<Rightarrow> None | Some g \<Rightarrow> og_operational_customer_id g);
           (n, tokens) = update_where (\<lambda>t. at_id t = token_id \<and> at_installation_id t = None \<and> at_is_active t \<and> Some (at_customer_id t) = customer)
             (\<lambda>t. t\<lparr>at_is_active := False\<rparr>) (db_tokens db) in
       if n = 0 then Inl ''token_not_found''
       else Inr (audit_admin ''admin_unbound_token_revoked'' ''Legacy unbound agent token revoked.'' (og_slug library) actor
              [(''token_id'', JInt token_id)] (sr\<lparr>sr_db := db\<lparr>db_tokens := tokens\<rparr>\<rparr>))))"

end
