(* ===== verification/Accounts.thy ===== *)
theory Accounts
  imports ServerTables
begin

text \<open>
  Login sessions, src/src/services/session_service.py, and accounts, src/src/services/auth_service.py:
  login with its lockout, password reset by a one-time token, password change and account creation. The
  password hash functions of werkzeug, the random tokens and row ids, the clock of the process (\<open>now\<close>, read
  once in a call) and the one of the database (\<open>stamp\<close>) are arguments; a TIMESTAMPTZ comes back aware. An
  audit row written in a transaction of its own is appended in its place in the call.
\<close>

section \<open>Sessions (session_service.py)\<close>

definition session_lifetime :: int where
  "session_lifetime = 14 * 24 * 60 * 60 * 1000000"

definition last_seen_throttle :: int where
  "last_seen_throttle = 15 * 60 * 1000000"

definition max_raw_token_length :: nat where
  "max_raw_token_length = 512"

definition create_session :: "instant \<Rightarrow> (instant \<Rightarrow> string) \<Rightarrow> string \<Rightarrow> int \<Rightarrow> server \<Rightarrow> int \<Rightarrow> (string \<times> instant) \<times> server" where
  "create_session now isoformat token new_id sr user =
     (let expires = now + session_lifetime in
      ((token, expires),
       log_auth_event ''session_created'' True (Some user) None ''Persistent session created.''
         [(''session_id'', JInt new_id), (''expires_at'', JStr (isoformat expires))]
         (sr\<lparr>sr_sessions := sr_sessions sr @ [\<lparr>se_id = new_id, se_user_id = user, se_token_hash = token_hash token,
            se_expires_at = expires, se_revoked_at = None, se_last_seen_at = Some now\<rparr>]\<rparr>)))"

definition live_session :: "instant \<Rightarrow> session \<Rightarrow> bool" where
  "live_session now s \<longleftrightarrow> se_revoked_at s = None \<and> se_expires_at s > now"

definition valid_session :: "instant \<Rightarrow> server \<Rightarrow> string \<Rightarrow> (session \<times> account) option" where
  "valid_session now sr token =
     (case find (\<lambda>s. se_token_hash s = token_hash token \<and> live_session now s) (sr_sessions sr) of
        None \<Rightarrow> None
      | Some s \<Rightarrow> (case account_row sr (se_user_id s) of None \<Rightarrow> None
          | Some u \<Rightarrow> if us_is_active u then Some (s, u) else None))"

definition touch_last_seen :: "instant \<Rightarrow> int \<Rightarrow> session list \<Rightarrow> session list" where
  "touch_last_seen now i sessions = snd (update_where
     (\<lambda>s. se_id s = i \<and> live_session now s
        \<and> (case se_last_seen_at s of None \<Rightarrow> True | Some seen \<Rightarrow> seen < now - last_seen_throttle))
     (\<lambda>s. s\<lparr>se_last_seen_at := Some now\<rparr>) sessions)"

text \<open>The id, e-mail address and name of a valid session's user.\<close>

type_synonym identity = "int \<times> string \<times> string"

definition identity_of :: "account \<Rightarrow> identity" where
  "identity_of u = (us_id u, us_email u, us_full_name u)"

definition validate_session :: "instant \<Rightarrow> server \<Rightarrow> string option \<Rightarrow> identity option \<times> server" where
  "validate_session now sr raw =
     (case raw of None \<Rightarrow> (None, sr)
      | Some token \<Rightarrow>
          if token = [] \<or> length token > max_raw_token_length then (None, sr)
          else (case valid_session now sr token of None \<Rightarrow> (None, sr)
            | Some (s, u) \<Rightarrow> (Some (identity_of u), sr\<lparr>sr_sessions := touch_last_seen now (se_id s) (sr_sessions sr)\<rparr>)))"

definition revoke_session :: "instant \<Rightarrow> server \<Rightarrow> string option \<Rightarrow> bool \<times> server" where
  "revoke_session now sr raw =
     (case raw of None \<Rightarrow> (False, sr)
      | Some token \<Rightarrow>
          if token = [] \<or> length token > max_raw_token_length then (False, sr)
          else (case find (\<lambda>s. se_token_hash s = token_hash token \<and> se_revoked_at s = None) (sr_sessions sr) of
              None \<Rightarrow> (False, sr)
            | Some s \<Rightarrow> (True, log_auth_event ''session_revoked'' True (Some (se_user_id s)) None ''Persistent session revoked.''
                [(''session_id'', JInt (se_id s))]
                (sr\<lparr>sr_sessions := snd (update_where (\<lambda>s. se_token_hash s = token_hash token \<and> se_revoked_at s = None)
                   (\<lambda>s. s\<lparr>se_revoked_at := Some now\<rparr>) (sr_sessions sr))\<rparr>))))"

definition revoke_sessions_of :: "instant \<Rightarrow> int \<Rightarrow> server \<Rightarrow> nat \<times> server" where
  "revoke_sessions_of now user sr =
     (let (n, sessions) = update_where (\<lambda>s. se_user_id s = user \<and> se_revoked_at s = None)
            (\<lambda>s. s\<lparr>se_revoked_at := Some now\<rparr>) (sr_sessions sr)
      in (n, sr\<lparr>sr_sessions := sessions\<rparr>))"

definition revoke_all_sessions_for_user :: "instant \<Rightarrow> server \<Rightarrow> int \<Rightarrow> nat \<times> server" where
  "revoke_all_sessions_for_user now sr user =
     (let (n, sr) = revoke_sessions_of now user sr in
      (n, log_auth_event ''session_revoked_all'' True (Some user) None ''All persistent sessions revoked for user.''
            [(''revoked_count'', JInt (int n))] sr))"

section \<open>Login (auth_service.py)\<close>

definition max_failed_attempts :: int where
  "max_failed_attempts = 5"

definition lockout_minutes :: int where
  "lockout_minutes = 15"

definition minute :: int where
  "minute = 60 * 1000000"

definition user_by_email :: "server \<Rightarrow> string \<Rightarrow> account option" where
  "user_by_email sr email = find (\<lambda>u. py_lower (us_email u) = py_lower (py_strip email)) (sr_accounts sr)"

definition update_account :: "int \<Rightarrow> (account \<Rightarrow> account) \<Rightarrow> server \<Rightarrow> server" where
  "update_account i f sr = sr\<lparr>sr_accounts := snd (update_where (\<lambda>u. us_id u = i) f (sr_accounts sr))\<rparr>"

definition is_user_active :: "server \<Rightarrow> int \<Rightarrow> bool" where
  "is_user_active sr i = (case account_row sr i of None \<Rightarrow> False | Some u \<Rightarrow> us_is_active u)"

definition record_failed_login :: "instant \<Rightarrow> int \<Rightarrow> server \<Rightarrow> server" where
  "record_failed_login stamp i = update_account i (\<lambda>u.
     u\<lparr>us_failed_login_attempts := us_failed_login_attempts u + 1, us_last_failed_login_at := Some stamp,
       us_locked_until := (if us_failed_login_attempts u + 1 \<ge> max_failed_attempts then Some (stamp + lockout_minutes * minute)
                           else us_locked_until u)\<rparr>)"

definition record_successful_login :: "instant \<Rightarrow> int \<Rightarrow> server \<Rightarrow> server" where
  "record_successful_login stamp i = update_account i (\<lambda>u.
     u\<lparr>us_failed_login_attempts := 0, us_locked_until := None, us_last_login_at := Some stamp\<rparr>)"

definition minutes_remaining :: "instant \<Rightarrow> instant option \<Rightarrow> int" where
  "minutes_remaining now locked_until =
     (case locked_until of None \<Rightarrow> 0
      | Some t \<Rightarrow> (let seconds = max 0 ((t - now) div 1000000) in max 1 ((seconds + 59) div 60)))"

datatype auth_reply = AuthOk identity | AuthRefused string | AuthLocked int

definition locked :: "instant \<Rightarrow> account \<Rightarrow> bool" where
  "locked now u \<longleftrightarrow> (case us_locked_until u of None \<Rightarrow> False | Some t \<Rightarrow> t > now)"

definition account_event :: "string \<Rightarrow> bool \<Rightarrow> account \<Rightarrow> string \<Rightarrow> (string \<times> json) list \<Rightarrow> server \<Rightarrow> server" where
  "account_event event_type is_success u = log_auth_event event_type is_success (Some (us_id u)) (Some (us_email u))"

text \<open>What a locked account answers, and its audit row.\<close>

definition refuse_locked :: "instant \<Rightarrow> (int \<Rightarrow> string) \<Rightarrow> account \<Rightarrow> instant option \<Rightarrow> server \<Rightarrow> auth_reply \<times> server" where
  "refuse_locked now message u locked_until sr =
     (let n = minutes_remaining now locked_until in
      (AuthLocked n, account_event ''login_locked'' False u (message n) [(''minutes_remaining'', JInt n)] sr))"

definition authenticate_user ::
    "(string \<Rightarrow> string \<Rightarrow> bool) \<Rightarrow> instant \<Rightarrow> instant \<Rightarrow> server \<Rightarrow> string \<Rightarrow> string \<Rightarrow> auth_reply \<times> server" where
  "authenticate_user check_hash now stamp sr email password =
     (let email = py_lower (py_strip email) in
      case user_by_email sr email of
        None \<Rightarrow> (AuthRefused ''invalid_credentials'', log_auth_event ''login_failed'' False None (Some email)
          ''Unknown email or invalid password.'' [(''reason'', JStr ''user_not_found'')] sr)
      | Some u \<Rightarrow>
          if \<not> us_is_active u
          then (AuthRefused ''inactive'', account_event ''login_failed'' False u ''Inactive account.'' [(''reason'', JStr ''inactive'')] sr)
          else if locked now u
          then refuse_locked now (\<lambda>n. ''Login blocked during lockout. '' @ show_nat (nat n) @ '' minute(s) remaining.'') u (us_locked_until u) sr
          else (case us_password_hash u of
              None \<Rightarrow> (AuthRefused ''invalid_credentials'', account_event ''login_failed'' False u ''Missing password hash.''
                [(''reason'', JStr ''missing_password_hash'')] sr)
            | Some h \<Rightarrow>
                if h = [] then (AuthRefused ''invalid_credentials'', account_event ''login_failed'' False u ''Missing password hash.''
                  [(''reason'', JStr ''missing_password_hash'')] sr)
                else if \<not> check_hash h password
                then (let sr = record_failed_login stamp (us_id u) sr in
                  case user_by_email sr email of
                    Some u' \<Rightarrow>
                      if locked now u'
                      then refuse_locked now (\<lambda>n. ''Account locked after failed login attempts. '' @ show_nat (nat n)
                             @ '' minute(s) remaining.'') u (us_locked_until u') sr
                      else (AuthRefused ''invalid_credentials'', account_event ''login_failed'' False u ''Invalid password.''
                             [(''reason'', JStr ''bad_password'')] sr)
                  | None \<Rightarrow> (AuthRefused ''invalid_credentials'', account_event ''login_failed'' False u ''Invalid password.''
                             [(''reason'', JStr ''bad_password'')] sr))
                else (AuthOk (identity_of u), account_event ''login_success'' True u ''User logged in successfully.'' []
                       (record_successful_login stamp (us_id u) sr))))"

section \<open>Password reset\<close>

definition password_reset_minutes :: int where
  "password_reset_minutes = 30"

text \<open>The token handed to the mail service, if any, and to whom; the caller is told the same either way.\<close>

definition use_resets_of :: "instant \<Rightarrow> int \<Rightarrow> reset_token list \<Rightarrow> reset_token list" where
  "use_resets_of stamp user tokens =
     snd (update_where (\<lambda>t. rt_user_id t = user \<and> rt_used_at t = None) (\<lambda>t. t\<lparr>rt_used_at := Some stamp\<rparr>) tokens)"

definition request_password_reset ::
    "instant \<Rightarrow> instant \<Rightarrow> string \<Rightarrow> server \<Rightarrow> string option \<Rightarrow> (string \<times> string) option \<times> server" where
  "request_password_reset now stamp token sr email =
     (let email = py_lower (py_strip (case email of None \<Rightarrow> [] | Some e \<Rightarrow> e));
          not_matched = (None, log_auth_event ''password_reset_requested'' True None (Some email) ''Password reset request processed.''
            [(''account_matched'', JBool False)] sr) in
      case user_by_email sr email of
        None \<Rightarrow> not_matched
      | Some u \<Rightarrow>
          if \<not> us_is_active u then not_matched
          else (Some (token, us_email u), account_event ''password_reset_requested'' True u ''Password reset token created.''
                  [(''expires_in_minutes'', JInt password_reset_minutes)]
                  (sr\<lparr>sr_resets := use_resets_of stamp (us_id u) (sr_resets sr) @ [\<lparr>rt_user_id = us_id u,
                     rt_token_hash = token_hash token, rt_expires_at = now + password_reset_minutes * minute, rt_used_at = None\<rparr>]\<rparr>)))"

definition live_reset :: "instant \<Rightarrow> reset_token \<Rightarrow> bool" where
  "live_reset stamp t \<longleftrightarrow> rt_used_at t = None \<and> rt_expires_at t > stamp"

definition set_password :: "instant \<Rightarrow> string \<Rightarrow> int \<Rightarrow> server \<Rightarrow> server" where
  "set_password stamp new_hash i = update_account i (\<lambda>u.
     u\<lparr>us_password_hash := Some new_hash, us_failed_login_attempts := 0, us_locked_until := None,
       us_last_password_changed_at := Some stamp\<rparr>)"

definition check_existing :: "(string \<Rightarrow> string \<Rightarrow> bool) \<Rightarrow> string option \<Rightarrow> string \<Rightarrow> bool" where
  "check_existing check_hash stored password = (case stored of None \<Rightarrow> False | Some h \<Rightarrow> h \<noteq> [] \<and> check_hash h password)"

definition text_of :: "string option \<Rightarrow> string" where
  "text_of s = (case s of None \<Rightarrow> [] | Some t \<Rightarrow> t)"

text \<open>The token's row, joined with its account.\<close>

definition reset_row :: "instant \<Rightarrow> server \<Rightarrow> string \<Rightarrow> account option" where
  "reset_row stamp sr token =
     (case find (\<lambda>t. rt_token_hash t = token_hash token \<and> live_reset stamp t \<and> account_row sr (rt_user_id t) \<noteq> None) (sr_resets sr) of
        None \<Rightarrow> None | Some t \<Rightarrow> account_row sr (rt_user_id t))"

text \<open>\<open>new_hash\<close> is what \<open>generate_password_hash\<close> returns for the new password. The code alone is the reply.\<close>

definition apply_reset :: "string \<Rightarrow> instant \<Rightarrow> instant \<Rightarrow> account \<Rightarrow> server \<Rightarrow> server" where
  "apply_reset hash now stamp u sr =
     (let sr = set_password stamp hash (us_id u) sr;
          sr = sr\<lparr>sr_resets := use_resets_of stamp (us_id u) (sr_resets sr)\<rparr>;
          (n, sr) = revoke_sessions_of now (us_id u) sr
      in account_event ''password_reset_success'' True u ''Password reset completed successfully.''
           [(''revoked_session_count'', JInt (int n))] sr)"

definition reset_password_with_token ::
    "(string \<Rightarrow> string \<Rightarrow> bool) \<Rightarrow> (string \<Rightarrow> string) \<Rightarrow> instant \<Rightarrow> instant \<Rightarrow> server \<Rightarrow> string option \<Rightarrow> string option \<Rightarrow> string option
     \<Rightarrow> string \<times> server" where
  "reset_password_with_token check_hash new_hash now stamp sr raw new_password confirm =
     (let token = py_strip (text_of raw); password = text_of new_password in
      if token = [] then (''invalid_reset_token'', sr)
      else if length password < 8 then (''password_too_short'', sr)
      else if password \<noteq> text_of confirm then (''password_mismatch'', sr)
      else (case reset_row stamp sr token of
          None \<Rightarrow> (''invalid_reset_token'', sr)
        | Some u \<Rightarrow>
            if \<not> us_is_active u then (''invalid_reset_token'', sr)
            else if check_existing check_hash (us_password_hash u) password then (''same_password'', sr)
            else (''password_reset'', apply_reset (new_hash password) now stamp u sr)))"

section \<open>Password change\<close>

definition refuse_change :: "account \<Rightarrow> string \<Rightarrow> string \<Rightarrow> server \<Rightarrow> string \<times> server" where
  "refuse_change u code message sr =
     (code, account_event ''password_change_failed'' False u message [(''reason'', JStr code)] sr)"

definition change_password ::
    "(string \<Rightarrow> string \<Rightarrow> bool) \<Rightarrow> (string \<Rightarrow> string) \<Rightarrow> instant \<Rightarrow> instant \<Rightarrow> server \<Rightarrow> int \<Rightarrow> string \<Rightarrow> string option \<Rightarrow> string option
     \<Rightarrow> string \<times> server" where
  "change_password check_hash new_hash now stamp sr user current new_password confirm =
     (case account_row sr user of
        None \<Rightarrow> (''user_not_found'', log_auth_event ''password_change_failed'' False (Some user) None ''User not found.''
          [(''reason'', JStr ''user_not_found'')] sr)
      | Some u \<Rightarrow>
          (let password = text_of new_password in
           if \<not> us_is_active u then refuse_change u ''inactive'' ''Inactive account.'' sr
           else if \<not> check_existing check_hash (us_password_hash u) current
           then refuse_change u ''invalid_current_password'' ''Current password was incorrect.'' sr
           else if length password < 8 then refuse_change u ''password_too_short'' ''New password too short.'' sr
           else if password \<noteq> text_of confirm then refuse_change u ''password_mismatch'' ''Password confirmation mismatch.'' sr
           else if check_existing check_hash (us_password_hash u) password
           then refuse_change u ''same_password'' ''New password matched current password.'' sr
           else (let sr = set_password stamp (new_hash password) user sr;
                     (n, sr) = revoke_sessions_of now user sr
                 in (''password_changed'', account_event ''password_change_success'' True u ''Password changed successfully.''
                       [(''revoked_session_count'', JInt (int n))] sr))))"

section \<open>Creating an account and its profile\<close>

definition new_account :: "int \<Rightarrow> string \<Rightarrow> string \<Rightarrow> string \<Rightarrow> account" where
  "new_account i email full_name hash = \<lparr>us_id = i, us_email = email, us_full_name = full_name, us_password_hash = Some hash,
     us_is_active = True, us_is_platform_admin = False, us_failed_login_attempts = 0, us_locked_until = None,
     us_last_login_at = None, us_last_failed_login_at = None, us_last_password_changed_at = None\<rparr>"

text \<open>\<open>ON CONFLICT DO NOTHING\<close>: an e-mail address, whatever its case, has one account.\<close>

definition create_user_with_connection ::
    "(string \<Rightarrow> string) \<Rightarrow> int \<Rightarrow> server \<Rightarrow> string \<Rightarrow> string \<Rightarrow> string \<Rightarrow> account option \<times> server" where
  "create_user_with_connection new_hash new_id sr email password full_name =
     (let address = py_lower (py_strip email) in
      if list_ex (\<lambda>u. py_lower (us_email u) = address) (sr_accounts sr) then (None, sr)
      else (let u = new_account new_id address (py_strip full_name) (new_hash password) in
            (Some u, account_event ''user_create_success'' True u ''User created successfully.'' []
               (sr\<lparr>sr_accounts := sr_accounts sr @ [u]\<rparr>))))"

definition create_user :: "(string \<Rightarrow> string) \<Rightarrow> int \<Rightarrow> server \<Rightarrow> string \<Rightarrow> string \<Rightarrow> string \<Rightarrow> (string + account) \<times> server" where
  "create_user new_hash new_id sr email password full_name =
     (let address = py_lower (py_strip email) in
      if user_by_email sr address \<noteq> None
      then (Inl ''user_exists'', log_auth_event ''user_create_failed'' False None (Some address) ''User already exists.''
              [(''reason'', JStr ''duplicate_email'')] sr)
      else (case create_user_with_connection new_hash new_id sr address password full_name of
              (None, sr) \<Rightarrow> (Inl ''user_exists'', sr) | (Some u, sr) \<Rightarrow> (Inr u, sr)))"

definition profile_name_max_length :: nat where
  "profile_name_max_length = 120"

definition update_profile_name :: "(char \<Rightarrow> bool) \<Rightarrow> server \<Rightarrow> int \<Rightarrow> string option \<Rightarrow> string \<times> server" where
  "update_profile_name printable sr user full_name =
     (let name = py_strip (text_of full_name) in
      if name = [] then (''name_required'', sr)
      else if length name > profile_name_max_length then (''name_too_long'', sr)
      else if list_ex (\<lambda>c. \<not> printable c) name then (''name_invalid'', sr)
      else case account_row sr user of
          None \<Rightarrow> (''user_not_found'', sr)
        | Some u \<Rightarrow>
            if \<not> us_is_active u then (''user_not_found'', sr)
            else if us_full_name u = name then (''profile_unchanged'', sr)
            else (''profile_updated'', account_event ''profile_name_updated'' True u ''Profile name updated.'' []
                    (update_account user (\<lambda>u. if us_is_active u \<and> us_full_name u \<noteq> name then u\<lparr>us_full_name := name\<rparr> else u) sr)))"

section \<open>Lemmas\<close>

definition accounts_wf :: "server \<Rightarrow> bool" where
  "accounts_wf sr \<longleftrightarrow> distinct (List.map us_id (sr_accounts sr)) \<and> distinct (List.map (\<lambda>u. py_lower (us_email u)) (sr_accounts sr))"

lemma is_space_lower [simp]: "is_space (lower_char c) = is_space c"
  by (auto simp: lower_char_def is_space_def is_upper_def)

lemma lower_char_idem [simp]: "lower_char (lower_char c) = lower_char c"
  by (auto simp: lower_char_def is_upper_def)

lemma dropWhile_lower: "dropWhile is_space (List.map lower_char s) = List.map lower_char (dropWhile is_space s)"
  by (induction s) auto

lemma py_strip_lower: "py_strip (py_lower s) = py_lower (py_strip s)"
  by (simp add: py_strip_def py_lower_def dropWhile_lower rev_map)

lemma py_lower_idem [simp]: "py_lower (py_lower s) = py_lower s"
  by (simp add: py_lower_def)

lemma normal_email [simp]: "user_by_email sr (py_lower (py_strip email)) = user_by_email sr email"
  by (simp add: user_by_email_def py_strip_lower)

lemma account_event_frame [simp]:
  "sr_db (account_event a b c d e sr) = sr_db sr" "sr_codes (account_event a b c d e sr) = sr_codes sr"
  "sr_accounts (account_event a b c d e sr) = sr_accounts sr" "sr_sessions (account_event a b c d e sr) = sr_sessions sr"
  "sr_resets (account_event a b c d e sr) = sr_resets sr" "sr_memberships (account_event a b c d e sr) = sr_memberships sr"
  "sr_lifecycle (account_event a b c d e sr) = sr_lifecycle sr"
  by (simp_all add: account_event_def)

lemma user_by_email_cong: "sr_accounts sr' = sr_accounts sr \<Longrightarrow> user_by_email sr' email = user_by_email sr email"
  by (simp add: user_by_email_def)

lemma update_account_frame [simp]:
  "sr_db (update_account i f sr) = sr_db sr" "sr_codes (update_account i f sr) = sr_codes sr"
  "sr_sessions (update_account i f sr) = sr_sessions sr" "sr_resets (update_account i f sr) = sr_resets sr"
  "sr_memberships (update_account i f sr) = sr_memberships sr" "sr_lifecycle (update_account i f sr) = sr_lifecycle sr"
  "sr_accounts (update_account i f sr) = List.map (\<lambda>u. if us_id u = i then f u else u) (sr_accounts sr)"
  by (simp_all add: update_account_def update_where_def)

lemma user_by_email_update:
  assumes "\<And>u. us_id (f u) = us_id u \<and> us_email (f u) = us_email u"
  shows "user_by_email (update_account i f sr) email = map_option (\<lambda>u. if us_id u = i then f u else u) (user_by_email sr email)"
  unfolding user_by_email_def update_account_frame by (rule find_map_same) (use assms in simp)

lemma account_row_update:
  assumes "\<And>u. us_id (f u) = us_id u"
  shows "account_row (update_account i f sr) j = map_option (\<lambda>u. if us_id u = i then f u else u) (account_row sr j)"
  unfolding account_row_def update_account_frame by (rule find_map_same) (use assms in simp)

definition failed :: "instant \<Rightarrow> account \<Rightarrow> account" where
  "failed stamp u = u\<lparr>us_failed_login_attempts := us_failed_login_attempts u + 1, us_last_failed_login_at := Some stamp,
     us_locked_until := (if us_failed_login_attempts u + 1 \<ge> max_failed_attempts then Some (stamp + lockout_minutes * minute)
                         else us_locked_until u)\<rparr>"

text \<open>Whose password it is: an active account with a stored hash.\<close>

definition guessable :: "server \<Rightarrow> string \<Rightarrow> string \<Rightarrow> account \<Rightarrow> bool" where
  "guessable sr email h u \<longleftrightarrow> user_by_email sr email = Some u \<and> us_is_active u \<and> us_password_hash u = Some h \<and> h \<noteq> []"

lemma wrong_guess:
  assumes "guessable sr email h u" "\<not> locked now u" "\<not> check_hash h password"
  shows "sr_accounts (snd (authenticate_user check_hash now stamp sr email password))
      = List.map (\<lambda>v. if us_id v = us_id u then failed stamp v else v) (sr_accounts sr)"
    and "guessable (snd (authenticate_user check_hash now stamp sr email password)) email h (failed stamp u)"
proof -
  let ?sr = "record_failed_login stamp (us_id u) sr"
  have f: "?sr = update_account (us_id u) (failed stamp) sr" by (simp add: record_failed_login_def failed_def [abs_def])
  have acc: "sr_accounts (snd (authenticate_user check_hash now stamp sr email password)) = sr_accounts ?sr"
    using assms by (simp add: authenticate_user_def guessable_def Let_def refuse_locked_def split: option.split)
  then show "sr_accounts (snd (authenticate_user check_hash now stamp sr email password))
      = List.map (\<lambda>v. if us_id v = us_id u then failed stamp v else v) (sr_accounts sr)" by (simp add: f)
  have "user_by_email (snd (authenticate_user check_hash now stamp sr email password)) email = user_by_email ?sr email"
    by (rule user_by_email_cong) (rule acc)
  also have "\<dots> = Some (failed stamp u)"
    using assms(1) unfolding f by (subst user_by_email_update) (simp_all add: failed_def guessable_def)
  finally show "guessable (snd (authenticate_user check_hash now stamp sr email password)) email h (failed stamp u)"
    using assms(1) by (simp add: guessable_def failed_def)
qed

lemma locked_refused:
  assumes "user_by_email sr email = Some u" "us_is_active u" "locked now u"
  shows "fst (authenticate_user check_hash now stamp sr email password) = AuthLocked (minutes_remaining now (us_locked_until u))"
    "sr_accounts (snd (authenticate_user check_hash now stamp sr email password)) = sr_accounts sr"
  using assms by (simp_all add: authenticate_user_def Let_def refuse_locked_def)

text \<open>A series of login attempts for one address: clock readings and passwords.\<close>

fun attempts :: "(string \<Rightarrow> string \<Rightarrow> bool) \<Rightarrow> string \<Rightarrow> (instant \<times> instant \<times> string) list \<Rightarrow> server \<Rightarrow> server" where
  "attempts check_hash email [] sr = sr"
| "attempts check_hash email ((now, stamp, password) # rest) sr =
     attempts check_hash email rest (snd (authenticate_user check_hash now stamp sr email password))"

lemma wrong_guesses_lock:
  assumes "guessable sr email h u" "us_locked_until u = None" "us_failed_login_attempts u < max_failed_attempts"
    "int (length gs) = max_failed_attempts - us_failed_login_attempts u" "\<forall>(now, stamp, p) \<in> set gs. \<not> check_hash h p"
  shows "\<exists>u'. guessable (attempts check_hash email gs sr) email h u'
    \<and> us_locked_until u' = Some (fst (snd (List.last gs)) + lockout_minutes * minute) \<and> us_id u' = us_id u
    \<and> List.map us_id (sr_accounts (attempts check_hash email gs sr)) = List.map us_id (sr_accounts sr)
    \<and> (\<forall>v \<in> set (sr_accounts sr). us_id v \<noteq> us_id u \<longrightarrow> v \<in> set (sr_accounts (attempts check_hash email gs sr)))"
  using assms
proof (induction gs arbitrary: sr u)
  case Nil
  then show ?case by simp
next
  case (Cons g gs)
  obtain now stamp p where g: "g = (now, stamp, p)" by (cases g)
  let ?sr = "snd (authenticate_user check_hash now stamp sr email p)"
  have nl: "\<not> locked now u" using Cons.prems(2) by (simp add: locked_def)
  have w: "\<not> check_hash h p" using Cons.prems(5) g by simp
  note step = wrong_guess [where stamp = stamp and check_hash = check_hash, OF Cons.prems(1) nl w]
  have ids: "List.map us_id (sr_accounts ?sr) = List.map us_id (sr_accounts sr)" by (simp add: step(1) failed_def)
  have keep: "v \<in> set (sr_accounts sr) \<Longrightarrow> us_id v \<noteq> us_id u \<Longrightarrow> v \<in> set (sr_accounts ?sr)" for v by (force simp: step(1))
  have fi: "us_id (failed stamp u) = us_id u" "us_failed_login_attempts (failed stamp u) = us_failed_login_attempts u + 1"
    by (simp_all add: failed_def)
  show ?case
  proof (cases gs)
    case Nil
    then have "us_failed_login_attempts u + 1 \<ge> max_failed_attempts" using Cons.prems(4) by simp
    then have "us_locked_until (failed stamp u) = Some (stamp + lockout_minutes * minute)" by (simp add: failed_def)
    then show ?thesis using step(2) ids keep fi Nil by (intro exI [of _ "failed stamp u"]) (simp add: g)
  next
    case (Cons g' gs')
    then have lt: "us_failed_login_attempts (failed stamp u) < max_failed_attempts"
      and le: "int (length gs) = max_failed_attempts - us_failed_login_attempts (failed stamp u)" using Cons.prems(4) fi by simp_all
    have none: "us_locked_until (failed stamp u) = None" using lt Cons.prems(2) by (simp add: failed_def)
    obtain u' where u': "guessable (attempts check_hash email gs ?sr) email h u'"
      "us_locked_until u' = Some (fst (snd (List.last gs)) + lockout_minutes * minute)" "us_id u' = us_id (failed stamp u)"
      "List.map us_id (sr_accounts (attempts check_hash email gs ?sr)) = List.map us_id (sr_accounts ?sr)"
      "\<forall>v \<in> set (sr_accounts ?sr). us_id v \<noteq> us_id (failed stamp u) \<longrightarrow> v \<in> set (sr_accounts (attempts check_hash email gs ?sr))"
      using Cons.IH [OF step(2) none lt le] Cons.prems(5) g by auto
    show ?thesis
      by (rule exI [of _ u']) (use u' ids keep fi in \<open>simp add: g Cons\<close>)
  qed
qed

section \<open>The properties of accounts\<close>

lemma minutes_remaining_bounds: "now < t \<Longrightarrow> t \<le> now + lockout_minutes * minute \<Longrightarrow>
    1 \<le> minutes_remaining now (Some t) \<and> minutes_remaining now (Some t) \<le> lockout_minutes"
  by (simp add: minutes_remaining_def Let_def lockout_minutes_def minute_def)

text \<open>C18. Guessing is cut off: the fifth wrong password in a row locks an account for fifteen minutes, in which every attempt is
  refused as locked, the right password included, announces between one and fifteen minutes, and changes no account; no other account
  is changed by the guesses either.\<close>

theorem login_lockout:
  assumes "guessable sr email h u" "us_locked_until u = None" "us_failed_login_attempts u < max_failed_attempts"
    "int (length gs) = max_failed_attempts - us_failed_login_attempts u" "\<forall>(now, stamp, p) \<in> set gs. \<not> check_hash h p"
  shows "let sr' = attempts check_hash email gs sr; until = fst (snd (List.last gs)) + lockout_minutes * minute in
    (\<forall>v \<in> set (sr_accounts sr). us_id v \<noteq> us_id u \<longrightarrow> v \<in> set (sr_accounts sr'))
    \<and> (\<forall>now stamp password. until - lockout_minutes * minute \<le> now \<longrightarrow> now < until \<longrightarrow>
        (\<exists>n. fst (authenticate_user check_hash now stamp sr' email password) = AuthLocked n \<and> 1 \<le> n \<and> n \<le> lockout_minutes)
        \<and> sr_accounts (snd (authenticate_user check_hash now stamp sr' email password)) = sr_accounts sr')"
proof -
  let ?sr = "attempts check_hash email gs sr"
  obtain u' where u': "guessable ?sr email h u'" "us_locked_until u' = Some (fst (snd (List.last gs)) + lockout_minutes * minute)"
    "\<forall>v \<in> set (sr_accounts sr). us_id v \<noteq> us_id u \<longrightarrow> v \<in> set (sr_accounts ?sr)"
    using wrong_guesses_lock [where check_hash = check_hash, OF assms] by blast
  have "(\<exists>n. fst (authenticate_user check_hash now stamp ?sr email password) = AuthLocked n \<and> 1 \<le> n \<and> n \<le> lockout_minutes)
        \<and> sr_accounts (snd (authenticate_user check_hash now stamp ?sr email password)) = sr_accounts ?sr"
    if "fst (snd (List.last gs)) \<le> now" "now < fst (snd (List.last gs)) + lockout_minutes * minute" for now stamp password
  proof -
    have l: "locked now u'" using that(2) by (simp add: locked_def u'(2))
    have g: "user_by_email ?sr email = Some u'" "us_is_active u'" using u'(1) by (simp_all add: guessable_def)
    note r = locked_refused [OF g l, of check_hash stamp password]
    show ?thesis using r minutes_remaining_bounds [OF that(2)] that(1) by (simp add: u'(2))
  qed
  then show ?thesis using u'(3) by (simp add: Let_def)
qed

definition sample_account :: account where
  "sample_account = (new_account 4 ''ann@lib.org'' ''Ann'' ''h'')\<lparr>us_failed_login_attempts := 3\<rparr>"

definition account_server :: server where
  "account_server = \<lparr>sr_db = sample_db, sr_codes = [], sr_customers = [], sr_organization_settings = [], sr_branch_settings = [],
     sr_accounts = [sample_account], sr_sessions = [\<lparr>se_id = 1, se_user_id = 4, se_token_hash = ''s'', se_expires_at = 10 ^ 15,
        se_revoked_at = None, se_last_seen_at = None\<rparr>],
     sr_resets = [\<lparr>rt_user_id = 4, rt_token_hash = token_hash ''reset'', rt_expires_at = 10 ^ 15, rt_used_at = None\<rparr>],
     sr_memberships = [], sr_audit = [], sr_lifecycle = []\<rparr>"

theorem login_lockout_witness:
  "\<exists>n. fst (authenticate_user (\<lambda>h p. p = ''right'') 50 50
        (attempts (\<lambda>h p. p = ''right'') ''Ann@lib.org'' [(10, 10, ''a''), (20, 20, ''b'')] account_server) ''Ann@lib.org'' ''right'') = AuthLocked n"
proof -
  have u: "user_by_email account_server ''Ann@lib.org'' = Some sample_account"
  proof -
    have "py_lower (py_strip ''Ann@lib.org'') = ''ann@lib.org''" "py_lower ''ann@lib.org'' = ''ann@lib.org''" by code_simp+
    then show ?thesis by (simp add: user_by_email_def account_server_def sample_account_def new_account_def)
  qed
  have "guessable account_server ''Ann@lib.org'' ''h'' sample_account"
    by (simp add: guessable_def u) (simp add: sample_account_def new_account_def)
  moreover have "us_locked_until sample_account = None" "us_failed_login_attempts sample_account = 3"
    by (simp_all add: sample_account_def new_account_def)
  ultimately show ?thesis
    using login_lockout [of account_server "''Ann@lib.org''" "''h''" sample_account "[(10, 10, ''a''), (20, 20, ''b'')]" "\<lambda>h p. p = ''right''",
      unfolded Let_def, THEN conjunct2, THEN spec, of 50]
    by (simp add: max_failed_attempts_def lockout_minutes_def minute_def) blast
qed

definition unused_reset :: "server \<Rightarrow> string \<Rightarrow> bool" where
  "unused_reset sr token \<longleftrightarrow> (\<exists>t \<in> set (sr_resets sr). rt_token_hash t = token_hash token \<and> rt_used_at t = None)"

lemma reset_row_Some: "reset_row stamp sr token = Some u \<Longrightarrow> \<exists>t \<in> set (sr_resets sr). rt_token_hash t = token_hash token
    \<and> live_reset stamp t \<and> account_row sr (rt_user_id t) = Some u"
  by (auto simp: reset_row_def dest!: find_SomeD split: option.splits)

lemma apply_reset_effect [simp]:
  "sr_accounts (apply_reset hash now stamp u sr) = sr_accounts (set_password stamp hash (us_id u) sr)"
  "sr_resets (apply_reset hash now stamp u sr) = use_resets_of stamp (us_id u) (sr_resets sr)"
  "sr_sessions (apply_reset hash now stamp u sr) = sr_sessions (snd (revoke_sessions_of now (us_id u) sr))"
  "sr_db (apply_reset hash now stamp u sr) = sr_db sr" "sr_codes (apply_reset hash now stamp u sr) = sr_codes sr"
  "sr_memberships (apply_reset hash now stamp u sr) = sr_memberships sr"
  by (simp_all add: apply_reset_def revoke_sessions_of_def update_where_def set_password_def Let_def)

lemma reset_Success:
  assumes "reset_password_with_token check_hash new_hash now stamp sr raw new_password confirm = (code, sr')" "code = ''password_reset''"
  obtains t u where "t \<in> set (sr_resets sr)" "rt_token_hash t = token_hash (py_strip (text_of raw))" "live_reset stamp t"
    "account_row sr (rt_user_id t) = Some u" "us_is_active u" "\<not> check_existing check_hash (us_password_hash u) (text_of new_password)"
    "sr' = apply_reset (new_hash (text_of new_password)) now stamp u sr"
proof -
  from assms obtain u where u: "reset_row stamp sr (py_strip (text_of raw)) = Some u" "us_is_active u"
    "\<not> check_existing check_hash (us_password_hash u) (text_of new_password)" "sr' = apply_reset (new_hash (text_of new_password)) now stamp u sr"
    by (auto simp: reset_password_with_token_def Let_def split: if_splits option.splits)
  from reset_row_Some [OF u(1)] u that show thesis by blast
qed

lemma use_resets_used: "t \<in> set (use_resets_of stamp user ts) \<Longrightarrow> rt_user_id t = user \<Longrightarrow> rt_used_at t \<noteq> None"
proof -
  assume t: "t \<in> set (use_resets_of stamp user ts)" "rt_user_id t = user"
  then obtain t0 where "t = (if rt_user_id t0 = user \<and> rt_used_at t0 = None then t0\<lparr>rt_used_at := Some stamp\<rparr> else t0)"
    by (auto simp only: use_resets_of_def update_where_snd set_map image_iff)
  with t(2) show ?thesis by (cases "rt_user_id t0 = user \<and> rt_used_at t0 = None") auto
qed

lemma revoked_sessions: "s \<in> set (sr_sessions (snd (revoke_sessions_of now user sr))) \<Longrightarrow> se_user_id s = user \<Longrightarrow> se_revoked_at s \<noteq> None"
proof -
  assume s: "s \<in> set (sr_sessions (snd (revoke_sessions_of now user sr)))" "se_user_id s = user"
  then have "s \<in> set (List.map (\<lambda>r. if se_user_id r = user \<and> se_revoked_at r = None then r\<lparr>se_revoked_at := Some now\<rparr> else r) (sr_sessions sr))"
    by (simp add: revoke_sessions_of_def update_where_def)
  then obtain r where "s = (if se_user_id r = user \<and> se_revoked_at r = None then r\<lparr>se_revoked_at := Some now\<rparr> else r)"
    by (auto simp only: set_map image_iff)
  with s(2) show ?thesis by (cases "se_user_id r = user \<and> se_revoked_at r = None") auto
qed

lemma valid_session_live:
  assumes "validate_session now sr raw = (Some (i, email, name), sr')"
  shows "\<exists>s u. s \<in> set (sr_sessions sr) \<and> live_session now s \<and> se_user_id s = i \<and> account_row sr i = Some u \<and> us_is_active u
    \<and> raw \<noteq> None \<and> se_token_hash s = token_hash (the raw)"
proof -
  from assms obtain token s u where v: "raw = Some token" "valid_session now sr token = Some (s, u)" "us_id u = i"
    by (auto simp: validate_session_def identity_of_def split: option.splits if_splits)
  then have s: "find (\<lambda>s. se_token_hash s = token_hash token \<and> live_session now s) (sr_sessions sr) = Some s"
    "account_row sr (se_user_id s) = Some u" "us_is_active u" by (auto simp: valid_session_def split: option.splits if_splits)
  then have "us_id u = se_user_id s" by (auto simp: account_row_def dest: find_SomeD)
  with v s find_SomeD [OF s(1)] show ?thesis by auto
qed

lemma no_session_left:
  assumes "\<forall>s \<in> set (sr_sessions sr). se_user_id s = user \<longrightarrow> se_revoked_at s \<noteq> None"
  shows "fst (validate_session now sr raw) = Some (i, email, name) \<Longrightarrow> i \<noteq> user"
  using valid_session_live [of now sr raw i email name "snd (validate_session now sr raw)"] assms
  by (auto simp: prod_eq_iff live_session_def)

text \<open>C19. A password reset is bought with a live token once: it succeeds only with an unused, unexpired token of an active account and a
  different password; then the account has the new password and is unlocked, every token handed to its user is used up, every login
  session of the user is dead, and no other account, token or session is changed.\<close>

theorem password_reset_effect:
  assumes "reset_password_with_token check_hash new_hash now stamp sr raw new_password confirm = (''password_reset'', sr')"
    and "distinct (List.map us_id (sr_accounts sr))"
  shows "\<exists>u t. t \<in> set (sr_resets sr) \<and> rt_token_hash t = token_hash (py_strip (text_of raw)) \<and> live_reset stamp t
    \<and> account_row sr (rt_user_id t) = Some u \<and> us_is_active u \<and> \<not> check_existing check_hash (us_password_hash u) (text_of new_password)
    \<and> account_row sr' (us_id u) = Some (u\<lparr>us_password_hash := Some (new_hash (text_of new_password)), us_failed_login_attempts := 0,
         us_locked_until := None, us_last_password_changed_at := Some stamp\<rparr>)
    \<and> (\<forall>i. i \<noteq> us_id u \<longrightarrow> account_row sr' i = account_row sr i)
    \<and> (\<forall>t \<in> set (sr_resets sr'). rt_user_id t = us_id u \<longrightarrow> rt_used_at t \<noteq> None)
    \<and> filter (\<lambda>t. rt_user_id t \<noteq> us_id u) (sr_resets sr') = filter (\<lambda>t. rt_user_id t \<noteq> us_id u) (sr_resets sr)
    \<and> (\<forall>later token i email name. fst (validate_session later sr' token) = Some (i, email, name) \<longrightarrow> i \<noteq> us_id u)
    \<and> filter (\<lambda>s. se_user_id s \<noteq> us_id u) (sr_sessions sr') = filter (\<lambda>s. se_user_id s \<noteq> us_id u) (sr_sessions sr)
    \<and> sr_db sr' = sr_db sr \<and> sr_memberships sr' = sr_memberships sr"
proof -
  obtain t u where t: "t \<in> set (sr_resets sr)" "rt_token_hash t = token_hash (py_strip (text_of raw))" "live_reset stamp t"
    "account_row sr (rt_user_id t) = Some u" "us_is_active u" "\<not> check_existing check_hash (us_password_hash u) (text_of new_password)"
    and sr': "sr' = apply_reset (new_hash (text_of new_password)) now stamp u sr"
    by (rule reset_Success [OF assms(1) refl])
  note f = apply_reset_effect [of "new_hash (text_of new_password)" now stamp u sr, folded sr']
  have row: "account_row sr' i = map_option (\<lambda>v. if us_id v = us_id u then v\<lparr>us_password_hash := Some (new_hash (text_of new_password)),
      us_failed_login_attempts := 0, us_locked_until := None, us_last_password_changed_at := Some stamp\<rparr> else v) (account_row sr i)" for i
  proof -
    have "account_row sr' i = account_row (set_password stamp (new_hash (text_of new_password)) (us_id u) sr) i"
      by (simp add: account_row_def f(1))
    then show ?thesis unfolding set_password_def by (subst (asm) account_row_update) simp_all
  qed
  have "us_id u = rt_user_id t" using find_SomeD [OF t(4) [unfolded account_row_def]] by simp
  then have own: "account_row sr (us_id u) = Some u" using t(4) by simp
  have other: "account_row sr' i = account_row sr i" if "i \<noteq> us_id u" for i
    using row [of i] that by (cases "account_row sr i") (auto simp: account_row_def dest: find_SomeD)
  have resets: "filter (\<lambda>t. rt_user_id t \<noteq> us_id u) (use_resets_of stamp (us_id u) ts) = filter (\<lambda>t. rt_user_id t \<noteq> us_id u) ts" for ts
    by (induction ts) (auto simp: use_resets_of_def update_where_def)
  have sessions: "filter (\<lambda>s. se_user_id s \<noteq> us_id u) (List.map (\<lambda>s. if se_user_id s = us_id u \<and> se_revoked_at s = None
      then s\<lparr>se_revoked_at := Some now\<rparr> else s) ss) = filter (\<lambda>s. se_user_id s \<noteq> us_id u) ss" for ss by (induction ss) auto
  have dead: "\<forall>s \<in> set (sr_sessions sr'). se_user_id s = us_id u \<longrightarrow> se_revoked_at s \<noteq> None" using revoked_sessions by (simp add: f(3))
  show ?thesis
    apply (rule exI [of _ u], rule exI [of _ t], intro conjI)
    using t own other row [of "us_id u"] no_session_left [OF dead] use_resets_used
    by (simp_all add: f(2,4,6) resets, simp add: f(3) revoke_sessions_of_def update_where_def sessions)
qed

theorem password_reset_effect_witness:
  "\<exists>sr'. fst (validate_session 60 sr' (Some ''x'')) \<noteq> Some (4, ''ann@lib.org'', ''Ann'') \<and> (\<forall>t \<in> set (sr_resets sr'). rt_used_at t \<noteq> None)
     \<and> reset_password_with_token (\<lambda>_ _. False) (\<lambda>p. p) 50 50 account_server (Some ''reset'') (Some ''newsecret'') (Some ''newsecret'') = (''password_reset'', sr')"
proof -
  have st: "py_strip ''reset'' = ''reset''" by code_simp
  have "\<exists>sr'. reset_password_with_token (\<lambda>_ _. False) (\<lambda>p. p) 50 50 account_server (Some ''reset'') (Some ''newsecret'') (Some ''newsecret'') = (''password_reset'', sr')"
    by (simp add: reset_password_with_token_def reset_row_def text_of_def st account_server_def live_reset_def account_row_def sample_account_def
      new_account_def check_existing_def Let_def split: prod.split)
  then obtain sr' where r: "reset_password_with_token (\<lambda>_ _. False) (\<lambda>p. p) 50 50 account_server (Some ''reset'') (Some ''newsecret'') (Some ''newsecret'')
    = (''password_reset'', sr')" by blast
  have d: "distinct (List.map us_id (sr_accounts account_server))" by (simp add: account_server_def)
  from password_reset_effect [OF r d] obtain u t where u: "t \<in> set (sr_resets account_server)" "account_row account_server (rt_user_id t) = Some u"
    "\<forall>t \<in> set (sr_resets sr'). rt_user_id t = us_id u \<longrightarrow> rt_used_at t \<noteq> None"
    "filter (\<lambda>t. rt_user_id t \<noteq> us_id u) (sr_resets sr') = filter (\<lambda>t. rt_user_id t \<noteq> us_id u) (sr_resets account_server)"
    "\<forall>later token i email name. fst (validate_session later sr' token) = Some (i, email, name) \<longrightarrow> i \<noteq> us_id u" by blast
  have i: "us_id u = 4" using u(1,2) by (auto simp: account_server_def account_row_def sample_account_def new_account_def)
  have "filter (\<lambda>t. rt_user_id t \<noteq> us_id u) (sr_resets sr') = []" unfolding u(4) by (simp add: i account_server_def)
  then have "\<forall>t \<in> set (sr_resets sr'). rt_used_at t \<noteq> None" using u(3) by (auto simp: filter_empty_conv)
  moreover have "fst (validate_session 60 sr' (Some ''x'')) \<noteq> Some (4, ''ann@lib.org'', ''Ann'')"
  proof
    assume "fst (validate_session 60 sr' (Some ''x'')) = Some (4, ''ann@lib.org'', ''Ann'')"
    from u(5) [rule_format, OF this] i show False by simp
  qed
  ultimately show ?thesis using r by (intro exI [of _ sr'] conjI)
qed

end
