(* ===== verification/Members.thy ===== *)
theory Members
  imports Accounts
begin

text \<open>
  Who may administer an organization's members, src/src/services/membership_policy.py, and the operations on
  members and accounts, src/src/services/user_admin_service.py: add, change role, remove, the first owner, and
  switching an account off or on. A refusal is its code and leaves the server as it was. Row ids and the hash
  of a new password are arguments. The retry for a change by another transaction (\<open>concurrent_change\<close>) cannot
  occur, since one transaction runs at a time. The properties are that an organization that has an active owner
  keeps one, and that nobody gains or takes ownership but by an owner's decision.
\<close>

section \<open>The policy (membership_policy.py)\<close>

definition roles :: "string list" where
  "roles = [''owner'', ''admin'', ''manager'', ''viewer'']"

definition administering_roles :: "string list" where
  "administering_roles = [''owner'', ''admin'']"

definition require_administrator :: "string option \<Rightarrow> string + unit" where
  "require_administrator actor = (if \<exists>r \<in> set administering_roles. actor = Some r then Inr () else Inl ''not_permitted'')"

definition require_may_assign :: "string option \<Rightarrow> string \<Rightarrow> string + unit" where
  "require_may_assign actor new_role =
     bind_result (require_administrator actor) (\<lambda>_.
       if new_role \<notin> set roles then Inl ''invalid_role''
       else if new_role = ''owner'' \<and> actor \<noteq> Some ''owner'' then Inl ''owner_required'' else Inr ())"

definition require_may_manage :: "string option \<Rightarrow> string option \<Rightarrow> string + unit" where
  "require_may_manage actor target =
     bind_result (require_administrator actor) (\<lambda>_.
       if target = Some ''owner'' \<and> actor \<noteq> Some ''owner'' then Inl ''owner_required'' else Inr ())"

definition require_may_change_role :: "string option \<Rightarrow> string option \<Rightarrow> string \<Rightarrow> string + unit" where
  "require_may_change_role actor target new_role =
     bind_result (require_may_manage actor target) (\<lambda>_. require_may_assign actor new_role)"

definition assignable_roles :: "string option \<Rightarrow> string list" where
  "assignable_roles actor =
     (if actor = Some ''owner'' then roles else if actor = Some ''admin'' then filter (\<lambda>r. r \<noteq> ''owner'') roles else [])"

section \<open>Members (user_admin_service.py)\<close>

definition editable_statuses :: "string list" where
  "editable_statuses = [''active'', ''trial'']"

definition lock_organization :: "server \<Rightarrow> string \<Rightarrow> string + organization" where
  "lock_organization sr slug =
     (case organization_by_slug (sr_db sr) slug of
        None \<Rightarrow> Inl ''organization_not_found''
      | Some g \<Rightarrow> if og_status g \<notin> set editable_statuses then Inl ''organization_not_editable'' else Inr g)"

definition membership_of :: "server \<Rightarrow> int \<Rightarrow> int \<Rightarrow> (membership \<times> account) option" where
  "membership_of sr org user =
     (case find (\<lambda>m. mb_organization_id m = org \<and> mb_user_id m = user) (sr_memberships sr) of
        None \<Rightarrow> None
      | Some m \<Rightarrow> (case account_row sr user of None \<Rightarrow> None | Some u \<Rightarrow> Some (m, u)))"

definition active_role :: "(membership \<times> account) option \<Rightarrow> string option" where
  "active_role found = (case found of None \<Rightarrow> None | Some (m, _) \<Rightarrow> if mb_removed_at m \<noteq> None then None else Some (mb_role m))"

text \<open>The actor's role now, none without an active account, and their e-mail address for the record.\<close>

definition actor_role :: "server \<Rightarrow> int \<Rightarrow> int \<Rightarrow> string option" where
  "actor_role sr org actor =
     (case membership_of sr org actor of None \<Rightarrow> None | Some (m, u) \<Rightarrow> if us_is_active u then active_role (Some (m, u)) else None)"

definition actor_email :: "server \<Rightarrow> int \<Rightarrow> int \<Rightarrow> string option" where
  "actor_email sr org actor = map_option (\<lambda>(_, u). us_email u) (membership_of sr org actor)"

definition active_owner :: "server \<Rightarrow> int \<Rightarrow> membership \<Rightarrow> bool" where
  "active_owner sr org m \<longleftrightarrow> mb_organization_id m = org \<and> mb_role m = ''owner'' \<and> mb_removed_at m = None \<and> is_user_active sr (mb_user_id m)"

definition active_owner_count :: "server \<Rightarrow> int \<Rightarrow> nat" where
  "active_owner_count sr org = length (filter (active_owner sr org) (sr_memberships sr))"

definition is_active_owner :: "(membership \<times> account) option \<Rightarrow> bool" where
  "is_active_owner found \<longleftrightarrow> active_role found = Some ''owner'' \<and> (case found of None \<Rightarrow> False | Some (_, u) \<Rightarrow> us_is_active u)"

definition require_another_active_owner :: "server \<Rightarrow> int \<Rightarrow> string + unit" where
  "require_another_active_owner sr org = (if active_owner_count sr org < 2 then Inl ''last_owner'' else Inr ())"

definition json_text :: "string option \<Rightarrow> json" where
  "json_text s = (case s of None \<Rightarrow> JNull | Some t \<Rightarrow> JStr t)"

definition record_member ::
    "string \<Rightarrow> string \<Rightarrow> string \<Rightarrow> int \<Rightarrow> string option \<Rightarrow> int \<Rightarrow> string \<Rightarrow> (string \<times> json) list \<Rightarrow> server \<Rightarrow> server" where
  "record_member event_type message slug actor mail user email details =
     log_auth_event event_type True (Some user) (Some email) message
       ((''org_slug'', JStr slug) # details @ [(''actor_user_id'', JInt actor), (''actor_email'', json_text mail)])"

definition find_account :: "server \<Rightarrow> string \<Rightarrow> account option" where
  "find_account sr email = find (\<lambda>u. py_lower (us_email u) = email) (sr_accounts sr)"

text \<open>The account with this address, created when there is none.\<close>

definition find_or_create ::
    "(string \<Rightarrow> string) \<Rightarrow> int \<Rightarrow> server \<Rightarrow> string \<Rightarrow> string \<Rightarrow> string \<Rightarrow> string + account \<times> server" where
  "find_or_create new_hash new_id sr email password full_name =
     (case find_account sr email of
        Some u \<Rightarrow> Inr (u, sr)
      | None \<Rightarrow> (case create_user_with_connection new_hash new_id sr email password full_name of
            (Some u, sr) \<Rightarrow> Inr (u, sr)
          | (None, sr) \<Rightarrow> (case find_account sr email of None \<Rightarrow> Inl ''member_not_added'' | Some u \<Rightarrow> Inr (u, sr))))"

definition attach :: "int \<Rightarrow> server \<Rightarrow> int \<Rightarrow> account \<Rightarrow> string \<Rightarrow> string + server" where
  "attach new_id sr org u role =
     (case membership_of sr org (us_id u) of
        None \<Rightarrow> Inr (sr\<lparr>sr_memberships := sr_memberships sr @ [\<lparr>mb_id = new_id, mb_user_id = us_id u, mb_organization_id = org,
           mb_role = role, mb_removed_at = None\<rparr>]\<rparr>)
      | Some (m, _) \<Rightarrow>
          if mb_removed_at m = None then Inl ''already_member''
          else Inr (sr\<lparr>sr_memberships := snd (update_where
                 (\<lambda>x. mb_id x = mb_id m \<and> mb_organization_id x = org \<and> mb_removed_at x \<noteq> None)
                 (\<lambda>x. x\<lparr>mb_role := role, mb_removed_at := None\<rparr>) (sr_memberships sr))\<rparr>))"

definition has_at :: "string \<Rightarrow> bool" where
  "has_at email \<longleftrightarrow> CHR ''@'' \<in> set email"

record member_draws =
  md_hash :: "string \<Rightarrow> string"
  md_account_id :: int
  md_membership_id :: int

definition add_organization_member ::
    "member_draws \<Rightarrow> server \<Rightarrow> string \<Rightarrow> string \<Rightarrow> string \<Rightarrow> string \<Rightarrow> string \<Rightarrow> int \<Rightarrow> string + server" where
  "add_organization_member draws sr slug email password full_name role actor =
     (let address = py_lower (py_strip email) in
      if \<not> has_at address \<or> password = [] then Inl ''invalid_member_details''
      else bind_result (lock_organization sr slug) (\<lambda>g.
        bind_result (require_may_assign (actor_role sr (og_id g) actor) role) (\<lambda>_.
        let mail = actor_email sr (og_id g) actor in
        bind_result (find_or_create (md_hash draws) (md_account_id draws) sr address password full_name) (\<lambda>(u, sr).
        bind_result (attach (md_membership_id draws) sr (og_id g) u role) (\<lambda>sr.
          Inr (record_member ''membership_added'' ''User added to organization.'' (og_slug g) actor mail (us_id u) (us_email u)
             [(''previous_role'', JNull), (''role'', JStr role)] sr))))))"

definition has_active_owner :: "server \<Rightarrow> string \<Rightarrow> bool" where
  "has_active_owner sr slug = (case organization_by_slug (sr_db sr) slug of None \<Rightarrow> False | Some g \<Rightarrow> active_owner_count sr (og_id g) > 0)"

definition require_platform_admin :: "server \<Rightarrow> int \<Rightarrow> string + account" where
  "require_platform_admin sr actor =
     (case account_row sr actor of None \<Rightarrow> Inl ''platform_admin_required''
      | Some u \<Rightarrow> if us_is_active u \<and> us_is_platform_admin u then Inr u else Inl ''platform_admin_required'')"

definition assign_first_owner ::
    "member_draws \<Rightarrow> server \<Rightarrow> string \<Rightarrow> string \<Rightarrow> string \<Rightarrow> string \<Rightarrow> int \<Rightarrow> string + server" where
  "assign_first_owner draws sr slug email password full_name actor =
     (let address = py_lower (py_strip email) in
      if \<not> has_at address \<or> password = [] then Inl ''invalid_member_details''
      else bind_result (require_platform_admin sr actor) (\<lambda>admin.
        bind_result (lock_organization sr slug) (\<lambda>g.
        if active_owner_count sr (og_id g) > 0 then Inl ''owner_exists''
        else bind_result (find_or_create (md_hash draws) (md_account_id draws) sr address password full_name) (\<lambda>(u, sr).
          if us_is_platform_admin u then Inl ''platform_admin_account''
          else if \<not> us_is_active u then Inl ''account_inactive''
          else bind_result (attach (md_membership_id draws) sr (og_id g) u ''owner'') (\<lambda>sr.
            Inr (record_member ''membership_added'' ''First owner assigned to organization.'' (og_slug g) actor (Some (us_email admin))
               (us_id u) (us_email u) [(''previous_role'', JNull), (''role'', JStr ''owner''), (''scope'', JStr ''platform_first_owner'')] sr))))))"

text \<open>An active member of the organization, with the role they hold.\<close>

definition active_member :: "server \<Rightarrow> int \<Rightarrow> int \<Rightarrow> string + membership \<times> account" where
  "active_member sr org user =
     (case membership_of sr org user of None \<Rightarrow> Inl ''member_not_found''
      | Some (m, u) \<Rightarrow> if mb_removed_at m \<noteq> None then Inl ''member_not_found'' else Inr (m, u))"

definition keep_an_owner :: "server \<Rightarrow> int \<Rightarrow> membership \<times> account \<Rightarrow> string + unit" where
  "keep_an_owner sr org target = (if is_active_owner (Some target) then require_another_active_owner sr org else Inr ())"

definition change_organization_member_role :: "server \<Rightarrow> string \<Rightarrow> int \<Rightarrow> string \<Rightarrow> int \<Rightarrow> string + server" where
  "change_organization_member_role sr slug user role actor =
     bind_result (lock_organization sr slug) (\<lambda>g.
     bind_result (require_administrator (actor_role sr (og_id g) actor)) (\<lambda>_.
     bind_result (active_member sr (og_id g) user) (\<lambda>(m, u).
     bind_result (require_may_change_role (actor_role sr (og_id g) actor) (Some (mb_role m)) role) (\<lambda>_.
       if role = mb_role m then Inr sr
       else bind_result (keep_an_owner sr (og_id g) (m, u)) (\<lambda>_.
         Inr (record_member ''membership_role_updated'' ''Organization role updated.'' (og_slug g) actor (actor_email sr (og_id g) actor)
           user (us_email u) [(''previous_role'', JStr (mb_role m)), (''role'', JStr role)]
           (sr\<lparr>sr_memberships := snd (update_where
              (\<lambda>x. mb_id x = mb_id m \<and> mb_organization_id x = og_id g \<and> mb_removed_at x = None)
              (\<lambda>x. x\<lparr>mb_role := role\<rparr>) (sr_memberships sr))\<rparr>)))))))"

definition remove_organization_member :: "instant \<Rightarrow> server \<Rightarrow> string \<Rightarrow> int \<Rightarrow> int \<Rightarrow> string + server" where
  "remove_organization_member now sr slug user actor =
     bind_result (lock_organization sr slug) (\<lambda>g.
     bind_result (require_administrator (actor_role sr (og_id g) actor)) (\<lambda>_.
     bind_result (active_member sr (og_id g) user) (\<lambda>(m, u).
     bind_result (require_may_manage (actor_role sr (og_id g) actor) (Some (mb_role m))) (\<lambda>_.
     bind_result (keep_an_owner sr (og_id g) (m, u)) (\<lambda>_.
       Inr (record_member ''membership_removed'' ''User removed from organization.'' (og_slug g) actor (actor_email sr (og_id g) actor)
           user (us_email u) [(''previous_role'', JStr (mb_role m)), (''role'', JNull)]
           (sr\<lparr>sr_memberships := snd (update_where
              (\<lambda>x. mb_id x = mb_id m \<and> mb_organization_id x = og_id g \<and> mb_removed_at x = None)
              (\<lambda>x. x\<lparr>mb_removed_at := Some now\<rparr>) (sr_memberships sr))\<rparr>)))))))"

section \<open>An account, everywhere\<close>

definition actively_owned :: "server \<Rightarrow> int \<Rightarrow> int list" where
  "actively_owned sr user =
     List.map og_id (filter (\<lambda>g. og_status g \<noteq> ''cancelled''
       \<and> list_ex (\<lambda>m. mb_user_id m = user \<and> active_owner sr (og_id g) m) (sr_memberships sr)) (db_organizations (sr_db sr)))"

fun require_all :: "('a \<Rightarrow> string + unit) \<Rightarrow> 'a list \<Rightarrow> string + unit" where
  "require_all f [] = Inr ()"
| "require_all f (x # xs) = bind_result (f x) (\<lambda>_. require_all f xs)"

definition set_global_account_active :: "instant \<Rightarrow> server \<Rightarrow> int \<Rightarrow> bool \<Rightarrow> int \<Rightarrow> string + server" where
  "set_global_account_active now sr user is_active actor =
     bind_result (require_platform_admin sr actor) (\<lambda>admin.
       case account_row sr user of
         None \<Rightarrow> Inl ''user_not_found''
       | Some u \<Rightarrow>
           if us_is_platform_admin u then Inl ''platform_admin_account''
           else bind_result (if is_active then Inr () else require_all (require_another_active_owner sr) (actively_owned sr user)) (\<lambda>_.
             let sr = update_account user (\<lambda>u. u\<lparr>us_is_active := is_active\<rparr>) sr;
                 sr = (if is_active then sr else snd (revoke_sessions_of now user sr))
             in Inr (log_auth_event ''user_status_updated'' True (Some user) (Some (us_email u)) ''Account status updated.''
                  [(''scope'', JStr ''account''), (''previous_is_active'', JBool (us_is_active u)), (''is_active'', JBool is_active),
                   (''actor_user_id'', JInt actor), (''actor_email'', JStr (us_email admin))] sr)))"

section \<open>What a user may read\<close>

text \<open>access_service.py and tenant_resolution_service.py.\<close>

definition access_mode_for_organization_status :: "string \<Rightarrow> string" where
  "access_mode_for_organization_status status =
     (if status \<in> {''active'', ''trial''} then ''full'' else if status = ''suspended'' then ''read_only'' else ''blocked'')"

definition get_org_access_mode :: "server \<Rightarrow> string \<Rightarrow> string" where
  "get_org_access_mode sr slug =
     (case organization_by_slug (sr_db sr) slug of None \<Rightarrow> ''blocked'' | Some g \<Rightarrow> access_mode_for_organization_status (og_status g))"

definition user_can_access_org :: "server \<Rightarrow> int \<Rightarrow> string \<Rightarrow> bool" where
  "user_can_access_org sr user slug =
     list_ex (\<lambda>m. mb_user_id m = user \<and> mb_removed_at m = None
       \<and> list_ex (\<lambda>g. og_id g = mb_organization_id m \<and> og_slug g = slug) (db_organizations (sr_db sr))) (sr_memberships sr)"

record resolved_tenant =
  rs_org_slug :: string
  rs_branch_slug :: string
  rs_access_mode :: string
  rs_customer_id :: int
  rs_branch_id :: int

text \<open>The joined rows: a membership, its account, its organization and a branch of it.\<close>

definition tenant_rows :: "server \<Rightarrow> int \<Rightarrow> string \<Rightarrow> string \<Rightarrow> (account \<times> organization \<times> branch) list" where
  "tenant_rows sr user org_slug branch_slug =
     concat (List.map (\<lambda>m. concat (List.map (\<lambda>u. concat (List.map (\<lambda>g. List.map (\<lambda>b. (u, g, b))
       (filter (\<lambda>b. br_organization_id b = og_id g \<and> br_slug b = branch_slug) (db_branches (sr_db sr))))
       (filter (\<lambda>g. og_id g = mb_organization_id m \<and> og_slug g = org_slug) (db_organizations (sr_db sr)))))
       (filter (\<lambda>u. us_id u = mb_user_id m) (sr_accounts sr))))
       (filter (\<lambda>m. mb_user_id m = user \<and> mb_removed_at m = None) (sr_memberships sr)))"

definition resolve_operational_tenant :: "server \<Rightarrow> int \<Rightarrow> string \<Rightarrow> string \<Rightarrow> resolved_tenant option" where
  "resolve_operational_tenant sr user org_slug branch_slug =
     (case take 2 (tenant_rows sr user org_slug branch_slug) of
        [(u, g, b)] \<Rightarrow>
          (let mode = access_mode_for_organization_status (og_status g) in
           if \<not> us_is_active u then None
           else if mode = ''blocked'' then None
           else if br_status b \<noteq> ''active'' then None
           else (case (og_operational_customer_id g, br_operational_branch_id b) of
               (Some customer, Some branch) \<Rightarrow> Some \<lparr>rs_org_slug = og_slug g, rs_branch_slug = br_slug b, rs_access_mode = mode,
                  rs_customer_id = customer, rs_branch_id = branch\<rparr>
             | _ \<Rightarrow> None))
      | _ \<Rightarrow> None)"

section \<open>Steps\<close>

definition fresh_rows :: "member_draws \<Rightarrow> server \<Rightarrow> bool" where
  "fresh_rows draws sr \<longleftrightarrow> md_account_id draws \<notin> us_id ` set (sr_accounts sr) \<and> md_membership_id draws \<notin> mb_id ` set (sr_memberships sr)"

text \<open>A change one actor makes; refusals change nothing and are no steps.\<close>

inductive member_step :: "int \<Rightarrow> server \<Rightarrow> server \<Rightarrow> bool" where
  add: "add_organization_member draws sr slug email password full_name role actor = Inr sr' \<Longrightarrow> fresh_rows draws sr
    \<Longrightarrow> member_step actor sr sr'"
| first: "assign_first_owner draws sr slug email password full_name actor = Inr sr' \<Longrightarrow> fresh_rows draws sr \<Longrightarrow> member_step actor sr sr'"
| change: "change_organization_member_role sr slug user role actor = Inr sr' \<Longrightarrow> member_step actor sr sr'"
| remove: "remove_organization_member now sr slug user actor = Inr sr' \<Longrightarrow> member_step actor sr sr'"
| account: "set_global_account_active now sr user is_active actor = Inr sr' \<Longrightarrow> member_step actor sr sr'"

section \<open>Lemmas\<close>

definition members_wf :: "server \<Rightarrow> bool" where
  "members_wf sr \<longleftrightarrow> distinct (List.map us_id (sr_accounts sr)) \<and> distinct (List.map mb_id (sr_memberships sr))
     \<and> distinct (List.map (\<lambda>m. (mb_organization_id m, mb_user_id m)) (sr_memberships sr))"

lemma require_administrator_Inr [simp]: "require_administrator actor = Inr x \<longleftrightarrow> actor = Some ''owner'' \<or> actor = Some ''admin''"
  by (auto simp: require_administrator_def administering_roles_def)

lemma require_may_assign_Inr [simp]: "require_may_assign actor role = Inr x \<longleftrightarrow>
    role \<in> set roles \<and> (actor = Some ''owner'' \<or> actor = Some ''admin'' \<and> role \<noteq> ''owner'')"
  by (auto simp: require_may_assign_def bind_result_Inr)

lemma require_may_manage_Inr [simp]: "require_may_manage actor target = Inr x \<longleftrightarrow>
    actor = Some ''owner'' \<or> actor = Some ''admin'' \<and> target \<noteq> Some ''owner''"
  by (auto simp: require_may_manage_def)

lemma require_may_change_role_Inr [simp]: "require_may_change_role actor target role = Inr x \<longleftrightarrow>
    role \<in> set roles \<and> (actor = Some ''owner'' \<or> actor = Some ''admin'' \<and> target \<noteq> Some ''owner'' \<and> role \<noteq> ''owner'')"
  by (auto simp: require_may_change_role_def)

lemma record_member_frame [simp]:
  "sr_memberships (record_member a b c d e f g h sr) = sr_memberships sr" "sr_accounts (record_member a b c d e f g h sr) = sr_accounts sr"
  "sr_db (record_member a b c d e f g h sr) = sr_db sr" "sr_sessions (record_member a b c d e f g h sr) = sr_sessions sr"
  "sr_codes (record_member a b c d e f g h sr) = sr_codes sr" "sr_resets (record_member a b c d e f g h sr) = sr_resets sr"
  "sr_lifecycle (record_member a b c d e f g h sr) = sr_lifecycle sr"
  by (simp_all add: record_member_def)

lemma find_or_create_Inr:
  assumes "find_or_create h i sr email password full_name = Inr (u, sr1)"
  shows "u \<in> set (sr_accounts sr1) \<and> sr_memberships sr1 = sr_memberships sr \<and> sr_db sr1 = sr_db sr \<and> sr_codes sr1 = sr_codes sr
    \<and> sr_sessions sr1 = sr_sessions sr \<and> sr_resets sr1 = sr_resets sr \<and> sr_lifecycle sr1 = sr_lifecycle sr
    \<and> (sr_accounts sr1 = sr_accounts sr \<or> (us_id u = i \<and> sr_accounts sr1 = sr_accounts sr @ [u]))"
  using assms
  by (auto simp: find_or_create_def create_user_with_connection_def find_account_def Let_def new_account_def
    split: option.splits prod.splits if_splits dest: find_SomeD)

definition restored :: "int \<Rightarrow> string \<Rightarrow> membership list \<Rightarrow> membership list" where
  "restored i role ms = List.map (\<lambda>x. if mb_id x = i \<and> mb_removed_at x \<noteq> None then x\<lparr>mb_role := role, mb_removed_at := None\<rparr> else x) ms"

lemma membership_of_Some: "membership_of sr org user = Some (m, u) \<Longrightarrow> m \<in> set (sr_memberships sr) \<and> mb_organization_id m = org
    \<and> mb_user_id m = user \<and> account_row sr user = Some u"
  by (auto simp: membership_of_def split: option.splits dest: find_SomeD)

lemma attach_Inr:
  assumes "attach new_id sr org u role = Inr sr2" "u \<in> set (sr_accounts sr)" "distinct (List.map mb_id (sr_memberships sr))"
  shows "sr_accounts sr2 = sr_accounts sr \<and> sr_db sr2 = sr_db sr \<and> sr_codes sr2 = sr_codes sr \<and> sr_sessions sr2 = sr_sessions sr
    \<and> sr_resets sr2 = sr_resets sr \<and> sr_lifecycle sr2 = sr_lifecycle sr
    \<and> ((sr_memberships sr2 = sr_memberships sr @ [\<lparr>mb_id = new_id, mb_user_id = us_id u, mb_organization_id = org, mb_role = role,
           mb_removed_at = None\<rparr>] \<and> (\<forall>m \<in> set (sr_memberships sr). \<not> (mb_organization_id m = org \<and> mb_user_id m = us_id u)))
       \<or> (\<exists>m \<in> set (sr_memberships sr). mb_organization_id m = org \<and> mb_user_id m = us_id u \<and> mb_removed_at m \<noteq> None
            \<and> sr_memberships sr2 = restored (mb_id m) role (sr_memberships sr)))"
proof (cases "membership_of sr org (us_id u)")
  case None
  from assms(2) have "account_row sr (us_id u) \<noteq> None" by (auto simp: account_row_def find_None_iff)
  with None have "find (\<lambda>m. mb_organization_id m = org \<and> mb_user_id m = us_id u) (sr_memberships sr) = None"
    by (auto simp: membership_of_def split: option.splits)
  then show ?thesis using assms(1) None by (auto simp: attach_def find_None_iff)
next
  case (Some p)
  obtain m v where p: "p = (m, v)" by (cases p)
  with Some have m: "membership_of sr org (us_id u) = Some (m, v)" by simp
  note row = membership_of_Some [OF m]
  have "x = m" if "x \<in> set (sr_memberships sr)" "mb_id x = mb_id m" for x
    using assms(3) that row by (auto simp: distinct_map dest: inj_onD)
  then have r: "snd (update_where (\<lambda>x. mb_id x = mb_id m \<and> mb_organization_id x = org \<and> mb_removed_at x \<noteq> None)
        (\<lambda>x. x\<lparr>mb_role := role, mb_removed_at := None\<rparr>) (sr_memberships sr)) = restored (mb_id m) role (sr_memberships sr)"
    unfolding restored_def update_where_snd using row by (intro map_cong) auto
  have rem: "mb_removed_at m \<noteq> None" and s: "sr2 = sr\<lparr>sr_memberships := restored (mb_id m) role (sr_memberships sr)\<rparr>"
    using assms(1) m r by (auto simp: attach_def split: if_splits)
  show ?thesis using rem row by (simp add: s) blast
qed

text \<open>A member operation on one organization: its rows, and those alone, change.\<close>

definition set_row :: "int \<Rightarrow> (membership \<Rightarrow> membership) \<Rightarrow> membership list \<Rightarrow> membership list" where
  "set_row i f ms = List.map (\<lambda>x. if mb_id x = i \<and> mb_removed_at x = None then f x else x) ms"

lemma update_row:
  assumes "distinct (List.map mb_id ms)" "m \<in> set ms" "mb_organization_id m = org"
  shows "snd (update_where (\<lambda>x. mb_id x = mb_id m \<and> mb_organization_id x = org \<and> mb_removed_at x = None) f ms) = set_row (mb_id m) f ms"
proof -
  have "x = m" if "x \<in> set ms" "mb_id x = mb_id m" for x using assms(1,2) that by (auto simp: distinct_map dest: inj_onD)
  then show ?thesis unfolding set_row_def update_where_snd using assms(3) by (intro map_cong) auto
qed

lemma active_member_Inr: "active_member sr org user = Inr (m, u) \<Longrightarrow> m \<in> set (sr_memberships sr) \<and> mb_organization_id m = org
    \<and> mb_user_id m = user \<and> mb_removed_at m = None \<and> account_row sr user = Some u"
  by (auto simp: active_member_def split: option.splits if_splits dest: membership_of_Some)

lemma keep_an_owner_Inr: "keep_an_owner sr org (m, u) = Inr x \<Longrightarrow> account_row sr (mb_user_id m) = Some u \<Longrightarrow> mb_organization_id m = org
    \<Longrightarrow> active_owner sr org m \<Longrightarrow> 2 \<le> active_owner_count sr org"
  by (auto simp: keep_an_owner_def is_active_owner_def active_role_def active_owner_def is_user_active_def
    require_another_active_owner_def split: if_splits)

definition platform_admin :: "server \<Rightarrow> int \<Rightarrow> bool" where
  "platform_admin sr i \<longleftrightarrow> (case account_row sr i of None \<Rightarrow> False | Some u \<Rightarrow> us_is_active u \<and> us_is_platform_admin u)"

lemma require_platform_admin_Inr: "require_platform_admin sr i = Inr u \<Longrightarrow> platform_admin sr i"
  by (auto simp: require_platform_admin_def platform_admin_def split: option.splits if_splits)

lemma require_all_Inr: "require_all f xs = Inr u \<Longrightarrow> x \<in> set xs \<Longrightarrow> f x = Inr ()"
  by (induction xs) auto

text \<open>Who may give a role in an organization.\<close>

definition may_give :: "server \<Rightarrow> int \<Rightarrow> int \<Rightarrow> string \<Rightarrow> bool" where
  "may_give sr actor org role \<longleftrightarrow> actor_role sr org actor = Some ''owner''
     \<or> actor_role sr org actor = Some ''admin'' \<and> role \<noteq> ''owner''
     \<or> platform_admin sr actor \<and> active_owner_count sr org = 0"

definition attached :: "int \<Rightarrow> int \<Rightarrow> int \<Rightarrow> string \<Rightarrow> membership list \<Rightarrow> membership list \<Rightarrow> bool" where
  "attached new_id org user role ms ms' \<longleftrightarrow>
     ms' = ms @ [\<lparr>mb_id = new_id, mb_user_id = user, mb_organization_id = org, mb_role = role, mb_removed_at = None\<rparr>]
       \<and> (\<forall>m \<in> set ms. \<not> (mb_organization_id m = org \<and> mb_user_id m = user))
     \<or> (\<exists>m \<in> set ms. mb_organization_id m = org \<and> mb_user_id m = user \<and> mb_removed_at m \<noteq> None \<and> ms' = restored (mb_id m) role ms)"

lemma add_Inr:
  assumes "add_organization_member draws sr slug email password full_name role actor = Inr sr'" "members_wf sr"
  obtains g u where "lock_organization sr slug = Inr g" "role \<in> set roles" "may_give sr actor (og_id g) role"
    "attached (md_membership_id draws) (og_id g) (us_id u) role (sr_memberships sr) (sr_memberships sr')"
    "sr_accounts sr' = sr_accounts sr \<or> sr_accounts sr' = sr_accounts sr @ [u] \<and> us_id u = md_account_id draws" "sr_db sr' = sr_db sr"
proof -
  from assms(1) obtain g u sr1 sr2 where g: "lock_organization sr slug = Inr g"
    and r: "require_may_assign (actor_role sr (og_id g) actor) role = Inr ()"
    and f: "find_or_create (md_hash draws) (md_account_id draws) sr (py_lower (py_strip email)) password full_name = Inr (u, sr1)"
    and a: "attach (md_membership_id draws) sr1 (og_id g) u role = Inr sr2"
    and s: "sr_memberships sr' = sr_memberships sr2" "sr_accounts sr' = sr_accounts sr2" "sr_db sr' = sr_db sr2"
    by (auto simp: add_organization_member_def Let_def split: if_splits)
  note f' = find_or_create_Inr [OF f]
  have "distinct (List.map mb_id (sr_memberships sr1))" using assms(2) f' by (simp add: members_wf_def)
  note a' = attach_Inr [OF a _ this]
  show thesis
    by (rule that [OF g]) (use r f' a' s in \<open>auto simp: may_give_def attached_def\<close>)
qed

lemma first_Inr:
  assumes "assign_first_owner draws sr slug email password full_name actor = Inr sr'" "members_wf sr"
  obtains g u where "lock_organization sr slug = Inr g" "may_give sr actor (og_id g) ''owner''"
    "attached (md_membership_id draws) (og_id g) (us_id u) ''owner'' (sr_memberships sr) (sr_memberships sr')"
    "sr_accounts sr' = sr_accounts sr \<or> sr_accounts sr' = sr_accounts sr @ [u] \<and> us_id u = md_account_id draws" "sr_db sr' = sr_db sr"
proof -
  from assms(1) obtain g u sr1 sr2 admin where g: "lock_organization sr slug = Inr g" "require_platform_admin sr actor = Inr admin"
    and r: "active_owner_count sr (og_id g) = 0"
    and f: "find_or_create (md_hash draws) (md_account_id draws) sr (py_lower (py_strip email)) password full_name = Inr (u, sr1)"
    and a: "attach (md_membership_id draws) sr1 (og_id g) u ''owner'' = Inr sr2"
    and s: "sr_memberships sr' = sr_memberships sr2" "sr_accounts sr' = sr_accounts sr2" "sr_db sr' = sr_db sr2"
    by (auto simp: assign_first_owner_def Let_def split: if_splits)
  note f' = find_or_create_Inr [OF f]
  have "distinct (List.map mb_id (sr_memberships sr1))" using assms(2) f' by (simp add: members_wf_def)
  note a' = attach_Inr [OF a _ this]
  show thesis
    by (rule that [OF g(1)]) (use r f' a' s require_platform_admin_Inr [OF g(2)] in \<open>auto simp: may_give_def attached_def\<close>)
qed

text \<open>Changing or removing one active member.\<close>

definition row_changed :: "server \<Rightarrow> int \<Rightarrow> int \<Rightarrow> membership \<Rightarrow> (membership \<Rightarrow> membership) \<Rightarrow> server \<Rightarrow> bool" where
  "row_changed sr actor org m f sr' \<longleftrightarrow> m \<in> set (sr_memberships sr) \<and> mb_organization_id m = org \<and> mb_removed_at m = None
     \<and> (\<forall>x. mb_id (f x) = mb_id x \<and> mb_organization_id (f x) = mb_organization_id x \<and> mb_user_id (f x) = mb_user_id x)
     \<and> (actor_role sr org actor = Some ''owner''
        \<or> actor_role sr org actor = Some ''admin'' \<and> mb_role m \<noteq> ''owner'' \<and> (mb_removed_at (f m) = None \<longrightarrow> mb_role (f m) \<noteq> ''owner''))
     \<and> (active_owner sr org m \<longrightarrow> 2 \<le> active_owner_count sr org)
     \<and> sr_memberships sr' = set_row (mb_id m) f (sr_memberships sr) \<and> sr_accounts sr' = sr_accounts sr \<and> sr_db sr' = sr_db sr"

lemma change_Inr:
  assumes "change_organization_member_role sr slug user role actor = Inr sr'" "members_wf sr"
  shows "sr' = sr \<or> (\<exists>g m. lock_organization sr slug = Inr g \<and> row_changed sr actor (og_id g) m (\<lambda>x. x\<lparr>mb_role := role\<rparr>) sr')"
proof (cases "sr' = sr")
  case False
  from assms(1) False obtain g m u where g: "lock_organization sr slug = Inr g"
    and m: "active_member sr (og_id g) user = Inr (m, u)"
    and r: "require_may_change_role (actor_role sr (og_id g) actor) (Some (mb_role m)) role = Inr ()"
    and k: "keep_an_owner sr (og_id g) (m, u) = Inr ()"
    and s: "sr_memberships sr' = snd (update_where (\<lambda>x. mb_id x = mb_id m \<and> mb_organization_id x = og_id g \<and> mb_removed_at x = None)
              (\<lambda>x. x\<lparr>mb_role := role\<rparr>) (sr_memberships sr))" "sr_accounts sr' = sr_accounts sr" "sr_db sr' = sr_db sr"
    by (auto simp: change_organization_member_role_def Let_def split: if_splits)
  note row = active_member_Inr [OF m]
  have d: "distinct (List.map mb_id (sr_memberships sr))" using assms(2) by (simp add: members_wf_def)
  have "active_owner sr (og_id g) m \<longrightarrow> 2 \<le> active_owner_count sr (og_id g)" using keep_an_owner_Inr [OF k] row by blast
  then have "row_changed sr actor (og_id g) m (\<lambda>x. x\<lparr>mb_role := role\<rparr>) sr'"
    using row r s update_row [OF d, of m "og_id g"] by (auto simp: row_changed_def)
  with g show ?thesis by blast
qed simp

lemma remove_Inr:
  assumes "remove_organization_member now sr slug user actor = Inr sr'" "members_wf sr"
  shows "\<exists>g m. lock_organization sr slug = Inr g \<and> row_changed sr actor (og_id g) m (\<lambda>x. x\<lparr>mb_removed_at := Some now\<rparr>) sr'"
proof -
  from assms(1) obtain g m u where g: "lock_organization sr slug = Inr g"
    and m: "active_member sr (og_id g) user = Inr (m, u)"
    and r: "require_may_manage (actor_role sr (og_id g) actor) (Some (mb_role m)) = Inr ()"
    and k: "keep_an_owner sr (og_id g) (m, u) = Inr ()"
    and s: "sr_memberships sr' = snd (update_where (\<lambda>x. mb_id x = mb_id m \<and> mb_organization_id x = og_id g \<and> mb_removed_at x = None)
              (\<lambda>x. x\<lparr>mb_removed_at := Some now\<rparr>) (sr_memberships sr))" "sr_accounts sr' = sr_accounts sr" "sr_db sr' = sr_db sr"
    by (auto simp: remove_organization_member_def Let_def)
  note row = active_member_Inr [OF m]
  have d: "distinct (List.map mb_id (sr_memberships sr))" using assms(2) by (simp add: members_wf_def)
  have "active_owner sr (og_id g) m \<longrightarrow> 2 \<le> active_owner_count sr (og_id g)" using keep_an_owner_Inr [OF k] row by blast
  then have "row_changed sr actor (og_id g) m (\<lambda>x. x\<lparr>mb_removed_at := Some now\<rparr>) sr'"
    using row r s update_row [OF d, of m "og_id g"] by (auto simp: row_changed_def)
  with g show ?thesis by blast
qed

lemma account_Inr:
  assumes "set_global_account_active now sr user is_active actor = Inr sr'"
  shows "platform_admin sr actor \<and> sr_memberships sr' = sr_memberships sr \<and> sr_db sr' = sr_db sr
    \<and> sr_accounts sr' = List.map (\<lambda>u. if us_id u = user then u\<lparr>us_is_active := is_active\<rparr> else u) (sr_accounts sr)
    \<and> (\<not> is_active \<longrightarrow> (\<forall>g \<in> set (db_organizations (sr_db sr)). \<forall>m \<in> set (sr_memberships sr). og_status g \<noteq> ''cancelled''
         \<longrightarrow> active_owner sr (og_id g) m \<longrightarrow> mb_user_id m = user \<longrightarrow> 2 \<le> active_owner_count sr (og_id g)))"
proof -
  from assms obtain admin u where a: "require_platform_admin sr actor = Inr admin"
    "(if is_active then Inr () else require_all (require_another_active_owner sr) (actively_owned sr user)) = Inr ()"
    and s: "sr_memberships sr' = sr_memberships sr" "sr_db sr' = sr_db sr"
      "sr_accounts sr' = List.map (\<lambda>u. if us_id u = user then u\<lparr>us_is_active := is_active\<rparr> else u) (sr_accounts sr)"
    by (auto simp: set_global_account_active_def revoke_sessions_of_def update_where_def Let_def split: option.splits if_splits)
  have "2 \<le> active_owner_count sr (og_id g)" if "\<not> is_active" "g \<in> set (db_organizations (sr_db sr))" "m \<in> set (sr_memberships sr)"
    "og_status g \<noteq> ''cancelled''" "active_owner sr (og_id g) m" "mb_user_id m = user" for g m
  proof -
    have "og_id g \<in> set (actively_owned sr user)" using that by (auto simp: actively_owned_def list_ex_iff)
    with a(2) that(1) have "require_another_active_owner sr (og_id g) = Inr ()" by (auto intro: require_all_Inr)
    then show ?thesis by (simp add: require_another_active_owner_def split: if_splits)
  qed
  then show ?thesis using require_platform_admin_Inr [OF a(1)] s by blast
qed

section \<open>The members stay well formed\<close>

lemma set_row_ids:
  assumes "\<forall>x. mb_id (f x) = mb_id x \<and> mb_organization_id (f x) = mb_organization_id x \<and> mb_user_id (f x) = mb_user_id x"
  shows "List.map mb_id (set_row i f ms) = List.map mb_id ms"
    "List.map (\<lambda>m. (mb_organization_id m, mb_user_id m)) (set_row i f ms) = List.map (\<lambda>m. (mb_organization_id m, mb_user_id m)) ms"
  using assms by (auto simp: set_row_def)

lemma restored_ids:
  "List.map mb_id (restored i role ms) = List.map mb_id ms"
  "List.map (\<lambda>m. (mb_organization_id m, mb_user_id m)) (restored i role ms) = List.map (\<lambda>m. (mb_organization_id m, mb_user_id m)) ms"
  by (auto simp: restored_def)

lemma attached_wf:
  assumes "attached new_id org user role ms ms'" "distinct (List.map mb_id ms)" "new_id \<notin> mb_id ` set ms"
    "distinct (List.map (\<lambda>m. (mb_organization_id m, mb_user_id m)) ms)"
  shows "distinct (List.map mb_id ms') \<and> distinct (List.map (\<lambda>m. (mb_organization_id m, mb_user_id m)) ms')"
  using assms unfolding attached_def by (auto simp: restored_ids)

lemma member_step_wf:
  assumes "member_step actor sr sr'" "members_wf sr"
  shows "members_wf sr' \<and> sr_db sr' = sr_db sr"
  using assms
proof cases
  case (add draws slug email password full_name role)
  obtain g :: organization and u where a: "attached (md_membership_id draws) (og_id g) (us_id u) role (sr_memberships sr) (sr_memberships sr')"
    "sr_accounts sr' = sr_accounts sr \<or> sr_accounts sr' = sr_accounts sr @ [u] \<and> us_id u = md_account_id draws" "sr_db sr' = sr_db sr"
    by (rule add_Inr [OF add(1) assms(2)]) (rule that; assumption)
  show ?thesis using attached_wf [OF a(1)] a(2,3) assms(2) add(2) by (auto simp: members_wf_def fresh_rows_def)
next
  case (first draws slug email password full_name)
  obtain g :: organization and u where a: "attached (md_membership_id draws) (og_id g) (us_id u) ''owner'' (sr_memberships sr) (sr_memberships sr')"
    "sr_accounts sr' = sr_accounts sr \<or> sr_accounts sr' = sr_accounts sr @ [u] \<and> us_id u = md_account_id draws" "sr_db sr' = sr_db sr"
    by (rule first_Inr [OF first(1) assms(2)]) (rule that; assumption)
  show ?thesis using attached_wf [OF a(1)] a(2,3) assms(2) first(2) by (auto simp: members_wf_def fresh_rows_def)
next
  case (change slug user role)
  from change_Inr [OF change assms(2)] assms(2) show ?thesis by (auto simp: row_changed_def members_wf_def set_row_ids)
next
  case (remove now slug user)
  from remove_Inr [OF remove assms(2)] assms(2) show ?thesis by (auto simp: row_changed_def members_wf_def set_row_ids)
next
  case (account now user is_active)
  have ids: "List.map us_id (List.map (\<lambda>u. if us_id u = user then u\<lparr>us_is_active := is_active\<rparr> else u) us) = List.map us_id us" for us by simp
  from account_Inr [OF account] assms(2) show ?thesis by (simp add: members_wf_def comp_def if_distrib [of us_id] cong: if_cong)
qed

section \<open>Owners are kept\<close>

lemma count_mono: "\<forall>x \<in> set xs. P x \<longrightarrow> Q (f x) \<Longrightarrow> length (filter P xs) \<le> length (filter Q (List.map f xs @ ys))"
  by (induction xs) auto

lemma count_but_one: "distinct (List.map k xs) \<Longrightarrow> \<forall>x \<in> set xs. P x \<longrightarrow> k x \<noteq> i \<longrightarrow> Q (f x)
    \<Longrightarrow> length (filter P xs) \<le> Suc (length (filter Q (List.map f xs)))"
proof (induction xs)
  case (Cons x xs)
  show ?case
  proof (cases "k x = i")
    case True
    have "\<forall>y \<in> set xs. P y \<longrightarrow> Q (f y)"
    proof
      fix y
      assume y: "y \<in> set xs"
      have "k y \<noteq> i" using Cons.prems(1) y True by (force dest: sym)
      then show "P y \<longrightarrow> Q (f y)" using Cons.prems(2) y by simp
    qed
    then show ?thesis using count_mono [of xs P Q f "[]"] by simp
  next
    case False
    with Cons show ?thesis by auto
  qed
qed simp

lemma active_user_mono: "sr_accounts sr' = sr_accounts sr \<or> sr_accounts sr' = sr_accounts sr @ [u] \<Longrightarrow> is_user_active sr i \<Longrightarrow> is_user_active sr' i"
  by (auto simp: is_user_active_def account_row_def find_append split: option.splits)

lemma active_account: "is_user_active sr i \<Longrightarrow> \<exists>u. account_row sr i = Some u"
  by (auto simp: is_user_active_def split: option.splits)

lemma attached_count:
  assumes "attached new_id org' user role (sr_memberships sr) (sr_memberships sr')"
    "sr_accounts sr' = sr_accounts sr \<or> sr_accounts sr' = sr_accounts sr @ [u] \<and> us_id u = i"
  shows "active_owner_count sr org \<le> active_owner_count sr' org"
proof -
  have act: "active_owner sr org m \<Longrightarrow> active_owner sr' org m" for m
    using active_user_mono [of sr' sr u] assms(2) by (auto simp: active_owner_def)
  show ?thesis using assms(1) unfolding attached_def
  proof (elim disjE bexE conjE)
    assume "sr_memberships sr' = sr_memberships sr @ [\<lparr>mb_id = new_id, mb_user_id = user, mb_organization_id = org', mb_role = role, mb_removed_at = None\<rparr>]"
    then have e: "sr_memberships sr' = List.map (\<lambda>x. x) (sr_memberships sr) @ [\<lparr>mb_id = new_id, mb_user_id = user, mb_organization_id = org',
      mb_role = role, mb_removed_at = None\<rparr>]" by simp
    show ?thesis unfolding active_owner_count_def e by (rule count_mono) (use act in blast)
  next
    fix m
    assume "sr_memberships sr' = restored (mb_id m) role (sr_memberships sr)"
    then have e: "sr_memberships sr' = List.map (\<lambda>x. if mb_id x = mb_id m \<and> mb_removed_at x \<noteq> None
      then x\<lparr>mb_role := role, mb_removed_at := None\<rparr> else x) (sr_memberships sr) @ []" by (simp add: restored_def)
    have "active_owner sr org x \<Longrightarrow> mb_removed_at x = None" for x by (simp add: active_owner_def)
    then show ?thesis unfolding active_owner_count_def e by (intro count_mono) (use act in auto)
  qed
qed

lemma row_changed_count:
  assumes "row_changed sr actor org' m f sr'" "members_wf sr" "0 < active_owner_count sr org"
  shows "0 < active_owner_count sr' org"
proof -
  have r: "m \<in> set (sr_memberships sr)" "mb_organization_id m = org'" "mb_removed_at m = None"
    "active_owner sr org' m \<longrightarrow> 2 \<le> active_owner_count sr org'"
    "sr_memberships sr' = set_row (mb_id m) f (sr_memberships sr)" "sr_accounts sr' = sr_accounts sr"
    "distinct (List.map mb_id (sr_memberships sr))"
    using assms(1,2) by (auto simp: row_changed_def members_wf_def)
  have act: "active_owner sr' o' x = active_owner sr o' x" for o' x
    using r(6) by (simp add: active_owner_def is_user_active_def account_row_def)
  have same: "x = m" if "x \<in> set (sr_memberships sr)" "mb_id x = mb_id m" for x
    using r(7,1) that by (auto simp: distinct_map dest: inj_onD)
  show ?thesis
  proof (cases "active_owner sr org m")
    case True
    then have "org = org'" using r(2) by (simp add: active_owner_def)
    then have "2 \<le> active_owner_count sr org" using True r(4) by simp
    moreover have "active_owner_count sr org \<le> Suc (active_owner_count sr' org)"
      unfolding active_owner_count_def r(5) set_row_def
      by (rule count_but_one [OF r(7), where i = "mb_id m"]) (auto simp: act)
    ultimately show ?thesis by simp
  next
    case False
    have e: "sr_memberships sr' = List.map (\<lambda>x. if mb_id x = mb_id m \<and> mb_removed_at x = None then f x else x) (sr_memberships sr) @ []"
      by (simp add: r(5) set_row_def)
    have "active_owner_count sr org \<le> active_owner_count sr' org"
      unfolding active_owner_count_def e by (rule count_mono) (use False same in \<open>auto simp: act\<close>)
    then show ?thesis using assms(3) by simp
  qed
qed

lemma member_step_owner:
  assumes "member_step actor sr sr'" "members_wf sr" "g \<in> set (db_organizations (sr_db sr))" "og_status g \<noteq> ''cancelled''"
    "0 < active_owner_count sr (og_id g)"
  shows "0 < active_owner_count sr' (og_id g)"
  using assms(1)
proof cases
  case (add draws slug email password full_name role)
  show ?thesis
    by (rule add_Inr [OF add(1) assms(2)]) (rule order_less_le_trans [OF assms(5)], erule attached_count, assumption)
next
  case (first draws slug email password full_name)
  show ?thesis
    by (rule first_Inr [OF first(1) assms(2)]) (rule order_less_le_trans [OF assms(5)], erule attached_count, assumption)
next
  case (change slug user role)
  from change_Inr [OF change assms(2)] row_changed_count assms(2,5) show ?thesis by blast
next
  case (remove now slug user)
  from remove_Inr [OF remove assms(2)] row_changed_count assms(2,5) show ?thesis by blast
next
  case (account now user is_active)
  note a = account_Inr [OF account]
  have row: "is_user_active sr' i \<longleftrightarrow> (if i = user then account_row sr i \<noteq> None \<and> is_active else is_user_active sr i)" for i
  proof -
    have "account_row sr' i = map_option (\<lambda>u. if us_id u = user then u\<lparr>us_is_active := is_active\<rparr> else u) (account_row sr i)"
      unfolding account_row_def conjunct1 [OF conjunct2 [OF conjunct2 [OF conjunct2 [OF a]]]] by (rule find_map_same) simp
    then show ?thesis by (cases "account_row sr i") (auto simp: is_user_active_def account_row_def dest: find_SomeD)
  qed
  have m: "sr_memberships sr' = sr_memberships sr" using a by simp
  show ?thesis
  proof (cases "\<not> is_active \<and> (\<exists>m \<in> set (sr_memberships sr). active_owner sr (og_id g) m \<and> mb_user_id m = user)")
    case True
    then have two: "2 \<le> active_owner_count sr (og_id g)" using a assms(3,4) by blast
    have "active_owner_count sr (og_id g) \<le> Suc (length (filter (active_owner sr' (og_id g)) (List.map (\<lambda>x. x) (sr_memberships sr))))"
      unfolding active_owner_count_def
      by (rule count_but_one [where k = "\<lambda>m. (mb_organization_id m, mb_user_id m)" and i = "(og_id g, user)"])
        (use assms(2) in \<open>auto simp: members_wf_def active_owner_def row\<close>)
    then have "active_owner_count sr (og_id g) \<le> Suc (active_owner_count sr' (og_id g))" by (simp only: active_owner_count_def m map_ident)
    with two show ?thesis by simp
  next
    case False
    have "active_owner_count sr (og_id g) \<le> length (filter (active_owner sr' (og_id g)) (List.map (\<lambda>x. x) (sr_memberships sr) @ []))"
      unfolding active_owner_count_def
      by (rule count_mono) (use False in \<open>auto simp: active_owner_def row dest: active_account\<close>)
    then have "active_owner_count sr (og_id g) \<le> active_owner_count sr' (og_id g)"
      by (simp only: active_owner_count_def m map_ident append_Nil2)
    with assms(5) show ?thesis by simp
  qed
qed

section \<open>The properties of members\<close>

inductive member_steps :: "server \<Rightarrow> server \<Rightarrow> bool" where
  none: "member_steps sr sr"
| more: "member_steps sr sr' \<Longrightarrow> member_step actor sr' sr'' \<Longrightarrow> member_steps sr sr''"

text \<open>C6. An organization always has an active owner: whatever its members, other organizations' members and the platform's
  administrators do, in whatever order, an organization that is not cancelled and has an active owner keeps one. The membership rows
  stay unique and no other table of the tenant is touched.\<close>

theorem owner_never_lost:
  assumes "member_steps sr sr'" "members_wf sr" "g \<in> set (db_organizations (sr_db sr))" "og_status g \<noteq> ''cancelled''"
    "0 < active_owner_count sr (og_id g)"
  shows "0 < active_owner_count sr' (og_id g) \<and> members_wf sr' \<and> sr_db sr' = sr_db sr"
  using assms
proof (induction rule: member_steps.induct)
  case (more sr sr' actor sr'')
  then have ih: "0 < active_owner_count sr' (og_id g)" "members_wf sr'" "sr_db sr' = sr_db sr" by auto
  have g: "g \<in> set (db_organizations (sr_db sr'))" using more.prems(2) ih(3) by simp
  show ?case using member_step_owner [OF more.hyps(2) ih(2) g more.prems(3) ih(1)] member_step_wf [OF more.hyps(2) ih(2)] ih(3) by simp
qed simp

definition member_rows :: "server \<Rightarrow> int \<Rightarrow> membership list" where
  "member_rows sr org = filter (\<lambda>m. mb_organization_id m = org) (sr_memberships sr)"

definition owner_rows :: "membership list \<Rightarrow> int set" where
  "owner_rows ms = {mb_user_id m | m. m \<in> set ms \<and> mb_role m = ''owner'' \<and> mb_removed_at m = None}"

lemma set_row_rows:
  assumes "m \<in> set ms" "distinct (List.map mb_id ms)" "\<forall>x. mb_organization_id (f x) = mb_organization_id x" "mb_organization_id m \<noteq> org"
  shows "filter (\<lambda>x. mb_organization_id x = org) (set_row (mb_id m) f ms) = filter (\<lambda>x. mb_organization_id x = org) ms"
proof -
  have same: "x = m" if "x \<in> set ms" "mb_id x = mb_id m" for x using assms(1,2) that by (auto simp: distinct_map dest: inj_onD)
  have "filter (\<lambda>x. mb_organization_id x = org) (List.map (\<lambda>x. if mb_id x = mb_id m \<and> mb_removed_at x = None then f x else x) xs)
      = filter (\<lambda>x. mb_organization_id x = org) xs" if "set xs \<subseteq> set ms" for xs
    using that by (induction xs) (use same assms(3,4) in auto)
  then show ?thesis by (simp add: set_row_def)
qed

lemma restored_rows:
  assumes "m \<in> set ms" "distinct (List.map mb_id ms)" "mb_organization_id m \<noteq> org"
  shows "filter (\<lambda>x. mb_organization_id x = org) (restored (mb_id m) role ms) = filter (\<lambda>x. mb_organization_id x = org) ms"
proof -
  have same: "x = m" if "x \<in> set ms" "mb_id x = mb_id m" for x using assms(1,2) that by (auto simp: distinct_map dest: inj_onD)
  have "filter (\<lambda>x. mb_organization_id x = org) (List.map (\<lambda>x. if mb_id x = mb_id m \<and> mb_removed_at x \<noteq> None
      then x\<lparr>mb_role := role, mb_removed_at := None\<rparr> else x) xs) = filter (\<lambda>x. mb_organization_id x = org) xs" if "set xs \<subseteq> set ms" for xs
    using that by (induction xs) (use same assms(3) in auto)
  then show ?thesis by (simp add: restored_def)
qed

text \<open>What one organization's rows may become by a step, and under which authority.\<close>

definition authorized :: "server \<Rightarrow> int \<Rightarrow> int \<Rightarrow> server \<Rightarrow> bool" where
  "authorized sr actor org sr' \<longleftrightarrow> actor_role sr org actor = Some ''owner''
     \<or> actor_role sr org actor = Some ''admin'' \<and> owner_rows (member_rows sr' org) = owner_rows (member_rows sr org)
     \<or> platform_admin sr actor \<and> active_owner_count sr org = 0"

lemma attached_authorized:
  assumes "attached new_id org user role (sr_memberships sr) (sr_memberships sr')" "may_give sr actor org role"
    "distinct (List.map mb_id (sr_memberships sr))"
  shows "authorized sr actor org sr' \<and> (\<forall>o'. o' \<noteq> org \<longrightarrow> member_rows sr' o' = member_rows sr o')"
proof -
  have others: "\<forall>o'. o' \<noteq> org \<longrightarrow> member_rows sr' o' = member_rows sr o'"
    using assms(1,3) unfolding attached_def member_rows_def by (auto simp: restored_rows)
  have "owner_rows (member_rows sr' org) = owner_rows (member_rows sr org)" if r: "role \<noteq> ''owner''"
    using assms(1) unfolding attached_def
  proof (elim disjE bexE conjE)
    assume "sr_memberships sr' = sr_memberships sr @ [\<lparr>mb_id = new_id, mb_user_id = user, mb_organization_id = org, mb_role = role, mb_removed_at = None\<rparr>]"
    then show ?thesis using r by (auto simp: owner_rows_def member_rows_def)
  next
    fix m
    assume m: "sr_memberships sr' = restored (mb_id m) role (sr_memberships sr)"
    show ?thesis unfolding owner_rows_def member_rows_def m restored_def
    proof (rule set_eqI)
      fix i
      show "i \<in> {mb_user_id x | x. x \<in> set (filter (\<lambda>x. mb_organization_id x = org) (List.map (\<lambda>x. if mb_id x = mb_id m \<and> mb_removed_at x \<noteq> None
            then x\<lparr>mb_role := role, mb_removed_at := None\<rparr> else x) (sr_memberships sr))) \<and> mb_role x = ''owner'' \<and> mb_removed_at x = None}
        \<longleftrightarrow> i \<in> {mb_user_id x | x. x \<in> set (filter (\<lambda>x. mb_organization_id x = org) (sr_memberships sr)) \<and> mb_role x = ''owner'' \<and> mb_removed_at x = None}"
        using r by (auto split: if_splits)
    qed
  qed
  with others assms(2) show ?thesis by (auto simp: authorized_def may_give_def)
qed

lemma row_changed_authorized:
  assumes "row_changed sr actor org m f sr'" "members_wf sr"
  shows "authorized sr actor org sr' \<and> (\<forall>o'. o' \<noteq> org \<longrightarrow> member_rows sr' o' = member_rows sr o')"
proof -
  have r: "m \<in> set (sr_memberships sr)" "mb_organization_id m = org" "mb_removed_at m = None"
      "\<forall>x. mb_id (f x) = mb_id x \<and> mb_organization_id (f x) = mb_organization_id x \<and> mb_user_id (f x) = mb_user_id x"
      "sr_memberships sr' = set_row (mb_id m) f (sr_memberships sr)" "distinct (List.map mb_id (sr_memberships sr))"
    and who: "actor_role sr org actor = Some ''owner''
        \<or> actor_role sr org actor = Some ''admin'' \<and> mb_role m \<noteq> ''owner'' \<and> (mb_removed_at (f m) = None \<longrightarrow> mb_role (f m) \<noteq> ''owner'')"
    using assms by (auto simp: row_changed_def members_wf_def)
  have same: "x = m" if "x \<in> set (sr_memberships sr)" "mb_id x = mb_id m" for x
    using r(6,1) that by (auto simp: distinct_map dest: inj_onD)
  have others: "\<forall>o'. o' \<noteq> org \<longrightarrow> member_rows sr' o' = member_rows sr o'"
    using set_row_rows [OF r(1,6)] r(2,4,5) by (auto simp: member_rows_def)
  have "owner_rows (member_rows sr' org) = owner_rows (member_rows sr org)"
    if a: "mb_role m \<noteq> ''owner''" "mb_removed_at (f m) = None \<longrightarrow> mb_role (f m) \<noteq> ''owner''"
  proof -
    let ?f = "\<lambda>x. if mb_id x = mb_id m \<and> mb_removed_at x = None then f x else x"
    have o: "(mb_role (?f x) = ''owner'' \<and> mb_removed_at (?f x) = None) = (mb_role x = ''owner'' \<and> mb_removed_at x = None)"
      if "x \<in> set (sr_memberships sr)" for x using same [OF that] a r(3) by auto
    have k: "mb_user_id (?f x) = mb_user_id x" "mb_organization_id (?f x) = mb_organization_id x" for x using r(4) by simp_all
    have "owner_rows (member_rows sr' org) = {mb_user_id (?f x) | x. x \<in> set (sr_memberships sr) \<and> mb_organization_id (?f x) = org
        \<and> mb_role (?f x) = ''owner'' \<and> mb_removed_at (?f x) = None}"
      unfolding owner_rows_def member_rows_def r(5) set_row_def by auto
    also have "\<dots> = {mb_user_id x | x. x \<in> set (sr_memberships sr) \<and> mb_organization_id x = org \<and> mb_role x = ''owner'' \<and> mb_removed_at x = None}"
      unfolding k using o by blast
    also have "\<dots> = owner_rows (member_rows sr org)" unfolding owner_rows_def member_rows_def by auto
    finally show ?thesis .
  qed
  with who others show ?thesis by (auto simp: authorized_def)
qed

text \<open>C16. Nobody takes ownership for themselves: a member operation changes the members of at most one organization, and only an active
  owner of it changes who its owners are; an active admin may change its other members, and a platform administrator may give an
  organization that has no active owner its first one. Anyone else changes no membership at all.\<close>

theorem ownership_by_owners:
  assumes "member_step actor sr sr'" "members_wf sr"
  shows "\<exists>org. (\<forall>o'. o' \<noteq> org \<longrightarrow> member_rows sr' o' = member_rows sr o')
    \<and> (member_rows sr' org \<noteq> member_rows sr org \<longrightarrow> actor_role sr org actor = Some ''owner''
       \<or> actor_role sr org actor = Some ''admin'' \<and> owner_rows (member_rows sr' org) = owner_rows (member_rows sr org)
       \<or> platform_admin sr actor \<and> active_owner_count sr org = 0)"
proof -
  have d: "distinct (List.map mb_id (sr_memberships sr))" using assms(2) by (simp add: members_wf_def)
  have "\<exists>org. (\<forall>o'. o' \<noteq> org \<longrightarrow> member_rows sr' o' = member_rows sr o') \<and> (member_rows sr' org \<noteq> member_rows sr org \<longrightarrow> authorized sr actor org sr')"
    using assms(1)
  proof cases
    case (add draws slug email password full_name role)
    show ?thesis by (rule add_Inr [OF add(1) assms(2)]) (use attached_authorized d in blast)
  next
    case (first draws slug email password full_name)
    show ?thesis by (rule first_Inr [OF first(1) assms(2)]) (use attached_authorized d in blast)
  next
    case (change slug user role)
    from change_Inr [OF change assms(2)] row_changed_authorized assms(2) show ?thesis by blast
  next
    case (remove now slug user)
    from remove_Inr [OF remove assms(2)] row_changed_authorized assms(2) show ?thesis by blast
  next
    case (account now user is_active)
    from account_Inr [OF account] show ?thesis by (auto simp: member_rows_def)
  qed
  then show ?thesis unfolding authorized_def .
qed

definition member_server :: server where
  "member_server = account_server\<lparr>sr_accounts := [new_account 4 ''ann@lib.org'' ''Ann'' ''h'', new_account 5 ''bob@lib.org'' ''Bob'' ''k''],
     sr_memberships := [\<lparr>mb_id = 1, mb_user_id = 4, mb_organization_id = 1, mb_role = ''owner'', mb_removed_at = None\<rparr>,
       \<lparr>mb_id = 2, mb_user_id = 5, mb_organization_id = 1, mb_role = ''admin'', mb_removed_at = None\<rparr>]\<rparr>"

definition promoted_server :: server where
  "promoted_server = projr (change_organization_member_role member_server ''main'' 5 ''owner'' 4)"

lemma member_server_wf: "members_wf member_server"
  by (simp add: members_wf_def member_server_def new_account_def)

lemma promotion: "member_step 4 member_server promoted_server"
proof -
  have "\<exists>sr'. change_organization_member_role member_server ''main'' 5 ''owner'' 4 = Inr sr'"
    by (simp add: change_organization_member_role_def lock_organization_def organization_by_slug_def member_server_def
      account_server_def sample_db_def editable_statuses_def actor_role_def membership_of_def account_row_def new_account_def active_role_def
      active_member_def roles_def keep_an_owner_def is_active_owner_def)
  then have "change_organization_member_role member_server ''main'' 5 ''owner'' 4 = Inr promoted_server"
    by (auto simp: promoted_server_def)
  then show ?thesis by (rule member_step.change)
qed

lemma member_server_owner: "0 < active_owner_count member_server 1"
  by (simp add: active_owner_count_def active_owner_def is_user_active_def account_row_def member_server_def new_account_def)

theorem owner_never_lost_witness:
  "0 < active_owner_count promoted_server 1"
proof -
  obtain g where g: "g \<in> set (db_organizations (sr_db member_server))" "og_id g = 1" "og_status g \<noteq> ''cancelled''"
    by (simp add: member_server_def account_server_def sample_db_def)
  have "member_steps member_server promoted_server" by (rule member_steps.more [OF member_steps.none promotion])
  from owner_never_lost [OF this member_server_wf g(1,3)] member_server_owner g(2) show ?thesis by simp
qed

theorem ownership_by_owners_witness:
  "\<exists>org. \<forall>o'. o' \<noteq> org \<longrightarrow> member_rows promoted_server o' = member_rows member_server o'"
  using ownership_by_owners [OF promotion member_server_wf] by blast

section \<open>What a user may read, checked\<close>

text \<open>C17. A reader reaches only a tenant they belong to: an operational tenant is resolved for a user only through a membership of theirs that
  is not removed, with an active account, to a mapped and active branch of that very organization, and only while its status gives
  access; the ids handed on are those of that organization and branch.\<close>

theorem reader_reaches_own_tenant:
  "resolve_operational_tenant sr user org_slug branch_slug = Some t \<Longrightarrow>
    \<exists>m \<in> set (sr_memberships sr). \<exists>u \<in> set (sr_accounts sr). \<exists>g \<in> set (db_organizations (sr_db sr)). \<exists>b \<in> set (db_branches (sr_db sr)).
      mb_user_id m = user \<and> mb_removed_at m = None \<and> us_id u = user \<and> us_is_active u
      \<and> og_id g = mb_organization_id m \<and> og_slug g = org_slug \<and> og_status g \<in> {''active'', ''trial'', ''suspended''}
      \<and> br_organization_id b = og_id g \<and> br_slug b = branch_slug \<and> br_status b = ''active''
      \<and> og_operational_customer_id g = Some (rs_customer_id t) \<and> br_operational_branch_id b = Some (rs_branch_id t)
      \<and> rs_access_mode t = access_mode_for_organization_status (og_status g)"
proof -
  assume r: "resolve_operational_tenant sr user org_slug branch_slug = Some t"
  then obtain u g b where one: "take 2 (tenant_rows sr user org_slug branch_slug) = [(u, g, b)]"
    by (auto simp: resolve_operational_tenant_def split: list.splits prod.splits)
  have "(u, g, b) \<in> set (take 2 (tenant_rows sr user org_slug branch_slug))" unfolding one by simp
  then have "(u, g, b) \<in> set (tenant_rows sr user org_slug branch_slug)" by (rule in_set_takeD)
  then obtain m where m: "m \<in> set (sr_memberships sr)" "mb_user_id m = user" "mb_removed_at m = None" "u \<in> set (sr_accounts sr)"
    "us_id u = mb_user_id m" "g \<in> set (db_organizations (sr_db sr))" "og_id g = mb_organization_id m" "og_slug g = org_slug"
    "b \<in> set (db_branches (sr_db sr))" "br_organization_id b = og_id g" "br_slug b = branch_slug"
    by (auto simp: tenant_rows_def)
  from r one have c: "us_is_active u" "access_mode_for_organization_status (og_status g) \<noteq> ''blocked''" "br_status b = ''active''"
    "og_operational_customer_id g = Some (rs_customer_id t)" "br_operational_branch_id b = Some (rs_branch_id t)"
    "rs_access_mode t = access_mode_for_organization_status (og_status g)"
    by (auto simp: resolve_operational_tenant_def Let_def split: if_splits option.splits)
  then have "og_status g \<in> {''active'', ''trial'', ''suspended''}"
    by (auto simp: access_mode_for_organization_status_def split: if_splits)
  with m c show ?thesis by blast
qed

theorem reader_reaches_own_tenant_witness:
  "\<exists>t. resolve_operational_tenant member_server 5 ''main'' ''central'' = Some t \<and> rs_customer_id t = 10"
proof -
  obtain t where t: "resolve_operational_tenant member_server 5 ''main'' ''central'' = Some t"
    by (simp add: resolve_operational_tenant_def tenant_rows_def member_server_def account_server_def sample_db_def new_account_def
      access_mode_for_organization_status_def)
  from reader_reaches_own_tenant [OF t] have "rs_customer_id t = 10" by (auto simp: member_server_def account_server_def sample_db_def)
  with t show ?thesis by blast
qed

end
