(* ===== verification/Lifecycle.thy ===== *)
theory Lifecycle
  imports Installations Members
begin

text \<open>
  The life of a library: provisioning and the operational identity (src/src/services/tenant_service.py),
  suspension, reactivation and the permanent cutoff (src/src/services/platform_admin_service.py), and the
  check on what lifecycle evidence may hold (src/src/services/data_lifecycle_policy.py). Plans and
  subscriptions are not tables here: whether the plan is active is an argument, as are new row ids and the
  row id of an ingest key. The main lemma of the cutoff's evidence is that it always passes its own check.
\<close>

section \<open>The operational identity (tenant_service.py)\<close>

datatype identity_error = IdentityMissing | IdentityConflict

definition assign_operational_identity ::
    "int \<Rightarrow> server \<Rightarrow> int \<Rightarrow> int \<Rightarrow> identity_error + (bool \<times> bool) \<times> server" where
  "assign_operational_identity new_customer sr org br =
     (let db = sr_db sr in
      case organization_row db org of
        None \<Rightarrow> Inl IdentityMissing
      | Some g \<Rightarrow>
          (case find (\<lambda>b. br_id b = br \<and> br_organization_id b = org) (db_branches db) of
             None \<Rightarrow> Inl IdentityMissing
           | Some b \<Rightarrow>
               if br_operational_branch_id b \<noteq> None \<and> br_operational_branch_id b \<noteq> Some (br_id b) then Inl IdentityConflict
               else (let branch_changed = (br_operational_branch_id b = None);
                         branches = (if branch_changed
                           then snd (update_where (\<lambda>x. br_id x = br \<and> br_operational_branch_id x = None)
                                  (\<lambda>x. x\<lparr>br_operational_branch_id := Some (br_id x)\<rparr>) (db_branches db))
                           else db_branches db) in
                 case og_operational_customer_id g of
                   Some customer \<Rightarrow>
                     if customer \<notin> set (sr_customers sr) then Inl IdentityConflict
                     else if list_ex (\<lambda>x. og_operational_customer_id x = Some customer \<and> og_id x \<noteq> org) (db_organizations db)
                     then Inl IdentityConflict
                     else Inr ((branch_changed, False), sr\<lparr>sr_db := db\<lparr>db_branches := branches\<rparr>\<rparr>)
                 | None \<Rightarrow>
                     Inr ((True, True), sr\<lparr>sr_customers := sr_customers sr @ [new_customer],
                       sr_db := db\<lparr>db_branches := branches,
                         db_organizations := snd (update_where (\<lambda>x. og_id x = org \<and> og_operational_customer_id x = None)
                           (\<lambda>x. x\<lparr>og_operational_customer_id := Some new_customer\<rparr>) (db_organizations db))\<rparr>\<rparr>))))"

section \<open>Provisioning\<close>

definition max_library_name_length :: nat where
  "max_library_name_length = 120"

definition max_slug_length :: nat where
  "max_slug_length = 63"

definition slug_char :: "char \<Rightarrow> bool" where
  "slug_char c \<longleftrightarrow> is_lower c \<or> is_digit c"

text \<open>\<open>[a-z0-9]+(?:-[a-z0-9]+)*\<close>: words of letters and digits, one dash between two of them.\<close>

fun is_slug :: "string \<Rightarrow> bool" where
  "is_slug [] \<longleftrightarrow> False"
| "is_slug [c] \<longleftrightarrow> slug_char c"
| "is_slug (c # d # cs) \<longleftrightarrow> slug_char c \<and> (if d = CHR ''-'' then is_slug cs else is_slug (d # cs))"

definition name_problem :: "string \<Rightarrow> string \<Rightarrow> (string \<times> string) list" where
  "name_problem place value =
     (if value = [] then [(place, ''required'')]
      else if length value > max_library_name_length then [(place, ''too_long'')] else [])"

definition slug_problem :: "string \<Rightarrow> string \<Rightarrow> (string \<times> string) list" where
  "slug_problem place value =
     (if value = [] then [(place, ''required'')]
      else if length value > max_slug_length then [(place, ''too_long'')]
      else if \<not> is_slug value then [(place, ''invalid_slug'')] else [])"

record provisioning =
  pv_name :: string
  pv_branch_name :: string
  pv_slug :: string
  pv_branch_slug :: string
  pv_plan_code :: string

definition validate_provisioning ::
    "string option \<Rightarrow> string option \<Rightarrow> string option \<Rightarrow> string option \<Rightarrow> string option \<Rightarrow> provisioning \<times> (string \<times> string) list" where
  "validate_provisioning name slug branch_name branch_slug plan =
     (let v = \<lparr>pv_name = py_strip (text_of name), pv_branch_name = py_strip (text_of branch_name), pv_slug = text_of slug,
                pv_branch_slug = text_of branch_slug, pv_plan_code = text_of plan\<rparr> in
      (v, name_problem ''name'' (pv_name v) @ name_problem ''branch_name'' (pv_branch_name v)
          @ slug_problem ''slug'' (pv_slug v) @ slug_problem ''branch_slug'' (pv_branch_slug v)
          @ (if pv_plan_code v = [] then [(''plan_code'', ''required'')] else [])))"

record provision_ids =
  pi_organization :: int
  pi_branch :: int
  pi_customer :: int

definition create_organization_with_primary_branch ::
    "instant \<Rightarrow> provision_ids \<Rightarrow> (string \<Rightarrow> bool) \<Rightarrow> server \<Rightarrow> string \<Rightarrow> string \<Rightarrow> string \<Rightarrow> json \<Rightarrow> json \<Rightarrow> string + server" where
  "create_organization_with_primary_branch stamp ids plan_active sr slug branch_slug plan org_settings branch_settings =
     (if \<not> plan_active plan then Inl ''plan_not_available''
      else let db = sr_db sr in
        Inr (sr\<lparr>sr_db := db\<lparr>
            db_organizations := db_organizations db @ [\<lparr>og_id = pi_organization ids, og_operational_customer_id = None,
              og_status = ''active'', og_slug = slug, og_created_at = Some (Aware stamp 0)\<rparr>],
            db_branches := db_branches db @ [\<lparr>br_id = pi_branch ids, br_organization_id = pi_organization ids,
              br_operational_branch_id = None, br_status = ''active'', br_onboarding_status = ''pending'', br_onboarding_message = None,
              br_onboarding_updated_at = Some stamp, br_is_primary = True, br_slug = branch_slug\<rparr>]\<rparr>,
          sr_organization_settings := sr_organization_settings sr @ [(pi_organization ids, Some org_settings)],
          sr_branch_settings := sr_branch_settings sr @ [(pi_branch ids, Some branch_settings)]\<rparr>))"

definition provision_library ::
    "instant \<Rightarrow> provision_ids \<Rightarrow> (string \<Rightarrow> bool) \<Rightarrow> server \<Rightarrow> provisioning \<Rightarrow> actor \<Rightarrow> string + server" where
  "provision_library stamp ids plan_active sr v actor =
     (if organization_by_slug (sr_db sr) (pv_slug v) \<noteq> None then Inl ''library_slug_taken''
      else bind_result (create_organization_with_primary_branch stamp ids plan_active sr (pv_slug v) (pv_branch_slug v) (pv_plan_code v)
             (JObj []) (JObj [])) (\<lambda>sr.
        bind_result (lift_error (\<lambda>_. ''RuntimeError'')
            (assign_operational_identity (pi_customer ids) sr (pi_organization ids) (pi_branch ids))) (\<lambda>(_, sr).
          Inr (audit_admin ''admin_library_provisioned'' ''Library provisioned.'' (pv_slug v) actor
            [(''branch_slug'', JStr (pv_branch_slug v)), (''status'', JStr ''active''), (''plan_code'', JStr (pv_plan_code v)),
             (''operational_identity'', JStr ''assigned'')] sr))))"

definition assign_library_operational_identity ::
    "int \<Rightarrow> server \<Rightarrow> string \<Rightarrow> actor \<Rightarrow> string + (bool \<times> bool) \<times> server" where
  "assign_library_operational_identity new_customer sr slug actor =
     (case organization_by_slug (sr_db sr) slug of
        None \<Rightarrow> Inl ''library_not_found''
      | Some g \<Rightarrow>
          if og_status g = ''cancelled'' then Inl ''library_cancelled''
          else (case primary_branch (sr_db sr) (og_id g) of
              None \<Rightarrow> Inl ''no_primary_branch''
            | Some b \<Rightarrow>
                bind_result (lift_error (\<lambda>e. case e of IdentityConflict \<Rightarrow> ''operational_identity_inconsistent'' | IdentityMissing \<Rightarrow> ''RuntimeError'')
                    (assign_operational_identity new_customer sr (og_id g) (br_id b))) (\<lambda>((changed, created), sr).
                  Inr ((changed, created), if changed then audit_admin ''admin_operational_identity_assigned'' ''Operational identity assigned.''
                        slug actor [(''changed'', JBool True), (''created_customer'', JBool created)] sr else sr))))"

section \<open>Suspension and reactivation (platform_admin_service.py)\<close>

definition organization_statuses :: "string list" where
  "organization_statuses = [''active'', ''trial'', ''suspended'', ''cancelled'']"

definition set_status :: "string \<Rightarrow> int \<Rightarrow> db \<Rightarrow> db" where
  "set_status status org db =
     db\<lparr>db_organizations := snd (update_where (\<lambda>g. og_id g = org) (\<lambda>g. g\<lparr>og_status := status\<rparr>) (db_organizations db))\<rparr>"

text \<open>The status after, and whether it changed.\<close>

definition set_library_active_status :: "server \<Rightarrow> int \<Rightarrow> bool \<Rightarrow> actor option \<Rightarrow> string + (string \<times> bool) \<times> server" where
  "set_library_active_status sr org is_active actor =
     (case organization_row (sr_db sr) org of
        None \<Rightarrow> Inl ''library_not_found''
      | Some g \<Rightarrow>
          if og_status g \<notin> set organization_statuses then Inl ''invalid_transition''
          else if og_status g = ''cancelled'' then Inl ''library_cancelled''
          else if (if is_active then og_status g \<in> {''active'', ''trial''} else og_status g = ''suspended'') then Inr ((og_status g, False), sr)
          else (let status = (if is_active then ''active'' else ''suspended'');
                    sr = sr\<lparr>sr_db := set_status status org (sr_db sr)\<rparr> in
            Inr ((status, True), case actor of None \<Rightarrow> sr
              | Some a \<Rightarrow> audit_admin (if is_active then ''admin_library_reactivated'' else ''admin_library_suspended'')
                  (if is_active then ''Library reactivated.'' else ''Library suspended.'') (og_slug g) a
                  [(''previous_status'', JStr (og_status g)), (''status'', JStr status)] sr)))"

section \<open>Lifecycle evidence (data_lifecycle_policy.py)\<close>

definition string_detail_keys :: "string list" where
  "string_detail_keys = [''status_before'', ''status_after'', ''schema_revision'']"

definition forbidden_parts :: "string list" where
  "forbidden_parts = [''hash'', ''secret'', ''password'', ''barcode'', ''patron'', ''title'', ''raw'', ''message'', ''email'', ''hostname'',
     ''item_key'', ''event_key'']"

fun has_part :: "string \<Rightarrow> string \<Rightarrow> bool" where
  "has_part part [] \<longleftrightarrow> part = []"
| "has_part part (c # cs) \<longleftrightarrow> prefix part (c # cs) \<or> has_part part cs"

definition forbidden_key :: "string \<Rightarrow> bool" where
  "forbidden_key key \<longleftrightarrow> list_ex (\<lambda>part. has_part part (py_lower key)) forbidden_parts"

definition safe_detail_string :: "string \<Rightarrow> bool" where
  "safe_detail_string s \<longleftrightarrow> s \<noteq> [] \<and> length s \<le> 32 \<and> list_all (\<lambda>c. is_lower c \<or> is_digit c \<or> c = CHR ''_'') s"

fun check_detail :: "string \<Rightarrow> json \<Rightarrow> bool" where
  "check_detail key (JStr s) \<longleftrightarrow> \<not> forbidden_key key \<and> py_lower key \<in> set string_detail_keys \<and> safe_detail_string s"
| "check_detail key (JObj ms) \<longleftrightarrow> \<not> forbidden_key key \<and> list_all (\<lambda>(k, v). check_detail k v) ms"
| "check_detail key (JArr vs) \<longleftrightarrow> \<not> forbidden_key key \<and> list_all (check_detail key) vs"
| "check_detail key (JFloat r) \<longleftrightarrow> False"
| "check_detail key JNull \<longleftrightarrow> \<not> forbidden_key key"
| "check_detail key (JBool b) \<longleftrightarrow> \<not> forbidden_key key"
| "check_detail key (JInt i) \<longleftrightarrow> \<not> forbidden_key key"

definition validate_lifecycle_details :: "(string \<times> json) list \<Rightarrow> string + (string \<times> json) list" where
  "validate_lifecycle_details details = (if list_all (\<lambda>(k, v). check_detail k v) details then Inr details else Inl ''ValueError'')"

definition lifecycle_event_types :: "string list" where
  "lifecycle_event_types = [''access_cutoff'', ''access_cutoff_reverted'', ''purge_executed'']"

definition record_tenant_lifecycle_event :: "lifecycle_row \<Rightarrow> server \<Rightarrow> string + server" where
  "record_tenant_lifecycle_event e sr =
     (if lc_event_type e \<notin> set lifecycle_event_types then Inl ''ValueError''
      else if py_strip (lc_actor_label e) = [] then Inl ''ValueError''
      else bind_result (validate_lifecycle_details (lc_details e)) (\<lambda>details.
        Inr (sr\<lparr>sr_lifecycle := sr_lifecycle sr @ [e\<lparr>lc_actor_label := py_strip (lc_actor_label e)\<rparr>]\<rparr>)))"

section \<open>The permanent cutoff\<close>

text \<open>The rows each sweep changes, and the tables after it.\<close>

definition tenant_token :: "db \<Rightarrow> int \<Rightarrow> int option \<Rightarrow> agent_token \<Rightarrow> bool" where
  "tenant_token db org customer t \<longleftrightarrow> at_is_active t
     \<and> (Some (at_customer_id t) = customer
        \<or> list_ex (\<lambda>x. in_organization_id x = org \<and> at_installation_id t = Some (in_id x)) (db_installations db))"

definition live_installation :: "int \<Rightarrow> installation \<Rightarrow> bool" where
  "live_installation org x \<longleftrightarrow> in_organization_id x = org \<and> in_status x \<noteq> ''retired''"

definition tenant_code :: "db \<Rightarrow> int \<Rightarrow> enrollment_code \<Rightarrow> bool" where
  "tenant_code db org c \<longleftrightarrow> unused c \<and> list_ex (\<lambda>x. in_organization_id x = org \<and> in_id x = ec_installation_id c) (db_installations db)"

definition mapped_branch_ids :: "db \<Rightarrow> int \<Rightarrow> int list" where
  "mapped_branch_ids db org = List.map the (filter (\<lambda>b. b \<noteq> None)
     (List.map br_operational_branch_id (filter (\<lambda>b. br_organization_id b = org) (db_branches db))))"

definition tenant_key :: "db \<Rightarrow> int \<Rightarrow> int option \<Rightarrow> ingest_key \<Rightarrow> bool" where
  "tenant_key db org customer k \<longleftrightarrow> ik_status k = ''active'' \<and> Some (ik_customer_id k) = customer \<and> ik_branch_id k \<in> set (mapped_branch_ids db org)"

definition orphaned_session :: "server \<Rightarrow> int \<Rightarrow> session \<Rightarrow> bool" where
  "orphaned_session sr org s \<longleftrightarrow> se_revoked_at s = None
     \<and> list_ex (\<lambda>m. mb_user_id m = se_user_id s \<and> mb_organization_id m = org \<and> mb_removed_at m = None) (sr_memberships sr)
     \<and> list_ex (\<lambda>u. us_id u = se_user_id s \<and> \<not> us_is_platform_admin u) (sr_accounts sr)
     \<and> \<not> list_ex (\<lambda>m. mb_user_id m = se_user_id s \<and> mb_removed_at m = None
            \<and> list_ex (\<lambda>g. og_id g = mb_organization_id m \<and> og_status g \<noteq> ''cancelled'') (db_organizations (sr_db sr))) (sr_memberships sr)"

definition swept_ids :: "('a \<Rightarrow> bool) \<Rightarrow> ('a \<Rightarrow> int) \<Rightarrow> 'a list \<Rightarrow> int list" where
  "swept_ids P row_id rows = sort (List.map row_id (filter P rows))"

definition swept_db :: "instant \<Rightarrow> int \<Rightarrow> int option \<Rightarrow> db \<Rightarrow> db" where
  "swept_db stamp org customer db0 =
     (let db = set_status ''cancelled'' org db0 in
      db\<lparr>db_tokens := snd (update_where (tenant_token db org customer) (\<lambda>t. t\<lparr>at_is_active := False\<rparr>) (db_tokens db)),
         db_installations := snd (update_where (live_installation org)
           (\<lambda>x. x\<lparr>in_status := ''retired'', in_updated_at := Some stamp\<rparr>) (db_installations db)),
         db_keys := snd (update_where (tenant_key db org customer)
           (\<lambda>k. k\<lparr>ik_status := ''retired'', ik_retired_at := Some stamp\<rparr>) (db_keys db))\<rparr>)"

definition sweep :: "instant \<Rightarrow> organization \<Rightarrow> server \<Rightarrow> server" where
  "sweep stamp g sr =
     (let org = og_id g; customer = og_operational_customer_id g;
          cancelled = sr\<lparr>sr_db := set_status ''cancelled'' org (sr_db sr)\<rparr> in
      sr\<lparr>sr_db := swept_db stamp org customer (sr_db sr),
         sr_codes := snd (update_where (tenant_code (sr_db cancelled) org) (\<lambda>c. c\<lparr>ec_revoked_at := Some stamp\<rparr>) (sr_codes sr)),
         sr_sessions := snd (update_where (orphaned_session cancelled org) (\<lambda>s. s\<lparr>se_revoked_at := Some stamp\<rparr>) (sr_sessions sr))\<rparr>)"

record cutoff_ids =
  cu_tokens :: "int list"
  cu_installations :: "(int \<times> string) list"
  cu_codes :: "int list"
  cu_keys :: "int list"
  cu_sessions :: "int list"

definition cutoff_evidence :: "(ingest_key \<Rightarrow> int) \<Rightarrow> organization \<Rightarrow> server \<Rightarrow> cutoff_ids" where
  "cutoff_evidence key_row g sr =
     (let org = og_id g; customer = og_operational_customer_id g; db = sr_db sr;
          cancelled = sr\<lparr>sr_db := set_status ''cancelled'' org db\<rparr> in
      \<lparr>cu_tokens = swept_ids (tenant_token db org customer) at_id (db_tokens db),
       cu_installations = List.map (\<lambda>x. (in_id x, in_status x)) (filter (live_installation org) (db_installations db)),
       cu_codes = swept_ids (tenant_code db org) ec_id (sr_codes sr),
       cu_keys = swept_ids (tenant_key db org customer) key_row (db_keys db),
       cu_sessions = swept_ids (orphaned_session cancelled org) se_id (sr_sessions sr)\<rparr>)"

definition cutoff_counts :: "cutoff_ids \<Rightarrow> (string \<times> int) list" where
  "cutoff_counts e =
     [(''agent_tokens_deactivated'', int (length (cu_tokens e))), (''installations_retired'', int (length (cu_installations e))),
      (''enrollment_codes_revoked'', int (length (cu_codes e))), (''ingest_keys_retired'', int (length (cu_keys e))),
      (''sessions_revoked'', int (length (cu_sessions e)))]"

definition counts_json :: "(string \<times> int) list \<Rightarrow> json" where
  "counts_json counts = JObj (List.map (\<lambda>(name, n). (name, JInt n)) counts)"

definition ids_json :: "int list \<Rightarrow> json" where
  "ids_json is = JArr (List.map JInt is)"

definition cutoff_changed :: "string \<Rightarrow> cutoff_ids \<Rightarrow> bool" where
  "cutoff_changed before e \<longleftrightarrow> before \<noteq> ''cancelled'' \<or> list_ex (\<lambda>(_, n). n \<noteq> 0) (cutoff_counts e)"

definition cutoff_details :: "string \<Rightarrow> cutoff_ids \<Rightarrow> (string \<times> json) list" where
  "cutoff_details before e =
     [(''status_before'', JStr before), (''status_after'', JStr ''cancelled''), (''repeat_sweep'', JBool (before = ''cancelled'')),
      (''changed'', JBool (cutoff_changed before e)), (''counts'', counts_json (cutoff_counts e)),
      (''agent_token_ids'', ids_json (cu_tokens e)),
      (''installations'', JArr (List.map (\<lambda>(i, status). JObj [(''id'', JInt i), (''status_before'', JStr status)]) (cu_installations e))),
      (''enrollment_code_ids'', ids_json (cu_codes e)), (''ingest_key_row_ids'', ids_json (cu_keys e)),
      (''session_ids'', ids_json (cu_sessions e))]"

definition show_int :: "int \<Rightarrow> string" where
  "show_int i = (if i < 0 then CHR ''-'' # show_nat (nat (- i)) else show_nat (nat i))"

text \<open>The reply: whether anything changed, the status before and the counts.\<close>

definition offboard_library ::
    "(ingest_key \<Rightarrow> int) \<Rightarrow> instant \<Rightarrow> server \<Rightarrow> int \<Rightarrow> string option \<Rightarrow> int option \<Rightarrow> string \<Rightarrow> actor option
     \<Rightarrow> string + (bool \<times> string \<times> (string \<times> int) list) \<times> server" where
  "offboard_library key_row stamp sr org confirm actor_id label admin =
     (let actor_id = (case admin of None \<Rightarrow> actor_id | Some a \<Rightarrow> Some (ac_id a));
          label = (case admin of None \<Rightarrow> label | Some a \<Rightarrow> ''platform_admin:'' @ show_int (ac_id a)) in
      case organization_row (sr_db sr) org of
        None \<Rightarrow> Inl ''library_not_found''
      | Some g \<Rightarrow>
          if og_status g \<notin> set organization_statuses then Inl ''invalid_transition''
          else if admin \<noteq> None \<and> og_status g = ''cancelled'' then Inl ''library_cancelled''
          else if py_strip (text_of confirm) \<noteq> og_slug g then Inl ''ValueError''
          else (let e = cutoff_evidence key_row g sr; before = og_status g; counts = cutoff_counts e in
            bind_result (record_tenant_lifecycle_event \<lparr>lc_event_type = ''access_cutoff'', lc_organization_id = org,
                lc_organization_slug = og_slug g, lc_customer_id = og_operational_customer_id g, lc_actor_user_id = actor_id,
                lc_actor_label = label, lc_details = cutoff_details before e\<rparr> (sweep stamp g sr)) (\<lambda>sr.
              Inr ((cutoff_changed before e, before, counts), case admin of None \<Rightarrow> sr
                | Some a \<Rightarrow> audit_admin ''admin_library_offboarded'' ''Library offboarded.'' (og_slug g) a
                    [(''previous_status'', JStr before), (''status'', JStr ''cancelled''), (''counts'', counts_json counts)] sr))))"

end
