(* ===== verification/TenantGrowth.thy ===== *)
theory TenantGrowth
  imports Lifecycle
begin

text \<open>
  What every operation of the server may do to the rows of its tables, whatever its arguments: \<open>server_grows\<close>. No
  organization, branch, installation, token, key, code, session or reset token is forgotten; each keeps
  its tenant, and a dead one does not come back to life. New rows have new identifiers, which the
  random draws (or the unique indexes of src/alembic/versions) provide: \<open>fresh_draws\<close> and the others.
\<close>

section \<open>Tables that only grow\<close>

text \<open>Every old row is still there, with its key and related as \<open>R\<close> says; new rows have new keys.\<close>

definition grows :: "('r \<Rightarrow> 'k) \<Rightarrow> ('r \<Rightarrow> 'r \<Rightarrow> bool) \<Rightarrow> 'r list \<Rightarrow> 'r list \<Rightarrow> bool" where
  "grows key R rows rows' \<longleftrightarrow> (\<exists>kept new. rows' = kept @ new \<and> list_all2 (\<lambda>r r'. key r' = key r \<and> R r r') rows kept
     \<and> distinct (List.map key new) \<and> key ` set new \<inter> key ` set rows = {})"

lemma grows_list: "list_all2 (\<lambda>r r'. key r' = key r \<and> R r r') rows rows' \<Longrightarrow> grows key R rows rows'"
  unfolding grows_def by (intro exI [of _ rows'] exI [of _ "[]"]) simp

lemma grows_map: "(\<And>r. r \<in> set rows \<Longrightarrow> key (f r) = key r \<and> R r (f r)) \<Longrightarrow> grows key R rows (List.map f rows)"
  by (rule grows_list) (simp add: list_all2_map2 list_all2_same)

lemma grows_refl: "(\<And>r. R r r) \<Longrightarrow> grows key R rows rows"
  by (rule grows_list) (simp add: list_all2_same)

lemma grows_update: "(\<And>r. R r r) \<Longrightarrow> (\<And>r. P r \<Longrightarrow> key (f r) = key r \<and> R r (f r)) \<Longrightarrow> grows key R rows (snd (update_where P f rows))"
  unfolding update_where_snd by (rule grows_map) simp

lemma grows_one:
  assumes "\<And>r. R r r" "key new \<notin> key ` set rows"
  shows "grows key R rows (rows @ [new])"
  unfolding grows_def by (intro exI [of _ rows] exI [of _ "[new]"]) (use assms in \<open>simp add: list_all2_same\<close>)

lemma grows_update_one:
  assumes "\<And>r. R r r" "\<And>r. P r \<Longrightarrow> key (f r) = key r \<and> R r (f r)" "key new \<notin> key ` set rows"
  shows "grows key R rows (snd (update_where P f rows) @ [new])"
  unfolding grows_def update_where_snd
  by (intro exI [of _ "List.map (\<lambda>r. if P r then f r else r) rows"] exI [of _ "[new]"])
    (use assms in \<open>simp add: list_all2_map2 list_all2_same\<close>)

lemma all2_keys: "list_all2 (\<lambda>r r'. key r' = key r \<and> R r r') rows kept \<Longrightarrow> List.map key kept = List.map key rows"
  by (induction rule: list_all2_induct) auto

lemma grows_distinct: "grows key R rows rows' \<Longrightarrow> distinct (List.map key rows) \<Longrightarrow> distinct (List.map key rows')"
proof -
  assume g: "grows key R rows rows'" and d: "distinct (List.map key rows)"
  then obtain kept new where n: "rows' = kept @ new" "list_all2 (\<lambda>r r'. key r' = key r \<and> R r r') rows kept"
    "distinct (List.map key new)" "key ` set new \<inter> key ` set rows = {}" unfolding grows_def by blast
  note k = all2_keys [OF n(2)]
  have "key ` set kept = key ` set rows" using arg_cong [OF k, of set] by simp
  then have "set (List.map key kept) \<inter> set (List.map key new) = {}" using n(4) by auto
  then show ?thesis using n(1,3) d k by (simp only: map_append distinct_append simp_thms)
qed

lemma all2_pick: "list_all2 Q xs ys \<Longrightarrow> x \<in> set xs \<Longrightarrow> \<exists>y \<in> set ys. Q x y"
  by (induction rule: list_all2_induct) auto

lemma all2_pick2: "list_all2 Q xs ys \<Longrightarrow> y \<in> set ys \<Longrightarrow> \<exists>x \<in> set xs. Q x y"
  by (induction rule: list_all2_induct) auto

lemma grows_pick: "grows key R rows rows' \<Longrightarrow> r \<in> set rows \<Longrightarrow> \<exists>r' \<in> set rows'. key r' = key r \<and> R r r'"
proof -
  assume g: "grows key R rows rows'" and r: "r \<in> set rows"
  then obtain kept new where n: "rows' = kept @ new" "list_all2 (\<lambda>r r'. key r' = key r \<and> R r r') rows kept"
    unfolding grows_def by blast
  from all2_pick [OF n(2) r] show ?thesis by (auto simp: n(1))
qed

lemma grows_back:
  assumes "grows key R rows rows'" "r' \<in> set rows'" "key r' \<in> key ` set rows" "distinct (List.map key rows)"
  shows "\<exists>r \<in> set rows. key r' = key r \<and> R r r'"
proof -
  from assms(1) obtain kept new where g: "rows' = kept @ new" "list_all2 (\<lambda>r r'. key r' = key r \<and> R r r') rows kept"
    "key ` set new \<inter> key ` set rows = {}" unfolding grows_def by blast
  have "r' \<in> set kept" using assms(2,3) g(1,3) by auto
  from all2_pick2 [OF g(2) this] show ?thesis by blast
qed

lemma grows_weaken:
  assumes "grows key R rows rows'" "\<And>r r'. R r r' \<Longrightarrow> Q r r'"
  shows "grows key Q rows rows'"
proof -
  from assms(1) obtain kept new where n: "rows' = kept @ new" "list_all2 (\<lambda>r r'. key r' = key r \<and> R r r') rows kept"
    "distinct (List.map key new)" "key ` set new \<inter> key ` set rows = {}" unfolding grows_def by blast
  have "list_all2 (\<lambda>r r'. key r' = key r \<and> Q r r') rows kept" by (rule list_all2_mono [OF n(2)]) (use assms(2) in blast)
  with n show ?thesis unfolding grows_def by blast
qed

section \<open>New values\<close>

definition fresh_draws :: "enroll_draws \<Rightarrow> server \<Rightarrow> bool" where
  "fresh_draws draws sr \<longleftrightarrow> token_hash (ed_token draws) \<notin> at_token_hash ` set (db_tokens (sr_db sr))
     \<and> ed_key_id draws \<notin> ik_key_id ` set (db_keys (sr_db sr))"

definition fresh_code :: "string \<Rightarrow> int \<Rightarrow> server \<Rightarrow> bool" where
  "fresh_code characters new_id sr \<longleftrightarrow> new_id \<notin> ec_id ` set (sr_codes sr)
     \<and> hash_enrollment_code (format_enrollment_code characters) \<notin> ec_code_hash ` set (sr_codes sr)"

definition fresh_ids :: "provision_ids \<Rightarrow> server \<Rightarrow> bool" where
  "fresh_ids ids sr \<longleftrightarrow> pi_organization ids \<notin> og_id ` set (db_organizations (sr_db sr))
     \<and> pi_branch ids \<notin> br_id ` set (db_branches (sr_db sr)) \<and> pi_customer ids \<notin> set (sr_customers sr)
     \<and> Some (pi_customer ids) \<notin> og_operational_customer_id ` set (db_organizations (sr_db sr))"

definition fresh_customer :: "int \<Rightarrow> server \<Rightarrow> bool" where
  "fresh_customer c sr \<longleftrightarrow> c \<notin> set (sr_customers sr) \<and> Some c \<notin> og_operational_customer_id ` set (db_organizations (sr_db sr))"

section \<open>What a step may do to a row\<close>

definition org_follows :: "organization \<Rightarrow> organization \<Rightarrow> bool" where
  "org_follows g g' \<longleftrightarrow> og_slug g' = og_slug g \<and> (og_operational_customer_id g \<noteq> None \<longrightarrow> og_operational_customer_id g' = og_operational_customer_id g)
     \<and> (og_status g = ''cancelled'' \<longrightarrow> og_status g' = ''cancelled'')"

definition branch_follows :: "branch \<Rightarrow> branch \<Rightarrow> bool" where
  "branch_follows b b' \<longleftrightarrow> br_organization_id b' = br_organization_id b
     \<and> (br_operational_branch_id b' = br_operational_branch_id b \<or> br_operational_branch_id b = None \<and> br_operational_branch_id b' = Some (br_id b))"

definition installation_follows :: "installation \<Rightarrow> installation \<Rightarrow> bool" where
  "installation_follows x x' \<longleftrightarrow> in_organization_id x' = in_organization_id x \<and> in_branch_id x' = in_branch_id x
     \<and> in_required_contract x' = in_required_contract x \<and> (in_status x = ''retired'' \<longrightarrow> in_status x' = ''retired'')"

definition token_follows :: "agent_token \<Rightarrow> agent_token \<Rightarrow> bool" where
  "token_follows t t' \<longleftrightarrow> at_customer_id t' = at_customer_id t \<and> at_branch_id t' = at_branch_id t
     \<and> at_installation_id t' = at_installation_id t \<and> (at_is_active t' \<longrightarrow> at_is_active t)"

definition key_follows :: "ingest_key \<Rightarrow> ingest_key \<Rightarrow> bool" where
  "key_follows k k' \<longleftrightarrow> ik_customer_id k' = ik_customer_id k \<and> ik_branch_id k' = ik_branch_id k
     \<and> ik_installation_id k' = ik_installation_id k \<and> (ik_status k' = ''active'' \<longrightarrow> ik_status k = ''active'')"

definition code_follows :: "enrollment_code \<Rightarrow> enrollment_code \<Rightarrow> bool" where
  "code_follows c c' \<longleftrightarrow> ec_id c' = ec_id c \<and> ec_code_hash c' = ec_code_hash c \<and> ec_installation_id c' = ec_installation_id c
     \<and> ec_required_contract c' = ec_required_contract c \<and> ec_expires_at c' = ec_expires_at c \<and> (unused c' \<longrightarrow> unused c)"

definition session_follows :: "session \<Rightarrow> session \<Rightarrow> bool" where
  "session_follows s s' \<longleftrightarrow> se_user_id s' = se_user_id s \<and> se_expires_at s' = se_expires_at s
     \<and> (se_revoked_at s' = None \<longrightarrow> se_revoked_at s = None)"

definition reset_follows :: "reset_token \<Rightarrow> reset_token \<Rightarrow> bool" where
  "reset_follows t t' \<longleftrightarrow> rt_user_id t' = rt_user_id t \<and> rt_expires_at t' = rt_expires_at t \<and> (rt_used_at t' = None \<longrightarrow> rt_used_at t = None)"

lemma follows_refl [simp]:
  "org_follows g g" "branch_follows b b" "installation_follows x x" "token_follows t t" "key_follows k k" "code_follows c c"
  "session_follows s s" "reset_follows r r"
  by (simp_all add: org_follows_def branch_follows_def installation_follows_def token_follows_def key_follows_def code_follows_def
    session_follows_def reset_follows_def)

definition db_grows :: "db \<Rightarrow> db \<Rightarrow> bool" where
  "db_grows db db' \<longleftrightarrow> grows og_id org_follows (db_organizations db) (db_organizations db')
     \<and> grows br_id branch_follows (db_branches db) (db_branches db')
     \<and> grows in_id installation_follows (db_installations db) (db_installations db')
     \<and> grows at_token_hash token_follows (db_tokens db) (db_tokens db')
     \<and> grows ik_key_id key_follows (db_keys db) (db_keys db')"

definition server_grows :: "server \<Rightarrow> server \<Rightarrow> bool" where
  "server_grows sr sr' \<longleftrightarrow> db_grows (sr_db sr) (sr_db sr')
     \<and> grows ec_code_hash code_follows (sr_codes sr) (sr_codes sr') \<and> grows ec_id code_follows (sr_codes sr) (sr_codes sr')
     \<and> grows se_token_hash session_follows (sr_sessions sr) (sr_sessions sr')
     \<and> grows rt_token_hash reset_follows (sr_resets sr) (sr_resets sr')"

definition tables_wf :: "server \<Rightarrow> bool" where
  "tables_wf sr \<longleftrightarrow> distinct (List.map og_id (db_organizations (sr_db sr))) \<and> mapped_branches (sr_db sr)
     \<and> distinct (List.map in_id (db_installations (sr_db sr))) \<and> distinct (List.map at_token_hash (db_tokens (sr_db sr)))
     \<and> distinct (List.map ik_key_id (db_keys (sr_db sr))) \<and> codes_wf (sr_codes sr)
     \<and> distinct (List.map se_token_hash (sr_sessions sr)) \<and> distinct (List.map rt_token_hash (sr_resets sr))"

lemmas same_rows = grows_refl [of org_follows og_id] grows_refl [of branch_follows br_id] grows_refl [of installation_follows in_id]
  grows_refl [of token_follows at_token_hash] grows_refl [of key_follows ik_key_id] grows_refl [of code_follows ec_code_hash]
  grows_refl [of code_follows ec_id] grows_refl [of session_follows se_token_hash] grows_refl [of reset_follows rt_token_hash]

lemma db_grows_refl [simp]: "db_grows db db"
  by (simp add: db_grows_def same_rows)

lemma server_grows_db:
  "db_grows (sr_db sr) (sr_db sr') \<Longrightarrow> sr_codes sr' = sr_codes sr \<Longrightarrow> sr_sessions sr' = sr_sessions sr \<Longrightarrow> sr_resets sr' = sr_resets sr
    \<Longrightarrow> server_grows sr sr'"
  by (simp add: server_grows_def same_rows)

lemma grows_used:
  "grows ec_code_hash code_follows codes (used_at stamp i codes)" "grows ec_id code_follows codes (used_at stamp i codes)"
  unfolding used_at_def by (rule grows_map, simp add: code_follows_def unused_def)+

section \<open>The growth of each operation\<close>

lemma enroll_grows:
  assumes "collector_enroll env now stamp draws hostname version sr raw requested = (Enrolled e, sr')" "fresh_draws draws sr" "tables_wf sr"
  shows "server_grows sr sr'"
proof -
  have wf: "codes_wf (sr_codes sr)" using assms(3) by (simp add: tables_wf_def)
  have "redeem_enrollment_code env now stamp draws hostname version sr raw requested = Inr (e, sr')"
    by (rule enroll_cases [of env now stamp draws hostname version sr raw requested]) (use assms(1) in auto)
  from redeem_applied [OF this wf] obtain c :: enrollment_code and sc :: scope and contract :: int and description t why where s: "sr' = sr\<lparr>sr_codes := used_at stamp (ec_id c) (sr_codes sr),
            sr_db := (sr_db sr)\<lparr>db_tokens := db_tokens (sr_db sr) @ [bound_token draws sc description],
               db_keys := db_keys (sr_db sr) @ (if contract = 2 then [owned_key (ed_key_id draws) sc] else []),
               db_cutovers := db_cutovers (sr_db sr) @ (if contract = 2 then [first_cutover stamp t why sc] else [])\<rparr>\<rparr>"
    unfolding enrollment_applied_def by blast
  have t: "grows at_token_hash token_follows ts (ts @ [bound_token draws sc description])" if "token_hash (ed_token draws) \<notin> at_token_hash ` set ts" for ts
    by (rule grows_one) (use that in \<open>simp_all add: bound_token_def\<close>)
  have k: "grows ik_key_id key_follows ks (ks @ (if contract = 2 then [owned_key (ed_key_id draws) sc] else []))"
    if "ed_key_id draws \<notin> ik_key_id ` set ks" for ks
    by (cases "contract = 2") (use that in \<open>simp_all add: same_rows grows_one owned_key_def\<close>)
  show ?thesis using assms(2) by (simp add: s server_grows_def db_grows_def same_rows grows_used t k fresh_draws_def)
qed

definition last_used :: "instant \<Rightarrow> int \<Rightarrow> agent_token list \<Rightarrow> agent_token list" where
  "last_used now i ts = snd (update_where (\<lambda>t. at_id t = i) (\<lambda>t. t\<lparr>at_last_used_at := Some now\<rparr>) ts)"

lemma grows_last_used: "grows at_token_hash token_follows ts (last_used now i ts)"
  unfolding last_used_def by (rule grows_update) (simp_all add: token_follows_def)

lemma upload_tokens:
  assumes "upload_transaction now db authorization r = Inr (counts, db')"
  shows "\<exists>i. db_tokens db' = last_used now i (db_tokens db)"
proof -
  from assms obtain token db1 events where a: "authenticate now db authorization None = Inr (token, db1)"
    and d: "db' = (if sum_list (List.map (\<lambda>kind. counted counts (kind @ ''_inserted'')) kinds) > 0
        then snd (mark_branch_ready now (db1\<lparr>db_events := events\<rparr>) token) else db1\<lparr>db_events := events\<rparr>)"
    by (auto simp: upload_transaction_def Let_def)
  have "db_tokens (snd (mark_branch_ready now x token)) = db_tokens x" for x by (simp add: mark_branch_ready_def update_where_def)
  with a d show ?thesis by (auto simp: authenticate_Inr last_used_def)
qed

lemma status_tokens:
  assumes "status_transaction now db authorization q = Inr db'"
  shows "\<exists>i. db_tokens db' = last_used now i (db_tokens db)"
proof -
  from assms obtain token db1 where a: "authenticate now db authorization None = Inr (token, db1)"
    and s: "(let (stored, db) = record_heartbeat now db1 (tr_customer_id token) (tr_branch_id token) q in
       if \<not> stored then Inl 403
       else case tr_installation_id token of None \<Rightarrow> Inr db | Some i \<Rightarrow> record_installation_heartbeat now db token i None) = Inr db'"
    unfolding status_transaction_def bind_result_Inr by fastforce
  have r: "db_tokens db2 = db_tokens db1" if "record_heartbeat now db1 c b q = (st, db2)" for db1 c b st db2
    using that by (auto simp: record_heartbeat_def update_where_def)
  have i: "db_tokens db3 = db_tokens db2" if "record_installation_heartbeat now db2 token j None = Inr db3" for j db2 db3
    using that by (auto simp: record_installation_heartbeat_def update_where_def Let_def split: option.splits if_splits list.splits)
  from a s show ?thesis
    by (auto simp: authenticate_Inr last_used_def Let_def split: prod.splits if_splits option.splits dest!: r i)
qed

lemma upload_grows:
  assumes "upload_v2 sv now authorization body db = (reply, db')"
  shows "db_grows db db'"
proof (rule upload_v2_cases [of body now db authorization sv])
  fix j r counts db''
  assume t: "upload_transaction now db authorization r = Inr (counts, db'')" and u: "\<exists>b. upload_v2 sv now authorization body db = ((200, b), db'')"
  have e: "db'' = db'" using u assms by auto
  obtain token where f: "same_registry db db''" "list_all2 (branch_step now token) (db_branches db) (db_branches db'')"
    by (rule upload_transaction_Inr [OF t]) (rule that; assumption)
  obtain i where k: "db_tokens db'' = last_used now i (db_tokens db)" using upload_tokens [OF t] by blast
  have "list_all2 (\<lambda>b b'. br_id b' = br_id b \<and> branch_follows b b') (db_branches db) (db_branches db'')"
    by (rule list_all2_mono [OF f(2)]) (auto simp: branch_step_def branch_follows_def)
  then have "grows br_id branch_follows (db_branches db) (db_branches db'')" by (rule grows_list)
  then show ?thesis using f(1) by (simp add: e [symmetric] db_grows_def same_registry_def k same_rows grows_last_used)
next
  assume "snd (upload_v2 sv now authorization body db) = db"
  then show ?thesis using assms by simp
qed

lemma heartbeat_grows:
  assumes "status_v2 sv now authorization body db = (reply, db')"
  shows "db_grows db db'"
proof (rule status_v2_cases [of body now db authorization sv])
  fix j q db''
  assume t: "status_transaction now db authorization q = Inr db''" and u: "\<exists>b. status_v2 sv now authorization body db = ((200, b), db'')"
  have e: "db'' = db'" using u assms by auto
  obtain token where f: "list_all2 (key_step now token q) (db_keys db) (db_keys db'')"
    "list_all2 (installation_step now token) (db_installations db) (db_installations db'')"
    "db_branches db'' = db_branches db" "db_organizations db'' = db_organizations db"
    by (rule status_transaction_Inr [OF t]) (rule that; assumption)
  obtain i where k: "db_tokens db'' = last_used now i (db_tokens db)" using status_tokens [OF t] by blast
  have "list_all2 (\<lambda>k k'. ik_key_id k' = ik_key_id k \<and> key_follows k k') (db_keys db) (db_keys db'')"
    by (rule list_all2_mono [OF f(1)]) (auto simp: key_step_def key_follows_def split: if_splits)
  moreover have "list_all2 (\<lambda>x x'. in_id x' = in_id x \<and> installation_follows x x') (db_installations db) (db_installations db'')"
    by (rule list_all2_mono [OF f(2)])
      (auto simp: installation_step_def installation_follows_def installation_heartbeat_statuses_def split: if_splits)
  ultimately show ?thesis using f(3,4) by (simp add: e [symmetric] db_grows_def k same_rows grows_last_used grows_list)
next
  assume "snd (status_v2 sv now authorization body db) = db"
  then show ?thesis using assms by simp
qed

section \<open>The administrators' operations\<close>

lemma guard_Inr: "(if b then Inl e else r) = Inr a \<longleftrightarrow> \<not> b \<and> r = Inr a"
  by simp

lemma db_grows_installations:
  "grows in_id installation_follows (db_installations db) rows \<Longrightarrow> db_grows db (db\<lparr>db_installations := rows\<rparr>)"
  by (simp add: db_grows_def same_rows)

lemma db_grows_tokens: "grows at_token_hash token_follows (db_tokens db) rows \<Longrightarrow> db_grows db (db\<lparr>db_tokens := rows\<rparr>)"
  by (simp add: db_grows_def same_rows)

lemma db_grows_keys: "grows ik_key_id key_follows (db_keys db) rows \<Longrightarrow> db_grows db (db\<lparr>db_keys := rows\<rparr>)"
  by (simp add: db_grows_def same_rows)

lemma insert_installation_Inr:
  assumes "insert_collector_installation new_id sr org br name status contract = Inr sr'"
  shows "\<exists>x g. in_id x = new_id \<and> in_organization_id x = org \<and> in_branch_id x = br \<and> in_status x = status \<and> in_required_contract x = contract
    \<and> organization_row (sr_db sr) org = Some g \<and> og_status g \<noteq> ''cancelled'' \<and> contract \<in> set supported_contracts
    \<and> (\<exists>b \<in> set (db_branches (sr_db sr)). br_id b = br \<and> br_organization_id b = org)
    \<and> sr' = sr\<lparr>sr_db := (sr_db sr)\<lparr>db_installations := db_installations (sr_db sr) @ [x]\<rparr>\<rparr>"
proof -
  let ?x = "\<lparr>in_id = new_id, in_organization_id = org, in_branch_id = br, in_status = status, in_installed_at = None,
    in_last_seen_at = None, in_collector_version = None, in_updated_at = None, in_name = py_strip name, in_required_contract = contract\<rparr>"
  from assms obtain b g where b: "find (\<lambda>b. br_id b = br \<and> br_organization_id b = org) (db_branches (sr_db sr)) = Some b"
    and g: "organization_row (sr_db sr) org = Some g" "og_status g \<noteq> ''cancelled''" "contract \<in> set supported_contracts"
    and s: "sr' = sr\<lparr>sr_db := (sr_db sr)\<lparr>db_installations := db_installations (sr_db sr) @ [?x]\<rparr>\<rparr>"
    unfolding insert_collector_installation_def Let_def by (simp split: if_splits option.splits)
  have "\<exists>b \<in> set (db_branches (sr_db sr)). br_id b = br \<and> br_organization_id b = org" using find_SomeD [OF b] by blast
  then show ?thesis by (intro exI [of _ ?x] exI [of _ g]) (use g s in simp)
qed

lemma install_grows:
  assumes "create_installation env new_id sr library name contract actor = Inr sr'" "new_id \<notin> in_id ` set (db_installations (sr_db sr))"
  shows "server_grows sr sr'"
proof -
  have "\<exists>(b :: branch) n s1 details. insert_collector_installation new_id sr (og_id library) (br_id b) n ''provisioning'' contract = Inr s1
      \<and> sr' = audit_admin ''admin_installation_created'' ''Collector installation added.'' (og_slug library) actor details s1"
    using assms(1) unfolding create_installation_def by (clarsimp simp: guard_Inr split del: if_split split: option.splits) blast
  then obtain b :: branch and n s1 where i: "insert_collector_installation new_id sr (og_id library) (br_id b) n ''provisioning'' contract = Inr s1"
    and s: "sr_db sr' = sr_db s1" "sr_codes sr' = sr_codes s1" "sr_sessions sr' = sr_sessions s1" "sr_resets sr' = sr_resets s1"
    by auto
  obtain x where x: "in_id x = new_id" "s1 = sr\<lparr>sr_db := (sr_db sr)\<lparr>db_installations := db_installations (sr_db sr) @ [x]\<rparr>\<rparr>"
    using insert_installation_Inr [OF i] by blast
  have "grows in_id installation_follows (db_installations (sr_db sr)) (db_installations (sr_db sr) @ [x])"
    by (rule grows_one) (use assms(2) x(1) in simp_all)
  then show ?thesis by (intro server_grows_db) (simp_all add: s x(2) db_grows_installations)
qed

lemma rename_grows:
  assumes "rename_installation stamp sr library i name actor = Inr sr'"
  shows "server_grows sr sr'"
proof -
  let ?P = "\<lambda>x. in_id x = i \<and> in_organization_id x = og_id library \<and> \<not> cancelled_now (sr_db sr) (og_id library)"
  let ?f = "\<lambda>n x. x\<lparr>in_name := n, in_updated_at := Some stamp\<rparr>"
  from assms obtain n where s: "sr_db sr' = (sr_db sr)\<lparr>db_installations := snd (update_where ?P (?f n) (db_installations (sr_db sr)))\<rparr>"
      "sr_codes sr' = sr_codes sr" "sr_sessions sr' = sr_sessions sr" "sr_resets sr' = sr_resets sr"
    unfolding rename_installation_def Let_def case_prod_unfold by (clarsimp simp: guard_Inr)
  have "grows in_id installation_follows (db_installations (sr_db sr)) (snd (update_where ?P (?f n) (db_installations (sr_db sr))))"
    by (rule grows_update) (simp_all add: installation_follows_def)
  then show ?thesis by (intro server_grows_db) (simp_all add: s db_grows_installations)
qed

lemma change_status_Inr:
  assumes "change_status stamp sr library i status actor = Inr sr'"
  obtains before :: string where "transition_allowed before status" "status = ''retired'' \<longrightarrow> refuse_retiring_a_key_owner (sr_db sr) (og_id library) i = Inr ()"
    "sr_db sr' = (sr_db sr)\<lparr>db_installations := snd (update_where
        (\<lambda>y. in_id y = i \<and> in_organization_id y = og_id library \<and> in_status y = before \<and> \<not> cancelled_now (sr_db sr) (og_id library))
        (\<lambda>y. y\<lparr>in_status := status, in_updated_at := Some stamp\<rparr>) (db_installations (sr_db sr)))\<rparr>"
    "sr_codes sr' = sr_codes sr" "sr_sessions sr' = sr_sessions sr" "sr_resets sr' = sr_resets sr"
proof -
  from assms obtain x where x: "find (\<lambda>x. in_id x = i \<and> in_organization_id x = og_id library) (db_installations (sr_db sr)) = Some x"
    unfolding change_status_def Let_def by (clarsimp split: option.splits)
  let ?rows = "snd (update_where
        (\<lambda>y. in_id y = i \<and> in_organization_id y = og_id library \<and> in_status y = in_status x \<and> \<not> cancelled_now (sr_db sr) (og_id library))
        (\<lambda>y. y\<lparr>in_status := status, in_updated_at := Some stamp\<rparr>) (db_installations (sr_db sr)))"
  have r: "transition_allowed (in_status x) status"
    "(if status = ''retired'' then refuse_retiring_a_key_owner (sr_db sr) (og_id library) i else Inr ()) = Inr ()"
    "\<exists>details. sr' = audit_admin ''admin_installation_status_changed'' ''Collector installation status changed.'' (og_slug library) actor details
      (sr\<lparr>sr_db := (sr_db sr)\<lparr>db_installations := ?rows\<rparr>\<rparr>)"
    using assms unfolding change_status_def Let_def case_prod_unfold by (simp_all add: x guard_Inr split del: if_split) blast
  show thesis by (rule that [OF r(1)]) (use r(2,3) in auto)
qed

lemma retired_is_final: "\<not> transition_allowed ''retired'' status"
  by (simp add: transition_allowed_def transitions_def)

lemma status_grows:
  assumes "change_status stamp sr library i status actor = Inr sr'"
  shows "server_grows sr sr'"
proof -
  from assms obtain before :: string where t: "transition_allowed before status"
    and s: "sr_db sr' = (sr_db sr)\<lparr>db_installations := snd (update_where
        (\<lambda>y. in_id y = i \<and> in_organization_id y = og_id library \<and> in_status y = before \<and> \<not> cancelled_now (sr_db sr) (og_id library))
        (\<lambda>y. y\<lparr>in_status := status, in_updated_at := Some stamp\<rparr>) (db_installations (sr_db sr)))\<rparr>"
      "sr_codes sr' = sr_codes sr" "sr_sessions sr' = sr_sessions sr" "sr_resets sr' = sr_resets sr"
    by (rule change_status_Inr)
  have "before \<noteq> ''retired''" using t retired_is_final by metis
  then have "grows in_id installation_follows (db_installations (sr_db sr)) (snd (update_where
        (\<lambda>y. in_id y = i \<and> in_organization_id y = og_id library \<and> in_status y = before \<and> \<not> cancelled_now (sr_db sr) (og_id library))
        (\<lambda>y. y\<lparr>in_status := status, in_updated_at := Some stamp\<rparr>) (db_installations (sr_db sr))))"
    by (intro grows_update) (simp_all add: installation_follows_def)
  then show ?thesis by (intro server_grows_db) (simp_all add: s db_grows_installations)
qed

lemma code_grows:
  assumes "issue_enrollment_code isoformat now stamp characters new_id sr library i actor = Inr (raw, sr')" "fresh_code characters new_id sr"
  shows "server_grows sr sr'"
proof -
  from assms(1) obtain r s1 where c: "create_enrollment_code now stamp code_ttl characters new_id sr i (Some (og_id library)) = Inr (r, s1)"
    and s: "sr_db sr' = sr_db s1" "sr_codes sr' = sr_codes s1" "sr_sessions sr' = sr_sessions s1" "sr_resets sr' = sr_resets s1"
    unfolding issue_enrollment_code_def by (clarsimp simp: guard_Inr) 
  from c obtain sc :: scope where s1: "s1 = sr\<lparr>sr_codes := snd (revoke_unused stamp (sc_installation_id sc) (sr_codes sr))
      @ [\<lparr>ec_id = new_id, ec_installation_id = sc_installation_id sc,
            ec_code_hash = hash_enrollment_code (format_enrollment_code characters), ec_expires_at = now + code_ttl, ec_used_at = None, ec_revoked_at = None,
            ec_required_contract = sc_required_contract sc\<rparr>]\<rparr>"
    unfolding create_enrollment_code_def Let_def case_prod_unfold by (clarsimp simp: guard_Inr)
  have f: "new_id \<notin> ec_id ` set (sr_codes sr)" "hash_enrollment_code (format_enrollment_code characters) \<notin> ec_code_hash ` set (sr_codes sr)"
    using assms(2) by (simp_all add: fresh_code_def)
  have e: "sr_codes s1 = snd (revoke_unused stamp (sc_installation_id sc) (sr_codes sr)) @ [\<lparr>ec_id = new_id, ec_installation_id = sc_installation_id sc,
      ec_code_hash = hash_enrollment_code (format_enrollment_code characters), ec_expires_at = now + code_ttl, ec_used_at = None, ec_revoked_at = None,
      ec_required_contract = sc_required_contract sc\<rparr>]" by (simp add: s1)
  have "grows ec_code_hash code_follows (sr_codes sr) (sr_codes s1)" unfolding e revoke_unused_def
    by (rule grows_update_one) (use f in \<open>simp_all add: code_follows_def unused_def\<close>)
  moreover have "grows ec_id code_follows (sr_codes sr) (sr_codes s1)" unfolding e revoke_unused_def
    by (rule grows_update_one) (use f in \<open>simp_all add: code_follows_def unused_def\<close>)
  moreover have "sr_db s1 = sr_db sr" "sr_sessions s1 = sr_sessions sr" "sr_resets s1 = sr_resets sr" by (simp_all add: s1)
  ultimately show ?thesis by (simp add: server_grows_def s same_rows)
qed

lemma recover_grows:
  assumes "recover_installation env draws sr library i actor = Inr (raw, sr')" "fresh_draws draws sr"
  shows "server_grows sr sr'"
proof -
  from assms(1) obtain r s1 where c: "issue_recovery_token env draws sr i (og_id library) = Inr (r, s1)"
    and s: "sr_db sr' = sr_db s1" "sr_codes sr' = sr_codes s1" "sr_sessions sr' = sr_sessions s1" "sr_resets sr' = sr_resets s1"
    unfolding recover_installation_def by (clarsimp simp: guard_Inr)
  from c obtain sc :: scope where q: "resolve_installation_scope (sr\<lparr>sr_db := (sr_db sr)\<lparr>db_tokens :=
      snd (revoke_installation_tokens i (db_tokens (sr_db sr)))\<rparr>\<rparr>) i (Some (og_id library)) = Inr sc"
    unfolding issue_recovery_token_def Let_def case_prod_unfold by (clarsimp simp: guard_Inr simp del: filter.simps append.simps)
  define description where "description = filter (\<lambda>c. \<not> is_control c) (''Collector recovery | installation ''
               @ show_nat (nat (sc_installation_id sc)) @ '' ('' @ ee_repr env (take 80 (sc_installation_name sc)) @ '')'')"
  have s1: "s1 = sr\<lparr>sr_db := (sr_db sr)\<lparr>db_tokens := snd (revoke_installation_tokens i (db_tokens (sr_db sr)))
      @ [bound_token draws sc description]\<rparr>\<rparr>"
    using c unfolding issue_recovery_token_def Let_def case_prod_unfold
    by (simp add: q guard_Inr description_def del: filter.simps append.simps)
  have "grows at_token_hash token_follows (db_tokens (sr_db sr)) (snd (revoke_installation_tokens i (db_tokens (sr_db sr))) @ [bound_token draws sc description])"
    unfolding revoke_installation_tokens_def
    by (rule grows_update_one) (use assms(2) in \<open>simp_all add: token_follows_def bound_token_def fresh_draws_def\<close>)
  then show ?thesis by (intro server_grows_db) (simp_all add: s s1 db_grows_tokens)
qed

lemma unbound_grows:
  assumes "revoke_unbound_token sr library token_id actor = Inr sr'"
  shows "server_grows sr sr'"
proof -
  let ?P = "\<lambda>t. at_id t = token_id \<and> at_installation_id t = None \<and> at_is_active t
      \<and> Some (at_customer_id t) = (case organization_row (sr_db sr) (og_id library) of None \<Rightarrow> None | Some g \<Rightarrow> og_operational_customer_id g)"
  from assms have s: "sr_db sr' = (sr_db sr)\<lparr>db_tokens := snd (update_where ?P (\<lambda>t. t\<lparr>at_is_active := False\<rparr>) (db_tokens (sr_db sr)))\<rparr>"
    "sr_codes sr' = sr_codes sr" "sr_sessions sr' = sr_sessions sr" "sr_resets sr' = sr_resets sr"
    unfolding revoke_unbound_token_def Let_def case_prod_unfold by (simp_all add: guard_Inr) auto
  have "grows at_token_hash token_follows (db_tokens (sr_db sr)) (snd (update_where ?P (\<lambda>t. t\<lparr>at_is_active := False\<rparr>) (db_tokens (sr_db sr))))"
    by (rule grows_update) (simp_all add: token_follows_def)
  then show ?thesis by (intro server_grows_db) (simp_all add: s db_grows_tokens)
qed

section \<open>The operators' key operations\<close>

lemma issue_grows:
  assumes "issue_ingest_key new_key db customer branch None = Inr (k, db')" "new_key \<notin> ik_key_id ` set (db_keys db)"
  shows "db_grows db db'"
proof -
  let ?x = "\<lparr>ik_key_id = new_key, ik_customer_id = customer, ik_branch_id = branch, ik_algorithm = algorithm, ik_status = ''active'',
    ik_retired_at = None, ik_installation_id = None, ik_heartbeat = None\<rparr>"
  have d: "db' = db\<lparr>db_keys := db_keys db @ [?x]\<rparr>" using assms(1) unfolding issue_ingest_key_def by clarsimp
  have "grows ik_key_id key_follows (db_keys db) (db_keys db @ [?x])" by (rule grows_one) (use assms(2) in simp_all)
  then show ?thesis by (simp add: d db_grows_keys)
qed

lemma retire_grows:
  assumes "retire_ingest_key now db key_id = Inr (hit, db')"
  shows "db_grows db db'"
proof -
  let ?rows = "snd (update_where (\<lambda>k. ik_key_id k = key_id \<and> ik_status k = ''active'' \<and> ik_installation_id k = None)
     (\<lambda>k. k\<lparr>ik_status := ''retired'', ik_retired_at := Some now\<rparr>) (db_keys db))"
  from assms have d: "db' = db\<lparr>db_keys := ?rows\<rparr>" unfolding retire_ingest_key_def Let_def case_prod_unfold by (simp split: if_splits)
  have "grows ik_key_id key_follows (db_keys db) ?rows" by (rule grows_update) (simp_all add: key_follows_def)
  then show ?thesis unfolding d by (rule db_grows_keys)
qed

lemma cutover_grows:
  assumes "record_v2_cutover now db customer branch at_time set_by why = Inr db'"
  shows "db_grows db db'"
  using assms by (auto simp: record_v2_cutover_def Let_def db_grows_def same_rows split: if_splits)

section \<open>The registry's operations\<close>

lemma grows_trans:
  assumes "grows key R rows rows'" "grows key R rows' rows''"
    and "\<And>r r' r''. key r' = key r \<Longrightarrow> R r r' \<Longrightarrow> R r' r'' \<Longrightarrow> R r r''"
  shows "grows key R rows rows''"
proof -
  let ?Q = "\<lambda>r r'. key r' = key r \<and> R r r'"
  from assms(1) obtain kept new where a: "rows' = kept @ new" "list_all2 ?Q rows kept" "distinct (List.map key new)" "key ` set new \<inter> key ` set rows = {}"
    unfolding grows_def by blast
  from assms(2) obtain kept' new' where b: "rows'' = kept' @ new'" "list_all2 ?Q (kept @ new) kept'" "distinct (List.map key new')"
    "key ` set new' \<inter> key ` set (kept @ new) = {}" unfolding grows_def a(1) by blast
  from b(2) obtain k1 k2 where k: "kept' = k1 @ k2" "list_all2 ?Q kept k1" "list_all2 ?Q new k2" by (auto simp: list_all2_append1)
  have "list_all2 ?Q rows k1" by (rule list_all2_trans [OF _ a(2) k(2)]) (use assms(3) in auto)
  moreover have m: "List.map key k2 = List.map key new" "List.map key kept = List.map key rows" using all2_keys [OF k(3)] all2_keys [OF a(2)] by simp_all
  then have i: "key ` set k2 = key ` set new" "key ` set kept = key ` set rows" by (metis list.set_map)+
  moreover have "distinct (List.map key (k2 @ new'))" using a(3) b(3,4) i(1) m(1) by (auto simp: image_Un)
  moreover have "key ` set (k2 @ new') \<inter> key ` set rows = {}" using a(4) b(4) i by (auto simp: image_Un)
  ultimately show ?thesis unfolding grows_def b(1) k(1) append_assoc by blast
qed

lemma db_grows_trans:
  assumes "db_grows a b" "db_grows b c"
  shows "db_grows a c"
  unfolding db_grows_def
  by (intro conjI; rule grows_trans)
    (use assms in \<open>auto simp: db_grows_def org_follows_def branch_follows_def installation_follows_def token_follows_def key_follows_def\<close>)

lemma organization_row_unique:
  assumes "organization_row db org = Some g" "distinct (List.map og_id (db_organizations db))" "x \<in> set (db_organizations db)" "og_id x = org"
  shows "x = g"
  by (rule ids_eq [OF assms(2,3)]) (use row_ids(2) [OF assms(1)] assms(4) in simp_all)

lemma set_status_grows:
  assumes "organization_row db org = Some g" "distinct (List.map og_id (db_organizations db))" "og_status g = ''cancelled'' \<longrightarrow> status = ''cancelled''"
  shows "grows og_id org_follows (db_organizations db) (db_organizations (set_status status org db))"
proof -
  have "og_status x = ''cancelled'' \<longrightarrow> status = ''cancelled''" if "x \<in> set (db_organizations db)" "og_id x = org" for x
    using organization_row_unique [OF assms(1,2) that] assms(3) by simp
  moreover have "db_organizations (set_status status org db) = List.map (\<lambda>r. if og_id r = org then r\<lparr>og_status := status\<rparr> else r) (db_organizations db)"
    by (simp add: set_status_def update_where_snd)
  ultimately show ?thesis by (simp only:) (rule grows_map, auto simp: org_follows_def)
qed

lemma suspend_grows:
  assumes "set_library_active_status sr org is_active admin = Inr (reply, sr')" "tables_wf sr"
  shows "server_grows sr sr'"
proof (cases "sr' = sr")
  case False
  from assms(1) False obtain g where g: "organization_row (sr_db sr) org = Some g" "og_status g \<noteq> ''cancelled''"
    and s: "sr_db sr' = set_status (if is_active then ''active'' else ''suspended'') org (sr_db sr)"
      "sr_codes sr' = sr_codes sr" "sr_sessions sr' = sr_sessions sr" "sr_resets sr' = sr_resets sr"
    by (fastforce simp: set_library_active_status_def Let_def split: option.splits if_splits)
  have "grows og_id org_follows (db_organizations (sr_db sr)) (db_organizations (set_status (if is_active then ''active'' else ''suspended'') org (sr_db sr)))"
    by (rule set_status_grows [OF g(1)]) (use assms(2) g(2) in \<open>simp_all add: tables_wf_def\<close>)
  then have "db_grows (sr_db sr) (sr_db sr')" by (simp add: s db_grows_def same_rows set_status_def)
  then show ?thesis by (rule server_grows_db [OF _ s(2-4)])
qed (simp add: server_grows_def same_rows)

lemma offboard_Inr:
  assumes "offboard_library key_row stamp sr org confirm actor_id label admin = Inr (reply, sr')"
  obtains g :: organization where "organization_row (sr_db sr) org = Some g" "og_id g = org"
    "sr_db sr' = swept_db stamp org (og_operational_customer_id g) (sr_db sr)"
    "sr_codes sr' = sr_codes (sweep stamp g sr)" "sr_sessions sr' = sr_sessions (sweep stamp g sr)" "sr_resets sr' = sr_resets sr"
    "sr_accounts sr' = sr_accounts sr" "sr_memberships sr' = sr_memberships sr" "sr_customers sr' = sr_customers sr"
proof -
  from assms obtain g :: organization where g: "organization_row (sr_db sr) org = Some g"
    unfolding offboard_library_def Let_def by (cases "organization_row (sr_db sr) org") auto
  let ?e = "\<lparr>lc_event_type = ''access_cutoff'', lc_organization_id = org, lc_organization_slug = og_slug g,
      lc_customer_id = og_operational_customer_id g, lc_actor_user_id = (case admin of None \<Rightarrow> actor_id | Some a \<Rightarrow> Some (ac_id a)),
      lc_actor_label = (case admin of None \<Rightarrow> label | Some a \<Rightarrow> ''platform_admin:'' @ show_int (ac_id a)),
      lc_details = cutoff_details (og_status g) (cutoff_evidence key_row g sr)\<rparr>"
  have "\<exists>s1. record_tenant_lifecycle_event ?e (sweep stamp g sr) = Inr s1
      \<and> sr' = (case admin of None \<Rightarrow> s1 | Some a \<Rightarrow> audit_admin ''admin_library_offboarded'' ''Library offboarded.'' (og_slug g) a
                    [(''previous_status'', JStr (og_status g)), (''status'', JStr ''cancelled''),
                     (''counts'', counts_json (cutoff_counts (cutoff_evidence key_row g sr)))] s1)"
    using assms unfolding offboard_library_def Let_def by (simp only: g option.case guard_Inr bind_result_Inr) auto
  then obtain s1 where e: "record_tenant_lifecycle_event ?e (sweep stamp g sr) = Inr s1"
    and c: "sr_db sr' = sr_db s1" "sr_codes sr' = sr_codes s1" "sr_sessions sr' = sr_sessions s1" "sr_resets sr' = sr_resets s1"
      "sr_accounts sr' = sr_accounts s1" "sr_memberships sr' = sr_memberships s1" "sr_customers sr' = sr_customers s1"
    by (cases admin) auto
  obtain rows where s1: "s1 = (sweep stamp g sr)\<lparr>sr_lifecycle := rows\<rparr>"
    using e by (auto simp: record_tenant_lifecycle_event_def guard_Inr)
  have i: "og_id g = org" using row_ids(2) [OF g] by simp
  show thesis by (rule that [OF g i]) (simp_all add: c s1 i sweep_def Let_def)
qed

lemma swept_grows:
  assumes "organization_row db org = Some g" "distinct (List.map og_id (db_organizations db))"
  shows "db_grows db (swept_db stamp org customer db)"
proof -
  have "db_organizations (swept_db stamp org customer db) = db_organizations (set_status ''cancelled'' org db)"
    by (simp add: swept_db_def Let_def)
  moreover have "grows og_id org_follows (db_organizations db) (db_organizations (set_status ''cancelled'' org db))"
    by (rule set_status_grows [OF assms]) simp
  moreover have "db_tokens (set_status ''cancelled'' org db) = db_tokens db" "db_installations (set_status ''cancelled'' org db) = db_installations db"
    "db_keys (set_status ''cancelled'' org db) = db_keys db" "db_branches (set_status ''cancelled'' org db) = db_branches db"
    by (simp_all add: set_status_def)
  ultimately show ?thesis unfolding db_grows_def
    by (simp add: swept_db_def Let_def same_rows grows_update token_follows_def installation_follows_def key_follows_def)
qed

lemma sweep_grows:
  "grows ec_code_hash code_follows (sr_codes sr) (sr_codes (sweep stamp g sr))" "grows ec_id code_follows (sr_codes sr) (sr_codes (sweep stamp g sr))"
  "grows se_token_hash session_follows (sr_sessions sr) (sr_sessions (sweep stamp g sr))"
  by (simp_all add: sweep_def Let_def grows_update code_follows_def unused_def session_follows_def)

lemma offboard_grows:
  assumes "offboard_library key_row stamp sr org confirm actor_id label admin = Inr (reply, sr')" "tables_wf sr"
  shows "server_grows sr sr'"
proof -
  obtain g :: organization where g: "organization_row (sr_db sr) org = Some g"
    and s: "sr_db sr' = swept_db stamp org (og_operational_customer_id g) (sr_db sr)"
    "sr_codes sr' = sr_codes (sweep stamp g sr)" "sr_sessions sr' = sr_sessions (sweep stamp g sr)" "sr_resets sr' = sr_resets sr"
    by (rule offboard_Inr [OF assms(1)]) (rule that; assumption)
  have "distinct (List.map og_id (db_organizations (sr_db sr)))" using assms(2) by (simp add: tables_wf_def)
  from swept_grows [OF g this] show ?thesis by (simp add: server_grows_def s sweep_grows same_rows)
qed

text \<open>Assigning an identity: a branch without one is mapped to itself, an organization without one gets the new customer.\<close>

definition mapped_branch_rows :: "int \<Rightarrow> branch list \<Rightarrow> branch list" where
  "mapped_branch_rows br rows = snd (update_where (\<lambda>x. br_id x = br \<and> br_operational_branch_id x = None)
     (\<lambda>x. x\<lparr>br_operational_branch_id := Some (br_id x)\<rparr>) rows)"

definition mapped_organization_rows :: "int \<Rightarrow> int \<Rightarrow> organization list \<Rightarrow> organization list" where
  "mapped_organization_rows new_customer org rows = snd (update_where (\<lambda>x. og_id x = org \<and> og_operational_customer_id x = None)
     (\<lambda>x. x\<lparr>og_operational_customer_id := Some new_customer\<rparr>) rows)"

lemma assign_Inr:
  assumes "assign_operational_identity new_customer sr org br = Inr (reply, sr')"
  shows "\<exists>bs gs cs. sr' = sr\<lparr>sr_customers := cs, sr_db := (sr_db sr)\<lparr>db_branches := bs, db_organizations := gs\<rparr>\<rparr>
    \<and> bs \<in> {db_branches (sr_db sr), mapped_branch_rows br (db_branches (sr_db sr))}
    \<and> (gs = db_organizations (sr_db sr) \<and> cs = sr_customers sr
       \<or> gs = mapped_organization_rows new_customer org (db_organizations (sr_db sr)) \<and> cs = sr_customers sr @ [new_customer])"
proof -
  let ?bs = "\<lambda>b. if br_operational_branch_id b = None then mapped_branch_rows br (db_branches (sr_db sr)) else db_branches (sr_db sr)"
  from assms obtain g :: organization and b :: branch where g: "organization_row (sr_db sr) org = Some g"
    and b: "find (\<lambda>b. br_id b = br \<and> br_organization_id b = org) (db_branches (sr_db sr)) = Some b"
    unfolding assign_operational_identity_def Let_def by (auto split: option.splits)
  show ?thesis
  proof (cases "og_operational_customer_id g")
    case None
    then have "sr' = sr\<lparr>sr_customers := sr_customers sr @ [new_customer], sr_db := (sr_db sr)\<lparr>db_branches := ?bs b,
        db_organizations := mapped_organization_rows new_customer org (db_organizations (sr_db sr))\<rparr>\<rparr>"
      using assms unfolding assign_operational_identity_def Let_def mapped_branch_rows_def mapped_organization_rows_def
      by (simp add: g b guard_Inr)
    then show ?thesis by (intro exI [of _ "?bs b"] exI [of _ "mapped_organization_rows new_customer org (db_organizations (sr_db sr))"]
        exI [of _ "sr_customers sr @ [new_customer]"]) simp
  next
    case (Some c)
    then have "sr' = sr\<lparr>sr_db := (sr_db sr)\<lparr>db_branches := ?bs b\<rparr>\<rparr>"
      using assms unfolding assign_operational_identity_def Let_def mapped_branch_rows_def by (simp add: g b guard_Inr)
    then show ?thesis by (intro exI [of _ "?bs b"] exI [of _ "db_organizations (sr_db sr)"] exI [of _ "sr_customers sr"]) simp
  qed
qed

lemma assign_identity_grows:
  assumes "assign_operational_identity new_customer sr org br = Inr (reply, sr')"
  shows "server_grows sr sr'"
proof -
  obtain bs gs cs where s: "sr' = sr\<lparr>sr_customers := cs, sr_db := (sr_db sr)\<lparr>db_branches := bs, db_organizations := gs\<rparr>\<rparr>"
    and r: "bs \<in> {db_branches (sr_db sr), mapped_branch_rows br (db_branches (sr_db sr))}"
      "gs = db_organizations (sr_db sr) \<or> gs = mapped_organization_rows new_customer org (db_organizations (sr_db sr))"
    using assign_Inr [OF assms] by blast
  have "grows br_id branch_follows (db_branches (sr_db sr)) (mapped_branch_rows br (db_branches (sr_db sr)))"
    unfolding mapped_branch_rows_def by (rule grows_update) (simp_all add: branch_follows_def)
  moreover have "grows og_id org_follows (db_organizations (sr_db sr)) (mapped_organization_rows new_customer org (db_organizations (sr_db sr)))"
    unfolding mapped_organization_rows_def by (rule grows_update) (simp_all add: org_follows_def)
  ultimately have "db_grows (sr_db sr) (sr_db sr')" using r by (auto simp: s db_grows_def same_rows)
  then show ?thesis by (rule server_grows_db) (simp_all add: s)
qed

lemma assign_grows:
  assumes "assign_library_operational_identity new_customer sr slug actor = Inr (reply, sr')"
  shows "server_grows sr sr'"
proof -
  from assms obtain org br r s1 where a: "assign_operational_identity new_customer sr org br = Inr (r, s1)"
    and s: "sr_db sr' = sr_db s1" "sr_codes sr' = sr_codes s1" "sr_sessions sr' = sr_sessions s1" "sr_resets sr' = sr_resets s1"
    by (auto simp: assign_library_operational_identity_def guard_Inr split: option.splits if_splits)
  from assign_identity_grows [OF a] show ?thesis by (simp add: server_grows_def s)
qed

lemma provision_Inr:
  assumes "provision_library stamp ids plan_active sr v actor = Inr sr'"
  obtains g :: organization and b :: branch and r s1 s2 where "s1 = sr\<lparr>sr_db := (sr_db sr)\<lparr>db_organizations := db_organizations (sr_db sr) @ [g],
      db_branches := db_branches (sr_db sr) @ [b]\<rparr>, sr_organization_settings := sr_organization_settings sr @ [(og_id g, Some (JObj []))],
      sr_branch_settings := sr_branch_settings sr @ [(br_id b, Some (JObj []))]\<rparr>"
    "assign_operational_identity (pi_customer ids) s1 (og_id g) (br_id b) = Inr (r, s2)"
    "og_id g = pi_organization ids" "og_operational_customer_id g = None" "br_id b = pi_branch ids" "br_operational_branch_id b = None"
    "sr_db sr' = sr_db s2" "sr_codes sr' = sr_codes s2" "sr_sessions sr' = sr_sessions s2" "sr_resets sr' = sr_resets s2"
    "sr_memberships sr' = sr_memberships s2" "sr_accounts sr' = sr_accounts s2"
proof -
  let ?g = "\<lparr>og_id = pi_organization ids, og_operational_customer_id = None, og_status = ''active'', og_slug = pv_slug v,
    og_created_at = Some (Aware stamp 0)\<rparr>"
  let ?b = "\<lparr>br_id = pi_branch ids, br_organization_id = pi_organization ids,
              br_operational_branch_id = None, br_status = ''active'', br_onboarding_status = ''pending'', br_onboarding_message = None,
              br_onboarding_updated_at = Some stamp, br_is_primary = True, br_slug = pv_branch_slug v\<rparr>"
  let ?s = "sr\<lparr>sr_db := (sr_db sr)\<lparr>db_organizations := db_organizations (sr_db sr) @ [?g],
      db_branches := db_branches (sr_db sr) @ [?b]\<rparr>, sr_organization_settings := sr_organization_settings sr @ [(og_id ?g, Some (JObj []))],
      sr_branch_settings := sr_branch_settings sr @ [(br_id ?b, Some (JObj []))]\<rparr>"
  from assms obtain r s2 where a: "assign_operational_identity (pi_customer ids) ?s (pi_organization ids) (pi_branch ids) = Inr (r, s2)"
    and s: "sr_db sr' = sr_db s2" "sr_codes sr' = sr_codes s2" "sr_sessions sr' = sr_sessions s2" "sr_resets sr' = sr_resets s2"
      "sr_memberships sr' = sr_memberships s2" "sr_accounts sr' = sr_accounts s2"
    unfolding provision_library_def create_organization_with_primary_branch_def Let_def by (auto simp: guard_Inr)
  show thesis by (rule that [where g = ?g and b = ?b and r = r and ?s1.0 = ?s and ?s2.0 = s2]) (use a s in simp_all)
qed

lemma provision_grows:
  assumes "provision_library stamp ids plan_active sr v actor = Inr sr'" "fresh_ids ids sr"
  shows "server_grows sr sr'"
proof -
  obtain g :: organization and b :: branch and r s1 s2 where s1: "s1 = sr\<lparr>sr_db := (sr_db sr)\<lparr>db_organizations := db_organizations (sr_db sr) @ [g],
      db_branches := db_branches (sr_db sr) @ [b]\<rparr>, sr_organization_settings := sr_organization_settings sr @ [(og_id g, Some (JObj []))],
      sr_branch_settings := sr_branch_settings sr @ [(br_id b, Some (JObj []))]\<rparr>"
    and a: "assign_operational_identity (pi_customer ids) s1 (og_id g) (br_id b) = Inr (r, s2)"
    and i: "og_id g = pi_organization ids" "br_id b = pi_branch ids"
    and s: "sr_db sr' = sr_db s2" "sr_codes sr' = sr_codes s2" "sr_sessions sr' = sr_sessions s2" "sr_resets sr' = sr_resets s2"
    by (rule provision_Inr [OF assms(1)]) (rule that; assumption)
  have "og_id g \<notin> og_id ` set (db_organizations (sr_db sr))" "br_id b \<notin> br_id ` set (db_branches (sr_db sr))"
    using assms(2) by (simp_all add: i fresh_ids_def)
  then have "db_grows (sr_db sr) (sr_db s1)" by (simp add: s1 db_grows_def same_rows grows_one)
  moreover have g2: "server_grows s1 s2" by (rule assign_identity_grows [OF a])
  then have "db_grows (sr_db s1) (sr_db s2)" by (simp add: server_grows_def)
  ultimately have "db_grows (sr_db sr) (sr_db s2)" by (rule db_grows_trans)
  then show ?thesis using g2 by (simp add: server_grows_def s s1)
qed

section \<open>Members, accounts and sessions\<close>

lemma server_grows_logins:
  "sr_db sr' = sr_db sr \<Longrightarrow> sr_codes sr' = sr_codes sr \<Longrightarrow> grows se_token_hash session_follows (sr_sessions sr) (sr_sessions sr')
    \<Longrightarrow> grows rt_token_hash reset_follows (sr_resets sr) (sr_resets sr') \<Longrightarrow> server_grows sr sr'"
  by (simp add: server_grows_def same_rows)

lemma revoke_grows: "grows se_token_hash session_follows ss (snd (update_where P (\<lambda>s. s\<lparr>se_revoked_at := Some t\<rparr>) ss))"
  by (rule grows_update) (simp_all add: session_follows_def)

lemma revoked_of_frame: "sr_db (snd (revoke_sessions_of now user sr)) = sr_db sr" "sr_codes (snd (revoke_sessions_of now user sr)) = sr_codes sr"
  "sr_resets (snd (revoke_sessions_of now user sr)) = sr_resets sr" "sr_memberships (snd (revoke_sessions_of now user sr)) = sr_memberships sr"
  "sr_accounts (snd (revoke_sessions_of now user sr)) = sr_accounts sr"
  "grows se_token_hash session_follows (sr_sessions sr) (sr_sessions (snd (revoke_sessions_of now user sr)))"
  by (simp_all add: revoke_sessions_of_def case_prod_unfold Let_def revoke_grows)

lemma attach_frame: "attach i sr org u role = Inr s2 \<Longrightarrow> sr_db s2 = sr_db sr \<and> sr_codes s2 = sr_codes sr
    \<and> sr_sessions s2 = sr_sessions sr \<and> sr_resets s2 = sr_resets sr"
  by (auto simp: attach_def split: option.splits prod.splits if_splits)

lemma member_grows:
  assumes "member_step actor sr sr'"
  shows "server_grows sr sr'"
  using assms
proof cases
  case (add draws slug email password full_name role)
  from add(1) obtain g :: organization and u :: account and s1 s2 where
    f: "find_or_create (md_hash draws) (md_account_id draws) sr (py_lower (py_strip email)) password full_name = Inr (u, s1)"
    and a: "attach (md_membership_id draws) s1 (og_id g) u role = Inr s2"
    and s: "sr_db sr' = sr_db s2" "sr_codes sr' = sr_codes s2" "sr_sessions sr' = sr_sessions s2" "sr_resets sr' = sr_resets s2"
    unfolding add_organization_member_def Let_def by (clarsimp simp: guard_Inr)
  show ?thesis by (rule server_grows_logins) (simp_all add: s attach_frame [OF a] find_or_create_Inr [OF f] same_rows)
next
  case (first draws slug email password full_name)
  from first(1) obtain g :: organization and u :: account and s1 s2 where
    f: "find_or_create (md_hash draws) (md_account_id draws) sr (py_lower (py_strip email)) password full_name = Inr (u, s1)"
    and a: "attach (md_membership_id draws) s1 (og_id g) u ''owner'' = Inr s2"
    and s: "sr_db sr' = sr_db s2" "sr_codes sr' = sr_codes s2" "sr_sessions sr' = sr_sessions s2" "sr_resets sr' = sr_resets s2"
    unfolding assign_first_owner_def Let_def by (clarsimp simp: guard_Inr)
  show ?thesis by (rule server_grows_logins) (simp_all add: s attach_frame [OF a] find_or_create_Inr [OF f] same_rows)
next
  case (change slug user role)
  then have "sr_db sr' = sr_db sr" "sr_codes sr' = sr_codes sr" "sr_sessions sr' = sr_sessions sr" "sr_resets sr' = sr_resets sr"
    by (auto simp: change_organization_member_role_def split: if_splits)
  then show ?thesis by (simp add: server_grows_def same_rows)
next
  case (remove now slug user)
  then have "sr_db sr' = sr_db sr" "sr_codes sr' = sr_codes sr" "sr_sessions sr' = sr_sessions sr" "sr_resets sr' = sr_resets sr"
    by (auto simp: remove_organization_member_def split: if_splits)
  then show ?thesis by (simp add: server_grows_def same_rows)
next
  case (account now user is_active)
  let ?s = "update_account user (\<lambda>u. u\<lparr>us_is_active := is_active\<rparr>) sr"
  from account have "sr_db sr' = sr_db sr" "sr_codes sr' = sr_codes sr" "sr_resets sr' = sr_resets sr"
    "sr_sessions sr' = (if is_active then sr_sessions sr else sr_sessions (snd (revoke_sessions_of now user ?s)))"
    by (auto simp: set_global_account_active_def Let_def guard_Inr revoked_of_frame split: option.splits)
  then show ?thesis using revoked_of_frame(6) [of ?s now user] by (cases is_active) (simp_all add: server_grows_def same_rows)
qed

lemma login_frame:
  assumes "authenticate_user check_hash now stamp sr email password = (reply, sr')"
  shows "sr_db sr' = sr_db sr" "sr_codes sr' = sr_codes sr" "sr_sessions sr' = sr_sessions sr" "sr_resets sr' = sr_resets sr"
    "sr_memberships sr' = sr_memberships sr" "List.map us_id (sr_accounts sr') = List.map us_id (sr_accounts sr)"
  using assms
  by (auto simp: authenticate_user_def refuse_locked_def record_failed_login_def record_successful_login_def Let_def
      split: option.splits if_splits)

lemma visit_grows:
  assumes "validate_session now sr raw = (seen, sr')"
  shows "server_grows sr sr'"
proof -
  have t: "grows se_token_hash session_follows ss (touch_last_seen now i ss)" for i ss
    unfolding touch_last_seen_def by (rule grows_update) (simp_all add: session_follows_def)
  from assms consider "sr' = sr" | s where "sr' = sr\<lparr>sr_sessions := touch_last_seen now (se_id (s :: session)) (sr_sessions sr)\<rparr>"
    by (auto simp: validate_session_def split: option.splits if_splits)
  then show ?thesis
  proof cases
    case 2
    show ?thesis by (rule server_grows_logins) (simp_all add: 2 t same_rows)
  qed (simp add: server_grows_def same_rows)
qed

lemma logout_grows:
  assumes "revoke_session now sr raw = (ok, sr')"
  shows "server_grows sr sr'"
proof -
  let ?revoked = "\<lambda>token. snd (update_where (\<lambda>s. se_token_hash s = token_hash token \<and> se_revoked_at s = None)
      (\<lambda>s. s\<lparr>se_revoked_at := Some now\<rparr>) (sr_sessions sr))"
  have "sr_db sr' = sr_db sr \<and> sr_codes sr' = sr_codes sr \<and> sr_resets sr' = sr_resets sr
      \<and> (sr_sessions sr' = sr_sessions sr \<or> (\<exists>token. sr_sessions sr' = ?revoked token))"
    using assms by (auto simp: revoke_session_def split: option.splits if_splits)
  then show ?thesis by (intro server_grows_logins) (auto simp: same_rows revoke_grows)
qed

lemma logout_all_grows: "revoke_all_sessions_for_user now sr user = (n, sr') \<Longrightarrow> server_grows sr sr'"
  by (rule server_grows_logins) (auto simp: revoke_all_sessions_for_user_def Let_def case_prod_unfold revoked_of_frame same_rows)

lemma use_resets_grows: "grows rt_token_hash reset_follows ts (use_resets_of stamp user ts)"
  unfolding use_resets_of_def by (rule grows_update) (simp_all add: reset_follows_def)

lemma ask_reset_grows:
  assumes "request_password_reset now stamp token sr asked = (sent, sr')" "token_hash token \<notin> rt_token_hash ` set (sr_resets sr)"
  shows "server_grows sr sr'"
proof -
  let ?new = "\<lambda>u. \<lparr>rt_user_id = us_id u, rt_token_hash = token_hash token, rt_expires_at = now + password_reset_minutes * minute, rt_used_at = None\<rparr>"
  have "sr_db sr' = sr_db sr \<and> sr_codes sr' = sr_codes sr \<and> sr_sessions sr' = sr_sessions sr
      \<and> (sr_resets sr' = sr_resets sr \<or> (\<exists>u :: account. sr_resets sr' = use_resets_of stamp (us_id u) (sr_resets sr) @ [?new u]))"
    using assms(1) by (auto simp: request_password_reset_def Let_def split: option.splits if_splits)
  moreover have "grows rt_token_hash reset_follows (sr_resets sr) (use_resets_of stamp i (sr_resets sr) @ [?new u])" for i and u :: account
    unfolding use_resets_of_def by (rule grows_update_one) (use assms(2) in \<open>simp_all add: reset_follows_def\<close>)
  ultimately show ?thesis by (intro server_grows_logins) (auto simp: same_rows)
qed

lemma reset_grows:
  assumes "reset_password_with_token check_hash new_hash now stamp sr raw new_password confirm = (code, sr')"
  shows "server_grows sr sr'"
proof -
  have a: "server_grows sr (apply_reset h now stamp u sr)" for h u
    by (rule server_grows_logins)
      (simp_all add: apply_reset_def Let_def case_prod_unfold revoked_of_frame set_password_def use_resets_grows,
       rule revoked_of_frame(6) [of "(update_account _ _ sr)\<lparr>sr_resets := _\<rparr>", simplified])
  from assms have "sr' = sr \<or> (\<exists>h u. sr' = apply_reset h now stamp u sr)"
    by (auto simp: reset_password_with_token_def Let_def split: option.splits if_splits)
  then show ?thesis using a by (auto simp: server_grows_def same_rows)
qed

lemma change_grows:
  assumes "change_password check_hash new_hash now stamp sr user current new_password confirm = (code, sr')"
  shows "server_grows sr sr'"
proof -
  let ?s = "\<lambda>h. set_password stamp h user sr"
  have "sr_db sr' = sr_db sr \<and> sr_codes sr' = sr_codes sr \<and> sr_resets sr' = sr_resets sr
      \<and> (sr_sessions sr' = sr_sessions sr \<or> (\<exists>h. sr_sessions sr' = sr_sessions (snd (revoke_sessions_of now user (?s h)))))"
    using assms by (auto simp: change_password_def refuse_change_def Let_def case_prod_unfold revoked_of_frame set_password_def
        split: option.splits if_splits)
  moreover have "grows se_token_hash session_follows (sr_sessions sr) (sr_sessions (snd (revoke_sessions_of now user (?s h))))" for h
    using revoked_of_frame(6) [of "?s h" now user] by (simp add: set_password_def)
  ultimately show ?thesis by (intro server_grows_logins) (auto simp: same_rows)
qed

lemma session_grows:
  assumes "create_session now isoformat token new_id sr user = (r, sr')" "token_hash token \<notin> se_token_hash ` set (sr_sessions sr)"
  shows "server_grows sr sr'"
proof -
  let ?s = "\<lparr>se_id = new_id, se_user_id = user, se_token_hash = token_hash token, se_expires_at = now + session_lifetime,
    se_revoked_at = None, se_last_seen_at = Some now\<rparr>"
  have s: "sr_db sr' = sr_db sr" "sr_codes sr' = sr_codes sr" "sr_resets sr' = sr_resets sr" "sr_sessions sr' = sr_sessions sr @ [?s]"
    using assms(1) by (auto simp: create_session_def Let_def)
  have "grows se_token_hash session_follows (sr_sessions sr) (sr_sessions sr @ [?s])" by (rule grows_one) (use assms(2) in simp_all)
  then show ?thesis by (simp add: server_grows_def s same_rows)
qed

end
