(* ===== verification/TenantSystem.thy ===== *)
theory TenantSystem
  imports TenantGrowth
begin

text \<open>
  The server under everything its services do to tenants: enrollments, uploads and heartbeats, the
  administrators' operations, the registry's, members, sessions and passwords, in any order. A step is one
  call that changes something; the random values it draws are new, which the unique indexes of
  src/alembic/versions enforce. The locale \<open>credential_table\<close> is what the services promise of every kind of credential:
  a row is never forgotten and never comes back to life; it is interpreted on enrollment codes, agent tokens,
  ingest keys, login sessions and password reset tokens. The properties hold after any number of steps.
\<close>

section \<open>Credentials\<close>

text \<open>What the services promise of a kind of credential: its rows are never forgotten, and a dead one stays dead.\<close>

locale credential_table =
  fixes step :: "'s \<Rightarrow> 's \<Rightarrow> bool" and inv :: "'s \<Rightarrow> bool" and rows_of :: "'s \<Rightarrow> 'r list" and key :: "'r \<Rightarrow> 'k" and live :: "'r \<Rightarrow> bool"
  assumes inv_step: "inv s \<Longrightarrow> step s s' \<Longrightarrow> inv s'"
    and unique: "inv s \<Longrightarrow> distinct (List.map key (rows_of s))"
    and follows: "inv s \<Longrightarrow> step s s' \<Longrightarrow> grows key (\<lambda>r r'. live r' \<longrightarrow> live r) (rows_of s) (rows_of s')"
begin

lemma inv_run: "step\<^sup>*\<^sup>* s s' \<Longrightarrow> inv s \<Longrightarrow> inv s'"
  by (induction rule: rtranclp_induct) (auto intro: inv_step)

lemma dead_forever:
  assumes "step\<^sup>*\<^sup>* s s'" "inv s" "r \<in> set (rows_of s)" "\<not> live r"
  shows "\<exists>r' \<in> set (rows_of s'). key r' = key r \<and> \<not> live r'"
  using assms(1)
proof (induction rule: rtranclp_induct)
  case base
  show ?case using assms(3,4) by blast
next
  case (step t u)
  then obtain q where q: "q \<in> set (rows_of t)" "key q = key r" "\<not> live q" by blast
  from grows_pick [OF follows [OF inv_run [OF step.hyps(1) assms(2)] step.hyps(2)] q(1)] q(2,3) show ?case by auto
qed

lemma never_live_again:
  assumes "step\<^sup>*\<^sup>* s s'" "inv s" "r \<in> set (rows_of s)" "\<not> live r" "r' \<in> set (rows_of s')" "key r' = key r"
  shows "\<not> live r'"
proof -
  obtain q where q: "q \<in> set (rows_of s')" "key q = key r" "\<not> live q" using dead_forever [OF assms(1-4)] by blast
  have "q = r'" by (rule ids_eq [OF unique [OF inv_run [OF assms(1,2)]] q(1) assms(5)]) (simp add: q(2) assms(6))
  with q(3) show ?thesis by simp
qed

end

section \<open>Steps\<close>

inductive tenant_step :: "server \<Rightarrow> server \<Rightarrow> bool" where
  enroll: "collector_enroll env now stamp draws hostname version sr raw requested = (Enrolled e, sr') \<Longrightarrow> fresh_draws draws sr
    \<Longrightarrow> tenant_step sr sr'"
| upload: "upload_v2 sv now authorization body (sr_db sr) = (reply, db') \<Longrightarrow> tenant_step sr (sr\<lparr>sr_db := db'\<rparr>)"
| heartbeat: "status_v2 sv now authorization body (sr_db sr) = (reply, db') \<Longrightarrow> tenant_step sr (sr\<lparr>sr_db := db'\<rparr>)"
| install: "create_installation env new_id sr library name contract actor = Inr sr'
    \<Longrightarrow> new_id \<notin> in_id ` set (db_installations (sr_db sr)) \<Longrightarrow> tenant_step sr sr'"
| rename: "rename_installation stamp sr library i name actor = Inr sr' \<Longrightarrow> tenant_step sr sr'"
| status: "change_status stamp sr library i status actor = Inr sr' \<Longrightarrow> tenant_step sr sr'"
| code: "issue_enrollment_code isoformat now stamp characters new_id sr library i actor = Inr (raw, sr')
    \<Longrightarrow> fresh_code characters new_id sr \<Longrightarrow> tenant_step sr sr'"
| recover: "recover_installation env draws sr library i actor = Inr (raw, sr') \<Longrightarrow> fresh_draws draws sr \<Longrightarrow> tenant_step sr sr'"
| unbound: "revoke_unbound_token sr library token_id actor = Inr sr' \<Longrightarrow> tenant_step sr sr'"
| suspend: "set_library_active_status sr org is_active admin = Inr (reply, sr') \<Longrightarrow> tenant_step sr sr'"
| offboard: "offboard_library key_row stamp sr org confirm actor_id label admin = Inr (reply, sr') \<Longrightarrow> tenant_step sr sr'"
| provision: "provision_library stamp ids plan_active sr v actor = Inr sr' \<Longrightarrow> fresh_ids ids sr \<Longrightarrow> tenant_step sr sr'"
| assign: "assign_library_operational_identity new_customer sr slug actor = Inr (reply, sr') \<Longrightarrow> fresh_customer new_customer sr
    \<Longrightarrow> tenant_step sr sr'"
| issue: "issue_ingest_key new_key (sr_db sr) customer branch None = Inr (new_key, db') \<Longrightarrow> new_key \<notin> ik_key_id ` set (db_keys (sr_db sr))
    \<Longrightarrow> tenant_step sr (sr\<lparr>sr_db := db'\<rparr>)"
| retire: "retire_ingest_key now (sr_db sr) key_id = Inr (hit, db') \<Longrightarrow> tenant_step sr (sr\<lparr>sr_db := db'\<rparr>)"
| cutover: "record_v2_cutover now (sr_db sr) customer branch at_time set_by why = Inr db' \<Longrightarrow> tenant_step sr (sr\<lparr>sr_db := db'\<rparr>)"
| member: "member_step actor sr sr' \<Longrightarrow> tenant_step sr sr'"
| login: "authenticate_user check_hash now stamp sr email password = (reply, sr') \<Longrightarrow> tenant_step sr sr'"
| session: "create_session now isoformat token new_id sr user = (r, sr') \<Longrightarrow> token_hash token \<notin> se_token_hash ` set (sr_sessions sr)
    \<Longrightarrow> tenant_step sr sr'"
| visit: "validate_session now sr raw_token = (seen, sr') \<Longrightarrow> tenant_step sr sr'"
| logout: "revoke_session now sr raw_token = (ok, sr') \<Longrightarrow> tenant_step sr sr'"
| logout_all: "revoke_all_sessions_for_user now sr user = (n, sr') \<Longrightarrow> tenant_step sr sr'"
| ask_reset: "request_password_reset now stamp token sr asked = (sent, sr') \<Longrightarrow> token_hash token \<notin> rt_token_hash ` set (sr_resets sr)
    \<Longrightarrow> tenant_step sr sr'"
| reset: "reset_password_with_token check_hash new_hash now stamp sr raw_token new_password confirm = (code, sr') \<Longrightarrow> tenant_step sr sr'"
| change: "change_password check_hash new_hash now stamp sr user current new_password confirm = (code, sr') \<Longrightarrow> tenant_step sr sr'"

section \<open>Every step\<close>

lemma server_grows_only_db: "db_grows (sr_db sr) db' \<Longrightarrow> server_grows sr (sr\<lparr>sr_db := db'\<rparr>)"
  by (rule server_grows_db) simp_all

lemma step_grows:
  assumes "tenant_step sr sr'" "tables_wf sr"
  shows "server_grows sr sr'"
  using assms(1)
proof cases
  case (enroll env now stamp draws hostname version raw requested e)
  then show ?thesis by (intro enroll_grows [OF _ _ assms(2)])
next
  case (upload sv now authorization body reply db')
  then show ?thesis by (auto intro: server_grows_only_db upload_grows)
next
  case (heartbeat sv now authorization body reply db')
  then show ?thesis by (auto intro: server_grows_only_db heartbeat_grows)
next
  case (issue new_key customer branch db')
  then show ?thesis by (auto intro: server_grows_only_db issue_grows)
next
  case (retire now key_id hit db')
  then show ?thesis by (auto intro: server_grows_only_db retire_grows)
next
  case (cutover now customer branch at_time set_by why db')
  then show ?thesis by (auto intro: server_grows_only_db cutover_grows)
next
  case (login check_hash now stamp email password reply)
  from login_frame [OF this] show ?thesis by (simp add: server_grows_def same_rows)
qed (use assms(2) in \<open>blast intro: install_grows rename_grows status_grows code_grows recover_grows unbound_grows suspend_grows
  offboard_grows provision_grows assign_grows member_grows session_grows visit_grows logout_grows logout_all_grows ask_reset_grows
  reset_grows change_grows\<close>)+

section \<open>The tables stay sound\<close>

definition customers_unique :: "db \<Rightarrow> bool" where
  "customers_unique db \<longleftrightarrow> (\<forall>g \<in> set (db_organizations db). \<forall>h \<in> set (db_organizations db).
     og_operational_customer_id g \<noteq> None \<longrightarrow> og_operational_customer_id g = og_operational_customer_id h \<longrightarrow> og_id g = og_id h)"

definition mapped_to_self :: "branch list \<Rightarrow> bool" where
  "mapped_to_self rows \<longleftrightarrow> (\<forall>b \<in> set rows. br_operational_branch_id b = None \<or> br_operational_branch_id b = Some (br_id b))"

definition maps_kept :: "db \<Rightarrow> db \<Rightarrow> bool" where
  "maps_kept db db' \<longleftrightarrow> (customers_unique db \<longrightarrow> customers_unique db') \<and> (mapped_to_self (db_branches db) \<longrightarrow> mapped_to_self (db_branches db'))"

lemma maps_kept_same: "db_organizations db' = db_organizations db \<Longrightarrow> db_branches db' = db_branches db \<Longrightarrow> maps_kept db db'"
  by (simp add: maps_kept_def customers_unique_def)

lemma mapped_to_self_rows:
  assumes "list_all2 (\<lambda>b b'. br_id b' = br_id b \<and> branch_follows b b') bs bs'" "mapped_to_self bs"
  shows "mapped_to_self bs'"
  unfolding mapped_to_self_def
proof
  fix b'
  assume "b' \<in> set bs'"
  from all2_pick2 [OF assms(1) this] assms(2) show "br_operational_branch_id b' = None \<or> br_operational_branch_id b' = Some (br_id b')"
    by (auto simp: mapped_to_self_def branch_follows_def)
qed

lemma mapped_branch_rows_self: "mapped_to_self rows \<Longrightarrow> mapped_to_self (mapped_branch_rows br rows)"
  by (auto simp: mapped_to_self_def mapped_branch_rows_def update_where_snd)

lemma set_status_unique: "customers_unique (set_status status org db) = customers_unique db"
proof -
  let ?f = "\<lambda>g :: organization. if og_id g = org then g\<lparr>og_status := status\<rparr> else g"
  have f: "og_id (?f g) = og_id g" "og_operational_customer_id (?f g) = og_operational_customer_id g" for g by simp_all
  have "db_organizations (set_status status org db) = List.map ?f (db_organizations db)" by (simp add: set_status_def update_where_snd)
  then show ?thesis unfolding customers_unique_def by (simp only: set_map ball_simps f)
qed

lemma customers_unique_map:
  assumes "customers_unique db" "Some c \<notin> og_operational_customer_id ` set (db_organizations db)"
  shows "customers_unique (db\<lparr>db_organizations := mapped_organization_rows c org (db_organizations db)\<rparr>)"
proof -
  let ?f = "\<lambda>g :: organization. if og_id g = org \<and> og_operational_customer_id g = None then g\<lparr>og_operational_customer_id := Some c\<rparr> else g"
  have f: "og_id (?f g) = og_id g" "og_operational_customer_id (?f g) = (if og_id g = org \<and> og_operational_customer_id g = None
      then Some c else og_operational_customer_id g)" for g by simp_all
  have n: "og_operational_customer_id g \<noteq> Some c" if "g \<in> set (db_organizations db)" for g using assms(2) that by force
  have "og_id g = og_id h" if "g \<in> set (db_organizations db)" "h \<in> set (db_organizations db)" "og_operational_customer_id (?f g) \<noteq> None"
    "og_operational_customer_id (?f g) = og_operational_customer_id (?f h)" for g h
    using assms(1) n [OF that(1)] n [OF that(2)] that unfolding customers_unique_def f by (metis (full_types))
  note same = this
  have e: "db_organizations (db\<lparr>db_organizations := mapped_organization_rows c org (db_organizations db)\<rparr>) = List.map ?f (db_organizations db)"
    by (simp add: mapped_organization_rows_def update_where_snd)
  show ?thesis unfolding customers_unique_def e
  proof (intro ballI impI)
    fix g' h'
    assume m: "g' \<in> set (List.map ?f (db_organizations db))" "h' \<in> set (List.map ?f (db_organizations db))"
      and q: "og_operational_customer_id g' \<noteq> None" "og_operational_customer_id g' = og_operational_customer_id h'"
    from m obtain g h where g: "g \<in> set (db_organizations db)" "g' = ?f g" and h: "h \<in> set (db_organizations db)" "h' = ?f h" by auto
    show "og_id g' = og_id h'" unfolding g(2) h(2) f(1) by (rule same [OF g(1) h(1)]) (use q g(2) h(2) in simp_all)
  qed
qed


section \<open>Organizations and branches\<close>

definition same_registry_rows :: "server \<Rightarrow> server \<Rightarrow> bool" where
  "same_registry_rows sr sr' \<longleftrightarrow> db_organizations (sr_db sr') = db_organizations (sr_db sr) \<and> db_branches (sr_db sr') = db_branches (sr_db sr)"

lemma maps_kept_registry: "same_registry_rows sr sr' \<Longrightarrow> maps_kept (sr_db sr) (sr_db sr')"
  by (rule maps_kept_same) (simp_all add: same_registry_rows_def)

lemma enroll_registry:
  assumes "collector_enroll env now stamp draws hostname version sr raw requested = (Enrolled e, sr')" "codes_wf (sr_codes sr)"
  shows "same_registry_rows sr sr'"
proof -
  have "redeem_enrollment_code env now stamp draws hostname version sr raw requested = Inr (e, sr')"
    by (rule enroll_cases [of env now stamp draws hostname version sr raw requested]) (use assms(1) in auto)
  from redeem_applied [OF this assms(2)] show ?thesis by (auto simp: enrollment_applied_def same_registry_rows_def)
qed

lemma admin_registry:
  "create_installation env new_id sr library name contract actor = Inr sr' \<Longrightarrow> same_registry_rows sr sr'"
  "rename_installation stamp sr library i name actor = Inr sr' \<Longrightarrow> same_registry_rows sr sr'"
  "change_status stamp sr library i status actor = Inr sr' \<Longrightarrow> same_registry_rows sr sr'"
  "revoke_unbound_token sr library token_id actor = Inr sr' \<Longrightarrow> same_registry_rows sr sr'"
     apply (clarsimp simp: create_installation_def guard_Inr same_registry_rows_def split: option.splits split del: if_split)
     apply (auto dest!: insert_installation_Inr)[1]
    apply (clarsimp simp: rename_installation_def Let_def case_prod_unfold guard_Inr same_registry_rows_def)
   apply (erule change_status_Inr, simp add: same_registry_rows_def)
  apply (clarsimp simp: revoke_unbound_token_def Let_def case_prod_unfold guard_Inr same_registry_rows_def)
  done

lemma code_registry: "issue_enrollment_code isoformat now stamp characters new_id sr library i actor = Inr (raw, sr') \<Longrightarrow> same_registry_rows sr sr'"
  by (auto simp: issue_enrollment_code_def create_enrollment_code_def Let_def case_prod_unfold guard_Inr same_registry_rows_def)

lemma recover_registry:
  assumes "recover_installation env draws sr library i actor = Inr (raw, sr')"
  shows "same_registry_rows sr sr'"
proof -
  from assms obtain r s1 where c: "issue_recovery_token env draws sr i (og_id library) = Inr (r, s1)" and s: "sr_db sr' = sr_db s1"
    unfolding recover_installation_def by (clarsimp simp: guard_Inr)
  from c show ?thesis unfolding issue_recovery_token_def Let_def case_prod_unfold
    by (clarsimp simp: s guard_Inr same_registry_rows_def simp del: filter.simps append.simps)
qed

lemma key_registry:
  "issue_ingest_key new_key (sr_db sr) customer branch None = Inr (k, db') \<Longrightarrow> same_registry_rows sr (sr\<lparr>sr_db := db'\<rparr>)"
  "retire_ingest_key now (sr_db sr) key_id = Inr (hit, db') \<Longrightarrow> same_registry_rows sr (sr\<lparr>sr_db := db'\<rparr>)"
  "record_v2_cutover now (sr_db sr) customer branch at_time set_by why = Inr db' \<Longrightarrow> same_registry_rows sr (sr\<lparr>sr_db := db'\<rparr>)"
  by (auto simp: issue_ingest_key_def retire_ingest_key_def record_v2_cutover_def Let_def case_prod_unfold same_registry_rows_def split: if_splits)

lemma heartbeat_registry:
  assumes "status_v2 sv now authorization body (sr_db sr) = (reply, db')"
  shows "same_registry_rows sr (sr\<lparr>sr_db := db'\<rparr>)"
proof (rule status_v2_cases [of body now "sr_db sr" authorization sv])
  fix j q db''
  assume t: "status_transaction now (sr_db sr) authorization q = Inr db''" and u: "\<exists>b. status_v2 sv now authorization body (sr_db sr) = ((200, b), db'')"
  have e: "db'' = db'" using u assms by auto
  obtain token where f: "db_branches db'' = db_branches (sr_db sr)" "db_organizations db'' = db_organizations (sr_db sr)"
    by (rule status_transaction_Inr [OF t]) (rule that; assumption)
  then show ?thesis by (simp add: e same_registry_rows_def)
next
  assume "snd (status_v2 sv now authorization body (sr_db sr)) = sr_db sr"
  then show ?thesis using assms by (simp add: same_registry_rows_def)
qed

lemma upload_maps:
  assumes "upload_v2 sv now authorization body db = (reply, db')"
  shows "maps_kept db db'"
proof (rule upload_v2_cases [of body now db authorization sv])
  fix j r counts db''
  assume t: "upload_transaction now db authorization r = Inr (counts, db'')" and u: "\<exists>b. upload_v2 sv now authorization body db = ((200, b), db'')"
  have e: "db'' = db'" using u assms by auto
  obtain token where f: "same_registry db db''" "list_all2 (branch_step now token) (db_branches db) (db_branches db'')"
    by (rule upload_transaction_Inr [OF t]) (rule that; assumption)
  have b: "list_all2 (\<lambda>b b'. br_id b' = br_id b \<and> branch_follows b b') (db_branches db) (db_branches db'')"
    by (rule list_all2_mono [OF f(2)]) (auto simp: branch_step_def branch_follows_def)
  have "db_organizations db'' = db_organizations db" using f(1) by (simp add: same_registry_def)
  then show ?thesis unfolding maps_kept_def e [symmetric] using mapped_to_self_rows [OF b] by (simp add: customers_unique_def)
next
  assume "snd (upload_v2 sv now authorization body db) = db"
  then show ?thesis using assms by (simp add: maps_kept_same)
qed

lemma suspend_maps:
  assumes "set_library_active_status sr org is_active admin = Inr (reply, sr')"
  shows "maps_kept (sr_db sr) (sr_db sr')"
proof -
  from assms have "sr_db sr' = sr_db sr \<or> sr_db sr' = set_status (if is_active then ''active'' else ''suspended'') org (sr_db sr)"
    by (auto simp: set_library_active_status_def Let_def split: option.splits if_splits)
  then show ?thesis by (elim disjE) (simp_all add: maps_kept_def set_status_unique, simp add: set_status_def)
qed

lemma offboard_maps:
  assumes "offboard_library key_row stamp sr org confirm actor_id label admin = Inr (reply, sr')"
  shows "maps_kept (sr_db sr) (sr_db sr')"
proof -
  obtain g :: organization where s: "sr_db sr' = swept_db stamp org (og_operational_customer_id g) (sr_db sr)"
    by (rule offboard_Inr [OF assms]) (rule that; assumption)
  have "db_organizations (sr_db sr') = db_organizations (set_status ''cancelled'' org (sr_db sr))" "db_branches (sr_db sr') = db_branches (sr_db sr)"
    by (simp_all add: s swept_db_def Let_def set_status_def)
  then show ?thesis using set_status_unique [of "''cancelled''" org "sr_db sr"] by (simp add: maps_kept_def customers_unique_def)
qed

lemma identity_maps:
  assumes "assign_operational_identity new_customer sr org br = Inr (reply, sr')"
    "Some new_customer \<notin> og_operational_customer_id ` set (db_organizations (sr_db sr))"
  shows "maps_kept (sr_db sr) (sr_db sr')"
proof -
  obtain bs gs cs where s: "sr' = sr\<lparr>sr_customers := cs, sr_db := (sr_db sr)\<lparr>db_branches := bs, db_organizations := gs\<rparr>\<rparr>"
    and r: "bs \<in> {db_branches (sr_db sr), mapped_branch_rows br (db_branches (sr_db sr))}"
      "gs = db_organizations (sr_db sr) \<or> gs = mapped_organization_rows new_customer org (db_organizations (sr_db sr))"
    using assign_Inr [OF assms(1)] by blast
  have "mapped_to_self bs" if "mapped_to_self (db_branches (sr_db sr))" using r(1) that by (auto intro: mapped_branch_rows_self)
  moreover have "customers_unique (sr_db sr')" if u: "customers_unique (sr_db sr)"
    using r(2) u customers_unique_map [OF u assms(2), of org] by (auto simp: s customers_unique_def)
  ultimately show ?thesis by (simp add: maps_kept_def s)
qed

lemma assign_maps:
  assumes "assign_library_operational_identity new_customer sr slug actor = Inr (reply, sr')" "fresh_customer new_customer sr"
  shows "maps_kept (sr_db sr) (sr_db sr')"
proof -
  from assms(1) obtain org br r s1 where a: "assign_operational_identity new_customer sr org br = Inr (r, s1)" and s: "sr_db sr' = sr_db s1"
    by (auto simp: assign_library_operational_identity_def guard_Inr split: option.splits if_splits)
  show ?thesis unfolding s by (rule identity_maps [OF a]) (use assms(2) in \<open>simp add: fresh_customer_def\<close>)
qed

lemma provision_maps:
  assumes "provision_library stamp ids plan_active sr v actor = Inr sr'" "fresh_ids ids sr"
  shows "maps_kept (sr_db sr) (sr_db sr')"
proof -
  obtain g :: organization and b :: branch and r s1 s2 where s1: "s1 = sr\<lparr>sr_db := (sr_db sr)\<lparr>db_organizations := db_organizations (sr_db sr) @ [g],
      db_branches := db_branches (sr_db sr) @ [b]\<rparr>, sr_organization_settings := sr_organization_settings sr @ [(og_id g, Some (JObj []))],
      sr_branch_settings := sr_branch_settings sr @ [(br_id b, Some (JObj []))]\<rparr>"
    and a: "assign_operational_identity (pi_customer ids) s1 (og_id g) (br_id b) = Inr (r, s2)"
    and n: "og_operational_customer_id g = None" "br_operational_branch_id b = None" and s: "sr_db sr' = sr_db s2"
    by (rule provision_Inr [OF assms(1)]) (rule that; assumption)
  have e: "db_organizations (sr_db s1) = db_organizations (sr_db sr) @ [g]" by (simp add: s1)
  have "customers_unique (sr_db s1)" if "customers_unique (sr_db sr)"
    unfolding customers_unique_def e
  proof (intro ballI impI)
    fix x h :: organization
    assume m: "x \<in> set (db_organizations (sr_db sr) @ [g])" "h \<in> set (db_organizations (sr_db sr) @ [g])"
      and q: "og_operational_customer_id x \<noteq> None" "og_operational_customer_id x = og_operational_customer_id h"
    have "x \<noteq> g" "h \<noteq> g" using n(1) q by auto
    then have "x \<in> set (db_organizations (sr_db sr))" "h \<in> set (db_organizations (sr_db sr))" using m by simp_all
    then show "og_id x = og_id h" using that q unfolding customers_unique_def by blast
  qed
  moreover have "mapped_to_self (db_branches (sr_db s1))" if "mapped_to_self (db_branches (sr_db sr))"
    using that n(2) by (auto simp: mapped_to_self_def s1)
  moreover have "maps_kept (sr_db s1) (sr_db s2)"
    by (rule identity_maps [OF a]) (use assms(2) n(1) in \<open>simp add: s1 fresh_ids_def\<close>)
  ultimately show ?thesis by (simp add: maps_kept_def s)
qed

lemma login_registry: "sr_db sr' = sr_db sr \<Longrightarrow> maps_kept (sr_db sr) (sr_db sr')"
  by (simp add: maps_kept_same)

lemma logins_db:
  "create_session now isoformat token new_id sr user = (r, sr') \<Longrightarrow> sr_db sr' = sr_db sr"
  "validate_session now sr raw = (seen, sr') \<Longrightarrow> sr_db sr' = sr_db sr"
  "revoke_session now sr raw = (ok, sr') \<Longrightarrow> sr_db sr' = sr_db sr"
  "revoke_all_sessions_for_user now sr user = (n, sr') \<Longrightarrow> sr_db sr' = sr_db sr"
  "request_password_reset now stamp token sr asked = (sent, sr') \<Longrightarrow> sr_db sr' = sr_db sr"
  by (auto simp: create_session_def validate_session_def revoke_session_def revoke_all_sessions_for_user_def request_password_reset_def
    Let_def case_prod_unfold revoked_of_frame split: option.splits if_splits)

lemma passwords_db:
  "reset_password_with_token check_hash new_hash now stamp sr raw new_password confirm = (code, sr') \<Longrightarrow> sr_db sr' = sr_db sr"
  "change_password check_hash new_hash now stamp sr user current new_password confirm = (code, sr') \<Longrightarrow> sr_db sr' = sr_db sr"
  by (auto simp: reset_password_with_token_def apply_reset_def change_password_def refuse_change_def set_password_def
    Let_def case_prod_unfold revoked_of_frame split: option.splits if_splits)

lemma members_db:
  assumes "member_step actor sr sr'"
  shows "sr_db sr' = sr_db sr"
  using assms
proof cases
  case (add draws slug email password full_name role)
  from add(1) obtain g :: organization and u :: account and s1 s2 where
    f: "find_or_create (md_hash draws) (md_account_id draws) sr (py_lower (py_strip email)) password full_name = Inr (u, s1)"
    and a: "attach (md_membership_id draws) s1 (og_id g) u role = Inr s2" and s: "sr_db sr' = sr_db s2"
    unfolding add_organization_member_def Let_def by (clarsimp simp: guard_Inr)
  show ?thesis by (simp add: s attach_frame [OF a] find_or_create_Inr [OF f])
next
  case (first draws slug email password full_name)
  from first(1) obtain g :: organization and u :: account and s1 s2 where
    f: "find_or_create (md_hash draws) (md_account_id draws) sr (py_lower (py_strip email)) password full_name = Inr (u, s1)"
    and a: "attach (md_membership_id draws) s1 (og_id g) u ''owner'' = Inr s2" and s: "sr_db sr' = sr_db s2"
    unfolding assign_first_owner_def Let_def by (clarsimp simp: guard_Inr)
  show ?thesis by (simp add: s attach_frame [OF a] find_or_create_Inr [OF f])
next
  case (change slug user role)
  then show ?thesis by (auto simp: change_organization_member_role_def split: if_splits)
next
  case (remove now slug user)
  then show ?thesis by (auto simp: remove_organization_member_def split: if_splits)
next
  case (account now user is_active)
  then show ?thesis by (auto simp: set_global_account_active_def Let_def guard_Inr revoked_of_frame split: option.splits)
qed

lemma step_maps:
  assumes "tenant_step sr sr'" "tables_wf sr"
  shows "maps_kept (sr_db sr) (sr_db sr')"
  using assms(1)
proof cases
  case (enroll env now stamp draws hostname version raw requested e)
  from enroll(1) show ?thesis by (intro maps_kept_registry enroll_registry) (use assms(2) in \<open>simp_all add: tables_wf_def\<close>)
next
  case (upload sv now authorization body reply db')
  then show ?thesis by (simp add: upload_maps)
next
  case (heartbeat sv now authorization body reply db')
  then show ?thesis using maps_kept_registry [OF heartbeat_registry] by simp
next
  case (issue new_key customer branch db')
  then show ?thesis using maps_kept_registry [OF key_registry(1)] by simp
next
  case (retire now key_id hit db')
  then show ?thesis using maps_kept_registry [OF key_registry(2)] by simp
next
  case (cutover now customer branch at_time set_by why db')
  then show ?thesis using maps_kept_registry [OF key_registry(3)] by simp
next
  case (login check_hash now stamp email password reply)
  from login_frame [OF this] show ?thesis by (simp add: login_registry)
qed (blast intro: maps_kept_registry admin_registry code_registry recover_registry suspend_maps offboard_maps provision_maps assign_maps
  login_registry logins_db passwords_db members_db)+

definition tenants_wf :: "server \<Rightarrow> bool" where
  "tenants_wf sr \<longleftrightarrow> tables_wf sr \<and> customers_unique (sr_db sr)"

lemma tables_distinct:
  assumes "tables_wf sr"
  shows "distinct (List.map og_id (db_organizations (sr_db sr)))" "distinct (List.map br_id (db_branches (sr_db sr)))"
    "distinct (List.map in_id (db_installations (sr_db sr)))" "distinct (List.map at_token_hash (db_tokens (sr_db sr)))"
    "distinct (List.map ik_key_id (db_keys (sr_db sr)))" "distinct (List.map ec_id (sr_codes sr))" "distinct (List.map ec_code_hash (sr_codes sr))"
    "distinct (List.map se_token_hash (sr_sessions sr))" "distinct (List.map rt_token_hash (sr_resets sr))" "mapped_to_self (db_branches (sr_db sr))"
  using assms by (simp_all add: tables_wf_def mapped_branches_def codes_wf_def mapped_to_self_def)

lemma grown_tables:
  assumes "server_grows sr sr'"
  shows "grows og_id org_follows (db_organizations (sr_db sr)) (db_organizations (sr_db sr'))"
    "grows br_id branch_follows (db_branches (sr_db sr)) (db_branches (sr_db sr'))"
    "grows in_id installation_follows (db_installations (sr_db sr)) (db_installations (sr_db sr'))"
    "grows at_token_hash token_follows (db_tokens (sr_db sr)) (db_tokens (sr_db sr'))"
    "grows ik_key_id key_follows (db_keys (sr_db sr)) (db_keys (sr_db sr'))"
    "grows ec_id code_follows (sr_codes sr) (sr_codes sr')" "grows ec_code_hash code_follows (sr_codes sr) (sr_codes sr')"
    "grows se_token_hash session_follows (sr_sessions sr) (sr_sessions sr')" "grows rt_token_hash reset_follows (sr_resets sr) (sr_resets sr')"
  using assms by (simp_all add: server_grows_def db_grows_def)

lemma step_wf:
  assumes "tenants_wf sr" "tenant_step sr sr'"
  shows "tenants_wf sr'"
proof -
  have w: "tables_wf sr" "customers_unique (sr_db sr)" using assms(1) by (simp_all add: tenants_wf_def)
  note d = tables_distinct [OF w(1)] and g = grown_tables [OF step_grows [OF assms(2) w(1)]] and m = step_maps [OF assms(2) w(1), unfolded maps_kept_def]
  have s: "mapped_to_self (db_branches (sr_db sr'))" "customers_unique (sr_db sr')" using m d(10) w(2) by simp_all
  have "tables_wf sr'" unfolding tables_wf_def mapped_branches_def codes_wf_def
    by (intro conjI grows_distinct [OF g(1) d(1)] grows_distinct [OF g(2) d(2)] grows_distinct [OF g(3) d(3)] grows_distinct [OF g(4) d(4)]
      grows_distinct [OF g(5) d(5)] grows_distinct [OF g(6) d(6)] grows_distinct [OF g(7) d(7)] grows_distinct [OF g(8) d(8)]
      grows_distinct [OF g(9) d(9)] s(1) [unfolded mapped_to_self_def])
  with s(2) show ?thesis by (simp add: tenants_wf_def)
qed

section \<open>The credentials of the model\<close>

lemma credentials_unique:
  assumes "tenants_wf sr"
  shows "distinct (List.map ec_code_hash (sr_codes sr))" "distinct (List.map at_token_hash (db_tokens (sr_db sr)))"
    "distinct (List.map ik_key_id (db_keys (sr_db sr)))" "distinct (List.map se_token_hash (sr_sessions sr))"
    "distinct (List.map rt_token_hash (sr_resets sr))"
  using tables_distinct assms by (simp_all add: tenants_wf_def)

lemma credentials_follow:
  assumes "tenants_wf sr" "tenant_step sr sr'"
  shows "grows ec_code_hash (\<lambda>r r'. unused r' \<longrightarrow> unused r) (sr_codes sr) (sr_codes sr')"
    "grows at_token_hash (\<lambda>r r'. at_is_active r' \<longrightarrow> at_is_active r) (db_tokens (sr_db sr)) (db_tokens (sr_db sr'))"
    "grows ik_key_id (\<lambda>r r'. ik_status r' = ''active'' \<longrightarrow> ik_status r = ''active'') (db_keys (sr_db sr)) (db_keys (sr_db sr'))"
    "grows se_token_hash (\<lambda>r r'. se_revoked_at r' = None \<longrightarrow> se_revoked_at r = None) (sr_sessions sr) (sr_sessions sr')"
    "grows rt_token_hash (\<lambda>r r'. rt_used_at r' = None \<longrightarrow> rt_used_at r = None) (sr_resets sr) (sr_resets sr')"
proof -
  have "tables_wf sr" using assms(1) by (simp add: tenants_wf_def)
  note g = grown_tables [OF step_grows [OF assms(2) this]]
  show "grows ec_code_hash (\<lambda>r r'. unused r' \<longrightarrow> unused r) (sr_codes sr) (sr_codes sr')"
    by (rule grows_weaken [OF g(7)]) (simp add: code_follows_def)
  show "grows at_token_hash (\<lambda>r r'. at_is_active r' \<longrightarrow> at_is_active r) (db_tokens (sr_db sr)) (db_tokens (sr_db sr'))"
    by (rule grows_weaken [OF g(4)]) (simp add: token_follows_def)
  show "grows ik_key_id (\<lambda>r r'. ik_status r' = ''active'' \<longrightarrow> ik_status r = ''active'') (db_keys (sr_db sr)) (db_keys (sr_db sr'))"
    by (rule grows_weaken [OF g(5)]) (simp add: key_follows_def)
  show "grows se_token_hash (\<lambda>r r'. se_revoked_at r' = None \<longrightarrow> se_revoked_at r = None) (sr_sessions sr) (sr_sessions sr')"
    by (rule grows_weaken [OF g(8)]) (simp add: session_follows_def)
  show "grows rt_token_hash (\<lambda>r r'. rt_used_at r' = None \<longrightarrow> rt_used_at r = None) (sr_resets sr) (sr_resets sr')"
    by (rule grows_weaken [OF g(9)]) (simp add: reset_follows_def)
qed

interpretation codes: credential_table tenant_step tenants_wf sr_codes ec_code_hash unused
  by unfold_locales (rule step_wf credentials_unique credentials_follow; assumption)+

interpretation tokens: credential_table tenant_step tenants_wf "\<lambda>sr. db_tokens (sr_db sr)" at_token_hash at_is_active
  by unfold_locales (rule step_wf credentials_unique credentials_follow; assumption)+

interpretation ingest_keys: credential_table tenant_step tenants_wf "\<lambda>sr. db_keys (sr_db sr)" ik_key_id "\<lambda>k. ik_status k = ''active''"
  by unfold_locales (rule step_wf credentials_unique credentials_follow; assumption)+

interpretation sessions: credential_table tenant_step tenants_wf sr_sessions se_token_hash "\<lambda>s. se_revoked_at s = None"
  by unfold_locales (rule step_wf credentials_unique credentials_follow; assumption)+

interpretation resets: credential_table tenant_step tenants_wf sr_resets rt_token_hash "\<lambda>t. rt_used_at t = None"
  by unfold_locales (rule step_wf credentials_unique credentials_follow; assumption)+

end
