(* ===== verification/TenantSafety.thy ===== *)
theory TenantSafety
  imports TenantSystem
begin

text \<open>
  The properties of the server over any number of steps: an enrollment code is redeemed once; a token, key,
  session or reset link that was taken back never works again; a library that was cut off stays cut off,
  whatever its own or the platform's administrators do later; and an active ingest key always has a usable owner.
\<close>

section \<open>Codes\<close>

lemma applied_code:
  assumes "enrollment_applied now stamp draws raw requested sr sr'"
  shows "\<exists>c plain. normalize_enrollment_code raw = Some plain \<and> c \<in> set (sr_codes sr) \<and> ec_code_hash c = hash_enrollment_code plain
    \<and> sr_codes sr' = used_at stamp (ec_id c) (sr_codes sr)"
  using assms unfolding enrollment_applied_def by (elim exE conjE) (intro exI conjI, assumption+, simp)

lemma dead_code_refused:
  assumes "normalize_enrollment_code raw = Some plain" "c \<in> set (sr_codes sr)" "ec_code_hash c = hash_enrollment_code plain"
    "\<forall>x \<in> set (sr_codes sr). ec_code_hash x = hash_enrollment_code plain \<longrightarrow> \<not> unused x"
  shows "collector_enroll env now stamp draws hostname version sr raw requested = (Rejected400, sr)"
proof -
  obtain x where x: "find (\<lambda>c. ec_code_hash c = hash_enrollment_code plain) (sr_codes sr) = Some x"
    using assms(2,3) by (cases "find (\<lambda>c. ec_code_hash c = hash_enrollment_code plain) (sr_codes sr)") (auto simp: find_None_iff)
  then have "\<not> unused x" using assms(4) find_SomeD [OF x] by blast
  then have "\<exists>reason. presented_code now sr raw = Inl (EnrollmentError reason)"
    by (auto simp: presented_code_def assms(1) x unused_def)
  then show ?thesis by (auto simp: collector_enroll_def redeem_enrollment_code_def)
qed

lemma used_at_row: "c \<in> set codes \<Longrightarrow> \<exists>c' \<in> set (used_at stamp (ec_id c) codes). ec_code_hash c' = ec_code_hash c \<and> \<not> unused c'"
  by (rule bexI [of _ "c\<lparr>ec_used_at := Some stamp\<rparr>"]) (auto simp: used_at_def unused_def)

text \<open>C10. An enrollment code enrolls one collector: once a code has been redeemed, it is refused at every later time, whatever else happens
  in between and however it is typed, and the refusal changes nothing.\<close>

theorem code_redeemed_once:
  assumes "tenants_wf sr" "collector_enroll env now stamp draws hostname version sr raw requested = (Enrolled e, sr1)" "fresh_draws draws sr"
    and "tenant_step\<^sup>*\<^sup>* sr1 sr2" "normalize_enrollment_code raw' = normalize_enrollment_code raw"
  shows "collector_enroll env' now' stamp' draws' hostname' version' sr2 raw' requested' = (Rejected400, sr2)"
proof -
  have wf1: "tenants_wf sr1" by (rule step_wf [OF assms(1) tenant_step.enroll [OF assms(2,3)]])
  have cw: "codes_wf (sr_codes sr)" using assms(1) by (simp add: tenants_wf_def tables_wf_def)
  have "redeem_enrollment_code env now stamp draws hostname version sr raw requested = Inr (e, sr1)"
    by (rule enroll_cases [of env now stamp draws hostname version sr raw requested]) (use assms(2) in auto)
  from applied_code [OF redeem_applied [OF this cw]] obtain c :: enrollment_code and plain where
      c: "normalize_enrollment_code raw = Some plain" "c \<in> set (sr_codes sr)" "ec_code_hash c = hash_enrollment_code plain"
    and s: "sr_codes sr1 = used_at stamp (ec_id c) (sr_codes sr)" by blast
  obtain c1 where c1: "c1 \<in> set (sr_codes sr1)" "ec_code_hash c1 = hash_enrollment_code plain" "\<not> unused c1"
    using used_at_row [OF c(2)] c(3) by (auto simp: s)
  obtain c2 where c2: "c2 \<in> set (sr_codes sr2)" "ec_code_hash c2 = hash_enrollment_code plain"
    using codes.dead_forever [OF assms(4) wf1 c1(1,3)] c1(2) by auto
  show ?thesis
    by (rule dead_code_refused [OF _ c2]) (use c(1) assms(5) codes.never_live_again [OF assms(4) wf1 c1(1,3)] c1(2) in auto)
qed

section \<open>Credentials taken back\<close>

lemma inactive_token_refused:
  assumes "get_bearer_token header = Inr token" "\<forall>t \<in> set (db_tokens db). at_token_hash t = token_hash token \<longrightarrow> \<not> at_is_active t"
  shows "isl (authenticate later db header expected)"
proof (cases "authenticate later db header expected")
  case (Inr p)
  obtain r db' where p: "p = (r, db')" by (cases p)
  from Inr have "token_lookup db token = Some r" "usable r" by (auto simp: p authenticate_Inr assms(1))
  then show ?thesis using assms(2) by (auto simp: token_lookup_def usable_iff Let_def dest: find_SomeD split: option.splits)
qed simp

lemma revoked_session_refused:
  assumes "\<forall>s \<in> set (sr_sessions sr). se_token_hash s = token_hash token \<longrightarrow> se_revoked_at s \<noteq> None"
  shows "fst (validate_session later sr (Some token)) = None"
proof -
  have "find (\<lambda>s. se_token_hash s = token_hash token \<and> live_session later s) (sr_sessions sr) = None"
    unfolding find_None_iff using assms by (auto simp: live_session_def)
  then show ?thesis by (simp add: validate_session_def valid_session_def)
qed

lemma used_reset_refused:
  assumes "\<forall>t \<in> set (sr_resets sr). rt_token_hash t = token_hash (py_strip token) \<longrightarrow> rt_used_at t \<noteq> None"
  shows "fst (reset_password_with_token check_hash new_hash now stamp sr (Some token) password confirm) \<noteq> ''password_reset''
    \<and> snd (reset_password_with_token check_hash new_hash now stamp sr (Some token) password confirm) = sr"
proof -
  have "find (\<lambda>t. rt_token_hash t = token_hash (py_strip token) \<and> live_reset stamp t \<and> account_row sr (rt_user_id t) \<noteq> None) (sr_resets sr) = None"
    unfolding find_None_iff using assms by (auto simp: live_reset_def)
  then have "reset_row stamp sr (py_strip token) = None" by (simp add: reset_row_def)
  then show ?thesis by (auto simp: reset_password_with_token_def text_of_def Let_def)
qed

lemma retired_key_refused:
  assumes "\<forall>k \<in> set (db_keys db). ik_key_id k = key \<longrightarrow> ik_status k \<noteq> ''active''"
  shows "isl (require_ingest_key db r key)"
  using assms by (auto simp: require_ingest_key_def ingest_key_problem_def dest: find_SomeD split: option.splits)

text \<open>C11. What was taken back stays taken back: after any further operations of the server, a deactivated agent token
  authenticates no request, a retired ingest key passes for no token, a revoked session signs nobody in and a
  used or superseded reset link changes no password.\<close>

theorem credentials_stay_dead:
  assumes "tenants_wf sr" "tenant_step\<^sup>*\<^sup>* sr sr'"
  shows "(t \<in> set (db_tokens (sr_db sr)) \<longrightarrow> \<not> at_is_active t \<longrightarrow> get_bearer_token header = Inr token \<longrightarrow> token_hash token = at_token_hash t
            \<longrightarrow> isl (authenticate later (sr_db sr') header expected))
    \<and> (k \<in> set (db_keys (sr_db sr)) \<longrightarrow> ik_status k \<noteq> ''active'' \<longrightarrow> isl (require_ingest_key (sr_db sr') r (ik_key_id k)))
    \<and> (s \<in> set (sr_sessions sr) \<longrightarrow> se_revoked_at s \<noteq> None \<longrightarrow> token_hash token = se_token_hash s
            \<longrightarrow> fst (validate_session later sr' (Some token)) = None)
    \<and> (l \<in> set (sr_resets sr) \<longrightarrow> rt_used_at l \<noteq> None \<longrightarrow> token_hash (py_strip token) = rt_token_hash l
            \<longrightarrow> fst (reset_password_with_token check_hash new_hash now stamp sr' (Some token) password confirm) \<noteq> ''password_reset'')"
proof (intro conjI impI)
  assume t: "t \<in> set (db_tokens (sr_db sr))" "\<not> at_is_active t" and h: "get_bearer_token header = Inr token" "token_hash token = at_token_hash t"
  show "isl (authenticate later (sr_db sr') header expected)"
    by (rule inactive_token_refused [OF h(1)]) (use tokens.never_live_again [OF assms(2,1) t] h(2) in auto)
next
  assume k: "k \<in> set (db_keys (sr_db sr))" "ik_status k \<noteq> ''active''"
  show "isl (require_ingest_key (sr_db sr') r (ik_key_id k))"
    by (rule retired_key_refused) (use ingest_keys.never_live_again [OF assms(2,1) k] in blast)
next
  assume s: "s \<in> set (sr_sessions sr)" "se_revoked_at s \<noteq> None" "token_hash token = se_token_hash s"
  show "fst (validate_session later sr' (Some token)) = None"
    by (rule revoked_session_refused) (use sessions.never_live_again [OF assms(2,1) s(1,2)] s(3) in auto)
next
  assume l: "l \<in> set (sr_resets sr)" "rt_used_at l \<noteq> None" "token_hash (py_strip token) = rt_token_hash l"
  show "fst (reset_password_with_token check_hash new_hash now stamp sr' (Some token) password confirm) \<noteq> ''password_reset''"
    by (rule conjunct1 [OF used_reset_refused]) (use resets.never_live_again [OF assms(2,1) l(1,2)] l(3) in auto)
qed

section \<open>A cutoff is permanent\<close>

definition cut_off :: "int \<Rightarrow> server \<Rightarrow> bool" where
  "cut_off c sr \<longleftrightarrow> (\<exists>g \<in> set (db_organizations (sr_db sr)). og_operational_customer_id g = Some c \<and> og_status g = ''cancelled'')"

lemma cut_off_step:
  assumes "tenants_wf sr" "tenant_step sr sr'" "cut_off c sr"
  shows "cut_off c sr'"
proof -
  from assms(3) obtain g where g: "g \<in> set (db_organizations (sr_db sr))" "og_operational_customer_id g = Some c" "og_status g = ''cancelled''"
    unfolding cut_off_def by blast
  have "tables_wf sr" using assms(1) by (simp add: tenants_wf_def)
  from grows_pick [OF grown_tables(1) [OF step_grows [OF assms(2) this]] g(1)] g(2,3) show ?thesis
    by (auto simp: cut_off_def org_follows_def)
qed

lemma cut_off_run: "tenant_step\<^sup>*\<^sup>* sr sr' \<Longrightarrow> tenants_wf sr \<Longrightarrow> cut_off c sr \<Longrightarrow> cut_off c sr'"
proof (induction rule: rtranclp_induct)
  case (step t u)
  then show ?case using cut_off_step [OF codes.inv_run [OF step.hyps(1) step.prems(1)] step.hyps(2)] by blast
qed

lemma only_cancelled:
  assumes "tenants_wf sr" "cut_off c sr" "h \<in> set (db_organizations (sr_db sr))" "og_operational_customer_id h = Some c"
  shows "og_status h = ''cancelled''"
proof -
  from assms(2) obtain g where g: "g \<in> set (db_organizations (sr_db sr))" "og_operational_customer_id g = Some c" "og_status g = ''cancelled''"
    unfolding cut_off_def by blast
  have w: "customers_unique (sr_db sr)" "distinct (List.map og_id (db_organizations (sr_db sr)))"
    using assms(1) tables_distinct(1) by (simp_all add: tenants_wf_def)
  have "og_id h = og_id g" using w(1) assms(3,4) g(1,2) unfolding customers_unique_def by (metis option.distinct(1))
  then have "h = g" by (rule ids_eq [OF w(2) assms(3) g(1)])
  with g(3) show ?thesis by simp
qed

lemma offboard_cuts_off:
  assumes "offboard_library key_row stamp sr org confirm actor_id label admin = Inr (reply, sr')"
    and "organization_row (sr_db sr) org = Some g" "og_operational_customer_id g = Some c"
  shows "cut_off c sr'"
proof -
  obtain h :: organization where d: "sr_db sr' = swept_db stamp org (og_operational_customer_id h) (sr_db sr)"
    by (rule offboard_Inr [OF assms(1)]) (rule that; assumption)
  have "g\<lparr>og_status := ''cancelled''\<rparr> \<in> set (db_organizations (sr_db sr'))"
    using row_ids(2) [OF assms(2)] by (auto simp: d swept_db_def Let_def set_status_def update_where_snd image_iff)
  then show ?thesis using assms(3) unfolding cut_off_def by (intro bexI) auto
qed

lemma cut_off_authenticate:
  assumes "tenants_wf sr" "cut_off c sr" "authenticate later (sr_db sr) header expected = Inr (r, db')"
  shows "tr_customer_id r \<noteq> c"
proof
  assume c: "tr_customer_id r = c"
  from assms(3) obtain token where t: "token_lookup (sr_db sr) token = Some r" "usable r" by (auto simp: authenticate_Inr)
  from t(2) obtain os where os: "tr_organization_status r = Some os" "os \<in> set allowed_organization_statuses" by (auto simp: usable_iff tenant_usable)
  from t(1) os(1) c obtain g where g: "find (\<lambda>g. og_operational_customer_id g = Some c) (db_organizations (sr_db sr)) = Some g" "og_status g = os"
    by (auto simp: token_lookup_def Let_def split: option.splits)
  have "os = ''cancelled''" using only_cancelled [OF assms(1,2)] find_SomeD [OF g(1)] g(2) by blast
  with os(2) show False by (simp add: allowed_organization_statuses_def)
qed

lemma cut_off_scope:
  assumes "tenants_wf sr" "cut_off c sr" "resolve_installation_scope sr i expected = Inr sc"
  shows "sc_customer_id sc \<noteq> c"
proof -
  obtain x :: installation and g :: organization and b :: branch where u: "usable_installation sr x g b sc"
    by (rule resolve_scope_Inr [OF assms(3)]) (rule that; assumption)
  then have g: "g \<in> set (db_organizations (sr_db sr))" "og_status g \<in> set allowed_organization_statuses"
      "og_operational_customer_id g = Some (sc_customer_id sc)"
    using row_ids(2) by (auto simp: usable_installation_def)
  then show ?thesis using only_cancelled [OF assms(1,2) g(1)] by (auto simp: allowed_organization_statuses_def)
qed

lemma cut_off_enroll:
  assumes "tenants_wf sr" "cut_off c sr" "collector_enroll env now stamp draws hostname version sr raw requested = (Enrolled e, sr')"
  shows "en_customer_id e \<noteq> c"
proof -
  have "redeem_enrollment_code env now stamp draws hostname version sr raw requested = Inr (e, sr')"
    by (rule enroll_cases [of env now stamp draws hostname version sr raw requested]) (use assms(3) in auto)
  then obtain i sc where s: "resolve_installation_scope sr i None = Inr sc" "en_customer_id e = sc_customer_id sc"
    unfolding redeem_enrollment_code_def Let_def case_prod_unfold by (clarsimp simp: guard_Inr split: option.splits) auto
  show ?thesis unfolding s(2) by (rule cut_off_scope [OF assms(1,2) s(1)])
qed

lemma cut_off_key:
  assumes "tenants_wf sr" "cut_off c sr"
  shows "isl (issue_ingest_key new_key (sr_db sr) c branch owner)"
proof (cases "mapped_status (sr_db sr) c branch")
  case (Some status)
  then obtain g where g: "g \<in> set (db_organizations (sr_db sr))" "og_operational_customer_id g = Some c" "og_status g = status"
    by (auto simp: mapped_status_def dest: find_SomeD)
  have "status = ''cancelled''" using only_cancelled [OF assms g(1,2)] g(3) by simp
  then show ?thesis by (simp add: issue_ingest_key_def require_provisionable_tenant_def Some)
qed (simp add: issue_ingest_key_def require_provisionable_tenant_def)

lemma cut_off_reader:
  assumes "tenants_wf sr" "cut_off c sr" "resolve_operational_tenant sr user slug branch_slug = Some t"
  shows "rs_customer_id t \<noteq> c"
proof
  assume c: "rs_customer_id t = c"
  from assms(3) obtain u g b where r: "take 2 (tenant_rows sr user slug branch_slug) = [(u, g, b)]"
    by (auto simp: resolve_operational_tenant_def split: list.splits prod.splits)
  have g: "access_mode_for_organization_status (og_status g) \<noteq> ''blocked''" "og_operational_customer_id g = Some c"
    using assms(3) c by (auto simp: resolve_operational_tenant_def r Let_def split: if_splits option.splits)
  have "(u, g, b) \<in> set (tenant_rows sr user slug branch_slug)" using r by (metis in_set_takeD list.set_intros(1))
  then have "g \<in> set (db_organizations (sr_db sr))" by (auto simp: tenant_rows_def)
  from only_cancelled [OF assms(1,2) this g(2)] g(1) show False by (simp add: access_mode_for_organization_status_def)
qed

text \<open>C4. A library that was cut off never comes back: after its offboarding, whatever its members, the administrators and its
  collectors do, no token of any kind authenticates as its tenant, no code enrolls a collector into it, no new code or recovery token can be
  issued for an installation of it, no ingest key can be issued for it and no user is resolved to it. (Codes and recovery tokens are issued only for an installation whose scope resolves.)\<close>

theorem offboarding_is_final:
  assumes "tenants_wf sr" "organization_row (sr_db sr) org = Some g" "og_operational_customer_id g = Some c"
    and "offboard_library key_row stamp sr org confirm actor_id label admin = Inr (reply, sr1)" "tenant_step\<^sup>*\<^sup>* sr1 sr2"
  shows "(authenticate later (sr_db sr2) header expected = Inr (r, db') \<longrightarrow> tr_customer_id r \<noteq> c)
    \<and> (collector_enroll env now stamp' draws hostname version sr2 raw requested = (Enrolled e, sr3) \<longrightarrow> en_customer_id e \<noteq> c)
    \<and> (resolve_installation_scope sr2 i expected_organization = Inr sc \<longrightarrow> sc_customer_id sc \<noteq> c)
    \<and> isl (issue_ingest_key new_key (sr_db sr2) c branch owner)
    \<and> (resolve_operational_tenant sr2 user slug branch_slug = Some t \<longrightarrow> rs_customer_id t \<noteq> c)"
proof -
  have w1: "tenants_wf sr1" by (rule step_wf [OF assms(1) tenant_step.offboard [OF assms(4)]])
  have w: "tenants_wf sr2" "cut_off c sr2"
    by (rule codes.inv_run [OF assms(5) w1], rule cut_off_run [OF assms(5) w1 offboard_cuts_off [OF assms(4,2,3)]])
  show ?thesis
    by (intro conjI impI; (rule cut_off_key [OF w])?; (erule cut_off_authenticate [OF w] cut_off_enroll [OF w] cut_off_scope [OF w] cut_off_reader [OF w])?)
qed

section \<open>A cutoff is complete and always possible\<close>

lemma detail_keys_allowed:
  "list_all (\<lambda>key. \<not> forbidden_key key) [''status_before'', ''status_after'', ''repeat_sweep'', ''changed'', ''counts'', ''agent_token_ids'',
     ''installations'', ''enrollment_code_ids'', ''ingest_key_row_ids'', ''session_ids'', ''id'', ''agent_tokens_deactivated'',
     ''installations_retired'', ''enrollment_codes_revoked'', ''ingest_keys_retired'', ''sessions_revoked'']"
  by code_simp

lemma status_detail_keys: "py_lower ''status_before'' \<in> set string_detail_keys" "py_lower ''status_after'' \<in> set string_detail_keys"
  by code_simp+

lemma statuses_safe: "s \<in> set organization_statuses \<Longrightarrow> safe_detail_string s" "s \<in> set installation_statuses \<Longrightarrow> safe_detail_string s"
proof -
  have a: "list_all safe_detail_string (organization_statuses @ installation_statuses)" by code_simp
  then show "s \<in> set organization_statuses \<Longrightarrow> safe_detail_string s" "s \<in> set installation_statuses \<Longrightarrow> safe_detail_string s"
    by (auto simp: list_all_iff)
qed

lemma evidence_accepted:
  assumes "before \<in> set organization_statuses" "\<forall>(i, status) \<in> set (cu_installations e). status \<in> set installation_statuses"
  shows "validate_lifecycle_details (cutoff_details before e) = Inr (cutoff_details before e)"
proof -
  have ids: "check_detail key (ids_json is)" if "\<not> forbidden_key key" for key "is"
    using that by (simp add: ids_json_def list_all_iff)
  have k: "\<not> forbidden_key ''status_before''" "\<not> forbidden_key ''status_after''" "\<not> forbidden_key ''repeat_sweep''" "\<not> forbidden_key ''changed''"
    "\<not> forbidden_key ''counts''" "\<not> forbidden_key ''agent_token_ids''" "\<not> forbidden_key ''installations''" "\<not> forbidden_key ''enrollment_code_ids''"
    "\<not> forbidden_key ''ingest_key_row_ids''" "\<not> forbidden_key ''session_ids''" "\<not> forbidden_key ''id''" "\<not> forbidden_key ''agent_tokens_deactivated''"
    "\<not> forbidden_key ''installations_retired''" "\<not> forbidden_key ''enrollment_codes_revoked''" "\<not> forbidden_key ''ingest_keys_retired''"
    "\<not> forbidden_key ''sessions_revoked''"
    using detail_keys_allowed by (simp_all only: list.pred_inject simp_thms)
  have before: "safe_detail_string before" "safe_detail_string ''cancelled''"
    using statuses_safe(1) assms(1) by (simp_all add: organization_statuses_def)
  have "safe_detail_string status" if "(i, status) \<in> set (cu_installations e)" for i status
    using statuses_safe(2) assms(2) that by blast
  then have "check_detail ''installations'' (JArr (List.map (\<lambda>(i, status). JObj [(''id'', JInt i), (''status_before'', JStr status)]) (cu_installations e)))"
    using k(1,7,11) status_detail_keys by (auto simp: list_all_iff)
  moreover have "check_detail ''counts'' (counts_json (cutoff_counts e))"
    using k by (simp add: counts_json_def cutoff_counts_def)
  ultimately show ?thesis
    using k before ids status_detail_keys by (simp add: validate_lifecycle_details_def cutoff_details_def)
qed

lemma admin_label: "py_strip (''platform_admin:'' @ s) \<noteq> []"
proof -
  have "\<not> is_space CHR ''p''" by (simp add: is_space_def char_code_def)
  then show ?thesis by (simp add: py_strip_def)
qed

text \<open>Nothing of the tenant is live in the tables after the sweep.\<close>

definition nothing_live :: "int \<Rightarrow> int option \<Rightarrow> server \<Rightarrow> bool" where
  "nothing_live org customer sr \<longleftrightarrow>
     (\<forall>t \<in> set (db_tokens (sr_db sr)). \<not> tenant_token (sr_db sr) org customer t)
     \<and> (\<forall>x \<in> set (db_installations (sr_db sr)). \<not> live_installation org x)
     \<and> (\<forall>c \<in> set (sr_codes sr). \<not> tenant_code (sr_db sr) org c)
     \<and> (\<forall>k \<in> set (db_keys (sr_db sr)). \<not> tenant_key (sr_db sr) org customer k)
     \<and> (\<forall>s \<in> set (sr_sessions sr). \<not> orphaned_session sr org s)
     \<and> (\<forall>g \<in> set (db_organizations (sr_db sr)). og_id g = org \<longrightarrow> og_status g = ''cancelled'')"

lemma swept_rows: "x \<in> set (snd (update_where P f xs)) \<Longrightarrow> (\<And>y. P y \<Longrightarrow> \<not> Q (f y)) \<Longrightarrow> (\<And>y. Q y \<Longrightarrow> P y) \<Longrightarrow> \<not> Q x"
  by (auto simp: update_where_snd split: if_splits)

lemma retired_owners:
  "list_ex (\<lambda>x. in_organization_id x = org \<and> R (in_id x)) (snd (update_where P (\<lambda>x. x\<lparr>in_status := st, in_updated_at := u\<rparr>) xs))
    = list_ex (\<lambda>x. in_organization_id x = org \<and> R (in_id x)) xs"
  by (induction xs) (simp_all add: update_where_snd)

lemma sweep_complete: "nothing_live (og_id g) (og_operational_customer_id g) (sweep stamp g sr)"
proof -
  let ?org = "og_id g" and ?customer = "og_operational_customer_id g" and ?sr = "sweep stamp g sr"
  let ?db = "sr_db sr" and ?cancelled = "sr\<lparr>sr_db := set_status ''cancelled'' (og_id g) (sr_db sr)\<rparr>"
  have i: "db_installations (sr_db ?sr) = snd (update_where (live_installation ?org)
      (\<lambda>x. x\<lparr>in_status := ''retired'', in_updated_at := Some stamp\<rparr>) (db_installations ?db))"
    and b: "db_branches (sr_db ?sr) = db_branches ?db" and m: "sr_memberships ?sr = sr_memberships sr" "sr_accounts ?sr = sr_accounts sr"
    and o: "db_organizations (sr_db ?sr) = db_organizations (sr_db ?cancelled)"
    by (simp_all add: sweep_def swept_db_def Let_def set_status_def)
  have tt: "tenant_token (sr_db ?sr) ?org ?customer t = tenant_token (sr_db ?cancelled) ?org ?customer t" for t
    unfolding tenant_token_def i retired_owners [where R = "\<lambda>j. at_installation_id t = Some j"] by (simp add: set_status_def)
  have tc: "tenant_code (sr_db ?sr) ?org c = tenant_code (sr_db ?cancelled) ?org c" for c
    unfolding tenant_code_def i retired_owners [where R = "\<lambda>j. j = ec_installation_id c"] by (simp add: set_status_def)
  have tk: "tenant_key (sr_db ?sr) ?org ?customer k = tenant_key (sr_db ?cancelled) ?org ?customer k" for k
    by (simp add: tenant_key_def mapped_branch_ids_def b set_status_def)
  have os: "orphaned_session ?sr ?org s = orphaned_session ?cancelled ?org s" for s
    unfolding orphaned_session_def m o by simp
  have s: "db_tokens (sr_db ?sr) = snd (update_where (tenant_token (sr_db ?cancelled) ?org ?customer) (\<lambda>t. t\<lparr>at_is_active := False\<rparr>) (db_tokens ?db))"
    "sr_codes ?sr = snd (update_where (tenant_code (sr_db ?cancelled) ?org) (\<lambda>c. c\<lparr>ec_revoked_at := Some stamp\<rparr>) (sr_codes sr))"
    "db_keys (sr_db ?sr) = snd (update_where (tenant_key (sr_db ?cancelled) ?org ?customer)
      (\<lambda>k. k\<lparr>ik_status := ''retired'', ik_retired_at := Some stamp\<rparr>) (db_keys ?db))"
    "sr_sessions ?sr = snd (update_where (orphaned_session ?cancelled ?org) (\<lambda>s. s\<lparr>se_revoked_at := Some stamp\<rparr>) (sr_sessions sr))"
    by (simp_all add: sweep_def swept_db_def Let_def set_status_def)
  show ?thesis unfolding nothing_live_def tt tc tk os
  proof (intro conjI ballI impI)
    fix t assume "t \<in> set (db_tokens (sr_db ?sr))"
    then show "\<not> tenant_token (sr_db ?cancelled) ?org ?customer t" unfolding s(1) by (rule swept_rows) (simp_all add: tenant_token_def)
  next
    fix x assume "x \<in> set (db_installations (sr_db ?sr))"
    then show "\<not> live_installation ?org x" unfolding i by (rule swept_rows) (simp_all add: live_installation_def)
  next
    fix c assume "c \<in> set (sr_codes ?sr)"
    then show "\<not> tenant_code (sr_db ?cancelled) ?org c" unfolding s(2) by (rule swept_rows) (simp_all add: tenant_code_def unused_def)
  next
    fix k assume "k \<in> set (db_keys (sr_db ?sr))"
    then show "\<not> tenant_key (sr_db ?cancelled) ?org ?customer k" unfolding s(3) by (rule swept_rows) (simp_all add: tenant_key_def)
  next
    fix x assume "x \<in> set (sr_sessions ?sr)"
    then show "\<not> orphaned_session ?cancelled ?org x" unfolding s(4) by (rule swept_rows) (simp_all add: orphaned_session_def)
  next
    fix h assume "h \<in> set (db_organizations (sr_db ?sr))" "og_id h = ?org"
    then show "og_status h = ''cancelled''" unfolding o by (auto simp: set_status_def update_where_snd split: if_splits)
  qed
qed



section \<open>Samples\<close>

lemma sample_tenants: "tenants_wf sample_server"
  by (simp add: tenants_wf_def tables_wf_def customers_unique_def sample_wf) (simp add: sample_server_def)

lemma sample_draws_fresh: "fresh_draws sample_draws sample_server"
  by (simp add: fresh_draws_def sample_server_def)

lemma sample_enrolled: "\<exists>e sr'. collector_enroll sample_env 500 501 sample_draws None None sample_server ''sv-abcd-efgh-jkmn-pqrs'' (Some 2) = (Enrolled e, sr')"
  using sample_redeem by (auto simp: collector_enroll_def)

definition sample_admin :: actor where
  "sample_admin = \<lparr>ac_id = 3, ac_email = Some ''ops''\<rparr>"

text \<open>A library with a live token, an installation and an unused code, and what was taken back.\<close>

definition busy_server :: server where
  "busy_server = sample_server\<lparr>sr_db := (sr_db sample_server)\<lparr>
       db_tokens := [\<lparr>at_id = 1, at_token_hash = token_hash ''tok'', at_customer_id = 10, at_branch_id = 2, at_is_active = False,
         at_installation_id = None, at_last_used_at = None, at_description = ''old''\<rparr>],
       db_keys := [\<lparr>ik_key_id = ''k'', ik_customer_id = 10, ik_branch_id = 2, ik_algorithm = algorithm, ik_status = ''retired'',
         ik_retired_at = Some 5, ik_installation_id = None, ik_heartbeat = None\<rparr>]\<rparr>,
     sr_sessions := [\<lparr>se_id = 1, se_user_id = 7, se_token_hash = token_hash ''cookie'', se_expires_at = 900, se_revoked_at = Some 3,
       se_last_seen_at = None\<rparr>],
     sr_resets := [\<lparr>rt_user_id = 7, rt_token_hash = token_hash ''link'', rt_expires_at = 900, rt_used_at = Some 4\<rparr>]\<rparr>"

lemma busy_tenants: "tenants_wf busy_server"
  by (simp add: tenants_wf_def tables_wf_def customers_unique_def codes_wf_def mapped_branches_def busy_server_def sample_server_def)

lemma busy_step: "tenant_step busy_server (snd (revoke_session 20 busy_server None))"
  by (rule tenant_step.logout [where now = 20 and raw_token = None and ok = False]) (simp add: revoke_session_def)

lemma busy_steps: "tenant_step\<^sup>*\<^sup>* busy_server (snd (revoke_session 20 busy_server None))"
  using busy_step by blast


theorem code_redeemed_once_witness:
  "\<exists>e sr'. collector_enroll sample_env 500 501 sample_draws None None sample_server ''sv-abcd-efgh-jkmn-pqrs'' (Some 2) = (Enrolled e, sr')
    \<and> collector_enroll sample_env 600 601 sample_draws None None sr' ''SV-ABCD-EFGH-JKMN-PQRS'' (Some 2) = (Rejected400, sr')"
proof -
  obtain e sr' where e: "collector_enroll sample_env 500 501 sample_draws None None sample_server ''sv-abcd-efgh-jkmn-pqrs'' (Some 2) = (Enrolled e, sr')"
    using sample_enrolled by blast
  have "normalize_enrollment_code ''SV-ABCD-EFGH-JKMN-PQRS'' = normalize_enrollment_code ''sv-abcd-efgh-jkmn-pqrs''" by code_simp
  from code_redeemed_once [OF sample_tenants e sample_draws_fresh rtranclp.rtrancl_refl this] e show ?thesis by blast
qed

theorem credentials_stay_dead_witness:
  "let sr' = snd (revoke_session 20 busy_server None) in
     isl (authenticate 30 (sr_db sr') (Some ''Bearer tok'') None) \<and> fst (validate_session 30 sr' (Some ''cookie'')) = None"
proof -
  have h: "get_bearer_token (Some ''Bearer tok'') = Inr ''tok''" by code_simp
  have t: "(db_tokens (sr_db busy_server)) ! 0 \<in> set (db_tokens (sr_db busy_server))" "\<not> at_is_active (db_tokens (sr_db busy_server) ! 0)"
    "token_hash ''tok'' = at_token_hash (db_tokens (sr_db busy_server) ! 0)" by (simp_all add: busy_server_def)
  have s: "sr_sessions busy_server ! 0 \<in> set (sr_sessions busy_server)" "se_revoked_at (sr_sessions busy_server ! 0) \<noteq> None"
    "token_hash ''cookie'' = se_token_hash (sr_sessions busy_server ! 0)" by (simp_all add: busy_server_def)
  note c = credentials_stay_dead [OF busy_tenants busy_steps]
  show ?thesis unfolding Let_def
    using c [THEN conjunct1, rule_format, OF t(1,2) h t(3)] c [THEN conjunct2, THEN conjunct2, THEN conjunct1, rule_format, OF s]
    by blast
qed


theorem offboarding_is_final_witness:
  "\<exists>reply sr'. offboard_library (\<lambda>_. 0) 9 sample_server 1 (Some '' lib '') None ''operator'' None = Inr (reply, sr')
    \<and> isl (issue_ingest_key ''k2'' (sr_db sr') 10 2 None)"
proof -
  have g: "organization_row (sr_db sample_server) 1 = Some \<lparr>og_id = 1, og_operational_customer_id = Some 10, og_status = ''active'',
        og_slug = ''lib'', og_created_at = Some (Aware 100 0)\<rparr>" by (simp add: organization_row_def sample_server_def)
  have "\<exists>reply sr'. offboard_library (\<lambda>_. 0) 9 sample_server 1 (Some '' lib '') None ''operator'' None = Inr (reply, sr')"
  proof -
    let ?e = "cutoff_evidence (\<lambda>_. 0) (the (organization_row (sr_db sample_server) 1)) sample_server"
    have s: "py_strip (text_of (Some '' lib '')) = ''lib''" "py_strip ''operator'' \<noteq> []" by code_simp+
    have "validate_lifecycle_details (cutoff_details ''active'' ?e) = Inr (cutoff_details ''active'' ?e)"
      by (rule evidence_accepted) (auto simp: organization_statuses_def installation_statuses_def cutoff_evidence_def Let_def sample_server_def)
    then show ?thesis using s
      unfolding offboard_library_def Let_def
      by (simp add: g organization_statuses_def record_tenant_lifecycle_event_def lifecycle_event_types_def)
  qed
  then obtain reply sr' where o: "offboard_library (\<lambda>_. 0) 9 sample_server 1 (Some '' lib '') None ''operator'' None = Inr (reply, sr')" by blast
  have "isl (issue_ingest_key ''k2'' (sr_db sr') 10 2 None)"
    by (rule offboarding_is_final [OF sample_tenants g _ o rtranclp.rtrancl_refl, where c = 10, THEN conjunct2, THEN conjunct2, THEN conjunct2, THEN conjunct1])
      simp
  with o show ?thesis by blast
qed

end
