(* ===== verification/TenantKeys.thy ===== *)
theory TenantKeys
  imports TenantSafety
begin

text \<open>
  The owners of ingest keys. An enrollment issues a key owned by one installation, and ingestion accepts it only
  from that installation's token. The invariant: an active owned key always has its owner, an installation
  of the key's own tenant that is not retired, in a library that is not cut off. It is what
  \<open>_refuse_retiring_a_key_owner\<close> and the order of the cutoff's sweeps are for: no step leaves a branch with
  an active key that nobody can use or retire.
\<close>

definition owner_of :: "db \<Rightarrow> ingest_key \<Rightarrow> installation \<Rightarrow> organization \<Rightarrow> branch \<Rightarrow> bool" where
  "owner_of db k x g b \<longleftrightarrow> x \<in> set (db_installations db) \<and> g \<in> set (db_organizations db) \<and> b \<in> set (db_branches db)
     \<and> ik_installation_id k = Some (in_id x) \<and> in_status x \<noteq> ''retired'' \<and> og_status g \<noteq> ''cancelled''
     \<and> og_id g = in_organization_id x \<and> br_id b = in_branch_id x \<and> br_organization_id b = in_organization_id x
     \<and> og_operational_customer_id g = Some (ik_customer_id k) \<and> br_operational_branch_id b = Some (ik_branch_id k)"

definition owned_keys :: "db \<Rightarrow> bool" where
  "owned_keys db \<longleftrightarrow> (\<forall>k \<in> set (db_keys db). ik_status k = ''active'' \<longrightarrow> ik_installation_id k \<noteq> None \<longrightarrow> (\<exists>x g b. owner_of db k x g b))"

lemma owned_keys_same:
  "owned_keys db \<Longrightarrow> db_keys db' = db_keys db \<Longrightarrow> db_installations db' = db_installations db \<Longrightarrow> db_organizations db' = db_organizations db
    \<Longrightarrow> db_branches db' = db_branches db \<Longrightarrow> owned_keys db'"
  by (simp add: owned_keys_def owner_of_def)

lemma owned_keys_kept:
  assumes g: "server_grows sr sr'" and u: "distinct (List.map ik_key_id (db_keys (sr_db sr)))" and o: "owned_keys (sr_db sr)"
    and stays: "\<And>k k' x h b x' h'. k \<in> set (db_keys (sr_db sr)) \<Longrightarrow> k' \<in> set (db_keys (sr_db sr')) \<Longrightarrow> ik_key_id k' = ik_key_id k
      \<Longrightarrow> ik_status k = ''active'' \<Longrightarrow> ik_status k' = ''active'' \<Longrightarrow> owner_of (sr_db sr) k x h b
      \<Longrightarrow> x' \<in> set (db_installations (sr_db sr')) \<Longrightarrow> in_id x' = in_id x \<Longrightarrow> h' \<in> set (db_organizations (sr_db sr')) \<Longrightarrow> og_id h' = og_id h
      \<Longrightarrow> in_status x' \<noteq> ''retired'' \<and> og_status h' \<noteq> ''cancelled''"
    and new: "\<And>k. k \<in> set (db_keys (sr_db sr')) \<Longrightarrow> ik_key_id k \<notin> ik_key_id ` set (db_keys (sr_db sr)) \<Longrightarrow> ik_status k = ''active''
      \<Longrightarrow> ik_installation_id k \<noteq> None \<Longrightarrow> \<exists>x h b. owner_of (sr_db sr') k x h b"
  shows "owned_keys (sr_db sr')"
  unfolding owned_keys_def
proof (intro ballI impI)
  fix k'
  assume k': "k' \<in> set (db_keys (sr_db sr'))" "ik_status k' = ''active''" "ik_installation_id k' \<noteq> None"
  note t = grown_tables [OF g]
  show "\<exists>x h b. owner_of (sr_db sr') k' x h b"
  proof (cases "ik_key_id k' \<in> ik_key_id ` set (db_keys (sr_db sr))")
    case True
    from grows_back [OF t(5) k'(1) True u] obtain k where k: "k \<in> set (db_keys (sr_db sr))" "ik_key_id k' = ik_key_id k" "key_follows k k'" by blast
    then have a: "ik_status k = ''active''" "ik_installation_id k \<noteq> None" "ik_installation_id k' = ik_installation_id k"
      "ik_customer_id k' = ik_customer_id k" "ik_branch_id k' = ik_branch_id k" using k'(2,3) by (simp_all add: key_follows_def)
    from o k(1) a(1,2) obtain x h b where w: "owner_of (sr_db sr) k x h b" unfolding owned_keys_def by blast
    then have m: "x \<in> set (db_installations (sr_db sr))" "h \<in> set (db_organizations (sr_db sr))" "b \<in> set (db_branches (sr_db sr))"
      by (simp_all add: owner_of_def)
    obtain x' where x': "x' \<in> set (db_installations (sr_db sr'))" "in_id x' = in_id x" "installation_follows x x'" using grows_pick [OF t(3) m(1)] by blast
    obtain h' where h': "h' \<in> set (db_organizations (sr_db sr'))" "og_id h' = og_id h" "org_follows h h'" using grows_pick [OF t(1) m(2)] by blast
    obtain b' where b': "b' \<in> set (db_branches (sr_db sr'))" "br_id b' = br_id b" "branch_follows b b'" using grows_pick [OF t(2) m(3)] by blast
    note s = stays [OF k(1) k'(1) k(2) a(1) k'(2) w x'(1,2) h'(1,2)]
    have "owner_of (sr_db sr') k' x' h' b'"
      using w s x' h' b' a by (auto simp: owner_of_def installation_follows_def org_follows_def branch_follows_def)
    then show ?thesis by blast
  next
    case False
    then show ?thesis using new k' by blast
  qed
qed

text \<open>Steps that leave the status of every installation and organization as it was, or make it no worse.\<close>

definition statuses_kept :: "db \<Rightarrow> db \<Rightarrow> bool" where
  "statuses_kept db db' \<longleftrightarrow> grows in_id (\<lambda>x x'. in_status x' = ''retired'' \<longrightarrow> in_status x = ''retired'') (db_installations db) (db_installations db')
     \<and> grows og_id (\<lambda>g g'. og_status g' = ''cancelled'' \<longrightarrow> og_status g = ''cancelled'') (db_organizations db) (db_organizations db')"

lemma owned_keys_statuses:
  assumes "server_grows sr sr'" "tenants_wf sr" "owned_keys (sr_db sr)" "statuses_kept (sr_db sr) (sr_db sr')"
    and "\<And>k. k \<in> set (db_keys (sr_db sr')) \<Longrightarrow> ik_key_id k \<notin> ik_key_id ` set (db_keys (sr_db sr)) \<Longrightarrow> ik_status k = ''active''
      \<Longrightarrow> ik_installation_id k \<noteq> None \<Longrightarrow> \<exists>x h b. owner_of (sr_db sr') k x h b"
  shows "owned_keys (sr_db sr')"
proof -
  have w: "tables_wf sr" using assms(2) by (simp add: tenants_wf_def)
  note d = tables_distinct [OF w]
  show ?thesis
  proof (rule owned_keys_kept [OF assms(1) d(5) assms(3) _ assms(5)], goal_cases)
    case (1 k k' x h b x' h')
    note m = 1(6) [unfolded owner_of_def]
    have s: "grows in_id (\<lambda>x x'. in_status x' = ''retired'' \<longrightarrow> in_status x = ''retired'') (db_installations (sr_db sr)) (db_installations (sr_db sr'))"
      "grows og_id (\<lambda>g g'. og_status g' = ''cancelled'' \<longrightarrow> og_status g = ''cancelled'') (db_organizations (sr_db sr)) (db_organizations (sr_db sr'))"
      using assms(4) by (simp_all add: statuses_kept_def)
    obtain y where y: "y \<in> set (db_installations (sr_db sr))" "in_id x' = in_id y" "in_status x' = ''retired'' \<longrightarrow> in_status y = ''retired''"
      using grows_back [OF s(1) 1(7) _ d(3)] m 1(8) by auto
    have i: "og_id h' \<in> og_id ` set (db_organizations (sr_db sr))" unfolding 1(10) using m by (intro imageI) blast
    obtain z where z: "z \<in> set (db_organizations (sr_db sr))" "og_id h' = og_id z" "og_status h' = ''cancelled'' \<longrightarrow> og_status z = ''cancelled''"
      using grows_back [OF s(2) 1(9) i d(1)] by blast
    have "y = x" by (rule ids_eq [OF d(3) y(1)]) (use m y(2) 1(8) in simp_all)
    moreover have "z = h" by (rule ids_eq [OF d(1) z(1)]) (use m z(2) 1(10) in simp_all)
    ultimately show ?case using m y(3) z(3) by blast
  next
    case (2 k)
    then show ?case by blast
  qed
qed

section \<open>The steps\<close>

lemma kept_rows:
  assumes "db_installations db' = db_installations db" "db_organizations db' = db_organizations db"
  shows "statuses_kept db db'"
  by (simp add: statuses_kept_def assms grows_refl)

lemma kept_organizations:
  assumes "grows in_id (\<lambda>x x'. in_status x' = ''retired'' \<longrightarrow> in_status x = ''retired'') (db_installations db) (db_installations db')"
    "db_organizations db' = db_organizations db"
  shows "statuses_kept db db'"
  using assms by (simp add: statuses_kept_def grows_refl)

lemma kept_installations:
  assumes "grows og_id (\<lambda>g g'. og_status g' = ''cancelled'' \<longrightarrow> og_status g = ''cancelled'') (db_organizations db) (db_organizations db')"
    "db_installations db' = db_installations db"
  shows "statuses_kept db db'"
  using assms by (simp add: statuses_kept_def grows_refl)

text \<open>Operations that touch neither keys nor installations nor the registry.\<close>

lemma code_db: "issue_enrollment_code isoformat now stamp characters new_id sr library i actor = Inr (raw, sr') \<Longrightarrow> sr_db sr' = sr_db sr"
  by (auto simp: issue_enrollment_code_def create_enrollment_code_def Let_def case_prod_unfold guard_Inr)

lemma recover_rows:
  assumes "recover_installation env draws sr library i actor = Inr (raw, sr')"
  shows "db_keys (sr_db sr') = db_keys (sr_db sr) \<and> db_installations (sr_db sr') = db_installations (sr_db sr)"
proof -
  from assms obtain r s1 where c: "issue_recovery_token env draws sr i (og_id library) = Inr (r, s1)" and s: "sr_db sr' = sr_db s1"
    unfolding recover_installation_def by (clarsimp simp: guard_Inr)
  from c show ?thesis unfolding issue_recovery_token_def Let_def case_prod_unfold
    by (clarsimp simp: s guard_Inr simp del: filter.simps append.simps)
qed

lemma unbound_rows:
  "revoke_unbound_token sr library token_id actor = Inr sr' \<Longrightarrow> db_keys (sr_db sr') = db_keys (sr_db sr) \<and> db_installations (sr_db sr') = db_installations (sr_db sr)"
  by (clarsimp simp: revoke_unbound_token_def Let_def case_prod_unfold guard_Inr)

lemma cutover_rows:
  "record_v2_cutover now db customer branch at_time set_by why = Inr db' \<Longrightarrow> db_keys db' = db_keys db \<and> db_installations db' = db_installations db"
  by (auto simp: record_v2_cutover_def Let_def split: if_splits)

lemma update_keys:
  assumes "\<And>r. key (f r) = key r"
  shows "key ` set (snd (update_where P f rows)) = key ` set rows"
proof -
  have "key (if P r then f r else r) = key r" for r using assms by simp
  then show ?thesis unfolding update_where_snd set_map image_image by simp
qed

lemma retire_key_rows:
  assumes "retire_ingest_key now db key_id = Inr (hit, db')"
  shows "ik_key_id ` set (db_keys db') = ik_key_id ` set (db_keys db) \<and> db_installations db' = db_installations db"
proof -
  let ?rows = "snd (update_where (\<lambda>k. ik_key_id k = key_id \<and> ik_status k = ''active'' \<and> ik_installation_id k = None)
     (\<lambda>k. k\<lparr>ik_status := ''retired'', ik_retired_at := Some now\<rparr>) (db_keys db))"
  from assms have d: "db' = db\<lparr>db_keys := ?rows\<rparr>" unfolding retire_ingest_key_def Let_def case_prod_unfold by (simp split: if_splits)
  show ?thesis using update_keys [of ik_key_id "\<lambda>k. k\<lparr>ik_status := ''retired'', ik_retired_at := Some now\<rparr>"] by (simp add: d)
qed

lemma issue_key_rows:
  assumes "issue_ingest_key new_key db customer branch None = Inr (k, db')"
  shows "\<exists>x. ik_installation_id x = None \<and> db_keys db' = db_keys db @ [x] \<and> db_installations db' = db_installations db"
  using assms unfolding issue_ingest_key_def by clarsimp

lemma heartbeat_rows:
  assumes "status_v2 sv now authorization body db = (reply, db')"
  shows "grows in_id (\<lambda>x x'. in_status x' = ''retired'' \<longrightarrow> in_status x = ''retired'') (db_installations db) (db_installations db')
    \<and> ik_key_id ` set (db_keys db') = ik_key_id ` set (db_keys db)"
proof (rule status_v2_cases [of body now db authorization sv])
  fix j q db''
  assume t: "status_transaction now db authorization q = Inr db''" and u: "\<exists>b. status_v2 sv now authorization body db = ((200, b), db'')"
  have e: "db'' = db'" using u assms by auto
  obtain token where f: "list_all2 (key_step now token q) (db_keys db) (db_keys db'')"
    "list_all2 (installation_step now token) (db_installations db) (db_installations db'')"
    by (rule status_transaction_Inr [OF t]) (rule that; assumption)
  have "list_all2 (\<lambda>k k'. ik_key_id k' = ik_key_id k \<and> True) (db_keys db) (db_keys db'')"
    by (rule list_all2_mono [OF f(1)]) (auto simp: key_step_def split: if_splits)
  from all2_keys [OF this] have k: "ik_key_id ` set (db_keys db'') = ik_key_id ` set (db_keys db)" by (metis list.set_map)
  have "list_all2 (\<lambda>x x'. in_id x' = in_id x \<and> (in_status x' = ''retired'' \<longrightarrow> in_status x = ''retired'')) (db_installations db) (db_installations db'')"
    by (rule list_all2_mono [OF f(2)])
      (auto simp: installation_step_def installation_heartbeat_statuses_def split: if_splits)
  then show ?thesis using k by (simp add: e [symmetric] grows_list)
next
  assume "snd (status_v2 sv now authorization body db) = db"
  then show ?thesis using assms by (simp add: grows_refl)
qed

lemma upload_rows:
  assumes "upload_v2 sv now authorization body db = (reply, db')"
  shows "db_keys db' = db_keys db \<and> db_installations db' = db_installations db \<and> db_organizations db' = db_organizations db"
proof (rule upload_v2_cases [of body now db authorization sv])
  fix j r counts db''
  assume t: "upload_transaction now db authorization r = Inr (counts, db'')" and u: "\<exists>b. upload_v2 sv now authorization body db = ((200, b), db'')"
  have e: "db'' = db'" using u assms by auto
  have "same_registry db db''" by (rule upload_transaction_Inr [OF t])
  then show ?thesis by (simp add: e same_registry_def)
next
  assume "snd (upload_v2 sv now authorization body db) = db"
  then show ?thesis using assms by simp
qed

lemma registry_organizations: "same_registry_rows sr sr' \<Longrightarrow> db_organizations (sr_db sr') = db_organizations (sr_db sr)"
  by (simp add: same_registry_rows_def)

lemma old_keys: "ik_key_id ` set ks' = ik_key_id ` set ks \<Longrightarrow> k \<in> set ks' \<Longrightarrow> ik_key_id k \<notin> ik_key_id ` set ks \<Longrightarrow> P"
  by blast

lemma enroll_owned:
  assumes "collector_enroll env now stamp draws hostname version sr raw requested = (Enrolled e, sr')" "fresh_draws draws sr" "tenants_wf sr"
    "owned_keys (sr_db sr)"
  shows "owned_keys (sr_db sr')"
proof -
  have wf: "tables_wf sr" "codes_wf (sr_codes sr)" using assms(3) by (simp_all add: tenants_wf_def tables_wf_def)
  have "redeem_enrollment_code env now stamp draws hostname version sr raw requested = Inr (e, sr')"
    by (rule enroll_cases [of env now stamp draws hostname version sr raw requested]) (use assms(1) in auto)
  from redeem_applied [OF this wf(2)] obtain c :: enrollment_code and x :: installation and g :: organization and b :: branch
      and sc :: scope and contract :: int and description t why where
    x: "installation_row (sr_db sr) (ec_installation_id c) = Some x" "usable_installation sr x g b sc"
    and s: "sr' = sr\<lparr>sr_codes := used_at stamp (ec_id c) (sr_codes sr),
            sr_db := (sr_db sr)\<lparr>db_tokens := db_tokens (sr_db sr) @ [bound_token draws sc description],
               db_keys := db_keys (sr_db sr) @ (if contract = 2 then [owned_key (ed_key_id draws) sc] else []),
               db_cutovers := db_cutovers (sr_db sr) @ (if contract = 2 then [first_cutover stamp t why sc] else [])\<rparr>\<rparr>"
    unfolding enrollment_applied_def by blast
  have rows: "x \<in> set (db_installations (sr_db sr))" "g \<in> set (db_organizations (sr_db sr))" "b \<in> set (db_branches (sr_db sr))"
    "og_id g = in_organization_id x" "br_id b = in_branch_id x"
    using row_ids(1) [OF x(1)] row_ids(2,3) x(2) by (auto simp: usable_installation_def)
  have "owner_of (sr_db sr') (owned_key (ed_key_id draws) sc) x g b"
    using rows x(2) unfolding owner_of_def s usable_installation_def owned_key_def
    by (auto simp: installation_heartbeat_statuses_def allowed_organization_statuses_def)
  then show ?thesis
    by (intro owned_keys_statuses [OF enroll_grows [OF assms(1,2) wf(1)] assms(3,4) kept_rows]) (auto simp: s split: if_splits)
qed

lemma install_owned:
  assumes "create_installation env new_id sr library name contract actor = Inr sr'" "new_id \<notin> in_id ` set (db_installations (sr_db sr))"
    "tenants_wf sr" "owned_keys (sr_db sr)"
  shows "owned_keys (sr_db sr')"
proof -
  have "\<exists>(b :: branch) n s1 details. insert_collector_installation new_id sr (og_id library) (br_id b) n ''provisioning'' contract = Inr s1
      \<and> sr' = audit_admin ''admin_installation_created'' ''Collector installation added.'' (og_slug library) actor details s1"
    using assms(1) unfolding create_installation_def by (clarsimp simp: guard_Inr split del: if_split split: option.splits) blast
  then obtain b :: branch and n s1 where i: "insert_collector_installation new_id sr (og_id library) (br_id b) n ''provisioning'' contract = Inr s1"
    and s: "sr_db sr' = sr_db s1" by auto
  obtain x where x: "in_id x = new_id" "s1 = sr\<lparr>sr_db := (sr_db sr)\<lparr>db_installations := db_installations (sr_db sr) @ [x]\<rparr>\<rparr>"
    using insert_installation_Inr [OF i] by blast
  have "grows in_id (\<lambda>x x'. in_status x' = ''retired'' \<longrightarrow> in_status x = ''retired'') (db_installations (sr_db sr)) (db_installations (sr_db sr) @ [x])"
    by (rule grows_one) (use assms(2) x(1) in simp_all)
  then show ?thesis
    by (intro owned_keys_statuses [OF install_grows [OF assms(1,2)] assms(3,4) kept_organizations]) (auto simp: s x(2))
qed

lemma rename_owned:
  assumes "rename_installation stamp sr library i name actor = Inr sr'" "tenants_wf sr" "owned_keys (sr_db sr)"
  shows "owned_keys (sr_db sr')"
proof -
  let ?P = "\<lambda>x. in_id x = i \<and> in_organization_id x = og_id library \<and> \<not> cancelled_now (sr_db sr) (og_id library)"
  let ?f = "\<lambda>n x. x\<lparr>in_name := n, in_updated_at := Some stamp\<rparr>"
  from assms(1) obtain n where s: "sr_db sr' = (sr_db sr)\<lparr>db_installations := snd (update_where ?P (?f n) (db_installations (sr_db sr)))\<rparr>"
    unfolding rename_installation_def Let_def case_prod_unfold by (clarsimp simp: guard_Inr)
  have "grows in_id (\<lambda>x x'. in_status x' = ''retired'' \<longrightarrow> in_status x = ''retired'') (db_installations (sr_db sr)) (db_installations (sr_db sr'))"
    unfolding s db.select_convs db.update_convs by (simp, rule grows_update) simp_all
  then show ?thesis
    by (intro owned_keys_statuses [OF rename_grows [OF assms(1)] assms(2,3) kept_organizations]) (auto simp: s)
qed

lemma suspend_owned:
  assumes "set_library_active_status sr org is_active admin = Inr (reply, sr')" "tenants_wf sr" "owned_keys (sr_db sr)"
  shows "owned_keys (sr_db sr')"
proof (cases "sr' = sr")
  case False
  from assms(1) False have s: "sr_db sr' = set_status (if is_active then ''active'' else ''suspended'') org (sr_db sr)"
    by (fastforce simp: set_library_active_status_def Let_def split: option.splits if_splits)
  have w: "tables_wf sr" using assms(2) by (simp add: tenants_wf_def)
  have "db_organizations (sr_db sr') = snd (update_where (\<lambda>g. og_id g = org)
      (\<lambda>g. g\<lparr>og_status := if is_active then ''active'' else ''suspended''\<rparr>) (db_organizations (sr_db sr)))" by (simp add: s set_status_def)
  moreover have "grows og_id (\<lambda>g g'. og_status g' = ''cancelled'' \<longrightarrow> og_status g = ''cancelled'') (db_organizations (sr_db sr)) (snd (update_where
      (\<lambda>g. og_id g = org) (\<lambda>g. g\<lparr>og_status := if is_active then ''active'' else ''suspended''\<rparr>) (db_organizations (sr_db sr))))"
    by (rule grows_update) simp_all
  ultimately show ?thesis
    by (intro owned_keys_statuses [OF suspend_grows [OF assms(1) w] assms(2,3) kept_installations]) (auto simp: s set_status_def)
qed (use assms(3) in simp)

lemma identity_rows:
  assumes "assign_operational_identity new_customer sr org br = Inr (reply, sr')"
  shows "db_keys (sr_db sr') = db_keys (sr_db sr) \<and> db_installations (sr_db sr') = db_installations (sr_db sr)
    \<and> grows og_id (\<lambda>g g'. og_status g' = og_status g) (db_organizations (sr_db sr)) (db_organizations (sr_db sr'))"
proof -
  obtain bs gs cs where s: "sr' = sr\<lparr>sr_customers := cs, sr_db := (sr_db sr)\<lparr>db_branches := bs, db_organizations := gs\<rparr>\<rparr>"
    and r: "gs = db_organizations (sr_db sr) \<or> gs = mapped_organization_rows new_customer org (db_organizations (sr_db sr))"
    using assign_Inr [OF assms] by blast
  have "grows og_id (\<lambda>g g'. og_status g' = og_status g) (db_organizations (sr_db sr)) (mapped_organization_rows new_customer org (db_organizations (sr_db sr)))"
    unfolding mapped_organization_rows_def by (rule grows_update) simp_all
  then show ?thesis using r by (auto simp: s grows_refl)
qed

lemma assign_owned:
  assumes "assign_library_operational_identity new_customer sr slug actor = Inr (reply, sr')" "tenants_wf sr" "owned_keys (sr_db sr)"
  shows "owned_keys (sr_db sr')"
proof -
  from assms(1) obtain org br r s1 where a: "assign_operational_identity new_customer sr org br = Inr (r, s1)" and s: "sr_db sr' = sr_db s1"
    by (auto simp: assign_library_operational_identity_def guard_Inr split: option.splits if_splits)
  note i = identity_rows [OF a]
  have "grows og_id (\<lambda>g g'. og_status g' = ''cancelled'' \<longrightarrow> og_status g = ''cancelled'') (db_organizations (sr_db sr)) (db_organizations (sr_db sr'))"
    unfolding s by (rule grows_weaken [OF conjunct2 [OF conjunct2 [OF i]]]) simp
  then show ?thesis
    by (intro owned_keys_statuses [OF assign_grows [OF assms(1)] assms(2,3) kept_installations]) (auto simp: s i)
qed

lemma provision_owned:
  assumes "provision_library stamp ids plan_active sr v actor = Inr sr'" "fresh_ids ids sr" "tenants_wf sr" "owned_keys (sr_db sr)"
  shows "owned_keys (sr_db sr')"
proof -
  obtain g :: organization and b :: branch and r s1 s2 where s1: "s1 = sr\<lparr>sr_db := (sr_db sr)\<lparr>db_organizations := db_organizations (sr_db sr) @ [g],
      db_branches := db_branches (sr_db sr) @ [b]\<rparr>, sr_organization_settings := sr_organization_settings sr @ [(og_id g, Some (JObj []))],
      sr_branch_settings := sr_branch_settings sr @ [(br_id b, Some (JObj []))]\<rparr>"
    and a: "assign_operational_identity (pi_customer ids) s1 (og_id g) (br_id b) = Inr (r, s2)"
    and n: "og_id g = pi_organization ids" and s: "sr_db sr' = sr_db s2"
    by (rule provision_Inr [OF assms(1)]) (rule that; assumption)
  note i = identity_rows [OF a]
  have "grows og_id (\<lambda>g g'. og_status g' = og_status g) (db_organizations (sr_db sr)) (db_organizations (sr_db s1))"
    unfolding s1 by (simp, rule grows_one) (use assms(2) n in \<open>simp_all add: fresh_ids_def\<close>)
  from grows_trans [OF this conjunct2 [OF conjunct2 [OF i]]]
  have "grows og_id (\<lambda>g g'. og_status g' = og_status g) (db_organizations (sr_db sr)) (db_organizations (sr_db s2))" by simp
  then have "grows og_id (\<lambda>g g'. og_status g' = ''cancelled'' \<longrightarrow> og_status g = ''cancelled'') (db_organizations (sr_db sr)) (db_organizations (sr_db sr'))"
    unfolding s by (rule grows_weaken) simp
  moreover have "db_keys (sr_db sr') = db_keys (sr_db sr)" "db_installations (sr_db sr') = db_installations (sr_db sr)" using i by (simp_all add: s s1)
  ultimately show ?thesis
    by (intro owned_keys_statuses [OF provision_grows [OF assms(1,2)] assms(3,4) kept_installations]) auto
qed

text \<open>Retiring an installation is refused while it owns its branch's active key.\<close>

lemma retire_refused:
  assumes "refuse_retiring_a_key_owner db org i = Inr ()" "owner_of db k x g b" "k \<in> set (db_keys db)" "ik_status k = ''active''"
    and "in_id x = i" "in_organization_id x = org"
    and "distinct (List.map in_id (db_installations db))" "distinct (List.map og_id (db_organizations db))" "distinct (List.map br_id (db_branches db))"
  shows False
proof -
  note w = assms(2) [unfolded owner_of_def]
  have x: "find (\<lambda>y. in_id y = i \<and> in_organization_id y = org) (db_installations db) = Some x"
    by (rule find_unique) (use w assms(5,6) ids_eq [OF assms(7)] in auto)
  have g: "organization_row db (in_organization_id x) = Some g" unfolding organization_row_def
    by (rule find_unique) (use w ids_eq [OF assms(8)] in auto)
  have b: "branch_row db (in_branch_id x) = Some b" unfolding branch_row_def
    by (rule find_unique) (use w ids_eq [OF assms(9)] in auto)
  have "Some i \<in> set (active_ingest_key_owners db (ik_customer_id k) (ik_branch_id k))"
    using w assms(3,4,5) by (auto simp: active_ingest_key_owners_def of_tenant_def image_iff)
  then show False using assms(1) w by (simp add: refuse_retiring_a_key_owner_def x g b)
qed

lemma status_owned:
  assumes "change_status stamp sr library i status actor = Inr sr'" "tenants_wf sr" "owned_keys (sr_db sr)"
  shows "owned_keys (sr_db sr')"
proof -
  obtain before :: string where r: "status = ''retired'' \<longrightarrow> refuse_retiring_a_key_owner (sr_db sr) (og_id library) i = Inr ()"
    and s: "sr_db sr' = (sr_db sr)\<lparr>db_installations := snd (update_where
        (\<lambda>y. in_id y = i \<and> in_organization_id y = og_id library \<and> in_status y = before \<and> \<not> cancelled_now (sr_db sr) (og_id library))
        (\<lambda>y. y\<lparr>in_status := status, in_updated_at := Some stamp\<rparr>) (db_installations (sr_db sr)))\<rparr>"
    by (rule change_status_Inr [OF assms(1)]) (rule that; assumption)
  have w: "tables_wf sr" using assms(2) by (simp add: tenants_wf_def)
  note d = tables_distinct [OF w]
  have k: "db_keys (sr_db sr') = db_keys (sr_db sr)" "db_organizations (sr_db sr') = db_organizations (sr_db sr)" by (simp_all add: s)
  show ?thesis
  proof (rule owned_keys_kept [OF status_grows [OF assms(1)] d(5) assms(3)], goal_cases)
    case (1 k k' x h b x' h')
    note m = 1(6) [unfolded owner_of_def]
    have "h' = h" by (rule ids_eq [OF d(1)]) (use 1(9,10) m k(2) in simp_all)
    moreover have "in_status x' \<noteq> ''retired''"
    proof
      assume bad: "in_status x' = ''retired''"
      from 1(7) obtain y where y: "y \<in> set (db_installations (sr_db sr))" "in_id x' = in_id y"
          "in_status x' = in_status y \<or> in_status x' = status \<and> in_id y = i \<and> in_organization_id y = og_id library"
        by (auto simp: s update_where_snd split: if_splits)
      have "y = x" by (rule ids_eq [OF d(3) y(1)]) (use m y(2) 1(8) in simp_all)
      then have "status = ''retired''" "in_id x = i" "in_organization_id x = og_id library" using y(3) bad m by auto
      with r show False using retire_refused [OF _ 1(6,1,4) _ _ d(3,1,2)] by blast
    qed
    ultimately show ?case using m by blast
  next
    case (2 k)
    then show ?case using k(1) by simp
  qed
qed

lemma offboard_owned:
  assumes "offboard_library key_row stamp sr org confirm actor_id label admin = Inr (reply, sr')" "tenants_wf sr" "owned_keys (sr_db sr)"
  shows "owned_keys (sr_db sr')"
proof -
  obtain g :: organization where g: "organization_row (sr_db sr) org = Some g"
    and s: "sr_db sr' = swept_db stamp org (og_operational_customer_id g) (sr_db sr)"
    by (rule offboard_Inr [OF assms(1)]) (rule that; assumption)
  have w: "tables_wf sr" using assms(2) by (simp add: tenants_wf_def)
  note d = tables_distinct [OF w] and row = row_ids(2) [OF g]
  let ?db = "set_status ''cancelled'' org (sr_db sr)"
  have i: "db_installations (sr_db sr') = snd (update_where (live_installation org)
      (\<lambda>x. x\<lparr>in_status := ''retired'', in_updated_at := Some stamp\<rparr>) (db_installations (sr_db sr)))"
    and k: "db_keys (sr_db sr') = snd (update_where (tenant_key ?db org (og_operational_customer_id g))
      (\<lambda>k. k\<lparr>ik_status := ''retired'', ik_retired_at := Some stamp\<rparr>) (db_keys (sr_db sr)))"
    and o: "db_organizations (sr_db sr') = snd (update_where (\<lambda>h. og_id h = org) (\<lambda>h. h\<lparr>og_status := ''cancelled''\<rparr>) (db_organizations (sr_db sr)))"
    by (simp_all add: s swept_db_def Let_def set_status_def)
  show ?thesis
  proof (rule owned_keys_kept [OF offboard_grows [OF assms(1) w] d(5) assms(3)], goal_cases)
    case (1 k0 k' x h b x' h')
    note m = 1(6) [unfolded owner_of_def]
    have other: "in_organization_id x \<noteq> org"
    proof
      assume e: "in_organization_id x = org"
      have "h = g" by (rule ids_eq [OF d(1)]) (use m row e in simp_all)
      then have "tenant_key ?db org (og_operational_customer_id g) k0"
        using m e 1(4) by (force simp: tenant_key_def mapped_branch_ids_def set_status_def image_iff)
      moreover from 1(2) obtain q where q: "q \<in> set (db_keys (sr_db sr))" "ik_key_id k' = ik_key_id q"
          "\<not> tenant_key ?db org (og_operational_customer_id g) q \<or> ik_status k' = ''retired''"
        by (auto simp: k update_where_snd split: if_splits)
      have "q = k0" by (rule ids_eq [OF d(5) q(1) 1(1)]) (use q(2) 1(3) in simp)
      ultimately show False using q(3) 1(5) by simp
    qed
    from 1(7) obtain y where y: "y \<in> set (db_installations (sr_db sr))" "in_id x' = in_id y"
        "in_organization_id y = org \<or> x' = y" by (auto simp: i update_where_snd live_installation_def split: if_splits)
    have y': "y = x" by (rule ids_eq [OF d(3) y(1)]) (use m y(2) 1(8) in simp_all)
    from 1(9) obtain z where z: "z \<in> set (db_organizations (sr_db sr))" "og_id h' = og_id z" "og_id z = org \<or> h' = z"
      by (auto simp: o update_where_snd split: if_splits)
    have z': "z = h" by (rule ids_eq [OF d(1) z(1)]) (use m z(2) 1(10) in simp_all)
    show ?case using y(3) z(3) y' z' other m by simp
  next
    case (2 k0)
    have "ik_key_id ` set (db_keys (sr_db sr')) = ik_key_id ` set (db_keys (sr_db sr))" unfolding k by (rule update_keys) simp
    then show ?case by (rule old_keys [OF _ 2(1,2)])
  qed
qed

section \<open>The invariant\<close>

lemma rows_owned:
  assumes "same_registry_rows sr sr'" "db_keys (sr_db sr') = db_keys (sr_db sr) \<and> db_installations (sr_db sr') = db_installations (sr_db sr)"
    "owned_keys (sr_db sr)"
  shows "owned_keys (sr_db sr')"
  by (rule owned_keys_same [OF assms(3)]) (use assms(1,2) in \<open>simp_all add: same_registry_rows_def\<close>)

lemma step_owned:
  assumes "tenant_step sr sr'" "tenants_wf sr" "owned_keys (sr_db sr)"
  shows "owned_keys (sr_db sr')"
proof -
  have w: "tables_wf sr" using assms(2) by (simp add: tenants_wf_def)
  note g = step_grows [OF assms(1) w]
  show ?thesis using assms(1)
  proof cases
    case (enroll env now stamp draws hostname version raw requested e)
    then show ?thesis using enroll_owned assms(2,3) by blast
  next
    case (upload sv now authorization body reply db')
    note u = upload_rows [OF upload(2)]
    have "statuses_kept (sr_db sr) db'" by (rule kept_rows) (use u in simp_all)
    then show ?thesis using u by (intro owned_keys_statuses [OF g assms(2,3)]) (auto simp: upload(1))
  next
    case (heartbeat sv now authorization body reply db')
    note u = heartbeat_rows [OF heartbeat(2)]
    have "statuses_kept (sr_db sr) db'"
      by (rule kept_organizations) (use u registry_organizations [OF heartbeat_registry [OF heartbeat(2)]] in simp_all)
    then show ?thesis using u by (intro owned_keys_statuses [OF g assms(2,3)]) (auto simp: heartbeat(1))
  next
    case (recover env draws library i actor raw)
    show ?thesis by (rule rows_owned [OF recover_registry [OF recover(1)] recover_rows [OF recover(1)] assms(3)])
  next
    case (unbound library token_id actor)
    show ?thesis by (rule rows_owned [OF admin_registry(4) [OF unbound] unbound_rows [OF unbound] assms(3)])
  next
    case (issue new_key customer branch db')
    obtain x where x: "ik_installation_id x = None" "db_keys db' = db_keys (sr_db sr) @ [x]" "db_installations db' = db_installations (sr_db sr)"
      using issue_key_rows [OF issue(2)] by blast
    have "statuses_kept (sr_db sr) db'" by (rule kept_rows) (use x registry_organizations [OF key_registry(1) [OF issue(2)]] in simp_all)
    then show ?thesis using x by (intro owned_keys_statuses [OF g assms(2,3)]) (auto simp: issue(1))
  next
    case (retire now key_id hit db')
    note u = retire_key_rows [OF retire(2)]
    have "statuses_kept (sr_db sr) db'" by (rule kept_rows) (use u registry_organizations [OF key_registry(2) [OF retire(2)]] in simp_all)
    then show ?thesis using u by (intro owned_keys_statuses [OF g assms(2,3)]) (auto simp: retire(1))
  next
    case (cutover now customer branch at_time set_by why db')
    have "owned_keys (sr_db (sr\<lparr>sr_db := db'\<rparr>))"
      by (rule rows_owned [OF key_registry(3) [OF cutover(2)]]) (use cutover_rows [OF cutover(2)] assms(3) in simp_all)
    then show ?thesis by (simp add: cutover(1))
  next
    case (code isoformat now stamp characters new_id library i actor raw)
    show ?thesis using code_db [OF code(1)] assms(3) by simp
  next
    case (login check_hash now stamp email password reply)
    show ?thesis using login_frame(1) [OF login] assms(3) by simp
  next
    case (member actor)
    show ?thesis using members_db [OF member] assms(3) by simp
  next
    case install
    then show ?thesis using install_owned assms(2,3) by blast
  next
    case rename
    then show ?thesis using rename_owned assms(2,3) by blast
  next
    case status
    then show ?thesis using status_owned assms(2,3) by blast
  next
    case suspend
    then show ?thesis using suspend_owned assms(2,3) by blast
  next
    case offboard
    then show ?thesis using offboard_owned assms(2,3) by blast
  next
    case provision
    then show ?thesis using provision_owned assms(2,3) by blast
  next
    case assign
    then show ?thesis using assign_owned assms(2,3) by blast
  next
    case session
    show ?thesis using logins_db(1) [OF session(1)] assms(3) by simp
  next
    case visit
    show ?thesis using logins_db(2) [OF visit(1)] assms(3) by simp
  next
    case logout
    show ?thesis using logins_db(3) [OF logout(1)] assms(3) by simp
  next
    case logout_all
    show ?thesis using logins_db(4) [OF logout_all(1)] assms(3) by simp
  next
    case ask_reset
    show ?thesis using logins_db(5) [OF ask_reset(1)] assms(3) by simp
  next
    case reset
    show ?thesis using passwords_db(1) [OF reset(1)] assms(3) by simp
  next
    case change
    show ?thesis using passwords_db(2) [OF change(1)] assms(3) by simp
  qed
qed

text \<open>C12. No ingest key is orphaned: if every active key that an installation owns has its owner, this stays so whatever happens. The owner
  is an installation of exactly the key's tenant (the organization mapped to its customer and a branch of it mapped to its branch),
  is not retired, and its library is not cut off. Retiring an installation that owns its branch's key is refused, and
  a cutoff retires the keys together with their owners.\<close>

theorem owned_keys_keep_their_owner:
  assumes "tenant_step\<^sup>*\<^sup>* sr sr'" "tenants_wf sr" "owned_keys (sr_db sr)"
  shows "\<forall>k \<in> set (db_keys (sr_db sr')). \<forall>i. ik_status k = ''active'' \<longrightarrow> ik_installation_id k = Some i \<longrightarrow>
     (\<exists>x g b. installation_row (sr_db sr') i = Some x \<and> in_status x \<noteq> ''retired'' \<and> organization_row (sr_db sr') (in_organization_id x) = Some g
        \<and> og_status g \<noteq> ''cancelled'' \<and> branch_row (sr_db sr') (in_branch_id x) = Some b \<and> br_organization_id b = og_id g
        \<and> og_operational_customer_id g = Some (ik_customer_id k) \<and> br_operational_branch_id b = Some (ik_branch_id k))"
proof (intro ballI allI impI)
  fix k i
  assume k: "k \<in> set (db_keys (sr_db sr'))" "ik_status k = ''active''" "ik_installation_id k = Some i"
  have o: "owned_keys (sr_db sr')" using assms
  proof (induction rule: rtranclp_induct)
    case (step t u)
    then show ?case using step_owned [OF step.hyps(2) codes.inv_run [OF step.hyps(1) step.prems(1)]] by blast
  qed
  have "tables_wf sr'" using codes.inv_run [OF assms(1,2)] by (simp add: tenants_wf_def)
  note d = tables_distinct [OF this]
  from o k obtain x g b where w: "owner_of (sr_db sr') k x g b" unfolding owned_keys_def by blast
  note m = w [unfolded owner_of_def]
  have "installation_row (sr_db sr') i = Some x" unfolding installation_row_def
    by (rule find_unique) (use m k(3) ids_eq [OF d(3)] in auto)
  moreover have "organization_row (sr_db sr') (in_organization_id x) = Some g" unfolding organization_row_def
    by (rule find_unique) (use m ids_eq [OF d(1)] in auto)
  moreover have "branch_row (sr_db sr') (in_branch_id x) = Some b" unfolding branch_row_def
    by (rule find_unique) (use m ids_eq [OF d(2)] in auto)
  ultimately show "\<exists>x g b. installation_row (sr_db sr') i = Some x \<and> in_status x \<noteq> ''retired''
      \<and> organization_row (sr_db sr') (in_organization_id x) = Some g
      \<and> og_status g \<noteq> ''cancelled'' \<and> branch_row (sr_db sr') (in_branch_id x) = Some b \<and> br_organization_id b = og_id g
      \<and> og_operational_customer_id g = Some (ik_customer_id k) \<and> br_operational_branch_id b = Some (ik_branch_id k)"
    by (intro exI [of _ x] exI [of _ g] exI [of _ b]) (use m in simp)
qed

section \<open>A sample\<close>

lemma sample_owned: "\<exists>e sr'. redeem_enrollment_code sample_env 500 501 sample_draws None None sample_server ''sv-abcd-efgh-jkmn-pqrs'' (Some 2) = Inr (e, sr')
    \<and> (\<exists>k \<in> set (db_keys (sr_db sr')). ik_status k = ''active'' \<and> ik_installation_id k = Some 5)"
proof -
  have i: "ec_installation_id sample_code = 5" "ec_required_contract sample_code = 2" by (simp_all add: sample_code_def)
  have p: "require_permitted_contract 2 (Some 2) = Inr 2" by code_simp
  have strip: "py_strip enrollment_cutover_set_by = enrollment_cutover_set_by" "enrollment_cutover_set_by \<noteq> []" by code_simp+
  show ?thesis
    by (simp add: redeem_enrollment_code_def sample_presented i sample_scope p sample_prepared Let_def
      claim_code_eq [OF sample_wf(1) sample_presented, unfolded i] v2_identity_def issue_ingest_key_def record_initial_v2_cutover_def
      record_v2_cutover_def require_provisionable_tenant_def mapped_status_def strip has_any_v2_cutover_def)
      (simp add: sample_server_def sample_draws_def)
qed

theorem owned_keys_keep_their_owner_witness:
  "\<exists>sr' k x. k \<in> set (db_keys (sr_db sr')) \<and> ik_status k = ''active'' \<and> installation_row (sr_db sr') 5 = Some x \<and> in_status x \<noteq> ''retired''
     \<and> tenant_step sample_server sr'"
proof -
  obtain e sr' k where e: "redeem_enrollment_code sample_env 500 501 sample_draws None None sample_server ''sv-abcd-efgh-jkmn-pqrs'' (Some 2) = Inr (e, sr')"
    and k: "k \<in> set (db_keys (sr_db sr'))" "ik_status k = ''active''" "ik_installation_id k = Some 5" using sample_owned by blast
  have t: "tenant_step sample_server sr'"
    by (rule tenant_step.enroll [where env = sample_env and now = 500 and stamp = 501 and draws = sample_draws and hostname = None
        and version = None and raw = "''sv-abcd-efgh-jkmn-pqrs''" and requested = "Some 2" and e = e])
      (simp_all add: collector_enroll_def e sample_draws_fresh)
  have "owned_keys (sr_db sample_server)" by (simp add: owned_keys_def sample_server_def)
  from owned_keys_keep_their_owner [OF r_into_rtranclp [of tenant_step, OF t] sample_tenants this] k t show ?thesis by blast
qed

end
